(* ===== verification/Kernel_Prelude.thy ===== *)
theory Kernel_Prelude
  imports Main "HOL-Library.Word" "HOL-Library.Multiset"
begin

text \<open>
  The prelude of the development: the machine types of the kernel, C strings held in
  fixed arrays, little-endian words, first-fit searches and wrap-around counters, with
  the generic lemmas the component theories share.

  Conventions used by every theory.
  \<^item> A \<open>uint8_t\<close>, \<open>uint16_t\<close> or \<open>uint32_t\<close> whose wrap-around the code can reach is a
    word of that width. A \<open>uint32_t\<close> that only indexes an array or counts its used
    slots is a \<open>nat\<close>; the invariants bound it by the array's capacity.
  \<^item> A PID or a status code (\<open>int32_t\<close>, \<open>int\<close>) is an \<open>int\<close>: the code compares and copies
    them but does no arithmetic on them.
  \<^item> A C string argument is the list of its characters; reading at or past its end gives
    the terminating NUL (\<open>rd\<close>). A fixed array \<open>char x[N]\<close> is a list of length \<open>N\<close>.
  \<^item> A pointer the code tests against NULL is an \<open>option\<close>. The address of a field of a
    kernel structure cannot be NULL and is the value of that field.
\<close>

unbundle bit_operations_syntax

type_synonym u8 = "8 word"
type_synonym u16 = "16 word"
type_synonym u32 = "32 word"
type_synonym pid = int
type_synonym rc = int
type_synonym cstring = "char list"

named_theorems kernel_consts \<open>values of the constants of the headers\<close>

abbreviation NUL :: char where "NUL \<equiv> CHR 0x00"


subsection \<open>C strings\<close>

definition rd :: "cstring \<Rightarrow> nat \<Rightarrow> char" where
  "rd s i = (if i < length s then s ! i else NUL)"

definition cstr :: "cstring \<Rightarrow> cstring" where
  "cstr s = takeWhile (\<lambda>c. c \<noteq> NUL) s"

lemma rd_Nil [simp]: "rd [] i = NUL"
  by (simp add: rd_def)

lemma rd_Cons_0 [simp]: "rd (c # s) 0 = c"
  by (simp add: rd_def)

lemma rd_Cons_Suc [simp]: "rd (c # s) (Suc i) = rd s i"
  by (simp add: rd_def)

lemma cstr_Nil [simp]: "cstr [] = []"
  by (simp add: cstr_def)

lemma cstr_Cons [simp]: "cstr (c # s) = (if c = NUL then [] else c # cstr s)"
  by (simp add: cstr_def)

lemma cstr_empty_iff: "cstr s = [] \<longleftrightarrow> rd s 0 = NUL"
  by (cases s) auto

lemma NUL_notin_cstr [simp]: "NUL \<notin> set (cstr s)"
  by (auto simp: cstr_def dest: set_takeWhileD)

lemma cstr_idem [simp]: "cstr (cstr s) = cstr s"
  by (induction s) auto

lemma cstr_append_NUL: "NUL \<notin> set s \<Longrightarrow> cstr (s @ NUL # t) = s"
  by (induction s) auto

lemma cstr_of_no_NUL: "NUL \<notin> set s \<Longrightarrow> cstr s = s"
  by (induction s) auto

text \<open>
  The comparison loop of \<open>name_equal\<close> and \<open>service_registry_backend_prefix_equal\<close>: at
  most \<open>n\<close> positions, equal when the NUL is reached with no difference before it.
\<close>

fun str_eq_upto :: "nat \<Rightarrow> cstring \<Rightarrow> cstring \<Rightarrow> bool" where
  "str_eq_upto 0 l r = False"
| "str_eq_upto (Suc n) l r =
     (if rd l 0 \<noteq> rd r 0 then False
      else if rd l 0 = NUL then True
      else str_eq_upto n (tl l) (tl r))"

lemma str_eq_upto_iff:
  "str_eq_upto n l r \<longleftrightarrow> cstr l = cstr r \<and> length (cstr l) < n"
proof (induction n arbitrary: l r)
  case (Suc n)
  show ?case
    by (cases l; cases r) (auto simp: Suc.IH)
qed simp

text \<open>
  The copy loop of \<open>copy_name\<close> and \<open>service_registry_backend_copy_prefix\<close> into an array
  of \<open>n\<close> bytes: up to the NUL, then NUL padding.
\<close>

fun copy_upto :: "nat \<Rightarrow> cstring \<Rightarrow> cstring" where
  "copy_upto 0 s = []"
| "copy_upto (Suc n) s =
     (if rd s 0 = NUL then replicate (Suc n) NUL else rd s 0 # copy_upto n (tl s))"

lemma length_copy_upto [simp]: "length (copy_upto n s) = n"
  by (induction n s rule: copy_upto.induct) auto

lemma cstr_replicate_NUL [simp]: "cstr (replicate n NUL) = []"
  by (cases n) auto

lemma cstr_copy_upto: "cstr (copy_upto n s) = take n (cstr s)"
proof (induction n arbitrary: s)
  case (Suc n)
  then show ?case by (cases s) auto
qed simp

lemma cstr_copy_upto_short: "length (cstr s) < n \<Longrightarrow> cstr (copy_upto n s) = cstr s"
  by (simp add: cstr_copy_upto)

lemma copy_upto_eq: "copy_upto n s = take n (cstr s) @ replicate (n - length (cstr s)) NUL"
proof (induction n arbitrary: s)
  case (Suc n)
  then show ?case by (cases s) auto
qed simp

lemma copy_upto_cong: "cstr s = cstr t \<Longrightarrow> copy_upto n s = copy_upto n t"
  by (simp add: copy_upto_eq)

text \<open>Writing NUL to the first byte of an array (\<open>x[0] = '\\0'\<close>) makes it the empty string.\<close>

definition clear0 :: "cstring \<Rightarrow> cstring" where
  "clear0 s = s[0 := NUL]"

lemma length_clear0 [simp]: "length (clear0 s) = length s"
  by (simp add: clear0_def)

lemma cstr_clear0 [simp]: "cstr (clear0 s) = []"
  by (cases s) (auto simp: clear0_def)


subsection \<open>First-fit searches\<close>

text \<open>\<open>for (i = 0; i < N; i++) if (P(a[i])) return i;\<close>\<close>

fun first_idx :: "('a \<Rightarrow> bool) \<Rightarrow> 'a list \<Rightarrow> nat option" where
  "first_idx P [] = None"
| "first_idx P (x # xs) = (if P x then Some 0 else map_option Suc (first_idx P xs))"

lemma first_idx_None: "first_idx P xs = None \<longleftrightarrow> (\<forall>x\<in>set xs. \<not> P x)"
  by (induction xs) auto

lemma first_idx_Some:
  "first_idx P xs = Some i \<longleftrightarrow> i < length xs \<and> P (xs ! i) \<and> (\<forall>j<i. \<not> P (xs ! j))"
proof (induction xs arbitrary: i)
  case (Cons x xs)
  show ?case
    by (cases i) (auto simp: Cons.IH less_Suc_eq_0_disj)
qed simp

lemma first_idx_SomeD:
  assumes "first_idx P xs = Some i"
  shows "i < length xs" and "P (xs ! i)" and "\<And>j. j < i \<Longrightarrow> \<not> P (xs ! j)"
  using assms by (simp_all add: first_idx_Some)

lemma first_idx_exists: "x \<in> set xs \<Longrightarrow> P x \<Longrightarrow> \<exists>i. first_idx P xs = Some i"
  by (cases "first_idx P xs") (auto simp: first_idx_None)


subsection \<open>Oldest-first searches\<close>

text \<open>
  The loop that keeps the position of the smallest key seen so far:
  \<open>if (P(a[i]) && (found < 0 || key(a[i]) < best)) { found = i; best = key(a[i]); }\<close>
\<close>

fun min_loop :: "('a \<Rightarrow> bool) \<Rightarrow> ('a \<Rightarrow> u32) \<Rightarrow> nat \<Rightarrow> (nat \<times> u32) option \<Rightarrow> 'a list
    \<Rightarrow> (nat \<times> u32) option" where
  "min_loop P key i acc [] = acc"
| "min_loop P key i acc (x # xs) =
     min_loop P key (Suc i)
       (if P x \<and> (case acc of None \<Rightarrow> True | Some (_, best) \<Rightarrow> key x < best)
        then Some (i, key x) else acc) xs"

definition min_idx :: "('a \<Rightarrow> bool) \<Rightarrow> ('a \<Rightarrow> u32) \<Rightarrow> 'a list \<Rightarrow> nat option" where
  "min_idx P key xs = map_option fst (min_loop P key 0 None xs)"

definition min_upto :: "('a \<Rightarrow> bool) \<Rightarrow> ('a \<Rightarrow> u32) \<Rightarrow> (nat \<times> u32) option \<Rightarrow> 'a list \<Rightarrow> bool" where
  "min_upto P key acc xs \<longleftrightarrow>
     (case acc of
        None \<Rightarrow> \<forall>x\<in>set xs. \<not> P x
      | Some (i, b) \<Rightarrow> i < length xs \<and> P (xs ! i) \<and> key (xs ! i) = b \<and>
          (\<forall>x\<in>set xs. P x \<longrightarrow> b \<le> key x))"

lemma min_loop_min: "min_upto P key acc ys \<Longrightarrow>
    min_upto P key (min_loop P key (length ys) acc xs) (ys @ xs)"
proof (induction xs arbitrary: ys acc)
  case (Cons x xs)
  let ?acc = "if P x \<and> (case acc of None \<Rightarrow> True | Some (_, best) \<Rightarrow> key x < best)
      then Some (length ys, key x) else acc"
  have "min_upto P key ?acc (ys @ [x])"
    using Cons.prems by (auto simp: min_upto_def nth_append split: option.splits prod.splits)
  from Cons.IH [OF this] show ?case by simp
qed simp

lemma min_idx_upto: "min_upto P key (min_loop P key 0 None xs) xs"
  using min_loop_min [of P key None "[]" xs] by (simp add: min_upto_def)

lemma min_idx_None: "min_idx P key xs = None \<longleftrightarrow> (\<forall>x\<in>set xs. \<not> P x)"
proof -
  have "min_upto P key (min_loop P key 0 None xs) xs" by (rule min_idx_upto)
  then show ?thesis
    by (cases "min_loop P key 0 None xs") (auto simp: min_upto_def min_idx_def)
qed

lemma min_idx_SomeD:
  assumes "min_idx P key xs = Some i"
  shows "i < length xs" and "P (xs ! i)" and "\<And>x. x \<in> set xs \<Longrightarrow> P x \<Longrightarrow> key (xs ! i) \<le> key x"
  using assms min_idx_upto [of P key xs] by (auto simp: min_upto_def min_idx_def)


subsection \<open>Slots sorted by a distinct key\<close>

lemma sort_key_unique:
  assumes "mset ys = mset xs" and "sorted (map f ys)" and "distinct (map f ys)"
  shows "sort_key f xs = ys"
proof -
  have set: "set (sort_key f xs) = set ys" using assms(1) by (metis mset_eq_setD set_sort)
  have "distinct (map f (sort_key f xs))"
    using assms(1,3) mset_eq_imp_distinct_iff [of "map f (sort_key f xs)" "map f ys"] by simp
  then have "map f (sort_key f xs) = map f ys"
    using assms set by (intro sorted_distinct_set_unique) auto
  moreover have "inj_on f (set (sort_key f xs) \<union> set ys)"
    using assms(3) set by (simp add: distinct_map)
  ultimately show ?thesis by (simp add: inj_on_map_eq_map)
qed

lemma sort_key_snoc_max:
  assumes "mset ys = add_mset x (mset xs)" and "distinct (map f xs)"
    and "\<And>y. y \<in> set xs \<Longrightarrow> f y < f x"
  shows "sort_key f ys = sort_key f xs @ [x]"
proof (rule sort_key_unique)
  show "mset (sort_key f xs @ [x]) = mset ys" using assms(1) by simp
  show "sorted (map f (sort_key f xs @ [x]))"
    using assms(3) by (auto simp: sorted_append order.strict_implies_order)
  have "distinct (map f (sort_key f xs))"
    using assms(2) mset_eq_imp_distinct_iff [of "map f (sort_key f xs)" "map f xs"] by simp
  then show "distinct (map f (sort_key f xs @ [x]))" using assms(3) by force
qed

lemma sort_key_cons_min:
  assumes "mset ys = add_mset x (mset xs)" and "distinct (map f ys)"
    and "\<And>y. y \<in> set xs \<Longrightarrow> f x \<le> f y"
  shows "sort_key f ys = x # sort_key f xs"
proof (rule sort_key_unique)
  show "mset (x # sort_key f xs) = mset ys" using assms(1) by simp
  show "sorted (map f (x # sort_key f xs))" using assms(3) by simp
  have "mset (map f (x # sort_key f xs)) = mset (map f ys)" using assms(1) by simp
  then show "distinct (map f (x # sort_key f xs))"
    using assms(2) mset_eq_imp_distinct_iff by blast
qed

lemma mset_filter_update:
  assumes "i < length xs"
  shows "mset (filter P (xs[i := y])) =
    (if P y then {#y#} else {#}) + (mset (filter P xs) - (if P (xs ! i) then {#xs ! i#} else {#}))"
  using assms by (simp add: mset_update filter_diff_mset)


lemma filter_split:
  assumes "i < length xs"
  shows "filter P xs = filter P (take i xs) @ (if P (xs ! i) then [xs ! i] else []) @ filter P (drop (Suc i) xs)"
  by (subst id_take_nth_drop [OF assms]) simp

lemma filter_update:
  assumes "i < length xs"
  shows "filter P (xs[i := y]) = filter P (take i xs) @ (if P y then [y] else []) @ filter P (drop (Suc i) xs)"
  using assms by (simp add: upd_conv_take_nth_drop)

lemma distinct_filter_update:
  assumes "distinct (map f (filter P xs))" and "i < length xs"
    and "P y \<Longrightarrow> \<forall>x\<in>set xs. P x \<longrightarrow> f x \<noteq> f y"
  shows "distinct (map f (filter P (xs[i := y])))"
proof -
  have "P y \<Longrightarrow> f y \<notin> f ` {x \<in> set (take i xs). P x}" "P y \<Longrightarrow> f y \<notin> f ` {x \<in> set (drop (Suc i) xs). P x}"
    using assms(3) by (auto dest!: in_set_takeD in_set_dropD)
  then show ?thesis
    using assms(1,2) by (auto simp: filter_split [OF assms(2)] filter_update split: if_splits)
qed

subsection \<open>Counters that skip zero\<close>

text \<open>\<open>x++; if (x == 0) x = 1;\<close>, the idiom of every generation and sequence counter.\<close>

definition next_nonzero :: "u32 \<Rightarrow> u32" where
  "next_nonzero x = (if x + 1 = 0 then 1 else x + 1)"

lemma next_nonzero_neq_0 [simp]: "next_nonzero x \<noteq> 0"
  by (simp add: next_nonzero_def)

lemma next_nonzero_neq_self [simp]: "next_nonzero x \<noteq> x"
  by (auto simp: next_nonzero_def)

lemma unat_next_nonzero: "x \<noteq> - 1 \<Longrightarrow> unat (next_nonzero x) = Suc (unat x)"
  by (simp add: next_nonzero_def add_eq_0_iff unatSuc add.commute)


subsection \<open>Little-endian words\<close>

text \<open>\<open>os_ipc_encode_u32\<close> and \<open>os_ipc_decode_u32\<close>; the same layout is what a packed
  structure of \<open>uint32_t\<close> fields has on the i386 target.\<close>

definition enc32 :: "u32 \<Rightarrow> u8 list" where
  "enc32 v = [ucast (v AND 0xff), ucast (drop_bit 8 v AND 0xff),
              ucast (drop_bit 16 v AND 0xff), ucast (drop_bit 24 v AND 0xff)]"

definition dec32 :: "u8 list \<Rightarrow> u32" where
  "dec32 b = ucast (b ! 0) OR push_bit 8 (ucast (b ! 1)) OR
             push_bit 16 (ucast (b ! 2)) OR push_bit 24 (ucast (b ! 3))"

lemma length_enc32 [simp]: "length (enc32 v) = 4"
  by (simp add: enc32_def)

lemma mask_ff: "(0xff :: u32) = mask 8"
  by (simp add: mask_eq_exp_minus_1)

lemma dec32_enc32 [simp]: "dec32 (enc32 v) = v"
proof (rule bit_word_eqI)
  fix n assume "n < LENGTH(32)"
  then consider "n < 8" | "8 \<le> n" "n < 16" | "16 \<le> n" "n < 24" | "24 \<le> n" "n < 32"
    by fastforce
  then show "bit (dec32 (enc32 v)) n = bit v n"
    by cases (auto simp: dec32_def enc32_def mask_ff bit_simps)
qed

lemma dec32_append [simp]: "length xs = 4 \<Longrightarrow> dec32 (xs @ ys) = dec32 xs"
  by (simp add: dec32_def nth_append)

text \<open>\<open>os_service_encode_i32\<close> and \<open>os_service_decode_i32\<close>: the same bytes, read back signed.\<close>

definition enc_i32 :: "int \<Rightarrow> u8 list" where
  "enc_i32 v = enc32 (word_of_int v)"

definition dec_i32 :: "u8 list \<Rightarrow> int" where
  "dec_i32 b = sint (dec32 b)"

definition int32 :: "int \<Rightarrow> bool" where
  "int32 v \<longleftrightarrow> - (2 ^ 31) \<le> v \<and> v < 2 ^ 31"

lemma length_enc_i32 [simp]: "length (enc_i32 v) = 4"
  by (simp add: enc_i32_def)

lemma dec_i32_enc_i32 [simp]: "int32 v \<Longrightarrow> dec_i32 (enc_i32 v) = v"
  by (simp add: dec_i32_def enc_i32_def int32_def sint_sbintrunc' signed_take_bit_int_eq_self)


lemma dec_i32_append [simp]: "length xs = 4 \<Longrightarrow> dec_i32 (xs @ ys) = dec_i32 xs"
  by (simp add: dec_i32_def)

text \<open>\<open>(uint8_t)c\<close> and \<open>(char)b\<close>.\<close>

definition byte :: "char \<Rightarrow> u8" where
  "byte c = word_of_nat (of_char c)"

definition chr :: "u8 \<Rightarrow> char" where
  "chr b = char_of (unat b)"

lemma chr_byte [simp]: "chr (byte c) = c"
proof -
  have "(of_char c :: nat) < 256"
    by (metis nat_of_char_less_256)
  then show ?thesis by (simp add: chr_def byte_def unat_of_nat)
qed

lemma chr_0 [simp]: "chr 0 = NUL"
  by (simp add: chr_def char_of_def)

end
