(* ===== verification/Linked_Ring.thy ===== *)
theory Linked_Ring
  imports Kernel_Prelude
begin

text \<open>
  Circular doubly linked lists, as the task queue is one: \<open>nx\<close> and \<open>pv\<close> are the pointer
  fields of the nodes, and \<open>linked_ring nx pv xs\<close> says that following \<open>nx\<close> from the head of
  \<open>xs\<close> visits exactly \<open>xs\<close> and returns to the head, with \<open>pv\<close> the way back. The pointer
  updates of insertion and removal are shown to be the list operations.
\<close>

fun segs :: "('a \<Rightarrow> 'a option) \<Rightarrow> ('a \<Rightarrow> 'a option) \<Rightarrow> 'a list \<Rightarrow> bool" where
  "segs nx pv (x # y # zs) \<longleftrightarrow> nx x = Some y \<and> pv y = Some x \<and> segs nx pv (y # zs)"
| "segs nx pv [x] \<longleftrightarrow> True"
| "segs nx pv [] \<longleftrightarrow> True"

definition linked_ring :: "('a \<Rightarrow> 'a option) \<Rightarrow> ('a \<Rightarrow> 'a option) \<Rightarrow> 'a list \<Rightarrow> bool" where
  "linked_ring nx pv xs \<longleftrightarrow> distinct xs \<and> segs nx pv xs \<and>
     (xs \<noteq> [] \<longrightarrow> nx (last xs) = Some (hd xs) \<and> pv (hd xs) = Some (last xs))"

text \<open>
  The traversal \<open>t = h; do { ... t = t->next; } while (t && t != h);\<close>: the nodes it visits,
  with a bound on the number of steps.
\<close>

fun ring_walk :: "nat \<Rightarrow> ('a \<Rightarrow> 'a option) \<Rightarrow> 'a \<Rightarrow> 'a \<Rightarrow> 'a list" where
  "ring_walk 0 nx h t = []"
| "ring_walk (Suc n) nx h t =
     t # (case nx t of None \<Rightarrow> [] | Some u \<Rightarrow> if u = h then [] else ring_walk n nx h u)"

lemma segs_append:
  "segs nx pv (xs @ ys) \<longleftrightarrow> segs nx pv xs \<and> segs nx pv ys \<and>
     (xs \<noteq> [] \<and> ys \<noteq> [] \<longrightarrow> nx (last xs) = Some (hd ys) \<and> pv (hd ys) = Some (last xs))"
proof (induction nx pv xs rule: segs.induct)
  case (2 nx pv x)
  then show ?case by (cases ys) auto
qed auto

lemma in_set_tlD: "x \<in> set (tl xs) \<Longrightarrow> x \<in> set xs"
  by (cases xs) auto

lemma last_notin_butlast: "distinct xs \<Longrightarrow> xs \<noteq> [] \<Longrightarrow> last xs \<notin> set (butlast xs)"
  by (cases xs rule: rev_cases) auto

lemma hd_notin_tl: "distinct xs \<Longrightarrow> xs \<noteq> [] \<Longrightarrow> hd xs \<notin> set (tl xs)"
  by (cases xs) auto

lemma segs_congr:
  "(\<And>x. x \<in> set (butlast xs) \<Longrightarrow> nx x = nx' x) \<Longrightarrow> (\<And>x. x \<in> set (tl xs) \<Longrightarrow> pv x = pv' x) \<Longrightarrow>
    segs nx pv xs = segs nx' pv' xs"
proof (induction nx pv xs rule: segs.induct)
  case (1 nx pv x y zs)
  have "segs nx pv (y # zs) = segs nx' pv' (y # zs)"
    using 1 by (intro "1.IH") (auto dest: in_set_tlD)
  with 1 show ?case by auto
qed auto

lemma segs_update:
  assumes "segs nx pv xs" and "a \<notin> set (butlast xs)" and "b \<notin> set (tl xs)"
  shows "segs (nx(a := v)) (pv(b := w)) xs"
proof -
  have "segs nx pv xs = segs (nx(a := v)) (pv(b := w)) xs"
    using assms(2,3) by (intro segs_congr) auto
  with assms(1) show ?thesis by simp
qed

lemma linked_ring_congr:
  assumes "\<And>x. x \<in> set xs \<Longrightarrow> nx x = nx' x" and "\<And>x. x \<in> set xs \<Longrightarrow> pv x = pv' x"
  shows "linked_ring nx pv xs = linked_ring nx' pv' xs"
proof -
  have "segs nx pv xs = segs nx' pv' xs"
    using assms by (intro segs_congr) (auto dest: in_set_butlastD in_set_tlD)
  with assms show ?thesis by (auto simp: linked_ring_def)
qed

lemma linked_ring_Nil [simp]: "linked_ring nx pv []"
  by (simp add: linked_ring_def)

lemma linked_ring_single: "linked_ring nx pv [x] \<longleftrightarrow> nx x = Some x \<and> pv x = Some x"
  by (simp add: linked_ring_def)

text \<open>Rotating the list of a ring is the same ring seen from another node.\<close>

lemma linked_ring_rotate:
  assumes "linked_ring nx pv (xs @ ys)"
  shows "linked_ring nx pv (ys @ xs)"
proof (cases "xs = [] \<or> ys = []")
  case False
  with assms show ?thesis by (auto simp: linked_ring_def segs_append)
qed (use assms in auto)

lemma linked_ring_next:
  assumes "linked_ring nx pv xs" and "x \<in> set xs"
  shows "\<exists>y\<in>set xs. nx x = Some y"
proof -
  obtain ys zs where xs: "xs = ys @ x # zs" using assms(2) by (meson split_list)
  then have "linked_ring nx pv (x # zs @ ys)"
    using linked_ring_rotate [of nx pv ys "x # zs"] assms(1) by simp
  then have "nx x = Some (hd ((zs @ ys) @ [x]))"
    by (cases "zs @ ys") (auto simp: linked_ring_def simp del: append_assoc)
  moreover have "hd ((zs @ ys) @ [x]) \<in> set ((zs @ ys) @ [x])" by (intro hd_in_set) simp
  ultimately show ?thesis using xs by auto
qed

lemma linked_ring_prev:
  assumes "linked_ring nx pv xs" and "x \<in> set xs"
  shows "\<exists>y\<in>set xs. pv x = Some y"
proof -
  obtain ys zs where xs: "xs = ys @ x # zs" using assms(2) by (meson split_list)
  then have "linked_ring nx pv (x # zs @ ys)"
    using linked_ring_rotate [of nx pv ys "x # zs"] assms(1) by simp
  then have "pv x = Some (last (x # zs @ ys))" by (simp add: linked_ring_def)
  moreover have "last (x # zs @ ys) \<in> set (x # zs @ ys)" by (rule last_in_set) simp
  ultimately show ?thesis using xs by auto
qed

lemma ring_walk_segs:
  assumes "segs nx pv (t # xs)" and "distinct (t # xs)" and "h \<notin> set xs"
    and "nx (last (t # xs)) = Some h" and "length (t # xs) \<le> n"
  shows "ring_walk n nx h t = t # xs"
  using assms
proof (induction xs arbitrary: t n)
  case Nil
  then show ?case by (cases n) auto
next
  case (Cons x xs)
  then show ?case by (cases n) auto
qed

text \<open>The traversal visits the list of the ring, from any node.\<close>

lemma ring_walk_ring:
  assumes "linked_ring nx pv (h # xs)" and "length (h # xs) \<le> n"
  shows "ring_walk n nx h h = h # xs"
  using assms by (intro ring_walk_segs) (auto simp: linked_ring_def)

text \<open>Insertion before the head, as \<open>add_task_to_queue\<close> does it, appends.\<close>

lemma linked_ring_append:
  assumes "linked_ring nx pv xs" and "xs \<noteq> []" and "t \<notin> set xs" and "pv (hd xs) = Some l"
  shows "linked_ring (nx(t := Some (hd xs), l := Some t)) (pv(t := Some l, hd xs := Some t)) (xs @ [t])"
proof -
  have l: "l = last xs" using assms by (simp add: linked_ring_def)
  have d: "distinct xs" using assms by (simp add: linked_ring_def)
  have "segs (nx(t := Some (hd xs))) (pv(t := Some l)) xs"
    using assms by (intro segs_update) (auto simp: linked_ring_def dest: in_set_butlastD in_set_tlD)
  then have "segs (nx(t := Some (hd xs), l := Some t)) (pv(t := Some l, hd xs := Some t)) xs"
    unfolding l by (rule segs_update) (simp_all add: last_notin_butlast hd_notin_tl d assms(2))
  moreover have "l \<noteq> t" "hd xs \<noteq> t" using assms(2,3) l by auto
  ultimately show ?thesis
    using assms(2,3) d l by (auto simp: linked_ring_def segs_append)
qed

text \<open>Unlinking a node, as \<open>unlink_task\<close> does it, removes it.\<close>

lemma linked_ring_unlink_hd:
  assumes "linked_ring nx pv (t # r)" and "r \<noteq> []" and "nx t = Some n" and "pv t = Some p"
  shows "linked_ring (nx(p := Some n)) (pv(n := Some p)) r \<and> n = hd r \<and> p = last r"
proof -
  have n: "n = hd r" and p: "p = last r" and d: "distinct r" and s: "segs nx pv r"
    using assms by (cases r; auto simp: linked_ring_def)+
  have "segs (nx(p := Some n)) (pv(n := Some p)) r"
    unfolding n p by (intro segs_update last_notin_butlast hd_notin_tl s d assms(2))
  with d n p show ?thesis by (simp add: linked_ring_def)
qed

lemma linked_ring_unlink:
  assumes "linked_ring nx pv xs" and "t \<in> set xs" and "xs \<noteq> [t]"
    and "nx t = Some n" and "pv t = Some p"
  shows "linked_ring (nx(p := Some n)) (pv(n := Some p)) (remove1 t xs) \<and>
    n \<noteq> t \<and> p \<noteq> t \<and> n \<in> set xs \<and> p \<in> set xs"
proof -
  obtain ys zs where xs: "xs = ys @ t # zs" using assms(2) by (meson split_list)
  have t: "t \<notin> set ys" "t \<notin> set zs" using assms(1) xs by (auto simp: linked_ring_def)
  have "linked_ring nx pv (t # zs @ ys)"
    using linked_ring_rotate [of nx pv ys "t # zs"] assms(1) xs by simp
  moreover have ne: "zs @ ys \<noteq> []" using assms(3) xs by auto
  ultimately have r: "linked_ring (nx(p := Some n)) (pv(n := Some p)) (zs @ ys)"
    and np: "n = hd (zs @ ys)" "p = last (zs @ ys)"
    using linked_ring_unlink_hd [where r = "zs @ ys" and t = t and nx = nx and pv = pv and n = n and p = p]
      assms(4,5) by auto
  have "n \<in> set (zs @ ys)" "p \<in> set (zs @ ys)" unfolding np using ne by (auto intro!: hd_in_set last_in_set simp del: set_append)
  then have "n \<noteq> t \<and> p \<noteq> t \<and> n \<in> set xs \<and> p \<in> set xs" using t xs by auto
  with linked_ring_rotate [OF r] xs t show ?thesis by (auto simp: remove1_append)
qed

lemma remove1_hd: "xs \<noteq> [] \<Longrightarrow> remove1 (hd xs) xs = tl xs"
  by (cases xs) auto

text \<open>Insertion right after the head, as \<open>task_queue_move_first_user\<close> does it.\<close>

lemma linked_ring_insert_second:
  assumes "linked_ring nx pv (h # r)" and "t \<notin> set (h # r)" and "nx h = Some n"
  shows "linked_ring (nx(t := Some n, h := Some t)) (pv(t := Some h, n := Some t)) (h # t # r)"
proof -
  have ring: "linked_ring nx pv (r @ [h])" using linked_ring_rotate [of nx pv "[h]" r] assms(1) by simp
  have hd: "hd (r @ [h]) = n"
    using assms(1,3) by (cases r) (simp_all add: linked_ring_def)
  have "pv n = Some h" using ring hd by (simp add: linked_ring_def)
  then have "pv (hd (r @ [h])) = Some h" unfolding hd .
  moreover have "r @ [h] \<noteq> []" "t \<notin> set (r @ [h])" using assms(2) by auto
  ultimately have "linked_ring (nx(t := Some (hd (r @ [h])), h := Some t))
      (pv(t := Some h, hd (r @ [h]) := Some t)) ((r @ [h]) @ [t])"
    using linked_ring_append [OF ring] by blast
  then have "linked_ring (nx(t := Some n, h := Some t)) (pv(t := Some h, n := Some t)) ((r @ [h]) @ [t])"
    unfolding hd .
  then have "linked_ring (nx(t := Some n, h := Some t)) (pv(t := Some h, n := Some t)) ([h, t] @ r)"
    using linked_ring_rotate [of _ _ r "[h, t]"] by simp
  then show ?thesis by simp
qed

end
