(* ===== verification/Ipc_Wait.thy ===== *)
theory Ipc_Wait
  imports Kernel_Prelude
begin

text \<open>
  The blocking-receive state machine of a task (\<open>kernel/ipc_wait.c\<close>): the decision to
  sleep, the wake-up by a queued message, the wake-up by the timer and what happens when
  the task runs again. The \<open>uint8_t\<close> flags only ever hold 0 or 1 and are booleans here;
  the deadline and the counters keep their 32 bits.
\<close>

record ipc_wait =
  w_blocked :: bool
  w_forever :: bool
  w_timed_out :: bool
  w_woken :: bool
  w_deadline :: u32
  w_waits :: u32
  w_wakes :: u32
  w_timeouts :: u32

abbreviation (input) IPC_WAIT_RETURN :: int where "IPC_WAIT_RETURN \<equiv> 0"
abbreviation (input) IPC_WAIT_BLOCK :: int where "IPC_WAIT_BLOCK \<equiv> 1"
abbreviation (input) OS_IPC_WAIT_FOREVER :: u32 where "OS_IPC_WAIT_FOREVER \<equiv> 0xFFFFFFFF"

definition ipc_wait_zero :: ipc_wait where
  "ipc_wait_zero = \<lparr>w_blocked = False, w_forever = False, w_timed_out = False, w_woken = False,
     w_deadline = 0, w_waits = 0, w_wakes = 0, w_timeouts = 0\<rparr>"

definition ipc_wait_decide :: "rc \<Rightarrow> rc \<Rightarrow> u32 \<Rightarrow> bool \<Rightarrow> int" where
  "ipc_wait_decide recv_rc empty_rc timeout may_block =
     (if recv_rc \<noteq> empty_rc then IPC_WAIT_RETURN
      else if timeout = 0 \<or> \<not> may_block then IPC_WAIT_RETURN
      else IPC_WAIT_BLOCK)"

definition ipc_wait_begin :: "ipc_wait \<Rightarrow> u32 \<Rightarrow> u32 \<Rightarrow> u32 \<Rightarrow> ipc_wait" where
  "ipc_wait_begin w now timeout forever_value =
     w\<lparr>w_blocked := True, w_forever := (timeout = forever_value), w_timed_out := False,
       w_woken := False, w_deadline := now + timeout, w_waits := w_waits w + 1\<rparr>"

text \<open>The boolean result says that a blocked waiter must be made ready.\<close>

definition ipc_wait_on_message :: "ipc_wait \<Rightarrow> bool \<times> ipc_wait" where
  "ipc_wait_on_message w =
     (if \<not> w_blocked w then (False, w)
      else (True, w\<lparr>w_blocked := False, w_woken := True, w_wakes := w_wakes w + 1\<rparr>))"

definition ipc_wait_on_tick :: "ipc_wait \<Rightarrow> u32 \<Rightarrow> bool \<times> ipc_wait" where
  "ipc_wait_on_tick w now =
     (if \<not> w_blocked w \<or> w_forever w then (False, w)
      else if sint (now - w_deadline w) < 0 then (False, w)
      else (True, w\<lparr>w_blocked := False, w_timed_out := True, w_timeouts := w_timeouts w + 1\<rparr>))"

text \<open>\<open>Some rc\<close> is \<open>IPC_WAIT_RETURN\<close> with \<open>*out_rc = rc\<close>; \<open>None\<close> is \<open>IPC_WAIT_BLOCK\<close>.\<close>

definition ipc_wait_after_wake :: "ipc_wait \<Rightarrow> rc \<Rightarrow> rc \<Rightarrow> rc \<Rightarrow> u32 \<Rightarrow> rc option \<times> ipc_wait" where
  "ipc_wait_after_wake w recv_rc empty_rc timeout_rc now =
     (if recv_rc \<noteq> empty_rc then (Some recv_rc, w\<lparr>w_blocked := False\<rparr>)
      else if w_timed_out w \<or> (\<not> w_forever w \<and> sint (now - w_deadline w) \<ge> 0) then
        (Some timeout_rc,
         w\<lparr>w_timeouts := (if w_timed_out w then w_timeouts w else w_timeouts w + 1),
           w_timed_out := True, w_blocked := False\<rparr>)
      else (None, w\<lparr>w_blocked := True, w_woken := False\<rparr>))"

definition ipc_wait_cancel :: "ipc_wait \<Rightarrow> ipc_wait" where
  "ipc_wait_cancel w = w\<lparr>w_blocked := False, w_woken := False, w_timed_out := False\<rparr>"


subsection \<open>Signed differences of clock values\<close>

lemma sint_diff_small:
  fixes a b :: u32
  assumes "unat a < 2 ^ 31" and "unat b < 2 ^ 31"
  shows "sint (a - b) = int (unat a) - int (unat b)"
proof -
  have bounds: "- (2 ^ 31) \<le> int x - int y \<and> int x - int y < 2 ^ 31"
    if "x < 2 ^ 31" and "y < 2 ^ 31" for x y :: nat
    using that by simp
  have "sint (a - b) = sint (word_of_int (int (unat a) - int (unat b)) :: u32)"
    by simp
  also have "\<dots> = signed_take_bit 31 (int (unat a) - int (unat b))"
    by (simp only: sint_sbintrunc') simp
  also have "\<dots> = int (unat a) - int (unat b)"
    using bounds [OF assms] by (intro signed_take_bit_int_eq_self) blast+
  finally show ?thesis .
qed

lemma clock_diff: "(now + d) - (now + t) = d - (t :: u32)"
  by simp


subsection \<open>The sleeping states\<close>

definition wait_inv :: "ipc_wait \<Rightarrow> bool" where
  "wait_inv w \<longleftrightarrow> (w_blocked w \<longrightarrow> \<not> w_timed_out w \<and> \<not> w_woken w)"

lemma wait_inv_zero [simp]: "wait_inv ipc_wait_zero"
  by (simp add: wait_inv_def ipc_wait_zero_def)

lemma wait_inv_begin [simp]: "wait_inv (ipc_wait_begin w now t f)"
  by (simp add: wait_inv_def ipc_wait_begin_def)

lemma wait_inv_on_message [simp]: "wait_inv w \<Longrightarrow> wait_inv (snd (ipc_wait_on_message w))"
  by (simp add: wait_inv_def ipc_wait_on_message_def)

lemma wait_inv_on_tick [simp]: "wait_inv w \<Longrightarrow> wait_inv (snd (ipc_wait_on_tick w now))"
  by (simp add: wait_inv_def ipc_wait_on_tick_def)

lemma wait_inv_after_wake [simp]: "wait_inv (snd (ipc_wait_after_wake w r e t now))"
  by (simp add: wait_inv_def ipc_wait_after_wake_def)

lemma wait_inv_cancel [simp]: "wait_inv (ipc_wait_cancel w)"
  by (simp add: wait_inv_def ipc_wait_cancel_def)

lemma on_tick_begin:
  assumes "timeout \<noteq> forever_value" and "unat timeout < 2 ^ 31" and "unat d < 2 ^ 31"
  shows "fst (ipc_wait_on_tick (ipc_wait_begin w now timeout forever_value) (now + d)) \<longleftrightarrow>
    timeout \<le> d"
  using assms by (auto simp: ipc_wait_on_tick_def ipc_wait_begin_def clock_diff sint_diff_small
      word_le_def)

text \<open>Timer interrupts as the scheduler delivers them: one call per tick, in order.\<close>

fun tick_run :: "ipc_wait \<Rightarrow> u32 list \<Rightarrow> ipc_wait" where
  "tick_run w [] = w"
| "tick_run w (now # ts) = tick_run (snd (ipc_wait_on_tick w now)) ts"

definition ticks_after :: "u32 \<Rightarrow> nat \<Rightarrow> u32 list" where
  "ticks_after now n = map (\<lambda>k. now + of_nat (Suc k)) [0..<n]"

lemma tick_run_append [simp]: "tick_run w (xs @ ys) = tick_run (tick_run w xs) ys"
  by (induction xs arbitrary: w) auto

lemma ticks_after_Suc: "ticks_after now (Suc n) = ticks_after now n @ [now + of_nat (Suc n)]"
  by (simp add: ticks_after_def)

lemma on_tick_idle: "\<not> w_blocked w \<Longrightarrow> ipc_wait_on_tick w now = (False, w)"
  by (simp add: ipc_wait_on_tick_def)

lemma tick_run_begin:
  fixes w now
  assumes "timeout \<noteq> forever_value" and "0 < unat timeout" and "unat timeout < 2 ^ 31" and "n < 2 ^ 31"
  defines "b \<equiv> ipc_wait_begin w now timeout forever_value"
  shows "tick_run b (ticks_after now n) =
    (if n < unat timeout then b
     else b\<lparr>w_blocked := False, w_timed_out := True, w_timeouts := w_timeouts b + 1\<rparr>)"
  using assms(4)
proof (induction n)
  case 0
  then show ?case using assms(2) by (simp add: ticks_after_def)
next
  case (Suc n)
  have u: "unat (of_nat (Suc n) :: u32) = Suc n"
    using Suc.prems by (simp add: unat_of_nat del: of_nat_Suc)
  have wake: "fst (ipc_wait_on_tick b (now + of_nat (Suc n))) \<longleftrightarrow> unat timeout \<le> Suc n"
    using on_tick_begin [OF assms(1,3), of "of_nat (Suc n)" w now] u Suc.prems
    by (simp add: b_def word_le_nat_alt)
  show ?case
  proof (cases "n < unat timeout")
    case True
    then have "tick_run b (ticks_after now (Suc n)) = snd (ipc_wait_on_tick b (now + of_nat (Suc n)))"
      using Suc by (simp add: ticks_after_Suc)
    with True wake show ?thesis
      by (auto simp: ipc_wait_on_tick_def split: if_splits)
  next
    case False
    with Suc show ?thesis by (simp add: ticks_after_Suc on_tick_idle)
  qed
qed

lemma tick_run_forever: "w_forever w \<Longrightarrow> tick_run w ts = w"
  by (induction ts) (auto simp: ipc_wait_on_tick_def)

text \<open>
  C32. A task that starts to wait at clock value \<open>now\<close> with a finite timeout below \<open>2 ^ 31\<close>
  ticks is woken by the timer at exactly the tick that reaches the timeout, wherever the
  32-bit clock wraps: after \<open>n\<close> consecutive ticks it still sleeps, unchanged, when
  \<open>n < timeout\<close>, and otherwise it is ready, marked as timed out, with one timeout counted.
\<close>

theorem wait_timer_exact:
  assumes "timeout \<noteq> forever_value" and "0 < unat timeout" and "unat timeout < 2 ^ 31" and "n < 2 ^ 31"
  shows "tick_run (ipc_wait_begin w now timeout forever_value) (ticks_after now n) =
    (let b = ipc_wait_begin w now timeout forever_value in
     if n < unat timeout then b
     else b\<lparr>w_blocked := False, w_timed_out := True, w_timeouts := w_timeouts b + 1\<rparr>)"
  using tick_run_begin [OF assms] by (simp add: Let_def)

theorem wait_timer_exact_witness:
  "w_blocked (tick_run (ipc_wait_begin ipc_wait_zero 0xFFFFFFFE 3 OS_IPC_WAIT_FOREVER) (ticks_after 0xFFFFFFFE 2)) \<and>
   \<not> w_blocked (tick_run (ipc_wait_begin ipc_wait_zero 0xFFFFFFFE 3 OS_IPC_WAIT_FOREVER) (ticks_after 0xFFFFFFFE 3))"
  using wait_timer_exact [where timeout = 3 and forever_value = OS_IPC_WAIT_FOREVER and n = 2 and
      w = ipc_wait_zero and now = "0xFFFFFFFE"]
    wait_timer_exact [where timeout = 3 and forever_value = OS_IPC_WAIT_FOREVER and n = 3 and
      w = ipc_wait_zero and now = "0xFFFFFFFE"]
  by (simp add: Let_def ipc_wait_begin_def)

text \<open>
  C33. The signed comparison of the deadline makes every timeout from \<open>2 ^ 31 + 2\<close> up to
  \<open>OS_IPC_WAIT_FOREVER - 1\<close> expire on the very first tick instead of after that many ticks.
\<close>

theorem wait_long_timeout_expires_at_once:
  assumes "timeout \<noteq> OS_IPC_WAIT_FOREVER" and "2 ^ 31 + 2 \<le> unat timeout"
  shows "fst (ipc_wait_on_tick (ipc_wait_begin w now timeout OS_IPC_WAIT_FOREVER) (now + 1))"
proof -
  have nb: "unat (1 - timeout) < 2 ^ 31"
  proof -
    have "unat (1 - timeout) = 2 ^ 32 + 1 - unat timeout"
      using assms(2) by (simp add: unat_sub_if' )
    with assms(2) show ?thesis by simp
  qed
  have "sint (1 - timeout - 0) = int (unat (1 - timeout)) - int (unat (0 :: u32))"
    by (rule sint_diff_small [OF nb]) simp
  then have "0 \<le> sint (1 - timeout)" by simp
  then show ?thesis
    using assms(1) by (simp add: ipc_wait_on_tick_def ipc_wait_begin_def clock_diff)
qed

theorem wait_long_timeout_expires_at_once_witness:
  "fst (ipc_wait_on_tick (ipc_wait_begin ipc_wait_zero 0 0x80000002 OS_IPC_WAIT_FOREVER) (0 + 1))"
  by (rule wait_long_timeout_expires_at_once) simp_all

end
