(* ===== verification/Ring.thy ===== *)
theory Ring
  imports Kernel_Prelude
begin

text \<open>
  Circular buffers over a fixed array, and the two contracts the kernel builds on them:
  a bounded FIFO that refuses when full (mailboxes) and a log that evicts its oldest entry
  when full (supervision events, exit history). The contracts are locales; the components
  that provide them interpret the locales on their own operations.
\<close>

subsection \<open>The window of a circular array\<close>

definition ring_view :: "nat \<Rightarrow> 'a list \<Rightarrow> nat \<Rightarrow> nat \<Rightarrow> 'a list" where
  "ring_view cap buf start n = map (\<lambda>i. buf ! ((start + i) mod cap)) [0..<n]"

lemma length_ring_view [simp]: "length (ring_view cap buf start n) = n"
  by (simp add: ring_view_def)

lemma ring_view_0 [simp]: "ring_view cap buf start 0 = []"
  by (simp add: ring_view_def)

lemma ring_view_nth: "i < n \<Longrightarrow> ring_view cap buf start n ! i = buf ! ((start + i) mod cap)"
  by (simp add: ring_view_def)

lemma ring_slot_inj:
  fixes i j :: nat
  assumes "(start + i) mod cap = (start + j) mod cap" and "i < cap" and "j < cap"
  shows "i = j"
proof -
  have "(int start + int i) mod int cap = (int start + int j) mod int cap"
    using assms(1) by (metis of_nat_add of_nat_mod)
  then have "int cap dvd int i - int j"
    by (simp add: mod_eq_dvd_iff)
  moreover have "\<bar>int i - int j\<bar> < int cap"
    using assms(2,3) by linarith
  ultimately have "int i - int j = 0"
    using dvd_imp_le_int [of "int i - int j" "int cap"] by linarith
  then show ?thesis by simp
qed

lemma ring_next_slot:
  assumes "0 < n"
  shows "(Suc start mod cap + (n - Suc 0)) mod cap = (start + n) mod cap"
proof -
  have "(Suc start mod cap + (n - Suc 0)) mod cap = (Suc start + (n - Suc 0)) mod cap"
    by (rule mod_add_left_eq)
  with assms show ?thesis by simp
qed

lemma ring_view_append:
  assumes "n < cap" and "length buf = cap"
  shows "ring_view cap (buf[(start + n) mod cap := x]) start (Suc n) = ring_view cap buf start n @ [x]"
proof (rule nth_equalityI)
  fix i assume i: "i < length (ring_view cap (buf[(start + n) mod cap := x]) start (Suc n))"
  have "(start + n) mod cap < length buf" using assms by simp
  moreover have "(start + i) mod cap = (start + n) mod cap \<longleftrightarrow> i = n"
    using ring_slot_inj [of start i cap n] assms i by auto
  ultimately show "ring_view cap (buf[(start + n) mod cap := x]) start (Suc n) ! i =
      (ring_view cap buf start n @ [x]) ! i"
    using i by (auto simp: ring_view_nth nth_append nth_list_update)
qed simp

lemma ring_view_tl:
  assumes "0 < n"
  shows "ring_view cap buf (Suc start mod cap) (n - Suc 0) = tl (ring_view cap buf start n)"
  by (rule nth_equalityI) (auto simp: ring_view_nth nth_tl mod_simps)

lemma ring_view_hd: "0 < n \<Longrightarrow> hd (ring_view cap buf start n) = buf ! (start mod cap)"
  by (simp add: hd_conv_nth ring_view_nth flip: length_greater_0_conv)

lemma ring_view_upd_other:
  assumes "\<And>i. i < n \<Longrightarrow> (start + i) mod cap \<noteq> k"
  shows "ring_view cap (buf[k := x]) start n = ring_view cap buf start n"
proof (rule nth_equalityI)
  fix i assume "i < length (ring_view cap (buf[k := x]) start n)"
  with assms [of i] show "ring_view cap (buf[k := x]) start n ! i = ring_view cap buf start n ! i"
    by (simp add: ring_view_nth nth_list_update_neq)
qed simp

text \<open>Clearing the slot that was just read leaves the rest of the window alone.\<close>

lemma ring_view_pop_clear:
  assumes "0 < n" and "n \<le> cap" and "start < cap"
  shows "ring_view cap (buf[start := z]) (Suc start mod cap) (n - Suc 0) = tl (ring_view cap buf start n)"
proof -
  have "(Suc start mod cap + i) mod cap \<noteq> start" if "i < n - 1" for i
  proof
    assume "(Suc start mod cap + i) mod cap = start"
    then have "(start + Suc i) mod cap = (start + 0) mod cap"
      using assms(3) by (simp add: mod_simps)
    then show False
      using ring_slot_inj [of start "Suc i" cap 0] that assms by linarith
  qed
  then show ?thesis
    using assms(1) by (simp add: ring_view_upd_other flip: ring_view_tl)
qed

text \<open>Overwriting the oldest slot of a full window and moving its start evicts the oldest.\<close>

lemma ring_view_evict:
  assumes "0 < cap" and "start < cap" and "length buf = cap"
  shows "ring_view cap (buf[start := x]) (Suc start mod cap) cap = tl (ring_view cap buf start cap) @ [x]"
proof -
  have slot: "(Suc start mod cap + (cap - 1)) mod cap = start"
    using ring_next_slot [OF assms(1), of start cap] assms(2) by simp
  have "ring_view cap (buf[start := x]) (Suc start mod cap) (Suc (cap - 1)) =
      ring_view cap buf (Suc start mod cap) (cap - 1) @ [x]"
    using ring_view_append [of "cap - 1" cap buf "Suc start mod cap" x] assms slot by simp
  then show ?thesis
    using assms by (simp add: ring_view_tl)
qed


subsection \<open>Bounded FIFO queues\<close>

datatype 'a fifo_op = Send 'a | Recv

text \<open>
  A run of sends and receives: the inputs that were accepted, the elements that were
  delivered, and the final queue.
\<close>

fun fifo_run :: "('a \<Rightarrow> 'q \<Rightarrow> 'q option) \<Rightarrow> ('q \<Rightarrow> ('m \<times> 'q) option) \<Rightarrow> 'a fifo_op list \<Rightarrow> 'q
    \<Rightarrow> 'a list \<times> 'm list \<times> 'q" where
  "fifo_run send recv [] q = ([], [], q)"
| "fifo_run send recv (Send x # ops) q =
     (case send x q of
        None \<Rightarrow> fifo_run send recv ops q
      | Some q' \<Rightarrow> (case fifo_run send recv ops q' of (acc, del, r) \<Rightarrow> (x # acc, del, r)))"
| "fifo_run send recv (Recv # ops) q =
     (case recv q of
        None \<Rightarrow> fifo_run send recv ops q
      | Some (m, q') \<Rightarrow> (case fifo_run send recv ops q' of (acc, del, r) \<Rightarrow> (acc, m # del, r)))"

locale bounded_fifo =
  fixes cap :: nat
    and inv :: "'q \<Rightarrow> bool"
    and view :: "'q \<Rightarrow> 'm list"
    and ok :: "'a \<Rightarrow> bool"
    and stored :: "'a \<Rightarrow> 'm"
    and send :: "'a \<Rightarrow> 'q \<Rightarrow> 'q option"
    and recv :: "'q \<Rightarrow> ('m \<times> 'q) option"
  assumes view_bound: "inv q \<Longrightarrow> length (view q) \<le> cap"
    and send_room: "inv q \<Longrightarrow> ok x \<Longrightarrow> length (view q) < cap \<Longrightarrow>
      \<exists>q'. send x q = Some q' \<and> inv q' \<and> view q' = view q @ [stored x]"
    and send_full: "inv q \<Longrightarrow> length (view q) = cap \<Longrightarrow> send x q = None"
    and send_bad: "\<not> ok x \<Longrightarrow> send x q = None"
    and recv_empty: "inv q \<Longrightarrow> view q = [] \<Longrightarrow> recv q = None"
    and recv_cons: "inv q \<Longrightarrow> view q = m # ms \<Longrightarrow>
      \<exists>q'. recv q = Some (m, q') \<and> inv q' \<and> view q' = ms"
begin

lemma send_SomeD:
  assumes "inv q" and "send x q = Some q'"
  shows "ok x \<and> inv q' \<and> view q' = view q @ [stored x] \<and> length (view q) < cap"
proof -
  have "ok x" using assms send_bad by fastforce
  moreover have "length (view q) \<noteq> cap" using assms send_full by fastforce
  then have "length (view q) < cap" using view_bound [OF assms(1)] by simp
  ultimately show ?thesis using send_room assms by fastforce
qed

lemma recv_SomeD:
  assumes "inv q" and "recv q = Some (m, q')"
  shows "inv q' \<and> view q = m # view q'"
proof (cases "view q")
  case Nil
  with assms recv_empty show ?thesis by fastforce
next
  case (Cons a list)
  with assms recv_cons [of q a list] show ?thesis by auto
qed

text \<open>Nothing is lost, duplicated or reordered between accepted sends and deliveries.\<close>

lemma run_conserves:
  assumes "inv q" and "fifo_run send recv ops q = (acc, del, r)"
  shows "inv r \<and> view q @ map stored acc = del @ view r"
  using assms
proof (induction ops arbitrary: q acc del)
  case (Cons op ops)
  show ?case
  proof (cases op)
    case (Send x)
    show ?thesis
    proof (cases "send x q")
      case None
      with Cons Send show ?thesis by simp
    next
      case (Some q')
      with Cons.prems Send obtain acc' where
        acc: "acc = x # acc'" and run: "fifo_run send recv ops q' = (acc', del, r)"
        by (auto split: prod.splits)
      from send_SomeD [OF Cons.prems(1) Some] have "inv q'" "view q' = view q @ [stored x]"
        by auto
      with Cons.IH [OF _ run] acc show ?thesis by simp
    qed
  next
    case Recv
    show ?thesis
    proof (cases "recv q")
      case None
      with Cons Recv show ?thesis by simp
    next
      case (Some p)
      then obtain m q' where p: "recv q = Some (m, q')" by (cases p) auto
      with Cons.prems Recv obtain del' where
        del: "del = m # del'" and run: "fifo_run send recv ops q' = (acc, del', r)"
        by (auto split: prod.splits)
      from recv_SomeD [OF Cons.prems(1) p] have "inv q'" "view q = m # view q'"
        by auto
      with Cons.IH [OF _ run] del show ?thesis by simp
    qed
  qed
qed simp

text \<open>Draining: as many receives as there are elements deliver them all, oldest first.\<close>

lemma run_drain:
  assumes "inv q"
  shows "\<exists>r. fifo_run send recv (replicate (length (view q)) Recv) q = ([], view q, r) \<and> view r = []"
proof -
  have "inv q \<Longrightarrow> view q = ms \<Longrightarrow>
      \<exists>r. fifo_run send recv (replicate (length ms) Recv) q = ([], ms, r) \<and> view r = []" for ms
  proof (induction ms arbitrary: q)
    case (Cons m ms)
    from recv_cons [OF Cons.prems] obtain q' where
      "recv q = Some (m, q')" "inv q'" "view q' = ms" by blast
    with Cons.IH [of q'] show ?case by auto
  qed simp
  with assms show ?thesis by blast
qed

end


subsection \<open>Logs that evict their oldest entry\<close>

text \<open>
  The index computation of \<open>task_record_supervision_event\<close> and \<open>task_report_parent_exit\<close>:
  append while there is room, otherwise overwrite the oldest slot and move the start.
\<close>

definition evict_push :: "nat \<Rightarrow> 'a \<Rightarrow> 'a list \<times> nat \<times> nat \<Rightarrow> 'a list \<times> nat \<times> nat" where
  "evict_push cap x r =
     (case r of (buf, start, n) \<Rightarrow>
        if n < cap then (buf[(start + n) mod cap := x], start, n + 1)
        else (buf[start := x], (start + 1) mod cap, n))"

locale evicting_log =
  fixes cap :: nat
    and inv :: "'q \<Rightarrow> bool"
    and view :: "'q \<Rightarrow> 'a list"
    and push :: "'a \<Rightarrow> 'q \<Rightarrow> 'q"
  assumes cap_pos: "0 < cap"
    and log_bound: "inv q \<Longrightarrow> length (view q) \<le> cap"
    and push_inv: "inv q \<Longrightarrow> inv (push x q)"
    and push_view: "inv q \<Longrightarrow>
      view (push x q) = (if length (view q) < cap then view q else tl (view q)) @ [x]"
begin

text \<open>After any number of pushes the log holds the last \<open>cap\<close> entries, oldest first.\<close>

lemma pushes_last:
  assumes "inv q"
  shows "inv (fold push xs q) \<and>
    view (fold push xs q) = drop (length (view q) + length xs - cap) (view q @ xs)"
  using assms
proof (induction xs arbitrary: q)
  case Nil
  then show ?case using log_bound [of q] by simp
next
  case (Cons x xs)
  have IH: "inv (fold push xs (push x q)) \<and> view (fold push xs (push x q)) =
      drop (length (view (push x q)) + length xs - cap) (view (push x q) @ xs)"
    using Cons push_inv by blast
  show ?case
  proof (cases "length (view q) < cap")
    case True
    with IH Cons.prems show ?thesis by (simp add: push_view)
  next
    case False
    then have full: "length (view q) = cap" using log_bound Cons.prems by force
    then obtain a as where va: "view q = a # as" using cap_pos by (cases "view q") auto
    have "length (view (push x q)) + length xs - cap = length xs"
      "view (push x q) @ xs = as @ x # xs"
      using full va Cons.prems by (simp_all add: push_view)
    moreover have "drop (length (view q) + length (x # xs) - cap) (view q @ x # xs) =
        drop (length xs) (as @ x # xs)"
      using full va by simp
    ultimately show ?thesis using IH by (metis fold_simps(2))
  qed
qed

lemma push_recent: "inv q \<Longrightarrow> last (view (push x q)) = x"
  by (simp add: push_view)

end

definition evict_inv :: "nat \<Rightarrow> 'a list \<times> nat \<times> nat \<Rightarrow> bool" where
  "evict_inv cap r = (case r of (buf, start, n) \<Rightarrow> length buf = cap \<and> start < cap \<and> n \<le> cap)"

definition evict_view :: "nat \<Rightarrow> 'a list \<times> nat \<times> nat \<Rightarrow> 'a list" where
  "evict_view cap r = (case r of (buf, start, n) \<Rightarrow> ring_view cap buf start n)"

lemma evict_push_inv: "evict_inv cap r \<Longrightarrow> evict_inv cap (evict_push cap x r)"
  by (auto simp: evict_inv_def evict_push_def split: prod.splits)

lemma evict_push_view:
  assumes "evict_inv cap r"
  shows "evict_view cap (evict_push cap x r) =
    (if length (evict_view cap r) < cap then evict_view cap r else tl (evict_view cap r)) @ [x]"
proof -
  obtain buf start n where r: "r = (buf, start, n)" by (cases r) auto
  show ?thesis
  proof (cases "n < cap")
    case True
    with assms r show ?thesis
      by (simp add: evict_inv_def evict_push_def evict_view_def ring_view_append)
  next
    case False
    with assms r have "n = cap" "0 < cap" by (auto simp: evict_inv_def)
    with assms r show ?thesis
      by (simp add: evict_inv_def evict_push_def evict_view_def ring_view_evict)
  qed
qed

lemma evict_view_bound: "evict_inv cap r \<Longrightarrow> length (evict_view cap r) \<le> cap"
  by (auto simp: evict_inv_def evict_view_def split: prod.splits)

end
