(* ===== verification/Ipc.thy ===== *)
theory Ipc
  imports Ring
begin

text \<open>
  Messages (\<open>include/os_syscalls.h\<close>) and the mailbox every task owns
  (\<open>kernel/ipc.c\<close>, \<open>kernel/ipc.h\<close>): a circular array of \<open>IPC_ENDPOINT_CAPACITY\<close>
  messages. The mailbox is shown to be a bounded FIFO.
\<close>

abbreviation (input) OS_IPC_MAX_DATA :: nat where "OS_IPC_MAX_DATA \<equiv> 96"
abbreviation (input) OS_IPC_EMPTY :: rc where "OS_IPC_EMPTY \<equiv> - 40"
abbreviation (input) OS_IPC_FULL :: rc where "OS_IPC_FULL \<equiv> - 41"
abbreviation (input) OS_IPC_BAD_TARGET :: rc where "OS_IPC_BAD_TARGET \<equiv> - 42"
abbreviation (input) OS_IPC_BAD_MESSAGE :: rc where "OS_IPC_BAD_MESSAGE \<equiv> - 43"
abbreviation (input) OS_IPC_SERVICE_FULL :: rc where "OS_IPC_SERVICE_FULL \<equiv> - 44"
abbreviation (input) OS_IPC_TIMEOUT :: rc where "OS_IPC_TIMEOUT \<equiv> - 45"
abbreviation (input) IPC_ENDPOINT_CAPACITY :: nat where "IPC_ENDPOINT_CAPACITY \<equiv> 4"
abbreviation (input) IPC_SERVICE_ENDPOINT_CAPACITY :: nat where "IPC_SERVICE_ENDPOINT_CAPACITY \<equiv> 2"

record os_ipc_payload =
  pl_type :: u32
  pl_size :: u32
  pl_request_id :: u32
  pl_data :: "u8 list"

record os_ipc_message =
  msg_sender_pid :: pid
  msg_type :: u32
  msg_size :: u32
  msg_request_id :: u32
  msg_data :: "u8 list"

record ipc_endpoint =
  ep_messages :: "os_ipc_message list"
  ep_read_index :: nat
  ep_write_index :: nat
  ep_count :: nat

definition empty_message :: os_ipc_message where
  "empty_message = \<lparr>msg_sender_pid = - 1, msg_type = 0, msg_size = 0, msg_request_id = 0,
     msg_data = replicate OS_IPC_MAX_DATA 0\<rparr>"

definition ipc_endpoint_init :: ipc_endpoint where
  "ipc_endpoint_init = \<lparr>ep_messages = replicate IPC_ENDPOINT_CAPACITY empty_message,
     ep_read_index = 0, ep_write_index = 0, ep_count = 0\<rparr>"

text \<open>The slot a send fills: the first \<open>size\<close> bytes of the payload, then zeroes.\<close>

definition message_of :: "pid \<Rightarrow> os_ipc_payload \<Rightarrow> os_ipc_message" where
  "message_of sender p = \<lparr>msg_sender_pid = sender, msg_type = pl_type p, msg_size = pl_size p,
     msg_request_id = pl_request_id p,
     msg_data = take (unat (pl_size p)) (pl_data p) @
       replicate (OS_IPC_MAX_DATA - unat (pl_size p)) 0\<rparr>"

definition ipc_endpoint_send :: "ipc_endpoint \<Rightarrow> pid \<Rightarrow> os_ipc_payload option \<Rightarrow> rc \<times> ipc_endpoint" where
  "ipc_endpoint_send e sender payload =
     (case payload of
        None \<Rightarrow> (OS_IPC_BAD_MESSAGE, e)
      | Some p \<Rightarrow>
          if unat (pl_size p) > OS_IPC_MAX_DATA then (OS_IPC_BAD_MESSAGE, e)
          else if ep_count e \<ge> IPC_ENDPOINT_CAPACITY then (OS_IPC_FULL, e)
          else (0, e\<lparr>ep_messages := (ep_messages e)[ep_write_index e := message_of sender p],
                     ep_write_index := (ep_write_index e + 1) mod IPC_ENDPOINT_CAPACITY,
                     ep_count := ep_count e + 1\<rparr>))"

text \<open>The flag \<open>out\<close> says whether the caller's buffer pointer is not NULL.\<close>

definition ipc_endpoint_receive :: "ipc_endpoint \<Rightarrow> bool \<Rightarrow> rc \<times> ipc_endpoint \<times> os_ipc_message option" where
  "ipc_endpoint_receive e out =
     (if \<not> out then (OS_IPC_BAD_MESSAGE, e, None)
      else if ep_count e = 0 then (OS_IPC_EMPTY, e, None)
      else (0, e\<lparr>ep_messages := (ep_messages e)[ep_read_index e := empty_message],
                 ep_read_index := (ep_read_index e + 1) mod IPC_ENDPOINT_CAPACITY,
                 ep_count := ep_count e - 1\<rparr>,
            Some (ep_messages e ! ep_read_index e)))"


subsection \<open>The mailbox is a bounded FIFO\<close>

definition ep_inv :: "ipc_endpoint \<Rightarrow> bool" where
  "ep_inv e \<longleftrightarrow> length (ep_messages e) = IPC_ENDPOINT_CAPACITY \<and>
     ep_read_index e < IPC_ENDPOINT_CAPACITY \<and> ep_count e \<le> IPC_ENDPOINT_CAPACITY \<and>
     ep_write_index e = (ep_read_index e + ep_count e) mod IPC_ENDPOINT_CAPACITY"

definition ep_view :: "ipc_endpoint \<Rightarrow> os_ipc_message list" where
  "ep_view e = ring_view IPC_ENDPOINT_CAPACITY (ep_messages e) (ep_read_index e) (ep_count e)"

text \<open>A send as the clients of the FIFO contract see it: the new mailbox, or a refusal.\<close>

definition ep_send :: "pid \<times> os_ipc_payload \<Rightarrow> ipc_endpoint \<Rightarrow> ipc_endpoint option" where
  "ep_send x e = (case ipc_endpoint_send e (fst x) (Some (snd x)) of
     (r, e') \<Rightarrow> if r = 0 then Some e' else None)"

definition ep_recv :: "ipc_endpoint \<Rightarrow> (os_ipc_message \<times> ipc_endpoint) option" where
  "ep_recv e = (case ipc_endpoint_receive e True of
     (r, e', m) \<Rightarrow> if r = 0 then map_option (\<lambda>m. (m, e')) m else None)"

definition payload_ok :: "os_ipc_payload \<Rightarrow> bool" where
  "payload_ok p \<longleftrightarrow> unat (pl_size p) \<le> OS_IPC_MAX_DATA"

lemma length_ep_view [simp]: "length (ep_view e) = ep_count e"
  by (simp add: ep_view_def)

lemma ep_inv_init [simp]: "ep_inv ipc_endpoint_init"
  by (simp add: ep_inv_def ipc_endpoint_init_def)

lemma ep_view_init [simp]: "ep_view ipc_endpoint_init = []"
  by (simp add: ep_view_def ipc_endpoint_init_def)

lemma ipc_endpoint_send_ok:
  assumes "ep_inv e" and "payload_ok p" and "ep_count e < IPC_ENDPOINT_CAPACITY"
  shows "\<exists>e'. ipc_endpoint_send e s (Some p) = (0, e') \<and> ep_inv e' \<and>
    ep_view e' = ep_view e @ [message_of s p]"
proof -
  let ?e = "e\<lparr>ep_messages := (ep_messages e)[ep_write_index e := message_of s p],
      ep_write_index := (ep_write_index e + 1) mod IPC_ENDPOINT_CAPACITY,
      ep_count := ep_count e + 1\<rparr>"
  have "ipc_endpoint_send e s (Some p) = (0, ?e)"
    using assms by (simp add: ipc_endpoint_send_def payload_ok_def)
  moreover have "ep_inv ?e"
    using assms by (simp add: ep_inv_def mod_simps)
  moreover have "ep_view ?e = ep_view e @ [message_of s p]"
    using assms ring_view_append [of "ep_count e" 4 "ep_messages e" "ep_read_index e"]
    by (simp add: ep_inv_def ep_view_def)
  ultimately show ?thesis by blast
qed

lemma ipc_endpoint_send_refused:
  assumes "fst (ipc_endpoint_send e s p) \<noteq> 0"
  shows "snd (ipc_endpoint_send e s p) = e"
  using assms by (auto simp: ipc_endpoint_send_def split: option.splits if_splits)

lemma ipc_endpoint_receive_cons:
  assumes "ep_inv e" and "ep_view e = m # ms"
  shows "\<exists>e'. ipc_endpoint_receive e True = (0, e', Some m) \<and> ep_inv e' \<and> ep_view e' = ms"
proof -
  have pos: "0 < ep_count e" using assms(2) length_ep_view [of e] by simp
  let ?e = "e\<lparr>ep_messages := (ep_messages e)[ep_read_index e := empty_message],
      ep_read_index := (ep_read_index e + 1) mod IPC_ENDPOINT_CAPACITY,
      ep_count := ep_count e - 1\<rparr>"
  have "hd (ep_view e) = ep_messages e ! ep_read_index e"
    using assms(1) pos by (simp add: ep_view_def ep_inv_def ring_view_hd)
  then have "ipc_endpoint_receive e True = (0, ?e, Some m)"
    using pos assms(2) by (simp add: ipc_endpoint_receive_def)
  moreover have "ep_inv ?e"
    using assms(1) pos ring_next_slot [OF pos, of "ep_read_index e" 4] by (auto simp: ep_inv_def)
  moreover have "ep_view ?e = tl (ep_view e)"
    using assms(1) pos by (simp add: ep_inv_def ep_view_def ring_view_pop_clear)
  ultimately show ?thesis using assms(2) by auto
qed

interpretation ep: bounded_fifo IPC_ENDPOINT_CAPACITY ep_inv ep_view
  "\<lambda>x. payload_ok (snd x)" "\<lambda>x. message_of (fst x) (snd x)" ep_send ep_recv
proof unfold_locales
  fix e :: ipc_endpoint and x :: "pid \<times> os_ipc_payload" and m ms
  show "ep_inv e \<Longrightarrow> length (ep_view e) \<le> IPC_ENDPOINT_CAPACITY"
    by (simp add: ep_inv_def)
  show "ep_inv e \<Longrightarrow> payload_ok (snd x) \<Longrightarrow> length (ep_view e) < IPC_ENDPOINT_CAPACITY \<Longrightarrow>
      \<exists>q'. ep_send x e = Some q' \<and> ep_inv q' \<and> ep_view q' = ep_view e @ [message_of (fst x) (snd x)]"
    using ipc_endpoint_send_ok [of e "snd x" "fst x"] by (auto simp: ep_send_def)
  show "ep_inv e \<Longrightarrow> length (ep_view e) = IPC_ENDPOINT_CAPACITY \<Longrightarrow> ep_send x e = None"
    by (simp add: ep_send_def ipc_endpoint_send_def)
  show "\<not> payload_ok (snd x) \<Longrightarrow> ep_send x e = None"
    by (simp add: ep_send_def ipc_endpoint_send_def payload_ok_def)
  show "ep_inv e \<Longrightarrow> ep_view e = [] \<Longrightarrow> ep_recv e = None"
    using length_ep_view [of e] by (simp add: ep_recv_def ipc_endpoint_receive_def)
  show "ep_inv e \<Longrightarrow> ep_view e = m # ms \<Longrightarrow>
      \<exists>q'. ep_recv e = Some (m, q') \<and> ep_inv q' \<and> ep_view q' = ms"
    using ipc_endpoint_receive_cons [of e m ms] by (auto simp: ep_recv_def)
qed

lemmas ep_facts = ep.view_bound ep.send_SomeD ep.recv_SomeD

lemma ipc_endpoint_send_inv [simp]: "ep_inv e \<Longrightarrow> ep_inv (snd (ipc_endpoint_send e s p))"
  using ipc_endpoint_send_ok [of e _ s] ipc_endpoint_send_refused [of e s p]
  by (cases p) (fastforce simp: ipc_endpoint_send_def payload_ok_def split: if_splits)+


text \<open>
  C31. Take any sequence of \<open>ipc_endpoint_send\<close> and \<open>ipc_endpoint_receive\<close> calls on a
  well-formed mailbox. The messages that were waiting at the start followed by those whose
  send returned 0 are, in this order, exactly the messages delivered followed by those still
  waiting at the end: nothing is lost, duplicated, altered or reordered, and the mailbox
  stays well-formed.
\<close>

theorem mailbox_conserves:
  assumes "ep_inv e" and "fifo_run ep_send ep_recv ops e = (acc, del, r)"
  shows "ep_inv r \<and> ep_view e @ map (\<lambda>x. message_of (fst x) (snd x)) acc = del @ ep_view r"
  using ep.run_conserves [OF assms] .

theorem mailbox_conserves_witness:
  "case fifo_run ep_send ep_recv [Recv, Send (7, \<lparr>pl_type = 1, pl_size = 0, pl_request_id = 5, pl_data = []\<rparr>)]
      ipc_endpoint_init of
    (acc, del, r) \<Rightarrow> map (\<lambda>x. message_of (fst x) (snd x)) acc = del @ ep_view r"
proof -
  obtain acc del r where run: "fifo_run ep_send ep_recv [Recv, Send (7, \<lparr>pl_type = 1, pl_size = 0, pl_request_id = 5, pl_data = []\<rparr>)]
      ipc_endpoint_init = (acc, del, r)"
    by (metis prod_cases3)
  from mailbox_conserves [OF ep_inv_init run] run show ?thesis by simp
qed

text \<open>
  The error paths of the mailbox. A send to a well-formed mailbox returns 0 exactly when
  there is a payload of at most \<open>OS_IPC_MAX_DATA\<close> bytes and fewer than
  \<open>IPC_ENDPOINT_CAPACITY\<close> messages wait; a missing or oversized payload is
  \<open>OS_IPC_BAD_MESSAGE\<close> even when the mailbox is full; every refused call, send or receive,
  leaves the mailbox exactly as it was.
\<close>

theorem mailbox_errors:
  "(fst (ipc_endpoint_send e s p) = 0 \<longleftrightarrow>
      p \<noteq> None \<and> payload_ok (the p) \<and> ep_count e < IPC_ENDPOINT_CAPACITY) \<and>
   (fst (ipc_endpoint_send e s p) = OS_IPC_BAD_MESSAGE \<longleftrightarrow> \<not> (p \<noteq> None \<and> payload_ok (the p))) \<and>
   (fst (ipc_endpoint_send e s p) = 0 \<or> snd (ipc_endpoint_send e s p) = e) \<and>
   (fst (ipc_endpoint_receive e out) = 0 \<longleftrightarrow> out \<and> 0 < ep_count e) \<and>
   (fst (ipc_endpoint_receive e out) = 0 \<or> snd (ipc_endpoint_receive e out) = (e, None))"
  by (auto simp: ipc_endpoint_send_def ipc_endpoint_receive_def payload_ok_def split: option.splits)

end
