(* ===== verification/Events.thy ===== *)
theory Events
  imports Ipc
begin

text \<open>
  The kernel notifications carried in the payload of a message
  (\<open>include/os_syscalls.h\<close>): a service changed owner, a child ended, a supervised child
  changed state. The encoders build the payload; the decoders check and read a received
  message. \<open>None\<close> is the return value -1. The payload pointers are never NULL in the
  callers and are not parameters.
\<close>

abbreviation (input) OS_SERVICE_NAME_MAX :: nat where "OS_SERVICE_NAME_MAX \<equiv> 16"
abbreviation (input) OS_IPC_SERVICE_EVENT :: u32 where "OS_IPC_SERVICE_EVENT \<equiv> 0x53525601"
abbreviation (input) OS_IPC_TASK_EVENT :: u32 where "OS_IPC_TASK_EVENT \<equiv> 0x54415301"
abbreviation (input) OS_IPC_TASK_SUPERVISION_EVENT :: u32 where
  "OS_IPC_TASK_SUPERVISION_EVENT \<equiv> 0x54415302"
abbreviation (input) OS_SERVICE_EVENT_SIZE :: u32 where "OS_SERVICE_EVENT_SIZE \<equiv> 28"
abbreviation (input) OS_TASK_EVENT_SIZE :: u32 where "OS_TASK_EVENT_SIZE \<equiv> 8"
abbreviation (input) OS_TASK_SUPERVISION_EVENT_SIZE :: u32 where "OS_TASK_SUPERVISION_EVENT_SIZE \<equiv> 24"

abbreviation (input) OS_SERVICE_EVENT_PUBLISHED :: u32 where "OS_SERVICE_EVENT_PUBLISHED \<equiv> 1"
abbreviation (input) OS_SERVICE_EVENT_GRANTED :: u32 where "OS_SERVICE_EVENT_GRANTED \<equiv> 2"
abbreviation (input) OS_SERVICE_EVENT_UNREGISTERED :: u32 where "OS_SERVICE_EVENT_UNREGISTERED \<equiv> 3"
abbreviation (input) OS_SERVICE_EVENT_PURGED :: u32 where "OS_SERVICE_EVENT_PURGED \<equiv> 4"

abbreviation (input) OS_TASK_EVENT_EXITED :: u32 where "OS_TASK_EVENT_EXITED \<equiv> 1"
abbreviation (input) OS_TASK_EVENT_KILLED :: u32 where "OS_TASK_EVENT_KILLED \<equiv> 2"

abbreviation (input) OS_TASK_SUPERVISION_EXIT :: u32 where "OS_TASK_SUPERVISION_EXIT \<equiv> 1"
abbreviation (input) OS_TASK_SUPERVISION_SUSPEND :: u32 where "OS_TASK_SUPERVISION_SUSPEND \<equiv> 2"
abbreviation (input) OS_TASK_SUPERVISION_RESUME :: u32 where "OS_TASK_SUPERVISION_RESUME \<equiv> 3"
abbreviation (input) OS_TASK_SUPERVISION_DELEGATE_OUT :: u32 where "OS_TASK_SUPERVISION_DELEGATE_OUT \<equiv> 4"
abbreviation (input) OS_TASK_SUPERVISION_DELEGATE_IN :: u32 where "OS_TASK_SUPERVISION_DELEGATE_IN \<equiv> 5"

record os_service_event =
  ev_name :: cstring
  ev_old_owner_pid :: pid
  ev_new_owner_pid :: pid
  ev_reason :: u32

record os_task_event =
  te_child_pid :: pid
  te_reason :: u32

record os_task_supervision_event =
  sv_sequence :: u32
  sv_action :: u32
  sv_child_pid :: pid
  sv_related_pid :: pid
  sv_detail :: u32
  sv_ticks :: u32
  sv_child_sequence :: u32
  sv_child_generation :: u32
  sv_identity_key :: u32


subsection \<open>Service events\<close>

text \<open>The name padded with zeroes, when it ends within the field.\<close>

definition name_bytes :: "cstring \<Rightarrow> u8 list" where
  "name_bytes name = map byte (cstr name) @ replicate (OS_SERVICE_NAME_MAX - length (cstr name)) 0"

definition os_service_make_event :: "cstring option \<Rightarrow> pid \<Rightarrow> pid \<Rightarrow> u32 \<Rightarrow> os_ipc_payload option" where
  "os_service_make_event name old_owner new_owner reason =
     (case name of
        None \<Rightarrow> None
      | Some nm \<Rightarrow>
          if old_owner < 0 \<or> new_owner < 0 \<or>
             reason < OS_SERVICE_EVENT_PUBLISHED \<or> reason > OS_SERVICE_EVENT_PURGED then None
          else if length (cstr nm) \<ge> OS_SERVICE_NAME_MAX then None
          else Some \<lparr>pl_type = OS_IPC_SERVICE_EVENT, pl_size = OS_SERVICE_EVENT_SIZE, pl_request_id = 0,
                 pl_data = name_bytes nm @ enc_i32 old_owner @ enc_i32 new_owner @ enc32 reason @
                   replicate (OS_IPC_MAX_DATA - 28) 0\<rparr>)"

definition os_service_parse_event :: "os_ipc_message \<Rightarrow> os_service_event option" where
  "os_service_parse_event m =
     (if msg_sender_pid m \<noteq> 0 \<or> msg_type m \<noteq> OS_IPC_SERVICE_EVENT \<or>
         msg_size m \<noteq> OS_SERVICE_EVENT_SIZE \<or> msg_request_id m \<noteq> 0 then None
      else
        let name = map chr (take OS_SERVICE_NAME_MAX (msg_data m));
            old_owner = dec_i32 (drop 16 (msg_data m));
            new_owner = dec_i32 (drop 20 (msg_data m));
            reason = dec32 (drop 24 (msg_data m))
        in if name ! (OS_SERVICE_NAME_MAX - 1) \<noteq> NUL then None
           else if old_owner < 0 \<or> new_owner < 0 \<or>
             reason < OS_SERVICE_EVENT_PUBLISHED \<or> reason > OS_SERVICE_EVENT_PURGED then None
           else Some \<lparr>ev_name = name, ev_old_owner_pid = old_owner,
                  ev_new_owner_pid = new_owner, ev_reason = reason\<rparr>)"


subsection \<open>Task events\<close>

definition os_task_make_event :: "pid \<Rightarrow> u32 \<Rightarrow> os_ipc_payload option" where
  "os_task_make_event child reason =
     (if child \<le> 0 \<or> reason \<noteq> OS_TASK_EVENT_EXITED \<and> reason \<noteq> OS_TASK_EVENT_KILLED then None
      else Some \<lparr>pl_type = OS_IPC_TASK_EVENT, pl_size = OS_TASK_EVENT_SIZE, pl_request_id = 0,
             pl_data = enc_i32 child @ enc32 reason\<rparr>)"

definition os_task_parse_event :: "os_ipc_message \<Rightarrow> os_task_event option" where
  "os_task_parse_event m =
     (if msg_sender_pid m \<noteq> 0 \<or> msg_type m \<noteq> OS_IPC_TASK_EVENT \<or>
         msg_size m \<noteq> OS_TASK_EVENT_SIZE \<or> msg_request_id m \<noteq> 0 then None
      else
        let child = dec_i32 (msg_data m); reason = dec32 (drop 4 (msg_data m))
        in if child \<le> 0 \<or> reason \<noteq> OS_TASK_EVENT_EXITED \<and> reason \<noteq> OS_TASK_EVENT_KILLED then None
           else Some \<lparr>te_child_pid = child, te_reason = reason\<rparr>)"


subsection \<open>Supervision events\<close>

definition delegation_action :: "u32 \<Rightarrow> bool" where
  "delegation_action a \<longleftrightarrow> a = OS_TASK_SUPERVISION_DELEGATE_OUT \<or> a = OS_TASK_SUPERVISION_DELEGATE_IN"

text \<open>The two refusals that the encoder and the decoder of supervision events share.\<close>

definition supervision_event_bad :: "os_task_supervision_event \<Rightarrow> bool" where
  "supervision_event_bad e \<longleftrightarrow>
     sv_sequence e = 0 \<or> sv_child_pid e \<le> 0 \<or>
     sv_action e < OS_TASK_SUPERVISION_EXIT \<or> sv_action e > OS_TASK_SUPERVISION_DELEGATE_IN \<or>
     delegation_action (sv_action e) \<and> sv_related_pid e \<le> 0 \<or>
     \<not> delegation_action (sv_action e) \<and> sv_related_pid e \<noteq> 0"

definition os_task_make_supervision_event :: "os_task_supervision_event \<Rightarrow> os_ipc_payload option" where
  "os_task_make_supervision_event e =
     (if supervision_event_bad e then None
      else Some \<lparr>pl_type = OS_IPC_TASK_SUPERVISION_EVENT, pl_size = OS_TASK_SUPERVISION_EVENT_SIZE,
             pl_request_id = 0,
             pl_data = enc32 (sv_sequence e) @ enc32 (sv_action e) @ enc_i32 (sv_child_pid e) @
               enc_i32 (sv_related_pid e) @ enc32 (sv_detail e) @ enc32 (sv_ticks e)\<rparr>)"

definition os_task_parse_supervision_event :: "os_ipc_message \<Rightarrow> os_task_supervision_event option" where
  "os_task_parse_supervision_event m =
     (if msg_sender_pid m \<noteq> 0 \<or> msg_type m \<noteq> OS_IPC_TASK_SUPERVISION_EVENT \<or>
         msg_size m \<noteq> OS_TASK_SUPERVISION_EVENT_SIZE \<or> msg_request_id m \<noteq> 0 then None
      else
        let e = \<lparr>sv_sequence = dec32 (msg_data m), sv_action = dec32 (drop 4 (msg_data m)),
              sv_child_pid = dec_i32 (drop 8 (msg_data m)),
              sv_related_pid = dec_i32 (drop 12 (msg_data m)),
              sv_detail = dec32 (drop 16 (msg_data m)), sv_ticks = dec32 (drop 20 (msg_data m)),
              sv_child_sequence = 0, sv_child_generation = 0, sv_identity_key = 0\<rparr>
        in if supervision_event_bad e then None else Some e)"


subsection \<open>Round trips\<close>

lemma length_name_bytes: "length (cstr nm) < OS_SERVICE_NAME_MAX \<Longrightarrow> length (name_bytes nm) = OS_SERVICE_NAME_MAX"
  by (simp add: name_bytes_def)

lemma chr_name_bytes: "map chr (name_bytes nm) = cstr nm @ replicate (OS_SERVICE_NAME_MAX - length (cstr nm)) NUL"
  by (simp add: name_bytes_def o_def)

lemma cstr_padded: "n \<noteq> 0 \<Longrightarrow> cstr (cstr s @ replicate n NUL @ t) = cstr s"
  by (induction s) (auto simp: gr0_conv_Suc)

lemma service_event_roundtrip:
  assumes "os_service_make_event (Some nm) a b r = Some p" and "int32 a" and "int32 b"
  shows "payload_ok p \<and> (\<exists>ev. os_service_parse_event (message_of 0 p) = Some ev \<and>
    cstr (ev_name ev) = cstr nm \<and> ev_old_owner_pid ev = a \<and> ev_new_owner_pid ev = b \<and> ev_reason ev = r)"
proof -
  let ?l = "length (cstr nm)"
  have ok: "0 \<le> a" "0 \<le> b" "r \<noteq> 0" "r \<le> 4" "?l < 16"
    and p: "p = \<lparr>pl_type = OS_IPC_SERVICE_EVENT, pl_size = OS_SERVICE_EVENT_SIZE, pl_request_id = 0,
      pl_data = name_bytes nm @ enc_i32 a @ enc_i32 b @ enc32 r @ replicate (OS_IPC_MAX_DATA - 28) 0\<rparr>"
    using assms(1) by (auto simp: os_service_make_event_def not_less not_le split: if_splits)
  have len: "length (name_bytes nm) = 16" using ok by (simp add: length_name_bytes)
  have data: "msg_data (message_of 0 p) = name_bytes nm @ enc_i32 a @ enc_i32 b @ enc32 r @ replicate 68 0"
    using len by (simp add: message_of_def p)
  have last: "map chr (name_bytes nm) ! 15 = NUL"
    using ok by (simp add: chr_name_bytes nth_append)
  have cs: "cstr (map chr (name_bytes nm)) = cstr nm"
    using ok cstr_padded [of "16 - ?l" nm "[]"] by (simp add: chr_name_bytes)
  show ?thesis
    using ok assms(2,3) len last cs
    by (simp add: os_service_parse_event_def data Let_def payload_ok_def) (simp add: message_of_def p)
qed

lemma task_event_roundtrip:
  assumes "os_task_make_event a r = Some p" and "int32 a"
  shows "payload_ok p \<and> os_task_parse_event (message_of 0 p) = Some \<lparr>te_child_pid = a, te_reason = r\<rparr>"
proof -
  have ok: "0 < a" "r = 1 \<or> r = 2"
    and p: "p = \<lparr>pl_type = OS_IPC_TASK_EVENT, pl_size = OS_TASK_EVENT_SIZE, pl_request_id = 0,
      pl_data = enc_i32 a @ enc32 r\<rparr>"
    using assms(1) by (auto simp: os_task_make_event_def split: if_splits)
  have data: "msg_data (message_of 0 p) = enc_i32 a @ enc32 r @ replicate 88 0"
    by (simp add: message_of_def p)
  show ?thesis
    using ok assms(2)
    by (simp add: os_task_parse_event_def data Let_def payload_ok_def) (auto simp: message_of_def p)
qed

lemma supervision_event_roundtrip:
  assumes "os_task_make_supervision_event e = Some p"
    and "int32 (sv_child_pid e)" and "int32 (sv_related_pid e)"
  shows "payload_ok p \<and> os_task_parse_supervision_event (message_of 0 p) =
    Some (e\<lparr>sv_child_sequence := 0, sv_child_generation := 0, sv_identity_key := 0\<rparr>)"
proof -
  have ok: "\<not> supervision_event_bad e"
    and p: "p = \<lparr>pl_type = OS_IPC_TASK_SUPERVISION_EVENT, pl_size = OS_TASK_SUPERVISION_EVENT_SIZE,
      pl_request_id = 0, pl_data = enc32 (sv_sequence e) @ enc32 (sv_action e) @ enc_i32 (sv_child_pid e) @
        enc_i32 (sv_related_pid e) @ enc32 (sv_detail e) @ enc32 (sv_ticks e)\<rparr>"
    using assms(1) by (auto simp: os_task_make_supervision_event_def split: if_splits)
  have data: "msg_data (message_of 0 p) = enc32 (sv_sequence e) @ enc32 (sv_action e) @
      enc_i32 (sv_child_pid e) @ enc_i32 (sv_related_pid e) @ enc32 (sv_detail e) @
      enc32 (sv_ticks e) @ replicate 72 0"
    by (simp add: message_of_def p)
  show ?thesis
    using ok assms(2,3)
    by (simp add: os_task_parse_supervision_event_def data Let_def payload_ok_def supervision_event_bad_def)
      (simp add: message_of_def p)
qed

text \<open>
  C35. Every notification the kernel encodes is read back as it was sent, when it is delivered
  through a mailbox from PID 0: service events keep the name (as a C string), both owners and
  the reason; task events keep the child and the reason; supervision events keep all the
  transmitted fields, the three identity witnesses being zero at the receiver. The PIDs are
  32-bit signed integers.
\<close>

theorem notification_roundtrip:
  assumes "int32 a" and "int32 b" and "int32 (sv_child_pid e)" and "int32 (sv_related_pid e)"
  shows "(case os_service_make_event nm a b r of
       None \<Rightarrow> True
     | Some p \<Rightarrow> payload_ok p \<and> (\<exists>ev. os_service_parse_event (message_of 0 p) = Some ev \<and>
         cstr (ev_name ev) = cstr (the nm) \<and> ev_old_owner_pid ev = a \<and>
         ev_new_owner_pid ev = b \<and> ev_reason ev = r)) \<and>
    (case os_task_make_event a r of
       None \<Rightarrow> True
     | Some p \<Rightarrow> payload_ok p \<and>
         os_task_parse_event (message_of 0 p) = Some \<lparr>te_child_pid = a, te_reason = r\<rparr>) \<and>
    (case os_task_make_supervision_event e of
       None \<Rightarrow> supervision_event_bad e
     | Some p \<Rightarrow> payload_ok p \<and> os_task_parse_supervision_event (message_of 0 p) =
         Some (e\<lparr>sv_child_sequence := 0, sv_child_generation := 0, sv_identity_key := 0\<rparr>))"
  using assms service_event_roundtrip task_event_roundtrip supervision_event_roundtrip
  by (cases nm)
    (fastforce simp: os_task_make_supervision_event_def os_service_make_event_def split: option.splits if_splits)+

theorem notification_roundtrip_witness:
  "os_task_make_event 7 2 \<noteq> None \<and> int32 7 \<and>
   os_task_parse_event (message_of 0 (the (os_task_make_event 7 2))) = Some \<lparr>te_child_pid = 7, te_reason = 2\<rparr>"
  using notification_roundtrip [of 7 7 "\<lparr>sv_sequence = 1, sv_action = 4, sv_child_pid = 7,
      sv_related_pid = 8, sv_detail = 0, sv_ticks = 0, sv_child_sequence = 0,
      sv_child_generation = 0, sv_identity_key = 0\<rparr>" None 2]
  by (simp add: int32_def os_task_make_event_def)

end
