(* ===== verification/Spill.thy ===== *)
theory Spill
  imports Events
begin

text \<open>
  The overflow area for kernel notifications whose mailbox is full
  (\<open>service_registry_ipc_spill_*\<close>, \<open>kernel/service_registry.c\<close>): eight slots shared by all
  tasks, each stamped with a growing order number, and two saturating loss counters. For
  each task it behaves as a queue, as long as the 32-bit order number has not wrapped.
\<close>

abbreviation (input) SERVICE_IPC_SPILL_CAPACITY :: nat where "SERVICE_IPC_SPILL_CAPACITY \<equiv> 8"

record spill_slot =
  ss_watcher_pid :: pid
  ss_order :: u32
  ss_payload :: os_ipc_payload
  ss_used :: bool

record spill =
  sp_slots :: "spill_slot list"
  sp_order :: u32
  sp_drops :: u32
  sp_supervision_drops :: u32

definition ipc_spill_reset :: "spill \<Rightarrow> spill" where
  "ipc_spill_reset s = s\<lparr>
     sp_slots := map (\<lambda>x. x\<lparr>ss_used := False, ss_watcher_pid := 0, ss_order := 0\<rparr>) (sp_slots s),
     sp_order := 0, sp_drops := 0, sp_supervision_drops := 0\<rparr>"

definition note_spill_drop :: "u32 \<Rightarrow> spill \<Rightarrow> spill" where
  "note_spill_drop type s =
     (if type = OS_IPC_TASK_SUPERVISION_EVENT
      then (if sp_supervision_drops s \<noteq> 0xFFFFFFFF
            then s\<lparr>sp_supervision_drops := sp_supervision_drops s + 1\<rparr> else s)
      else (if sp_drops s \<noteq> 0xFFFFFFFF then s\<lparr>sp_drops := sp_drops s + 1\<rparr> else s))"

definition ipc_spill_clear_pid :: "pid \<Rightarrow> spill \<Rightarrow> spill" where
  "ipc_spill_clear_pid p s = s\<lparr>sp_slots :=
     map (\<lambda>x. if ss_used x \<and> ss_watcher_pid x = p
              then x\<lparr>ss_used := False, ss_watcher_pid := 0\<rparr> else x) (sp_slots s)\<rparr>"

text \<open>The payload as the slot keeps it: the first \<open>size\<close> bytes, then zeroes.\<close>

definition spilled_payload :: "os_ipc_payload \<Rightarrow> os_ipc_payload" where
  "spilled_payload p = p\<lparr>pl_data := take (unat (pl_size p)) (pl_data p) @
     replicate (OS_IPC_MAX_DATA - unat (pl_size p)) 0\<rparr>"

definition service_registry_ipc_spill_push :: "pid \<Rightarrow> os_ipc_payload option \<Rightarrow> spill \<Rightarrow> rc \<times> spill" where
  "service_registry_ipc_spill_push watcher payload s =
     (case payload of
        None \<Rightarrow> (OS_IPC_BAD_MESSAGE, s)
      | Some p \<Rightarrow>
          if watcher \<le> 0 \<or> unat (pl_size p) > OS_IPC_MAX_DATA then (OS_IPC_BAD_MESSAGE, s)
          else (case first_idx (\<lambda>x. \<not> ss_used x) (sp_slots s) of
              None \<Rightarrow> (OS_IPC_FULL, note_spill_drop (pl_type p) s)
            | Some i \<Rightarrow>
                (0, s\<lparr>sp_order := next_nonzero (sp_order s),
                      sp_slots := (sp_slots s)[i := \<lparr>ss_watcher_pid = watcher,
                        ss_order = next_nonzero (sp_order s),
                        ss_payload = spilled_payload p, ss_used = True\<rparr>]\<rparr>)))"

definition service_registry_ipc_spill_pop :: "pid \<Rightarrow> bool \<Rightarrow> spill \<Rightarrow> rc \<times> os_ipc_payload option \<times> spill" where
  "service_registry_ipc_spill_pop watcher out s =
     (if watcher \<le> 0 \<or> \<not> out then (OS_IPC_BAD_MESSAGE, None, s)
      else (case min_idx (\<lambda>x. ss_used x \<and> ss_watcher_pid x = watcher) ss_order (sp_slots s) of
          None \<Rightarrow> (OS_IPC_EMPTY, None, s)
        | Some i \<Rightarrow>
            (0, Some (ss_payload (sp_slots s ! i)),
             s\<lparr>sp_slots := (sp_slots s)[i := (sp_slots s ! i)\<lparr>ss_used := False, ss_watcher_pid := 0\<rparr>]\<rparr>)))"

definition service_registry_ipc_spill_arm_drops :: "u32 \<Rightarrow> spill \<Rightarrow> spill" where
  "service_registry_ipc_spill_arm_drops v s = s\<lparr>sp_drops := v\<rparr>"

definition service_registry_ipc_spill_arm_supervision_drops :: "u32 \<Rightarrow> spill \<Rightarrow> spill" where
  "service_registry_ipc_spill_arm_supervision_drops v s = s\<lparr>sp_supervision_drops := v\<rparr>"

definition spill_blank :: spill where
  "spill_blank = \<lparr>sp_slots = replicate SERVICE_IPC_SPILL_CAPACITY
       \<lparr>ss_watcher_pid = 0, ss_order = 0,
        ss_payload = \<lparr>pl_type = 0, pl_size = 0, pl_request_id = 0,
          pl_data = replicate OS_IPC_MAX_DATA 0\<rparr>, ss_used = False\<rparr>,
     sp_order = 0, sp_drops = 0, sp_supervision_drops = 0\<rparr>"


subsection \<open>Per-task queues\<close>

definition spill_of :: "pid \<Rightarrow> spill_slot \<Rightarrow> bool" where
  "spill_of p = (\<lambda>x. ss_used x \<and> ss_watcher_pid x = p)"

definition spill_view :: "spill \<Rightarrow> pid \<Rightarrow> os_ipc_payload list" where
  "spill_view s p = map ss_payload (sort_key ss_order (filter (spill_of p) (sp_slots s)))"

text \<open>
  The invariant: used slots carry distinct order numbers, none above the last one issued,
  and belong to a real PID.
\<close>

definition spill_inv :: "spill \<Rightarrow> bool" where
  "spill_inv s \<longleftrightarrow> length (sp_slots s) = SERVICE_IPC_SPILL_CAPACITY \<and>
     distinct (map ss_order (filter ss_used (sp_slots s))) \<and>
     (\<forall>x\<in>set (sp_slots s). ss_used x \<longrightarrow> ss_order x \<le> sp_order s \<and> 0 < ss_watcher_pid x)"

lemma spill_inv_blank [simp]: "spill_inv spill_blank"
  by (simp add: spill_inv_def spill_blank_def)

lemma spill_blank_simps [simp]: "sp_order spill_blank = 0"
  "sp_slots spill_blank \<noteq> []" "x \<in> set (sp_slots spill_blank) \<Longrightarrow> \<not> ss_used x"
  "spill_view spill_blank p = []"
  by (auto simp: spill_blank_def spill_view_def spill_of_def filter_empty_conv)

lemma spill_inv_reset: "length (sp_slots s) = SERVICE_IPC_SPILL_CAPACITY \<Longrightarrow> spill_inv (ipc_spill_reset s)"
  by (auto simp: spill_inv_def ipc_spill_reset_def filter_empty_conv)

lemma spill_view_reset [simp]: "spill_view (ipc_spill_reset s) p = []"
  by (simp add: spill_view_def ipc_spill_reset_def spill_of_def filter_empty_conv)

lemma sp_slots_note_drop [simp]: "sp_slots (note_spill_drop t s) = sp_slots s"
  "sp_order (note_spill_drop t s) = sp_order s"
  by (simp_all add: note_spill_drop_def)

lemma spill_inv_note_drop [simp]: "spill_inv (note_spill_drop t s) = spill_inv s"
  by (simp add: spill_inv_def)

lemma spill_view_note_drop [simp]: "spill_view (note_spill_drop t s) p = spill_view s p"
  by (simp add: spill_view_def)

lemma spill_push_inv:
  assumes "spill_inv s" and "sp_order s \<noteq> - 1"
  shows "spill_inv (snd (service_registry_ipc_spill_push w p s))"
proof (cases "\<exists>q i. p = Some q \<and> 0 < w \<and> unat (pl_size q) \<le> OS_IPC_MAX_DATA \<and>
    first_idx (\<lambda>x. \<not> ss_used x) (sp_slots s) = Some i")
  case True
  then obtain q i where h: "p = Some q" "0 < w" "unat (pl_size q) \<le> OS_IPC_MAX_DATA"
    "first_idx (\<lambda>x. \<not> ss_used x) (sp_slots s) = Some i" by blast
  note i = first_idx_SomeD [OF h(4)]
  have lt: "sp_order s < next_nonzero (sp_order s)"
    using assms(2) by (simp add: word_less_nat_alt unat_next_nonzero)
  have old: "\<forall>x\<in>set (sp_slots s). ss_used x \<longrightarrow> ss_order x < next_nonzero (sp_order s)"
    using assms(1) lt by (auto simp: spill_inv_def)
  show ?thesis
    using assms(1) h i lt old unfolding spill_inv_def
    by (auto simp: service_registry_ipc_spill_push_def less_imp_le
        intro!: distinct_filter_update dest!: set_update_subset_insert [THEN subsetD])
next
  case False
  with assms(1) show ?thesis
    by (auto simp: service_registry_ipc_spill_push_def not_less split: option.splits)
qed

lemma spill_pop_inv:
  assumes "spill_inv s"
  shows "spill_inv (snd (snd (service_registry_ipc_spill_pop w out s)))"
  using assms
  by (auto simp: spill_inv_def service_registry_ipc_spill_pop_def
      split: option.splits intro!: distinct_filter_update dest!: min_idx_SomeD(1) set_update_subset_insert [THEN subsetD])

lemma spill_clear_inv: "spill_inv s \<Longrightarrow> spill_inv (ipc_spill_clear_pid p s)"
proof -
  let ?g = "\<lambda>x. if ss_used x \<and> ss_watcher_pid x = p then x\<lparr>ss_used := False, ss_watcher_pid := 0\<rparr> else x"
  have "filter ss_used (map ?g xs) = filter (\<lambda>x. ss_watcher_pid x \<noteq> p) (filter ss_used xs)" for xs
    by (induction xs) auto
  then have "distinct (map ss_order (filter ss_used xs)) \<Longrightarrow>
      distinct (map ss_order (filter ss_used (map ?g xs)))" for xs
    by (metis distinct_map_filter)
  then show "spill_inv s \<Longrightarrow> spill_inv (ipc_spill_clear_pid p s)"
    by (auto simp: spill_inv_def ipc_spill_clear_pid_def)
qed


text \<open>
  A push appends to the queue of its own PID and leaves the others alone; when all eight
  slots are used it changes no queue and counts the loss.
\<close>

lemma spill_view_push:
  assumes "spill_inv s" and "sp_order s \<noteq> - 1" and "0 < w" and "unat (pl_size q) \<le> OS_IPC_MAX_DATA"
    and "first_idx (\<lambda>x. \<not> ss_used x) (sp_slots s) = Some i"
  shows "spill_view (snd (service_registry_ipc_spill_push w (Some q) s)) p =
    (if p = w then spill_view s w @ [spilled_payload q] else spill_view s p)"
proof -
  let ?n = "\<lparr>ss_watcher_pid = w, ss_order = next_nonzero (sp_order s),
    ss_payload = spilled_payload q, ss_used = True\<rparr>"
  let ?ys = "filter (spill_of p) ((sp_slots s)[i := ?n])" and ?xs = "filter (spill_of p) (sp_slots s)"
  note i = first_idx_SomeD [OF assms(5)]
  have view: "spill_view (snd (service_registry_ipc_spill_push w (Some q) s)) p =
      map ss_payload (sort_key ss_order ?ys)"
    using assms(3-5) by (simp add: service_registry_ipc_spill_push_def spill_view_def)
  have unused: "\<not> spill_of p (sp_slots s ! i)" using i(2) by (simp add: spill_of_def)
  have new: "spill_of p ?n \<longleftrightarrow> p = w" by (auto simp: spill_of_def)
  show ?thesis
  proof (cases "p = w")
    case True
    have "mset ?ys = add_mset ?n (mset ?xs)"
      unfolding mset_filter_update [OF i(1)] using unused new True by simp
    moreover have "distinct (map ss_order ?xs)"
      using assms(1) distinct_map_filter [of ss_order "filter ss_used (sp_slots s)" "\<lambda>x. ss_watcher_pid x = p"]
      by (simp add: spill_inv_def spill_of_def conj_commute)
    moreover have "ss_order y < ss_order ?n" if "y \<in> set ?xs" for y
    proof -
      have "ss_order y \<le> sp_order s" using assms(1) that by (auto simp: spill_inv_def spill_of_def)
      moreover have "sp_order s < next_nonzero (sp_order s)"
        using assms(2) by (simp add: word_less_nat_alt unat_next_nonzero)
      ultimately show ?thesis by simp
    qed
    ultimately have "sort_key ss_order ?ys = sort_key ss_order ?xs @ [?n]"
      by (rule sort_key_snoc_max)
    then show ?thesis using True view by (simp add: spill_view_def)
  next
    case False
    then have "?ys = ?xs"
      using new unused by (simp add: filter_update [OF i(1)] filter_split [OF i(1)])
    then show ?thesis using False view by (simp add: spill_view_def)
  qed
qed

lemma spill_push_full:
  assumes "\<forall>x\<in>set (sp_slots s). ss_used x" and "0 < w" and "unat (pl_size q) \<le> OS_IPC_MAX_DATA"
  shows "service_registry_ipc_spill_push w (Some q) s = (OS_IPC_FULL, note_spill_drop (pl_type q) s)"
proof -
  have "first_idx (\<lambda>x. \<not> ss_used x) (sp_slots s) = None" using assms(1) by (simp add: first_idx_None)
  with assms(2,3) show ?thesis by (simp add: service_registry_ipc_spill_push_def)
qed

text \<open>A pop returns the head of the PID's queue and removes exactly it.\<close>

lemma spill_view_pop:
  assumes "spill_inv s" and "0 < w"
  shows "case spill_view s w of
      [] \<Rightarrow> service_registry_ipc_spill_pop w True s = (OS_IPC_EMPTY, None, s)
    | m # ms \<Rightarrow> (\<exists>s'. service_registry_ipc_spill_pop w True s = (0, Some m, s') \<and>
        (\<forall>p. spill_view s' p = (if p = w then ms else spill_view s p)))"
proof (cases "min_idx (\<lambda>x. ss_used x \<and> ss_watcher_pid x = w) ss_order (sp_slots s)")
  case None
  then have "spill_view s w = []"
    by (auto simp: spill_view_def spill_of_def filter_empty_conv min_idx_None)
  with None assms(2) show ?thesis
    by (simp add: service_registry_ipc_spill_pop_def)
next
  case (Some i)
  let ?m = "sp_slots s ! i"
  let ?n = "?m\<lparr>ss_used := False, ss_watcher_pid := 0\<rparr>"
  let ?ys = "\<lambda>p. filter (spill_of p) ((sp_slots s)[i := ?n])" and ?xs = "\<lambda>p. filter (spill_of p) (sp_slots s)"
  note i = min_idx_SomeD [OF Some]
  have gone: "\<not> spill_of p ?n" for p by (simp add: spill_of_def)
  have mine: "spill_of p ?m \<longleftrightarrow> p = w" for p using i(2) by (auto simp: spill_of_def)
  have other: "?ys p = ?xs p" if "p \<noteq> w" for p
    using that gone mine by (simp add: filter_update [OF i(1)] filter_split [OF i(1)])
  have "?m \<in># mset (?xs w)" using i(1) mine by simp
  then have "mset (?xs w) = add_mset ?m (mset (?ys w))"
    unfolding mset_filter_update [OF i(1)] using gone mine by simp
  moreover have "distinct (map ss_order (?xs w))"
    using assms(1) distinct_map_filter [of ss_order "filter ss_used (sp_slots s)" "\<lambda>x. ss_watcher_pid x = w"]
    by (simp add: spill_inv_def spill_of_def conj_commute)
  moreover have "ss_order ?m \<le> ss_order y" if "y \<in> set (?ys w)" for y
    using that gone i(3) by (auto simp: spill_of_def dest!: set_update_subset_insert [THEN subsetD])
  ultimately have "sort_key ss_order (?xs w) = ?m # sort_key ss_order (?ys w)"
    by (rule sort_key_cons_min)
  with Some assms(2) other show ?thesis
    by (simp add: service_registry_ipc_spill_pop_def spill_view_def)
qed

text \<open>Clearing a PID empties its queue and keeps the other queues.\<close>

lemma spill_view_clear:
  assumes "spill_inv s"
  shows "spill_view (ipc_spill_clear_pid w s) p = (if p = w then [] else spill_view s p)"
proof -
  let ?g = "\<lambda>x. if ss_used x \<and> ss_watcher_pid x = w then x\<lparr>ss_used := False, ss_watcher_pid := 0\<rparr> else x"
  have "filter (spill_of p) (map ?g xs) = (if p = w then [] else filter (spill_of p) xs)" for xs
    by (induction xs) (auto simp: spill_of_def)
  then show ?thesis
    by (simp add: spill_view_def ipc_spill_clear_pid_def)
qed


text \<open>
  C34. The overflow area is, for every task, a queue of its own, as long as the order counter
  has not reached its last value: an accepted push appends to the queue of its PID only, a
  push into a full area is refused with \<open>OS_IPC_FULL\<close> and changes no queue, a pop returns
  the oldest notification of its PID and removes only it, and clearing a PID (when its task
  ends) empties that queue only.
\<close>

theorem spill_is_queue_per_task:
  assumes "spill_inv s" and "sp_order s \<noteq> - 1" and "0 < w" and "payload_ok q"
  shows "(if \<forall>x\<in>set (sp_slots s). ss_used x
      then fst (service_registry_ipc_spill_push w (Some q) s) = OS_IPC_FULL \<and>
        spill_view (snd (service_registry_ipc_spill_push w (Some q) s)) = spill_view s
      else fst (service_registry_ipc_spill_push w (Some q) s) = 0 \<and>
        spill_view (snd (service_registry_ipc_spill_push w (Some q) s)) =
          (spill_view s)(w := spill_view s w @ [spilled_payload q])) \<and>
    spill_inv (snd (service_registry_ipc_spill_push w (Some q) s)) \<and>
    (case spill_view s w of
        [] \<Rightarrow> service_registry_ipc_spill_pop w True s = (OS_IPC_EMPTY, None, s)
      | m # ms \<Rightarrow> \<exists>s'. service_registry_ipc_spill_pop w True s = (0, Some m, s') \<and>
          spill_inv s' \<and> spill_view s' = (spill_view s)(w := ms)) \<and>
    spill_view (ipc_spill_clear_pid w s) = (spill_view s)(w := [])"
proof (intro conjI)
  show "if \<forall>x\<in>set (sp_slots s). ss_used x
      then fst (service_registry_ipc_spill_push w (Some q) s) = OS_IPC_FULL \<and>
        spill_view (snd (service_registry_ipc_spill_push w (Some q) s)) = spill_view s
      else fst (service_registry_ipc_spill_push w (Some q) s) = 0 \<and>
        spill_view (snd (service_registry_ipc_spill_push w (Some q) s)) =
          (spill_view s)(w := spill_view s w @ [spilled_payload q])"
  proof (cases "first_idx (\<lambda>x. \<not> ss_used x) (sp_slots s)")
    case None
    then have "\<forall>x\<in>set (sp_slots s). ss_used x" by (simp add: first_idx_None)
    with assms show ?thesis by (simp add: spill_push_full payload_ok_def ext)
  next
    case (Some i)
    then have "\<not> (\<forall>x\<in>set (sp_slots s). ss_used x)"
      using first_idx_SomeD(1,2) [OF Some] by (auto intro: nth_mem)
    moreover have "fst (service_registry_ipc_spill_push w (Some q) s) = 0"
      using Some assms by (simp add: service_registry_ipc_spill_push_def payload_ok_def)
    ultimately show ?thesis
      using spill_view_push [OF assms(1-3) _ Some] assms(4) by (simp add: payload_ok_def fun_eq_iff)
  qed
  show "case spill_view s w of
        [] \<Rightarrow> service_registry_ipc_spill_pop w True s = (OS_IPC_EMPTY, None, s)
      | m # ms \<Rightarrow> \<exists>s'. service_registry_ipc_spill_pop w True s = (0, Some m, s') \<and>
          spill_inv s' \<and> spill_view s' = (spill_view s)(w := ms)"
    using spill_view_pop [OF assms(1,3)] spill_pop_inv [OF assms(1), of w True]
    by (fastforce split: list.splits)
qed (use assms in \<open>simp_all add: spill_push_inv spill_view_clear fun_eq_iff\<close>)

theorem spill_is_queue_per_task_witness:
  "spill_view (snd (service_registry_ipc_spill_push 3 (Some \<lparr>pl_type = 9, pl_size = 0, pl_request_id = 1, pl_data = []\<rparr>) spill_blank)) 3 =
    [spilled_payload \<lparr>pl_type = 9, pl_size = 0, pl_request_id = 1, pl_data = []\<rparr>]"
proof -
  have "\<not> (\<forall>x\<in>set (sp_slots spill_blank). ss_used x)"
    by (simp add: spill_blank_def)
  then show ?thesis
    using spill_is_queue_per_task [of spill_blank 3 "\<lparr>pl_type = 9, pl_size = 0, pl_request_id = 1, pl_data = []\<rparr>"]
    by (simp add: payload_ok_def)
qed

end
