(* ===== verification/Out_Capture.thy ===== *)
theory Out_Capture
  imports Kernel_Prelude
begin

text \<open>
  The bounded capture of the output of the programs a desktop window launches
  (\<open>kernel/out_capture.c\<close>): one owner, a static buffer and a table of tracked tasks. The
  operations keep the buffer a queue of the captured bytes and account for every byte.
\<close>

abbreviation (input) OS_OUTCAP_MAX :: nat where "OS_OUTCAP_MAX \<equiv> 16384"
abbreviation (input) OS_OUTCAP_PIDS :: nat where "OS_OUTCAP_PIDS \<equiv> 16"
abbreviation (input) OS_OUTCAP_BAD :: rc where "OS_OUTCAP_BAD \<equiv> - 1"
abbreviation (input) OS_OUTCAP_BUSY :: rc where "OS_OUTCAP_BUSY \<equiv> - 2"

record out_cap =
  oc_owner :: pid
  oc_buf :: "char list"
  oc_n :: nat
  oc_total :: u32
  oc_dropped :: u32
  oc_untracked :: u32
  oc_pids :: "pid list"
  oc_npids :: nat

definition out_cap_reset :: "out_cap \<Rightarrow> out_cap" where
  "out_cap_reset q = q\<lparr>oc_owner := 0, oc_n := 0, oc_total := 0, oc_dropped := 0,
     oc_untracked := 0, oc_npids := 0\<rparr>"

definition out_cap_begin :: "pid \<Rightarrow> out_cap \<Rightarrow> rc \<times> out_cap" where
  "out_cap_begin owner q =
     (if owner \<le> 0 then (OS_OUTCAP_BAD, q)
      else if oc_owner q > 0 \<and> oc_owner q \<noteq> owner then (OS_OUTCAP_BUSY, q)
      else (0, (out_cap_reset q)\<lparr>oc_owner := owner\<rparr>))"

definition out_cap_end :: "pid \<Rightarrow> out_cap \<Rightarrow> rc \<times> out_cap" where
  "out_cap_end owner q =
     (if owner \<le> 0 \<or> owner \<noteq> oc_owner q then (OS_OUTCAP_BAD, q)
      else (sint (oc_dropped q), out_cap_reset q))"

definition out_cap_tracked :: "out_cap \<Rightarrow> pid \<Rightarrow> bool" where
  "out_cap_tracked q p \<longleftrightarrow>
     \<not> (oc_owner q \<le> 0 \<or> p \<le> 0) \<and> (\<exists>x\<in>set (take (oc_npids q) (oc_pids q)). x = p)"

definition out_cap_child :: "pid \<Rightarrow> pid \<Rightarrow> out_cap \<Rightarrow> bool \<times> out_cap" where
  "out_cap_child parent child q =
     (if oc_owner q \<le> 0 \<or> child \<le> 0 \<or> child = oc_owner q then (False, q)
      else if parent \<noteq> oc_owner q \<and> \<not> out_cap_tracked q parent then (False, q)
      else if out_cap_tracked q child then (True, q)
      else if oc_npids q \<ge> OS_OUTCAP_PIDS then (False, q\<lparr>oc_untracked := oc_untracked q + 1\<rparr>)
      else (True, q\<lparr>oc_pids := (oc_pids q)[oc_npids q := child], oc_npids := oc_npids q + 1\<rparr>))"

definition out_cap_put :: "pid \<Rightarrow> char \<Rightarrow> out_cap \<Rightarrow> bool \<times> out_cap" where
  "out_cap_put p c q =
     (if \<not> out_cap_tracked q p then (False, q)
      else if oc_n q < OS_OUTCAP_MAX
        then (True, q\<lparr>oc_total := oc_total q + 1, oc_buf := (oc_buf q)[oc_n q := c], oc_n := oc_n q + 1\<rparr>)
        else (True, q\<lparr>oc_total := oc_total q + 1, oc_dropped := oc_dropped q + 1\<rparr>))"

text \<open>
  The second component is what the call copies to \<open>dst\<close> (a final NUL is added there); the
  flag \<open>dst\<close> says that the pointer is not NULL.
\<close>

definition out_cap_read :: "pid \<Rightarrow> bool \<Rightarrow> int \<Rightarrow> out_cap \<Rightarrow> rc \<times> char list \<times> out_cap" where
  "out_cap_read caller dst mx q =
     (if caller \<le> 0 \<or> caller \<noteq> oc_owner q \<or> \<not> dst \<or> mx \<le> 0 then (OS_OUTCAP_BAD, [], q)
      else
        let n = (if int (oc_n q) > mx - 1 then nat (mx - 1) else oc_n q)
        in (int n, take n (oc_buf q),
            q\<lparr>oc_buf := drop n (take (oc_n q) (oc_buf q)) @ drop (oc_n q - n) (oc_buf q),
              oc_n := oc_n q - n\<rparr>))"

definition out_cap_pid_count :: "out_cap \<Rightarrow> nat" where
  "out_cap_pid_count q = (if oc_owner q > 0 then oc_npids q else 0)"

definition out_cap_pid_at :: "out_cap \<Rightarrow> int \<Rightarrow> pid" where
  "out_cap_pid_at q k = (if k \<ge> 0 \<and> k < int (oc_npids q) then oc_pids q ! nat k else 0)"

definition out_cap_forget :: "pid \<Rightarrow> out_cap \<Rightarrow> bool \<times> out_cap" where
  "out_cap_forget p q =
     (if oc_owner q \<le> 0 \<or> p \<le> 0 then (False, q)
      else (case first_idx (\<lambda>x. x = p) (take (oc_npids q) (oc_pids q)) of
          None \<Rightarrow> (False, q)
        | Some k \<Rightarrow> (True, q\<lparr>oc_pids := (oc_pids q)[k := oc_pids q ! (oc_npids q - 1)],
                              oc_npids := oc_npids q - 1\<rparr>)))"

definition out_cap_task_gone :: "pid \<Rightarrow> out_cap \<Rightarrow> int \<times> out_cap" where
  "out_cap_task_gone p q =
     (if oc_owner q > 0 \<and> p = oc_owner q then (1, out_cap_reset q)
      else (case out_cap_forget p q of (b, q') \<Rightarrow> (if b then 2 else 0, q')))"

definition out_cap_blank :: out_cap where
  "out_cap_blank = \<lparr>oc_owner = 0, oc_buf = replicate OS_OUTCAP_MAX NUL, oc_n = 0, oc_total = 0,
     oc_dropped = 0, oc_untracked = 0, oc_pids = replicate OS_OUTCAP_PIDS 0, oc_npids = 0\<rparr>"


subsection \<open>Invariant\<close>

definition cap_members :: "out_cap \<Rightarrow> pid list" where
  "cap_members q = take (oc_npids q) (oc_pids q)"

definition cap_kept :: "out_cap \<Rightarrow> char list" where
  "cap_kept q = take (oc_n q) (oc_buf q)"

text \<open>
  The tables stay within their arrays; tracked tasks are listed once, are real PIDs and never
  include the owner.
\<close>

definition cap_inv :: "out_cap \<Rightarrow> bool" where
  "cap_inv q \<longleftrightarrow> length (oc_buf q) = OS_OUTCAP_MAX \<and> oc_n q \<le> OS_OUTCAP_MAX \<and>
     length (oc_pids q) = OS_OUTCAP_PIDS \<and> oc_npids q \<le> OS_OUTCAP_PIDS \<and> 0 \<le> oc_owner q \<and>
     distinct (cap_members q) \<and> (\<forall>p\<in>set (cap_members q). 0 < p \<and> p \<noteq> oc_owner q)"

lemma cap_inv_blank [simp]: "cap_inv out_cap_blank"
  by (simp add: cap_inv_def out_cap_blank_def cap_members_def)

lemma cap_inv_reset [simp]: "cap_inv q \<Longrightarrow> cap_inv (out_cap_reset q)"
  by (simp add: cap_inv_def out_cap_reset_def cap_members_def)

lemma cap_inv_begin [simp]: "cap_inv q \<Longrightarrow> cap_inv (snd (out_cap_begin p q))"
  by (simp add: cap_inv_def out_cap_begin_def out_cap_reset_def cap_members_def)

lemma cap_inv_end [simp]: "cap_inv q \<Longrightarrow> cap_inv (snd (out_cap_end p q))"
  by (simp add: out_cap_end_def)

lemma cap_inv_put [simp]: "cap_inv q \<Longrightarrow> cap_inv (snd (out_cap_put p c q))"
  by (simp add: cap_inv_def out_cap_put_def cap_members_def)

lemma cap_inv_read [simp]: "cap_inv q \<Longrightarrow> cap_inv (snd (snd (out_cap_read p d m q)))"
  by (auto simp: cap_inv_def out_cap_read_def cap_members_def Let_def)

lemma out_cap_tracked_members: "out_cap_tracked q p \<longleftrightarrow> oc_owner q > 0 \<and> p > 0 \<and> p \<in> set (cap_members q)"
  by (auto simp: out_cap_tracked_def cap_members_def)

lemma cap_inv_child [simp]:
  assumes "cap_inv q"
  shows "cap_inv (snd (out_cap_child a b q))"
proof -
  have "cap_members (q\<lparr>oc_pids := (oc_pids q)[oc_npids q := b], oc_npids := oc_npids q + 1\<rparr>) =
      cap_members q @ [b]" if "oc_npids q < OS_OUTCAP_PIDS"
    using that assms by (simp add: cap_members_def cap_inv_def take_Suc_conv_app_nth)
  with assms show ?thesis
    by (auto simp: cap_inv_def out_cap_child_def out_cap_tracked_members) (auto simp: cap_members_def)
qed

text \<open>Removing an element by moving the last one into its place.\<close>

lemma swap_remove:
  assumes "distinct m" and "k < length m"
  shows "distinct (butlast (m[k := last m])) \<and> set (butlast (m[k := last m])) = set m - {m ! k}"
proof (cases m rule: rev_cases)
  case (snoc ys z)
  show ?thesis
  proof (cases "k < length ys")
    case True
    with snoc assms(1) show ?thesis
      by (auto simp: list_update_append nth_append set_update_distinct distinct_list_update)
  next
    case False
    with snoc assms have "k = length ys" by simp
    with snoc assms(1) show ?thesis by auto
  qed
qed (use assms in simp)

lemma out_cap_forget_members:
  assumes "cap_inv q" and "0 < oc_owner q" and "0 < p"
  shows "set (cap_members (snd (out_cap_forget p q))) = set (cap_members q) - {p} \<and>
    distinct (cap_members (snd (out_cap_forget p q)))"
proof (cases "first_idx (\<lambda>x. x = p) (take (oc_npids q) (oc_pids q))")
  case None
  then have "out_cap_forget p q = (False, q)" using assms by (simp add: out_cap_forget_def)
  moreover have "p \<notin> set (cap_members q)" using None by (auto simp: cap_members_def first_idx_None)
  ultimately show ?thesis using assms(1) by (simp add: cap_inv_def)
next
  case (Some k)
  let ?m = "cap_members q"
  have len: "length ?m = oc_npids q" "length (oc_pids q) = 16" "oc_npids q \<le> 16" "distinct ?m"
    using assms(1) by (auto simp: cap_inv_def cap_members_def)
  have kn: "k < length ?m" "?m ! k = p" using first_idx_SomeD(1,2) [OF Some] by (auto simp: cap_members_def)
  have lst: "last ?m = oc_pids q ! (oc_npids q - 1)"
    using kn len by (subst last_conv_nth) (auto simp: cap_members_def)
  have "cap_members (snd (out_cap_forget p q)) = butlast (?m[k := last ?m])"
    using assms(2,3) Some kn len lst
    by (simp add: out_cap_forget_def cap_members_def butlast_conv_take take_update_swap min_def)
  with swap_remove [OF len(4) kn(1)] kn(2) show ?thesis by simp
qed

lemma out_cap_forget_other:
  "oc_owner (snd (out_cap_forget p q)) = oc_owner q" "oc_buf (snd (out_cap_forget p q)) = oc_buf q"
  "oc_n (snd (out_cap_forget p q)) = oc_n q"
  "oc_npids (snd (out_cap_forget p q)) \<le> oc_npids q"
  "length (oc_pids (snd (out_cap_forget p q))) = length (oc_pids q)"
  by (simp_all add: out_cap_forget_def split: option.splits)

lemma cap_inv_forget [simp]:
  assumes "cap_inv q"
  shows "cap_inv (snd (out_cap_forget p q))"
proof (cases "0 < oc_owner q \<and> 0 < p")
  case True
  then have "set (cap_members (snd (out_cap_forget p q))) = set (cap_members q) - {p} \<and>
      distinct (cap_members (snd (out_cap_forget p q)))"
    using out_cap_forget_members [OF assms] by blast
  with assms out_cap_forget_other [of p q] show ?thesis by (auto simp: cap_inv_def)
next
  case False
  then have "out_cap_forget p q = (False, q)" by (auto simp: out_cap_forget_def)
  with assms show ?thesis by simp
qed

lemma cap_inv_task_gone [simp]: "cap_inv q \<Longrightarrow> cap_inv (snd (out_cap_task_gone p q))"
  using cap_inv_forget [of q p] by (auto simp: out_cap_task_gone_def simp del: cap_inv_forget split: prod.splits)

lemma cap_kept_put:
  assumes "cap_inv q" and "out_cap_tracked q p"
  shows "cap_kept (snd (out_cap_put p c q)) =
    (if length (cap_kept q) < OS_OUTCAP_MAX then cap_kept q @ [c] else cap_kept q)"
  using assms by (auto simp: cap_kept_def out_cap_put_def cap_inv_def take_Suc_conv_app_nth)

lemma cap_kept_read:
  assumes "cap_inv q" and "0 < oc_owner q" and "0 < m"
  shows "out_cap_read (oc_owner q) True m q =
    (int (min (length (cap_kept q)) (nat (m - 1))), take (nat (m - 1)) (cap_kept q),
     snd (snd (out_cap_read (oc_owner q) True m q))) \<and>
    cap_kept (snd (snd (out_cap_read (oc_owner q) True m q))) = drop (nat (m - 1)) (cap_kept q)"
  using assms by (auto simp: cap_kept_def out_cap_read_def cap_inv_def Let_def min_def)

text \<open>
  A session between an owner and the tasks of its capture: bytes printed and reads by the
  owner. The run returns the bytes kept, the number of bytes dropped and the bytes read.
\<close>

datatype cap_op = Cap_Put pid char | Cap_Read int

fun cap_run :: "cap_op list \<Rightarrow> out_cap \<Rightarrow> char list \<times> nat \<times> char list \<times> out_cap" where
  "cap_run [] q = ([], 0, [], q)"
| "cap_run (Cap_Put p c # ops) q =
     (case cap_run ops (snd (out_cap_put p c q)) of (ks, d, rs, r) \<Rightarrow>
        if \<not> out_cap_tracked q p then (ks, d, rs, r)
        else if oc_n q < OS_OUTCAP_MAX then (c # ks, d, rs, r) else (ks, Suc d, rs, r))"
| "cap_run (Cap_Read m # ops) q =
     (case out_cap_read (oc_owner q) True m q of (_, out, q') \<Rightarrow>
      case cap_run ops q' of (ks, d, rs, r) \<Rightarrow> (ks, d, out @ rs, r))"

lemma out_cap_put_facts:
  "oc_owner (snd (out_cap_put p c q)) = oc_owner q"
  "oc_total (snd (out_cap_put p c q)) = oc_total q + (if out_cap_tracked q p then 1 else 0)"
  "oc_dropped (snd (out_cap_put p c q)) =
     oc_dropped q + (if out_cap_tracked q p \<and> \<not> oc_n q < OS_OUTCAP_MAX then 1 else 0)"
  by (simp_all add: out_cap_put_def)

lemma out_cap_read_facts:
  "oc_owner (snd (snd (out_cap_read p d m q))) = oc_owner q"
  "oc_total (snd (snd (out_cap_read p d m q))) = oc_total q"
  "oc_dropped (snd (snd (out_cap_read p d m q))) = oc_dropped q"
  by (simp_all add: out_cap_read_def Let_def)

lemma length_cap_kept: "cap_inv q \<Longrightarrow> length (cap_kept q) = oc_n q"
  by (simp add: cap_inv_def cap_kept_def)

lemma cap_read_split:
  assumes "cap_inv q" and "0 < oc_owner q"
  shows "cap_kept q = fst (snd (out_cap_read (oc_owner q) True m q)) @
    cap_kept (snd (snd (out_cap_read (oc_owner q) True m q)))"
proof (cases "0 < m")
  case True
  with cap_kept_read [OF assms] show ?thesis by (metis append_take_drop_id fst_conv snd_conv)
next
  case False
  then show ?thesis by (simp add: out_cap_read_def)
qed

text \<open>
  C36. While a capture is open, every byte a tracked task prints is accounted for: the bytes
  the owner has read followed by the bytes still in the buffer are exactly the bytes that
  were there at the start followed by the bytes kept, in order; the \<open>total\<close> counter grows by
  the bytes kept plus the bytes dropped and the \<open>dropped\<close> counter by the bytes dropped
  (modulo \<open>2 ^ 32\<close>); at most \<open>OS_OUTCAP_MAX\<close> bytes are ever held.
\<close>

theorem capture_accounts_for_every_byte:
  assumes "cap_inv q" and "0 < oc_owner q" and "cap_run ops q = (ks, d, rs, r)"
  shows "cap_inv r \<and> cap_kept q @ ks = rs @ cap_kept r \<and> length (cap_kept r) \<le> OS_OUTCAP_MAX \<and>
    oc_total r = oc_total q + of_nat (length ks + d) \<and> oc_dropped r = oc_dropped q + of_nat d"
  using assms
proof (induction ops arbitrary: q ks d rs)
  case Nil
  then show ?case by (simp add: length_cap_kept cap_inv_def)
next
  case (Cons op ops)
  show ?case
  proof (cases op)
    case (Cap_Put p c)
    obtain ks' d' rs' where run: "cap_run ops (snd (out_cap_put p c q)) = (ks', d', rs', r)"
      using Cons.prems(3) Cap_Put by (auto split: prod.splits if_splits)
    have IH: "cap_inv r \<and> cap_kept (snd (out_cap_put p c q)) @ ks' = rs' @ cap_kept r \<and>
        length (cap_kept r) \<le> OS_OUTCAP_MAX \<and>
        oc_total r = oc_total (snd (out_cap_put p c q)) + of_nat (length ks' + d') \<and>
        oc_dropped r = oc_dropped (snd (out_cap_put p c q)) + of_nat d'"
      using Cons.prems run by (intro Cons.IH) (simp_all add: out_cap_put_facts)
    show ?thesis
    proof (cases "out_cap_tracked q p")
      case True
      with IH Cons.prems Cap_Put run show ?thesis
        by (auto simp: cap_kept_put length_cap_kept out_cap_put_facts split: if_splits)
    next
      case False
      with IH Cons.prems Cap_Put run show ?thesis by (auto simp: out_cap_put_def)
    qed
  next
    case (Cap_Read m)
    let ?q = "snd (snd (out_cap_read (oc_owner q) True m q))"
    obtain rs' where run: "cap_run ops ?q = (ks, d, rs', r)"
      and rs: "rs = fst (snd (out_cap_read (oc_owner q) True m q)) @ rs'"
      using Cons.prems(3) Cap_Read by (auto split: prod.splits)
    have "cap_inv r \<and> cap_kept ?q @ ks = rs' @ cap_kept r \<and> length (cap_kept r) \<le> OS_OUTCAP_MAX \<and>
        oc_total r = oc_total ?q + of_nat (length ks + d) \<and> oc_dropped r = oc_dropped ?q + of_nat d"
      using Cons.prems run by (intro Cons.IH) (simp_all add: out_cap_read_facts)
    with rs cap_read_split [OF Cons.prems(1,2), of m] show ?thesis
      by (metis append.assoc out_cap_read_facts(2,3))
  qed
qed

theorem capture_accounts_for_every_byte_witness:
  "case cap_run [Cap_Put 5 CHR ''a'', Cap_Read 10] (snd (out_cap_child 3 5 (snd (out_cap_begin 3 out_cap_blank)))) of
    (ks, d, rs, r) \<Rightarrow> ks = rs @ cap_kept r"
proof -
  let ?q = "snd (out_cap_child 3 5 (snd (out_cap_begin 3 out_cap_blank)))"
  obtain ks d rs r where run: "cap_run [Cap_Put 5 CHR ''a'', Cap_Read 10] ?q = (ks, d, rs, r)"
    by (metis prod_cases4)
  have "cap_inv ?q" by simp
  moreover have "0 < oc_owner ?q" "cap_kept ?q = []"
    by (simp_all add: out_cap_child_def out_cap_begin_def out_cap_blank_def out_cap_reset_def
        out_cap_tracked_def cap_kept_def)
  ultimately show ?thesis
    using capture_accounts_for_every_byte [OF _ _ run] run by simp
qed

end
