(* ===== verification/Task.thy ===== *)
theory Task
  imports Linked_Ring Ipc_Wait Spill Out_Capture
begin

text \<open>
  Tasks, their static pool and the circular run queue (\<open>kernel/task/task.h\<close>, first part of
  \<open>kernel/task/task.c\<close>). A \<open>task_t*\<close> is the index of its slot in \<open>task_static_pool\<close>; NULL is
  \<open>None\<close>. The global variables of \<open>task.c\<close> are the fields of \<open>kstate\<close>, together with the two
  pieces of state the task code updates in other files: the notification overflow area and
  the output capture. Not kept: the saved system-call frame pointer, and page tables (a
  directory is its index in \<open>task_static_vmm_pool\<close>).
\<close>

subsection \<open>Constants and types\<close>

abbreviation (input) OS_TASK_NOT_FOUND :: rc where "OS_TASK_NOT_FOUND \<equiv> - 62"
abbreviation (input) OS_TASK_BAD_PRIORITY :: rc where "OS_TASK_BAD_PRIORITY \<equiv> - 63"
abbreviation (input) OS_TASK_CONTROL_DENIED :: rc where "OS_TASK_CONTROL_DENIED \<equiv> - 64"
abbreviation (input) OS_TASK_NOT_CHILD :: rc where "OS_TASK_NOT_CHILD \<equiv> - 65"
abbreviation (input) OS_TASK_CHILD_LIMIT :: rc where "OS_TASK_CHILD_LIMIT \<equiv> - 66"
abbreviation (input) OS_TASK_BAD_NAME :: rc where "OS_TASK_BAD_NAME \<equiv> - 67"
abbreviation (input) OS_TASK_GLOBAL_LIMIT :: rc where "OS_TASK_GLOBAL_LIMIT \<equiv> - 68"
abbreviation (input) OS_TASK_NO_CHILD_RESULT :: rc where "OS_TASK_NO_CHILD_RESULT \<equiv> - 69"
abbreviation (input) OS_TASK_HISTORY_STALE :: rc where "OS_TASK_HISTORY_STALE \<equiv> - 70"
abbreviation (input) OS_TASK_BAD_STATE :: rc where "OS_TASK_BAD_STATE \<equiv> - 71"
abbreviation (input) OS_TASK_NO_DIRECT_CHILD :: rc where "OS_TASK_NO_DIRECT_CHILD \<equiv> - 72"
abbreviation (input) OS_TASK_BAD_DELEGATE :: rc where "OS_TASK_BAD_DELEGATE \<equiv> - 73"
abbreviation (input) OS_TASK_NO_SUPERVISION_EVENT :: rc where "OS_TASK_NO_SUPERVISION_EVENT \<equiv> - 74"
abbreviation (input) OS_TASK_BAD_NOTIFY :: rc where "OS_TASK_BAD_NOTIFY \<equiv> - 75"
abbreviation (input) OS_TASK_BAD_NOTIFY_FILTER :: rc where "OS_TASK_BAD_NOTIFY_FILTER \<equiv> - 76"
abbreviation (input) OS_TASK_BAD_WATCH :: rc where "OS_TASK_BAD_WATCH \<equiv> - 77"
abbreviation (input) OS_TASK_WATCH_FULL :: rc where "OS_TASK_WATCH_FULL \<equiv> - 78"
abbreviation (input) OS_TASK_NO_SUPERVISION_WATCH :: rc where "OS_TASK_NO_SUPERVISION_WATCH \<equiv> - 79"
abbreviation (input) OS_TASK_EXIT_KILLED :: int where "OS_TASK_EXIT_KILLED \<equiv> - 128"
abbreviation (input) OS_TASK_EXIT_HISTORY_CAPACITY :: nat where "OS_TASK_EXIT_HISTORY_CAPACITY \<equiv> 4"
abbreviation (input) OS_TASK_GLOBAL_CAPACITY :: nat where "OS_TASK_GLOBAL_CAPACITY \<equiv> 16"
abbreviation (input) OS_TASK_CHILD_CAPACITY :: nat where "OS_TASK_CHILD_CAPACITY \<equiv> 4"
abbreviation (input) OS_TASK_SUPERVISION_EVENT_CAPACITY :: nat where "OS_TASK_SUPERVISION_EVENT_CAPACITY \<equiv> 4"
abbreviation (input) OS_TASK_SUPERVISION_WATCH_CAPACITY :: nat where "OS_TASK_SUPERVISION_WATCH_CAPACITY \<equiv> 4"
abbreviation (input) OS_TASK_PRIORITY_LOW :: u32 where "OS_TASK_PRIORITY_LOW \<equiv> 1"
abbreviation (input) OS_TASK_PRIORITY_NORMAL :: u32 where "OS_TASK_PRIORITY_NORMAL \<equiv> 2"
abbreviation (input) OS_TASK_PRIORITY_HIGH :: u32 where "OS_TASK_PRIORITY_HIGH \<equiv> 3"
abbreviation (input) OS_TASK_SUPERVISION_NOTIFY_ALL :: u32 where "OS_TASK_SUPERVISION_NOTIFY_ALL \<equiv> 31"
abbreviation (input) OS_PROC_NAME_MAX :: nat where "OS_PROC_NAME_MAX \<equiv> 32"

datatype task_state =
    TASK_RUNNING | TASK_READY | TASK_WAITING | TASK_WAITING_FOR_INPUT | TASK_SUSPENDED
  | TASK_TERMINATED | TASK_BLOCKED_KERNEL | TASK_BLOCKED_IPC

datatype task_type = TASK_TYPE_KERNEL | TASK_TYPE_USER

datatype vmm_dir = Kernel_Dir | Static_Dir nat

record cpu_state =
  r_edi :: u32
  r_esi :: u32
  r_ebp :: u32
  r_esp_dummy :: u32
  r_ebx :: u32
  r_edx :: u32
  r_ecx :: u32
  r_eax :: u32
  r_gs :: u32
  r_fs :: u32
  r_es :: u32
  r_ds :: u32
  r_eip :: u32
  r_cs :: u32
  r_eflags :: u32
  r_useresp :: u32
  r_ss :: u32

record os_task_exit_result =
  xr_child_pid :: pid
  xr_exit_code :: int
  xr_reason :: u32
  xr_finished_ticks :: u32

record task =
  t_id :: pid
  t_sequence :: u32
  t_generation :: u32
  t_identity_key :: u32
  t_cpu_state :: cpu_state
  t_state :: task_state
  t_type :: task_type
  t_priority :: u32
  t_vmm_dir :: "vmm_dir option"
  t_heap_size :: u32
  t_kernel_stack_p :: "nat option"
  t_name :: cstring
  t_parent_pid :: pid
  t_waiter_pid :: pid
  t_created_ticks :: u32
  t_last_scheduled_ticks :: u32
  t_run_ticks :: u32
  t_switch_count :: u32
  t_last_child_pid :: pid
  t_last_child_exit_code :: int
  t_last_child_exit_reason :: u32
  t_last_child_finished_ticks :: u32
  t_child_exit_history :: "os_task_exit_result list"
  t_child_exit_history_start :: nat
  t_child_exit_history_count :: nat
  t_child_exit_history_generation :: u32
  t_direct_child_exit_count :: u32
  t_supervision_events :: "os_task_supervision_event list"
  t_supervision_event_start :: nat
  t_supervision_event_count :: nat
  t_supervision_event_generation :: u32
  t_supervision_event_sequence :: u32
  t_supervision_notify_enabled :: u32
  t_supervision_notify_mask :: u32
  t_supervision_watch_enabled :: u32
  t_supervision_watch_count :: nat
  t_supervision_watch_pids :: "pid list"
  t_supervision_delivery_attempted :: u32
  t_supervision_delivery_delivered :: u32
  t_supervision_delivery_dropped :: u32
  t_supervision_priority_child_pid :: pid
  t_supervision_notify_budget_limit :: u32
  t_supervision_notify_budget_used :: u32
  t_ipc_endpoint :: ipc_endpoint
  t_ipc_wait :: ipc_wait
  t_kctx :: "u32 list"
  t_kctx_valid :: bool
  t_boot_service :: bool
  t_fx_state :: "u8 list"
  t_next :: "nat option"
  t_prev :: "nat option"

record kstate =
  k_pool :: "task list"
  k_used :: "bool list"
  k_sequence_counter :: u32
  k_slot_generation :: "u32 list"
  k_identity_key :: u32
  k_vmm_used :: "bool list"
  k_current :: "nat option"
  k_queue :: "nat option"
  k_next_task_id :: int
  k_deferred_reap :: "nat option"
  k_root_shell_pid :: pid
  k_rr_anchor :: "nat option"
  k_resume_after_high :: "nat option"
  k_sched_only :: "nat option"
  k_gets_waiter :: "nat option"
  k_current_directory :: vmm_dir
  k_ticks :: u32
  k_spill :: spill
  k_outcap :: out_cap

end
