(* ===== verification/Task_Queue.thy ===== *)
theory Task_Queue
  imports Task
begin

text \<open>
  The static pool, the run queue, task creation and the lookups of \<open>kernel/task/task.c\<close>,
  with the well-formedness invariant of the task state. The doubly linked run queue is shown
  to be a list of slots: the pointer updates of insertion and removal are the list operations.
\<close>

subsection \<open>Slots\<close>

definition tsk :: "kstate \<Rightarrow> nat \<Rightarrow> task" where
  "tsk k i = k_pool k ! i"

definition upd_task :: "nat \<Rightarrow> (task \<Rightarrow> task) \<Rightarrow> kstate \<Rightarrow> kstate" where
  "upd_task i f k = k\<lparr>k_pool := (k_pool k)[i := f (k_pool k ! i)]\<rparr>"

definition nx :: "kstate \<Rightarrow> nat \<Rightarrow> nat option" where
  "nx k i = t_next (tsk k i)"

definition pv :: "kstate \<Rightarrow> nat \<Rightarrow> nat option" where
  "pv k i = t_prev (tsk k i)"

text \<open>
  The slots a loop over \<open>task_queue\<close> visits, in order. No loop of \<open>task.c\<close> changes the links
  while it walks them. The bound is the size of the pool; the invariant makes it sufficient.
\<close>

definition queue_slots :: "kstate \<Rightarrow> nat list" where
  "queue_slots k = (case k_queue k of None \<Rightarrow> [] | Some h \<Rightarrow> ring_walk OS_TASK_GLOBAL_CAPACITY (nx k) h h)"

definition zero_cpu_state :: cpu_state where
  "zero_cpu_state = \<lparr>r_edi = 0, r_esi = 0, r_ebp = 0, r_esp_dummy = 0, r_ebx = 0, r_edx = 0,
     r_ecx = 0, r_eax = 0, r_gs = 0, r_fs = 0, r_es = 0, r_ds = 0, r_eip = 0, r_cs = 0,
     r_eflags = 0, r_useresp = 0, r_ss = 0\<rparr>"

definition zero_exit_result :: os_task_exit_result where
  "zero_exit_result = \<lparr>xr_child_pid = 0, xr_exit_code = 0, xr_reason = 0, xr_finished_ticks = 0\<rparr>"

definition zero_supervision_event :: os_task_supervision_event where
  "zero_supervision_event = \<lparr>sv_sequence = 0, sv_action = 0, sv_child_pid = 0, sv_related_pid = 0,
     sv_detail = 0, sv_ticks = 0, sv_child_sequence = 0, sv_child_generation = 0, sv_identity_key = 0\<rparr>"

definition zero_endpoint :: ipc_endpoint where
  "zero_endpoint = \<lparr>ep_messages = replicate IPC_ENDPOINT_CAPACITY (empty_message\<lparr>msg_sender_pid := 0\<rparr>),
     ep_read_index = 0, ep_write_index = 0, ep_count = 0\<rparr>"

text \<open>\<open>memset(task, 0, sizeof(task_t))\<close>\<close>

definition zero_task :: task where
  "zero_task = \<lparr>t_id = 0, t_sequence = 0, t_generation = 0, t_identity_key = 0,
     t_cpu_state = zero_cpu_state, t_state = TASK_RUNNING, t_type = TASK_TYPE_KERNEL,
     t_priority = 0, t_vmm_dir = None, t_heap_size = 0, t_kernel_stack_p = None,
     t_name = replicate 32 NUL, t_parent_pid = 0, t_waiter_pid = 0, t_created_ticks = 0,
     t_last_scheduled_ticks = 0, t_run_ticks = 0, t_switch_count = 0, t_last_child_pid = 0,
     t_last_child_exit_code = 0, t_last_child_exit_reason = 0, t_last_child_finished_ticks = 0,
     t_child_exit_history = replicate OS_TASK_EXIT_HISTORY_CAPACITY zero_exit_result,
     t_child_exit_history_start = 0, t_child_exit_history_count = 0,
     t_child_exit_history_generation = 0, t_direct_child_exit_count = 0,
     t_supervision_events = replicate OS_TASK_SUPERVISION_EVENT_CAPACITY zero_supervision_event,
     t_supervision_event_start = 0, t_supervision_event_count = 0,
     t_supervision_event_generation = 0, t_supervision_event_sequence = 0,
     t_supervision_notify_enabled = 0, t_supervision_notify_mask = 0,
     t_supervision_watch_enabled = 0, t_supervision_watch_count = 0,
     t_supervision_watch_pids = replicate OS_TASK_SUPERVISION_WATCH_CAPACITY 0,
     t_supervision_delivery_attempted = 0, t_supervision_delivery_delivered = 0,
     t_supervision_delivery_dropped = 0, t_supervision_priority_child_pid = 0,
     t_supervision_notify_budget_limit = 0, t_supervision_notify_budget_used = 0,
     t_ipc_endpoint = zero_endpoint, t_ipc_wait = ipc_wait_zero,
     t_kctx = replicate 7 0, t_kctx_valid = False, t_boot_service = False,
     t_fx_state = replicate 512 0, t_next = None, t_prev = None\<rparr>"


subsection \<open>The static pools\<close>

definition task_static_vmm_acquire :: "kstate \<Rightarrow> vmm_dir option \<times> kstate" where
  "task_static_vmm_acquire k =
     (case first_idx Not (k_vmm_used k) of
        None \<Rightarrow> (None, k)
      | Some i \<Rightarrow> (Some (Static_Dir i), k\<lparr>k_vmm_used := (k_vmm_used k)[i := True]\<rparr>))"

definition task_static_vmm_release :: "vmm_dir \<Rightarrow> kstate \<Rightarrow> kstate" where
  "task_static_vmm_release d k =
     (case d of Kernel_Dir \<Rightarrow> k | Static_Dir i \<Rightarrow> k\<lparr>k_vmm_used := (k_vmm_used k)[i := False]\<rparr>)"

definition task_fx_init :: "task \<Rightarrow> task" where
  "task_fx_init t = t\<lparr>t_fx_state := (replicate 512 0)[0 := 0x7F, 1 := 0x03, 24 := 0x80, 25 := 0x1F]\<rparr>"

definition task_static_acquire :: "kstate \<Rightarrow> nat option \<times> kstate" where
  "task_static_acquire k =
     (case first_idx Not (k_used k) of
        None \<Rightarrow> (None, k)
      | Some i \<Rightarrow>
          let gen = next_nonzero (k_slot_generation k ! i);
              seq = next_nonzero (k_sequence_counter k);
              t = (task_fx_init zero_task)\<lparr>t_sequence := seq, t_generation := gen,
                    t_identity_key := k_identity_key k\<rparr>
          in (Some i, k\<lparr>k_used := (k_used k)[i := True], k_pool := (k_pool k)[i := t],
                k_slot_generation := (k_slot_generation k)[i := gen], k_sequence_counter := seq,
                k_identity_key := next_nonzero (k_identity_key k)\<rparr>))"

definition task_static_release :: "nat \<Rightarrow> kstate \<Rightarrow> kstate" where
  "task_static_release i k =
     (if i < OS_TASK_GLOBAL_CAPACITY
      then k\<lparr>k_pool := (k_pool k)[i := zero_task], k_used := (k_used k)[i := False]\<rparr> else k)"

text \<open>The top of the kernel stack of a slot is named by the slot; 0 is \<open>None\<close>.\<close>

definition task_static_kernel_stack_top :: "nat \<Rightarrow> nat option" where
  "task_static_kernel_stack_top i = (if i < OS_TASK_GLOBAL_CAPACITY then Some i else None)"


subsection \<open>Start-up\<close>

text \<open>The assignments \<open>tasking_init\<close> and \<open>create_task_from_initrd_file\<close> have in common.\<close>

definition init_bookkeeping :: "u32 \<Rightarrow> task \<Rightarrow> task" where
  "init_bookkeeping now t = t\<lparr>t_priority := OS_TASK_PRIORITY_NORMAL, t_parent_pid := - 1,
     t_waiter_pid := 0, t_created_ticks := now, t_last_scheduled_ticks := now, t_run_ticks := 0,
     t_last_child_pid := - 1, t_last_child_exit_code := 0, t_last_child_exit_reason := 0,
     t_last_child_finished_ticks := 0, t_child_exit_history_start := 0,
     t_child_exit_history_count := 0, t_child_exit_history_generation := 1,
     t_direct_child_exit_count := 0, t_supervision_event_start := 0,
     t_supervision_event_count := 0, t_supervision_event_generation := 0,
     t_supervision_event_sequence := 0, t_supervision_notify_enabled := 0,
     t_supervision_notify_mask := OS_TASK_SUPERVISION_NOTIFY_ALL, t_supervision_watch_enabled := 0,
     t_supervision_watch_count := 0,
     t_supervision_watch_pids := replicate OS_TASK_SUPERVISION_WATCH_CAPACITY 0,
     t_supervision_delivery_attempted := 0, t_supervision_delivery_delivered := 0,
     t_supervision_delivery_dropped := 0, t_supervision_priority_child_pid := - 1,
     t_supervision_notify_budget_limit := 0, t_supervision_notify_budget_used := 0,
     t_ipc_endpoint := ipc_endpoint_init, t_ipc_wait := ipc_wait_zero\<rparr>"

definition tasking_init :: "kstate \<Rightarrow> kstate" where
  "tasking_init k =
     (let k1 = k\<lparr>k_deferred_reap := None, k_used := replicate OS_TASK_GLOBAL_CAPACITY False,
                 k_vmm_used := replicate OS_TASK_GLOBAL_CAPACITY False,
                 k_slot_generation := replicate OS_TASK_GLOBAL_CAPACITY 0,
                 k_sequence_counter := 1, k_identity_key := 1\<rparr>
      in case task_static_acquire k1 of
           (None, k2) \<Rightarrow> k2\<lparr>k_current := None\<rparr>
         | (Some i, k2) \<Rightarrow>
             (upd_task i (\<lambda>t. (init_bookkeeping (k_ticks k2) t)\<lparr>t_id := k_next_task_id k2,
                 t_sequence := 1, t_generation := 1, t_state := TASK_RUNNING,
                 t_type := TASK_TYPE_KERNEL, t_vmm_dir := Some Kernel_Dir, t_kernel_stack_p := None,
                 t_switch_count := 1, t_name := ''kernel'' @ [NUL] @ drop 7 (t_name t),
                 t_next := Some i, t_prev := Some i\<rparr>) k2)
             \<lparr>k_current := Some i, k_next_task_id := k_next_task_id k2 + 1, k_queue := Some i\<rparr>)"


subsection \<open>The run queue\<close>

text \<open>
  A NULL link inside the queue would be dereferenced by the code; the model leaves the state
  unchanged there, and the invariant excludes it.
\<close>

definition add_task_to_queue :: "nat \<Rightarrow> kstate \<Rightarrow> kstate" where
  "add_task_to_queue i k =
     (case k_queue k of
        None \<Rightarrow> (upd_task i (\<lambda>t. t\<lparr>t_next := Some i, t_prev := Some i\<rparr>) k)\<lparr>k_queue := Some i\<rparr>
      | Some h \<Rightarrow>
          (case pv k h of
             None \<Rightarrow> k
           | Some l \<Rightarrow>
               upd_task h (\<lambda>t. t\<lparr>t_prev := Some i\<rparr>)
                 (upd_task l (\<lambda>t. t\<lparr>t_next := Some i\<rparr>)
                   (upd_task i (\<lambda>t. t\<lparr>t_next := Some h, t_prev := Some l\<rparr>) k))))"

definition task_queue_move_first_user :: "nat option \<Rightarrow> kstate \<Rightarrow> kstate" where
  "task_queue_move_first_user task k =
     (case (task, k_queue k) of
        (Some i, Some h) \<Rightarrow>
          if i = h \<or> nx k h = Some i then k
          else (case (pv k i, nx k i) of
              (Some p, Some n) \<Rightarrow>
                let k1 = upd_task n (\<lambda>t. t\<lparr>t_prev := Some p\<rparr>) (upd_task p (\<lambda>t. t\<lparr>t_next := Some n\<rparr>) k)
                in (case nx k1 h of
                      None \<Rightarrow> k1
                    | Some a \<Rightarrow>
                        upd_task h (\<lambda>t. t\<lparr>t_next := Some i\<rparr>)
                          (upd_task a (\<lambda>t. t\<lparr>t_prev := Some i\<rparr>)
                            (upd_task i (\<lambda>t. t\<lparr>t_next := Some a, t_prev := Some h\<rparr>) k1)))
            | _ \<Rightarrow> k)
      | _ \<Rightarrow> k)"

definition unlink_task :: "nat \<Rightarrow> kstate \<Rightarrow> kstate" where
  "unlink_task i k =
     (if k_queue k = None then k
      else
        let k1 = k\<lparr>k_rr_anchor := (if k_rr_anchor k = Some i then None else k_rr_anchor k),
                   k_resume_after_high := (if k_resume_after_high k = Some i then None else k_resume_after_high k)\<rparr>
        in if nx k1 i = Some i then k1\<lparr>k_queue := None, k_current := None\<rparr>
           else (case (pv k1 i, nx k1 i) of
               (Some p, Some n) \<Rightarrow>
                 let k2 = upd_task n (\<lambda>t. t\<lparr>t_prev := Some p\<rparr>) (upd_task p (\<lambda>t. t\<lparr>t_next := Some n\<rparr>) k1)
                 in k2\<lparr>k_queue := (if k_queue k2 = Some i then Some n else k_queue k2),
                       k_current := (if k_current k2 = Some i then Some n else k_current k2)\<rparr>
             | _ \<Rightarrow> k1))"


subsection \<open>Releasing a task\<close>

text \<open>
  \<open>vmm_destroy_user_directory\<close> refuses the kernel directory and the one in use; every
  directory of a task comes from the static pool. The pages it frees are not modelled.
\<close>

definition vmm_destroy_user_directory :: "vmm_dir \<Rightarrow> kstate \<Rightarrow> rc" where
  "vmm_destroy_user_directory d k = (if d = Kernel_Dir \<or> d = k_current_directory k then - 1 else 0)"

definition task_destroy_user_vmm :: "vmm_dir option \<Rightarrow> kstate \<Rightarrow> rc \<times> kstate" where
  "task_destroy_user_vmm dir k =
     (case dir of
        None \<Rightarrow> (0, k)
      | Some d \<Rightarrow>
          if vmm_destroy_user_directory d k \<noteq> 0 then (- 1, k)
          else (0, task_static_vmm_release d k))"

definition task_release_detached :: "nat option \<Rightarrow> kstate \<Rightarrow> kstate" where
  "task_release_detached task k =
     (case task of
        None \<Rightarrow> k
      | Some i \<Rightarrow>
          if t_type (tsk k i) \<noteq> TASK_TYPE_USER \<or> t_kernel_stack_p (tsk k i) = None then k
          else (case task_destroy_user_vmm (t_vmm_dir (tsk k i)) k of
              (r, k') \<Rightarrow> if r \<noteq> 0 then k'
                else task_static_release i (upd_task i (\<lambda>t. t\<lparr>t_vmm_dir := None, t_kernel_stack_p := None\<rparr>) k')))"

definition task_reap_deferred :: "kstate \<Rightarrow> kstate" where
  "task_reap_deferred k = task_release_detached (k_deferred_reap k) (k\<lparr>k_deferred_reap := None\<rparr>)"

definition remove_task :: "nat option \<Rightarrow> kstate \<Rightarrow> kstate" where
  "remove_task task k =
     (case task of
        None \<Rightarrow> k
      | Some i \<Rightarrow>
          if task = k_current k \<or> k_queue k = None then k
          else if i \<in> set (queue_slots k) then task_release_detached (Some i) (unlink_task i k)
          else k)"


subsection \<open>Lookups\<close>

definition find_task_waiting_for_input :: "kstate \<Rightarrow> nat option" where
  "find_task_waiting_for_input k =
     find (\<lambda>i. t_state (tsk k i) = TASK_WAITING_FOR_INPUT) (queue_slots k)"

definition get_task_by_id :: "kstate \<Rightarrow> pid \<Rightarrow> nat option" where
  "get_task_by_id k p = find (\<lambda>i. t_id (tsk k i) = p) (queue_slots k)"

definition task_get_identity :: "kstate \<Rightarrow> pid \<Rightarrow> (u32 \<times> u32) option" where
  "task_get_identity k p =
     map_option (\<lambda>i. (t_sequence (tsk k i), t_generation (tsk k i))) (get_task_by_id k p)"

definition task_identity_key :: "kstate \<Rightarrow> pid \<Rightarrow> u32 option" where
  "task_identity_key k p = map_option (\<lambda>i. t_identity_key (tsk k i)) (get_task_by_id k p)"

definition task_has_other_ready_user :: "kstate \<Rightarrow> bool" where
  "task_has_other_ready_user k =
     (case (k_queue k, k_current k) of
        (Some _, Some c) \<Rightarrow>
          \<exists>i\<in>set (tl (ring_walk OS_TASK_GLOBAL_CAPACITY (nx k) c c)).
            t_type (tsk k i) = TASK_TYPE_USER \<and> t_state (tsk k i) = TASK_READY
      | _ \<Rightarrow> False)"

definition get_task_count :: "kstate \<Rightarrow> nat" where
  "get_task_count k = length (queue_slots k)"

definition task_count_direct_children :: "kstate \<Rightarrow> pid \<Rightarrow> nat" where
  "task_count_direct_children k p = length (filter (\<lambda>i. t_parent_pid (tsk k i) = p) (queue_slots k))"

definition task_can_create_child :: "kstate \<Rightarrow> pid \<Rightarrow> rc" where
  "task_can_create_child k p =
     (if get_task_by_id k p = None then OS_TASK_NOT_FOUND
      else if task_count_direct_children k p \<ge> OS_TASK_CHILD_CAPACITY then OS_TASK_CHILD_LIMIT
      else 0)"

definition task_can_create_global :: "kstate \<Rightarrow> rc" where
  "task_can_create_global k =
     (if get_task_count k \<ge> OS_TASK_GLOBAL_CAPACITY then OS_TASK_GLOBAL_LIMIT else 0)"


subsection \<open>Creating a task\<close>

definition setup_initial_user_context :: "u32 \<Rightarrow> u32 \<Rightarrow> task \<Rightarrow> task" where
  "setup_initial_user_context entry_point stack_top t =
     (task_fx_init t)\<lparr>t_cpu_state := zero_cpu_state\<lparr>r_eip := entry_point, r_useresp := stack_top,
        r_eflags := 0x202, r_cs := 0x1B, r_ds := 0x23, r_es := 0x23, r_fs := 0x23, r_gs := 0x23,
        r_ss := 0x23\<rparr>\<rparr>"

text \<open>The part of a path after its last slash.\<close>

definition path_base :: "cstring \<Rightarrow> cstring" where
  "path_base s = rev (takeWhile (\<lambda>c. c \<noteq> CHR ''/'') (rev (cstr s)))"

definition task_name_of :: "cstring option \<Rightarrow> cstring" where
  "task_name_of name_src =
     (let base = path_base (case name_src of None \<Rightarrow> ''user'' | Some n \<Rightarrow> n)
      in copy_upto 31 (if base = [] then ''user'' else base) @ [NUL])"

text \<open>
  The initial RAM disk, the ELF loader and the allocation of the user stack are parameters:
  \<open>initrd_read_file\<close> gives the file, \<open>elf_load\<close> its entry point and \<open>allocate_user_stack\<close>
  the top of the stack, 0 meaning failure.
\<close>

definition find_image :: "(cstring option \<Rightarrow> 'f option) \<Rightarrow> cstring option \<Rightarrow> ('f \<times> cstring option) option" where
  "find_image initrd_read_file filename =
     (case initrd_read_file filename of
        Some f \<Rightarrow> Some (f, filename)
      | None \<Rightarrow>
          (case filename of
             None \<Rightarrow> None
           | Some n \<Rightarrow>
               if cstr n \<noteq> [] \<and> CHR ''/'' \<notin> set (cstr n)
               then let alt = Some (''bin/'' @ take 250 (cstr n))
                    in map_option (\<lambda>f. (f, alt)) (initrd_read_file alt)
               else None))"

definition create_task_from_initrd_file ::
    "(cstring option \<Rightarrow> 'f option) \<Rightarrow> ('f \<Rightarrow> u32) \<Rightarrow> u32 \<Rightarrow> cstring option \<Rightarrow> kstate \<Rightarrow> nat option \<times> kstate" where
  "create_task_from_initrd_file initrd_read_file elf_load allocate_user_stack filename k =
     (if task_can_create_global k \<noteq> 0 then (None, k)
      else case find_image initrd_read_file filename of
        None \<Rightarrow> (None, k)
      | Some (file, name_src) \<Rightarrow>
          (case task_static_vmm_acquire k of
             (None, k1) \<Rightarrow> (None, k1)
           | (Some dir, k1) \<Rightarrow>
               let entry_point = elf_load file;
                   user_stack_top = (if entry_point \<noteq> 0 then allocate_user_stack else 0)
               in if entry_point = 0 \<or> user_stack_top = 0
                  then (None, snd (task_destroy_user_vmm (Some dir) k1))
                  else (case task_static_acquire k1 of
                      (None, k2) \<Rightarrow> (None, snd (task_destroy_user_vmm (Some dir) k2))
                    | (Some i, k2) \<Rightarrow>
                        let k3 = (upd_task i (\<lambda>t. (init_bookkeeping (k_ticks k2) t)
                              \<lparr>t_id := k_next_task_id k2, t_state := TASK_READY,
                               t_type := TASK_TYPE_USER, t_vmm_dir := Some dir, t_switch_count := 0,
                               t_name := task_name_of name_src,
                               t_kernel_stack_p := task_static_kernel_stack_top i\<rparr>) k2)
                              \<lparr>k_next_task_id := k_next_task_id k2 + 1\<rparr>
                        in if t_kernel_stack_p (tsk k3 i) = None
                           then (None, snd (task_destroy_user_vmm (Some dir) (task_static_release i k3)))
                           else (Some i, add_task_to_queue i
                                  (upd_task i (setup_initial_user_context entry_point user_stack_top) k3)))))"


subsection \<open>Slots and globals\<close>

lemma tsk_upd_task [simp]:
  "tsk (upd_task i f k) j = (if j = i \<and> i < length (k_pool k) then f (tsk k i) else tsk k j)"
  by (cases "i < length (k_pool k)") (auto simp: tsk_def upd_task_def list_update_beyond)

lemma upd_task_simps [simp]:
  "length (k_pool (upd_task i f k)) = length (k_pool k)"
  "k_used (upd_task i f k) = k_used k" "k_sequence_counter (upd_task i f k) = k_sequence_counter k"
  "k_slot_generation (upd_task i f k) = k_slot_generation k" "k_identity_key (upd_task i f k) = k_identity_key k"
  "k_vmm_used (upd_task i f k) = k_vmm_used k" "k_current (upd_task i f k) = k_current k"
  "k_queue (upd_task i f k) = k_queue k" "k_next_task_id (upd_task i f k) = k_next_task_id k"
  "k_deferred_reap (upd_task i f k) = k_deferred_reap k" "k_root_shell_pid (upd_task i f k) = k_root_shell_pid k"
  "k_rr_anchor (upd_task i f k) = k_rr_anchor k" "k_resume_after_high (upd_task i f k) = k_resume_after_high k"
  "k_sched_only (upd_task i f k) = k_sched_only k" "k_gets_waiter (upd_task i f k) = k_gets_waiter k"
  "k_current_directory (upd_task i f k) = k_current_directory k" "k_ticks (upd_task i f k) = k_ticks k"
  "k_spill (upd_task i f k) = k_spill k" "k_outcap (upd_task i f k) = k_outcap k"
  by (simp_all add: upd_task_def)

text \<open>Updates of the globals do not change the slots.\<close>

lemma tsk_pool_cong: "k_pool k' = k_pool k \<Longrightarrow> tsk k' = tsk k"
  by (simp add: tsk_def fun_eq_iff)

lemma tsk_global [simp]:
  "tsk (k\<lparr>k_used := v1\<rparr>) = tsk k" "tsk (k\<lparr>k_sequence_counter := v2\<rparr>) = tsk k"
  "tsk (k\<lparr>k_slot_generation := v3\<rparr>) = tsk k" "tsk (k\<lparr>k_identity_key := v4\<rparr>) = tsk k"
  "tsk (k\<lparr>k_vmm_used := v5\<rparr>) = tsk k" "tsk (k\<lparr>k_current := v6\<rparr>) = tsk k"
  "tsk (k\<lparr>k_queue := v7\<rparr>) = tsk k" "tsk (k\<lparr>k_next_task_id := v8\<rparr>) = tsk k"
  "tsk (k\<lparr>k_deferred_reap := v9\<rparr>) = tsk k" "tsk (k\<lparr>k_root_shell_pid := v10\<rparr>) = tsk k"
  "tsk (k\<lparr>k_rr_anchor := v11\<rparr>) = tsk k" "tsk (k\<lparr>k_resume_after_high := v12\<rparr>) = tsk k"
  "tsk (k\<lparr>k_sched_only := v13\<rparr>) = tsk k" "tsk (k\<lparr>k_gets_waiter := v14\<rparr>) = tsk k"
  "tsk (k\<lparr>k_current_directory := v15\<rparr>) = tsk k" "tsk (k\<lparr>k_ticks := v16\<rparr>) = tsk k"
  "tsk (k\<lparr>k_spill := v17\<rparr>) = tsk k" "tsk (k\<lparr>k_outcap := v18\<rparr>) = tsk k"
  by (simp_all add: tsk_def fun_eq_iff)

lemma nx_eq: "nx k = (\<lambda>i. t_next (tsk k i))" and pv_eq: "pv k = (\<lambda>i. t_prev (tsk k i))"
  by (simp_all add: nx_def pv_def fun_eq_iff)


subsection \<open>The run queue is a list of slots\<close>

definition ring_rep :: "kstate \<Rightarrow> nat list \<Rightarrow> bool" where
  "ring_rep k xs \<longleftrightarrow> k_queue k = (case xs of [] \<Rightarrow> None | h # _ \<Rightarrow> Some h) \<and>
     linked_ring (nx k) (pv k) xs \<and> (\<forall>i\<in>set xs. i < OS_TASK_GLOBAL_CAPACITY)"

lemma slots_bound:
  assumes "distinct xs" and "\<forall>i\<in>set xs. i < n"
  shows "length xs \<le> n"
proof -
  have "set xs \<subseteq> {..<n}" using assms(2) by auto
  then have "card (set xs) \<le> n" using card_mono [of "{..<n}" "set xs"] by simp
  with assms(1) show ?thesis by (simp add: distinct_card)
qed

lemma ring_rep_slots:
  assumes "ring_rep k xs"
  shows "queue_slots k = xs"
proof (cases xs)
  case (Cons h r)
  have "length xs \<le> OS_TASK_GLOBAL_CAPACITY"
    using assms by (intro slots_bound) (auto simp: ring_rep_def linked_ring_def)
  with Cons assms show ?thesis
    by (auto simp: queue_slots_def ring_rep_def intro!: ring_walk_ring)
qed (use assms in \<open>simp add: ring_rep_def queue_slots_def\<close>)

definition queue_ok :: "kstate \<Rightarrow> bool" where
  "queue_ok k \<longleftrightarrow> ring_rep k (queue_slots k)"

lemma ring_rep_queue_ok: "ring_rep k xs \<Longrightarrow> queue_ok k \<and> queue_slots k = xs"
  using ring_rep_slots [of k xs] by (simp add: queue_ok_def)

text \<open>What does not touch the links does not touch the queue.\<close>

lemma ring_rep_frame:
  assumes "ring_rep k xs" and "k_queue k' = k_queue k"
    and "\<And>i. i \<in> set xs \<Longrightarrow> t_next (tsk k' i) = t_next (tsk k i) \<and> t_prev (tsk k' i) = t_prev (tsk k i)"
  shows "ring_rep k' xs"
proof -
  have "linked_ring (nx k) (pv k) xs = linked_ring (nx k') (pv k') xs"
    using assms(3) by (intro linked_ring_congr) (auto simp: nx_def pv_def)
  with assms show ?thesis by (simp add: ring_rep_def)
qed

lemma ring_rep_add:
  assumes "ring_rep k xs" and "i \<notin> set xs" and "i < 16" and "length (k_pool k) = 16"
  shows "ring_rep (add_task_to_queue i k) (xs @ [i])"
proof (cases xs)
  case Nil
  with assms show ?thesis
    by (simp add: ring_rep_def add_task_to_queue_def linked_ring_single nx_eq pv_eq)
next
  case (Cons h r)
  have ring: "linked_ring (nx k) (pv k) xs" and lt: "\<forall>i\<in>set xs. i < 16" and q: "k_queue k = Some h"
    using assms(1) Cons by (auto simp: ring_rep_def)
  obtain l where l: "pv k h = Some l" "l = last xs" using ring Cons by (auto simp: linked_ring_def)
  then have "l \<in> set xs" using Cons by auto
  with lt assms(2) have lp: "l < 16" "l \<noteq> i" "h < 16" "h \<noteq> i" using Cons by auto
  have add: "add_task_to_queue i k = upd_task h (\<lambda>t. t\<lparr>t_prev := Some i\<rparr>)
      (upd_task l (\<lambda>t. t\<lparr>t_next := Some i\<rparr>) (upd_task i (\<lambda>t. t\<lparr>t_next := Some h, t_prev := Some l\<rparr>) k))"
    using q l by (simp add: add_task_to_queue_def)
  have "nx (add_task_to_queue i k) = (nx k)(i := Some (hd xs), l := Some i)"
    "pv (add_task_to_queue i k) = (pv k)(i := Some l, hd xs := Some i)"
    using lp assms(3,4) Cons by (auto simp: add nx_eq pv_eq fun_eq_iff)
  moreover have "linked_ring ((nx k)(i := Some (hd xs), l := Some i)) ((pv k)(i := Some l, hd xs := Some i)) (xs @ [i])"
    using linked_ring_append [OF ring _ assms(2)] l Cons by simp
  ultimately show ?thesis
    using lt assms(3) Cons q by (simp add: ring_rep_def add)
qed

lemma ring_rep_unlink:
  assumes "ring_rep k xs" and "i \<in> set xs" and "length (k_pool k) = 16"
  shows "ring_rep (unlink_task i k) (remove1 i xs)"
proof (cases "xs = [i]")
  case True
  with assms(1) have "nx k i = Some i" "k_queue k = Some i"
    by (auto simp: ring_rep_def linked_ring_single)
  with True show ?thesis
    by (simp add: ring_rep_def unlink_task_def Let_def nx_def)
next
  case False
  have ring: "linked_ring (nx k) (pv k) xs" and lt: "\<forall>i\<in>set xs. i < 16"
    using assms(1) by (auto simp: ring_rep_def)
  obtain h r where xs: "xs = h # r" "k_queue k = Some h"
    using assms(1,2) by (cases xs) (auto simp: ring_rep_def)
  obtain n where n: "nx k i = Some n" using linked_ring_next [OF ring assms(2)] by auto
  obtain p where p: "pv k i = Some p" using linked_ring_prev [OF ring assms(2)] by auto
  note un = linked_ring_unlink [OF ring assms(2) False n p]
  have bound: "n < 16" "p < 16" using un lt by auto
  have ni: "nx k i \<noteq> Some i" using n un by auto
  have unl: "unlink_task i k = (let k2 = upd_task n (\<lambda>t. t\<lparr>t_prev := Some p\<rparr>) (upd_task p (\<lambda>t. t\<lparr>t_next := Some n\<rparr>)
        (k\<lparr>k_rr_anchor := (if k_rr_anchor k = Some i then None else k_rr_anchor k),
           k_resume_after_high := (if k_resume_after_high k = Some i then None else k_resume_after_high k)\<rparr>))
      in k2\<lparr>k_queue := (if k_queue k2 = Some i then Some n else k_queue k2),
            k_current := (if k_current k2 = Some i then Some n else k_current k2)\<rparr>)"
    using xs(2) ni n p by (simp add: unlink_task_def Let_def nx_def pv_def)
  have links: "nx (unlink_task i k) = (nx k)(p := Some n)" "pv (unlink_task i k) = (pv k)(n := Some p)"
    using bound assms(3) by (auto simp: unl Let_def nx_eq pv_eq fun_eq_iff)
  have q: "k_queue (unlink_task i k) = (if k_queue k = Some i then Some n else k_queue k)"
    by (simp add: unl Let_def)
  have head: "k_queue (unlink_task i k) = (case remove1 i xs of [] \<Rightarrow> None | h # _ \<Rightarrow> Some h)"
  proof (cases "i = h")
    case True
    then have "r \<noteq> []" "n = hd r"
      using False xs ring n by (auto simp: linked_ring_def neq_Nil_conv)
    with True xs q show ?thesis by (cases r) auto
  next
    case False
    with xs show ?thesis by (simp add: q)
  qed
  show ?thesis
    using un lt by (auto simp: ring_rep_def links head dest: notin_set_remove1)
qed

lemma ring_rep_move_first_user:
  assumes "ring_rep k (h # r)" and "i \<in> set r" and "length (k_pool k) = 16"
  shows "ring_rep (task_queue_move_first_user (Some i) k) (h # i # remove1 i r)"
proof (cases "nx k h = Some i")
  case True
  then have "hd r = i" using assms(1,2) by (cases r) (auto simp: ring_rep_def linked_ring_def)
  then have "h # i # remove1 i r = h # r" using assms(2) by (cases r) auto
  with True assms(1) show ?thesis by (simp add: task_queue_move_first_user_def ring_rep_def)
next
  case False
  have ring: "linked_ring (nx k) (pv k) (h # r)" and lt: "\<forall>i\<in>set (h # r). i < 16" and q: "k_queue k = Some h"
    using assms(1) by (auto simp: ring_rep_def)
  have ih: "i \<noteq> h" and nsing: "h # r \<noteq> [i]" and iin: "i \<in> set (h # r)" and d: "distinct (h # r)"
    using ring assms(2) by (auto simp: linked_ring_def)
  obtain n where n: "nx k i = Some n" using linked_ring_next [OF ring iin] by auto
  obtain p where p: "pv k i = Some p" using linked_ring_prev [OF ring iin] by auto
  note un = linked_ring_unlink [OF ring iin nsing n p]
  let ?k1 = "upd_task n (\<lambda>t. t\<lparr>t_prev := Some p\<rparr>) (upd_task p (\<lambda>t. t\<lparr>t_next := Some n\<rparr>) k)"
  have bound: "n < 16" "p < 16" "h < 16" "i < 16" using un lt assms(2) by auto
  have links: "nx ?k1 = (nx k)(p := Some n)" "pv ?k1 = (pv k)(n := Some p)"
    using bound assms(3) by (auto simp: nx_eq pv_eq fun_eq_iff)
  have ring1: "linked_ring (nx ?k1) (pv ?k1) (h # remove1 i r)" using un ih by (simp add: links)
  obtain a where a: "nx ?k1 h = Some a" "a \<in> set (h # remove1 i r)" using linked_ring_next [OF ring1] by auto
  have notin: "i \<notin> set (h # remove1 i r)" using d ih by auto
  then have al: "a < 16" "a \<noteq> i" using a(2) lt by (auto dest: notin_set_remove1)
  let ?k2 = "upd_task h (\<lambda>t. t\<lparr>t_next := Some i\<rparr>) (upd_task a (\<lambda>t. t\<lparr>t_prev := Some i\<rparr>)
    (upd_task i (\<lambda>t. t\<lparr>t_next := Some a, t_prev := Some h\<rparr>) ?k1))"
  have mv: "task_queue_move_first_user (Some i) k = ?k2"
    using q False ih n p a(1) by (simp add: task_queue_move_first_user_def Let_def)
  have links2: "nx ?k2 = (nx ?k1)(i := Some a, h := Some i)" "pv ?k2 = (pv ?k1)(i := Some h, a := Some i)"
    using bound al ih assms(3) by (auto simp: nx_eq pv_eq fun_eq_iff)
  have "linked_ring (nx ?k2) (pv ?k2) (h # i # remove1 i r)"
    unfolding links2 by (rule linked_ring_insert_second [OF ring1 notin a(1)])
  with q lt bound show ?thesis by (auto simp: ring_rep_def mv dest: notin_set_remove1)
qed


end
