(* ===== verification/Task_Inv.thy ===== *)
theory Task_Inv
  imports Task_Queue
begin

text \<open>
  The invariant of the task state and its frame rules, and that start-up, task creation and
  task disposal establish and keep it.
\<close>

subsection \<open>The invariant of the task state\<close>

definition exit_log :: "task \<Rightarrow> os_task_exit_result list \<times> nat \<times> nat" where
  "exit_log t = (t_child_exit_history t, t_child_exit_history_start t, t_child_exit_history_count t)"

definition event_log :: "task \<Rightarrow> os_task_supervision_event list \<times> nat \<times> nat" where
  "event_log t = (t_supervision_events t, t_supervision_event_start t, t_supervision_event_count t)"

text \<open>What holds of one task: its mailbox, its wait state, its two logs, its witnesses.\<close>

definition task_ok :: "task \<Rightarrow> bool" where
  "task_ok t \<longleftrightarrow> ep_inv (t_ipc_endpoint t) \<and> wait_inv (t_ipc_wait t) \<and>
     (t_state t = TASK_BLOCKED_IPC \<longrightarrow> w_blocked (t_ipc_wait t)) \<and>
     evict_inv OS_TASK_EXIT_HISTORY_CAPACITY (exit_log t) \<and>
     evict_inv OS_TASK_SUPERVISION_EVENT_CAPACITY (event_log t) \<and>
     length (t_supervision_watch_pids t) = OS_TASK_SUPERVISION_WATCH_CAPACITY \<and>
     t_supervision_watch_count t \<le> OS_TASK_SUPERVISION_WATCH_CAPACITY \<and>
     length (t_name t) = 32 \<and>
     t_sequence t \<noteq> 0 \<and> t_generation t \<noteq> 0 \<and> t_identity_key t \<noteq> 0"

text \<open>The page directory in use is the kernel's or one marked as used.\<close>

definition dir_ok :: "kstate \<Rightarrow> bool" where
  "dir_ok k \<longleftrightarrow> (case k_current_directory k of
     Kernel_Dir \<Rightarrow> True | Static_Dir d \<Rightarrow> d < OS_TASK_GLOBAL_CAPACITY \<and> k_vmm_used k ! d)"

definition task_ids :: "kstate \<Rightarrow> pid list" where
  "task_ids k = map (\<lambda>i. t_id (tsk k i)) (queue_slots k)"

text \<open>
  The invariant: the queue is a ring of used slots, every queued task is well-formed, PIDs
  are distinct, never negative and below the next one, and the current task is queued.
\<close>

definition kwf :: "kstate \<Rightarrow> bool" where
  "kwf k \<longleftrightarrow> length (k_pool k) = OS_TASK_GLOBAL_CAPACITY \<and> length (k_used k) = OS_TASK_GLOBAL_CAPACITY \<and>
     length (k_slot_generation k) = OS_TASK_GLOBAL_CAPACITY \<and>
     length (k_vmm_used k) = OS_TASK_GLOBAL_CAPACITY \<and>
     queue_ok k \<and> distinct (task_ids k) \<and> 0 \<le> k_next_task_id k \<and>
     (\<forall>i\<in>set (queue_slots k). k_used k ! i \<and> task_ok (tsk k i) \<and>
        0 \<le> t_id (tsk k i) \<and> t_id (tsk k i) < k_next_task_id k) \<and>
     (k_queue k \<noteq> None \<longrightarrow> k_current k \<in> Some ` set (queue_slots k)) \<and>
     dir_ok k \<and> k_identity_key k \<noteq> 0 \<and> cap_inv (k_outcap k)"

lemma kwf_sizes:
  assumes "kwf k"
  shows "length (k_pool k) = 16" "length (k_used k) = 16" "length (k_slot_generation k) = 16"
    "length (k_vmm_used k) = 16" "queue_ok k" "ring_rep k (queue_slots k)" "distinct (queue_slots k)"
    "\<And>i. i \<in> set (queue_slots k) \<Longrightarrow> i < 16"
  using assms by (auto simp: kwf_def queue_ok_def ring_rep_def linked_ring_def)

lemma kwf_task:
  assumes "kwf k" and "i \<in> set (queue_slots k)"
  shows "k_used k ! i" "task_ok (tsk k i)" "0 \<le> t_id (tsk k i)" "t_id (tsk k i) < k_next_task_id k"
  using assms by (auto simp: kwf_def)

subsection \<open>Lookups\<close>

lemma find_SomeD:
  assumes "find P xs = Some x"
  shows "x \<in> set xs" "P x"
  using assms by (auto simp: find_Some_iff)

lemma get_task_by_id_SomeD:
  assumes "get_task_by_id k p = Some i"
  shows "i \<in> set (queue_slots k)" "t_id (tsk k i) = p"
  using assms find_SomeD [of _ "queue_slots k" i] by (auto simp: get_task_by_id_def)

lemma get_task_by_id_None: "get_task_by_id k p = None \<longleftrightarrow> p \<notin> set (task_ids k)"
  by (auto simp: get_task_by_id_def task_ids_def find_None_iff)

lemma get_task_by_id_iff:
  assumes "distinct (task_ids k)"
  shows "get_task_by_id k p = Some i \<longleftrightarrow> i \<in> set (queue_slots k) \<and> t_id (tsk k i) = p"
proof
  assume r: "i \<in> set (queue_slots k) \<and> t_id (tsk k i) = p"
  then obtain j where j: "get_task_by_id k p = Some j"
    using get_task_by_id_None [of k p] by (cases "get_task_by_id k p") (auto simp: task_ids_def)
  have "inj_on (\<lambda>i. t_id (tsk k i)) (set (queue_slots k))"
    using assms by (simp add: task_ids_def distinct_map)
  with r get_task_by_id_SomeD [OF j] j show "get_task_by_id k p = Some i"
    by (auto dest: inj_onD)
qed (auto dest: get_task_by_id_SomeD)

lemma get_task_by_id_self:
  "kwf k \<Longrightarrow> i \<in> set (queue_slots k) \<Longrightarrow> get_task_by_id k (t_id (tsk k i)) = Some i"
  by (simp add: get_task_by_id_iff kwf_def)

lemma get_task_by_id_pid:
  assumes "kwf k" and "get_task_by_id k p = Some i"
  shows "i < 16" "0 \<le> p" "p < k_next_task_id k" "task_ok (tsk k i)" "k_used k ! i"
  using assms get_task_by_id_SomeD [OF assms(2)] kwf_task kwf_sizes(8) by auto

text \<open>An update of fields other than the links and the PID keeps queue and lookups.\<close>

lemma queue_slots_cong:
  assumes "k_queue k' = k_queue k" and "\<And>i. t_next (tsk k' i) = t_next (tsk k i)"
  shows "queue_slots k' = queue_slots k"
proof -
  have "nx k' = nx k" using assms(2) by (simp add: nx_def fun_eq_iff)
  with assms(1) show ?thesis by (simp add: queue_slots_def split: option.split)
qed

lemma queue_slots_upd_task [simp]:
  "(\<And>t. t_next (f t) = t_next t) \<Longrightarrow> queue_slots (upd_task i f k) = queue_slots k"
  by (rule queue_slots_cong) auto

lemma get_task_by_id_cong:
  assumes "queue_slots k' = queue_slots k" and "\<And>i. t_id (tsk k' i) = t_id (tsk k i)"
  shows "get_task_by_id k' = get_task_by_id k"
  using assms by (simp add: get_task_by_id_def fun_eq_iff)

lemma get_task_by_id_upd_task [simp]:
  "(\<And>t. t_next (f t) = t_next t) \<Longrightarrow> (\<And>t. t_id (f t) = t_id t) \<Longrightarrow>
    get_task_by_id (upd_task i f k) = get_task_by_id k"
  by (rule get_task_by_id_cong) auto

lemma queue_slots_globals [simp]:
  "queue_slots (k\<lparr>k_used := v1\<rparr>) = queue_slots k" "queue_slots (k\<lparr>k_sequence_counter := v2\<rparr>) = queue_slots k"
  "queue_slots (k\<lparr>k_slot_generation := v3\<rparr>) = queue_slots k" "queue_slots (k\<lparr>k_identity_key := v4\<rparr>) = queue_slots k"
  "queue_slots (k\<lparr>k_vmm_used := v5\<rparr>) = queue_slots k" "queue_slots (k\<lparr>k_current := v6\<rparr>) = queue_slots k"
  "queue_slots (k\<lparr>k_next_task_id := v8\<rparr>) = queue_slots k" "queue_slots (k\<lparr>k_deferred_reap := v9\<rparr>) = queue_slots k"
  "queue_slots (k\<lparr>k_root_shell_pid := v10\<rparr>) = queue_slots k" "queue_slots (k\<lparr>k_rr_anchor := v11\<rparr>) = queue_slots k"
  "queue_slots (k\<lparr>k_resume_after_high := v12\<rparr>) = queue_slots k" "queue_slots (k\<lparr>k_sched_only := v13\<rparr>) = queue_slots k"
  "queue_slots (k\<lparr>k_gets_waiter := v14\<rparr>) = queue_slots k" "queue_slots (k\<lparr>k_current_directory := v15\<rparr>) = queue_slots k"
  "queue_slots (k\<lparr>k_ticks := v16\<rparr>) = queue_slots k" "queue_slots (k\<lparr>k_spill := v17\<rparr>) = queue_slots k"
  "queue_slots (k\<lparr>k_outcap := v18\<rparr>) = queue_slots k"
  by (simp_all add: queue_slots_def nx_eq split: option.split)

lemma get_task_by_id_globals [simp]:
  "get_task_by_id (k\<lparr>k_spill := v17\<rparr>) = get_task_by_id k" "get_task_by_id (k\<lparr>k_outcap := v18\<rparr>) = get_task_by_id k"
  "get_task_by_id (k\<lparr>k_ticks := v16\<rparr>) = get_task_by_id k" "get_task_by_id (k\<lparr>k_deferred_reap := v9\<rparr>) = get_task_by_id k"
  "get_task_by_id (k\<lparr>k_vmm_used := v5\<rparr>) = get_task_by_id k"
  by (simp_all add: get_task_by_id_def fun_eq_iff)

text \<open>
  The frame rule of the invariant: queued slots keep their links and PID and stay
  well-formed; the other slots may change.
\<close>

lemma queue_slots_frame:
  assumes "kwf k" and "k_queue k' = k_queue k"
    and "\<And>i. i \<in> set (queue_slots k) \<Longrightarrow> t_next (tsk k' i) = t_next (tsk k i) \<and> t_prev (tsk k' i) = t_prev (tsk k i)"
  shows "ring_rep k' (queue_slots k)" "queue_slots k' = queue_slots k"
proof -
  show "ring_rep k' (queue_slots k)"
    by (rule ring_rep_frame [OF kwf_sizes(6) [OF assms(1)] assms(2,3)])
  then show "queue_slots k' = queue_slots k" by (rule ring_rep_slots)
qed

lemma kwf_frame:
  assumes "kwf k" and "k_queue k' = k_queue k"
    and "\<And>i. i \<in> set (queue_slots k) \<Longrightarrow> t_next (tsk k' i) = t_next (tsk k i) \<and> t_prev (tsk k' i) = t_prev (tsk k i)"
    and "\<And>i. i \<in> set (queue_slots k) \<Longrightarrow> t_id (tsk k' i) = t_id (tsk k i)"
    and "\<And>i. i \<in> set (queue_slots k) \<Longrightarrow> task_ok (tsk k i) \<Longrightarrow> task_ok (tsk k' i)"
    and "\<And>i. i \<in> set (queue_slots k) \<Longrightarrow> k_used k ! i \<Longrightarrow> k_used k' ! i"
    and "length (k_pool k') = 16" "length (k_used k') = 16" "length (k_slot_generation k') = 16"
    "length (k_vmm_used k') = 16"
    and "k_current k' = k_current k" "k_next_task_id k \<le> k_next_task_id k'" "dir_ok k'"
    "k_identity_key k' \<noteq> 0" "cap_inv (k_outcap k')"
  shows "kwf k'"
proof -
  note qs = queue_slots_frame [OF assms(1-3)]
  have ok: "queue_ok k'" using qs by (simp add: queue_ok_def)
  have ids: "task_ids k' = task_ids k" by (simp add: task_ids_def qs assms(4) cong: map_cong)
  have "k_used k' ! i \<and> task_ok (tsk k' i) \<and> 0 \<le> t_id (tsk k' i) \<and> t_id (tsk k' i) < k_next_task_id k'"
    if i: "i \<in> set (queue_slots k)" for i
    using assms(4-6) [OF i] kwf_task [OF assms(1) i] assms(12) by simp
  moreover have "0 \<le> k_next_task_id k'" using assms(1,12) by (simp add: kwf_def)
  moreover have "k_queue k \<noteq> None \<longrightarrow> k_current k \<in> Some ` set (queue_slots k)" "distinct (task_ids k)"
    using assms(1) by (auto simp: kwf_def)
  ultimately show ?thesis
    using assms(2,7-15) ok ids by (simp add: kwf_def qs(2))
qed

lemma kwf_globals:
  assumes "kwf k"
  shows "dir_ok k" "k_identity_key k \<noteq> 0" "cap_inv (k_outcap k)" "0 \<le> k_next_task_id k"
    "distinct (task_ids k)" "k_queue k \<noteq> None \<Longrightarrow> k_current k \<in> Some ` set (queue_slots k)"
  using assms by (auto simp: kwf_def)

lemma dir_ok_cong: "k_current_directory k' = k_current_directory k \<Longrightarrow> k_vmm_used k' = k_vmm_used k \<Longrightarrow> dir_ok k' = dir_ok k"
  by (simp add: dir_ok_def split: vmm_dir.split)

lemma dir_ok_upd_task [simp]: "dir_ok (upd_task i f k) = dir_ok k"
  by (rule dir_ok_cong) simp_all

lemma kwf_upd_task:
  assumes "kwf k" and "\<And>t. t_next (f t) = t_next t" "\<And>t. t_prev (f t) = t_prev t" "\<And>t. t_id (f t) = t_id t"
    and "task_ok (tsk k i) \<Longrightarrow> task_ok (f (tsk k i))"
  shows "kwf (upd_task i f k)"
  by (rule kwf_frame [OF assms(1)])
    (use assms(2-5) kwf_sizes [OF assms(1)] kwf_globals [OF assms(1)] in auto)



subsection \<open>Queue operations keep the invariant\<close>

lemma in_set_remove1D: "x \<in> set (remove1 y xs) \<Longrightarrow> x \<in> set xs"
  by (metis notin_set_remove1)

lemma add_task_to_queue_slots:
  "(tsk (add_task_to_queue i k) j)\<lparr>t_next := n, t_prev := p\<rparr> = (tsk k j)\<lparr>t_next := n, t_prev := p\<rparr>"
  by (auto simp: add_task_to_queue_def split: option.splits)

lemma add_task_to_queue_globals:
  "length (k_pool (add_task_to_queue i k)) = length (k_pool k)" "k_used (add_task_to_queue i k) = k_used k"
  "k_slot_generation (add_task_to_queue i k) = k_slot_generation k"
  "k_vmm_used (add_task_to_queue i k) = k_vmm_used k" "k_current (add_task_to_queue i k) = k_current k"
  "k_next_task_id (add_task_to_queue i k) = k_next_task_id k"
  "k_current_directory (add_task_to_queue i k) = k_current_directory k"
  "k_identity_key (add_task_to_queue i k) = k_identity_key k" "k_outcap (add_task_to_queue i k) = k_outcap k"
  "k_sequence_counter (add_task_to_queue i k) = k_sequence_counter k" "k_spill (add_task_to_queue i k) = k_spill k"
  "k_ticks (add_task_to_queue i k) = k_ticks k"
  by (auto simp: add_task_to_queue_def split: option.splits)

lemma task_ok_links: "task_ok (t\<lparr>t_next := n, t_prev := p\<rparr>) = task_ok t"
  by (simp add: task_ok_def exit_log_def event_log_def)

lemma links_only:
  assumes "t\<lparr>t_next := None, t_prev := None\<rparr> = u\<lparr>t_next := None, t_prev := None\<rparr>"
  shows "t_id t = t_id u" "task_ok t = task_ok u" "t_sequence t = t_sequence u" "t_generation t = t_generation u"
    "t_identity_key t = t_identity_key u" "t_state t = t_state u" "t_type t = t_type u" "t_parent_pid t = t_parent_pid u"
    "t_waiter_pid t = t_waiter_pid u" "t_name t = t_name u" "t_ipc_endpoint t = t_ipc_endpoint u"
proof -
  have "f (t\<lparr>t_next := None, t_prev := None\<rparr>) = f (u\<lparr>t_next := None, t_prev := None\<rparr>)" for f :: "task \<Rightarrow> 'c"
    using assms by simp
  note this [of t_id] this [of task_ok] this [of t_sequence] this [of t_generation] this [of t_identity_key]
    this [of t_state] this [of t_type] this [of t_parent_pid] this [of t_waiter_pid] this [of t_name]
    this [of t_ipc_endpoint]
  then show "t_id t = t_id u" "task_ok t = task_ok u" "t_sequence t = t_sequence u" "t_generation t = t_generation u"
    "t_identity_key t = t_identity_key u" "t_state t = t_state u" "t_type t = t_type u" "t_parent_pid t = t_parent_pid u"
    "t_waiter_pid t = t_waiter_pid u" "t_name t = t_name u" "t_ipc_endpoint t = t_ipc_endpoint u"
    by (simp_all add: task_ok_links)
qed

lemmas add_task_to_queue_keeps = links_only [OF add_task_to_queue_slots]

lemma kwf_add:
  assumes "kwf k" and "i < 16" and "i \<notin> set (queue_slots k)" and "k_used k ! i"
    and "task_ok (tsk k i)" "0 \<le> t_id (tsk k i)" "t_id (tsk k i) < k_next_task_id k"
    and "t_id (tsk k i) \<notin> set (task_ids k)" and "k_queue k \<noteq> None"
  shows "kwf (add_task_to_queue i k)" "queue_slots (add_task_to_queue i k) = queue_slots k @ [i]"
proof -
  let ?k = "add_task_to_queue i k"
  have ring: "ring_rep ?k (queue_slots k @ [i])"
    by (rule ring_rep_add [OF kwf_sizes(6) [OF assms(1)] assms(3,2) kwf_sizes(1) [OF assms(1)]])
  then show qs: "queue_slots ?k = queue_slots k @ [i]" by (rule ring_rep_slots)
  have "queue_ok ?k" using ring by (simp add: queue_ok_def qs)
  moreover have "task_ids ?k = task_ids k @ [t_id (tsk k i)]"
    by (simp add: task_ids_def qs add_task_to_queue_keeps)
  moreover have "dir_ok ?k" using kwf_globals(1) [OF assms(1)] dir_ok_cong [of ?k k] by (simp add: add_task_to_queue_globals)
  moreover have "\<forall>j\<in>set (queue_slots k @ [i]). k_used k ! j \<and> task_ok (tsk k j) \<and>
      0 \<le> t_id (tsk k j) \<and> t_id (tsk k j) < k_next_task_id k"
    using assms(4-7) kwf_task [OF assms(1)] by simp
  moreover have "k_current k \<in> Some ` set (queue_slots k @ [i])"
    using kwf_globals(6) [OF assms(1,9)] by auto
  ultimately show "kwf ?k"
    using assms(8) kwf_sizes(1-4) [OF assms(1)] kwf_globals(2-5) [OF assms(1)]
    by (simp add: kwf_def qs add_task_to_queue_globals add_task_to_queue_keeps)
qed

lemma links_globals [simp]:
  "nx (k\<lparr>k_rr_anchor := v1\<rparr>) = nx k" "nx (k\<lparr>k_resume_after_high := v2\<rparr>) = nx k"
  "pv (k\<lparr>k_rr_anchor := v1\<rparr>) = pv k" "pv (k\<lparr>k_resume_after_high := v2\<rparr>) = pv k"
  by (simp_all add: nx_eq pv_eq)

lemma upd_task_links:
  "(\<And>t. (f t)\<lparr>t_next := n, t_prev := p\<rparr> = t\<lparr>t_next := n, t_prev := p\<rparr>) \<Longrightarrow>
    (tsk (upd_task i f k) j)\<lparr>t_next := n, t_prev := p\<rparr> = (tsk k j)\<lparr>t_next := n, t_prev := p\<rparr>"
  by simp

lemma unlink_task_slots:
  "(tsk (unlink_task i k) j)\<lparr>t_next := n, t_prev := p\<rparr> = (tsk k j)\<lparr>t_next := n, t_prev := p\<rparr>"
  by (simp add: unlink_task_def Let_def upd_task_links del: tsk_upd_task split: option.split)

lemma unlink_task_globals:
  "length (k_pool (unlink_task i k)) = length (k_pool k)" "k_used (unlink_task i k) = k_used k"
  "k_slot_generation (unlink_task i k) = k_slot_generation k"
  "k_vmm_used (unlink_task i k) = k_vmm_used k"
  "k_next_task_id (unlink_task i k) = k_next_task_id k"
  "k_current_directory (unlink_task i k) = k_current_directory k"
  "k_identity_key (unlink_task i k) = k_identity_key k" "k_outcap (unlink_task i k) = k_outcap k"
  "k_sequence_counter (unlink_task i k) = k_sequence_counter k" "k_spill (unlink_task i k) = k_spill k"
  "k_ticks (unlink_task i k) = k_ticks k" "k_deferred_reap (unlink_task i k) = k_deferred_reap k"
  by (cases "nx k i"; cases "pv k i"; simp add: unlink_task_def Let_def)+

lemmas unlink_task_keeps = links_only [OF unlink_task_slots]

lemma unlink_current:
  assumes "kwf k" and "i \<in> set (queue_slots k)" and "queue_slots k \<noteq> [i]"
  shows "k_current (unlink_task i k) \<in> Some ` set (remove1 i (queue_slots k))"
proof -
  have ring: "linked_ring (nx k) (pv k) (queue_slots k)" and q: "k_queue k \<noteq> None"
    using kwf_sizes(6) [OF assms(1)] assms(2) by (auto simp: ring_rep_def split: list.splits)
  obtain n p where np: "nx k i = Some n" "pv k i = Some p"
    using linked_ring_next [OF ring assms(2)] linked_ring_prev [OF ring assms(2)] by blast
  note un = linked_ring_unlink [OF ring assms(2,3) np]
  have "k_current (unlink_task i k) = (if k_current k = Some i then Some n else k_current k)"
    using np un q by (auto simp: unlink_task_def Let_def nx_def pv_def)
  moreover have "k_current k \<in> Some ` set (queue_slots k)" using kwf_globals(6) [OF assms(1) q] .
  ultimately show ?thesis
    using un kwf_sizes(7) [OF assms(1)] by auto
qed

lemma kwf_unlink:
  assumes "kwf k" and "i \<in> set (queue_slots k)"
  shows "kwf (unlink_task i k)" "queue_slots (unlink_task i k) = remove1 i (queue_slots k)"
proof -
  let ?k = "unlink_task i k"
  have ring: "ring_rep ?k (remove1 i (queue_slots k))"
    by (rule ring_rep_unlink [OF kwf_sizes(6) [OF assms(1)] assms(2) kwf_sizes(1) [OF assms(1)]])
  then show qs: "queue_slots ?k = remove1 i (queue_slots k)" by (rule ring_rep_slots)
  have "queue_ok ?k" using ring by (simp add: queue_ok_def qs)
  moreover have "distinct (task_ids ?k)"
    using kwf_globals(5) [OF assms(1)] by (simp add: task_ids_def qs unlink_task_keeps distinct_map inj_on_diff)
  moreover have "dir_ok ?k" using kwf_globals(1) [OF assms(1)] dir_ok_cong [of ?k k] by (simp add: unlink_task_globals)
  moreover have "k_queue ?k \<noteq> None \<Longrightarrow> k_current ?k \<in> Some ` set (remove1 i (queue_slots k))"
    using ring unlink_current [OF assms] by (cases "queue_slots k = [i]") (auto simp: ring_rep_def)
  moreover have "\<forall>j\<in>set (remove1 i (queue_slots k)). k_used k ! j \<and> task_ok (tsk k j) \<and>
      0 \<le> t_id (tsk k j) \<and> t_id (tsk k j) < k_next_task_id k"
    using kwf_task [OF assms(1)] by (auto dest!: in_set_remove1D)
  ultimately show "kwf ?k"
    using kwf_sizes(1-4) [OF assms(1)] kwf_globals(2-4) [OF assms(1)]
    by (simp add: kwf_def qs unlink_task_globals unlink_task_keeps)
qed



subsection \<open>Disposing of a task\<close>

lemma release_detached_other:
  "j \<noteq> i \<Longrightarrow> tsk (task_release_detached (Some i) k) j = tsk k j"
  by (auto simp: task_release_detached_def task_destroy_user_vmm_def task_static_vmm_release_def
      task_static_release_def tsk_def upd_task_def split: option.splits vmm_dir.splits)

lemma release_detached_globals:
  "k_queue (task_release_detached t k) = k_queue k" "k_current (task_release_detached t k) = k_current k"
  "k_next_task_id (task_release_detached t k) = k_next_task_id k"
  "k_current_directory (task_release_detached t k) = k_current_directory k"
  "k_identity_key (task_release_detached t k) = k_identity_key k"
  "k_sequence_counter (task_release_detached t k) = k_sequence_counter k"
  "k_slot_generation (task_release_detached t k) = k_slot_generation k"
  "k_outcap (task_release_detached t k) = k_outcap k" "k_spill (task_release_detached t k) = k_spill k"
  "k_ticks (task_release_detached t k) = k_ticks k"
  "length (k_pool (task_release_detached t k)) = length (k_pool k)"
  "length (k_used (task_release_detached t k)) = length (k_used k)"
  "length (k_vmm_used (task_release_detached t k)) = length (k_vmm_used k)"
  by (auto simp: task_release_detached_def task_destroy_user_vmm_def task_static_vmm_release_def
      task_static_release_def upd_task_def split: option.splits vmm_dir.splits)

lemma release_detached_used:
  "j \<noteq> i \<Longrightarrow> k_used (task_release_detached (Some i) k) ! j = k_used k ! j"
  by (auto simp: task_release_detached_def task_destroy_user_vmm_def task_static_vmm_release_def
      task_static_release_def split: option.splits vmm_dir.splits)

lemma release_detached_dir_ok:
  assumes "dir_ok k"
  shows "dir_ok (task_release_detached t k)"
proof -
  have "k_vmm_used (task_release_detached t k) ! d = k_vmm_used k ! d"
    if "k_current_directory k = Static_Dir d" for d
    using that by (auto simp: task_release_detached_def task_destroy_user_vmm_def vmm_destroy_user_directory_def
        task_static_vmm_release_def task_static_release_def split: option.splits vmm_dir.splits if_splits)
  with assms show ?thesis
    by (auto simp: dir_ok_def release_detached_globals split: vmm_dir.splits)
qed

lemma kwf_release_detached:
  assumes "kwf k" and "i \<notin> set (queue_slots k)"
  shows "kwf (task_release_detached (Some i) k)" "queue_slots (task_release_detached (Some i) k) = queue_slots k"
proof -
  have other: "j \<in> set (queue_slots k) \<Longrightarrow> j \<noteq> i" for j using assms(2) by auto
  show "queue_slots (task_release_detached (Some i) k) = queue_slots k"
    by (rule queue_slots_frame(2) [OF assms(1)]) (auto simp: release_detached_globals release_detached_other other)
  show "kwf (task_release_detached (Some i) k)"
    by (rule kwf_frame [OF assms(1)])
      (simp_all add: release_detached_globals release_detached_other release_detached_used other
        release_detached_dir_ok kwf_sizes(1-4) [OF assms(1)] kwf_globals(1-4) [OF assms(1)])
qed

text \<open>The end of \<open>task_kill\<close>: the task leaves the queue, nothing else moves.\<close>

lemma kwf_dispose:
  assumes "kwf k" and "i \<in> set (queue_slots k)"
  defines "k' \<equiv> task_release_detached (Some i) (unlink_task i k)"
  shows "kwf k'" "queue_slots k' = remove1 i (queue_slots k)"
    "\<And>j. j \<noteq> i \<Longrightarrow> (tsk k' j)\<lparr>t_next := None, t_prev := None\<rparr> = (tsk k j)\<lparr>t_next := None, t_prev := None\<rparr>"
proof -
  have notin: "i \<notin> set (queue_slots (unlink_task i k))"
    using kwf_unlink(2) [OF assms(1,2)] kwf_sizes(7) [OF assms(1)] by simp
  show "kwf k'" "queue_slots k' = remove1 i (queue_slots k)"
    using kwf_release_detached [OF kwf_unlink(1) [OF assms(1,2)] notin] kwf_unlink(2) [OF assms(1,2)]
    by (simp_all add: k'_def)
  show "(tsk k' j)\<lparr>t_next := None, t_prev := None\<rparr> = (tsk k j)\<lparr>t_next := None, t_prev := None\<rparr>" if "j \<noteq> i" for j
    using that unlink_task_slots [where i = i and k = k and j = j and n = None and p = None] by (simp add: k'_def release_detached_other)
qed

lemma find_filter_ne: "\<not> P x \<Longrightarrow> find P (remove1 x xs) = find P xs"
  by (induction xs) auto

lemma find_cong_set: "(\<And>x. x \<in> set xs \<Longrightarrow> P x = Q x) \<Longrightarrow> find P xs = find Q xs"
  by (induction xs) auto

lemma get_task_by_id_dispose:
  assumes "kwf k" and "i \<in> set (queue_slots k)"
  shows "get_task_by_id (task_release_detached (Some i) (unlink_task i k)) p =
    (if p = t_id (tsk k i) then None else get_task_by_id k p)"
proof -
  let ?k = "task_release_detached (Some i) (unlink_task i k)"
  note d = kwf_dispose [OF assms]
  have ids: "t_id (tsk ?k j) = t_id (tsk k j)" if "j \<in> set (remove1 i (queue_slots k))" for j
    using that kwf_sizes(7) [OF assms(1)] by (intro links_only(1) d(3)) auto
  have "get_task_by_id ?k p = find (\<lambda>j. t_id (tsk k j) = p) (remove1 i (queue_slots k))"
    unfolding get_task_by_id_def d(2) using ids by (intro find_cong_set) simp
  moreover have "find (\<lambda>j. t_id (tsk k j) = p) (remove1 i (queue_slots k)) = None" if "p = t_id (tsk k i)"
  proof -
    have "inj_on (\<lambda>i. t_id (tsk k i)) (set (queue_slots k))"
      using kwf_globals(5) [OF assms(1)] by (simp add: task_ids_def distinct_map)
    then show ?thesis
      using that assms(2) kwf_sizes(7) [OF assms(1)] by (auto simp: find_None_iff dest: inj_onD)
  qed
  ultimately show ?thesis by (auto simp: get_task_by_id_def find_filter_ne)
qed


end
