(* ===== verification/Task_Create.thy ===== *)
theory Task_Create
  imports Task_Inv
begin

text \<open>
  Start-up and task creation establish and keep the invariant of the task state. The states
  \<open>boot_state\<close> and \<open>shell_state\<close> are concrete inputs the development evaluates its theorems on.
\<close>

subsection \<open>Start-up\<close>

definition kernel_task :: "kstate \<Rightarrow> task" where
  "kernel_task k = (init_bookkeeping (k_ticks k) ((task_fx_init zero_task)\<lparr>t_identity_key := 1\<rparr>))\<lparr>
     t_id := k_next_task_id k, t_sequence := 1, t_generation := 1, t_state := TASK_RUNNING,
     t_type := TASK_TYPE_KERNEL, t_vmm_dir := Some Kernel_Dir, t_kernel_stack_p := None,
     t_switch_count := 1, t_name := ''kernel'' @ [NUL] @ replicate 25 NUL,
     t_next := Some 0, t_prev := Some 0\<rparr>"

lemma tasking_init_eq:
  assumes "length (k_pool k) = 16"
  shows "tasking_init k = k\<lparr>k_deferred_reap := None, k_used := True # replicate 15 False,
     k_pool := (k_pool k)[0 := kernel_task k],
     k_vmm_used := replicate 16 False, k_slot_generation := 1 # replicate 15 0,
     k_sequence_counter := 2, k_identity_key := 2, k_current := Some 0,
     k_next_task_id := k_next_task_id k + 1, k_queue := Some 0\<rparr>"
proof -
  have acq: "first_idx Not (replicate 16 False) = Some 0" by (simp add: numeral_eq_Suc)
  have upd: "(replicate 16 False)[0 := True] = True # replicate 15 False"
    "(replicate 16 (0 :: u32))[0 := 1] = 1 # replicate 15 0"
    by (simp_all add: numeral_eq_Suc)
  show ?thesis
    using assms
    by (simp add: tasking_init_def task_static_acquire_def Let_def acq upd upd_task_def kernel_task_def
        next_nonzero_def zero_task_def task_fx_init_def init_bookkeeping_def list_update_overwrite)
qed

lemma kernel_task_ok: "task_ok (kernel_task k)"
  by (simp add: task_ok_def kernel_task_def init_bookkeeping_def exit_log_def event_log_def evict_inv_def
      zero_task_def task_fx_init_def)

lemma kwf_tasking_init:
  assumes "length (k_pool k) = 16" and "0 \<le> k_next_task_id k" and "k_current_directory k = Kernel_Dir"
    and "cap_inv (k_outcap k)"
  shows "kwf (tasking_init k)" "queue_slots (tasking_init k) = [0]"
    "get_task_by_id (tasking_init k) p = (if p = k_next_task_id k then Some 0 else None)"
proof -
  let ?k = "tasking_init k"
  have t0: "tsk ?k 0 = kernel_task k"
    using assms(1) by (simp add: tasking_init_eq tsk_def)
  have links: "t_next (kernel_task k) = Some 0" "t_prev (kernel_task k) = Some 0" "t_id (kernel_task k) = k_next_task_id k"
    by (simp_all add: kernel_task_def)
  have ring: "ring_rep ?k [0]"
    using t0 links assms(1) by (simp add: ring_rep_def linked_ring_single nx_def pv_def tasking_init_eq)
  then show qs: "queue_slots ?k = [0]" by (rule ring_rep_slots)
  then show "get_task_by_id ?k p = (if p = k_next_task_id k then Some 0 else None)"
    by (simp add: get_task_by_id_def t0 links)
  have "queue_ok ?k" using ring by (simp add: queue_ok_def qs)
  then show "kwf ?k"
    using assms t0 links kernel_task_ok [of k]
    by (simp add: kwf_def qs task_ids_def) (simp add: tasking_init_eq dir_ok_def)
qed

subsection \<open>Creation\<close>

lemma vmm_acquire_cases:
  assumes "task_static_vmm_acquire k = (r, k')" and "kwf k"
  shows "(r = None \<and> k' = k) \<or>
    (\<exists>d<16. r = Some (Static_Dir d) \<and> \<not> k_vmm_used k ! d \<and> k' = k\<lparr>k_vmm_used := (k_vmm_used k)[d := True]\<rparr>)"
proof (cases "first_idx Not (k_vmm_used k)")
  case (Some d)
  with first_idx_SomeD(1,2) [OF Some] kwf_sizes(4) [OF assms(2)] assms(1) show ?thesis
    by (auto simp: task_static_vmm_acquire_def)
qed (use assms(1) in \<open>simp add: task_static_vmm_acquire_def\<close>)

lemma vmm_acquire_undo:
  assumes "kwf k" and "d < 16" and "\<not> k_vmm_used k ! d"
  shows "task_destroy_user_vmm (Some (Static_Dir d)) (k\<lparr>k_vmm_used := (k_vmm_used k)[d := True]\<rparr>) = (0, k)"
proof -
  have "k_current_directory k \<noteq> Static_Dir d"
    using kwf_globals(1) [OF assms(1)] assms(3) by (auto simp: dir_ok_def)
  moreover have "(k_vmm_used k)[d := False] = k_vmm_used k"
    using assms(2,3) kwf_sizes(4) [OF assms(1)] by (metis list_update_id)
  ultimately show ?thesis
    by (simp add: task_destroy_user_vmm_def vmm_destroy_user_directory_def task_static_vmm_release_def)
qed

text \<open>The slot a successful creation fills, before it is linked into the queue.\<close>

definition fresh_task :: "kstate \<Rightarrow> nat \<Rightarrow> vmm_dir \<Rightarrow> cstring option \<Rightarrow> u32 \<Rightarrow> u32 \<Rightarrow> task" where
  "fresh_task k i dir name_src entry_point stack_top =
     setup_initial_user_context entry_point stack_top
       ((init_bookkeeping (k_ticks k) ((task_fx_init zero_task)\<lparr>
           t_sequence := next_nonzero (k_sequence_counter k),
           t_generation := next_nonzero (k_slot_generation k ! i), t_identity_key := k_identity_key k\<rparr>))\<lparr>
         t_id := k_next_task_id k, t_state := TASK_READY, t_type := TASK_TYPE_USER, t_vmm_dir := Some dir,
         t_switch_count := 0, t_name := task_name_of name_src, t_kernel_stack_p := Some i\<rparr>)"

definition with_fresh_task :: "kstate \<Rightarrow> nat \<Rightarrow> nat \<Rightarrow> cstring option \<Rightarrow> u32 \<Rightarrow> u32 \<Rightarrow> kstate" where
  "with_fresh_task k i d name_src entry_point stack_top =
     k\<lparr>k_vmm_used := (k_vmm_used k)[d := True], k_used := (k_used k)[i := True],
       k_slot_generation := (k_slot_generation k)[i := next_nonzero (k_slot_generation k ! i)],
       k_sequence_counter := next_nonzero (k_sequence_counter k),
       k_identity_key := next_nonzero (k_identity_key k),
       k_next_task_id := k_next_task_id k + 1,
       k_pool := (k_pool k)[i := fresh_task k i (Static_Dir d) name_src entry_point stack_top]\<rparr>"

lemma create_task_cases:
  assumes "create_task_from_initrd_file initrd elf stack filename k = (r, k')" and "kwf k"
  shows "case r of
      None \<Rightarrow> k' = k
    | Some i \<Rightarrow> (\<exists>d f name_src. find_image initrd filename = Some (f, name_src) \<and> elf f \<noteq> 0 \<and> stack \<noteq> 0 \<and>
        i < 16 \<and> \<not> k_used k ! i \<and> d < 16 \<and> \<not> k_vmm_used k ! d \<and>
        k' = add_task_to_queue i (with_fresh_task k i d name_src (elf f) stack))"
proof (cases "task_can_create_global k = 0 \<and> find_image initrd filename \<noteq> None")
  case False
  then have "create_task_from_initrd_file initrd elf stack filename k = (None, k)"
    by (cases "task_can_create_global k = 0"; cases "find_image initrd filename")
      (simp_all add: create_task_from_initrd_file_def)
  with assms(1) show ?thesis by auto
next
  case True
  then obtain f name_src where img: "find_image initrd filename = Some (f, name_src)" by auto
  obtain dr k1 where va: "task_static_vmm_acquire k = (dr, k1)" by fastforce
  from vmm_acquire_cases [OF va assms(2)] show ?thesis
  proof (elim disjE exE conjE)
    assume "dr = None" "k1 = k"
    with True img va assms(1) show ?thesis by (simp add: create_task_from_initrd_file_def)
  next
    fix d assume d: "d < 16" "dr = Some (Static_Dir d)" "\<not> k_vmm_used k ! d"
      and k1: "k1 = k\<lparr>k_vmm_used := (k_vmm_used k)[d := True]\<rparr>"
    note undo = vmm_acquire_undo [OF assms(2) d(1,3)]
    show ?thesis
    proof (cases "elf f = 0 \<or> stack = 0")
      case bad: True
      with True img va d k1 assms(1) undo show ?thesis
        by (auto simp: create_task_from_initrd_file_def Let_def)
    next
      case good: False
      show ?thesis
      proof (cases "first_idx Not (k_used k)")
        case None
        then have "task_static_acquire k1 = (None, k1)" by (simp add: task_static_acquire_def k1)
        with True img va d good k1 assms(1) undo show ?thesis
          by (simp add: create_task_from_initrd_file_def Let_def)
      next
        case (Some i)
        have i: "i < 16" "\<not> k_used k ! i"
          using first_idx_SomeD(1,2) [OF Some] kwf_sizes(2) [OF assms(2)] by auto
        have "create_task_from_initrd_file initrd elf stack filename k =
            (Some i, add_task_to_queue i (with_fresh_task k i d name_src (elf f) stack))"
          using True img va d good k1 Some i kwf_sizes(1) [OF assms(2)]
          by (simp add: create_task_from_initrd_file_def Let_def task_static_acquire_def upd_task_def
              with_fresh_task_def fresh_task_def task_static_kernel_stack_top_def tsk_def)
        with assms(1) img good i d show ?thesis by auto
      qed
    qed
  qed
qed


lemma fresh_task_ok:
  assumes "kwf k"
  shows "task_ok (fresh_task k i d n e s)"
  using kwf_globals(2) [OF assms]
  by (simp add: task_ok_def fresh_task_def init_bookkeeping_def setup_initial_user_context_def
      exit_log_def event_log_def evict_inv_def zero_task_def task_fx_init_def task_name_of_def Let_def)

lemma with_fresh_task_facts:
  fixes n e s
  assumes "kwf k" and "i < 16" and "\<not> k_used k ! i" and "d < 16"
  defines "k' \<equiv> with_fresh_task k i d n e s"
  shows "kwf k'" "queue_slots k' = queue_slots k" "i \<notin> set (queue_slots k)"
    "tsk k' i = fresh_task k i (Static_Dir d) n e s" "\<And>j. j \<noteq> i \<Longrightarrow> tsk k' j = tsk k j"
    "k_used k' ! i" "task_ids k' = task_ids k"
proof -
  show notin: "i \<notin> set (queue_slots k)" using kwf_task(1) [OF assms(1)] assms(3) by blast
  show slots: "\<And>j. j \<noteq> i \<Longrightarrow> tsk k' j = tsk k j" by (simp add: k'_def with_fresh_task_def tsk_def)
  have other: "j \<in> set (queue_slots k) \<Longrightarrow> tsk k' j = tsk k j" for j using notin by (intro slots) auto
  show "tsk k' i = fresh_task k i (Static_Dir d) n e s"
    using kwf_sizes(1) [OF assms(1)] assms(2) by (simp add: k'_def with_fresh_task_def tsk_def)
  show qs: "queue_slots k' = queue_slots k"
    by (rule queue_slots_frame(2) [OF assms(1)]) (simp_all add: other, simp add: k'_def with_fresh_task_def)
  show "task_ids k' = task_ids k" by (simp add: task_ids_def qs other cong: map_cong)
  show "k_used k' ! i" using kwf_sizes(2) [OF assms(1)] assms(2) by (simp add: k'_def with_fresh_task_def)
  have dir: "dir_ok k'"
    using kwf_globals(1) [OF assms(1)] kwf_sizes(4) [OF assms(1)] assms(4)
    by (auto simp: dir_ok_def k'_def with_fresh_task_def nth_list_update split: vmm_dir.splits)
  have used: "j \<in> set (queue_slots k) \<Longrightarrow> k_used k ! j \<Longrightarrow> k_used k' ! j" for j
    using notin kwf_sizes(2) [OF assms(1)] assms(2) by (auto simp: k'_def with_fresh_task_def nth_list_update)
  show "kwf k'"
    by (rule kwf_frame [OF assms(1)])
      (simp_all add: other used dir, simp_all add: k'_def with_fresh_task_def kwf_sizes(1-4) [OF assms(1)] kwf_globals(3) [OF assms(1)])
qed


lemma find_append: "find P (xs @ ys) = (case find P xs of None \<Rightarrow> find P ys | Some x \<Rightarrow> Some x)"
  by (induction xs) auto

lemma create_task_facts:
  assumes "kwf k" and "k_queue k \<noteq> None"
  shows "case create_task_from_initrd_file initrd elf stack filename k of
      (None, k') \<Rightarrow> k' = k
    | (Some i, k') \<Rightarrow>
        kwf k' \<and> \<not> k_used k ! i \<and> queue_slots k' = queue_slots k @ [i] \<and>
        get_task_by_id k (k_next_task_id k) = None \<and>
        get_task_by_id k' = (get_task_by_id k)(k_next_task_id k := Some i) \<and>
        t_state (tsk k' i) = TASK_READY \<and> t_type (tsk k' i) = TASK_TYPE_USER \<and>
        t_sequence (tsk k' i) \<noteq> 0 \<and> t_generation (tsk k' i) \<noteq> 0 \<and> t_identity_key (tsk k' i) \<noteq> 0"
proof -
  obtain r k' where run: "create_task_from_initrd_file initrd elf stack filename k = (r, k')" by fastforce
  show ?thesis
  proof (cases r)
    case None
    with create_task_cases [OF run assms(1)] run show ?thesis by simp
  next
    case (Some i)
    from create_task_cases [OF run assms(1)] Some obtain d f n where
      c: "i < 16" "\<not> k_used k ! i" "d < 16" and k': "k' = add_task_to_queue i (with_fresh_task k i d n (elf f) stack)"
      by auto
    let ?w = "with_fresh_task k i d n (elf f) stack"
    note w = with_fresh_task_facts [OF assms(1) c]
    have tid: "t_id (tsk ?w i) = k_next_task_id k" "t_state (tsk ?w i) = TASK_READY" "t_type (tsk ?w i) = TASK_TYPE_USER"
      unfolding w(4) by (simp_all add: fresh_task_def setup_initial_user_context_def task_fx_init_def)
    have ok: "task_ok (tsk ?w i)" unfolding w(4) by (rule fresh_task_ok [OF assms(1)])
    have fresh: "k_next_task_id k \<notin> set (task_ids k)"
      using kwf_task(4) [OF assms(1)] by (fastforce simp: task_ids_def)
    then have none: "get_task_by_id k (k_next_task_id k) = None" by (simp add: get_task_by_id_None)
    have q: "k_queue ?w \<noteq> None" "k_next_task_id ?w = k_next_task_id k + 1"
      using assms(2) by (simp_all add: with_fresh_task_def)
    have add: "kwf k'" "queue_slots k' = queue_slots k @ [i]"
      unfolding k' using kwf_add [OF w(1) c(1) _ w(6) ok] w(2,3,7) tid fresh q kwf_globals(4) [OF assms(1)] by auto
    have "t_id (tsk k' j) = (if j = i then k_next_task_id k else t_id (tsk k j))" for j
      using w(5) tid(1) by (simp add: k' add_task_to_queue_keeps)
    then have "find (\<lambda>j. t_id (tsk k' j) = p) (queue_slots k) = get_task_by_id k p"
      "t_id (tsk k' i) = k_next_task_id k" for p
      using w(3) by (auto simp: get_task_by_id_def intro!: find_cong_set)
    then have "get_task_by_id k' p = ((get_task_by_id k)(k_next_task_id k := Some i)) p" for p
      using none by (auto simp: get_task_by_id_def [of k'] add(2) find_append split: option.splits)
    moreover have "t_state (tsk k' i) = TASK_READY" "t_type (tsk k' i) = TASK_TYPE_USER" "task_ok (tsk k' i)"
      using tid ok by (simp_all add: k' add_task_to_queue_keeps)
    ultimately show ?thesis
      using run Some add c(2) none by (simp add: task_ok_def fun_eq_iff)
  qed
qed


text \<open>The state of the task variables before \<open>tasking_init\<close>.\<close>

definition boot_state :: kstate where
  "boot_state = \<lparr>k_pool = replicate OS_TASK_GLOBAL_CAPACITY zero_task,
     k_used = replicate OS_TASK_GLOBAL_CAPACITY False, k_sequence_counter = 0,
     k_slot_generation = replicate OS_TASK_GLOBAL_CAPACITY 0, k_identity_key = 1,
     k_vmm_used = replicate OS_TASK_GLOBAL_CAPACITY False, k_current = None, k_queue = None,
     k_next_task_id = 0, k_deferred_reap = None, k_root_shell_pid = 0, k_rr_anchor = None,
     k_resume_after_high = None, k_sched_only = None, k_gets_waiter = None,
     k_current_directory = Kernel_Dir, k_ticks = 0, k_spill = spill_blank, k_outcap = out_cap_blank\<rparr>"

lemma boot_state_simps [simp]:
  "length (k_pool boot_state) = 16" "k_next_task_id boot_state = 0" "k_current_directory boot_state = Kernel_Dir"
  "cap_inv (k_outcap boot_state)"
  by (simp_all add: boot_state_def)

lemma kwf_boot: "kwf (tasking_init boot_state)" "queue_slots (tasking_init boot_state) = [0]"
  "k_queue (tasking_init boot_state) = Some 0"
  using kwf_tasking_init(1,2) [of boot_state] by simp_all (simp add: tasking_init_eq)

text \<open>The state after start-up and the creation of a first user task.\<close>

definition shell_state :: kstate where
  "shell_state = snd (create_task_from_initrd_file (\<lambda>_. Some ()) (\<lambda>_. 0x400000) 0xB0000000
     (Some ''bin/shell'') (tasking_init boot_state))"

lemma boot_create:
  "fst (create_task_from_initrd_file (\<lambda>_. Some ()) (\<lambda>_. 0x400000) 0xB0000000
     (Some ''bin/shell'') (tasking_init boot_state)) = Some 1"
proof -
  let ?k = "tasking_init boot_state"
  have "first_idx Not (k_vmm_used ?k) = Some 0" "first_idx Not (k_used ?k) = Some 1" "length (k_pool ?k) = 16"
    by (simp_all add: tasking_init_eq numeral_eq_Suc)
  then show ?thesis
    by (simp add: create_task_from_initrd_file_def task_can_create_global_def get_task_count_def kwf_boot
        find_image_def task_static_vmm_acquire_def task_static_acquire_def Let_def task_static_kernel_stack_top_def)
qed

lemma shell_state_facts:
  "kwf shell_state" "queue_slots shell_state = [0, 1]"
  "get_task_by_id shell_state = [0 \<mapsto> 0, 1 \<mapsto> 1]"
  "t_state (tsk shell_state 1) = TASK_READY" "t_type (tsk shell_state 1) = TASK_TYPE_USER"
proof -
  have pid: "k_next_task_id (tasking_init boot_state) = 1"
    "get_task_by_id (tasking_init boot_state) = [0 \<mapsto> 0]"
    using kwf_tasking_init(3) [of boot_state] by (auto simp: tasking_init_eq fun_eq_iff)
  show "kwf shell_state" "queue_slots shell_state = [0, 1]" "get_task_by_id shell_state = [0 \<mapsto> 0, 1 \<mapsto> 1]"
    "t_state (tsk shell_state 1) = TASK_READY" "t_type (tsk shell_state 1) = TASK_TYPE_USER"
    using create_task_facts [OF kwf_boot(1), of "\<lambda>_. Some ()" "\<lambda>_. 0x400000" "0xB0000000" "Some ''bin/shell''"]
      boot_create pid
    by (auto simp: shell_state_def kwf_boot split: prod.splits option.splits)
qed



text \<open>
  C3. The run queue, a ring of \<open>next\<close> and \<open>prev\<close> pointers inside the pool, refines a list of
  slots. From a well-formed state, \<open>add_task_to_queue\<close> appends a slot that is not queued,
  \<open>unlink_task\<close> removes a queued slot and nothing else, \<open>task_queue_move_first_user\<close> moves a
  queued slot to the second place and keeps the order of the others; each leaves a consistent
  ring.
\<close>

theorem run_queue_refines_list:
  assumes "kwf k" and "i < 16" and "i \<notin> set (queue_slots k)" and "queue_slots k = h # r" and "j \<in> set r"
  shows "queue_ok (add_task_to_queue i k) \<and> queue_slots (add_task_to_queue i k) = queue_slots k @ [i] \<and>
    queue_ok (unlink_task j k) \<and> queue_slots (unlink_task j k) = remove1 j (queue_slots k) \<and>
    queue_ok (unlink_task h k) \<and> queue_slots (unlink_task h k) = r \<and>
    queue_ok (task_queue_move_first_user (Some j) k) \<and>
    queue_slots (task_queue_move_first_user (Some j) k) = h # j # remove1 j r"
proof -
  note k = kwf_sizes(6,1) [OF assms(1)]
  have j: "j \<in> set (queue_slots k)" "h \<in> set (queue_slots k)" using assms(4,5) by auto
  have "ring_rep k (h # r)" using k(1) assms(4) by simp
  then show ?thesis
    using ring_rep_queue_ok [OF ring_rep_add [OF k(1) assms(3,2) k(2)]]
      ring_rep_queue_ok [OF ring_rep_unlink [OF k(1) j(1) k(2)]]
      ring_rep_queue_ok [OF ring_rep_unlink [OF k(1) j(2) k(2)]]
      ring_rep_queue_ok [OF ring_rep_move_first_user [OF _ assms(5) k(2)]] assms(4)
    by simp
qed

theorem run_queue_refines_list_witness:
  "queue_slots (add_task_to_queue 2 shell_state) = [0, 1, 2] \<and> queue_slots (unlink_task 1 shell_state) = [0]"
  using run_queue_refines_list [of shell_state 2 0 "[1]" 1] by (simp add: shell_state_facts)


subsection \<open>A family of tasks\<close>

text \<open>
  A program from a RAM disk that holds every file is started and given a parent, as the
  system calls that create tasks do after \<open>create_task_from_initrd_file\<close>.
\<close>

definition spawn_in :: "cstring \<Rightarrow> pid \<Rightarrow> kstate \<Rightarrow> kstate" where
  "spawn_in name parent k =
     (case create_task_from_initrd_file (\<lambda>_. Some ()) (\<lambda>_. 0x400000) 0xB0000000 (Some name) k of
        (None, k') \<Rightarrow> k'
      | (Some i, k') \<Rightarrow> upd_task i (\<lambda>t. t\<lparr>t_parent_pid := parent\<rparr>) k')"

lemma create_exact:
  assumes "kwf k" and "length (queue_slots k) < 16" and "first_idx Not (k_used k) = Some i"
    and "first_idx Not (k_vmm_used k) = Some d"
  shows "create_task_from_initrd_file (\<lambda>_. Some ()) (\<lambda>_. 0x400000) 0xB0000000 (Some name) k =
    (Some i, add_task_to_queue i (with_fresh_task k i d (Some name) 0x400000 0xB0000000))"
proof -
  have i: "i < 16" using first_idx_SomeD(1) [OF assms(3)] kwf_sizes(2) [OF assms(1)] by simp
  show ?thesis
    using assms(2-4) i kwf_sizes(1) [OF assms(1)]
    by (simp add: create_task_from_initrd_file_def task_can_create_global_def get_task_count_def find_image_def
        task_static_vmm_acquire_def task_static_acquire_def Let_def upd_task_def
        with_fresh_task_def fresh_task_def task_static_kernel_stack_top_def tsk_def)
qed

lemma spawn_in_facts:
  fixes name parent
  assumes "kwf k" and "k_queue k \<noteq> None" and "length (queue_slots k) < 16"
    and "first_idx Not (k_used k) = Some i" and "first_idx Not (k_vmm_used k) = Some d"
  defines "k' \<equiv> spawn_in name parent k"
  shows "kwf k'" "queue_slots k' = queue_slots k @ [i]" "k_queue k' \<noteq> None"
    "get_task_by_id k' = (get_task_by_id k)(k_next_task_id k := Some i)" "k_next_task_id k' = k_next_task_id k + 1"
    "k_used k' = (k_used k)[i := True]" "k_vmm_used k' = (k_vmm_used k)[d := True]" "k_root_shell_pid k' = k_root_shell_pid k"
    "k_spill k' = k_spill k" "k_current_directory k' = k_current_directory k"
    "t_parent_pid (tsk k' i) = parent" "t_waiter_pid (tsk k' i) = 0" "t_name (tsk k' i) = task_name_of (Some name)"
    "t_state (tsk k' i) = TASK_READY" "t_type (tsk k' i) = TASK_TYPE_USER" "t_id (tsk k' i) = k_next_task_id k"
    "\<And>j. j \<noteq> i \<Longrightarrow> (tsk k' j)\<lparr>t_next := None, t_prev := None\<rparr> = (tsk k j)\<lparr>t_next := None, t_prev := None\<rparr>"
proof -
  let ?w = "with_fresh_task k i d (Some name) 0x400000 0xB0000000"
  let ?c = "add_task_to_queue i ?w"
  note ex = create_exact [OF assms(1,3-5), of name]
  have k': "k' = upd_task i (\<lambda>t. t\<lparr>t_parent_pid := parent\<rparr>) ?c" by (simp add: k'_def spawn_in_def ex)
  note f = create_task_facts [OF assms(1,2), of "\<lambda>_. Some ()" "\<lambda>_. 0x400000" "0xB0000000" "Some name", unfolded ex, simplified]
  have c: "i < 16" "\<not> k_used k ! i" "d < 16"
    using first_idx_SomeD(1,2) [OF assms(4)] first_idx_SomeD(1) [OF assms(5)] kwf_sizes(2,4) [OF assms(1)] by auto
  note w = with_fresh_task_facts [OF assms(1) c]
  have len: "i < length (k_pool ?c)" using f kwf_sizes(1) [of ?c] c(1) by simp
  have "kwf ?c" using f by simp
  then show "kwf k'" unfolding k' by (rule kwf_upd_task) (simp_all add: task_ok_def exit_log_def event_log_def)
  show "queue_slots k' = queue_slots k @ [i]" "get_task_by_id k' = (get_task_by_id k)(k_next_task_id k := Some i)"
    unfolding k' using f by simp_all
  show "k_queue k' \<noteq> None"
    unfolding k' using assms(2) by (simp add: add_task_to_queue_def with_fresh_task_def split: option.splits)
  show "k_next_task_id k' = k_next_task_id k + 1" "k_used k' = (k_used k)[i := True]"
    "k_vmm_used k' = (k_vmm_used k)[d := True]" "k_spill k' = k_spill k" "k_current_directory k' = k_current_directory k"
    unfolding k' by (simp_all add: add_task_to_queue_globals) (simp_all add: with_fresh_task_def)
  show "k_root_shell_pid k' = k_root_shell_pid k"
    unfolding k' by (simp add: add_task_to_queue_def with_fresh_task_def split: option.splits)
  show "t_parent_pid (tsk k' i) = parent" "t_waiter_pid (tsk k' i) = 0" "t_name (tsk k' i) = task_name_of (Some name)"
    "t_state (tsk k' i) = TASK_READY" "t_type (tsk k' i) = TASK_TYPE_USER" "t_id (tsk k' i) = k_next_task_id k"
    unfolding k' using len
    by (simp_all add: add_task_to_queue_keeps w(4))
      (simp_all add: fresh_task_def setup_initial_user_context_def task_fx_init_def init_bookkeeping_def)
  show "(tsk k' j)\<lparr>t_next := None, t_prev := None\<rparr> = (tsk k j)\<lparr>t_next := None, t_prev := None\<rparr>" if "j \<noteq> i" for j
    unfolding k' using that w(5) add_task_to_queue_slots [where n = None and p = None] by simp
qed


text \<open>
  Three user tasks: PID 1, its child PID 2, and PID 3, the child of PID 2, in the slots of the
  same numbers.
\<close>

definition one_task_state :: kstate where
  "one_task_state = spawn_in ''bin/shell'' (- 1) (tasking_init boot_state)"

definition two_task_state :: kstate where
  "two_task_state = spawn_in ''bin/tool'' 1 one_task_state"

definition family_state :: kstate where
  "family_state = spawn_in ''bin/job'' 2 two_task_state"

lemma boot_pools:
  "k_used (tasking_init boot_state) = True # replicate 15 False" "k_vmm_used (tasking_init boot_state) = replicate 16 False"
  "k_next_task_id (tasking_init boot_state) = 1" "get_task_by_id (tasking_init boot_state) = [0 \<mapsto> 0]"
  "k_spill (tasking_init boot_state) = spill_blank" "k_root_shell_pid (tasking_init boot_state) = 0"
  "k_current_directory (tasking_init boot_state) = Kernel_Dir"
  using kwf_tasking_init(3) [of boot_state] by (auto simp: tasking_init_eq fun_eq_iff boot_state_def)

lemma one_task_facts:
  "kwf one_task_state" "queue_slots one_task_state = [0, 1]" "k_queue one_task_state \<noteq> None"
  "get_task_by_id one_task_state = [0 \<mapsto> 0, 1 \<mapsto> 1]" "k_next_task_id one_task_state = 2"
  "k_used one_task_state = (True # replicate 15 False)[1 := True]" "k_vmm_used one_task_state = (replicate 16 False)[0 := True]"
  "k_root_shell_pid one_task_state = 0" "k_spill one_task_state = spill_blank" "k_current_directory one_task_state = Kernel_Dir"
  "t_parent_pid (tsk one_task_state 1) = - 1" "t_waiter_pid (tsk one_task_state 1) = 0"
  "t_name (tsk one_task_state 1) = task_name_of (Some ''bin/shell'')"
  "t_state (tsk one_task_state 1) = TASK_READY" "t_type (tsk one_task_state 1) = TASK_TYPE_USER" "t_id (tsk one_task_state 1) = 1"
proof -
  have i: "first_idx Not (True # replicate 15 False) = Some 1" "first_idx Not (replicate 16 False) = Some 0"
    by (simp_all add: numeral_eq_Suc)
  note f = spawn_in_facts [OF kwf_boot(1), of 1 0, unfolded kwf_boot boot_pools, OF _ _ i]
  show "kwf one_task_state" "queue_slots one_task_state = [0, 1]" "k_queue one_task_state \<noteq> None"
    "get_task_by_id one_task_state = [0 \<mapsto> 0, 1 \<mapsto> 1]" "k_next_task_id one_task_state = 2"
    "k_used one_task_state = (True # replicate 15 False)[1 := True]" "k_vmm_used one_task_state = (replicate 16 False)[0 := True]"
    "k_root_shell_pid one_task_state = 0" "k_spill one_task_state = spill_blank" "k_current_directory one_task_state = Kernel_Dir"
    "t_parent_pid (tsk one_task_state 1) = - 1" "t_waiter_pid (tsk one_task_state 1) = 0"
    "t_name (tsk one_task_state 1) = task_name_of (Some ''bin/shell'')"
    "t_state (tsk one_task_state 1) = TASK_READY" "t_type (tsk one_task_state 1) = TASK_TYPE_USER" "t_id (tsk one_task_state 1) = 1"
    unfolding one_task_state_def by (simp_all add: f del: One_nat_def list_update.simps)
qed

lemma two_task_facts:
  "kwf two_task_state" "queue_slots two_task_state = [0, 1, 2]" "k_queue two_task_state \<noteq> None"
  "get_task_by_id two_task_state = [0 \<mapsto> 0, 1 \<mapsto> 1, 2 \<mapsto> 2]" "k_next_task_id two_task_state = 3"
  "k_used two_task_state = (True # replicate 15 False)[1 := True, 2 := True]"
  "k_vmm_used two_task_state = (replicate 16 False)[0 := True, 1 := True]"
  "k_root_shell_pid two_task_state = 0" "k_spill two_task_state = spill_blank" "k_current_directory two_task_state = Kernel_Dir"
  "t_parent_pid (tsk two_task_state 2) = 1" "t_waiter_pid (tsk two_task_state 2) = 0" "t_id (tsk two_task_state 2) = 2"
  "t_state (tsk two_task_state 2) = TASK_READY" "t_type (tsk two_task_state 2) = TASK_TYPE_USER"
  "j \<noteq> 2 \<Longrightarrow> (tsk two_task_state j)\<lparr>t_next := None, t_prev := None\<rparr> = (tsk one_task_state j)\<lparr>t_next := None, t_prev := None\<rparr>"
proof -
  have i: "first_idx Not ((True # replicate 15 False)[1 := True]) = Some 2" "first_idx Not ((replicate 16 False)[0 := True]) = Some 1"
    by (simp_all add: numeral_eq_Suc)
  note f = spawn_in_facts [OF one_task_facts(1,3), of 2 1, unfolded one_task_facts, OF _ i]
  show "kwf two_task_state" "queue_slots two_task_state = [0, 1, 2]" "k_queue two_task_state \<noteq> None"
    "get_task_by_id two_task_state = [0 \<mapsto> 0, 1 \<mapsto> 1, 2 \<mapsto> 2]" "k_next_task_id two_task_state = 3"
    "k_used two_task_state = (True # replicate 15 False)[1 := True, 2 := True]"
    "k_vmm_used two_task_state = (replicate 16 False)[0 := True, 1 := True]"
    "k_root_shell_pid two_task_state = 0" "k_spill two_task_state = spill_blank" "k_current_directory two_task_state = Kernel_Dir"
    "t_parent_pid (tsk two_task_state 2) = 1" "t_waiter_pid (tsk two_task_state 2) = 0" "t_id (tsk two_task_state 2) = 2"
    "t_state (tsk two_task_state 2) = TASK_READY" "t_type (tsk two_task_state 2) = TASK_TYPE_USER"
    unfolding two_task_state_def by (simp_all add: f del: One_nat_def list_update.simps)
  show "j \<noteq> 2 \<Longrightarrow> (tsk two_task_state j)\<lparr>t_next := None, t_prev := None\<rparr> = (tsk one_task_state j)\<lparr>t_next := None, t_prev := None\<rparr>"
    unfolding two_task_state_def by (rule f) simp_all
qed

lemma family_facts:
  "kwf family_state" "queue_slots family_state = [0, 1, 2, 3]"
  "get_task_by_id family_state = [0 \<mapsto> 0, 1 \<mapsto> 1, 2 \<mapsto> 2, 3 \<mapsto> 3]" "k_next_task_id family_state = 4"
  "k_root_shell_pid family_state = 0" "k_spill family_state = spill_blank" "k_current_directory family_state = Kernel_Dir"
  "t_parent_pid (tsk family_state 3) = 2" "t_waiter_pid (tsk family_state 3) = 0" "t_id (tsk family_state 3) = 3"
  "t_state (tsk family_state 3) = TASK_READY" "t_type (tsk family_state 3) = TASK_TYPE_USER"
  "t_parent_pid (tsk family_state 2) = 1" "t_waiter_pid (tsk family_state 2) = 0" "t_id (tsk family_state 2) = 2"
  "t_state (tsk family_state 2) = TASK_READY" "t_type (tsk family_state 2) = TASK_TYPE_USER"
  "t_parent_pid (tsk family_state 1) = - 1" "t_waiter_pid (tsk family_state 1) = 0" "t_id (tsk family_state 1) = 1"
  "t_state (tsk family_state 1) = TASK_READY" "t_type (tsk family_state 1) = TASK_TYPE_USER"
proof -
  have i: "first_idx Not ((True # replicate 15 False)[1 := True, 2 := True]) = Some 3"
    "first_idx Not ((replicate 16 False)[0 := True, 1 := True]) = Some 2"
    by (simp_all add: numeral_eq_Suc)
  note f = spawn_in_facts [OF two_task_facts(1,3), of 3 2, unfolded two_task_facts(2-10), OF _ i]
  show "kwf family_state" "queue_slots family_state = [0, 1, 2, 3]"
    "get_task_by_id family_state = [0 \<mapsto> 0, 1 \<mapsto> 1, 2 \<mapsto> 2, 3 \<mapsto> 3]" "k_next_task_id family_state = 4"
    "k_root_shell_pid family_state = 0" "k_spill family_state = spill_blank" "k_current_directory family_state = Kernel_Dir"
    "t_parent_pid (tsk family_state 3) = 2" "t_waiter_pid (tsk family_state 3) = 0" "t_id (tsk family_state 3) = 3"
    "t_state (tsk family_state 3) = TASK_READY" "t_type (tsk family_state 3) = TASK_TYPE_USER"
    unfolding family_state_def by (simp_all add: f del: One_nat_def list_update.simps)
  have s: "j \<noteq> 3 \<Longrightarrow> (tsk family_state j)\<lparr>t_next := None, t_prev := None\<rparr> = (tsk two_task_state j)\<lparr>t_next := None, t_prev := None\<rparr>" for j
    unfolding family_state_def by (rule f) simp_all
  note s2 = links_only [OF s [of 2, simplified]]
  show "t_parent_pid (tsk family_state 2) = 1" "t_waiter_pid (tsk family_state 2) = 0" "t_id (tsk family_state 2) = 2"
    "t_state (tsk family_state 2) = TASK_READY" "t_type (tsk family_state 2) = TASK_TYPE_USER"
    by (simp_all add: s2 two_task_facts)
  note s1 = links_only [OF s [of 1]] and t1 = links_only [OF two_task_facts(16) [of 1]]
  show "t_parent_pid (tsk family_state 1) = - 1" "t_waiter_pid (tsk family_state 1) = 0" "t_id (tsk family_state 1) = 1"
    "t_state (tsk family_state 1) = TASK_READY" "t_type (tsk family_state 1) = TASK_TYPE_USER"
    by (simp_all add: s1 t1 one_task_facts del: One_nat_def)
qed


end
