(* ===== verification/Supervision.thy ===== *)
theory Supervision
  imports Task_Create
begin

text \<open>
  Supervision of child tasks (\<open>kernel/task/task.c\<close>): the wake-up of a waiting receiver, the
  ring of supervision events a parent keeps, their notification over IPC under a filter, a
  watch list, a budget and a priority child, and the exit history.
\<close>

subsection \<open>Waking a receiver\<close>

definition task_ipc_message_queued :: "nat option \<Rightarrow> kstate \<Rightarrow> kstate" where
  "task_ipc_message_queued task k =
     (case task of
        None \<Rightarrow> k
      | Some i \<Rightarrow>
          if t_state (tsk k i) \<noteq> TASK_BLOCKED_IPC then k
          else (case ipc_wait_on_message (t_ipc_wait (tsk k i)) of
              (wake, w) \<Rightarrow> upd_task i (\<lambda>t. t\<lparr>t_ipc_wait := w,
                 t_state := (if wake then TASK_READY else t_state t)\<rparr>) k))"

definition task_ipc_message_queued_pid :: "pid \<Rightarrow> kstate \<Rightarrow> kstate" where
  "task_ipc_message_queued_pid p k = task_ipc_message_queued (get_task_by_id k p) k"

definition ipc_wait_tick_task :: "u32 \<Rightarrow> task \<Rightarrow> task" where
  "ipc_wait_tick_task now t =
     (if t_state t = TASK_BLOCKED_IPC
      then (case ipc_wait_on_tick (t_ipc_wait t) now of
          (wake, w) \<Rightarrow> t\<lparr>t_ipc_wait := w, t_state := (if wake then TASK_READY else t_state t)\<rparr>)
      else t)"

definition task_ipc_wait_tick :: "u32 \<Rightarrow> kstate \<Rightarrow> kstate" where
  "task_ipc_wait_tick now k = fold (\<lambda>i. upd_task i (ipc_wait_tick_task now)) (queue_slots k) k"


subsection \<open>Watch list and filter\<close>

definition task_supervision_notify_bit :: "u32 \<Rightarrow> u32" where
  "task_supervision_notify_bit action =
     (if action = OS_TASK_SUPERVISION_EXIT then 1
      else if action = OS_TASK_SUPERVISION_SUSPEND then 2
      else if action = OS_TASK_SUPERVISION_RESUME then 4
      else if action = OS_TASK_SUPERVISION_DELEGATE_OUT then 8
      else if action = OS_TASK_SUPERVISION_DELEGATE_IN then 16
      else 0)"

definition task_supervision_watch_index :: "task \<Rightarrow> pid \<Rightarrow> nat option" where
  "task_supervision_watch_index t child =
     (if child \<le> 0 then None
      else first_idx (\<lambda>p. p = child) (take (t_supervision_watch_count t) (t_supervision_watch_pids t)))"

definition task_remove_supervision_watch :: "pid \<Rightarrow> task \<Rightarrow> task" where
  "task_remove_supervision_watch child t =
     (case task_supervision_watch_index t child of
        None \<Rightarrow> t
      | Some i \<Rightarrow>
          let n = t_supervision_watch_count t; ps = t_supervision_watch_pids t;
              n' = (if n > 0 then n - 1 else n)
          in t\<lparr>t_supervision_watch_pids := take i ps @ drop (Suc i) (take n ps) @ drop (n - 1) ps,
               t_supervision_watch_count := n',
               t_supervision_watch_enabled := (if n' = 0 then 0 else t_supervision_watch_enabled t)\<rparr>)"

definition task_supervision_watch_allows :: "task \<Rightarrow> pid \<Rightarrow> bool" where
  "task_supervision_watch_allows t child \<longleftrightarrow>
     t_supervision_watch_enabled t = 0 \<or> task_supervision_watch_index t child \<noteq> None"


subsection \<open>Events\<close>

text \<open>The conditions under which an event is sent to the parent at all.\<close>

definition supervision_notify_wanted :: "task \<Rightarrow> os_task_supervision_event \<Rightarrow> bool" where
  "supervision_notify_wanted t e =
     (let bit = task_supervision_notify_bit (sv_action e);
          priority = (t_supervision_priority_child_pid t = sv_child_pid e)
      in \<not> (t_supervision_notify_enabled t = 0 \<or> t_type t \<noteq> TASK_TYPE_USER \<or> t_state t = TASK_TERMINATED) \<and>
         \<not> (\<not> priority \<and> (bit = 0 \<or> t_supervision_notify_mask t AND bit = 0)) \<and>
         \<not> (\<not> priority \<and> \<not> task_supervision_watch_allows t (sv_child_pid e)) \<and>
         \<not> (t_supervision_notify_budget_limit t \<noteq> 0 \<and>
             t_supervision_notify_budget_used t \<ge> t_supervision_notify_budget_limit t))"

text \<open>
  The delivery of a kernel notification: into the mailbox, else into the overflow area. The
  code of \<open>task_notify_supervision_event\<close> and \<open>task_replay_supervision_event\<close> shares it.
\<close>

definition deliver_supervision :: "nat \<Rightarrow> os_ipc_payload \<Rightarrow> kstate \<Rightarrow> rc \<times> kstate" where
  "deliver_supervision i payload k =
     (case ipc_endpoint_send (t_ipc_endpoint (tsk k i)) 0 (Some payload) of
        (r, e) \<Rightarrow>
          let k1 = upd_task i (\<lambda>t. t\<lparr>t_ipc_endpoint := e\<rparr>) k
          in if r = 0 then (0, k1)
             else (case service_registry_ipc_spill_push (t_id (tsk k1 i)) (Some payload) (k_spill k1) of
                 (r', s) \<Rightarrow> (r', k1\<lparr>k_spill := s\<rparr>)))"

definition task_notify_supervision_event :: "nat \<Rightarrow> os_task_supervision_event \<Rightarrow> kstate \<Rightarrow> kstate" where
  "task_notify_supervision_event i e k =
     (if \<not> supervision_notify_wanted (tsk k i) e then k
      else (case os_task_make_supervision_event e of
          None \<Rightarrow> k
        | Some payload \<Rightarrow>
            let k1 = upd_task i (\<lambda>t. t\<lparr>t_supervision_notify_budget_used := t_supervision_notify_budget_used t + 1,
                  t_supervision_delivery_attempted := t_supervision_delivery_attempted t + 1\<rparr>) k
            in (case deliver_supervision i payload k1 of
                  (r, k2) \<Rightarrow>
                    if r = 0
                    then upd_task i (\<lambda>t. t\<lparr>t_supervision_delivery_delivered := t_supervision_delivery_delivered t + 1\<rparr>)
                           (task_ipc_message_queued (Some i) k2)
                    else upd_task i (\<lambda>t. t\<lparr>t_supervision_delivery_dropped := t_supervision_delivery_dropped t + 1\<rparr>) k2)))"

definition task_stamp_supervision_identity :: "kstate \<Rightarrow> pid \<Rightarrow> os_task_supervision_event \<Rightarrow> os_task_supervision_event" where
  "task_stamp_supervision_identity k child e =
     (case get_task_by_id k child of
        None \<Rightarrow> e\<lparr>sv_child_sequence := 0, sv_child_generation := 0, sv_identity_key := 0\<rparr>
      | Some c \<Rightarrow> e\<lparr>sv_child_sequence := t_sequence (tsk k c), sv_child_generation := t_generation (tsk k c),
          sv_identity_key := t_identity_key (tsk k c)\<rparr>)"

definition push_event :: "os_task_supervision_event \<Rightarrow> task \<Rightarrow> task" where
  "push_event e t =
     (case evict_push OS_TASK_SUPERVISION_EVENT_CAPACITY e (event_log t) of
        (b, s, n) \<Rightarrow> t\<lparr>t_supervision_events := b, t_supervision_event_start := s, t_supervision_event_count := n\<rparr>)"

definition supervision_event_of :: "kstate \<Rightarrow> nat \<Rightarrow> u32 \<Rightarrow> pid \<Rightarrow> pid \<Rightarrow> u32 \<Rightarrow> os_task_supervision_event" where
  "supervision_event_of k i action child related detail =
     task_stamp_supervision_identity k child
       \<lparr>sv_sequence = next_nonzero (t_supervision_event_sequence (tsk k i)), sv_action = action,
        sv_child_pid = child, sv_related_pid = related, sv_detail = detail, sv_ticks = k_ticks k,
        sv_child_sequence = 0, sv_child_generation = 0, sv_identity_key = 0\<rparr>"

definition task_record_supervision_event ::
    "nat option \<Rightarrow> u32 \<Rightarrow> pid \<Rightarrow> pid \<Rightarrow> u32 \<Rightarrow> kstate \<Rightarrow> kstate" where
  "task_record_supervision_event parent action child related detail k =
     (case parent of
        None \<Rightarrow> k
      | Some i \<Rightarrow>
          let e = supervision_event_of k i action child related detail
          in task_notify_supervision_event i e
               (upd_task i (\<lambda>t. (push_event e t)\<lparr>
                  t_supervision_event_sequence := next_nonzero (t_supervision_event_sequence t),
                  t_supervision_event_generation := next_nonzero (t_supervision_event_generation t)\<rparr>) k))"


subsection \<open>The end of a child\<close>

definition task_wake_waiter :: "nat \<Rightarrow> kstate \<Rightarrow> kstate" where
  "task_wake_waiter c k =
     (if t_waiter_pid (tsk k c) \<le> 0 then k
      else
        let k1 = (case get_task_by_id k (t_waiter_pid (tsk k c)) of
              None \<Rightarrow> k
            | Some p \<Rightarrow> if t_state (tsk k p) = TASK_WAITING then upd_task p (\<lambda>t. t\<lparr>t_state := TASK_READY\<rparr>) k else k)
        in upd_task c (\<lambda>t. t\<lparr>t_waiter_pid := 0\<rparr>) k1)"

definition push_exit :: "os_task_exit_result \<Rightarrow> task \<Rightarrow> task" where
  "push_exit r t =
     (case evict_push OS_TASK_EXIT_HISTORY_CAPACITY r (exit_log t) of
        (b, s, n) \<Rightarrow> t\<lparr>t_child_exit_history := b, t_child_exit_history_start := s, t_child_exit_history_count := n\<rparr>)"

text \<open>The parent's own fields, before and after the supervision event is recorded.\<close>

definition note_child_exit :: "os_task_exit_result \<Rightarrow> task \<Rightarrow> task" where
  "note_child_exit r t = t\<lparr>t_last_child_pid := xr_child_pid r, t_last_child_exit_code := xr_exit_code r,
     t_last_child_exit_reason := xr_reason r, t_last_child_finished_ticks := xr_finished_ticks r,
     t_direct_child_exit_count := t_direct_child_exit_count t + 1\<rparr>"

definition log_child_exit :: "os_task_exit_result \<Rightarrow> task \<Rightarrow> task" where
  "log_child_exit r t =
     (let t1 = task_remove_supervision_watch (xr_child_pid r)
            ((push_exit r t)\<lparr>t_child_exit_history_generation := next_nonzero (t_child_exit_history_generation t)\<rparr>)
      in t1\<lparr>t_supervision_priority_child_pid :=
           (if t_supervision_priority_child_pid t1 = xr_child_pid r then - 1
            else t_supervision_priority_child_pid t1)\<rparr>)"

definition task_report_parent_exit :: "nat option \<Rightarrow> int \<Rightarrow> u32 \<Rightarrow> kstate \<Rightarrow> kstate" where
  "task_report_parent_exit child exit_code reason k0 =
     (case child of
        None \<Rightarrow> k0
      | Some c \<Rightarrow>
          let k = k0\<lparr>k_outcap := snd (out_cap_task_gone (t_id (tsk k0 c)) (k_outcap k0))\<rparr>
          in if t_parent_pid (tsk k c) \<le> 0 then k
             else (case get_task_by_id k (t_parent_pid (tsk k c)) of
                 None \<Rightarrow> k
               | Some p \<Rightarrow>
                   if t_type (tsk k p) \<noteq> TASK_TYPE_USER \<or> t_state (tsk k p) = TASK_TERMINATED then k
                   else
                     let cid = t_id (tsk k c);
                         r = \<lparr>xr_child_pid = cid, xr_exit_code = exit_code, xr_reason = reason,
                              xr_finished_ticks = k_ticks k\<rparr>;
                         k1 = task_record_supervision_event (Some p) OS_TASK_SUPERVISION_EXIT cid 0 reason
                                (upd_task p (note_child_exit r) k);
                         k2 = upd_task p (log_child_exit r) k1
                     in (case os_task_make_event cid reason of
                           None \<Rightarrow> k2
                         | Some payload \<Rightarrow>
                             (case ipc_endpoint_send (t_ipc_endpoint (tsk k2 p)) 0 (Some payload) of
                                (r2, e) \<Rightarrow>
                                  let k3 = upd_task p (\<lambda>t. t\<lparr>t_ipc_endpoint := e\<rparr>) k2
                                  in if r2 = 0 then task_ipc_message_queued (Some p) k3 else k3))))"


subsection \<open>Frames\<close>

text \<open>What no operation of this theory changes: the identity of a task and its links.\<close>

definition tcore :: "task \<Rightarrow> pid \<times> u32 \<times> u32 \<times> u32 \<times> task_type \<times> nat option \<times> nat option \<times> bool \<times>
    vmm_dir option \<times> nat option" where
  "tcore t = (t_id t, t_sequence t, t_generation t, t_identity_key t, t_type t, t_next t, t_prev t,
     t_boot_service t, t_vmm_dir t, t_kernel_stack_p t)"

definition kglob :: "kstate \<Rightarrow> kstate" where
  "kglob k = k\<lparr>k_pool := [], k_spill := spill_blank, k_outcap := out_cap_blank\<rparr>"

definition tframe :: "kstate \<Rightarrow> kstate \<Rightarrow> bool" where
  "tframe k k' \<longleftrightarrow> kglob k' = kglob k \<and> length (k_pool k') = length (k_pool k) \<and>
     (\<forall>i. tcore (tsk k' i) = tcore (tsk k i)) \<and> (\<forall>i. task_ok (tsk k i) \<longrightarrow> task_ok (tsk k' i)) \<and>
     (\<forall>i. t_state (tsk k' i) = TASK_RUNNING \<longrightarrow> t_state (tsk k i) = TASK_RUNNING) \<and>
     (cap_inv (k_outcap k) \<longrightarrow> cap_inv (k_outcap k'))"

text \<open>Fields outside the frame and outside the local invariant.\<close>

lemma tcore_upd [simp]:
  "tcore (t\<lparr>t_cpu_state := v4\<rparr>) = tcore t"
  "tcore (t\<lparr>t_state := v5\<rparr>) = tcore t"
  "tcore (t\<lparr>t_priority := v7\<rparr>) = tcore t"
  "tcore (t\<lparr>t_heap_size := v9\<rparr>) = tcore t"
  "tcore (t\<lparr>t_name := v11\<rparr>) = tcore t"
  "tcore (t\<lparr>t_parent_pid := v12\<rparr>) = tcore t"
  "tcore (t\<lparr>t_waiter_pid := v13\<rparr>) = tcore t"
  "tcore (t\<lparr>t_created_ticks := v14\<rparr>) = tcore t"
  "tcore (t\<lparr>t_last_scheduled_ticks := v15\<rparr>) = tcore t"
  "tcore (t\<lparr>t_run_ticks := v16\<rparr>) = tcore t"
  "tcore (t\<lparr>t_switch_count := v17\<rparr>) = tcore t"
  "tcore (t\<lparr>t_last_child_pid := v18\<rparr>) = tcore t"
  "tcore (t\<lparr>t_last_child_exit_code := v19\<rparr>) = tcore t"
  "tcore (t\<lparr>t_last_child_exit_reason := v20\<rparr>) = tcore t"
  "tcore (t\<lparr>t_last_child_finished_ticks := v21\<rparr>) = tcore t"
  "tcore (t\<lparr>t_child_exit_history := v22\<rparr>) = tcore t"
  "tcore (t\<lparr>t_child_exit_history_start := v23\<rparr>) = tcore t"
  "tcore (t\<lparr>t_child_exit_history_count := v24\<rparr>) = tcore t"
  "tcore (t\<lparr>t_child_exit_history_generation := v25\<rparr>) = tcore t"
  "tcore (t\<lparr>t_direct_child_exit_count := v26\<rparr>) = tcore t"
  "tcore (t\<lparr>t_supervision_events := v27\<rparr>) = tcore t"
  "tcore (t\<lparr>t_supervision_event_start := v28\<rparr>) = tcore t"
  "tcore (t\<lparr>t_supervision_event_count := v29\<rparr>) = tcore t"
  "tcore (t\<lparr>t_supervision_event_generation := v30\<rparr>) = tcore t"
  "tcore (t\<lparr>t_supervision_event_sequence := v31\<rparr>) = tcore t"
  "tcore (t\<lparr>t_supervision_notify_enabled := v32\<rparr>) = tcore t"
  "tcore (t\<lparr>t_supervision_notify_mask := v33\<rparr>) = tcore t"
  "tcore (t\<lparr>t_supervision_watch_enabled := v34\<rparr>) = tcore t"
  "tcore (t\<lparr>t_supervision_watch_count := v35\<rparr>) = tcore t"
  "tcore (t\<lparr>t_supervision_watch_pids := v36\<rparr>) = tcore t"
  "tcore (t\<lparr>t_supervision_delivery_attempted := v37\<rparr>) = tcore t"
  "tcore (t\<lparr>t_supervision_delivery_delivered := v38\<rparr>) = tcore t"
  "tcore (t\<lparr>t_supervision_delivery_dropped := v39\<rparr>) = tcore t"
  "tcore (t\<lparr>t_supervision_priority_child_pid := v40\<rparr>) = tcore t"
  "tcore (t\<lparr>t_supervision_notify_budget_limit := v41\<rparr>) = tcore t"
  "tcore (t\<lparr>t_supervision_notify_budget_used := v42\<rparr>) = tcore t"
  "tcore (t\<lparr>t_ipc_endpoint := v43\<rparr>) = tcore t"
  "tcore (t\<lparr>t_ipc_wait := v44\<rparr>) = tcore t"
  "tcore (t\<lparr>t_kctx := v45\<rparr>) = tcore t"
  "tcore (t\<lparr>t_kctx_valid := v46\<rparr>) = tcore t"
  "tcore (t\<lparr>t_fx_state := v48\<rparr>) = tcore t"
  by (simp_all add: tcore_def)

lemma task_ok_upd [simp]:
  "task_ok (t\<lparr>t_id := v0\<rparr>) = task_ok t"
  "task_ok (t\<lparr>t_cpu_state := v4\<rparr>) = task_ok t"
  "task_ok (t\<lparr>t_type := v6\<rparr>) = task_ok t"
  "task_ok (t\<lparr>t_priority := v7\<rparr>) = task_ok t"
  "task_ok (t\<lparr>t_vmm_dir := v8\<rparr>) = task_ok t"
  "task_ok (t\<lparr>t_heap_size := v9\<rparr>) = task_ok t"
  "task_ok (t\<lparr>t_kernel_stack_p := v10\<rparr>) = task_ok t"
  "task_ok (t\<lparr>t_parent_pid := v12\<rparr>) = task_ok t"
  "task_ok (t\<lparr>t_waiter_pid := v13\<rparr>) = task_ok t"
  "task_ok (t\<lparr>t_created_ticks := v14\<rparr>) = task_ok t"
  "task_ok (t\<lparr>t_last_scheduled_ticks := v15\<rparr>) = task_ok t"
  "task_ok (t\<lparr>t_run_ticks := v16\<rparr>) = task_ok t"
  "task_ok (t\<lparr>t_switch_count := v17\<rparr>) = task_ok t"
  "task_ok (t\<lparr>t_last_child_pid := v18\<rparr>) = task_ok t"
  "task_ok (t\<lparr>t_last_child_exit_code := v19\<rparr>) = task_ok t"
  "task_ok (t\<lparr>t_last_child_exit_reason := v20\<rparr>) = task_ok t"
  "task_ok (t\<lparr>t_last_child_finished_ticks := v21\<rparr>) = task_ok t"
  "task_ok (t\<lparr>t_child_exit_history_generation := v25\<rparr>) = task_ok t"
  "task_ok (t\<lparr>t_direct_child_exit_count := v26\<rparr>) = task_ok t"
  "task_ok (t\<lparr>t_supervision_event_generation := v30\<rparr>) = task_ok t"
  "task_ok (t\<lparr>t_supervision_event_sequence := v31\<rparr>) = task_ok t"
  "task_ok (t\<lparr>t_supervision_notify_enabled := v32\<rparr>) = task_ok t"
  "task_ok (t\<lparr>t_supervision_notify_mask := v33\<rparr>) = task_ok t"
  "task_ok (t\<lparr>t_supervision_watch_enabled := v34\<rparr>) = task_ok t"
  "task_ok (t\<lparr>t_supervision_delivery_attempted := v37\<rparr>) = task_ok t"
  "task_ok (t\<lparr>t_supervision_delivery_delivered := v38\<rparr>) = task_ok t"
  "task_ok (t\<lparr>t_supervision_delivery_dropped := v39\<rparr>) = task_ok t"
  "task_ok (t\<lparr>t_supervision_priority_child_pid := v40\<rparr>) = task_ok t"
  "task_ok (t\<lparr>t_supervision_notify_budget_limit := v41\<rparr>) = task_ok t"
  "task_ok (t\<lparr>t_supervision_notify_budget_used := v42\<rparr>) = task_ok t"
  "task_ok (t\<lparr>t_kctx := v45\<rparr>) = task_ok t"
  "task_ok (t\<lparr>t_kctx_valid := v46\<rparr>) = task_ok t"
  "task_ok (t\<lparr>t_boot_service := v47\<rparr>) = task_ok t"
  "task_ok (t\<lparr>t_fx_state := v48\<rparr>) = task_ok t"
  "task_ok (t\<lparr>t_next := v49\<rparr>) = task_ok t"
  "task_ok (t\<lparr>t_prev := v50\<rparr>) = task_ok t"
  by (simp_all add: task_ok_def exit_log_def event_log_def)

lemma tframe_refl [simp]: "tframe k k"
  by (simp add: tframe_def)

lemma tframe_trans [trans]: "tframe a b \<Longrightarrow> tframe b c \<Longrightarrow> tframe a c"
  by (simp add: tframe_def)

lemma kglob_eqD:
  assumes "kglob k' = kglob k"
  shows "k_queue k' = k_queue k" "k_current k' = k_current k" "k_next_task_id k' = k_next_task_id k"
    "k_used k' = k_used k" "k_slot_generation k' = k_slot_generation k" "k_vmm_used k' = k_vmm_used k"
    "k_current_directory k' = k_current_directory k" "k_identity_key k' = k_identity_key k"
    "k_sequence_counter k' = k_sequence_counter k" "k_ticks k' = k_ticks k" "k_root_shell_pid k' = k_root_shell_pid k"
    "k_deferred_reap k' = k_deferred_reap k" "k_rr_anchor k' = k_rr_anchor k"
  using assms by (cases k; cases k'; simp add: kglob_def)+

lemma tcore_eqD:
  assumes "tcore t' = tcore t"
  shows "t_id t' = t_id t" "t_sequence t' = t_sequence t" "t_generation t' = t_generation t"
    "t_identity_key t' = t_identity_key t" "t_type t' = t_type t" "t_next t' = t_next t" "t_prev t' = t_prev t"
    "t_boot_service t' = t_boot_service t"
  using assms by (simp_all add: tcore_def)

lemma tframeD:
  assumes "tframe k k'"
  shows "queue_slots k' = queue_slots k" "get_task_by_id k' = get_task_by_id k"
    "task_get_identity k' = task_get_identity k" "task_identity_key k' = task_identity_key k"
    "tcore (tsk k' i) = tcore (tsk k i)" "t_id (tsk k' i) = t_id (tsk k i)" "t_type (tsk k' i) = t_type (tsk k i)"
    "length (k_pool k') = length (k_pool k)" "kglob k' = kglob k" "k_ticks k' = k_ticks k"
proof -
  have c: "tcore (tsk k' i) = tcore (tsk k i)" for i using assms by (simp add: tframe_def)
  have g: "kglob k' = kglob k" using assms by (simp add: tframe_def)
  show qs: "queue_slots k' = queue_slots k"
    by (rule queue_slots_cong) (simp_all add: kglob_eqD(1) [OF g] tcore_eqD(6) [OF c])
  show gt: "get_task_by_id k' = get_task_by_id k"
    by (rule get_task_by_id_cong) (simp_all add: qs tcore_eqD(1) [OF c])
  show "task_get_identity k' = task_get_identity k" "task_identity_key k' = task_identity_key k"
    by (simp_all add: fun_eq_iff task_get_identity_def task_identity_key_def gt tcore_eqD(2-4) [OF c])
  show "tcore (tsk k' i) = tcore (tsk k i)" "t_id (tsk k' i) = t_id (tsk k i)" "t_type (tsk k' i) = t_type (tsk k i)"
    by (simp_all add: c tcore_eqD [OF c])
  show "length (k_pool k') = length (k_pool k)" "kglob k' = kglob k" "k_ticks k' = k_ticks k"
    using assms g by (simp_all add: tframe_def kglob_eqD(10) [OF g])
qed

lemma tframe_kwf:
  assumes "tframe k k'" and "kwf k"
  shows "kwf k'"
proof (rule kwf_frame [OF assms(2)])
  have g: "kglob k' = kglob k" using assms(1) by (simp add: tframe_def)
  note gl = kglob_eqD [OF g]
  have c: "tcore (tsk k' i) = tcore (tsk k i)" for i using assms(1) by (simp add: tframe_def)
  show "k_queue k' = k_queue k" "k_current k' = k_current k" "k_next_task_id k \<le> k_next_task_id k'"
    "k_identity_key k' \<noteq> 0" "length (k_used k') = 16" "length (k_slot_generation k') = 16" "length (k_vmm_used k') = 16"
    using kwf_sizes(1-4) [OF assms(2)] kwf_globals(2) [OF assms(2)] by (simp_all add: gl)
  show "length (k_pool k') = 16" "cap_inv (k_outcap k')"
    using assms(1) kwf_sizes(1) [OF assms(2)] kwf_globals(3) [OF assms(2)] by (simp_all add: tframe_def)
  show "dir_ok k'" using kwf_globals(1) [OF assms(2)] dir_ok_cong [of k' k] by (simp add: gl)
  fix i
  show "t_next (tsk k' i) = t_next (tsk k i) \<and> t_prev (tsk k' i) = t_prev (tsk k i)"
    "t_id (tsk k' i) = t_id (tsk k i)" by (simp_all add: tcore_eqD [OF c])
  show "task_ok (tsk k i) \<Longrightarrow> task_ok (tsk k' i)" using assms(1) by (simp add: tframe_def)
  show "k_used k ! i \<Longrightarrow> k_used k' ! i" by (simp add: gl)
qed

lemma kglob_upd_task [simp]: "kglob (upd_task i f k) = kglob k"
  by (simp add: kglob_def upd_task_def)

lemma tframe_upd:
  assumes "tcore (f (tsk k i)) = tcore (tsk k i)" and "task_ok (tsk k i) \<Longrightarrow> task_ok (f (tsk k i))"
    and "t_state (f (tsk k i)) = TASK_RUNNING \<Longrightarrow> t_state (tsk k i) = TASK_RUNNING"
  shows "tframe k (upd_task i f k)"
  using assms by (simp add: tframe_def)

lemma tframe_upd_same:
  assumes "tcore (f (tsk k i)) = tcore (tsk k i)" and "task_ok (f (tsk k i)) = task_ok (tsk k i)"
    and "t_state (f (tsk k i)) = t_state (tsk k i)"
  shows "tframe k (upd_task i f k)"
  using assms by (intro tframe_upd) simp_all

lemma tframe_spill [simp]: "tframe k (k\<lparr>k_spill := s\<rparr>)"
  by (simp add: tframe_def kglob_def)

lemma tframe_outcap: "(cap_inv (k_outcap k) \<Longrightarrow> cap_inv c) \<Longrightarrow> tframe k (k\<lparr>k_outcap := c\<rparr>)"
  by (simp add: tframe_def kglob_def)

lemma tframe_fold:
  assumes "\<And>x k. tframe k (f x k)"
  shows "tframe k (fold f xs k)"
  by (induction xs arbitrary: k) (auto intro: tframe_trans assms)

lemma task_ok_parts:
  assumes "task_ok t"
  shows "ep_inv (t_ipc_endpoint t)" "wait_inv (t_ipc_wait t)"
    "t_state t = TASK_BLOCKED_IPC \<Longrightarrow> w_blocked (t_ipc_wait t)"
    "evict_inv 4 (exit_log t)" "evict_inv 4 (event_log t)"
    "length (t_supervision_watch_pids t) = 4" "t_supervision_watch_count t \<le> 4" "length (t_name t) = 32"
  using assms by (simp_all add: task_ok_def)

subsection \<open>Every operation keeps the frame\<close>

lemma tframe_message_queued [simp]: "tframe k (task_ipc_message_queued t k)"
proof (cases t)
  case (Some i)
  show ?thesis
  proof (cases "t_state (tsk k i) = TASK_BLOCKED_IPC")
    case True
    obtain b w where w: "ipc_wait_on_message (t_ipc_wait (tsk k i)) = (b, w)" by fastforce
    have "tframe k (upd_task i (\<lambda>t. t\<lparr>t_ipc_wait := w, t_state := (if b then TASK_READY else t_state t)\<rparr>) k)"
      using w True wait_inv_on_message [of "t_ipc_wait (tsk k i)"]
      by (intro tframe_upd) (auto simp: tcore_def task_ok_def exit_log_def event_log_def ipc_wait_on_message_def split: if_splits)
    with Some True w show ?thesis by (simp add: task_ipc_message_queued_def)
  next
    case False
    with Some show ?thesis by (simp add: task_ipc_message_queued_def)
  qed
qed (simp add: task_ipc_message_queued_def)

lemma tframe_message_queued_pid [simp]: "tframe k (task_ipc_message_queued_pid p k)"
  by (simp add: task_ipc_message_queued_pid_def)

lemma tick_task_ok: "task_ok t \<Longrightarrow> task_ok (ipc_wait_tick_task now t)"
  using wait_inv_on_tick [of "t_ipc_wait t" now]
  by (auto simp: ipc_wait_tick_task_def task_ok_def exit_log_def event_log_def ipc_wait_on_tick_def split: if_splits prod.splits)

lemma tick_task_core [simp]: "tcore (ipc_wait_tick_task now t) = tcore t"
  by (simp add: ipc_wait_tick_task_def tcore_def split: prod.splits)

lemma tick_task_running: "t_state (ipc_wait_tick_task now t) = TASK_RUNNING \<longleftrightarrow> t_state t = TASK_RUNNING"
  by (simp add: ipc_wait_tick_task_def split: prod.splits)

lemma tframe_wait_tick [simp]: "tframe k (task_ipc_wait_tick now k)"
  unfolding task_ipc_wait_tick_def by (intro tframe_fold tframe_upd) (simp_all add: tick_task_ok tick_task_running)

lemma remove_watch_core [simp]:
  "tcore (task_remove_supervision_watch c t) = tcore t"
  "t_parent_pid (task_remove_supervision_watch c t) = t_parent_pid t"
  "t_state (task_remove_supervision_watch c t) = t_state t"
  by (simp_all add: task_remove_supervision_watch_def tcore_def Let_def split: option.splits)

lemma remove_watch_ok:
  assumes "task_ok t"
  shows "task_ok (task_remove_supervision_watch c t)"
proof (cases "task_supervision_watch_index t c")
  case (Some i)
  then have "i < length (take (t_supervision_watch_count t) (t_supervision_watch_pids t))"
    by (auto simp: task_supervision_watch_index_def split: if_splits dest: first_idx_SomeD(1))
  with Some assms show ?thesis
    by (auto simp: task_remove_supervision_watch_def task_ok_def exit_log_def event_log_def Let_def)
qed (use assms in \<open>simp add: task_remove_supervision_watch_def\<close>)

lemma push_event_core [simp]:
  "tcore (push_event e t) = tcore t" "t_state (push_event e t) = t_state t" "t_parent_pid (push_event e t) = t_parent_pid t"
  "event_log (push_event e t) = evict_push 4 e (event_log t)" "exit_log (push_event e t) = exit_log t"
  by (simp_all add: push_event_def tcore_def event_log_def exit_log_def split: prod.splits)

lemma push_exit_core [simp]:
  "tcore (push_exit e t) = tcore t" "t_state (push_exit e t) = t_state t" "t_parent_pid (push_exit e t) = t_parent_pid t"
  "exit_log (push_exit e t) = evict_push 4 e (exit_log t)" "event_log (push_exit e t) = event_log t"
  by (simp_all add: push_exit_def tcore_def event_log_def exit_log_def split: prod.splits)

lemma push_event_ok: "task_ok t \<Longrightarrow> task_ok (push_event e t)"
  using evict_push_inv [of 4 "event_log t" e]
  by (auto simp: task_ok_def push_event_def exit_log_def event_log_def split: prod.splits)

lemma push_exit_ok: "task_ok t \<Longrightarrow> task_ok (push_exit e t)"
  using evict_push_inv [of 4 "exit_log t" e]
  by (auto simp: task_ok_def push_exit_def exit_log_def event_log_def split: prod.splits)



lemma endpoint_send_ok:
  "ep_inv (t_ipc_endpoint t) \<Longrightarrow> ep_inv (snd (ipc_endpoint_send (t_ipc_endpoint t) s p))"
  by simp

lemma task_ok_endpoint: "task_ok t \<Longrightarrow> ep_inv e \<Longrightarrow> task_ok (t\<lparr>t_ipc_endpoint := e\<rparr>)"
  by (simp add: task_ok_def exit_log_def event_log_def)

lemma tframe_endpoint_send:
  assumes "ipc_endpoint_send (t_ipc_endpoint (tsk k i)) s p = (r, e)"
  shows "tframe k (upd_task i (\<lambda>t. t\<lparr>t_ipc_endpoint := e\<rparr>) k)"
proof (rule tframe_upd)
  show "tcore ((tsk k i)\<lparr>t_ipc_endpoint := e\<rparr>) = tcore (tsk k i)" by (simp add: tcore_def)
  assume ok: "task_ok (tsk k i)"
  then have "ep_inv e"
    using endpoint_send_ok [OF task_ok_parts(1) [OF ok], of s p] assms by simp
  with ok show "task_ok ((tsk k i)\<lparr>t_ipc_endpoint := e\<rparr>)" by (rule task_ok_endpoint)
qed simp

lemma tframe_deliver [simp]: "tframe k (snd (deliver_supervision i p k))"
proof -
  obtain r e where s: "ipc_endpoint_send (t_ipc_endpoint (tsk k i)) 0 (Some p) = (r, e)" by fastforce
  note f = tframe_endpoint_send [OF s]
  show ?thesis
    using f tframe_trans [OF f tframe_spill] by (simp add: deliver_supervision_def s Let_def split: prod.splits)
qed

lemma tframe_stats:
  "tframe k (upd_task i (\<lambda>t. t\<lparr>t_supervision_delivery_delivered := a t\<rparr>) k)"
  "tframe k (upd_task i (\<lambda>t. t\<lparr>t_supervision_delivery_dropped := b t\<rparr>) k)"
  "tframe k (upd_task i (\<lambda>t. t\<lparr>t_supervision_notify_budget_used := c t, t_supervision_delivery_attempted := d t\<rparr>) k)"
  by (rule tframe_upd; simp add: tcore_def task_ok_def exit_log_def event_log_def)+

lemma tframe_notify [simp]: "tframe k (task_notify_supervision_event i e k)"
proof (cases "supervision_notify_wanted (tsk k i) e \<and> os_task_make_supervision_event e \<noteq> None")
  case True
  then obtain p where p: "os_task_make_supervision_event e = Some p" by auto
  let ?k1 = "upd_task i (\<lambda>t. t\<lparr>t_supervision_notify_budget_used := t_supervision_notify_budget_used t + 1,
    t_supervision_delivery_attempted := t_supervision_delivery_attempted t + 1\<rparr>) k"
  obtain r k2 where d: "deliver_supervision i p ?k1 = (r, k2)" by fastforce
  have "tframe k ?k1" by (rule tframe_stats)
  moreover have "tframe ?k1 k2" using tframe_deliver [of ?k1 i p] d by simp
  ultimately have k2: "tframe k k2" by (rule tframe_trans)
  show ?thesis
    using True p d tframe_trans [OF k2 tframe_stats(2)]
      tframe_trans [OF tframe_trans [OF k2 tframe_message_queued] tframe_stats(1)]
    by (simp add: task_notify_supervision_event_def Let_def)
next
  case False
  then show ?thesis by (auto simp: task_notify_supervision_event_def)
qed

definition record_event_in :: "os_task_supervision_event \<Rightarrow> task \<Rightarrow> task" where
  "record_event_in e t = (push_event e t)\<lparr>
     t_supervision_event_sequence := next_nonzero (t_supervision_event_sequence t),
     t_supervision_event_generation := next_nonzero (t_supervision_event_generation t)\<rparr>"

lemma record_event_in_core [simp]:
  "tcore (record_event_in e t) = tcore t" "task_ok t \<Longrightarrow> task_ok (record_event_in e t)"
  "event_log (record_event_in e t) = evict_push 4 e (event_log t)" "exit_log (record_event_in e t) = exit_log t"
  using push_event_ok [of t e] push_event_core(1,4,5) [of e t]
  by (simp_all add: record_event_in_def tcore_def task_ok_def exit_log_def event_log_def)

lemma record_event_in_state [simp]: "t_state (record_event_in e t) = t_state t"
  by (simp add: record_event_in_def push_event_def split: prod.split)

lemma task_record_eq: "task_record_supervision_event (Some i) a c r d k =
    (let e = supervision_event_of k i a c r d in task_notify_supervision_event i e (upd_task i (record_event_in e) k))"
  by (simp add: task_record_supervision_event_def record_event_in_def [abs_def])

lemma tframe_record [simp]: "tframe k (task_record_supervision_event p a c r d k)"
proof (cases p)
  case (Some i)
  let ?e = "supervision_event_of k i a c r d"
  have "tframe k (upd_task i (record_event_in ?e) k)"
    by (rule tframe_upd) simp_all
  with Some show ?thesis
    by (simp add: task_record_eq Let_def tframe_trans [OF _ tframe_notify])
qed (simp add: task_record_supervision_event_def)

lemma tframe_set_state:
  "s \<noteq> TASK_BLOCKED_IPC \<Longrightarrow> s \<noteq> TASK_RUNNING \<Longrightarrow> tframe k (upd_task i (\<lambda>t. t\<lparr>t_state := s\<rparr>) k)"
  by (rule tframe_upd) (simp_all add: tcore_def task_ok_def exit_log_def event_log_def)

lemma tframe_set_waiter: "tframe k (upd_task i (\<lambda>t. t\<lparr>t_waiter_pid := w\<rparr>) k)"
  by (rule tframe_upd) (simp_all add: tcore_def task_ok_def exit_log_def event_log_def)

lemma tframe_wake_waiter [simp]: "tframe k (task_wake_waiter c k)"
  by (auto simp: task_wake_waiter_def Let_def tframe_set_waiter split: option.splits
      intro: tframe_trans [OF tframe_set_state tframe_set_waiter])

lemma note_child_exit_core [simp]:
  "tcore (note_child_exit r t) = tcore t" "task_ok t \<Longrightarrow> task_ok (note_child_exit r t)"
  "t_parent_pid (note_child_exit r t) = t_parent_pid t" "t_state (note_child_exit r t) = t_state t"
  by (simp_all add: note_child_exit_def tcore_def task_ok_def exit_log_def event_log_def)

lemma log_child_exit_core [simp]: "tcore (log_child_exit r t) = tcore t"
  "t_parent_pid (log_child_exit r t) = t_parent_pid t" "t_state (log_child_exit r t) = t_state t"
  by (simp_all add: log_child_exit_def Let_def)

lemma log_child_exit_ok: "task_ok t \<Longrightarrow> task_ok (log_child_exit r t)"
proof -
  assume "task_ok t"
  then have "task_ok (push_exit r t)" by (rule push_exit_ok)
  then have "task_ok ((push_exit r t)\<lparr>t_child_exit_history_generation := g\<rparr>)" for g
    by (simp add: task_ok_def exit_log_def event_log_def)
  then have "task_ok (task_remove_supervision_watch c ((push_exit r t)\<lparr>t_child_exit_history_generation := g\<rparr>))" for c g
    by (rule remove_watch_ok)
  then show ?thesis
    by (simp add: log_child_exit_def Let_def task_ok_def exit_log_def event_log_def)
qed

lemma tframe_report_exit [simp]: "tframe k (task_report_parent_exit c code reason k)"
proof (cases c)
  case (Some i)
  let ?k = "k\<lparr>k_outcap := snd (out_cap_task_gone (t_id (tsk k i)) (k_outcap k))\<rparr>"
  have f0: "tframe k ?k" by (rule tframe_outcap) simp
  show ?thesis
  proof (cases "t_parent_pid (tsk k i) \<le> 0 \<or> get_task_by_id k (t_parent_pid (tsk k i)) = None")
    case True
    with Some f0 show ?thesis by (auto simp: task_report_parent_exit_def Let_def)
  next
    case False
    then obtain p where p: "get_task_by_id k (t_parent_pid (tsk k i)) = Some p" by auto
    let ?r = "\<lparr>xr_child_pid = t_id (tsk k i), xr_exit_code = code, xr_reason = reason, xr_finished_ticks = k_ticks k\<rparr>"
    let ?k1 = "task_record_supervision_event (Some p) OS_TASK_SUPERVISION_EXIT (t_id (tsk k i)) 0 reason
      (upd_task p (note_child_exit ?r) ?k)"
    let ?k2 = "upd_task p (log_child_exit ?r) ?k1"
    have "tframe ?k (upd_task p (note_child_exit ?r) ?k)" by (rule tframe_upd) simp_all
    then have "tframe k ?k1" using tframe_trans [OF f0] tframe_trans [OF _ tframe_record] by blast
    moreover have "tframe ?k1 ?k2" by (rule tframe_upd) (simp_all add: log_child_exit_ok)
    ultimately have k2: "tframe k ?k2" by (rule tframe_trans)
    show ?thesis
      using Some False p f0 k2 tframe_trans [OF k2 tframe_endpoint_send]
        tframe_trans [OF tframe_trans [OF k2 tframe_endpoint_send] tframe_message_queued]
      by (simp add: task_report_parent_exit_def Let_def split: prod.splits option.splits)
  qed
qed (simp add: task_report_parent_exit_def)


end
