(* ===== verification/Supervision_Log.thy ===== *)
theory Supervision_Log
  imports Supervision
begin

text \<open>
  What the supervision operations guarantee: the two logs keep the most recent entries, the
  delivery counters stay balanced, and a task that sleeps for a message never has one waiting.
\<close>

subsection \<open>What a notification does to the parent, and that it touches nobody else\<close>

lemma message_queued_other: "j \<noteq> i \<Longrightarrow> tsk (task_ipc_message_queued (Some i) k) j = tsk k j"
  by (simp add: task_ipc_message_queued_def split: prod.splits)

lemma message_queued_spill [simp]: "k_spill (task_ipc_message_queued t k) = k_spill k"
  by (simp add: task_ipc_message_queued_def split: option.splits prod.splits)

text \<open>The fields of a task the wake-up of a receiver can change are its state and its wait.\<close>

lemma message_queued_self:
  "(tsk (task_ipc_message_queued (Some i) k) i)\<lparr>t_state := s, t_ipc_wait := w\<rparr> = (tsk k i)\<lparr>t_state := s, t_ipc_wait := w\<rparr>"
  by (simp add: task_ipc_message_queued_def split: prod.splits)

lemma state_wait_only:
  assumes "t\<lparr>t_state := TASK_READY, t_ipc_wait := ipc_wait_zero\<rparr> = u\<lparr>t_state := TASK_READY, t_ipc_wait := ipc_wait_zero\<rparr>"
  shows "event_log t = event_log u" "exit_log t = exit_log u" "t_ipc_endpoint t = t_ipc_endpoint u"
    "t_supervision_delivery_attempted t = t_supervision_delivery_attempted u"
    "t_supervision_delivery_delivered t = t_supervision_delivery_delivered u"
    "t_supervision_delivery_dropped t = t_supervision_delivery_dropped u"
    "t_parent_pid t = t_parent_pid u" "t_waiter_pid t = t_waiter_pid u" "tcore t = tcore u"
proof -
  have "f (t\<lparr>t_state := TASK_READY, t_ipc_wait := ipc_wait_zero\<rparr>) = f (u\<lparr>t_state := TASK_READY, t_ipc_wait := ipc_wait_zero\<rparr>)"
    for f :: "task \<Rightarrow> 'c"
    using assms by simp
  note this [of event_log] this [of exit_log] this [of t_ipc_endpoint] this [of t_supervision_delivery_attempted]
    this [of t_supervision_delivery_delivered] this [of t_supervision_delivery_dropped] this [of t_parent_pid]
    this [of t_waiter_pid] this [of tcore]
  then show "event_log t = event_log u" "exit_log t = exit_log u" "t_ipc_endpoint t = t_ipc_endpoint u"
    "t_supervision_delivery_attempted t = t_supervision_delivery_attempted u"
    "t_supervision_delivery_delivered t = t_supervision_delivery_delivered u"
    "t_supervision_delivery_dropped t = t_supervision_delivery_dropped u"
    "t_parent_pid t = t_parent_pid u" "t_waiter_pid t = t_waiter_pid u" "tcore t = tcore u"
    by (simp_all add: event_log_def exit_log_def)
qed

lemmas message_queued_keeps = state_wait_only [OF message_queued_self]

lemma message_queued_awake:
  assumes "i < length (k_pool k)" and "task_ok (tsk k i)"
  shows "t_state (tsk (task_ipc_message_queued (Some i) k) i) \<noteq> TASK_BLOCKED_IPC"
  using assms task_ok_parts(3) [OF assms(2)]
  by (auto simp: task_ipc_message_queued_def ipc_wait_on_message_def split: prod.splits)

lemma deliver_other: "j \<noteq> i \<Longrightarrow> tsk (snd (deliver_supervision i p k)) j = tsk k j"
  by (simp add: deliver_supervision_def Let_def split: prod.splits)

lemma notify_other: "j \<noteq> i \<Longrightarrow> tsk (task_notify_supervision_event i e k) j = tsk k j"
proof -
  assume j: "j \<noteq> i"
  then have "tsk (snd (deliver_supervision i p (upd_task i f k))) j = tsk k j" for p f by (simp add: deliver_other)
  then have "deliver_supervision i p (upd_task i f k) = (r, k2) \<Longrightarrow> tsk k2 j = tsk k j" for p f r k2
    by (metis snd_conv)
  with j show ?thesis
    by (auto simp: task_notify_supervision_event_def Let_def message_queued_other split: option.splits prod.splits)
qed

lemma record_other: "j \<noteq> i \<Longrightarrow> tsk (task_record_supervision_event (Some i) a c r d k) j = tsk k j"
  by (simp add: task_record_eq Let_def notify_other)

lemma deliver_self:
  "(tsk (snd (deliver_supervision i p k)) i)\<lparr>t_ipc_endpoint := e\<rparr> = (tsk k i)\<lparr>t_ipc_endpoint := e\<rparr>"
  by (simp add: deliver_supervision_def Let_def split: prod.splits)

lemma endpoint_only:
  assumes "t\<lparr>t_ipc_endpoint := zero_endpoint\<rparr> = u\<lparr>t_ipc_endpoint := zero_endpoint\<rparr>"
  shows "event_log t = event_log u" "exit_log t = exit_log u" "t_state t = t_state u"
    "t_supervision_delivery_attempted t = t_supervision_delivery_attempted u"
    "t_supervision_delivery_delivered t = t_supervision_delivery_delivered u"
    "t_supervision_delivery_dropped t = t_supervision_delivery_dropped u"
    "t_parent_pid t = t_parent_pid u" "t_waiter_pid t = t_waiter_pid u" "tcore t = tcore u"
proof -
  have "f (t\<lparr>t_ipc_endpoint := zero_endpoint\<rparr>) = f (u\<lparr>t_ipc_endpoint := zero_endpoint\<rparr>)" for f :: "task \<Rightarrow> 'c"
    using assms by simp
  note this [of event_log] this [of exit_log] this [of t_state] this [of t_supervision_delivery_attempted]
    this [of t_supervision_delivery_delivered] this [of t_supervision_delivery_dropped] this [of t_parent_pid]
    this [of t_waiter_pid] this [of tcore]
  then show "event_log t = event_log u" "exit_log t = exit_log u" "t_state t = t_state u"
    "t_supervision_delivery_attempted t = t_supervision_delivery_attempted u"
    "t_supervision_delivery_delivered t = t_supervision_delivery_delivered u"
    "t_supervision_delivery_dropped t = t_supervision_delivery_dropped u"
    "t_parent_pid t = t_parent_pid u" "t_waiter_pid t = t_waiter_pid u" "tcore t = tcore u"
    by (simp_all add: event_log_def exit_log_def)
qed

lemmas deliver_keeps = endpoint_only [OF deliver_self]

lemma stats_upd_logs [simp]:
  "event_log (t\<lparr>t_supervision_notify_budget_used := v1\<rparr>) = event_log t" "exit_log (t\<lparr>t_supervision_notify_budget_used := v1\<rparr>) = exit_log t"
  "event_log (t\<lparr>t_supervision_delivery_attempted := v2\<rparr>) = event_log t" "exit_log (t\<lparr>t_supervision_delivery_attempted := v2\<rparr>) = exit_log t"
  "event_log (t\<lparr>t_supervision_delivery_delivered := v3\<rparr>) = event_log t" "exit_log (t\<lparr>t_supervision_delivery_delivered := v3\<rparr>) = exit_log t"
  "event_log (t\<lparr>t_supervision_delivery_dropped := v4\<rparr>) = event_log t" "exit_log (t\<lparr>t_supervision_delivery_dropped := v4\<rparr>) = exit_log t"
  by (simp_all add: event_log_def exit_log_def)

text \<open>
  A notification leaves the logs, the parent and the waiter of the notified task alone, and
  its three delivery counters stay balanced.
\<close>

definition stats_ok :: "task \<Rightarrow> bool" where
  "stats_ok t \<longleftrightarrow> t_supervision_delivery_attempted t =
     t_supervision_delivery_delivered t + t_supervision_delivery_dropped t"

lemma notify_self:
  assumes "i < length (k_pool k)"
  shows "event_log (tsk (task_notify_supervision_event i e k) i) = event_log (tsk k i)"
    "exit_log (tsk (task_notify_supervision_event i e k) i) = exit_log (tsk k i)"
    "t_parent_pid (tsk (task_notify_supervision_event i e k) i) = t_parent_pid (tsk k i)"
    "t_waiter_pid (tsk (task_notify_supervision_event i e k) i) = t_waiter_pid (tsk k i)"
    "stats_ok (tsk k i) \<Longrightarrow> stats_ok (tsk (task_notify_supervision_event i e k) i)"
proof -
  let ?k1 = "upd_task i (\<lambda>t. t\<lparr>t_supervision_notify_budget_used := t_supervision_notify_budget_used t + 1,
    t_supervision_delivery_attempted := t_supervision_delivery_attempted t + 1\<rparr>) k"
  have d: "event_log (tsk k2 i) = event_log (tsk k i)" "exit_log (tsk k2 i) = exit_log (tsk k i)"
    "t_parent_pid (tsk k2 i) = t_parent_pid (tsk k i)" "t_waiter_pid (tsk k2 i) = t_waiter_pid (tsk k i)"
    "t_supervision_delivery_attempted (tsk k2 i) = t_supervision_delivery_attempted (tsk k i) + 1"
    "t_supervision_delivery_delivered (tsk k2 i) = t_supervision_delivery_delivered (tsk k i)"
    "t_supervision_delivery_dropped (tsk k2 i) = t_supervision_delivery_dropped (tsk k i)"
    "length (k_pool k2) = length (k_pool k)"
    if "deliver_supervision i p ?k1 = (r, k2)" for p r k2
    using deliver_keeps [where k = ?k1 and i = i and p = p] tframeD(8) [OF tframe_deliver [of ?k1 i p]] that assms
    by simp_all
  have q: "length (k_pool (task_ipc_message_queued t k)) = length (k_pool k)" for t k
    by (rule tframeD(8) [OF tframe_message_queued])
  show "event_log (tsk (task_notify_supervision_event i e k) i) = event_log (tsk k i)"
    "exit_log (tsk (task_notify_supervision_event i e k) i) = exit_log (tsk k i)"
    "t_parent_pid (tsk (task_notify_supervision_event i e k) i) = t_parent_pid (tsk k i)"
    "t_waiter_pid (tsk (task_notify_supervision_event i e k) i) = t_waiter_pid (tsk k i)"
    "stats_ok (tsk k i) \<Longrightarrow> stats_ok (tsk (task_notify_supervision_event i e k) i)"
    using d by (auto simp: task_notify_supervision_event_def Let_def message_queued_keeps stats_ok_def q assms
        split: option.splits prod.splits)
qed



subsection \<open>The logs\<close>

interpretation exit_hist: evicting_log OS_TASK_EXIT_HISTORY_CAPACITY
  "\<lambda>t. evict_inv 4 (exit_log t)" "\<lambda>t. evict_view 4 (exit_log t)" push_exit
  by unfold_locales (simp_all add: evict_view_bound evict_push_inv evict_push_view)

type_synonym transition = "u32 \<times> pid \<times> pid \<times> u32"

definition transition_of :: "os_task_supervision_event \<Rightarrow> transition" where
  "transition_of e = (sv_action e, sv_child_pid e, sv_related_pid e, sv_detail e)"

text \<open>The transitions the log of slot \<open>i\<close> holds, oldest first.\<close>

definition logged :: "nat \<Rightarrow> kstate \<Rightarrow> transition list" where
  "logged i k = map transition_of (evict_view 4 (event_log (tsk k i)))"

definition record_transition :: "nat \<Rightarrow> transition \<Rightarrow> kstate \<Rightarrow> kstate" where
  "record_transition i x k =
     (case x of (a, c, r, d) \<Rightarrow> task_record_supervision_event (Some i) a c r d k)"

definition log_ready :: "nat \<Rightarrow> kstate \<Rightarrow> bool" where
  "log_ready i k \<longleftrightarrow> i < length (k_pool k) \<and> evict_inv 4 (event_log (tsk k i))"

lemma transition_of_event: "transition_of (supervision_event_of k i a c r d) = (a, c, r, d)"
  by (simp add: transition_of_def supervision_event_of_def task_stamp_supervision_identity_def split: option.splits)

lemma record_log:
  assumes "i < length (k_pool k)"
  shows "event_log (tsk (task_record_supervision_event (Some i) a c r d k) i) =
    evict_push 4 (supervision_event_of k i a c r d) (event_log (tsk k i))"
  using assms by (simp add: task_record_eq Let_def notify_self(1))

lemma record_pool [simp]: "length (k_pool (task_record_supervision_event p a c r d k)) = length (k_pool k)"
  by (rule tframeD(8) [OF tframe_record])

interpretation sv_log: evicting_log OS_TASK_SUPERVISION_EVENT_CAPACITY
  "log_ready i" "logged i" "record_transition i" for i
proof unfold_locales
  fix k x
  show "(0::nat) < 4" by simp
  show "log_ready i k \<Longrightarrow> length (logged i k) \<le> 4"
    by (simp add: log_ready_def logged_def evict_view_bound)
  show "log_ready i k \<Longrightarrow> log_ready i (record_transition i x k)"
    by (cases x) (simp add: log_ready_def record_transition_def record_log evict_push_inv)
  show "log_ready i k \<Longrightarrow> logged i (record_transition i x k) =
      (if length (logged i k) < 4 then logged i k else tl (logged i k)) @ [x]"
    by (cases x) (simp add: log_ready_def logged_def record_transition_def record_log evict_push_view
        transition_of_event map_tl)
qed

text \<open>
  Whatever series of transitions the kernel records for a parent with
  \<open>task_record_supervision_event\<close>, the event ring of the parent then holds the most recent
  four of all the transitions recorded, oldest first, whether they were notified over IPC,
  dropped by a full mailbox or filtered out.
\<close>

theorem supervision_log_keeps_latest:
  assumes "kwf k" and "i \<in> set (queue_slots k)"
  shows "logged i (fold (record_transition i) xs k) =
    drop (length (logged i k) + length xs - OS_TASK_SUPERVISION_EVENT_CAPACITY) (logged i k @ xs)"
proof -
  have "log_ready i k"
    using kwf_sizes(1,8) [OF assms(1)] assms(2) task_ok_parts(5) [OF kwf_task(2) [OF assms]]
    by (simp add: log_ready_def)
  then show ?thesis using sv_log.pushes_last by blast
qed

theorem supervision_log_keeps_latest_witness:
  "logged 1 (fold (record_transition 1) [(2, 7, 0, 0), (3, 7, 0, 0)] shell_state) =
    drop (length (logged 1 shell_state) + 2 - 4) (logged 1 shell_state @ [(2, 7, 0, 0), (3, 7, 0, 0)])"
  using supervision_log_keeps_latest [of shell_state 1 "[(2, 7, 0, 0), (3, 7, 0, 0)]"]
  by (simp add: shell_state_facts)


subsection \<open>Delivery counters\<close>

lemma report_exit_cases:
  "task_report_parent_exit (Some c) code reason k =
     (let k0 = k\<lparr>k_outcap := snd (out_cap_task_gone (t_id (tsk k c)) (k_outcap k))\<rparr> in
      case (if t_parent_pid (tsk k c) \<le> 0 then None else get_task_by_id k (t_parent_pid (tsk k c))) of
        None \<Rightarrow> k0
      | Some p \<Rightarrow>
          if t_type (tsk k p) \<noteq> TASK_TYPE_USER \<or> t_state (tsk k p) = TASK_TERMINATED then k0
          else
            let r = \<lparr>xr_child_pid = t_id (tsk k c), xr_exit_code = code, xr_reason = reason, xr_finished_ticks = k_ticks k\<rparr>;
                k2 = upd_task p (log_child_exit r)
                  (task_record_supervision_event (Some p) OS_TASK_SUPERVISION_EXIT (t_id (tsk k c)) 0 reason
                    (upd_task p (note_child_exit r) k0))
            in case os_task_make_event (t_id (tsk k c)) reason of
                 None \<Rightarrow> k2
               | Some payload \<Rightarrow>
                   let (r2, e) = ipc_endpoint_send (t_ipc_endpoint (tsk k2 p)) 0 (Some payload);
                       k3 = upd_task p (\<lambda>t. t\<lparr>t_ipc_endpoint := e\<rparr>) k2
                   in if r2 = 0 then task_ipc_message_queued (Some p) k3 else k3)"
  by (simp add: task_report_parent_exit_def Let_def split: option.splits)

lemma stats_ok_upd [simp]:
  "stats_ok (note_child_exit r t) = stats_ok t" "stats_ok (record_event_in e t) = stats_ok t"
  "stats_ok (t\<lparr>t_ipc_endpoint := v\<rparr>) = stats_ok t"
  by (simp_all add: stats_ok_def note_child_exit_def record_event_in_def push_event_def split: prod.splits)

lemma stats_ok_log_child_exit [simp]: "stats_ok (log_child_exit r t) = stats_ok t"
  by (simp add: stats_ok_def log_child_exit_def Let_def task_remove_supervision_watch_def push_exit_def
      split: prod.splits option.splits)

lemma record_stats:
  assumes "\<And>j. stats_ok (tsk k j)" and "i < length (k_pool k)"
  shows "stats_ok (tsk (task_record_supervision_event (Some i) a c r d k) j)"
proof (cases "j = i")
  case True
  with assms show ?thesis by (simp add: task_record_eq Let_def notify_self(5))
next
  case False
  with assms show ?thesis by (simp add: record_other)
qed

lemma stats_ok_queued [simp]: "stats_ok (tsk (task_ipc_message_queued (Some i) k) j) = stats_ok (tsk k j)"
  by (cases "j = i") (simp_all add: message_queued_other stats_ok_def message_queued_keeps)

lemma report_exit_stats:
  assumes "\<And>j. stats_ok (tsk k j)" and "kwf k"
  shows "stats_ok (tsk (task_report_parent_exit (Some c) code reason k) j)"
proof -
  have st: "stats_ok (tsk (task_record_supervision_event (Some p) a b 0 reason
      (upd_task p (note_child_exit r) (k\<lparr>k_outcap := oc\<rparr>))) j)" if "get_task_by_id k q = Some p" for a b r oc p q j
    using assms(1) get_task_by_id_pid(1) [OF assms(2) that] kwf_sizes(1) [OF assms(2)]
    by (intro record_stats) auto
  show ?thesis
    using assms(1) st by (auto simp: report_exit_cases Let_def split: option.splits prod.splits if_splits)
qed



subsection \<open>No lost wake-up\<close>

definition spill_pending :: "spill \<Rightarrow> pid \<Rightarrow> bool" where
  "spill_pending s p \<longleftrightarrow> (\<exists>x\<in>set (sp_slots s). ss_used x \<and> ss_watcher_pid x = p)"

text \<open>A task asleep in \<open>TASK_BLOCKED_IPC\<close> has nothing waiting, in its mailbox or in the overflow area.\<close>

definition asleep_ok :: "kstate \<Rightarrow> nat \<Rightarrow> bool" where
  "asleep_ok k i \<longleftrightarrow> (t_state (tsk k i) = TASK_BLOCKED_IPC \<longrightarrow>
     ep_count (t_ipc_endpoint (tsk k i)) = 0 \<and> \<not> spill_pending (k_spill k) (t_id (tsk k i)))"

definition no_lost_wakeup :: "kstate \<Rightarrow> bool" where
  "no_lost_wakeup k \<longleftrightarrow> (\<forall>i\<in>set (queue_slots k). asleep_ok k i)"

lemma spill_push_refused:
  assumes "fst (service_registry_ipc_spill_push w p s) \<noteq> 0"
  shows "sp_slots (snd (service_registry_ipc_spill_push w p s)) = sp_slots s"
  using assms by (auto simp: service_registry_ipc_spill_push_def split: option.splits if_splits)

lemma spill_push_pending:
  assumes "spill_pending (snd (service_registry_ipc_spill_push w p s)) q"
  shows "q = w \<or> spill_pending s q"
  using assms
  by (auto simp: spill_pending_def service_registry_ipc_spill_push_def split: option.splits if_splits
      dest!: set_update_subset_insert [THEN subsetD])

lemma deliver_spill:
  "spill_pending (k_spill (snd (deliver_supervision i p k))) q \<Longrightarrow> q = t_id (tsk k i) \<or> spill_pending (k_spill k) q"
  using spill_push_pending [of "t_id (tsk k i)" "Some p" "k_spill k" q]
  by (auto simp: deliver_supervision_def Let_def split: prod.splits if_splits)

lemma deliver_refused:
  assumes "deliver_supervision i p k = (r, k')" and "r \<noteq> 0" and "i < length (k_pool k)"
  shows "t_ipc_endpoint (tsk k' i) = t_ipc_endpoint (tsk k i)" "sp_slots (k_spill k') = sp_slots (k_spill k)"
proof -
  obtain r1 e where s: "ipc_endpoint_send (t_ipc_endpoint (tsk k i)) 0 (Some p) = (r1, e)" by fastforce
  with assms have r1: "r1 \<noteq> 0" by (auto simp: deliver_supervision_def Let_def)
  then have e: "e = t_ipc_endpoint (tsk k i)"
    using ipc_endpoint_send_refused [of "t_ipc_endpoint (tsk k i)" 0 "Some p"] s by simp
  obtain r2 sp where p: "service_registry_ipc_spill_push (t_id (tsk k i)) (Some p) (k_spill k) = (r2, sp)" by fastforce
  have k': "k' = (upd_task i (\<lambda>t. t\<lparr>t_ipc_endpoint := e\<rparr>) k)\<lparr>k_spill := sp\<rparr>" "r2 = r"
    using assms s r1 p by (auto simp: deliver_supervision_def Let_def)
  show "t_ipc_endpoint (tsk k' i) = t_ipc_endpoint (tsk k i)" "sp_slots (k_spill k') = sp_slots (k_spill k)"
    using k' e assms(2,3) p spill_push_refused [of "t_id (tsk k i)" "Some p" "k_spill k"] by auto
qed

text \<open>
  A mailbox and overflow update for slot \<open>i\<close> that keeps \<open>asleep_ok\<close> for \<open>i\<close> keeps it for all.
\<close>

lemma no_lost_local:
  assumes "kwf k" and "no_lost_wakeup k" and "i \<in> set (queue_slots k)" and "tframe k k'"
    and "\<And>j. j \<noteq> i \<Longrightarrow> tsk k' j = tsk k j"
    and "\<And>q. spill_pending (k_spill k') q \<Longrightarrow> q = t_id (tsk k i) \<or> spill_pending (k_spill k) q"
    and "asleep_ok k' i"
  shows "no_lost_wakeup k'"
  unfolding no_lost_wakeup_def
proof
  fix j assume "j \<in> set (queue_slots k')"
  then have j: "j \<in> set (queue_slots k)" using tframeD(1) [OF assms(4)] by simp
  show "asleep_ok k' j"
  proof (cases "j = i")
    case False
    have "t_id (tsk k j) \<noteq> t_id (tsk k i)"
      using False j assms(3) kwf_globals(5) [OF assms(1)] by (auto simp: task_ids_def distinct_map dest: inj_onD)
    with assms(2,5,6) False j show ?thesis by (fastforce simp: no_lost_wakeup_def asleep_ok_def)
  qed (use assms(7) in simp)
qed

lemma asleep_cong:
  assumes "t_state (tsk k' i) = t_state (tsk k i)" "t_ipc_endpoint (tsk k' i) = t_ipc_endpoint (tsk k i)"
    "t_id (tsk k' i) = t_id (tsk k i)" "sp_slots (k_spill k') = sp_slots (k_spill k)"
  shows "asleep_ok k' i = asleep_ok k i"
  using assms by (simp add: asleep_ok_def spill_pending_def)

lemma notify_asleep:
  assumes "kwf k" and "i \<in> set (queue_slots k)" and "asleep_ok k i"
  shows "asleep_ok (task_notify_supervision_event i e k) i"
    and "spill_pending (k_spill (task_notify_supervision_event i e k)) q \<Longrightarrow>
      q = t_id (tsk k i) \<or> spill_pending (k_spill k) q"
proof -
  have i: "i < length (k_pool k)" using kwf_sizes(1,8) [OF assms(1)] assms(2) by simp
  let ?k1 = "upd_task i (\<lambda>t. t\<lparr>t_supervision_notify_budget_used := t_supervision_notify_budget_used t + 1,
    t_supervision_delivery_attempted := t_supervision_delivery_attempted t + 1\<rparr>) k"
  have a1: "asleep_ok ?k1 i" using assms(3) i by (simp add: asleep_ok_def)
  have main: "asleep_ok (task_notify_supervision_event i e k) i \<and>
      (spill_pending (k_spill (task_notify_supervision_event i e k)) q \<longrightarrow> q = t_id (tsk k i) \<or> spill_pending (k_spill k) q)"
  proof (cases "supervision_notify_wanted (tsk k i) e \<and> os_task_make_supervision_event e \<noteq> None")
    case wanted: True
    then obtain p where p: "os_task_make_supervision_event e = Some p" by auto
    obtain r k2 where d: "deliver_supervision i p ?k1 = (r, k2)" by fastforce
    have f: "tframe k k2" using tframe_trans [OF tframe_stats(3) tframe_deliver [of ?k1 i p]] d by simp
    have sp: "spill_pending (k_spill k2) q \<Longrightarrow> q = t_id (tsk k i) \<or> spill_pending (k_spill k) q"
      using deliver_spill [of i p ?k1 q] d i by simp
    have i2: "i < length (k_pool k2)" "task_ok (tsk k2 i)" "kwf k2"
      using f i assms(1,2) kwf_task(2) [OF tframe_kwf [OF f assms(1)]] by (simp_all add: tframeD [OF f] tframe_kwf)
    show ?thesis
    proof (cases "r = 0")
      case True
      have "length (k_pool (task_ipc_message_queued (Some i) k2)) = length (k_pool k2)"
        by (rule tframeD(8) [OF tframe_message_queued])
      with True d p sp message_queued_awake [OF i2(1,2)] i2(1) i wanted show ?thesis
        by (simp add: task_notify_supervision_event_def Let_def asleep_ok_def)
    next
      case False
      have "t_state (tsk k2 i) = t_state (tsk k i)" "t_id (tsk k2 i) = t_id (tsk k i)"
        using deliver_keeps(3) [where k = ?k1 and i = i and p = p] d i tframeD(6) [OF f] by simp_all
      with False d p sp deliver_refused [OF d False] i i2(1) a1 wanted show ?thesis
        by (simp add: task_notify_supervision_event_def Let_def asleep_ok_def spill_pending_def)
    qed
  next
    case False
    with assms(3) show ?thesis by (auto simp: task_notify_supervision_event_def)
  qed
  then show "asleep_ok (task_notify_supervision_event i e k) i"
    and "spill_pending (k_spill (task_notify_supervision_event i e k)) q \<Longrightarrow>
      q = t_id (tsk k i) \<or> spill_pending (k_spill k) q" by simp_all
qed



lemma no_lost_upd:
  assumes "no_lost_wakeup k" and "tcore (f (tsk k i)) = tcore (tsk k i)"
    and "t_state (f (tsk k i)) = t_state (tsk k i) \<or> t_state (f (tsk k i)) \<noteq> TASK_BLOCKED_IPC"
    and "t_ipc_endpoint (f (tsk k i)) = t_ipc_endpoint (tsk k i)"
  shows "no_lost_wakeup (upd_task i f k)"
proof -
  have "t_next (tsk (upd_task i f k) j) = t_next (tsk k j)" for j
    using tcore_eqD(6) [OF assms(2)] by simp
  then have "queue_slots (upd_task i f k) = queue_slots k" by (intro queue_slots_cong) simp_all
  with assms show ?thesis
    by (auto simp: no_lost_wakeup_def asleep_ok_def tcore_eqD(1) [OF assms(2)])
qed

lemma no_lost_globals [simp]:
  "no_lost_wakeup (k\<lparr>k_outcap := c\<rparr>) = no_lost_wakeup k" "no_lost_wakeup (k\<lparr>k_ticks := t\<rparr>) = no_lost_wakeup k"
  by (simp_all add: no_lost_wakeup_def asleep_ok_def)

lemma no_lost_record:
  assumes "kwf k" and "no_lost_wakeup k" and "i \<in> set (queue_slots k)"
  shows "no_lost_wakeup (task_record_supervision_event (Some i) a c r d k)"
proof -
  let ?e = "supervision_event_of k i a c r d"
  let ?k1 = "upd_task i (record_event_in ?e) k"
  have f1: "tframe k ?k1" by (rule tframe_upd) simp_all
  have k1: "kwf ?k1" "i \<in> set (queue_slots ?k1)"
    using tframe_kwf [OF f1 assms(1)] assms(3) by (simp_all add: tframeD(1) [OF f1])
  have nl1: "no_lost_wakeup ?k1"
    using assms(2) by (rule no_lost_upd) (simp_all, simp_all add: record_event_in_def push_event_def split: prod.splits)
  then have a1: "asleep_ok ?k1 i" using k1(2) by (simp add: no_lost_wakeup_def)
  have "no_lost_wakeup (task_notify_supervision_event i ?e ?k1)"
    by (rule no_lost_local [OF k1(1) nl1 k1(2) tframe_notify notify_other notify_asleep(2) [OF k1 a1]
          notify_asleep(1) [OF k1 a1]])
  then show ?thesis by (simp add: task_record_eq Let_def)
qed

text \<open>A kernel or user message queued in a mailbox and followed by the wake-up.\<close>

lemma no_lost_send:
  assumes "kwf k" and "no_lost_wakeup k" and "i \<in> set (queue_slots k)"
    and "ipc_endpoint_send (t_ipc_endpoint (tsk k i)) s p = (r, e)"
  defines "k' \<equiv> upd_task i (\<lambda>t. t\<lparr>t_ipc_endpoint := e\<rparr>) k"
  shows "no_lost_wakeup (if r = 0 then task_ipc_message_queued (Some i) k' else k')"
proof (cases "r = 0")
  case True
  have f: "tframe k k'" unfolding k'_def by (rule tframe_endpoint_send [OF assms(4)])
  have i: "i < length (k_pool k')" "task_ok (tsk k' i)"
    using kwf_sizes(1,8) [OF assms(1)] assms(3) kwf_task(2) [OF tframe_kwf [OF f assms(1)]] by (simp_all add: tframeD [OF f])
  have "no_lost_wakeup (task_ipc_message_queued (Some i) k')"
    by (rule no_lost_local [OF assms(1-3) tframe_trans [OF f tframe_message_queued]])
      (simp_all add: message_queued_other, simp_all add: k'_def [symmetric] message_queued_awake [OF i] asleep_ok_def,
       simp_all add: k'_def)
  with True show ?thesis by simp
next
  case False
  then have "e = t_ipc_endpoint (tsk k i)"
    using ipc_endpoint_send_refused [of "t_ipc_endpoint (tsk k i)" s p] assms(4) by simp
  then have "no_lost_wakeup k'" unfolding k'_def by (intro no_lost_upd [OF assms(2)]) simp_all
  with False show ?thesis by simp
qed

lemma no_lost_report_exit:
  assumes "kwf k" and "no_lost_wakeup k"
  shows "no_lost_wakeup (task_report_parent_exit (Some c) code reason k)"
proof -
  let ?k0 = "k\<lparr>k_outcap := snd (out_cap_task_gone (t_id (tsk k c)) (k_outcap k))\<rparr>"
  let ?r = "\<lparr>xr_child_pid = t_id (tsk k c), xr_exit_code = code, xr_reason = reason, xr_finished_ticks = k_ticks k\<rparr>"
  have f0: "tframe k ?k0" by (rule tframe_outcap) simp
  have k0: "kwf ?k0" "no_lost_wakeup ?k0" using tframe_kwf [OF f0 assms(1)] assms(2) by simp_all
  have main: "kwf k2 \<and> no_lost_wakeup k2 \<and> p \<in> set (queue_slots k2)"
    if p: "get_task_by_id k q = Some p" and k2: "k2 = upd_task p (log_child_exit ?r)
      (task_record_supervision_event (Some p) OS_TASK_SUPERVISION_EXIT (t_id (tsk k c)) 0 reason
        (upd_task p (note_child_exit ?r) ?k0))" for p q k2
  proof -
    let ?ka = "upd_task p (note_child_exit ?r) ?k0"
    have pq: "p \<in> set (queue_slots k)" using get_task_by_id_SomeD(1) [OF p] .
    have fa: "tframe ?k0 ?ka" by (rule tframe_upd) simp_all
    have na: "no_lost_wakeup ?ka" by (rule no_lost_upd [OF k0(2)]) (simp_all add: note_child_exit_def)
    let ?kb = "task_record_supervision_event (Some p) OS_TASK_SUPERVISION_EXIT (t_id (tsk k c)) 0 reason ?ka"
    have kb: "kwf ?ka" "p \<in> set (queue_slots ?ka)" using tframe_kwf [OF fa k0(1)] pq by (simp_all add: tframeD(1) [OF fa])
    have nb: "no_lost_wakeup ?kb" by (rule no_lost_record [OF kb(1) na kb(2)])
    have fb: "tframe ?ka k2" unfolding k2
      by (rule tframe_trans [OF tframe_record tframe_upd]) (simp_all add: log_child_exit_ok)
    have "no_lost_wakeup k2" unfolding k2
      by (rule no_lost_upd [OF nb]) (simp_all, simp add: log_child_exit_def Let_def task_remove_supervision_watch_def
        push_exit_def split: option.splits prod.splits)
    with tframe_kwf [OF fb kb(1)] kb(2) show ?thesis by (simp add: tframeD(1) [OF fb])
  qed
  show ?thesis
    using k0(2) main no_lost_send [where s = 0]
    by (fastforce simp: report_exit_cases Let_def split: option.splits prod.splits if_splits)
qed


end
