(* ===== verification/Task_Control.thy ===== *)
theory Task_Control
  imports Supervision_Log
begin

text \<open>
  The operations by which a task controls its children (\<open>kernel/task/task.c\<close>): waiting,
  killing, suspending, resuming, delegating to another supervisor, priority and name, and the
  settings of the supervision notifications.
\<close>

subsection \<open>Children\<close>

definition task_reparent_children :: "nat \<Rightarrow> kstate \<Rightarrow> kstate" where
  "task_reparent_children d k =
     fold (\<lambda>i k. if i \<noteq> d \<and> t_parent_pid (tsk k i) = t_id (tsk k d)
                 then upd_task i (\<lambda>t. t\<lparr>t_parent_pid := t_parent_pid (tsk k d)\<rparr>) k else k)
       (queue_slots k) k"

definition task_wait_for_child :: "pid \<Rightarrow> pid \<Rightarrow> kstate \<Rightarrow> rc \<times> kstate" where
  "task_wait_for_child requester child_pid k =
     (case (get_task_by_id k requester, get_task_by_id k child_pid) of
        (Some p, Some c) \<Rightarrow>
          if t_parent_pid (tsk k c) \<noteq> requester then (OS_TASK_NOT_CHILD, k)
          else if t_waiter_pid (tsk k c) \<noteq> 0 \<and> t_waiter_pid (tsk k c) \<noteq> requester then (OS_TASK_CONTROL_DENIED, k)
          else (0, upd_task p (\<lambda>t. t\<lparr>t_state := TASK_WAITING\<rparr>)
                     (upd_task c (\<lambda>t. t\<lparr>t_waiter_pid := requester\<rparr>) k))
      | _ \<Rightarrow> (OS_TASK_NOT_FOUND, k))"

text \<open>The loop of \<open>task_wait_for_any_child\<close>; \<open>None\<close> is its early return.\<close>

fun wait_any_loop :: "pid \<Rightarrow> nat list \<Rightarrow> bool \<Rightarrow> kstate \<Rightarrow> bool option \<times> kstate" where
  "wait_any_loop r [] found k = (Some found, k)"
| "wait_any_loop r (i # is) found k =
     (if t_parent_pid (tsk k i) = r then
        if t_waiter_pid (tsk k i) \<noteq> 0 \<and> t_waiter_pid (tsk k i) \<noteq> r then (None, k)
        else wait_any_loop r is True (upd_task i (\<lambda>t. t\<lparr>t_waiter_pid := r\<rparr>) k)
      else wait_any_loop r is found k)"

definition task_wait_for_any_child :: "pid \<Rightarrow> kstate \<Rightarrow> rc \<times> kstate" where
  "task_wait_for_any_child requester k =
     (case get_task_by_id k requester of
        None \<Rightarrow> (OS_TASK_NOT_FOUND, k)
      | Some p \<Rightarrow>
          (case wait_any_loop requester (queue_slots k) False k of
             (None, k1) \<Rightarrow> (OS_TASK_CONTROL_DENIED, k1)
           | (Some False, k1) \<Rightarrow> (OS_TASK_NO_DIRECT_CHILD, k1)
           | (Some True, k1) \<Rightarrow> (0, upd_task p (\<lambda>t. t\<lparr>t_state := TASK_WAITING\<rparr>) k1)))"

text \<open>What \<open>task_kill\<close> and \<open>task_kill_direct_children\<close> do to their victim.\<close>

definition end_killed_task :: "nat \<Rightarrow> kstate \<Rightarrow> kstate" where
  "end_killed_task c k =
     (let k1 = task_report_parent_exit (Some c) OS_TASK_EXIT_KILLED OS_TASK_EVENT_KILLED k;
          k2 = task_wake_waiter c k1;
          k3 = task_reparent_children c k2;
          k4 = upd_task c (\<lambda>t. t\<lparr>t_state := TASK_TERMINATED\<rparr>) k3
      in task_release_detached (Some c) (unlink_task c k4))"

definition task_kill :: "pid \<Rightarrow> pid \<Rightarrow> kstate \<Rightarrow> rc \<times> kstate" where
  "task_kill requester p k =
     (if p = 0 then (- 2, k)
      else case get_task_by_id k p of
        None \<Rightarrow> (- 1, k)
      | Some c \<Rightarrow>
          if requester = p then (- 3, k)
          else if requester \<noteq> t_parent_pid (tsk k c) \<and>
              \<not> (t_boot_service (tsk k c) \<and> k_root_shell_pid k > 0 \<and> requester = k_root_shell_pid k)
            then (OS_TASK_CONTROL_DENIED, k)
          else (0, end_killed_task c k))"

definition task_kill_direct_children :: "pid \<Rightarrow> kstate \<Rightarrow> rc \<times> kstate" where
  "task_kill_direct_children requester k =
     (if get_task_by_id k requester = None then (OS_TASK_NOT_FOUND, k)
      else
        let pids = take OS_TASK_CHILD_CAPACITY
              (map (\<lambda>i. t_id (tsk k i)) (filter (\<lambda>i. t_parent_pid (tsk k i) = requester) (queue_slots k)))
        in (int (length pids),
            fold (\<lambda>p k. case get_task_by_id k p of
                None \<Rightarrow> k
              | Some c \<Rightarrow> if t_parent_pid (tsk k c) \<noteq> requester then k else end_killed_task c k) pids k))"

definition task_set_child_state ::
    "task_state \<Rightarrow> task_state \<Rightarrow> u32 \<Rightarrow> pid \<Rightarrow> pid \<Rightarrow> kstate \<Rightarrow> rc \<times> kstate" where
  "task_set_child_state from_state to_state action requester child_pid k =
     (case get_task_by_id k child_pid of
        None \<Rightarrow> (OS_TASK_NOT_FOUND, k)
      | Some c \<Rightarrow>
          if t_type (tsk k c) \<noteq> TASK_TYPE_USER \<or> t_parent_pid (tsk k c) \<noteq> requester then (OS_TASK_CONTROL_DENIED, k)
          else if t_state (tsk k c) \<noteq> from_state then (OS_TASK_BAD_STATE, k)
          else (0, task_record_supervision_event (get_task_by_id k requester) action child_pid 0 0
                     (upd_task c (\<lambda>t. t\<lparr>t_state := to_state\<rparr>) k)))"

definition task_suspend_child :: "pid \<Rightarrow> pid \<Rightarrow> kstate \<Rightarrow> rc \<times> kstate" where
  "task_suspend_child = task_set_child_state TASK_READY TASK_SUSPENDED OS_TASK_SUPERVISION_SUSPEND"

definition task_resume_child :: "pid \<Rightarrow> pid \<Rightarrow> kstate \<Rightarrow> rc \<times> kstate" where
  "task_resume_child = task_set_child_state TASK_SUSPENDED TASK_READY OS_TASK_SUPERVISION_RESUME"


subsection \<open>Delegation\<close>

text \<open>
  The walk from the supervisor up to the root: refused when it meets the child or when it has
  not ended after \<open>OS_TASK_GLOBAL_CAPACITY\<close> steps.
\<close>

fun delegate_walk :: "kstate \<Rightarrow> pid \<Rightarrow> nat \<Rightarrow> nat option \<Rightarrow> bool" where
  "delegate_walk k child n None = True"
| "delegate_walk k child 0 (Some c) = False"
| "delegate_walk k child (Suc n) (Some c) =
     (if t_id (tsk k c) = child then False
      else if t_parent_pid (tsk k c) < 0 then True
      else delegate_walk k child n (get_task_by_id k (t_parent_pid (tsk k c))))"

definition task_delegate_child :: "pid \<Rightarrow> pid \<Rightarrow> pid \<Rightarrow> kstate \<Rightarrow> rc \<times> kstate" where
  "task_delegate_child requester child_pid supervisor_pid k =
     (case (get_task_by_id k requester, get_task_by_id k child_pid, get_task_by_id k supervisor_pid) of
        (Some r, Some c, Some s) \<Rightarrow>
          if t_parent_pid (tsk k c) \<noteq> requester then (OS_TASK_NOT_CHILD, k)
          else if t_type (tsk k s) \<noteq> TASK_TYPE_USER \<or> t_state (tsk k s) = TASK_TERMINATED \<or>
              supervisor_pid = requester \<or> supervisor_pid = child_pid then (OS_TASK_BAD_DELEGATE, k)
          else if t_waiter_pid (tsk k c) \<noteq> 0 then (OS_TASK_BAD_STATE, k)
          else if task_count_direct_children k supervisor_pid \<ge> OS_TASK_CHILD_CAPACITY then (OS_TASK_CHILD_LIMIT, k)
          else if \<not> delegate_walk k child_pid OS_TASK_GLOBAL_CAPACITY (Some s) then (OS_TASK_BAD_DELEGATE, k)
          else
            let k1 = task_record_supervision_event (Some r) OS_TASK_SUPERVISION_DELEGATE_OUT child_pid supervisor_pid 0 k;
                k2 = task_record_supervision_event (Some s) OS_TASK_SUPERVISION_DELEGATE_IN child_pid requester 0 k1;
                k3 = upd_task r (\<lambda>t. let t1 = task_remove_supervision_watch child_pid t
                       in t1\<lparr>t_supervision_priority_child_pid :=
                            (if t_supervision_priority_child_pid t1 = child_pid then - 1
                             else t_supervision_priority_child_pid t1)\<rparr>) k2
            in (0, upd_task c (\<lambda>t. t\<lparr>t_parent_pid := supervisor_pid\<rparr>) k3)
      | _ \<Rightarrow> (OS_TASK_NOT_FOUND, k))"


subsection \<open>Priority and name\<close>

definition task_set_priority :: "pid \<Rightarrow> pid \<Rightarrow> u32 \<Rightarrow> kstate \<Rightarrow> rc \<times> kstate" where
  "task_set_priority requester p priority k =
     (if priority < OS_TASK_PRIORITY_LOW \<or> priority > OS_TASK_PRIORITY_HIGH then (OS_TASK_BAD_PRIORITY, k)
      else case get_task_by_id k p of
        None \<Rightarrow> (OS_TASK_NOT_FOUND, k)
      | Some i \<Rightarrow>
          if requester \<noteq> t_id (tsk k i) \<and> requester \<noteq> t_parent_pid (tsk k i) then (OS_TASK_CONTROL_DENIED, k)
          else (0, upd_task i (\<lambda>t. t\<lparr>t_priority := priority\<rparr>) k))"

definition printable :: "char \<Rightarrow> bool" where
  "printable c \<longleftrightarrow> 32 \<le> (of_char c :: nat) \<and> (of_char c :: nat) \<le> 126"

definition task_set_name :: "pid \<Rightarrow> pid \<Rightarrow> cstring option \<Rightarrow> kstate \<Rightarrow> rc \<times> kstate" where
  "task_set_name requester p name k =
     (case name of
        None \<Rightarrow> (OS_TASK_BAD_NAME, k)
      | Some nm \<Rightarrow>
          if cstr nm = [] then (OS_TASK_BAD_NAME, k)
          else if length (cstr nm) \<ge> OS_PROC_NAME_MAX \<or> \<not> list_all printable (cstr nm) then (OS_TASK_BAD_NAME, k)
          else if cstr nm = ''atadriver'' \<or> cstr nm = ''ataclient'' \<or> cstr nm = ''aiworker'' then (OS_TASK_BAD_NAME, k)
          else case get_task_by_id k p of
            None \<Rightarrow> (OS_TASK_NOT_FOUND, k)
          | Some i \<Rightarrow>
              if requester \<noteq> t_id (tsk k i) \<and> requester \<noteq> t_parent_pid (tsk k i) then (OS_TASK_CONTROL_DENIED, k)
              else (0, upd_task i (\<lambda>t. t\<lparr>t_name := cstr nm @ [NUL] @ drop (Suc (length (cstr nm))) (t_name t)\<rparr>) k))"


subsection \<open>Notification settings\<close>

text \<open>The lookup these calls share: a user task that has not ended.\<close>

definition live_user :: "kstate \<Rightarrow> pid \<Rightarrow> nat option" where
  "live_user k p =
     (case get_task_by_id k p of
        None \<Rightarrow> None
      | Some i \<Rightarrow> if t_type (tsk k i) \<noteq> TASK_TYPE_USER \<or> t_state (tsk k i) = TASK_TERMINATED then None else Some i)"

definition task_set_supervision_notify :: "pid \<Rightarrow> u32 \<Rightarrow> kstate \<Rightarrow> rc \<times> kstate" where
  "task_set_supervision_notify requester enabled k =
     (if enabled > 1 then (OS_TASK_BAD_NOTIFY, k)
      else case live_user k requester of
        None \<Rightarrow> (OS_TASK_NOT_FOUND, k)
      | Some i \<Rightarrow> (sint enabled, upd_task i (\<lambda>t. t\<lparr>t_supervision_notify_enabled := enabled\<rparr>) k))"

definition task_set_supervision_notify_filter :: "pid \<Rightarrow> u32 \<Rightarrow> kstate \<Rightarrow> rc \<times> kstate" where
  "task_set_supervision_notify_filter requester msk k =
     (if msk AND NOT OS_TASK_SUPERVISION_NOTIFY_ALL \<noteq> 0 then (OS_TASK_BAD_NOTIFY_FILTER, k)
      else case live_user k requester of
        None \<Rightarrow> (OS_TASK_NOT_FOUND, k)
      | Some i \<Rightarrow> (0, upd_task i (\<lambda>t. t\<lparr>t_supervision_notify_mask := msk\<rparr>) k))"

definition task_update_supervision_watch :: "pid \<Rightarrow> pid \<Rightarrow> u32 \<Rightarrow> kstate \<Rightarrow> rc \<times> kstate" where
  "task_update_supervision_watch requester child_pid enabled k =
     (if enabled > 1 then (OS_TASK_BAD_WATCH, k)
      else case live_user k requester of
        None \<Rightarrow> (OS_TASK_NOT_FOUND, k)
      | Some p \<Rightarrow>
          if enabled = 0 \<and> child_pid = 0 then
            (0, upd_task p (\<lambda>t. t\<lparr>t_supervision_watch_enabled := 0, t_supervision_watch_count := 0,
                  t_supervision_watch_pids := replicate OS_TASK_SUPERVISION_WATCH_CAPACITY 0\<rparr>) k)
          else if child_pid \<le> 0 then (OS_TASK_BAD_WATCH, k)
          else case get_task_by_id k child_pid of
            None \<Rightarrow> (OS_TASK_NOT_FOUND, k)
          | Some c \<Rightarrow>
              if t_type (tsk k c) \<noteq> TASK_TYPE_USER \<or> t_state (tsk k c) = TASK_TERMINATED \<or>
                 t_parent_pid (tsk k c) \<noteq> requester then (OS_TASK_NOT_CHILD, k)
              else
                let index = task_supervision_watch_index (tsk k p) child_pid;
                    n = t_supervision_watch_count (tsk k p)
                in if enabled \<noteq> 0 then
                     if index \<noteq> None then (int n, k)
                     else if n \<ge> OS_TASK_SUPERVISION_WATCH_CAPACITY then (OS_TASK_WATCH_FULL, k)
                     else (int (n + 1), upd_task p (\<lambda>t. t\<lparr>
                            t_supervision_watch_pids := (t_supervision_watch_pids t)[n := child_pid],
                            t_supervision_watch_count := n + 1, t_supervision_watch_enabled := 1\<rparr>) k)
                   else if index = None then (OS_TASK_NO_SUPERVISION_WATCH, k)
                   else let k1 = upd_task p (task_remove_supervision_watch child_pid) k
                        in (int (t_supervision_watch_count (tsk k1 p)), k1))"

definition task_set_supervision_priority :: "pid \<Rightarrow> pid \<Rightarrow> kstate \<Rightarrow> rc \<times> kstate" where
  "task_set_supervision_priority requester child_pid k =
     (case live_user k requester of
        None \<Rightarrow> (OS_TASK_NOT_FOUND, k)
      | Some p \<Rightarrow>
          if child_pid = 0 then (0, upd_task p (\<lambda>t. t\<lparr>t_supervision_priority_child_pid := - 1\<rparr>) k)
          else case get_task_by_id k child_pid of
            None \<Rightarrow> (OS_TASK_NOT_FOUND, k)
          | Some c \<Rightarrow>
              if t_type (tsk k c) \<noteq> TASK_TYPE_USER \<or> t_state (tsk k c) = TASK_TERMINATED \<or>
                 t_parent_pid (tsk k c) \<noteq> requester then (OS_TASK_NOT_CHILD, k)
              else (child_pid, upd_task p (\<lambda>t. t\<lparr>t_supervision_priority_child_pid := child_pid\<rparr>) k))"

definition task_set_supervision_notify_budget :: "pid \<Rightarrow> u32 \<Rightarrow> kstate \<Rightarrow> rc \<times> kstate" where
  "task_set_supervision_notify_budget requester limit k =
     (case live_user k requester of
        None \<Rightarrow> (OS_TASK_NOT_FOUND, k)
      | Some p \<Rightarrow> (0, upd_task p (\<lambda>t. t\<lparr>t_supervision_notify_budget_limit := limit,
                          t_supervision_notify_budget_used := 0\<rparr>) k))"

definition task_ack_supervision_delivery_stats :: "pid \<Rightarrow> kstate \<Rightarrow> rc \<times> kstate" where
  "task_ack_supervision_delivery_stats requester k =
     (case live_user k requester of
        None \<Rightarrow> (OS_TASK_NOT_FOUND, k)
      | Some p \<Rightarrow> (0, upd_task p (\<lambda>t. t\<lparr>t_supervision_delivery_attempted := 0,
                    t_supervision_delivery_delivered := 0, t_supervision_delivery_dropped := 0\<rparr>) k))"


subsection \<open>Frames\<close>

lemma tframe_set_parent: "tframe k (upd_task i (\<lambda>t. t\<lparr>t_parent_pid := p\<rparr>) k)"
  by (rule tframe_upd) simp_all

lemma tframe_reparent [simp]: "tframe k (task_reparent_children d k)"
  unfolding task_reparent_children_def by (rule tframe_fold) (simp add: tframe_set_parent)

lemma tframe_wait_any_loop: "tframe k (snd (wait_any_loop r xs found k))"
proof (induction xs arbitrary: found k)
  case (Cons i xs)
  let ?k = "upd_task i (\<lambda>t. t\<lparr>t_waiter_pid := r\<rparr>) k"
  have "tframe k (snd (wait_any_loop r xs True ?k))"
    by (rule tframe_trans [OF tframe_set_waiter Cons.IH])
  with Cons.IH [of k found] show ?case by (simp del: tsk_upd_task)
qed simp

lemma tframe_waits [simp]:
  "tframe k (snd (task_wait_for_child r c k))" "tframe k (snd (task_wait_for_any_child r k))"
proof -
  show "tframe k (snd (task_wait_for_child r c k))"
    by (auto simp: task_wait_for_child_def split: option.splits
        intro: tframe_trans [OF tframe_set_waiter tframe_set_state])
  obtain res k1 where w: "wait_any_loop r (queue_slots k) False k = (res, k1)" by fastforce
  have "tframe k k1" using tframe_wait_any_loop [of k r "queue_slots k" False] w by simp
  then show "tframe k (snd (task_wait_for_any_child r k))"
    by (auto simp: task_wait_for_any_child_def w split: option.splits bool.splits
        intro: tframe_trans [OF _ tframe_set_state])
qed

lemma tframe_set_child_state:
  "s \<noteq> TASK_BLOCKED_IPC \<Longrightarrow> s \<noteq> TASK_RUNNING \<Longrightarrow> tframe k (snd (task_set_child_state f s a r c k))"
  by (auto simp: task_set_child_state_def split: option.splits intro: tframe_trans [OF tframe_set_state tframe_record])

lemma tframe_suspend_resume [simp]:
  "tframe k (snd (task_suspend_child r c k))" "tframe k (snd (task_resume_child r c k))"
  by (simp_all add: task_suspend_child_def task_resume_child_def tframe_set_child_state)

definition forget_child :: "pid \<Rightarrow> task \<Rightarrow> task" where
  "forget_child c t = (let t1 = task_remove_supervision_watch c t
     in t1\<lparr>t_supervision_priority_child_pid :=
          (if t_supervision_priority_child_pid t1 = c then - 1 else t_supervision_priority_child_pid t1)\<rparr>)"

lemma forget_child_core [simp]: "tcore (forget_child c t) = tcore t" "task_ok t \<Longrightarrow> task_ok (forget_child c t)"
  "t_parent_pid (forget_child c t) = t_parent_pid t" "t_waiter_pid (forget_child c t) = t_waiter_pid t"
  "t_state (forget_child c t) = t_state t"
  by (simp_all add: forget_child_def Let_def remove_watch_ok)
    (simp_all add: task_remove_supervision_watch_def Let_def split: option.splits)

text \<open>The state an accepted delegation leaves.\<close>

definition delegated :: "nat \<Rightarrow> nat \<Rightarrow> nat \<Rightarrow> pid \<Rightarrow> pid \<Rightarrow> pid \<Rightarrow> kstate \<Rightarrow> kstate" where
  "delegated r c s requester child_pid supervisor_pid k =
     upd_task c (\<lambda>t. t\<lparr>t_parent_pid := supervisor_pid\<rparr>)
       (upd_task r (forget_child child_pid)
         (task_record_supervision_event (Some s) OS_TASK_SUPERVISION_DELEGATE_IN child_pid requester 0
           (task_record_supervision_event (Some r) OS_TASK_SUPERVISION_DELEGATE_OUT child_pid supervisor_pid 0 k)))"

lemma tframe_delegated: "tframe k (delegated r c s rp cp sp k)"
  unfolding delegated_def
  by (rule tframe_trans [OF tframe_trans [OF tframe_trans [OF tframe_record tframe_record] tframe_upd] tframe_set_parent])
    simp_all

lemma delegate_cases:
  assumes "task_delegate_child rp cp sp k = (v, k')"
  shows "(v \<noteq> 0 \<and> k' = k) \<or>
    (v = 0 \<and> (\<exists>r c s. get_task_by_id k rp = Some r \<and> get_task_by_id k cp = Some c \<and> get_task_by_id k sp = Some s \<and>
      t_parent_pid (tsk k c) = rp \<and> t_type (tsk k s) = TASK_TYPE_USER \<and> t_state (tsk k s) \<noteq> TASK_TERMINATED \<and>
      sp \<noteq> rp \<and> sp \<noteq> cp \<and> t_waiter_pid (tsk k c) = 0 \<and> task_count_direct_children k sp < OS_TASK_CHILD_CAPACITY \<and>
      delegate_walk k cp OS_TASK_GLOBAL_CAPACITY (Some s) \<and> k' = delegated r c s rp cp sp k))"
  using assms
  by (auto simp: task_delegate_child_def Let_def delegated_def forget_child_def [abs_def] not_le
      split: option.splits if_splits)

lemma tframe_delegate [simp]: "tframe k (snd (task_delegate_child rp cp sp k))"
  using delegate_cases [of rp cp sp k "fst (task_delegate_child rp cp sp k)" "snd (task_delegate_child rp cp sp k)"]
    tframe_delegated by auto

lemma tframe_settings [simp]:
  "tframe k (snd (task_set_priority r p pr k))" "tframe k (snd (task_set_supervision_notify r e k))"
  "tframe k (snd (task_set_supervision_notify_filter r m k))" "tframe k (snd (task_set_supervision_priority r p k))"
  "tframe k (snd (task_set_supervision_notify_budget r m k))" "tframe k (snd (task_ack_supervision_delivery_stats r k))"
  by (simp_all add: task_set_priority_def task_set_supervision_notify_def task_set_supervision_notify_filter_def
      task_set_supervision_priority_def task_set_supervision_notify_budget_def task_ack_supervision_delivery_stats_def
      tframe_upd_same split: option.splits)

lemma tframe_set_name [simp]: "tframe k (snd (task_set_name r p nm k))"
  by (auto simp: task_set_name_def tcore_def task_ok_def exit_log_def event_log_def intro!: tframe_upd split: option.splits)

lemma tframe_watch [simp]: "tframe k (snd (task_update_supervision_watch r c e k))"
  by (auto simp: task_update_supervision_watch_def Let_def remove_watch_ok split: option.splits
      intro!: tframe_upd) (auto simp: tcore_def task_ok_def exit_log_def event_log_def)

subsection \<open>Killing\<close>

lemma wake_waiter_facts:
  assumes "kwf k" and "c \<in> set (queue_slots k)"
  shows "t_parent_pid (tsk (task_wake_waiter c k) i) = t_parent_pid (tsk k i)"
    "t_waiter_pid (tsk (task_wake_waiter c k) c) \<le> 0"
    "t_waiter_pid (tsk k c) > 0 \<Longrightarrow> get_task_by_id k (t_waiter_pid (tsk k c)) = Some w \<Longrightarrow>
      t_state (tsk k w) = TASK_WAITING \<Longrightarrow> t_state (tsk (task_wake_waiter c k) w) = TASK_READY"
  using kwf_sizes(1,8) [OF assms(1)] assms(2) get_task_by_id_pid(1) [OF assms(1)]
  by (auto simp: task_wake_waiter_def Let_def split: option.splits)

lemma reparent_fold:
  assumes "\<And>i. i \<in> set is \<Longrightarrow> i < length (k_pool k)" and "d < length (k_pool k)"
  defines "g \<equiv> \<lambda>i k. if i \<noteq> d \<and> t_parent_pid (tsk k i) = t_id (tsk k d)
                 then upd_task i (\<lambda>t. t\<lparr>t_parent_pid := t_parent_pid (tsk k d)\<rparr>) k else k"
  shows "tsk (fold g is k) j =
    (if j \<in> set is \<and> j \<noteq> d \<and> t_parent_pid (tsk k j) = t_id (tsk k d) \<and> t_parent_pid (tsk k d) \<noteq> t_id (tsk k d)
     then (tsk k j)\<lparr>t_parent_pid := t_parent_pid (tsk k d)\<rparr> else tsk k j)"
  using assms(1,2)
proof (induction "is" arbitrary: k)
  case (Cons i "is")
  have "length (k_pool (g i k)) = length (k_pool k)" "tsk (g i k) d = tsk k d"
    by (simp_all add: g_def)
  moreover have "tsk (g i k) j = (if j = i \<and> i \<noteq> d \<and> t_parent_pid (tsk k i) = t_id (tsk k d)
      then (tsk k i)\<lparr>t_parent_pid := t_parent_pid (tsk k d)\<rparr> else tsk k j)"
    using Cons.prems by (simp add: g_def)
  ultimately show ?case
    using Cons.IH [of "g i k"] Cons.prems by auto
qed simp

lemma reparent_tsk:
  assumes "kwf k" and "d \<in> set (queue_slots k)"
  shows "t_parent_pid (tsk (task_reparent_children d k) j) =
    (if j \<in> set (queue_slots k) \<and> j \<noteq> d \<and> t_parent_pid (tsk k j) = t_id (tsk k d)
     then t_parent_pid (tsk k d) else t_parent_pid (tsk k j))"
  using reparent_fold [of "queue_slots k" k d j] kwf_sizes(1,8) [OF assms(1)] assms(2)
  unfolding task_reparent_children_def by auto



lemma record_pw:
  assumes "i < length (k_pool k)"
  shows "t_parent_pid (tsk (task_record_supervision_event (Some i) a c r d k) j) = t_parent_pid (tsk k j)"
    "t_waiter_pid (tsk (task_record_supervision_event (Some i) a c r d k) j) = t_waiter_pid (tsk k j)"
proof -
  let ?k = "upd_task i (record_event_in (supervision_event_of k i a c r d)) k"
  have "t_parent_pid (record_event_in e t) = t_parent_pid t" "t_waiter_pid (record_event_in e t) = t_waiter_pid t" for e t
    by (simp_all add: record_event_in_def push_event_def split: prod.splits)
  then show "t_parent_pid (tsk (task_record_supervision_event (Some i) a c r d k) j) = t_parent_pid (tsk k j)"
    "t_waiter_pid (tsk (task_record_supervision_event (Some i) a c r d k) j) = t_waiter_pid (tsk k j)"
    using assms notify_self(3,4) [of i ?k]
    by (cases "j = i"; simp add: record_other; simp add: task_record_eq Let_def)+
qed

lemma exit_upd_pw [simp]:
  "t_parent_pid (note_child_exit r t) = t_parent_pid t" "t_waiter_pid (note_child_exit r t) = t_waiter_pid t"
  "t_waiter_pid (log_child_exit r t) = t_waiter_pid t"
  by (simp_all add: note_child_exit_def log_child_exit_def Let_def task_remove_supervision_watch_def push_exit_def
      split: option.splits prod.splits)

lemma message_queued_pw [simp]:
  "t_parent_pid (tsk (task_ipc_message_queued (Some i) k) j) = t_parent_pid (tsk k j)"
  "t_waiter_pid (tsk (task_ipc_message_queued (Some i) k) j) = t_waiter_pid (tsk k j)"
  by (cases "j = i"; simp add: message_queued_other message_queued_keeps)+

lemma report_exit_pw:
  assumes "kwf k"
  shows "t_parent_pid (tsk (task_report_parent_exit (Some c) code reason k) j) = t_parent_pid (tsk k j)"
    "t_waiter_pid (tsk (task_report_parent_exit (Some c) code reason k) j) = t_waiter_pid (tsk k j)"
proof -
  have "t_parent_pid (tsk (task_record_supervision_event (Some p) a b 0 reason
          (upd_task p (note_child_exit r) (k\<lparr>k_outcap := oc\<rparr>))) j) = t_parent_pid (tsk k j)"
    "t_waiter_pid (tsk (task_record_supervision_event (Some p) a b 0 reason
          (upd_task p (note_child_exit r) (k\<lparr>k_outcap := oc\<rparr>))) j) = t_waiter_pid (tsk k j)"
    if "get_task_by_id k q = Some p" for a b r oc p q j
    using get_task_by_id_pid(1) [OF assms that] kwf_sizes(1) [OF assms] by (simp_all add: record_pw)
  then show "t_parent_pid (tsk (task_report_parent_exit (Some c) code reason k) j) = t_parent_pid (tsk k j)"
    "t_waiter_pid (tsk (task_report_parent_exit (Some c) code reason k) j) = t_waiter_pid (tsk k j)"
    by (auto simp: report_exit_cases Let_def split: option.splits prod.splits if_splits)
qed

text \<open>Up to its last step, killing keeps the frame; then the task is disposed of.\<close>

definition kill_prepared :: "nat \<Rightarrow> kstate \<Rightarrow> kstate" where
  "kill_prepared c k = upd_task c (\<lambda>t. t\<lparr>t_state := TASK_TERMINATED\<rparr>)
     (task_reparent_children c (task_wake_waiter c
       (task_report_parent_exit (Some c) OS_TASK_EXIT_KILLED OS_TASK_EVENT_KILLED k)))"

lemma end_killed_eq: "end_killed_task c k = task_release_detached (Some c) (unlink_task c (kill_prepared c k))"
  by (simp add: end_killed_task_def kill_prepared_def Let_def)

lemma tframe_kill_prepared: "tframe k (kill_prepared c k)"
  unfolding kill_prepared_def
  by (rule tframe_trans [OF tframe_trans [OF tframe_trans [OF tframe_report_exit tframe_wake_waiter] tframe_reparent] tframe_set_state])
    simp_all

lemma end_killed_facts:
  assumes "kwf k" and "c \<in> set (queue_slots k)"
  shows "kwf (end_killed_task c k)" "queue_slots (end_killed_task c k) = remove1 c (queue_slots k)"
    "get_task_by_id (end_killed_task c k) = (get_task_by_id k)(t_id (tsk k c) := None)"
    "j \<in> set (remove1 c (queue_slots k)) \<Longrightarrow> t_id (tsk (end_killed_task c k) j) = t_id (tsk k j)"
    "j \<in> set (remove1 c (queue_slots k)) \<Longrightarrow> t_parent_pid (tsk (end_killed_task c k) j) =
      (if t_parent_pid (tsk k j) = t_id (tsk k c) then t_parent_pid (tsk k c) else t_parent_pid (tsk k j))"
proof -
  let ?p = "kill_prepared c k"
  note f = tframe_kill_prepared [of k c]
  have p: "kwf ?p" "c \<in> set (queue_slots ?p)" using tframe_kwf [OF f assms(1)] assms(2) by (simp_all add: tframeD(1) [OF f])
  show "kwf (end_killed_task c k)" "queue_slots (end_killed_task c k) = remove1 c (queue_slots k)"
    unfolding end_killed_eq using kwf_dispose(1,2) [OF p] by (simp_all add: tframeD(1) [OF f])
  show "get_task_by_id (end_killed_task c k) = (get_task_by_id k)(t_id (tsk k c) := None)"
    unfolding end_killed_eq using get_task_by_id_dispose [OF p] by (auto simp: fun_eq_iff tframeD(2,6) [OF f])
  assume j: "j \<in> set (remove1 c (queue_slots k))"
  then have jc: "j \<noteq> c" "j \<in> set (queue_slots k)" using kwf_sizes(7) [OF assms(1)] by auto
  note keep = links_only [OF kwf_dispose(3) [OF p jc(1)]]
  show "t_id (tsk (end_killed_task c k) j) = t_id (tsk k j)"
    unfolding end_killed_eq by (simp add: keep tframeD(6) [OF f])
  let ?w = "task_wake_waiter c (task_report_parent_exit (Some c) OS_TASK_EXIT_KILLED OS_TASK_EVENT_KILLED k)"
  have fr: "tframe k (task_report_parent_exit (Some c) OS_TASK_EXIT_KILLED OS_TASK_EVENT_KILLED k)" by simp
  have fw: "tframe k ?w" by (rule tframe_trans [OF fr tframe_wake_waiter])
  have w: "kwf ?w" "c \<in> set (queue_slots ?w)" using tframe_kwf [OF fw assms(1)] assms(2) by (simp_all add: tframeD(1) [OF fw])
  have "t_parent_pid (tsk ?w i) = t_parent_pid (tsk k i)" for i
    using wake_waiter_facts(1) [OF tframe_kwf [OF fr assms(1)]] assms(2) report_exit_pw(1) [OF assms(1)]
    by (simp add: tframeD(1) [OF fr])
  then have "t_parent_pid (tsk ?p j) =
      (if t_parent_pid (tsk k j) = t_id (tsk k c) then t_parent_pid (tsk k c) else t_parent_pid (tsk k j))"
    using reparent_tsk [OF w, of j] jc by (simp add: kill_prepared_def tframeD(1,6) [OF fw])
  then show "t_parent_pid (tsk (end_killed_task c k) j) =
      (if t_parent_pid (tsk k j) = t_id (tsk k c) then t_parent_pid (tsk k c) else t_parent_pid (tsk k j))"
    unfolding end_killed_eq by (simp add: keep)
qed


end
