(* ===== verification/Task_Tree.thy ===== *)
theory Task_Tree
  imports Task_Control
begin

text \<open>
  The supervision tree: who is the parent of whom. Killing and delegation are shown to do
  what they promise and to keep the tree free of cycles.
\<close>

subsection \<open>Killing\<close>

lemma kill_cases:
  assumes "task_kill r p k = (v, k')"
  shows "(v \<noteq> 0 \<and> k' = k) \<or>
    (v = 0 \<and> p \<noteq> 0 \<and> r \<noteq> p \<and> (\<exists>c. get_task_by_id k p = Some c \<and> k' = end_killed_task c k \<and>
      (r = t_parent_pid (tsk k c) \<or> t_boot_service (tsk k c) \<and> k_root_shell_pid k > 0 \<and> r = k_root_shell_pid k)))"
  using assms by (auto simp: task_kill_def split: option.splits if_splits)

text \<open>
  C1. \<open>task_kill\<close> succeeds exactly when the target is a live task other than the kernel and
  the requester, and the requester is its parent, or is the root shell and the target a boot
  service. A refused call changes nothing. A successful one keeps the invariant, removes
  exactly the target from the queue and from the lookups, and hands each of its children to
  its own parent.
\<close>

theorem task_kill_correct:
  assumes "kwf k"
  shows "case task_kill r p k of (v, k') \<Rightarrow>
    (v = 0 \<longleftrightarrow> p \<noteq> 0 \<and> r \<noteq> p \<and> (case get_task_by_id k p of
       None \<Rightarrow> False
     | Some c \<Rightarrow> r = t_parent_pid (tsk k c) \<or>
         (t_boot_service (tsk k c) \<and> k_root_shell_pid k > 0 \<and> r = k_root_shell_pid k))) \<and>
    (if v = 0 then
       kwf k' \<and> get_task_by_id k' = (get_task_by_id k)(p := None) \<and>
       queue_slots k' = remove1 (the (get_task_by_id k p)) (queue_slots k) \<and>
       (\<forall>j\<in>set (queue_slots k'). t_parent_pid (tsk k' j) =
          (if t_parent_pid (tsk k j) = p then t_parent_pid (tsk k (the (get_task_by_id k p)))
           else t_parent_pid (tsk k j)))
     else k' = k)"
proof -
  obtain v k' where run: "task_kill r p k = (v, k')" by fastforce
  show ?thesis
  proof (cases "v = 0")
    case False
    with run show ?thesis by (auto simp: task_kill_def split: option.splits if_splits)
  next
    case True
    with kill_cases [OF run] obtain c where v: "p \<noteq> 0" "r \<noteq> p" "get_task_by_id k p = Some c" "k' = end_killed_task c k"
      and who: "r = t_parent_pid (tsk k c) \<or> t_boot_service (tsk k c) \<and> k_root_shell_pid k > 0 \<and> r = k_root_shell_pid k"
      by auto
    note cq = get_task_by_id_SomeD [OF v(3)]
    show ?thesis
      using run True v who cq end_killed_facts [OF assms cq(1)] by simp
  qed
qed

theorem task_kill_correct_witness:
  "fst (task_kill 1 2 family_state) = 0 \<and> get_task_by_id (snd (task_kill 1 2 family_state)) 2 = None \<and>
   t_parent_pid (tsk (snd (task_kill 1 2 family_state)) 3) = 1"
  using task_kill_correct [OF family_facts(1), where r = 1 and p = 2] by (simp add: family_facts split: prod.splits)


lemma wake_waiter_other: "j \<noteq> c \<Longrightarrow> t_waiter_pid (tsk (task_wake_waiter c k) j) = t_waiter_pid (tsk k j)"
  by (simp add: task_wake_waiter_def Let_def split: option.splits)

lemma reparent_waiter:
  assumes "kwf k" and "d \<in> set (queue_slots k)"
  shows "t_waiter_pid (tsk (task_reparent_children d k) j) = t_waiter_pid (tsk k j)"
  using reparent_fold [of "queue_slots k" k d j] kwf_sizes(1,8) [OF assms(1)] assms(2)
  unfolding task_reparent_children_def by auto

lemma end_killed_waiter:
  assumes "kwf k" and "c \<in> set (queue_slots k)" and "j \<noteq> c"
  shows "t_waiter_pid (tsk (end_killed_task c k) j) = t_waiter_pid (tsk k j)"
proof -
  let ?r = "task_report_parent_exit (Some c) OS_TASK_EXIT_KILLED OS_TASK_EVENT_KILLED k"
  have f: "tframe k (task_wake_waiter c ?r)" by (rule tframe_trans [OF tframe_report_exit tframe_wake_waiter])
  have "t_waiter_pid (tsk (kill_prepared c k) j) = t_waiter_pid (tsk k j)"
    using assms(2,3) reparent_waiter [OF tframe_kwf [OF f assms(1)]] report_exit_pw(2) [OF assms(1)]
    by (simp add: kill_prepared_def wake_waiter_other tframeD(1) [OF f])
  moreover note p = tframe_kill_prepared [of k c]
  have "kwf (kill_prepared c k)" "c \<in> set (queue_slots (kill_prepared c k))"
    using tframe_kwf [OF p assms(1)] assms(2) by (simp_all add: tframeD(1) [OF p])
  ultimately show ?thesis
    unfolding end_killed_eq using links_only(9) [OF kwf_dispose(3) [OF _ _ assms(3)]] by metis
qed

text \<open>
  C37. When a task is killed while it waits for a child, the orphan keeps the dead task as its
  \<open>waiter_pid\<close>: its new parent is refused with \<open>OS_TASK_CONTROL_DENIED\<close> each time it waits for
  it, and with \<open>OS_TASK_BAD_STATE\<close> or an earlier refusal each time it delegates it.
\<close>

theorem killed_waiter_blocks_orphan:
  assumes "kwf k" and "get_task_by_id k p = Some i" and "get_task_by_id k c = Some j" and "c \<noteq> p"
    and "t_parent_pid (tsk k j) = p" and "t_waiter_pid (tsk k j) = p" and "0 < p"
    and "t_parent_pid (tsk k i) = g" and "g \<noteq> p" and "get_task_by_id k g = Some q"
    and "task_kill g p k = (v, k')"
  shows "v = 0 \<and> fst (task_wait_for_child g c k') = OS_TASK_CONTROL_DENIED \<and>
    fst (task_delegate_child g c s k') \<noteq> 0"
proof -
  have v: "v = 0" "k' = end_killed_task i k"
    using assms(2,7-9,11) by (auto simp: task_kill_def)
  note iq = get_task_by_id_SomeD [OF assms(2)] and jq = get_task_by_id_SomeD [OF assms(3)]
  note e = end_killed_facts [OF assms(1) iq(1)]
  have ij: "j \<noteq> i" using iq(2) jq(2) assms(4) by auto
  then have j: "j \<in> set (remove1 i (queue_slots k))" using jq(1) kwf_sizes(7) [OF assms(1)] by simp
  have look: "get_task_by_id k' c = Some j" "get_task_by_id k' g = Some q"
    using e(3) assms(3,4,9,10) iq(2) by (simp_all add: v(2))
  have par: "t_parent_pid (tsk k' j) = g" using e(5) [OF j] assms(5,8) iq(2) by (simp add: v(2))
  have wait: "t_waiter_pid (tsk k' j) = p"
    using end_killed_waiter [OF assms(1) iq(1) ij] assms(6) by (simp add: v(2))
  show ?thesis
    using v(1) look par wait assms(7,9)
    by (auto simp: task_wait_for_child_def task_delegate_child_def Let_def split: option.splits)
qed

theorem killed_waiter_blocks_orphan_witness:
  "\<exists>k. kwf k \<and> t_waiter_pid (tsk k 3) = 2 \<and> fst (task_kill 1 2 k) = 0 \<and>
    fst (task_wait_for_child 1 3 (snd (task_kill 1 2 k))) = OS_TASK_CONTROL_DENIED"
proof (intro exI conjI)
  let ?k = "upd_task 3 (\<lambda>t. t\<lparr>t_waiter_pid := 2\<rparr>) family_state"
  have f: "tframe family_state ?k" by (rule tframe_set_waiter)
  have len: "length (k_pool family_state) = 16" by (rule kwf_sizes(1) [OF family_facts(1)])
  show k: "kwf ?k" by (rule tframe_kwf [OF f family_facts(1)])
  show "t_waiter_pid (tsk ?k 3) = 2" using len by simp
  have "fst (task_kill 1 2 ?k) = 0 \<and>
      fst (task_wait_for_child 1 3 (snd (task_kill 1 2 ?k))) = OS_TASK_CONTROL_DENIED \<and>
      fst (task_delegate_child 1 3 1 (snd (task_kill 1 2 ?k))) \<noteq> 0"
    by (rule killed_waiter_blocks_orphan [OF k, where i = 2 and j = 3 and q = 1])
      (simp_all add: tframeD(2) [OF f] family_facts len)
  then show "fst (task_kill 1 2 ?k) = 0"
    "fst (task_wait_for_child 1 3 (snd (task_kill 1 2 ?k))) = OS_TASK_CONTROL_DENIED" by simp_all
qed

subsection \<open>The tree\<close>

definition parent_rel :: "kstate \<Rightarrow> (pid \<times> pid) set" where
  "parent_rel k = (\<lambda>i. (t_id (tsk k i), t_parent_pid (tsk k i))) ` set (queue_slots k)"

lemma parent_rel_iff:
  assumes "kwf k"
  shows "(x, y) \<in> parent_rel k \<longleftrightarrow> (\<exists>i. get_task_by_id k x = Some i \<and> t_parent_pid (tsk k i) = y)"
  using get_task_by_id_iff [OF kwf_globals(5) [OF assms]] by (auto simp: parent_rel_def)

text \<open>The ancestors of a task, itself included.\<close>

definition ancestor :: "kstate \<Rightarrow> pid \<Rightarrow> pid \<Rightarrow> bool" where
  "ancestor k a x \<longleftrightarrow> (x, a) \<in> (parent_rel k)\<^sup>*"

lemma ancestor_step:
  assumes "kwf k" and "get_task_by_id k x = Some i"
  shows "ancestor k a x \<longleftrightarrow> a = x \<or> ancestor k a (t_parent_pid (tsk k i))"
proof -
  have "(x, y) \<in> parent_rel k \<longleftrightarrow> y = t_parent_pid (tsk k i)" for y
    using assms by (auto simp: parent_rel_iff)
  then show ?thesis
    unfolding ancestor_def by (auto elim: converse_rtranclE intro: converse_rtrancl_into_rtrancl)
qed

lemma ancestor_dead:
  assumes "kwf k" and "get_task_by_id k x = None"
  shows "ancestor k a x \<longleftrightarrow> a = x"
proof -
  have "(x, y) \<notin> parent_rel k" for y using assms by (simp add: parent_rel_iff)
  then show ?thesis unfolding ancestor_def by (auto elim: converse_rtranclE)
qed

lemma delegate_walk_sound:
  assumes "kwf k" and "0 \<le> c" and "get_task_by_id k x = Some s" and "get_task_by_id k c \<noteq> None"
    and "delegate_walk k c n (Some s)"
  shows "\<not> ancestor k c x"
  using assms(3,5)
proof (induction n arbitrary: s x)
  case (Suc n)
  have x: "t_id (tsk k s) = x" using get_task_by_id_SomeD(2) [OF Suc.prems(1)] .
  have ne: "c \<noteq> x" using Suc.prems(2) x by auto
  show ?case
  proof (cases "t_parent_pid (tsk k s) < 0")
    case True
    then have "get_task_by_id k (t_parent_pid (tsk k s)) = None"
      using get_task_by_id_pid(2) [OF assms(1)] by (cases "get_task_by_id k (t_parent_pid (tsk k s))") force+
    with True ne assms(2) show ?thesis by (simp add: ancestor_step [OF assms(1) Suc.prems(1)] ancestor_dead [OF assms(1)])
  next
    case False
    show ?thesis
    proof (cases "get_task_by_id k (t_parent_pid (tsk k s))")
      case None
      then have "c \<noteq> t_parent_pid (tsk k s)" using assms(4) by auto
      with None ne show ?thesis by (simp add: ancestor_step [OF assms(1) Suc.prems(1)] ancestor_dead [OF assms(1)])
    next
      case (Some s')
      with False Suc.prems(2) x ne have "delegate_walk k c n (Some s')" by simp
      with Suc.IH [OF Some] ne show ?thesis by (simp add: ancestor_step [OF assms(1) Suc.prems(1)])
    qed
  qed
qed simp

lemma live_ids_card: "kwf k \<Longrightarrow> card (set (task_ids k)) \<le> OS_TASK_GLOBAL_CAPACITY"
proof -
  assume k: "kwf k"
  then have "length (task_ids k) \<le> 16"
    using slots_bound [of "queue_slots k" 16] kwf_sizes(7,8) [of k] by (simp add: task_ids_def)
  with card_length [of "task_ids k"] show ?thesis by linarith
qed

definition live_ancestors :: "kstate \<Rightarrow> pid \<Rightarrow> pid set" where
  "live_ancestors k x = {a \<in> set (task_ids k). ancestor k a x}"

lemma delegate_walk_complete:
  assumes "kwf k" and "acyclic (parent_rel k)" and "get_task_by_id k x = Some s" and "\<not> ancestor k c x"
    and "card (live_ancestors k x) \<le> n"
  shows "delegate_walk k c n (Some s)"
  using assms(3-5)
proof (induction n arbitrary: s x)
  case 0
  have "x \<in> live_ancestors k x"
    using 0(1) get_task_by_id_None [of k x] by (auto simp: live_ancestors_def ancestor_def)
  then show ?case using 0(3) by (auto simp: live_ancestors_def)
next
  case (Suc n)
  have x: "t_id (tsk k s) = x" using get_task_by_id_SomeD(2) [OF Suc.prems(1)] .
  have live: "x \<in> set (task_ids k)" using Suc.prems(1) get_task_by_id_None [of k x] by auto
  have ne: "c \<noteq> x" using Suc.prems(2) by (auto simp: ancestor_def)
  show ?case
  proof (cases "t_parent_pid (tsk k s) < 0 \<or> get_task_by_id k (t_parent_pid (tsk k s)) = None")
    case True
    with x ne show ?thesis by auto
  next
    case False
    then obtain s' where s': "get_task_by_id k (t_parent_pid (tsk k s)) = Some s'" by auto
    let ?p = "t_parent_pid (tsk k s)"
    have step: "(x, ?p) \<in> parent_rel k" using Suc.prems(1) by (auto simp: parent_rel_iff [OF assms(1)])
    have "x \<notin> live_ancestors k ?p"
    proof
      assume "x \<in> live_ancestors k ?p"
      with step have "(x, x) \<in> (parent_rel k)\<^sup>+" by (auto simp: live_ancestors_def ancestor_def)
      with assms(2) show False by (simp add: acyclic_def)
    qed
    moreover have "live_ancestors k x = insert x (live_ancestors k ?p)"
      using live by (auto simp: live_ancestors_def ancestor_step [OF assms(1) Suc.prems(1)])
    ultimately have "card (live_ancestors k ?p) \<le> n"
      using Suc.prems(3) by (auto simp: live_ancestors_def)
    with Suc.IH [OF s'] Suc.prems(2) x ne s' show ?thesis
      by (simp add: ancestor_step [OF assms(1) Suc.prems(1)])
  qed
qed

lemma delegate_walk_exact:
  assumes "kwf k" and "acyclic (parent_rel k)" and "get_task_by_id k x = Some s" and "get_task_by_id k c \<noteq> None"
  shows "delegate_walk k c OS_TASK_GLOBAL_CAPACITY (Some s) \<longleftrightarrow> \<not> ancestor k c x"
proof
  have "0 \<le> c" using assms(4) get_task_by_id_pid(2) [OF assms(1)] by auto
  then show "delegate_walk k c OS_TASK_GLOBAL_CAPACITY (Some s) \<Longrightarrow> \<not> ancestor k c x"
    using delegate_walk_sound [OF assms(1) _ assms(3,4)] by blast
  have "card (live_ancestors k x) \<le> card (set (task_ids k))"
    by (rule card_mono) (auto simp: live_ancestors_def)
  then show "\<not> ancestor k c x \<Longrightarrow> delegate_walk k c OS_TASK_GLOBAL_CAPACITY (Some s)"
    using delegate_walk_complete [OF assms(1-3)] live_ids_card [OF assms(1)] by auto
qed


lemma delegated_parent:
  assumes "kwf k" and "get_task_by_id k rp = Some r" and "get_task_by_id k cp = Some c" and "get_task_by_id k sp = Some s"
  shows "t_parent_pid (tsk (delegated r c s rp cp sp k) j) = (if j = c then sp else t_parent_pid (tsk k j))"
proof -
  have len: "r < length (k_pool k)" "c < length (k_pool k)" "s < length (k_pool k)"
    using assms get_task_by_id_pid(1) [OF assms(1)] kwf_sizes(1) [OF assms(1)] by auto
  then show ?thesis by (simp add: delegated_def record_pw)
qed

lemma parent_rel_delegated:
  assumes "kwf k" and "get_task_by_id k rp = Some r" and "get_task_by_id k cp = Some c" and "get_task_by_id k sp = Some s"
  shows "parent_rel (delegated r c s rp cp sp k) \<subseteq> insert (cp, sp) (parent_rel k)"
proof -
  note f = tframe_delegated [of k r c s rp cp sp]
  have "t_id (tsk k c) = cp" using get_task_by_id_SomeD(2) [OF assms(3)] .
  then show ?thesis
    by (auto simp: parent_rel_def tframeD(1,6) [OF f] delegated_parent [OF assms])
qed

lemma parent_rel_killed:
  assumes "kwf k" and "c \<in> set (queue_slots k)"
  shows "parent_rel (end_killed_task c k) \<subseteq> (parent_rel k)\<^sup>+"
proof
  fix e assume "e \<in> parent_rel (end_killed_task c k)"
  then obtain j where j: "j \<in> set (remove1 c (queue_slots k))"
    and e: "e = (t_id (tsk (end_killed_task c k) j), t_parent_pid (tsk (end_killed_task c k) j))"
    by (auto simp: parent_rel_def end_killed_facts(2) [OF assms])
  have jq: "j \<in> set (queue_slots k)" using j by (rule in_set_remove1D)
  have edges: "(t_id (tsk k j), t_parent_pid (tsk k j)) \<in> parent_rel k" "(t_id (tsk k c), t_parent_pid (tsk k c)) \<in> parent_rel k"
    using jq assms(2) by (auto simp: parent_rel_def)
  show "e \<in> (parent_rel k)\<^sup>+"
    using e edges end_killed_facts(4,5) [OF assms j] by (auto split: if_splits intro: trancl_into_trancl)
qed

text \<open>
  C15. The supervision tree never gets a cycle. In a well-formed state whose parent relation
  is acyclic, \<open>task_delegate_child\<close> and \<open>task_kill\<close> leave it acyclic. Moreover the walk by
  which the delegation looks for the child among the ancestors of the new supervisor is
  exact: bounded by \<open>OS_TASK_GLOBAL_CAPACITY\<close> steps, it lets through precisely the live
  supervisors that are not the child or one of its descendants.
\<close>

theorem supervision_tree_acyclic:
  assumes "kwf k" and "acyclic (parent_rel k)"
  shows "acyclic (parent_rel (snd (task_delegate_child rp cp sp k))) \<and>
    acyclic (parent_rel (snd (task_kill rp cp k))) \<and>
    (\<forall>s. get_task_by_id k sp = Some s \<and> get_task_by_id k cp \<noteq> None \<longrightarrow>
      (delegate_walk k cp OS_TASK_GLOBAL_CAPACITY (Some s) \<longleftrightarrow> \<not> ancestor k cp sp))"
proof (intro conjI allI impI)
  obtain v k' where run: "task_delegate_child rp cp sp k = (v, k')" by fastforce
  show "acyclic (parent_rel (snd (task_delegate_child rp cp sp k)))"
  proof (cases "v = 0")
    case True
    with delegate_cases [OF run] obtain r c s where d: "get_task_by_id k rp = Some r" "get_task_by_id k cp = Some c"
      "get_task_by_id k sp = Some s" "delegate_walk k cp OS_TASK_GLOBAL_CAPACITY (Some s)" "k' = delegated r c s rp cp sp k"
      by auto
    have "0 \<le> cp" using get_task_by_id_pid(2) [OF assms(1) d(2)] .
    then have "(sp, cp) \<notin> (parent_rel k)\<^sup>*"
      using delegate_walk_sound [OF assms(1) _ d(3) _ d(4)] d(2) by (simp add: ancestor_def)
    with assms(2) have "acyclic (insert (cp, sp) (parent_rel k))" by simp
    then have "acyclic (parent_rel k')"
      using parent_rel_delegated [OF assms(1) d(1-3)] acyclic_subset by (auto simp: d(5))
    with run show ?thesis by simp
  next
    case False
    with delegate_cases [OF run] run assms(2) show ?thesis by simp
  qed
  obtain w k2 where kill: "task_kill rp cp k = (w, k2)" by fastforce
  show "acyclic (parent_rel (snd (task_kill rp cp k)))"
  proof (cases "w = 0")
    case True
    with kill_cases [OF kill] obtain c where c: "get_task_by_id k cp = Some c" "k2 = end_killed_task c k" by auto
    have "acyclic ((parent_rel k)\<^sup>+)" using assms(2) by (simp add: acyclic_def)
    then show ?thesis
      using parent_rel_killed [OF assms(1) get_task_by_id_SomeD(1) [OF c(1)]] acyclic_subset kill by (auto simp: c(2))
  next
    case False
    with kill_cases [OF kill] kill assms(2) show ?thesis by simp
  qed
next
  fix s assume "get_task_by_id k sp = Some s \<and> get_task_by_id k cp \<noteq> None"
  then show "delegate_walk k cp OS_TASK_GLOBAL_CAPACITY (Some s) \<longleftrightarrow> \<not> ancestor k cp sp"
    using delegate_walk_exact [OF assms] by blast
qed

lemma family_idle: "t_parent_pid (tsk family_state 0) = - 1" "t_id (tsk family_state 0) = 0"
proof -
  have i: "first_idx Not (True # replicate 15 False) = Some 1" "first_idx Not (replicate 16 False) = Some 0"
    "first_idx Not ((True # replicate 15 False)[1 := True, 2 := True]) = Some 3"
    "first_idx Not ((replicate 16 False)[0 := True, 1 := True]) = Some 2"
    by (simp_all add: numeral_eq_Suc)
  have one: "(tsk one_task_state 0)\<lparr>t_next := None, t_prev := None\<rparr> = (tsk (tasking_init boot_state) 0)\<lparr>t_next := None, t_prev := None\<rparr>"
    unfolding one_task_state_def
    by (rule spawn_in_facts(17) [OF kwf_boot(1), of 1 0]) (simp_all add: kwf_boot boot_pools numeral_eq_Suc)
  have fam: "(tsk family_state 0)\<lparr>t_next := None, t_prev := None\<rparr> = (tsk two_task_state 0)\<lparr>t_next := None, t_prev := None\<rparr>"
    unfolding family_state_def
    by (rule spawn_in_facts(17) [OF two_task_facts(1,3), of 3 2]) (simp_all only: two_task_facts i, simp_all)
  have two: "(tsk two_task_state 0)\<lparr>t_next := None, t_prev := None\<rparr> = (tsk one_task_state 0)\<lparr>t_next := None, t_prev := None\<rparr>"
    by (rule two_task_facts(16)) simp
  have "t_parent_pid (tsk (tasking_init boot_state) 0) = - 1" by (simp add: tasking_init_eq boot_state_def kernel_task_def tsk_def init_bookkeeping_def)
  then show "t_parent_pid (tsk family_state 0) = - 1"
    by (simp add: links_only [OF one] links_only [OF two] links_only [OF fam])
  show "t_id (tsk family_state 0) = 0"
    using get_task_by_id_SomeD(2) [of family_state 0 0] by (simp add: family_facts)
qed

lemma family_acyclic: "acyclic (parent_rel family_state)"
proof -
  have "parent_rel family_state = {(0, - 1), (1, - 1), (2, 1), (3, 2)}"
    by (simp add: parent_rel_def family_facts family_idle del: One_nat_def)
  then show ?thesis by (simp only:) (rule acyclicI_order [where f = id], auto)
qed

lemma family_delegations:
  "fst (task_delegate_child 2 3 1 family_state) = 0" "fst (task_delegate_child 1 2 3 family_state) \<noteq> 0"
proof -
  have w: "delegate_walk family_state 3 OS_TASK_GLOBAL_CAPACITY (Some 1)" "\<not> delegate_walk family_state 2 OS_TASK_GLOBAL_CAPACITY (Some 3)"
    using delegate_walk.simps(3) [of family_state 3 15 1] delegate_walk.simps(3) [of family_state 2 15 3]
      delegate_walk.simps(3) [of family_state 2 14 2]
    by (simp_all add: family_facts del: One_nat_def delegate_walk.simps)
  show "fst (task_delegate_child 2 3 1 family_state) = 0" "fst (task_delegate_child 1 2 3 family_state) \<noteq> 0"
    using w by (simp_all add: task_delegate_child_def family_facts family_idle task_count_direct_children_def Let_def
        del: One_nat_def delegate_walk.simps)
qed

theorem supervision_tree_acyclic_witness:
  "fst (task_delegate_child 2 3 1 family_state) = 0 \<and> fst (task_delegate_child 1 2 3 family_state) \<noteq> 0 \<and>
   acyclic (parent_rel (snd (task_delegate_child 2 3 1 family_state))) \<and>
   acyclic (parent_rel (snd (task_kill 1 2 family_state)))"
proof (intro conjI)
  show "acyclic (parent_rel (snd (task_delegate_child 2 3 1 family_state)))"
    using supervision_tree_acyclic [OF family_facts(1) family_acyclic, where rp = 2 and cp = 3 and sp = 1] by (rule conjunct1)
  show "acyclic (parent_rel (snd (task_kill 1 2 family_state)))"
    using supervision_tree_acyclic [OF family_facts(1) family_acyclic, where rp = 1 and cp = 2 and sp = 2] by blast
qed (rule family_delegations)+

end
