(* ===== verification/Task_Report.thy ===== *)
theory Task_Report
  imports Task_Tree
begin

text \<open>
  What a task reads about itself, its children and the system (second half of
  \<open>kernel/task/task.c\<close>): the retained supervision events and exit results with their
  generations, the notification settings, the process list, metrics and capacity. An \<open>out\<close>
  pointer is an option: \<open>None\<close> is NULL, \<open>Some\<close> the content of the structure, returned as the
  call leaves it.
\<close>

subsection \<open>Structures returned to user space\<close>

record os_task_supervision_events =
  se_generation :: u32
  se_count :: nat
  se_entries :: "os_task_supervision_event list"

record os_task_supervision_events_observation =
  so_generation :: u32
  so_events :: os_task_supervision_events

record os_task_exit_history =
  eh_count :: nat
  eh_entries :: "os_task_exit_result list"

record os_task_exit_history_observation =
  eo_generation :: u32
  eo_history :: os_task_exit_history

record os_task_supervision_notify_status =
  ns_enabled :: u32
  ns_mask :: u32

record os_task_supervision_watch_status =
  ws_enabled :: u32
  ws_count :: nat
  ws_pids :: "pid list"

record os_task_supervision_delivery_stats =
  ds_attempted :: u32
  ds_delivered :: u32
  ds_dropped :: u32

record os_task_supervision_notify_budget_status =
  bs_limit :: u32
  bs_used :: u32

record os_task_supervision_summary =
  ss_generation :: u32
  ss_active_children :: nat
  ss_suspended_children :: nat
  ss_child_exit_count :: u32
  ss_retained_events :: nat

record os_proc =
  pr_pid :: pid
  pr_parent_pid :: pid
  pr_state :: int
  pr_type :: int
  pr_name :: cstring
  pr_sequence :: u32
  pr_generation :: u32
  pr_identity_key :: u32
  pr_identity_visible :: u32

record os_task_children =
  ch_count :: nat
  ch_entries :: "os_proc list"

record os_task_metrics =
  me_pid :: pid
  me_parent_pid :: pid
  me_state :: int
  me_type :: int
  me_priority :: u32
  me_created_ticks :: u32
  me_age_ticks :: u32
  me_run_ticks :: u32
  me_switch_count :: u32
  me_direct_children :: nat
  me_sequence :: u32
  me_generation :: u32
  me_identity_key :: u32
  me_identity_visible :: u32

record os_task_capacity =
  ca_active :: nat
  ca_capacity :: nat
  ca_available :: nat

text \<open>The loop \<open>for (i = 0; i < n; i++) array[i] = xs[i];\<close>\<close>

definition store_prefix :: "'a list \<Rightarrow> 'a list \<Rightarrow> 'a list" where
  "store_prefix xs array = xs @ drop (length xs) array"

definition zero_events :: os_task_supervision_events where
  "zero_events = \<lparr>se_generation = 0, se_count = 0,
     se_entries = replicate OS_TASK_SUPERVISION_EVENT_CAPACITY zero_supervision_event\<rparr>"

definition zero_history :: os_task_exit_history where
  "zero_history = \<lparr>eh_count = 0, eh_entries = replicate OS_TASK_EXIT_HISTORY_CAPACITY zero_exit_result\<rparr>"

definition zero_proc :: os_proc where
  "zero_proc = \<lparr>pr_pid = 0, pr_parent_pid = 0, pr_state = 0, pr_type = 0,
     pr_name = replicate OS_PROC_NAME_MAX NUL, pr_sequence = 0, pr_generation = 0,
     pr_identity_key = 0, pr_identity_visible = 0\<rparr>"

definition zero_metrics :: os_task_metrics where
  "zero_metrics = \<lparr>me_pid = 0, me_parent_pid = 0, me_state = 0, me_type = 0, me_priority = 0,
     me_created_ticks = 0, me_age_ticks = 0, me_run_ticks = 0, me_switch_count = 0,
     me_direct_children = 0, me_sequence = 0, me_generation = 0, me_identity_key = 0,
     me_identity_visible = 0\<rparr>"


subsection \<open>Supervision events\<close>

text \<open>The retained events, oldest first, as the index loops read them.\<close>

definition retained_events :: "task \<Rightarrow> os_task_supervision_event list" where
  "retained_events t = evict_view OS_TASK_SUPERVISION_EVENT_CAPACITY (event_log t)"

definition task_fill_supervision_events ::
    "kstate \<Rightarrow> pid \<Rightarrow> os_task_supervision_events option \<Rightarrow> rc \<times> os_task_supervision_events option" where
  "task_fill_supervision_events k p out =
     (case out of
        None \<Rightarrow> (OS_TASK_NOT_FOUND, None)
      | Some _ \<Rightarrow>
          (case get_task_by_id k p of
             None \<Rightarrow> (OS_TASK_NOT_FOUND, Some zero_events)
           | Some i \<Rightarrow>
               (0, Some (zero_events\<lparr>se_generation := t_supervision_event_generation (tsk k i),
                     se_count := t_supervision_event_count (tsk k i),
                     se_entries := store_prefix (retained_events (tsk k i)) (se_entries zero_events)\<rparr>))))"

definition task_ack_supervision_events :: "pid \<Rightarrow> kstate \<Rightarrow> rc \<times> kstate" where
  "task_ack_supervision_events p k =
     (case get_task_by_id k p of
        None \<Rightarrow> (OS_TASK_NOT_FOUND, k)
      | Some i \<Rightarrow>
          let k' = upd_task i (\<lambda>t. t\<lparr>t_supervision_event_start := 0, t_supervision_event_count := 0,
                t_supervision_event_generation := next_nonzero (t_supervision_event_generation t)\<rparr>) k
          in (sint (t_supervision_event_generation (tsk k' i)), k'))"

definition task_observe_supervision_events ::
    "kstate \<Rightarrow> pid \<Rightarrow> u32 \<Rightarrow> os_task_supervision_events_observation option \<Rightarrow>
     rc \<times> os_task_supervision_events_observation option" where
  "task_observe_supervision_events k p expected out =
     (case out of
        None \<Rightarrow> (OS_TASK_NOT_FOUND, None)
      | Some _ \<Rightarrow>
          (case get_task_by_id k p of
             None \<Rightarrow> (OS_TASK_NOT_FOUND, Some \<lparr>so_generation = 0, so_events = zero_events\<rparr>)
           | Some i \<Rightarrow>
               let g = t_supervision_event_generation (tsk k i)
               in if expected \<noteq> g then (OS_TASK_HISTORY_STALE, Some \<lparr>so_generation = g, so_events = zero_events\<rparr>)
                  else (case task_fill_supervision_events k p (Some zero_events) of
                      (r, ev) \<Rightarrow> (r, Some \<lparr>so_generation = g, so_events = the ev\<rparr>))))"

definition task_find_supervision_event ::
    "kstate \<Rightarrow> pid \<Rightarrow> u32 \<Rightarrow> os_task_supervision_event option \<Rightarrow> rc \<times> os_task_supervision_event option" where
  "task_find_supervision_event k p sequence out =
     (case out of
        None \<Rightarrow> (OS_TASK_NO_SUPERVISION_EVENT, None)
      | Some _ \<Rightarrow>
          if sequence = 0 then (OS_TASK_NO_SUPERVISION_EVENT, out)
          else (case get_task_by_id k p of
             None \<Rightarrow> (OS_TASK_NOT_FOUND, Some zero_supervision_event)
           | Some i \<Rightarrow>
               (case find (\<lambda>e. sv_sequence e = sequence) (retained_events (tsk k i)) of
                  Some e \<Rightarrow> (0, Some e)
                | None \<Rightarrow> (OS_TASK_NO_SUPERVISION_EVENT, Some zero_supervision_event))))"

definition task_forget_supervision_event :: "pid \<Rightarrow> u32 \<Rightarrow> kstate \<Rightarrow> rc \<times> kstate" where
  "task_forget_supervision_event p sequence k =
     (if sequence = 0 then (OS_TASK_NO_SUPERVISION_EVENT, k)
      else (case get_task_by_id k p of
         None \<Rightarrow> (OS_TASK_NOT_FOUND, k)
       | Some i \<Rightarrow>
           let evs = retained_events (tsk k i);
               retained = filter (\<lambda>e. sv_sequence e \<noteq> sequence) evs
           in if \<not> (\<exists>e \<in> set evs. sv_sequence e = sequence) then (OS_TASK_NO_SUPERVISION_EVENT, k)
              else (int (length retained),
                upd_task i (\<lambda>t. t\<lparr>t_supervision_event_start := 0, t_supervision_event_count := length retained,
                  t_supervision_events := store_prefix retained (t_supervision_events t),
                  t_supervision_event_generation := next_nonzero (t_supervision_event_generation t)\<rparr>) k)))"

definition task_replay_supervision_event :: "pid \<Rightarrow> u32 \<Rightarrow> kstate \<Rightarrow> rc \<times> kstate" where
  "task_replay_supervision_event p sequence k =
     (if sequence = 0 then (OS_TASK_NO_SUPERVISION_EVENT, k)
      else (case live_user k p of
         None \<Rightarrow> (OS_TASK_NOT_FOUND, k)
       | Some i \<Rightarrow>
           (case task_find_supervision_event k p sequence (Some zero_supervision_event) of
              (r, ev) \<Rightarrow>
                if r \<noteq> 0 then (r, k)
                else (case os_task_make_supervision_event (the ev) of
                   None \<Rightarrow> (OS_IPC_BAD_MESSAGE, k)
                 | Some payload \<Rightarrow>
                     let k1 = upd_task i (\<lambda>t. t\<lparr>t_supervision_delivery_attempted := t_supervision_delivery_attempted t + 1\<rparr>) k
                     in (case deliver_supervision i payload k1 of
                           (r, k2) \<Rightarrow>
                             if r = 0
                             then (0, upd_task i (\<lambda>t. t\<lparr>t_supervision_delivery_delivered := t_supervision_delivery_delivered t + 1\<rparr>)
                                     (task_ipc_message_queued (Some i) k2))
                             else (r, upd_task i (\<lambda>t. t\<lparr>t_supervision_delivery_dropped := t_supervision_delivery_dropped t + 1\<rparr>) k2))))))"

subsection \<open>Notification settings\<close>

definition task_fill_supervision_notify_status ::
    "kstate \<Rightarrow> pid \<Rightarrow> os_task_supervision_notify_status option \<Rightarrow> rc \<times> os_task_supervision_notify_status option" where
  "task_fill_supervision_notify_status k p out =
     (case (out, live_user k p) of
        (None, _) \<Rightarrow> (OS_TASK_NOT_FOUND, None)
      | (Some _, None) \<Rightarrow> (OS_TASK_NOT_FOUND, Some \<lparr>ns_enabled = 0, ns_mask = 0\<rparr>)
      | (Some _, Some i) \<Rightarrow> (0, Some \<lparr>ns_enabled = t_supervision_notify_enabled (tsk k i),
            ns_mask = t_supervision_notify_mask (tsk k i)\<rparr>))"

definition task_fill_supervision_watch_status ::
    "kstate \<Rightarrow> pid \<Rightarrow> os_task_supervision_watch_status option \<Rightarrow> rc \<times> os_task_supervision_watch_status option" where
  "task_fill_supervision_watch_status k p out =
     (case (out, live_user k p) of
        (None, _) \<Rightarrow> (OS_TASK_NOT_FOUND, None)
      | (Some _, None) \<Rightarrow>
          (OS_TASK_NOT_FOUND, Some \<lparr>ws_enabled = 0, ws_count = 0, ws_pids = replicate OS_TASK_SUPERVISION_WATCH_CAPACITY 0\<rparr>)
      | (Some _, Some i) \<Rightarrow>
          (0, Some \<lparr>ws_enabled = t_supervision_watch_enabled (tsk k i), ws_count = t_supervision_watch_count (tsk k i),
            ws_pids = store_prefix (take (t_supervision_watch_count (tsk k i)) (t_supervision_watch_pids (tsk k i)))
              (replicate OS_TASK_SUPERVISION_WATCH_CAPACITY 0)\<rparr>))"

definition task_fill_supervision_delivery_stats ::
    "kstate \<Rightarrow> pid \<Rightarrow> os_task_supervision_delivery_stats option \<Rightarrow> rc \<times> os_task_supervision_delivery_stats option" where
  "task_fill_supervision_delivery_stats k p out =
     (case (out, live_user k p) of
        (None, _) \<Rightarrow> (OS_TASK_NOT_FOUND, None)
      | (Some _, None) \<Rightarrow> (OS_TASK_NOT_FOUND, Some \<lparr>ds_attempted = 0, ds_delivered = 0, ds_dropped = 0\<rparr>)
      | (Some _, Some i) \<Rightarrow> (0, Some \<lparr>ds_attempted = t_supervision_delivery_attempted (tsk k i),
            ds_delivered = t_supervision_delivery_delivered (tsk k i),
            ds_dropped = t_supervision_delivery_dropped (tsk k i)\<rparr>))"

text \<open>These two write the structure only on success.\<close>

definition task_fill_supervision_priority_status :: "kstate \<Rightarrow> pid \<Rightarrow> pid option \<Rightarrow> rc \<times> pid option" where
  "task_fill_supervision_priority_status k p out =
     (case (out, live_user k p) of
        (None, _) \<Rightarrow> (OS_TASK_NOT_FOUND, None)
      | (Some _, None) \<Rightarrow> (OS_TASK_NOT_FOUND, out)
      | (Some _, Some i) \<Rightarrow> (0, Some (t_supervision_priority_child_pid (tsk k i))))"

definition task_fill_supervision_notify_budget_status ::
    "kstate \<Rightarrow> pid \<Rightarrow> os_task_supervision_notify_budget_status option \<Rightarrow> rc \<times> os_task_supervision_notify_budget_status option" where
  "task_fill_supervision_notify_budget_status k p out =
     (case (out, live_user k p) of
        (None, _) \<Rightarrow> (OS_TASK_NOT_FOUND, None)
      | (Some _, None) \<Rightarrow> (OS_TASK_NOT_FOUND, out)
      | (Some _, Some i) \<Rightarrow> (0, Some \<lparr>bs_limit = t_supervision_notify_budget_limit (tsk k i),
            bs_used = t_supervision_notify_budget_used (tsk k i)\<rparr>))"

definition task_fill_supervision_summary ::
    "kstate \<Rightarrow> pid \<Rightarrow> os_task_supervision_summary option \<Rightarrow> rc \<times> os_task_supervision_summary option" where
  "task_fill_supervision_summary k p out =
     (case out of
        None \<Rightarrow> (OS_TASK_NOT_FOUND, None)
      | Some _ \<Rightarrow>
          (case (get_task_by_id k p, k_queue k) of
             (Some i, Some _) \<Rightarrow>
               let active = filter (\<lambda>j. t_parent_pid (tsk k j) = p \<and> t_state (tsk k j) \<noteq> TASK_TERMINATED) (queue_slots k)
               in (0, Some \<lparr>ss_generation = t_supervision_event_generation (tsk k i), ss_active_children = length active,
                     ss_suspended_children = length (filter (\<lambda>j. t_state (tsk k j) = TASK_SUSPENDED) active),
                     ss_child_exit_count = t_direct_child_exit_count (tsk k i),
                     ss_retained_events = t_supervision_event_count (tsk k i)\<rparr>)
           | _ \<Rightarrow> (OS_TASK_NOT_FOUND, Some \<lparr>ss_generation = 0, ss_active_children = 0, ss_suspended_children = 0,
                     ss_child_exit_count = 0, ss_retained_events = 0\<rparr>)))"

definition task_get_child_exit_count :: "kstate \<Rightarrow> pid \<Rightarrow> u32 option \<Rightarrow> rc \<times> u32 option" where
  "task_get_child_exit_count k p out =
     (case (out, get_task_by_id k p) of
        (None, _) \<Rightarrow> (OS_TASK_NOT_FOUND, None)
      | (Some _, None) \<Rightarrow> (OS_TASK_NOT_FOUND, out)
      | (Some _, Some i) \<Rightarrow> (0, Some (t_direct_child_exit_count (tsk k i))))"


subsection \<open>The process list\<close>

definition map_task_state :: "task_state \<Rightarrow> int" where
  "map_task_state s =
     (case s of TASK_RUNNING \<Rightarrow> 0 | TASK_READY \<Rightarrow> 1 | TASK_SUSPENDED \<Rightarrow> 3 | TASK_TERMINATED \<Rightarrow> 4 | _ \<Rightarrow> 2)"

definition task_identity_visible_to :: "pid \<Rightarrow> pid \<Rightarrow> pid \<Rightarrow> bool" where
  "task_identity_visible_to viewer subject subject_parent =
     (if viewer < 0 \<or> subject < 0 then False
      else if viewer = subject then True
      else viewer > 0 \<and> subject_parent = viewer)"

definition task_identity_store :: "pid \<Rightarrow> task \<Rightarrow> u32 \<times> u32 \<times> u32 \<times> u32" where
  "task_identity_store viewer t =
     (if task_identity_visible_to viewer (t_id t) (t_parent_pid t)
      then (t_sequence t, t_generation t, t_identity_key t, 1) else (0, 0, 0, 0))"

text \<open>
  The bounded copy of a task name into \<open>old\<close>, terminated, with \<open>?\<close> for an empty name.
\<close>

definition proc_name :: "cstring \<Rightarrow> cstring \<Rightarrow> cstring" where
  "proc_name name old =
     (let src = take (OS_PROC_NAME_MAX - 1) (cstr name);
          copied = store_prefix (src @ [NUL]) old
      in if src = [] then store_prefix [CHR ''?'', NUL] copied else copied)"

definition proc_entry :: "pid \<Rightarrow> task \<Rightarrow> os_proc \<Rightarrow> os_proc" where
  "proc_entry viewer t old =
     (case task_identity_store viewer t of
        (sq, gn, ky, vs) \<Rightarrow>
          \<lparr>pr_pid = t_id t, pr_parent_pid = t_parent_pid t, pr_state = map_task_state (t_state t),
           pr_type = (if t_type t = TASK_TYPE_USER then 1 else 0), pr_name = proc_name (t_name t) (pr_name old),
           pr_sequence = sq, pr_generation = gn, pr_identity_key = ky, pr_identity_visible = vs\<rparr>)"

definition task_fill_direct_children :: "kstate \<Rightarrow> pid \<Rightarrow> os_task_children option \<Rightarrow> rc \<times> os_task_children option" where
  "task_fill_direct_children k p out =
     (let zero = replicate OS_TASK_CHILD_CAPACITY zero_proc
      in case out of
        None \<Rightarrow> (OS_TASK_NOT_FOUND, None)
      | Some _ \<Rightarrow>
          (case (get_task_by_id k p, k_queue k) of
             (Some _, Some _) \<Rightarrow>
               let es = map (\<lambda>i. proc_entry p (tsk k i) zero_proc)
                     (take OS_TASK_CHILD_CAPACITY (filter (\<lambda>i. t_parent_pid (tsk k i) = p) (queue_slots k)))
               in (0, Some \<lparr>ch_count = length es, ch_entries = store_prefix es zero\<rparr>)
           | _ \<Rightarrow> (OS_TASK_NOT_FOUND, Some \<lparr>ch_count = 0, ch_entries = zero\<rparr>)))"

definition viewer_pid :: "kstate \<Rightarrow> pid" where
  "viewer_pid k = (case k_current k of None \<Rightarrow> - 1 | Some i \<Rightarrow> t_id (tsk k i))"

text \<open>\<open>out\<close> is the caller's array of \<open>max_n\<close> entries.\<close>

definition task_fill_ps :: "kstate \<Rightarrow> os_proc list option \<Rightarrow> int \<Rightarrow> rc \<times> os_proc list option" where
  "task_fill_ps k out max_n =
     (case (out, k_queue k) of
        (Some array, Some _) \<Rightarrow>
          if max_n \<le> 0 then (0, out)
          else
            let slots = take (nat max_n) (queue_slots k)
            in (int (length slots),
                Some (store_prefix (map2 (\<lambda>i old. proc_entry (viewer_pid k) (tsk k i) old) slots array) array))
      | _ \<Rightarrow> (0, out))"

definition task_fill_metrics :: "kstate \<Rightarrow> pid \<Rightarrow> os_task_metrics option \<Rightarrow> rc \<times> os_task_metrics option" where
  "task_fill_metrics k p out =
     (case out of
        None \<Rightarrow> (OS_TASK_NOT_FOUND, None)
      | Some _ \<Rightarrow>
          (case get_task_by_id k p of
             None \<Rightarrow> (OS_TASK_NOT_FOUND, Some zero_metrics)
           | Some i \<Rightarrow>
               let t = tsk k i; now = k_ticks k;
                   run = (if k_current k = Some i \<and> t_state t = TASK_RUNNING \<and> now \<ge> t_last_scheduled_ticks t
                          then t_run_ticks t + (now - t_last_scheduled_ticks t) else t_run_ticks t)
               in (case task_identity_store (viewer_pid k) t of
                     (sq, gn, ky, vs) \<Rightarrow>
                       (0, Some \<lparr>me_pid = t_id t, me_parent_pid = t_parent_pid t, me_state = map_task_state (t_state t),
                          me_type = (if t_type t = TASK_TYPE_USER then 1 else 0), me_priority = t_priority t,
                          me_created_ticks = t_created_ticks t,
                          me_age_ticks = (if now \<ge> t_created_ticks t then now - t_created_ticks t else 0),
                          me_run_ticks = run, me_switch_count = t_switch_count t,
                          me_direct_children = task_count_direct_children k (t_id t), me_sequence = sq,
                          me_generation = gn, me_identity_key = ky, me_identity_visible = vs\<rparr>))))"

definition task_fill_capacity :: "kstate \<Rightarrow> os_task_capacity option \<Rightarrow> rc \<times> os_task_capacity option" where
  "task_fill_capacity k out =
     (case out of
        None \<Rightarrow> (OS_TASK_NOT_FOUND, None)
      | Some _ \<Rightarrow>
          let active = get_task_count k
          in (0, Some \<lparr>ca_active = active, ca_capacity = OS_TASK_GLOBAL_CAPACITY,
                ca_available = (if active < OS_TASK_GLOBAL_CAPACITY then OS_TASK_GLOBAL_CAPACITY - active else 0)\<rparr>))"

subsection \<open>Exit results\<close>

definition retained_exits :: "task \<Rightarrow> os_task_exit_result list" where
  "retained_exits t = evict_view OS_TASK_EXIT_HISTORY_CAPACITY (exit_log t)"

definition task_get_child_result :: "kstate \<Rightarrow> pid \<Rightarrow> pid \<Rightarrow> os_task_exit_result option \<Rightarrow> rc \<times> os_task_exit_result option" where
  "task_get_child_result k p child out =
     (case (out, get_task_by_id k p) of
        (None, _) \<Rightarrow> (OS_TASK_NO_CHILD_RESULT, None)
      | (Some _, None) \<Rightarrow> (OS_TASK_NOT_FOUND, out)
      | (Some _, Some i) \<Rightarrow>
          if t_last_child_pid (tsk k i) \<noteq> child then (OS_TASK_NO_CHILD_RESULT, out)
          else (0, Some \<lparr>xr_child_pid = t_last_child_pid (tsk k i), xr_exit_code = t_last_child_exit_code (tsk k i),
                  xr_reason = t_last_child_exit_reason (tsk k i),
                  xr_finished_ticks = t_last_child_finished_ticks (tsk k i)\<rparr>))"

definition task_fill_child_result_history :: "kstate \<Rightarrow> pid \<Rightarrow> os_task_exit_history option \<Rightarrow> rc \<times> os_task_exit_history option" where
  "task_fill_child_result_history k p out =
     (case (out, get_task_by_id k p) of
        (None, _) \<Rightarrow> (OS_TASK_NO_CHILD_RESULT, None)
      | (Some _, None) \<Rightarrow> (OS_TASK_NOT_FOUND, Some zero_history)
      | (Some _, Some i) \<Rightarrow>
          (0, Some (zero_history\<lparr>eh_count := t_child_exit_history_count (tsk k i),
                eh_entries := store_prefix (retained_exits (tsk k i)) (eh_entries zero_history)\<rparr>)))"

text \<open>The four fields that repeat the newest result.\<close>

definition set_last_child :: "pid \<Rightarrow> int \<Rightarrow> u32 \<Rightarrow> u32 \<Rightarrow> task \<Rightarrow> task" where
  "set_last_child p code reason ticks t = t\<lparr>t_last_child_pid := p, t_last_child_exit_code := code,
     t_last_child_exit_reason := reason, t_last_child_finished_ticks := ticks\<rparr>"

definition task_ack_child_result_history :: "pid \<Rightarrow> kstate \<Rightarrow> rc \<times> kstate" where
  "task_ack_child_result_history p k =
     (case get_task_by_id k p of
        None \<Rightarrow> (OS_TASK_NOT_FOUND, k)
      | Some i \<Rightarrow>
          let k' = upd_task i (\<lambda>t. (set_last_child (- 1) 0 0 0 t)\<lparr>t_child_exit_history_start := 0,
                t_child_exit_history_count := 0,
                t_child_exit_history_generation := next_nonzero (t_child_exit_history_generation t)\<rparr>) k
          in (sint (t_child_exit_history_generation (tsk k' i)), k'))"

definition task_observe_child_result_history ::
    "kstate \<Rightarrow> pid \<Rightarrow> u32 \<Rightarrow> os_task_exit_history_observation option \<Rightarrow> rc \<times> os_task_exit_history_observation option" where
  "task_observe_child_result_history k p expected out =
     (case (out, get_task_by_id k p) of
        (None, _) \<Rightarrow> (OS_TASK_NO_CHILD_RESULT, None)
      | (Some _, None) \<Rightarrow> (OS_TASK_NOT_FOUND, Some \<lparr>eo_generation = 0, eo_history = zero_history\<rparr>)
      | (Some _, Some i) \<Rightarrow>
          let g = t_child_exit_history_generation (tsk k i)
          in if expected \<noteq> g then (OS_TASK_HISTORY_STALE, Some \<lparr>eo_generation = g, eo_history = zero_history\<rparr>)
             else (case task_fill_child_result_history k p (Some zero_history) of
                 (r, h) \<Rightarrow> (r, Some \<lparr>eo_generation = g, eo_history = the h\<rparr>)))"

definition task_find_child_result_history ::
    "kstate \<Rightarrow> pid \<Rightarrow> pid \<Rightarrow> os_task_exit_result option \<Rightarrow> rc \<times> os_task_exit_result option" where
  "task_find_child_result_history k p child out =
     (case out of
        None \<Rightarrow> (OS_TASK_NO_CHILD_RESULT, None)
      | Some _ \<Rightarrow>
          if child < 0 then (OS_TASK_NO_CHILD_RESULT, out)
          else (case get_task_by_id k p of
             None \<Rightarrow> (OS_TASK_NOT_FOUND, Some zero_exit_result)
           | Some i \<Rightarrow>
               (case find (\<lambda>r. xr_child_pid r = child) (retained_exits (tsk k i)) of
                  Some r \<Rightarrow> (0, Some r)
                | None \<Rightarrow> (OS_TASK_NO_CHILD_RESULT, Some zero_exit_result))))"

text \<open>The loop that copies the entries, leaving out the first one of this child.\<close>

fun drop_first :: "('a \<Rightarrow> bool) \<Rightarrow> 'a list \<Rightarrow> 'a list" where
  "drop_first P [] = []"
| "drop_first P (x # xs) = (if P x then xs else x # drop_first P xs)"

definition task_forget_child_result_history :: "pid \<Rightarrow> pid \<Rightarrow> kstate \<Rightarrow> rc \<times> kstate" where
  "task_forget_child_result_history p child k =
     (if child < 0 then (OS_TASK_NO_CHILD_RESULT, k)
      else (case get_task_by_id k p of
         None \<Rightarrow> (OS_TASK_NOT_FOUND, k)
       | Some i \<Rightarrow>
           let rs = retained_exits (tsk k i);
               retained = drop_first (\<lambda>r. xr_child_pid r = child) rs
           in if \<not> (\<exists>r \<in> set rs. xr_child_pid r = child) then (OS_TASK_NO_CHILD_RESULT, k)
              else
                let k1 = upd_task i (\<lambda>t. t\<lparr>
                      t_child_exit_history := store_prefix retained (replicate OS_TASK_EXIT_HISTORY_CAPACITY zero_exit_result),
                      t_child_exit_history_start := 0, t_child_exit_history_count := length retained\<rparr>) k;
                    k2 = upd_task i (\<lambda>t.
                      if length retained > 0
                      then let l = t_child_exit_history t ! (length retained - 1)
                           in set_last_child (xr_child_pid l) (xr_exit_code l) (xr_reason l) (xr_finished_ticks l) t
                      else set_last_child (- 1) 0 0 0 t) k1;
                    k3 = upd_task i (\<lambda>t. t\<lparr>t_child_exit_history_generation :=
                      next_nonzero (t_child_exit_history_generation t)\<rparr>) k2
                in (sint (t_child_exit_history_generation (tsk k3 i)), k3)))"


subsection \<open>The logs as lists\<close>

lemma evict_view_store [simp]:
  "length xs \<le> n \<Longrightarrow> evict_view n (store_prefix xs arr, 0, length xs) = xs"
  by (auto simp: evict_view_def ring_view_def store_prefix_def intro!: nth_equalityI simp: nth_append)

lemma evict_view_empty [simp]: "evict_view n (buf, s, 0) = []"
  by (simp add: evict_view_def ring_view_def)

lemma evict_view_length [simp]: "length (evict_view n (buf, s, c)) = c"
  by (simp add: evict_view_def ring_view_def)

lemma length_store_prefix: "length xs \<le> length arr \<Longrightarrow> length (store_prefix xs arr) = length arr"
  by (simp add: store_prefix_def)

lemma drop_first_length: "length (drop_first P xs) \<le> length xs"
  by (induction xs) auto

lemma set_drop_first: "set (drop_first P xs) \<subseteq> set xs"
  by (induction xs) auto

lemma drop_first_append: "\<not> (\<exists>x \<in> set xs. P x) \<Longrightarrow> drop_first P (xs @ [y]) = (if P y then xs else xs @ [y])"
  by (induction xs) auto

text \<open>The last-result fields repeat the newest entry of the history.\<close>

definition last_child :: "task \<Rightarrow> os_task_exit_result" where
  "last_child t = \<lparr>xr_child_pid = t_last_child_pid t, xr_exit_code = t_last_child_exit_code t,
     xr_reason = t_last_child_exit_reason t, xr_finished_ticks = t_last_child_finished_ticks t\<rparr>"

definition no_result :: os_task_exit_result where
  "no_result = \<lparr>xr_child_pid = - 1, xr_exit_code = 0, xr_reason = 0, xr_finished_ticks = 0\<rparr>"

definition newest :: "os_task_exit_result list \<Rightarrow> os_task_exit_result" where
  "newest rs = (if rs = [] then no_result else last rs)"

definition last_ok :: "task \<Rightarrow> bool" where
  "last_ok t \<longleftrightarrow> last_child t = newest (retained_exits t)"

text \<open>The part of a task that concerns the exits of its children, which notifications leave alone.\<close>

definition exit_side :: "task \<Rightarrow> (os_task_exit_result list \<times> nat \<times> nat) \<times> os_task_exit_result \<times> u32" where
  "exit_side t = (exit_log t, last_child t, t_child_exit_history_generation t)"

lemma exit_side_upd [simp]:
  "exit_side (t\<lparr>t_state := v1\<rparr>) = exit_side t" "exit_side (t\<lparr>t_ipc_wait := v2\<rparr>) = exit_side t"
  "exit_side (t\<lparr>t_ipc_endpoint := v3\<rparr>) = exit_side t" "exit_side (t\<lparr>t_supervision_notify_budget_used := v4\<rparr>) = exit_side t"
  "exit_side (t\<lparr>t_supervision_delivery_attempted := v5\<rparr>) = exit_side t"
  "exit_side (t\<lparr>t_supervision_delivery_delivered := v6\<rparr>) = exit_side t"
  "exit_side (t\<lparr>t_supervision_delivery_dropped := v7\<rparr>) = exit_side t"
  "exit_side (t\<lparr>t_supervision_priority_child_pid := v8\<rparr>) = exit_side t"
  "exit_side (record_event_in e t) = exit_side t" "exit_side (task_remove_supervision_watch c t) = exit_side t"
  by (simp_all add: exit_side_def exit_log_def last_child_def record_event_in_def push_event_def
      task_remove_supervision_watch_def Let_def split: prod.splits option.splits)

lemma exit_side_queued [simp]: "exit_side (tsk (task_ipc_message_queued x k) j) = exit_side (tsk k j)"
  by (simp add: task_ipc_message_queued_def split: option.splits prod.splits)

lemma exit_side_deliver: "exit_side (tsk (snd (deliver_supervision i p k)) j) = exit_side (tsk k j)"
  by (simp add: deliver_supervision_def Let_def split: prod.splits)

lemma exit_side_notify [simp]: "exit_side (tsk (task_notify_supervision_event i e k) j) = exit_side (tsk k j)"
proof -
  have "exit_side (tsk k2 j) = exit_side (tsk k1 j)" if "deliver_supervision i p k1 = (r, k2)" for p r k1 k2
    using exit_side_deliver [of i p k1 j] that by simp
  from this [OF _] show ?thesis
    by (auto simp: task_notify_supervision_event_def Let_def split: option.splits prod.splits)
qed

lemma exit_side_record [simp]: "exit_side (tsk (task_record_supervision_event x a c r d k) j) = exit_side (tsk k j)"
  by (cases x) (simp_all add: task_record_eq Let_def, simp add: task_record_supervision_event_def)

lemma exit_side_report:
  fixes code reason
  assumes "kwf k" and "0 < t_parent_pid (tsk k c)" and "get_task_by_id k (t_parent_pid (tsk k c)) = Some i"
    and "t_type (tsk k i) = TASK_TYPE_USER" and "t_state (tsk k i) \<noteq> TASK_TERMINATED"
  defines "r \<equiv> \<lparr>xr_child_pid = t_id (tsk k c), xr_exit_code = code, xr_reason = reason, xr_finished_ticks = k_ticks k\<rparr>"
  shows "exit_side (tsk (task_report_parent_exit (Some c) code reason k) i) =
    (evict_push 4 r (exit_log (tsk k i)), r, next_nonzero (t_child_exit_history_generation (tsk k i)))"
proof -
  have len: "i < length (k_pool k)" using get_task_by_id_pid(1) [OF assms(1,3)] kwf_sizes(1) [OF assms(1)] by simp
  have log: "exit_side (log_child_exit q t) = (evict_push 4 q (exit_log t), last_child t, next_nonzero (t_child_exit_history_generation t))" for q t
    by (simp add: log_child_exit_def Let_def)
      (simp add: exit_side_def push_exit_def last_child_def exit_log_def split: prod.splits)
  have rec: "exit_log (tsk k' i) = exit_log (note_child_exit r (tsk k i)) \<and> last_child (tsk k' i) = last_child (note_child_exit r (tsk k i)) \<and>
      t_child_exit_history_generation (tsk k' i) = t_child_exit_history_generation (note_child_exit r (tsk k i))"
    if "k' = task_record_supervision_event (Some i) OS_TASK_SUPERVISION_EXIT (t_id (tsk k c)) 0 reason
              (upd_task i (note_child_exit r) (k\<lparr>k_outcap := oc\<rparr>))" for k' oc
    using exit_side_record [of "Some i" OS_TASK_SUPERVISION_EXIT "t_id (tsk k c)" 0 reason "upd_task i (note_child_exit r) (k\<lparr>k_outcap := oc\<rparr>)" i] len
    by (simp add: that exit_side_def)
  have note_r: "exit_log (note_child_exit r t) = exit_log t" "last_child (note_child_exit r t) = r"
    "t_child_exit_history_generation (note_child_exit r t) = t_child_exit_history_generation t" for t
    by (simp_all add: note_child_exit_def exit_log_def last_child_def)
  show ?thesis
    using assms(2-5) len rec [OF refl]
    by (simp add: report_exit_cases Let_def r_def [symmetric] log note_r split: option.split prod.split)
qed

lemma forget_result:
  assumes "kwf k" and "get_task_by_id k p = Some i" and "0 \<le> child"
    and "\<exists>r \<in> set (retained_exits (tsk k i)). xr_child_pid r = child"
  defines "keep \<equiv> drop_first (\<lambda>r. xr_child_pid r = child) (retained_exits (tsk k i))"
  defines "k' \<equiv> snd (task_forget_child_result_history p child k)"
  shows "retained_exits (tsk k' i) = keep" "last_child (tsk k' i) = newest keep"
    "t_child_exit_history_generation (tsk k' i) = next_nonzero (t_child_exit_history_generation (tsk k i))"
proof -
  have len: "i < length (k_pool k)" using get_task_by_id_pid(1) [OF assms(1,2)] kwf_sizes(1) [OF assms(1)] by simp
  have "evict_inv 4 (exit_log (tsk k i))"
    using task_ok_parts(4) [OF kwf_task(2) [OF assms(1) get_task_by_id_SomeD(1) [OF assms(2)]]] .
  then have n: "length keep \<le> 4"
    using drop_first_length [of "\<lambda>r. xr_child_pid r = child" "retained_exits (tsk k i)"] evict_view_bound
    by (fastforce simp: keep_def retained_exits_def)
  let ?t = "(tsk k i)\<lparr>t_child_exit_history := store_prefix keep (replicate 4 zero_exit_result),
    t_child_exit_history_start := 0, t_child_exit_history_count := length keep\<rparr>"
  let ?l = "store_prefix keep (replicate 4 zero_exit_result) ! (length keep - 1)"
  have run: "tsk k' i = (if length keep > 0
      then set_last_child (xr_child_pid ?l) (xr_exit_code ?l) (xr_reason ?l) (xr_finished_ticks ?l) ?t
      else set_last_child (- 1) 0 0 0 ?t)\<lparr>t_child_exit_history_generation := next_nonzero (t_child_exit_history_generation (tsk k i))\<rparr>"
    using assms(2-4) len by (simp add: k'_def task_forget_child_result_history_def Let_def keep_def set_last_child_def) blast
  have l: "keep \<noteq> [] \<Longrightarrow> ?l = last keep" by (simp add: store_prefix_def nth_append last_conv_nth)
  show "retained_exits (tsk k' i) = keep" "last_child (tsk k' i) = newest keep"
    "t_child_exit_history_generation (tsk k' i) = next_nonzero (t_child_exit_history_generation (tsk k i))"
    using n l unfolding run
    by (simp_all add: retained_exits_def exit_log_def set_last_child_def last_child_def newest_def no_result_def)
qed

lemma ack_result:
  assumes "kwf k" and "get_task_by_id k p = Some i"
  defines "k' \<equiv> snd (task_ack_child_result_history p k)"
  shows "retained_exits (tsk k' i) = []" "last_child (tsk k' i) = no_result"
    "t_child_exit_history_generation (tsk k' i) = next_nonzero (t_child_exit_history_generation (tsk k i))"
proof -
  have len: "i < length (k_pool k)" using get_task_by_id_pid(1) [OF assms(1,2)] kwf_sizes(1) [OF assms(1)] by simp
  then show "retained_exits (tsk k' i) = []" "last_child (tsk k' i) = no_result"
    "t_child_exit_history_generation (tsk k' i) = next_nonzero (t_child_exit_history_generation (tsk k i))"
    using assms(2) by (simp_all add: k'_def task_ack_child_result_history_def Let_def retained_exits_def exit_log_def
        set_last_child_def last_child_def no_result_def)
qed

text \<open>
  C16. When a child ends, the kernel reports its exit code to its live parent: the history the
  parent reads is the old one with the new result at the end (the oldest result leaves when
  there were four), the query for the last result and the search by PID both return it, the
  query answers for no other child, and a reader that expects the old generation is told that the history changed. Forgetting the
  result removes it alone. In all three cases the last-result fields repeat the newest entry
  that is left.
\<close>

theorem exit_history_correct:
  assumes "kwf k" and "0 < t_parent_pid (tsk k c)" and "get_task_by_id k (t_parent_pid (tsk k c)) = Some i"
    and "t_type (tsk k i) = TASK_TYPE_USER" and "t_state (tsk k i) \<noteq> TASK_TERMINATED"
    and "0 \<le> t_id (tsk k c)" and "\<forall>r \<in> set (retained_exits (tsk k i)). xr_child_pid r \<noteq> t_id (tsk k c)"
  shows "let p = t_parent_pid (tsk k c); child = t_id (tsk k c); old = retained_exits (tsk k i);
      r = \<lparr>xr_child_pid = child, xr_exit_code = code, xr_reason = reason, xr_finished_ticks = k_ticks k\<rparr>;
      kept = (if length old < OS_TASK_EXIT_HISTORY_CAPACITY then old else tl old);
      k' = task_report_parent_exit (Some c) code reason k;
      k2 = snd (task_forget_child_result_history p child k')
    in retained_exits (tsk k' i) = kept @ [r] \<and>
       task_get_child_result k' p q (Some z) = (if q = child then (0, Some r) else (OS_TASK_NO_CHILD_RESULT, Some z)) \<and>
       task_find_child_result_history k' p child (Some z) = (0, Some r) \<and>
       fst (task_observe_child_result_history k' p (t_child_exit_history_generation (tsk k i)) (Some zo)) = OS_TASK_HISTORY_STALE \<and>
       retained_exits (tsk k2 i) = kept \<and> last_child (tsk k2 i) = newest kept"
proof -
  define p where "p = t_parent_pid (tsk k c)"
  define child where "child = t_id (tsk k c)"
  define r where "r = \<lparr>xr_child_pid = child, xr_exit_code = code, xr_reason = reason, xr_finished_ticks = k_ticks k\<rparr>"
  define kept where "kept = (if length (retained_exits (tsk k i)) < 4 then retained_exits (tsk k i) else tl (retained_exits (tsk k i)))"
  define k' where "k' = task_report_parent_exit (Some c) code reason k"
  have side: "exit_side (tsk k' i) = (evict_push 4 r (exit_log (tsk k i)), r, next_nonzero (t_child_exit_history_generation (tsk k i)))"
    unfolding k'_def r_def child_def by (rule exit_side_report [OF assms(1-5)])
  then have gen: "t_child_exit_history_generation (tsk k' i) = next_nonzero (t_child_exit_history_generation (tsk k i))"
    and lc: "last_child (tsk k' i) = r" by (simp_all add: exit_side_def)
  have "evict_inv 4 (exit_log (tsk k i))"
    using task_ok_parts(4) [OF kwf_task(2) [OF assms(1) get_task_by_id_SomeD(1) [OF assms(3)]]] .
  then have now: "retained_exits (tsk k' i) = kept @ [r]"
    using side by (simp add: exit_side_def evict_push_view kept_def retained_exits_def)
  have f: "tframe k k'" unfolding k'_def by (rule tframe_report_exit)
  have g: "get_task_by_id k' p = Some i" using assms(3) by (simp add: tframeD(2) [OF f] p_def)
  have "set kept \<subseteq> set (retained_exits (tsk k i))"
    unfolding kept_def using list.set_sel(2) [of "retained_exits (tsk k i)"] by (cases "retained_exits (tsk k i)") auto
  then have fresh: "\<forall>x\<in>set kept. xr_child_pid x \<noteq> child" using assms(7) by (auto simp: child_def)
  then have "find (\<lambda>x. xr_child_pid x = child) kept = None" by (simp add: find_None_iff)
  then have hit: "find (\<lambda>x. xr_child_pid x = child) (kept @ [r]) = Some r"
    by (induction kept) (auto simp: r_def split: if_splits)
  have ex: "\<exists>x\<in>set (retained_exits (tsk k' i)). xr_child_pid x = child" by (simp add: now r_def)
  have drop: "drop_first (\<lambda>x. xr_child_pid x = child) (kept @ [r]) = kept"
    using fresh drop_first_append [of kept "\<lambda>x. xr_child_pid x = child" r] by (auto simp: r_def)
  note fo = forget_result [OF tframe_kwf [OF f assms(1)] g _ ex, unfolded now drop]
  have "t_last_child_pid (tsk k' i) = child" using lc by (simp add: last_child_def r_def)
  moreover have "last_child (tsk k' i) = r" by (rule lc)
  moreover have "0 \<le> child" using assms(6) by (simp add: child_def)
  ultimately have "task_get_child_result k' p q (Some z) = (if q = child then (0, Some r) else (OS_TASK_NO_CHILD_RESULT, Some z))"
    "task_find_child_result_history k' p child (Some z) = (0, Some r)"
    "fst (task_observe_child_result_history k' p (t_child_exit_history_generation (tsk k i)) (Some zo)) = OS_TASK_HISTORY_STALE"
    "retained_exits (tsk (snd (task_forget_child_result_history p child k')) i) = kept"
    "last_child (tsk (snd (task_forget_child_result_history p child k')) i) = newest kept"
    using g now hit gen fo
    by (simp_all add: task_get_child_result_def last_child_def task_find_child_result_history_def
        task_observe_child_result_history_def not_sym [OF next_nonzero_neq_self])
  then show ?thesis using now by (simp add: p_def child_def r_def kept_def k'_def Let_def)
qed

subsection \<open>Frames\<close>

lemma set_last_child_core [simp]: "tcore (set_last_child a b c d t) = tcore t" "task_ok (set_last_child a b c d t) = task_ok t"
  "t_state (set_last_child a b c d t) = t_state t"
  by (simp_all add: set_last_child_def)

lemma evict_inv_store [simp]:
  "length xs \<le> n \<Longrightarrow> length arr = n \<Longrightarrow> 0 < n \<Longrightarrow> evict_inv n (store_prefix xs arr, 0, length xs)"
  by (simp add: evict_inv_def store_prefix_def)

lemma retained_bounds:
  assumes "task_ok t"
  shows "length (retained_exits t) \<le> 4" "length (retained_events t) \<le> 4"
  using evict_view_bound [OF task_ok_parts(4) [OF assms]] evict_view_bound [OF task_ok_parts(5) [OF assms]]
  by (simp_all add: retained_exits_def retained_events_def)

lemma tframe_ack_history [simp]: "tframe k (snd (task_ack_child_result_history p k))"
  by (auto simp: task_ack_child_result_history_def Let_def task_ok_def exit_log_def event_log_def evict_inv_def tcore_def
      set_last_child_def intro!: tframe_upd split: option.splits)

lemma tframe_ack_events [simp]: "tframe k (snd (task_ack_supervision_events p k))"
  by (auto simp: task_ack_supervision_events_def Let_def task_ok_def exit_log_def event_log_def evict_inv_def tcore_def
      intro!: tframe_upd split: option.splits)

lemma tframe_forget_event [simp]: "tframe k (snd (task_forget_supervision_event p s k))"
proof -
  have "task_ok (t\<lparr>t_supervision_event_start := 0, t_supervision_event_count := length xs,
      t_supervision_events := store_prefix xs (t_supervision_events t), t_supervision_event_generation := g\<rparr>)"
    if "task_ok t" "length xs \<le> 4" for t xs g
    using that by (auto simp: task_ok_def exit_log_def event_log_def evict_inv_def length_store_prefix)
  moreover have "length (filter P (retained_events t)) \<le> 4" if "task_ok t" for P t
    using retained_bounds(2) [OF that] length_filter_le [of P "retained_events t"] by linarith
  ultimately show ?thesis
    by (auto simp: task_forget_supervision_event_def Let_def intro!: tframe_upd split: option.splits)
qed

lemma tframe_forget_history [simp]: "tframe k (snd (task_forget_child_result_history p c k))"
proof -
  have ok: "task_ok (t\<lparr>t_child_exit_history := store_prefix xs (replicate 4 zero_exit_result),
      t_child_exit_history_start := 0, t_child_exit_history_count := length xs\<rparr>)"
    if "task_ok t" "length xs \<le> 4" for t xs
    using that by (auto simp: task_ok_def exit_log_def event_log_def evict_inv_def length_store_prefix)
  have len: "length (drop_first P (retained_exits t)) \<le> 4" if "task_ok t" for P t
    using retained_bounds(1) [OF that] drop_first_length [of P "retained_exits t"] by linarith
  show ?thesis
    by (auto simp: task_forget_child_result_history_def Let_def ok len split: option.splits if_splits
        intro!: tframe_trans [OF tframe_trans [OF tframe_upd tframe_upd] tframe_upd])
qed

lemma tframe_replay [simp]: "tframe k (snd (task_replay_supervision_event p s k))"
proof -
  have "tframe k k2" if "deliver_supervision i pl (upd_task i (\<lambda>t. t\<lparr>t_supervision_delivery_attempted := a t\<rparr>) k) = (r, k2)" for i pl a r k2
    using that tframe_trans [OF tframe_upd tframe_deliver, of "\<lambda>t. t\<lparr>t_supervision_delivery_attempted := a t\<rparr>" k i i pl] by simp
  then show ?thesis
    by (auto simp: task_replay_supervision_event_def Let_def split: option.splits prod.splits
        intro: tframe_trans [OF _ tframe_stats(2)] tframe_trans [OF tframe_trans [OF _ tframe_message_queued] tframe_stats(1)])
qed

theorem exit_history_correct_witness:
  "let k = snd (task_ack_child_result_history 2 family_state);
       r = \<lparr>xr_child_pid = 3, xr_exit_code = 7, xr_reason = 1, xr_finished_ticks = k_ticks k\<rparr>;
       k' = task_report_parent_exit (Some 3) 7 1 k
   in retained_exits (tsk k' 2) = [r] \<and> task_get_child_result k' 2 3 (Some zero_exit_result) = (0, Some r)"
proof -
  define k where "k = snd (task_ack_child_result_history 2 family_state)"
  have f: "tframe family_state k" unfolding k_def by simp
  have len: "length (k_pool family_state) = 16" by (rule kwf_sizes(1) [OF family_facts(1)])
  have g: "get_task_by_id k 2 = Some 2" "get_task_by_id family_state 2 = Some 2"
    by (simp_all add: tframeD(2) [OF f] family_facts)
  have t: "t_parent_pid (tsk k 3) = 2" "t_id (tsk k 3) = 3" "t_state (tsk k 2) = TASK_READY" "t_type (tsk k 2) = TASK_TYPE_USER"
    by (simp_all add: k_def task_ack_child_result_history_def Let_def family_facts set_last_child_def)
  have none: "retained_exits (tsk k 2) = []"
    unfolding k_def by (rule ack_result(1) [OF family_facts(1) g(2)])
  have "let r = \<lparr>xr_child_pid = 3, xr_exit_code = 7, xr_reason = 1, xr_finished_ticks = k_ticks k\<rparr>;
       k' = task_report_parent_exit (Some 3) 7 1 k
   in retained_exits (tsk k' 2) = [r] \<and> task_get_child_result k' 2 3 (Some zero_exit_result) = (0, Some r)"
    using exit_history_correct [of k 3 2 7 1 3 zero_exit_result "\<lparr>eo_generation = 0, eo_history = zero_history\<rparr>"] tframe_kwf [OF f family_facts(1)] g t none
    by (simp add: Let_def)
  then show ?thesis by (simp add: Let_def k_def)
qed

subsection \<open>Who sees an identity\<close>

definition with_identity :: "u32 \<Rightarrow> u32 \<Rightarrow> u32 \<Rightarrow> task \<Rightarrow> task" where
  "with_identity sq gn ky t = t\<lparr>t_sequence := sq, t_generation := gn, t_identity_key := ky\<rparr>"

lemma with_identity_upd [simp]:
  "t_id (with_identity a b c t) = t_id t" "t_parent_pid (with_identity a b c t) = t_parent_pid t"
  "t_state (with_identity a b c t) = t_state t" "t_type (with_identity a b c t) = t_type t"
  "t_name (with_identity a b c t) = t_name t" "t_next (with_identity a b c t) = t_next t"
  "t_priority (with_identity a b c t) = t_priority t" "t_created_ticks (with_identity a b c t) = t_created_ticks t"
  "t_run_ticks (with_identity a b c t) = t_run_ticks t" "t_last_scheduled_ticks (with_identity a b c t) = t_last_scheduled_ticks t"
  "t_switch_count (with_identity a b c t) = t_switch_count t"
  by (simp_all add: with_identity_def)

lemma identity_store_hidden:
  "\<not> task_identity_visible_to v (t_id t) (t_parent_pid t) \<Longrightarrow>
    task_identity_store v (with_identity a b c t) = task_identity_store v t"
  by (simp add: task_identity_store_def)

lemma proc_entry_hidden:
  "\<not> task_identity_visible_to v (t_id t) (t_parent_pid t) \<Longrightarrow> proc_entry v (with_identity a b c t) = proc_entry v t"
  by (simp add: proc_entry_def identity_store_hidden fun_eq_iff)

lemma viewer_pid_identity [simp]: "viewer_pid (upd_task i (with_identity a b c) k) = viewer_pid k"
  by (simp add: viewer_pid_def split: option.split)

lemma fill_ps_hidden:
  assumes "\<not> task_identity_visible_to (viewer_pid k) (t_id (tsk k i)) (t_parent_pid (tsk k i))"
  shows "task_fill_ps (upd_task i (with_identity a b c) k) out n = task_fill_ps k out n"
proof -
  let ?k = "upd_task i (with_identity a b c) k"
  have e: "proc_entry (viewer_pid k) (tsk ?k j) = proc_entry (viewer_pid k) (tsk k j)" for j
    using proc_entry_hidden [OF assms] by simp
  have q: "queue_slots ?k = queue_slots k" "k_queue ?k = k_queue k" "viewer_pid ?k = viewer_pid k" by simp_all
  show ?thesis unfolding task_fill_ps_def q e ..
qed

lemma fill_metrics_hidden:
  assumes "\<not> task_identity_visible_to (viewer_pid k) (t_id (tsk k i)) (t_parent_pid (tsk k i))"
  shows "task_fill_metrics (upd_task i (with_identity a b c) k) p out = task_fill_metrics k p out"
proof -
  let ?k = "upd_task i (with_identity a b c) k"
  have e: "t_parent_pid (tsk ?k j) = t_parent_pid (tsk k j)" and q: "queue_slots ?k = queue_slots k" for j by simp_all
  have "task_count_direct_children ?k p = task_count_direct_children k p" for p
    unfolding task_count_direct_children_def e q ..
  then show ?thesis
    using identity_store_hidden [OF assms] by (simp add: task_fill_metrics_def Let_def split: option.split)
qed

lemma fill_children_hidden:
  assumes "\<not> task_identity_visible_to r (t_id (tsk k i)) (t_parent_pid (tsk k i))"
  shows "task_fill_direct_children (upd_task i (with_identity a b c) k) r out = task_fill_direct_children k r out"
proof -
  let ?k = "upd_task i (with_identity a b c) k"
  have e: "proc_entry r (tsk ?k j) = proc_entry r (tsk k j)" "t_parent_pid (tsk ?k j) = t_parent_pid (tsk k j)" for j
    using proc_entry_hidden [OF assms] by simp_all
  have q: "get_task_by_id ?k r = get_task_by_id k r" "queue_slots ?k = queue_slots k" "k_queue ?k = k_queue k" by simp_all
  show ?thesis unfolding task_fill_direct_children_def e q ..
qed



end
