(* ===== verification/Scheduler.thy ===== *)
theory Scheduler
  imports Task_Create Supervision
begin

text \<open>
  The choice of the next task in \<open>schedule\<close> (\<open>task.c\<close>) and the preemption decision of the timer
  (\<open>sched_quantum.h\<close>, \<open>timer.c\<close>). The scan of the run queue goes once round the ring, from the
  task after \<open>start\<close> to \<open>start\<close> itself; its bound is the size of the pool, which the invariant
  makes sufficient. What \<open>schedule\<close> does besides choosing (the hook, the port switches, the jump)
  is in the theory of dispatching.
\<close>

abbreviation (input) TIMER_PREEMPT_QUANTUM :: u32 where "TIMER_PREEMPT_QUANTUM \<equiv> 20"

definition sched_quantum_preempt_due :: "bool \<Rightarrow> bool \<Rightarrow> bool \<Rightarrow> u32 \<Rightarrow> u32 \<Rightarrow> bool" where
  "sched_quantum_preempt_due user_frame current_is_user other_ready_user now scheduled_at =
     (if \<not> user_frame \<or> \<not> current_is_user \<or> \<not> other_ready_user then False
      else now - scheduled_at \<ge> TIMER_PREEMPT_QUANTUM)"

definition timer_user_frame :: "cpu_state option \<Rightarrow> bool" where
  "timer_user_frame cpu = (case cpu of None \<Rightarrow> False | Some c \<Rightarrow> r_cs c AND 3 = 3 \<and> r_ss c AND 3 = 3)"

definition task_sched_allowed :: "kstate \<Rightarrow> nat \<Rightarrow> bool" where
  "task_sched_allowed k t \<longleftrightarrow> k_gets_waiter k = None \<or> Some t = k_gets_waiter k \<or> t_boot_service (tsk k t)"

subsection \<open>The scan\<close>

fun scan_walk :: "nat \<Rightarrow> (nat \<Rightarrow> nat option) \<Rightarrow> nat \<Rightarrow> nat \<Rightarrow> nat list" where
  "scan_walk 0 nxt start t = []"
| "scan_walk (Suc n) nxt start t =
     (case nxt t of None \<Rightarrow> [] | Some u \<Rightarrow> u # (if u = start then [] else scan_walk n nxt start u))"

definition scan_slots :: "kstate \<Rightarrow> nat \<Rightarrow> nat list" where
  "scan_slots k start = scan_walk OS_TASK_GLOBAL_CAPACITY (nx k) start start"

definition sched_candidate :: "kstate \<Rightarrow> nat \<Rightarrow> bool" where
  "sched_candidate k t \<longleftrightarrow> t_state (tsk k t) = TASK_READY \<and> t_type (tsk k t) = TASK_TYPE_USER \<and> task_sched_allowed k t"

text \<open>
  The accumulator is \<open>next_task\<close> with \<open>best_priority\<close>, or \<open>None\<close> while \<open>found_user\<close> is 0.
\<close>

definition scan_step :: "kstate \<Rightarrow> nat \<Rightarrow> (nat \<times> u32) option \<Rightarrow> (nat \<times> u32) option" where
  "scan_step k t acc =
     (if sched_candidate k t \<and> (case acc of None \<Rightarrow> True | Some (_, best) \<Rightarrow> t_priority (tsk k t) > best)
      then Some (t, t_priority (tsk k t)) else acc)"

definition sched_scan :: "kstate \<Rightarrow> nat \<Rightarrow> nat" where
  "sched_scan k start =
     (case scan_step k start (fold (scan_step k) (scan_slots k start) None) of
        Some (t, _) \<Rightarrow> t
      | None \<Rightarrow> (case find (\<lambda>t. t_state (tsk k t) = TASK_READY) (scan_slots k start) of Some t \<Rightarrow> t | None \<Rightarrow> start))"

definition sched_start :: "kstate \<Rightarrow> nat \<Rightarrow> nat" where
  "sched_start k cur =
     (case k_rr_anchor k of
        Some a \<Rightarrow> if t_priority (tsk k cur) \<ge> OS_TASK_PRIORITY_HIGH then a else cur
      | None \<Rightarrow> cur)"

text \<open>
  A HIGH driver gives the CPU back to the task that handed it over, within its quantum: the slot
  to resume.
\<close>

definition resume_anchor :: "kstate \<Rightarrow> u32 \<Rightarrow> nat \<Rightarrow> nat \<Rightarrow> nat option" where
  "resume_anchor k now cur next_task =
     (case k_rr_anchor k of
        None \<Rightarrow> None
      | Some a \<Rightarrow>
          if t_priority (tsk k cur) \<ge> OS_TASK_PRIORITY_HIGH \<and> t_priority (tsk k next_task) < OS_TASK_PRIORITY_HIGH \<and>
             k_resume_after_high k = Some a \<and> a \<noteq> next_task \<and> t_state (tsk k a) = TASK_READY \<and>
             t_type (tsk k a) = TASK_TYPE_USER \<and> task_sched_allowed k a \<and>
             now - t_last_scheduled_ticks (tsk k a) < TIMER_PREEMPT_QUANTUM
          then Some a else None)"

text \<open>The slot to run, and whether it goes on with the quantum it had.\<close>

definition sched_pick :: "kstate \<Rightarrow> u32 \<Rightarrow> nat \<Rightarrow> nat \<times> bool" where
  "sched_pick k now cur =
     (let next_task = sched_scan k (sched_start k cur);
          r = (case resume_anchor k now cur next_task of None \<Rightarrow> (next_task, False) | Some a \<Rightarrow> (a, True))
      in (case k_sched_only k of
            Some only \<Rightarrow> if t_state (tsk k only) = TASK_READY then (only, False) else r
          | None \<Rightarrow> r))"

text \<open>
  The outgoing task: its run time and frame are saved, or it is unlinked when it has ended
  (\<open>None\<close>: the queue is empty and the processor halts). Then a running task becomes ready.
\<close>

definition sched_leave :: "cpu_state \<Rightarrow> nat \<Rightarrow> kstate \<Rightarrow> kstate option" where
  "sched_leave cpu cur k =
     (let now = k_ticks k;
          k1 = (if t_state (tsk k cur) \<noteq> TASK_TERMINATED
            then upd_task cur (\<lambda>t. t\<lparr>t_run_ticks := (if now \<ge> t_last_scheduled_ticks t
                   then t_run_ticks t + (now - t_last_scheduled_ticks t) else t_run_ticks t), t_cpu_state := cpu\<rparr>) k
            else (unlink_task cur k)\<lparr>k_deferred_reap := Some cur\<rparr>)
      in if t_state (tsk k cur) = TASK_TERMINATED \<and> k_queue k1 = None then None
         else case k_current k1 of
             None \<Rightarrow> None
           | Some c \<Rightarrow> Some (if t_state (tsk k1 c) = TASK_RUNNING then upd_task c (\<lambda>t. t\<lparr>t_state := TASK_READY\<rparr>) k1 else k1))"

text \<open>The incoming task.\<close>

definition sched_enter :: "kstate \<Rightarrow> kstate" where
  "sched_enter k =
     (case k_current k of
        None \<Rightarrow> k
      | Some cur \<Rightarrow>
          (case sched_pick k (k_ticks k) cur of
             (n, resumed) \<Rightarrow>
               let k1 = k\<lparr>k_current := Some n\<rparr>;
                   k2 = (if t_type (tsk k1 n) = TASK_TYPE_USER \<and> t_priority (tsk k1 n) < OS_TASK_PRIORITY_HIGH
                     then k1\<lparr>k_rr_anchor := Some n, k_resume_after_high := None\<rparr> else k1)
               in upd_task n (\<lambda>t. t\<lparr>t_state := TASK_RUNNING,
                     t_last_scheduled_ticks := (if resumed then t_last_scheduled_ticks t else k_ticks k),
                     t_switch_count := t_switch_count t + 1\<rparr>) k2))"

definition task_yield_to_driver_mark :: "kstate \<Rightarrow> kstate" where
  "task_yield_to_driver_mark k = k\<lparr>k_resume_after_high := k_current k\<rparr>"

subsection \<open>The scan visits the ring\<close>

lemma scan_walk_segs:
  assumes "segs nxt prv (t # xs)" and "start \<notin> set xs" and "nxt (last (t # xs)) = Some start" and "length xs < n"
  shows "scan_walk n nxt start t = xs @ [start]"
  using assms
proof (induction xs arbitrary: t n)
  case Nil
  then show ?case by (cases n) auto
next
  case (Cons x xs)
  then show ?case by (cases n) auto
qed

lemma scan_slots_ring:
  assumes "kwf k" and "queue_slots k = xs @ start # ys"
  shows "scan_slots k start = ys @ xs @ [start]"
proof -
  have ring: "linked_ring (nx k) (pv k) (queue_slots k)" and d: "distinct (queue_slots k)"
    using kwf_sizes(6,7) [OF assms(1)] by (auto simp: ring_rep_def)
  then have r: "linked_ring (nx k) (pv k) (start # ys @ xs)"
    using linked_ring_rotate [of "nx k" "pv k" xs "start # ys"] assms(2) by simp
  have "length (queue_slots k) \<le> 16"
    using slots_bound [OF d] kwf_sizes(8) [OF assms(1)] by blast
  then have "scan_walk 16 (nx k) start start = (ys @ xs) @ [start]"
    using r d assms(2) by (intro scan_walk_segs [where prv = "pv k"]) (auto simp: linked_ring_def)
  then show ?thesis by (simp add: scan_slots_def)
qed

lemma scan_slots_set:
  assumes "kwf k" and "start \<in> set (queue_slots k)"
  shows "set (scan_slots k start) = set (queue_slots k)" "distinct (scan_slots k start)"
proof -
  obtain xs ys where q: "queue_slots k = xs @ start # ys" using assms(2) by (meson split_list)
  then show "set (scan_slots k start) = set (queue_slots k)" "distinct (scan_slots k start)"
    using scan_slots_ring [OF assms(1) q] kwf_sizes(7) [OF assms(1)] by auto
qed

subsection \<open>The choice\<close>

text \<open>
  The reference: in the order of the ring after \<open>start\<close>, the first candidate that no candidate
  exceeds in priority.
\<close>

definition best_candidate :: "kstate \<Rightarrow> nat list \<Rightarrow> nat option" where
  "best_candidate k ts = find (\<lambda>t. sched_candidate k t \<and>
     (\<forall>u\<in>set ts. sched_candidate k u \<longrightarrow> t_priority (tsk k u) \<le> t_priority (tsk k t))) ts"

lemma best_candidate_SomeD:
  assumes "best_candidate k ts = Some t"
  shows "t \<in> set ts" "sched_candidate k t" "u \<in> set ts \<Longrightarrow> sched_candidate k u \<Longrightarrow> t_priority (tsk k u) \<le> t_priority (tsk k t)"
  using find_SomeD [OF assms [unfolded best_candidate_def]] by auto

lemma best_candidate_None: "best_candidate k ts = None \<longleftrightarrow> (\<forall>t\<in>set ts. \<not> sched_candidate k t)"
proof
  assume none: "best_candidate k ts = None"
  show "\<forall>t\<in>set ts. \<not> sched_candidate k t"
  proof (rule ccontr)
    let ?P = "(\<lambda>t. t_priority (tsk k t)) ` {t \<in> set ts. sched_candidate k t}"
    assume "\<not> (\<forall>t\<in>set ts. \<not> sched_candidate k t)"
    then have "?P \<noteq> {}" "finite ?P" by auto
    then have "Max ?P \<in> ?P" by (rule Max_in [rotated])
    then obtain t where t: "t \<in> set ts" "sched_candidate k t" "t_priority (tsk k t) = Max ?P" by auto
    have "t_priority (tsk k u) \<le> t_priority (tsk k t)" if "u \<in> set ts" "sched_candidate k u" for u
      unfolding t(3) using that by (intro Max_ge) auto
    with none t show False by (auto simp: best_candidate_def find_None_iff)
  qed
qed (auto simp: best_candidate_def find_None_iff)

lemma best_candidate_snoc:
  "best_candidate k (ts @ [t]) =
     (case best_candidate k ts of
        None \<Rightarrow> if sched_candidate k t then Some t else None
      | Some b \<Rightarrow> if sched_candidate k t \<and> t_priority (tsk k t) > t_priority (tsk k b) then Some t else Some b)"
proof -
  let ?P = "\<lambda>xs x. sched_candidate k x \<and> (\<forall>u\<in>set xs. sched_candidate k u \<longrightarrow> t_priority (tsk k u) \<le> t_priority (tsk k x))"
  have app: "best_candidate k (ts @ [t]) = (case find (?P (ts @ [t])) ts of None \<Rightarrow> if ?P (ts @ [t]) t then Some t else None | Some x \<Rightarrow> Some x)"
    unfolding best_candidate_def find_append find.simps by (rule refl)
  consider (no) "\<not> sched_candidate k t"
    | (top) "sched_candidate k t" "\<forall>u\<in>set ts. sched_candidate k u \<longrightarrow> t_priority (tsk k u) < t_priority (tsk k t)"
    | (beaten) u where "sched_candidate k t" "u \<in> set ts" "sched_candidate k u" "t_priority (tsk k t) \<le> t_priority (tsk k u)"
    using not_less by blast
  then show ?thesis
  proof cases
    case no
    then have "find (?P (ts @ [t])) ts = best_candidate k ts"
      unfolding best_candidate_def by (intro find_cong_set) auto
    with no app show ?thesis by (simp split: option.split)
  next
    case top
    then have "find (?P (ts @ [t])) ts = None" by (auto simp: find_None_iff)
    moreover have "?P (ts @ [t]) t" using top by (auto simp: less_imp_le)
    ultimately have "best_candidate k (ts @ [t]) = Some t" using app by simp
    moreover have "t_priority (tsk k b) < t_priority (tsk k t)" if "best_candidate k ts = Some b" for b
      using best_candidate_SomeD(1,2) [OF that] top(2) by blast
    ultimately show ?thesis using top(1) by (auto split: option.split)
  next
    case beaten
    have "find (?P (ts @ [t])) ts = best_candidate k ts"
      unfolding best_candidate_def using beaten by (intro find_cong_set) (auto intro: order_trans)
    moreover obtain b where b: "best_candidate k ts = Some b"
      using best_candidate_None [of k ts] beaten by (cases "best_candidate k ts") auto
    moreover have "t_priority (tsk k t) \<le> t_priority (tsk k b)"
      using best_candidate_SomeD(3) [OF b beaten(2,3)] beaten(4) by simp
    ultimately show ?thesis using app by (simp add: leD)
  qed
qed

lemma scan_fold: "fold (scan_step k) ts None = map_option (\<lambda>t. (t, t_priority (tsk k t))) (best_candidate k ts)"
proof (induction ts rule: rev_induct)
  case Nil
  show ?case by (simp add: best_candidate_def)
next
  case (snoc t ts)
  then show ?case
    by (cases "best_candidate k ts") (simp_all add: best_candidate_snoc scan_step_def)
qed

lemma scan_step_last:
  assumes "start \<in> set ts"
  shows "scan_step k start (fold (scan_step k) ts None) = fold (scan_step k) ts None"
proof (cases "best_candidate k ts")
  case None
  then show ?thesis using assms best_candidate_None [of k ts] by (simp add: scan_fold scan_step_def)
next
  case (Some b)
  then show ?thesis using best_candidate_SomeD(3) [OF Some assms] by (auto simp: scan_fold scan_step_def not_less)
qed

text \<open>What the scan returns, for a start in the queue.\<close>

lemma sched_scan_eq:
  assumes "kwf k" and "start \<in> set (queue_slots k)"
  shows "sched_scan k start =
    (case best_candidate k (scan_slots k start) of
       Some t \<Rightarrow> t
     | None \<Rightarrow> (case find (\<lambda>t. t_state (tsk k t) = TASK_READY) (scan_slots k start) of Some t \<Rightarrow> t | None \<Rightarrow> start))"
  using scan_step_last [of start "scan_slots k start" k] assms scan_slots_set(1) [OF assms]
  by (simp add: sched_scan_def scan_fold split: option.split)


subsection \<open>The switch\<close>

definition sched_switch :: "cpu_state \<Rightarrow> kstate \<Rightarrow> kstate option" where
  "sched_switch cpu k = (case k_current k of None \<Rightarrow> None | Some cur \<Rightarrow> map_option sched_enter (sched_leave cpu cur k))"

text \<open>
  The pointers of the scheduler are queued, a pinned task is not the one that has just ended,
  and only the current task runs.
\<close>

definition sched_ok :: "kstate \<Rightarrow> bool" where
  "sched_ok k \<longleftrightarrow> kwf k \<and> (\<forall>a. k_rr_anchor k = Some a \<longrightarrow> a \<in> set (queue_slots k)) \<and>
     (\<forall>a. k_sched_only k = Some a \<longrightarrow> a \<in> set (queue_slots k)) \<and>
     (\<forall>i\<in>set (queue_slots k). t_state (tsk k i) = TASK_RUNNING \<longrightarrow> k_current k = Some i)"

definition sched_idle :: "kstate \<Rightarrow> bool" where
  "sched_idle k \<longleftrightarrow> sched_ok k \<and> k_current k \<noteq> None \<and> (\<forall>i\<in>set (queue_slots k). t_state (tsk k i) \<noteq> TASK_RUNNING)"

lemma sched_okD:
  assumes "sched_ok k"
  shows "kwf k" "k_rr_anchor k = Some a \<Longrightarrow> a \<in> set (queue_slots k)" "k_sched_only k = Some a \<Longrightarrow> a \<in> set (queue_slots k)"
    "i \<in> set (queue_slots k) \<Longrightarrow> t_state (tsk k i) = TASK_RUNNING \<Longrightarrow> k_current k = Some i"
  using assms by (auto simp: sched_ok_def)

lemma kwf_current:
  assumes "kwf k" "k_current k = Some cur" "k_queue k \<noteq> None"
  shows "cur \<in> set (queue_slots k)" "cur < 16"
  using kwf_globals(6) [OF assms(1,3)] assms(2) kwf_sizes(8) [OF assms(1)] by auto

lemma task_ok_state: "s \<noteq> TASK_BLOCKED_IPC \<Longrightarrow> task_ok t \<Longrightarrow> task_ok (t\<lparr>t_state := s\<rparr>)"
  by (simp add: task_ok_def exit_log_def event_log_def)

lemma kwf_set_current: "kwf k \<Longrightarrow> n \<in> set (queue_slots k) \<Longrightarrow> kwf (k\<lparr>k_current := Some n\<rparr>)"
  by (simp add: kwf_def queue_ok_def ring_rep_def nx_eq pv_eq task_ids_def dir_ok_def split: vmm_dir.splits)

lemma kwf_sched_globals [simp]:
  "kwf (k\<lparr>k_rr_anchor := a\<rparr>) = kwf k" "kwf (k\<lparr>k_resume_after_high := b\<rparr>) = kwf k" "kwf (k\<lparr>k_deferred_reap := c\<rparr>) = kwf k"
  "kwf (k\<lparr>k_sched_only := d\<rparr>) = kwf k" "kwf (k\<lparr>k_gets_waiter := e\<rparr>) = kwf k" "kwf (k\<lparr>k_ticks := g\<rparr>) = kwf k"
  by (simp_all add: kwf_def queue_ok_def ring_rep_def nx_eq pv_eq task_ids_def dir_ok_def split: vmm_dir.splits)

lemma unlink_anchor:
  "k_queue k \<noteq> None \<Longrightarrow> k_rr_anchor (unlink_task i k) = (if k_rr_anchor k = Some i then None else k_rr_anchor k)"
  "k_sched_only (unlink_task i k) = k_sched_only k" "k_gets_waiter (unlink_task i k) = k_gets_waiter k"
  unfolding unlink_task_def Let_def by (auto split: option.split)

lemma sched_leave_live:
  assumes "sched_ok k" "k_current k = Some cur" "k_queue k \<noteq> None" "t_state (tsk k cur) \<noteq> TASK_TERMINATED"
    and "sched_leave cpu cur k = Some k1"
  shows "sched_idle k1" "queue_slots k1 = queue_slots k" "k_current k1 = Some cur"
    "t_state (tsk k1 i) = (if i = cur \<and> t_state (tsk k cur) = TASK_RUNNING then TASK_READY else t_state (tsk k i))"
    "t_priority (tsk k1 i) = t_priority (tsk k i)" "tcore (tsk k1 i) = tcore (tsk k i)"
    "t_last_scheduled_ticks (tsk k1 i) = t_last_scheduled_ticks (tsk k i)"
    "k_gets_waiter k1 = k_gets_waiter k" "k_sched_only k1 = k_sched_only k" "k_rr_anchor k1 = k_rr_anchor k"
    "k_resume_after_high k1 = k_resume_after_high k" "k_ticks k1 = k_ticks k"
    "t_kctx_valid (tsk k1 i) = t_kctx_valid (tsk k i)" "t_kctx (tsk k1 i) = t_kctx (tsk k i)"
proof -
  note cur = kwf_current [OF sched_okD(1) [OF assms(1)] assms(2,3)] and len = kwf_sizes(1) [OF sched_okD(1) [OF assms(1)]]
  define g :: "task \<Rightarrow> task" where "g = (\<lambda>t. t\<lparr>t_run_ticks := (if k_ticks k \<ge> t_last_scheduled_ticks t
      then t_run_ticks t + (k_ticks k - t_last_scheduled_ticks t) else t_run_ticks t), t_cpu_state := cpu\<rparr>)"
  define h :: "task \<Rightarrow> task" where "h = (\<lambda>t. if t_state t = TASK_RUNNING then t\<lparr>t_state := TASK_READY\<rparr> else t)"
  have "k1 = (if t_state (tsk (upd_task cur g k) cur) = TASK_RUNNING
      then upd_task cur (\<lambda>t. t\<lparr>t_state := TASK_READY\<rparr>) (upd_task cur g k) else upd_task cur g k)"
    using assms(2,4,5) unfolding sched_leave_def Let_def g_def by (simp split del: if_split cong: if_cong)
  then have k1: "k1 = upd_task cur (\<lambda>t. h (g t)) k"
    by (simp add: h_def upd_task_def tsk_def cur len split: if_splits)
  have hg: "t_next (h (g t)) = t_next t" "t_prev (h (g t)) = t_prev t" "t_id (h (g t)) = t_id t" "tcore (h (g t)) = tcore t"
    "t_priority (h (g t)) = t_priority t" "t_last_scheduled_ticks (h (g t)) = t_last_scheduled_ticks t"
    "t_kctx_valid (h (g t)) = t_kctx_valid t" "t_kctx (h (g t)) = t_kctx t"
    "t_state (h (g t)) = (if t_state t = TASK_RUNNING then TASK_READY else t_state t)" for t
    by (simp_all add: h_def g_def)
  have "task_ok t \<Longrightarrow> task_ok (h (g t))" for t by (simp add: h_def g_def task_ok_state)
  then have wf: "kwf k1" unfolding k1 by (intro kwf_upd_task sched_okD(1) [OF assms(1)]) (simp_all add: hg)
  show qs: "queue_slots k1 = queue_slots k" by (simp add: k1 hg)
  show gl: "k_current k1 = Some cur" "k_gets_waiter k1 = k_gets_waiter k" "k_sched_only k1 = k_sched_only k" "k_rr_anchor k1 = k_rr_anchor k"
    "k_resume_after_high k1 = k_resume_after_high k" "k_ticks k1 = k_ticks k"
    by (simp_all add: k1 assms(2))
  show st: "t_state (tsk k1 i) = (if i = cur \<and> t_state (tsk k cur) = TASK_RUNNING then TASK_READY else t_state (tsk k i))"
    "t_priority (tsk k1 i) = t_priority (tsk k i)" "tcore (tsk k1 i) = tcore (tsk k i)"
    "t_last_scheduled_ticks (tsk k1 i) = t_last_scheduled_ticks (tsk k i)"
    "t_kctx_valid (tsk k1 i) = t_kctx_valid (tsk k i)" "t_kctx (tsk k1 i) = t_kctx (tsk k i)" for i
    using cur(2) len by (simp_all add: k1 hg)
  have "\<forall>i\<in>set (queue_slots k). t_state (tsk k1 i) \<noteq> TASK_RUNNING"
  proof
    fix i assume "i \<in> set (queue_slots k)"
    then show "t_state (tsk k1 i) \<noteq> TASK_RUNNING"
      using sched_okD(4) [OF assms(1), of i] assms(2) by (cases "i = cur") (auto simp: st)
  qed
  then show "sched_idle k1"
    using wf sched_okD(2,3) [OF assms(1)] unfolding sched_idle_def sched_ok_def qs gl by auto
qed


lemma sched_leave_ended:
  assumes "sched_ok k" "k_current k = Some cur" "k_queue k \<noteq> None" "t_state (tsk k cur) = TASK_TERMINATED"
    and "k_sched_only k \<noteq> Some cur" and "sched_leave cpu cur k = Some k1"
  shows "sched_idle k1" "queue_slots k1 = remove1 cur (queue_slots k)" "k_deferred_reap k1 = Some cur"
    "cur \<notin> set (queue_slots k1)" "k_sched_only k1 = k_sched_only k"
    "(tsk k1 i)\<lparr>t_next := None, t_prev := None\<rparr> = (tsk k i)\<lparr>t_next := None, t_prev := None\<rparr>"
proof -
  let ?u = "unlink_task cur k"
  note wf = sched_okD(1) [OF assms(1)] and cur = kwf_current [OF sched_okD(1) [OF assms(1)] assms(2,3)]
  note un = kwf_unlink [OF wf cur(1)]
  have st: "t_state (tsk ?u i) = t_state (tsk k i)" for i by (rule unlink_task_keeps(6))
  obtain c where c: "k_queue ?u \<noteq> None" "k_current ?u = Some c" "k1 = (if t_state (tsk ?u c) = TASK_RUNNING
      then upd_task c (\<lambda>t. t\<lparr>t_state := TASK_READY\<rparr>) (?u\<lparr>k_deferred_reap := Some cur\<rparr>) else ?u\<lparr>k_deferred_reap := Some cur\<rparr>)"
    using assms(4,6) by (auto simp: sched_leave_def Let_def split: if_splits option.splits)
  have cq: "c \<in> set (remove1 cur (queue_slots k))"
    using kwf_globals(6) [OF un(1) c(1)] c(2) by (auto simp: un(2))
  have "c \<noteq> cur" using cq kwf_sizes(7) [OF wf] by auto
  then have "t_state (tsk k c) \<noteq> TASK_RUNNING"
    using sched_okD(4) [OF assms(1), of c] cq assms(2) by (auto dest: in_set_remove1D)
  then have k1: "k1 = ?u\<lparr>k_deferred_reap := Some cur\<rparr>" using c(3) by (simp add: st)
  show qs: "queue_slots k1 = remove1 cur (queue_slots k)" by (simp add: k1 un(2))
  then show "cur \<notin> set (queue_slots k1)" using kwf_sizes(7) [OF wf] by simp
  show "k_deferred_reap k1 = Some cur" "k_sched_only k1 = k_sched_only k" by (simp_all add: k1 unlink_anchor)
  show "(tsk k1 i)\<lparr>t_next := None, t_prev := None\<rparr> = (tsk k i)\<lparr>t_next := None, t_prev := None\<rparr>"
    by (simp add: k1 unlink_task_slots)
  have "kwf k1" using un(1) by (simp add: k1)
  moreover have "t_state (tsk k i) \<noteq> TASK_RUNNING" if "i \<in> set (remove1 cur (queue_slots k))" for i
    using that sched_okD(4) [OF assms(1), of i] assms(2) kwf_sizes(7) [OF wf] by (auto dest: in_set_remove1D)
  ultimately show "sched_idle k1"
    using sched_okD(2,3) [OF assms(1)] assms(3,5) kwf_sizes(7) [OF wf] c(2)
    by (auto simp: sched_idle_def sched_ok_def st unlink_anchor k1 un(2) split: if_splits)
qed


lemma resume_anchorD:
  assumes "resume_anchor k now cur n = Some a"
  shows "k_rr_anchor k = Some a" "t_state (tsk k a) = TASK_READY" "sched_candidate k a"
    "now - t_last_scheduled_ticks (tsk k a) < TIMER_PREEMPT_QUANTUM"
  using assms by (auto simp: resume_anchor_def sched_candidate_def split: option.splits if_splits)

lemma sched_start_in:
  assumes "sched_ok k" "cur \<in> set (queue_slots k)"
  shows "sched_start k cur \<in> set (queue_slots k)"
  using assms by (auto simp: sched_start_def sched_ok_def split: option.split)

text \<open>The chosen task is a ready one of the queue as soon as there is any.\<close>

lemma sched_scan_ready:
  assumes "kwf k" "start \<in> set (queue_slots k)" "r \<in> set (queue_slots k)" "t_state (tsk k r) = TASK_READY"
  shows "sched_scan k start \<in> set (queue_slots k)" "t_state (tsk k (sched_scan k start)) = TASK_READY"
proof -
  note set_scan = scan_slots_set(1) [OF assms(1,2)]
  have "sched_scan k start \<in> set (queue_slots k) \<and> t_state (tsk k (sched_scan k start)) = TASK_READY"
  proof (cases "best_candidate k (scan_slots k start)")
    case (Some t)
    then show ?thesis using best_candidate_SomeD(1,2) [OF Some] set_scan
      by (simp add: sched_scan_eq [OF assms(1,2)] sched_candidate_def)
  next
    case None
    obtain t where t: "find (\<lambda>t. t_state (tsk k t) = TASK_READY) (scan_slots k start) = Some t"
      using assms(3,4) set_scan by (cases "find (\<lambda>t. t_state (tsk k t) = TASK_READY) (scan_slots k start)") (auto simp: find_None_iff)
    then show ?thesis using find_SomeD [OF t] set_scan None by (simp add: sched_scan_eq [OF assms(1,2)])
  qed
  then show "sched_scan k start \<in> set (queue_slots k)" "t_state (tsk k (sched_scan k start)) = TASK_READY" by auto
qed

lemma sched_pick_ready:
  assumes "sched_ok k" "cur \<in> set (queue_slots k)" "r \<in> set (queue_slots k)" "t_state (tsk k r) = TASK_READY"
  shows "fst (sched_pick k now cur) \<in> set (queue_slots k)" "t_state (tsk k (fst (sched_pick k now cur))) = TASK_READY"
proof -
  note scan = sched_scan_ready [OF sched_okD(1) [OF assms(1)] sched_start_in [OF assms(1,2)] assms(3,4)]
  have "fst (sched_pick k now cur) \<in> set (queue_slots k) \<and> t_state (tsk k (fst (sched_pick k now cur))) = TASK_READY"
    using scan sched_okD(2,3) [OF assms(1)] resume_anchorD(1,2)
    by (auto simp: sched_pick_def Let_def split: option.splits)
  then show "fst (sched_pick k now cur) \<in> set (queue_slots k)" "t_state (tsk k (fst (sched_pick k now cur))) = TASK_READY" by auto
qed

lemma sched_enter_facts:
  assumes "sched_idle k" "k_current k = Some cur" "cur \<in> set (queue_slots k)"
    and "r \<in> set (queue_slots k)" "t_state (tsk k r) = TASK_READY"
  defines "n \<equiv> fst (sched_pick k (k_ticks k) cur)"
  shows "sched_ok (sched_enter k)" "k_current (sched_enter k) = Some n" "queue_slots (sched_enter k) = queue_slots k"
    "n \<in> set (queue_slots k)" "t_state (tsk k n) = TASK_READY"
    "t_state (tsk (sched_enter k) i) = (if i = n then TASK_RUNNING else t_state (tsk k i))"
    "t_priority (tsk (sched_enter k) i) = t_priority (tsk k i)" "tcore (tsk (sched_enter k) i) = tcore (tsk k i)"
    "k_gets_waiter (sched_enter k) = k_gets_waiter k" "k_sched_only (sched_enter k) = k_sched_only k"
    "k_ticks (sched_enter k) = k_ticks k"
    "t_kctx_valid (tsk (sched_enter k) i) = t_kctx_valid (tsk k i)" "t_kctx (tsk (sched_enter k) i) = t_kctx (tsk k i)"
proof -
  have ok: "sched_ok k" using assms(1) by (simp add: sched_idle_def)
  note wf = sched_okD(1) [OF ok] and pick = sched_pick_ready [OF ok assms(3-5), of "k_ticks k", folded n_def]
  show "n \<in> set (queue_slots k)" "t_state (tsk k n) = TASK_READY" by (rule pick)+
  have n: "n < length (k_pool k)" using kwf_sizes(1,8) [OF wf] pick(1) by simp
  define f :: "task \<Rightarrow> task" where "f = (\<lambda>t. t\<lparr>t_state := TASK_RUNNING,
      t_last_scheduled_ticks := (if snd (sched_pick k (k_ticks k) cur) then t_last_scheduled_ticks t else k_ticks k),
      t_switch_count := t_switch_count t + 1\<rparr>)"
  define k2 where "k2 = (if t_type (tsk k n) = TASK_TYPE_USER \<and> t_priority (tsk k n) < OS_TASK_PRIORITY_HIGH
      then k\<lparr>k_current := Some n, k_rr_anchor := Some n, k_resume_after_high := None\<rparr> else k\<lparr>k_current := Some n\<rparr>)"
  have eq: "sched_enter k = upd_task n f k2"
    using assms(2) by (simp add: sched_enter_def case_prod_beta n_def [symmetric] Let_def k2_def f_def [symmetric] cong: if_cong)
  have f: "t_next (f t) = t_next t" "t_prev (f t) = t_prev t" "t_id (f t) = t_id t" "tcore (f t) = tcore t"
    "t_priority (f t) = t_priority t" "t_state (f t) = TASK_RUNNING" "t_kctx_valid (f t) = t_kctx_valid t"
    "t_kctx (f t) = t_kctx t" for t
    by (simp_all add: f_def)
  have k2: "tsk k2 = tsk k" "queue_slots k2 = queue_slots k" "kwf k2" "k_current k2 = Some n" "k_gets_waiter k2 = k_gets_waiter k"
    "k_sched_only k2 = k_sched_only k" "k_ticks k2 = k_ticks k" "k_pool k2 = k_pool k"
    "k_rr_anchor k2 \<in> {Some n, k_rr_anchor k}"
    using kwf_set_current [OF wf pick(1)] by (simp_all add: k2_def)
  have "task_ok t \<Longrightarrow> task_ok (f t)" for t using task_ok_state [of TASK_RUNNING t] by (simp add: f_def)
  then have wf': "kwf (sched_enter k)" unfolding eq by (intro kwf_upd_task k2(3)) (simp_all add: f)
  show qs: "queue_slots (sched_enter k) = queue_slots k" by (simp add: eq f k2)
  show gl: "k_current (sched_enter k) = Some n" "k_gets_waiter (sched_enter k) = k_gets_waiter k"
    "k_sched_only (sched_enter k) = k_sched_only k" "k_ticks (sched_enter k) = k_ticks k"
    by (simp_all add: eq k2)
  show st: "t_state (tsk (sched_enter k) i) = (if i = n then TASK_RUNNING else t_state (tsk k i))"
    "t_priority (tsk (sched_enter k) i) = t_priority (tsk k i)" "tcore (tsk (sched_enter k) i) = tcore (tsk k i)"
    "t_kctx_valid (tsk (sched_enter k) i) = t_kctx_valid (tsk k i)" "t_kctx (tsk (sched_enter k) i) = t_kctx (tsk k i)" for i
    using n by (simp_all add: eq f k2)
  have "k_rr_anchor (sched_enter k) \<in> {Some n, k_rr_anchor k}" using k2(9) by (simp add: eq)
  moreover have "\<forall>i\<in>set (queue_slots k). t_state (tsk k i) \<noteq> TASK_RUNNING" using assms(1) by (simp add: sched_idle_def)
  ultimately show "sched_ok (sched_enter k)"
    using wf' sched_okD(2,3) [OF ok] pick(1) unfolding sched_ok_def qs gl st by (auto split: if_splits)
qed


lemma sched_leave_facts:
  assumes "sched_ok k" "k_current k = Some cur" "k_queue k \<noteq> None"
    and "k_sched_only k = Some cur \<longrightarrow> t_state (tsk k cur) \<noteq> TASK_TERMINATED" and "sched_leave cpu cur k = Some k1"
  shows "sched_idle k1" "\<exists>c. k_current k1 = Some c \<and> c \<in> set (queue_slots k1)"
proof -
  show idle: "sched_idle k1"
    using sched_leave_live(1) [OF assms(1-3) _ assms(5)] sched_leave_ended(1) [OF assms(1-3) _ _ assms(5)] assms(4) by blast
  then obtain c where c: "k_current k1 = Some c" and wf: "kwf k1" by (auto simp: sched_idle_def sched_ok_def)
  have "k_queue k1 \<noteq> None"
    using assms(2,3,5) by (auto simp: sched_leave_def Let_def split: if_splits option.splits)
  then show "\<exists>c. k_current k1 = Some c \<and> c \<in> set (queue_slots k1)"
    using kwf_current(1) [OF wf c] c by blast
qed

lemma sched_pick_best:
  fixes now :: u32
  assumes "sched_ok k" "cur \<in> set (queue_slots k)" "u \<in> set (queue_slots k)" "sched_candidate k u"
    and "\<forall>p. k_sched_only k = Some p \<longrightarrow> t_state (tsk k p) \<noteq> TASK_READY"
  defines "n \<equiv> fst (sched_pick k now cur)"
  shows "sched_candidate k n \<and> (t_priority (tsk k u) \<le> t_priority (tsk k n) \<or>
    k_resume_after_high k = Some n \<and> now - t_last_scheduled_ticks (tsk k n) < TIMER_PREEMPT_QUANTUM)"
proof -
  let ?s = "sched_start k cur"
  note start = sched_start_in [OF assms(1,2)] and wf = sched_okD(1) [OF assms(1)]
  have u: "u \<in> set (scan_slots k ?s)" using assms(3) scan_slots_set(1) [OF wf start] by simp
  then obtain b where b: "best_candidate k (scan_slots k ?s) = Some b"
    using best_candidate_None [of k "scan_slots k ?s"] assms(4) by (cases "best_candidate k (scan_slots k ?s)") auto
  then have scan: "sched_scan k ?s = b" by (simp add: sched_scan_eq [OF wf start])
  show ?thesis
  proof (cases "resume_anchor k now cur b")
    case None
    then have "n = b" using assms(5) scan by (auto simp: n_def sched_pick_def Let_def split: option.splits)
    with best_candidate_SomeD(2,3) [OF b] u assms(4) show ?thesis by auto
  next
    case (Some a)
    then have "n = a" using assms(5) scan by (auto simp: n_def sched_pick_def Let_def split: option.splits)
    moreover have "k_resume_after_high k = Some a" using Some by (auto simp: resume_anchor_def split: option.splits if_splits)
    ultimately show ?thesis using resume_anchorD(3,4) [OF Some] by simp
  qed
qed

text \<open>
  C4. When \<open>schedule\<close> gives up the current task and there is a ready one, it runs a ready task
  and that task alone is running, the run queue stays well formed, and: a pinned task that is
  ready is the one that runs; otherwise, when a Ring 3 task may run (while the shell waits in
  \<open>SYS_GETS\<close>: the shell or a boot service), one that may run is chosen, and no task that may run
  has a higher priority, except for a task that handed the CPU to a driver and comes back within
  its 20 ticks.
\<close>

theorem schedule_runs_best:
  assumes "sched_ok k" "k_current k = Some cur" "k_queue k \<noteq> None"
    and "k_sched_only k = Some cur \<longrightarrow> t_state (tsk k cur) \<noteq> TASK_TERMINATED" and "sched_leave cpu cur k = Some k1"
    and "\<exists>r\<in>set (queue_slots k1). t_state (tsk k1 r) = TASK_READY"
  shows "\<exists>n\<in>set (queue_slots k1). k_current (sched_enter k1) = Some n \<and> t_state (tsk k1 n) = TASK_READY \<and>
    sched_ok (sched_enter k1) \<and> queue_slots (sched_enter k1) = queue_slots k1 \<and>
    (\<forall>i\<in>set (queue_slots k1). t_state (tsk (sched_enter k1) i) = TASK_RUNNING \<longleftrightarrow> i = n) \<and>
    (\<forall>p. k_sched_only k1 = Some p \<and> t_state (tsk k1 p) = TASK_READY \<longrightarrow> n = p) \<and>
    ((\<forall>p. k_sched_only k1 = Some p \<longrightarrow> t_state (tsk k1 p) \<noteq> TASK_READY) \<longrightarrow>
      (\<forall>u\<in>set (queue_slots k1). sched_candidate k1 u \<longrightarrow> sched_candidate k1 n \<and>
        (t_priority (tsk k1 u) \<le> t_priority (tsk k1 n) \<or>
         k_resume_after_high k1 = Some n \<and> k_ticks k1 - t_last_scheduled_ticks (tsk k1 n) < TIMER_PREEMPT_QUANTUM)))"
proof -
  note lf = sched_leave_facts [OF assms(1-5)]
  have ok: "sched_ok k1" and idle: "\<forall>i\<in>set (queue_slots k1). t_state (tsk k1 i) \<noteq> TASK_RUNNING"
    using lf(1) by (simp_all add: sched_idle_def)
  obtain c where c: "k_current k1 = Some c" "c \<in> set (queue_slots k1)" using lf(2) by blast
  obtain r where r: "r \<in> set (queue_slots k1)" "t_state (tsk k1 r) = TASK_READY" using assms(6) by blast
  define n where "n = fst (sched_pick k1 (k_ticks k1) c)"
  note e = sched_enter_facts [OF lf(1) c r, folded n_def]
  have "n = p" if "k_sched_only k1 = Some p \<and> t_state (tsk k1 p) = TASK_READY" for p
    using that by (simp add: n_def sched_pick_def Let_def)
  moreover have "sched_candidate k1 n \<and> (t_priority (tsk k1 u) \<le> t_priority (tsk k1 n) \<or>
      k_resume_after_high k1 = Some n \<and> k_ticks k1 - t_last_scheduled_ticks (tsk k1 n) < TIMER_PREEMPT_QUANTUM)"
    if "\<forall>p. k_sched_only k1 = Some p \<longrightarrow> t_state (tsk k1 p) \<noteq> TASK_READY" "u \<in> set (queue_slots k1)" "sched_candidate k1 u" for u
    unfolding n_def by (rule sched_pick_best [OF ok c(2) that(2,3,1)])
  moreover have "t_state (tsk (sched_enter k1) i) = TASK_RUNNING \<longleftrightarrow> i = n" if "i \<in> set (queue_slots k1)" for i
    using idle that by (simp add: e(6))
  ultimately show ?thesis using e(1-5) by blast
qed


subsection \<open>Turns\<close>

fun sched_turns :: "cpu_state list \<Rightarrow> kstate \<Rightarrow> kstate option" where
  "sched_turns [] k = Some k"
| "sched_turns (cpu # cpus) k = (case sched_switch cpu k of None \<Rightarrow> None | Some k' \<Rightarrow> sched_turns cpus k')"

definition runnable_users :: "kstate \<Rightarrow> nat list" where
  "runnable_users k = filter (\<lambda>t. t_type (tsk k t) = TASK_TYPE_USER \<and> t_state (tsk k t) \<in> {TASK_READY, TASK_RUNNING}) (queue_slots k)"

text \<open>Ring 3 tasks of one priority below HIGH take turns; nothing is pinned or restricted.\<close>

definition turns_ok :: "u32 \<Rightarrow> kstate \<Rightarrow> bool" where
  "turns_ok p k \<longleftrightarrow> sched_ok k \<and> k_gets_waiter k = None \<and> k_sched_only k = None \<and> p < OS_TASK_PRIORITY_HIGH \<and>
     (\<forall>t\<in>set (runnable_users k). t_priority (tsk k t) = p) \<and>
     (\<exists>c\<in>set (runnable_users k). k_current k = Some c \<and> t_state (tsk k c) = TASK_RUNNING)"

lemma best_candidate_equal:
  assumes "\<forall>t\<in>set ts. sched_candidate k t \<longrightarrow> t_priority (tsk k t) = p"
  shows "best_candidate k ts = find (sched_candidate k) ts"
  unfolding best_candidate_def using assms by (intro find_cong_set) auto

lemma find_filter_hd: "find P xs = (case filter P xs of [] \<Rightarrow> None | x # _ \<Rightarrow> Some x)"
  by (induction xs) auto

lemma next_in_ring:
  assumes "us = as @ c # bs" "distinct us" "i < length us" "us ! i = c"
  shows "hd (bs @ as @ [c]) = us ! (Suc i mod length us)"
proof -
  have "us ! length as = c" "length as < length us" using assms(1) by simp_all
  then have i: "i = length as" using assms(2-4) nth_eq_iff_index_eq [of us i "length as"] by simp
  show ?thesis
  proof (cases bs)
    case Nil
    then have "Suc i mod length us = 0" using assms(1) i by simp
    with Nil assms(1) show ?thesis by (cases as) simp_all
  next
    case (Cons b cs)
    then have "Suc i mod length us = Suc (length as)" using assms(1) i by simp
    with Cons assms(1) show ?thesis by (simp add: nth_append)
  qed
qed

lemma turns_okD:
  assumes "turns_ok p k"
  shows "sched_ok k" "k_gets_waiter k = None" "k_sched_only k = None" "p < OS_TASK_PRIORITY_HIGH"
    "t \<in> set (runnable_users k) \<Longrightarrow> t_priority (tsk k t) = p"
    "k_current k = Some c \<Longrightarrow> c \<in> set (runnable_users k) \<and> t_state (tsk k c) = TASK_RUNNING"
  using assms by (auto simp: turns_ok_def)

lemma runnable_users_queued: "t \<in> set (runnable_users k) \<Longrightarrow> t \<in> set (queue_slots k)"
  by (simp add: runnable_users_def)

lemma turns_candidates:
  assumes "turns_ok p k" "k_current k = Some c" "sched_leave cpu c k = Some k1" "t \<in> set (queue_slots k)" "k_queue k \<noteq> None"
  shows "sched_candidate k1 t \<longleftrightarrow> t \<in> set (runnable_users k)"
proof -
  note ok = turns_okD(1) [OF assms(1)] and cr = turns_okD(6) [OF assms(1,2)]
  have live: "t_state (tsk k c) \<noteq> TASK_TERMINATED" using cr by simp
  note l = sched_leave_live [OF ok assms(2,5) live assms(3)]
  have "t_state (tsk k1 t) = TASK_READY \<longleftrightarrow> t_state (tsk k t) \<in> {TASK_READY, TASK_RUNNING}"
  proof (cases "t = c")
    case True
    then show ?thesis using cr by (simp add: l(4))
  next
    case False
    then have "t_state (tsk k t) \<noteq> TASK_RUNNING" using sched_okD(4) [OF ok assms(4)] assms(2) by auto
    with False show ?thesis by (simp add: l(4))
  qed
  moreover have "task_sched_allowed k1 t" using turns_okD(2) [OF assms(1)] by (simp add: task_sched_allowed_def l(8))
  ultimately show ?thesis
    using assms(4) tcore_eqD(5) [OF l(6)] by (simp add: sched_candidate_def runnable_users_def conj_commute)
qed

lemma turns_scan:
  assumes "turns_ok p k" "k_current k = Some c" "sched_leave cpu c k = Some k1" "k_queue k \<noteq> None"
    and "i < length (runnable_users k)" "runnable_users k ! i = c"
  shows "sched_scan k1 c = runnable_users k ! (Suc i mod length (runnable_users k))"
proof -
  define us where "us = runnable_users k"
  note ok = turns_okD(1) [OF assms(1)] and cr = turns_okD(6) [OF assms(1,2), folded us_def]
  have cq: "c \<in> set (queue_slots k)" using cr runnable_users_queued by (simp add: us_def)
  have live: "t_state (tsk k c) \<noteq> TASK_TERMINATED" using cr by simp
  note l = sched_leave_live [OF ok assms(2,4) live assms(3)]
  have cand: "sched_candidate k1 t \<longleftrightarrow> t \<in> set us" if "t \<in> set (queue_slots k)" for t
    unfolding us_def by (rule turns_candidates [OF assms(1-3) that assms(4)])
  obtain xs ys where split: "queue_slots k = xs @ c # ys" using cq by (meson split_list)
  have wf1: "kwf k1" using l(1) by (simp add: sched_idle_def sched_ok_def)
  have scan: "scan_slots k1 c = ys @ xs @ [c]" using scan_slots_ring [OF wf1, of xs c ys] l(2) split by simp
  define F where "F = filter (\<lambda>t. t \<in> set us)"
  have "us = F (queue_slots k)" unfolding us_def runnable_users_def F_def by (intro filter_cong) auto
  then have us_split: "us = F xs @ c # F ys" using split cr by (simp add: F_def)
  have dist: "distinct us" using kwf_sizes(7) [OF sched_okD(1) [OF ok]] by (simp add: us_def runnable_users_def)
  have hd: "hd (F ys @ F xs @ [c]) = us ! (Suc i mod length us)"
    by (rule next_in_ring [OF us_split dist]) (use assms(5,6) in \<open>simp_all add: us_def\<close>)
  have "filter (sched_candidate k1) (ys @ xs @ [c]) = F (ys @ xs @ [c])"
    unfolding F_def using cand split by (intro filter_cong) auto
  also have "\<dots> = F ys @ F xs @ [c]" using cr by (simp add: F_def)
  finally have "find (sched_candidate k1) (ys @ xs @ [c]) = Some (us ! (Suc i mod length us))"
    unfolding find_filter_hd hd [symmetric] by (cases "F ys @ F xs @ [c]") simp_all
  moreover have "best_candidate k1 (ys @ xs @ [c]) = find (sched_candidate k1) (ys @ xs @ [c])"
    using cand turns_okD(5) [OF assms(1)] split by (intro best_candidate_equal [where p = p]) (auto simp: l(5) us_def)
  ultimately show ?thesis
    using sched_scan_eq [OF wf1, of c] l(2) cq scan by (simp add: us_def)
qed

lemma turns_switch:
  assumes "turns_ok p k" "i < length (runnable_users k)" "k_current k = Some (runnable_users k ! i)"
  shows "\<exists>k'. sched_switch cpu k = Some k' \<and> turns_ok p k' \<and> runnable_users k' = runnable_users k \<and>
    k_current k' = Some (runnable_users k ! (Suc i mod length (runnable_users k))) \<and>
    queue_slots k' = queue_slots k \<and> (\<forall>j. tcore (tsk k' j) = tcore (tsk k j))"
proof -
  define us c n where "us = runnable_users k" and "c = us ! i" and "n = us ! (Suc i mod length us)"
  have cur: "k_current k = Some c" using assms(3) by (simp add: c_def us_def)
  note ok = turns_okD(1) [OF assms(1)] and cr = turns_okD(6) [OF assms(1) cur]
  have cq: "c \<in> set (queue_slots k)" using cr runnable_users_queued by simp
  have q: "k_queue k \<noteq> None" using cq by (cases "k_queue k") (simp_all add: queue_slots_def)
  obtain k1 where k1: "sched_leave cpu c k = Some k1"
    using cr cur by (cases "sched_leave cpu c k") (auto simp: sched_leave_def Let_def split: if_splits option.splits)
  have live: "t_state (tsk k c) \<noteq> TASK_TERMINATED" using cr by simp
  note l = sched_leave_live [OF ok cur q live k1]
  have low: "t_priority (tsk k1 c) < OS_TASK_PRIORITY_HIGH"
    using turns_okD(4,5) [OF assms(1)] cr by (simp add: l(5))
  have scan: "sched_scan k1 c = n"
    unfolding n_def us_def by (rule turns_scan [OF assms(1) cur k1 q assms(2)]) (simp add: c_def us_def)
  have nh: "\<not> OS_TASK_PRIORITY_HIGH \<le> t_priority (tsk k1 c)" using low by (simp add: not_le)
  have "sched_start k1 c = c" unfolding sched_start_def using nh by (cases "k_rr_anchor k1") simp_all
  moreover have "resume_anchor k1 (k_ticks k1) c m = None" for m
    unfolding resume_anchor_def using nh by (cases "k_rr_anchor k1") simp_all
  ultimately have pick: "fst (sched_pick k1 (k_ticks k1) c) = n"
    using scan turns_okD(3) [OF assms(1)] by (simp add: sched_pick_def l(9))
  have ready: "t_state (tsk k1 c) = TASK_READY" using cr by (simp add: l(4))
  note e = sched_enter_facts [OF l(1,3) _ _ ready, unfolded l(2), OF cq cq, unfolded pick]
  have "0 < length us" using assms(2) by (auto simp: us_def)
  then have nu: "n \<in> set us" unfolding n_def by (intro nth_mem mod_less_divisor)
  have same: "t_type (tsk (sched_enter k1) t) = t_type (tsk k t)" for t
    by (simp add: tcore_eqD(5) [OF e(8)] tcore_eqD(5) [OF l(6)])
  have "t_state (tsk (sched_enter k1) t) \<in> {TASK_READY, TASK_RUNNING} \<longleftrightarrow> t_state (tsk k t) \<in> {TASK_READY, TASK_RUNNING}" for t
    using nu cr by (cases "t = n"; cases "t = c") (simp_all add: e(6) l(4) us_def runnable_users_def)
  then have users: "runnable_users (sched_enter k1) = us"
    unfolding us_def runnable_users_def e(3) same by (intro filter_cong) simp_all
  moreover have "turns_ok p (sched_enter k1)"
    unfolding turns_ok_def users e(2,7,9,10) l(5,8,9)
    using e(1,6) nu turns_okD(2-5) [OF assms(1), folded us_def] by simp
  moreover have "sched_switch cpu k = Some (sched_enter k1)" using cur k1 by (simp add: sched_switch_def)
  ultimately show ?thesis using e(2,3,8) l(6) by (auto simp: us_def n_def)
qed


text \<open>
  C5. Ring 3 tasks of one priority below HIGH take turns: \<open>m\<close> calls of \<open>schedule\<close> move the CPU
  \<open>m\<close> places on round the ring of the ready tasks, whatever else is in the queue, so each of
  them runs within as many calls as there are ready tasks.
\<close>

theorem round_robin:
  assumes "turns_ok p k" "i < length (runnable_users k)" "k_current k = Some (runnable_users k ! i)"
  shows "\<exists>k'. sched_turns cpus k = Some k' \<and> turns_ok p k' \<and> runnable_users k' = runnable_users k \<and>
    k_current k' = Some (runnable_users k ! ((i + length cpus) mod length (runnable_users k)))"
  using assms
proof (induction cpus arbitrary: k i)
  case Nil
  then show ?case by simp
next
  case (Cons cpu cpus)
  define m where "m = length (runnable_users k)"
  obtain k1 where k1: "sched_switch cpu k = Some k1" "turns_ok p k1" "runnable_users k1 = runnable_users k"
    "k_current k1 = Some (runnable_users k ! (Suc i mod m))"
    using turns_switch [OF Cons.prems, of cpu] by (auto simp: m_def)
  have "Suc i mod m < m" using Cons.prems(2) by (intro mod_less_divisor) (auto simp: m_def)
  moreover have "(Suc i mod m + length cpus) mod m = (i + length (cpu # cpus)) mod m" by (simp add: mod_simps)
  ultimately show ?case
    using Cons.IH [OF k1(2), unfolded k1(3,4), folded m_def, OF _ refl] k1(1) by (simp add: m_def)
qed

subsection \<open>An example\<close>

text \<open>The shell and two more tasks of priority NORMAL, with the shell running.\<close>

definition turn_state :: kstate where
  "turn_state = upd_task 1 (\<lambda>t. t\<lparr>t_priority := 2, t_state := TASK_RUNNING\<rparr>) (upd_task 2 (\<lambda>t. t\<lparr>t_priority := 2\<rparr>)
     (upd_task 3 (\<lambda>t. t\<lparr>t_priority := 2\<rparr>) (upd_task 0 (\<lambda>t. t\<lparr>t_type := TASK_TYPE_KERNEL, t_state := TASK_READY\<rparr>)
       (family_state\<lparr>k_current := Some 1, k_rr_anchor := None, k_resume_after_high := None, k_sched_only := None, k_gets_waiter := None\<rparr>))))"

lemma turn_state_facts:
  "kwf turn_state" "queue_slots turn_state = [0, 1, 2, 3]" "k_current turn_state = Some 1" "k_sched_only turn_state = None"
  "k_gets_waiter turn_state = None" "k_rr_anchor turn_state = None" "k_queue turn_state \<noteq> None"
  "t_type (tsk turn_state 0) = TASK_TYPE_KERNEL" "t_state (tsk turn_state 0) = TASK_READY"
  "t_type (tsk turn_state 1) = TASK_TYPE_USER" "t_state (tsk turn_state 1) = TASK_RUNNING" "t_priority (tsk turn_state 1) = 2"
  "t_type (tsk turn_state 2) = TASK_TYPE_USER" "t_state (tsk turn_state 2) = TASK_READY" "t_priority (tsk turn_state 2) = 2"
  "t_type (tsk turn_state 3) = TASK_TYPE_USER" "t_state (tsk turn_state 3) = TASK_READY" "t_priority (tsk turn_state 3) = 2"
proof -
  have wf: "kwf (family_state\<lparr>k_current := Some 1\<rparr>)"
    by (rule kwf_set_current [OF family_facts(1)]) (simp add: family_facts(2))
  have len: "length (k_pool family_state) = 16" by (rule kwf_sizes(1) [OF family_facts(1)])
  show "kwf turn_state"
    unfolding turn_state_def using wf by (intro kwf_upd_task) (simp_all add: task_ok_state)
  show "queue_slots turn_state = [0, 1, 2, 3]" by (simp add: turn_state_def family_facts)
  show "k_current turn_state = Some 1" "k_sched_only turn_state = None" "k_gets_waiter turn_state = None" "k_rr_anchor turn_state = None"
    by (simp_all add: turn_state_def)
  show "k_queue turn_state \<noteq> None"
    using family_facts(2) by (cases "k_queue family_state") (simp_all add: turn_state_def queue_slots_def)
  show "t_type (tsk turn_state 0) = TASK_TYPE_KERNEL" "t_state (tsk turn_state 0) = TASK_READY"
    "t_type (tsk turn_state 1) = TASK_TYPE_USER" "t_state (tsk turn_state 1) = TASK_RUNNING" "t_priority (tsk turn_state 1) = 2"
    "t_type (tsk turn_state 2) = TASK_TYPE_USER" "t_state (tsk turn_state 2) = TASK_READY" "t_priority (tsk turn_state 2) = 2"
    "t_type (tsk turn_state 3) = TASK_TYPE_USER" "t_state (tsk turn_state 3) = TASK_READY" "t_priority (tsk turn_state 3) = 2"
    using family_facts len by (simp_all add: turn_state_def)
qed


lemma turn_state_ok: "sched_ok turn_state" "runnable_users turn_state = [1, 2, 3]" "turns_ok 2 turn_state"
proof -
  show ok: "sched_ok turn_state"
    using turn_state_facts by (simp add: sched_ok_def)
  show users: "runnable_users turn_state = [1, 2, 3]"
    by (simp add: runnable_users_def turn_state_facts del: One_nat_def)
  show "turns_ok 2 turn_state"
    unfolding turns_ok_def users using ok turn_state_facts by simp
qed

theorem round_robin_witness:
  "turns_ok 2 turn_state \<and> (\<exists>k'. sched_turns [zero_cpu_state, zero_cpu_state] turn_state = Some k' \<and> k_current k' = Some 3)"
  using round_robin [OF turn_state_ok(3), of 0 "[zero_cpu_state, zero_cpu_state]"] turn_state_ok turn_state_facts(3)
  by auto

theorem schedule_runs_best_witness:
  "let k1 = the (sched_leave zero_cpu_state 1 turn_state)
   in sched_leave zero_cpu_state 1 turn_state \<noteq> None \<and>
      (\<exists>n\<in>set (queue_slots k1). k_current (sched_enter k1) = Some n \<and> sched_candidate k1 n)"
proof -
  obtain k1 where k1: "sched_leave zero_cpu_state 1 turn_state = Some k1"
    using turn_state_facts(3,11) by (cases "sched_leave zero_cpu_state 1 turn_state")
      (auto simp: sched_leave_def Let_def split: if_splits option.splits)
  have live: "t_state (tsk turn_state 1) \<noteq> TASK_TERMINATED" by (simp add: turn_state_facts del: One_nat_def)
  note l = sched_leave_live [OF turn_state_ok(1) turn_state_facts(3,7) live k1]
  have r: "\<exists>r\<in>set (queue_slots k1). t_state (tsk k1 r) = TASK_READY" by (simp add: l(2,4) turn_state_facts)
  have c: "sched_candidate k1 2" "2 \<in> set (queue_slots k1)"
    using tcore_eqD(5) [OF l(6)] by (simp_all add: sched_candidate_def task_sched_allowed_def l turn_state_facts)
  have none: "k_sched_only k1 = None" by (simp add: l(9) turn_state_facts)
  obtain n where "n \<in> set (queue_slots k1)" "k_current (sched_enter k1) = Some n" "sched_candidate k1 n"
    using schedule_runs_best [OF turn_state_ok(1) turn_state_facts(3,7) _ k1 r] c none turn_state_facts(4) by auto
  then show ?thesis using k1 by (auto simp: Let_def)
qed

end
