(* ===== verification/Registry.thy ===== *)
theory Registry
  imports Task_Inv "HOL-Library.Sublist"
begin

text \<open>
  The service registry (\<open>kernel/service_registry.c\<close>): published names, their owners and the
  rights that go with them, and the capabilities an owner grants on its backend. The registry
  asks \<open>task.c\<close> for two things, the identity and the key of a PID; they are the two fields of a
  \<open>task_view\<close>. A NULL name is refused like the empty name and is modelled by it; prefixes and
  paths, where NULL and empty differ, are options. Journals and notifications are in the
  theories built on this one.
\<close>

subsection \<open>Constants and data\<close>

abbreviation (input) OS_SERVICE_BAD_NAME :: rc where "OS_SERVICE_BAD_NAME \<equiv> - 50"
abbreviation (input) OS_SERVICE_FULL :: rc where "OS_SERVICE_FULL \<equiv> - 51"
abbreviation (input) OS_SERVICE_TAKEN :: rc where "OS_SERVICE_TAKEN \<equiv> - 52"
abbreviation (input) OS_SERVICE_NOT_FOUND :: rc where "OS_SERVICE_NOT_FOUND \<equiv> - 53"
abbreviation (input) OS_SERVICE_NOT_OWNER :: rc where "OS_SERVICE_NOT_OWNER \<equiv> - 54"
abbreviation (input) OS_SERVICE_BAD_GRANTEE :: rc where "OS_SERVICE_BAD_GRANTEE \<equiv> - 55"
abbreviation (input) OS_SERVICE_WATCH_FULL :: rc where "OS_SERVICE_WATCH_FULL \<equiv> - 56"
abbreviation (input) OS_SERVICE_STALE :: rc where "OS_SERVICE_STALE \<equiv> - 57"
abbreviation (input) OS_SERVICE_NAME_MAX :: nat where "OS_SERVICE_NAME_MAX \<equiv> 16"
abbreviation (input) OS_SERVICE_BACKEND_PREFIX_MAX :: nat where "OS_SERVICE_BACKEND_PREFIX_MAX \<equiv> 48"
abbreviation (input) SERVICE_REGISTRY_CAPACITY :: nat where "SERVICE_REGISTRY_CAPACITY \<equiv> 12"
abbreviation (input) SERVICE_REGISTRY_WATCH_CAPACITY :: nat where "SERVICE_REGISTRY_WATCH_CAPACITY \<equiv> 8"
abbreviation (input) SERVICE_REGISTRY_BACKEND_CAPACITY :: nat where "SERVICE_REGISTRY_BACKEND_CAPACITY \<equiv> 4"
abbreviation (input) SERVICE_REGISTRY_NOTIFY_HISTORY_CAPACITY :: nat where "SERVICE_REGISTRY_NOTIFY_HISTORY_CAPACITY \<equiv> 8"
abbreviation (input) SERVICE_REGISTRY_PERSISTENT_MOUNT_CAPACITY :: nat where "SERVICE_REGISTRY_PERSISTENT_MOUNT_CAPACITY \<equiv> 8"
abbreviation (input) SERVICE_BACKEND_RIGHT_READ :: u32 where "SERVICE_BACKEND_RIGHT_READ \<equiv> 1"
abbreviation (input) SERVICE_BACKEND_RIGHT_MUTATE :: u32 where "SERVICE_BACKEND_RIGHT_MUTATE \<equiv> 2"
abbreviation (input) SERVICE_BACKEND_RIGHT_ALL :: u32 where "SERVICE_BACKEND_RIGHT_ALL \<equiv> 3"
abbreviation (input) OS_SERVICE_BACKEND_SOURCE_ALL :: u32 where "OS_SERVICE_BACKEND_SOURCE_ALL \<equiv> 15"

record reg_entry =
  re_pid :: pid
  re_sequence :: u32
  re_generation :: u32
  re_name :: cstring
  re_backend_generation :: u32
  re_right_token :: u32
  re_identity_key :: u32

record reg_watch =
  rw_pid :: pid
  rw_sequence :: u32
  rw_generation :: u32
  rw_name :: cstring

record notify_event =
  ne_sequence :: u32
  ne_watcher_pid :: pid
  ne_name :: cstring
  ne_old_pid :: pid
  ne_new_pid :: pid
  ne_reason :: u32
  ne_acked :: bool
  ne_replayed :: bool

record backend_cap =
  bc_owner_pid :: pid
  bc_owner_sequence :: u32
  bc_owner_generation :: u32
  bc_grantee_pid :: pid
  bc_grantee_sequence :: u32
  bc_grantee_generation :: u32
  bc_rights :: u32
  bc_sources :: u32
  bc_prefix :: cstring
  bc_name :: cstring
  bc_token :: u32
  bc_identity_key :: u32

record persistent_mount =
  mt_service_name :: cstring
  mt_prefix :: cstring
  mt_source :: u32
  mt_active :: bool

text \<open>
  The static variables of \<open>service_registry.c\<close>. The overflow area is kept in \<open>kstate\<close>. The last
  two fields are the environment of the journals: what \<open>service_registry_event_journal_allowed\<close>
  answers, and the sector writes requested so far, newest first.
\<close>

record registry =
  rg_entries :: "reg_entry list"
  rg_watches :: "reg_watch list"
  rg_history :: "notify_event list"
  rg_notify_seq :: u32
  rg_caps :: "backend_cap list"
  rg_token_next :: u32
  rg_right_token_next :: u32
  rg_mounts :: "persistent_mount list"
  rg_boot_pending :: u8
  rg_event_journal_allowed :: bool
  rg_writes :: "(u32 \<times> u8 list) list"

record task_view =
  tv_identity :: "pid \<Rightarrow> (u32 \<times> u32) option"
  tv_key :: "pid \<Rightarrow> u32 option"

definition task_view_of :: "kstate \<Rightarrow> task_view" where
  "task_view_of k = \<lparr>tv_identity = task_get_identity k, tv_key = task_identity_key k\<rparr>"


subsection \<open>Names, prefixes, identities\<close>

definition name_equal :: "cstring \<Rightarrow> cstring \<Rightarrow> bool" where
  "name_equal l r = str_eq_upto OS_SERVICE_NAME_MAX l r"

definition copy_name :: "cstring \<Rightarrow> cstring" where
  "copy_name s = copy_upto OS_SERVICE_NAME_MAX s"

definition service_registry_backend_prefix_equal :: "cstring \<Rightarrow> cstring option \<Rightarrow> bool" where
  "service_registry_backend_prefix_equal l r =
     (case r of None \<Rightarrow> False | Some p \<Rightarrow> str_eq_upto OS_SERVICE_BACKEND_PREFIX_MAX l p)"

definition service_registry_backend_copy_prefix :: "cstring \<Rightarrow> cstring" where
  "service_registry_backend_copy_prefix s = copy_upto OS_SERVICE_BACKEND_PREFIX_MAX s"

definition name_char :: "char \<Rightarrow> bool" where
  "name_char c \<longleftrightarrow> (let n = of_char c :: nat in
     97 \<le> n \<and> n \<le> 122 \<or> 65 \<le> n \<and> n \<le> 90 \<or> 48 \<le> n \<and> n \<le> 57 \<or> c = CHR ''_'' \<or> c = CHR ''-'')"

fun name_scan :: "nat \<Rightarrow> cstring \<Rightarrow> bool" where
  "name_scan 0 s = False"
| "name_scan (Suc n) s =
     (if rd s 0 = NUL then True else if \<not> name_char (rd s 0) then False else name_scan n (tl s))"

definition service_registry_name_valid :: "cstring \<Rightarrow> bool" where
  "service_registry_name_valid name = (if rd name 0 = NUL then False else name_scan OS_SERVICE_NAME_MAX name)"

definition service_registry_backend_sources_valid :: "u32 \<Rightarrow> bool" where
  "service_registry_backend_sources_valid s \<longleftrightarrow> s \<noteq> 0 \<and> s AND NOT OS_SERVICE_BACKEND_SOURCE_ALL = 0"

text \<open>\<open>n\<close> positions are left and \<open>prev\<close> is the character before the current one.\<close>

fun prefix_scan :: "char option \<Rightarrow> nat \<Rightarrow> cstring \<Rightarrow> bool" where
  "prefix_scan prev 0 s = False"
| "prefix_scan prev (Suc n) s =
     (let c = rd s 0
      in if c = NUL then prev = Some CHR ''/''
         else if c = CHR ''/'' \<and> (prev = None \<or> prev = Some CHR ''/'') then False
         else if c = CHR ''.'' \<and> 0 < n \<and> rd s 1 = CHR ''.'' then False
         else prefix_scan (Some c) n (tl s))"

definition service_registry_backend_prefix_valid :: "cstring option \<Rightarrow> bool" where
  "service_registry_backend_prefix_valid pfx =
     (case pfx of
        None \<Rightarrow> False
      | Some p \<Rightarrow> if rd p 0 = NUL then True else prefix_scan None OS_SERVICE_BACKEND_PREFIX_MAX p)"

fun prefix_loop :: "cstring \<Rightarrow> cstring \<Rightarrow> bool" where
  "prefix_loop [] path = True"
| "prefix_loop (c # s) path =
     (if c = NUL then True else if rd path 0 = NUL \<or> rd path 0 \<noteq> c then False else prefix_loop s (tl path))"

definition service_registry_backend_prefix_matches :: "cstring \<Rightarrow> cstring option \<Rightarrow> bool" where
  "service_registry_backend_prefix_matches pfx path =
     (if rd pfx 0 = NUL then True
      else (case path of None \<Rightarrow> False | Some p \<Rightarrow> prefix_loop pfx p))"

definition task_identity_valid :: "task_view \<Rightarrow> pid \<Rightarrow> u32 \<Rightarrow> u32 \<Rightarrow> bool" where
  "task_identity_valid tv p sequence gen =
     (if p \<le> 0 then False
      else (case tv_identity tv p of
         Some (s, g) \<Rightarrow> if sequence \<noteq> 0 \<or> gen \<noteq> 0 then s = sequence \<and> g = gen else True
       | None \<Rightarrow> sequence = 0 \<and> gen = 0))"

definition identity_key_bound :: "task_view \<Rightarrow> pid \<Rightarrow> u32 \<Rightarrow> bool" where
  "identity_key_bound tv p stored =
     (case tv_key tv p of None \<Rightarrow> stored = 0 | Some live \<Rightarrow> live \<noteq> 0 \<and> stored = live)"

text \<open>\<open>seq = gen = 0; (void)task_get_identity(pid, &seq, &gen);\<close> and the same for the key.\<close>

definition identity_or_zero :: "task_view \<Rightarrow> pid \<Rightarrow> u32 \<times> u32" where
  "identity_or_zero tv p = (case tv_identity tv p of None \<Rightarrow> (0, 0) | Some i \<Rightarrow> i)"

definition key_or_zero :: "task_view \<Rightarrow> pid \<Rightarrow> u32" where
  "key_or_zero tv p = (case tv_key tv p of None \<Rightarrow> 0 | Some x \<Rightarrow> x)"


subsection \<open>Entries\<close>

definition upd_entry :: "nat \<Rightarrow> (reg_entry \<Rightarrow> reg_entry) \<Rightarrow> registry \<Rightarrow> registry" where
  "upd_entry i f r = r\<lparr>rg_entries := (rg_entries r)[i := f (rg_entries r ! i)]\<rparr>"

definition upd_cap :: "nat \<Rightarrow> (backend_cap \<Rightarrow> backend_cap) \<Rightarrow> registry \<Rightarrow> registry" where
  "upd_cap i f r = r\<lparr>rg_caps := (rg_caps r)[i := f (rg_caps r ! i)]\<rparr>"

definition live_named :: "cstring \<Rightarrow> reg_entry \<Rightarrow> bool" where
  "live_named name e \<longleftrightarrow> re_pid e > 0 \<and> name_equal (re_name e) name"

definition service_registry_backend_generation_bump :: "cstring \<Rightarrow> registry \<Rightarrow> registry" where
  "service_registry_backend_generation_bump name r =
     (case first_idx (live_named name) (rg_entries r) of
        None \<Rightarrow> r
      | Some i \<Rightarrow> upd_entry i (\<lambda>e. e\<lparr>re_backend_generation := next_nonzero (re_backend_generation e)\<rparr>) r)"

definition service_registry_backend_generation_of :: "cstring \<Rightarrow> registry \<Rightarrow> u32" where
  "service_registry_backend_generation_of name r =
     (case first_idx (live_named name) (rg_entries r) of
        None \<Rightarrow> 0 | Some i \<Rightarrow> re_backend_generation (rg_entries r ! i))"

definition clear_cap :: "backend_cap \<Rightarrow> backend_cap" where
  "clear_cap c = c\<lparr>bc_owner_pid := 0, bc_grantee_pid := 0, bc_rights := 0, bc_sources := 0,
     bc_prefix := clear0 (bc_prefix c), bc_name := clear0 (bc_name c), bc_token := 0, bc_identity_key := 0\<rparr>"

definition service_registry_backend_remove_name :: "cstring \<Rightarrow> registry \<Rightarrow> registry" where
  "service_registry_backend_remove_name name r =
     (if \<not> service_registry_name_valid name then r
      else
        let hit = (\<lambda>c. bc_owner_pid c > 0 \<and> name_equal (bc_name c) name);
            r' = r\<lparr>rg_caps := map (\<lambda>c. if hit c then clear_cap c else c) (rg_caps r)\<rparr>
        in if \<exists>c\<in>set (rg_caps r). hit c then service_registry_backend_generation_bump name r' else r')"

definition remove_pid_cap :: "pid \<Rightarrow> nat \<Rightarrow> registry \<Rightarrow> registry" where
  "remove_pid_cap p i r =
     (let c = rg_caps r ! i
      in if bc_owner_pid c = p \<or> bc_grantee_pid c = p
         then upd_cap i clear_cap (service_registry_backend_generation_bump (bc_name c) r) else r)"

definition service_registry_backend_remove_pid :: "pid \<Rightarrow> registry \<Rightarrow> registry" where
  "service_registry_backend_remove_pid p r =
     (if p \<le> 0 then r else fold (remove_pid_cap p) [0..<SERVICE_REGISTRY_BACKEND_CAPACITY] r)"

definition clear_entry :: "reg_entry \<Rightarrow> reg_entry" where
  "clear_entry e = e\<lparr>re_pid := 0, re_sequence := 0, re_generation := 0, re_name := clear0 (re_name e)\<rparr>"

definition entry_valid :: "task_view \<Rightarrow> reg_entry \<Rightarrow> bool" where
  "entry_valid tv e = task_identity_valid tv (re_pid e) (re_sequence e) (re_generation e)"

definition service_registry_lookup :: "task_view \<Rightarrow> cstring \<Rightarrow> registry \<Rightarrow> rc \<times> registry" where
  "service_registry_lookup tv name r =
     (if \<not> service_registry_name_valid name then (OS_SERVICE_BAD_NAME, r)
      else (case first_idx (live_named name) (rg_entries r) of
         None \<Rightarrow> (OS_SERVICE_NOT_FOUND, r)
       | Some i \<Rightarrow>
           if entry_valid tv (rg_entries r ! i) then (re_pid (rg_entries r ! i), r)
           else (OS_SERVICE_NOT_FOUND, service_registry_backend_remove_name name (upd_entry i clear_entry r))))"

definition mint_right_token :: "registry \<Rightarrow> u32 \<times> registry" where
  "mint_right_token r =
     (let token = rg_right_token_next r
      in (if token = 0 then 1 else token, r\<lparr>rg_right_token_next := next_nonzero token\<rparr>))"

text \<open>
  The search of \<open>service_registry_register\<close>: the first free slot seen, unless an entry of that
  name comes first to decide (\<open>Inl\<close> a return code, \<open>Inr\<close> the slot to use).
\<close>

fun register_scan :: "task_view \<Rightarrow> cstring \<Rightarrow> pid \<Rightarrow> nat \<Rightarrow> nat option \<Rightarrow> reg_entry list \<Rightarrow> rc + nat" where
  "register_scan tv name p i free [] = (case free of None \<Rightarrow> Inl OS_SERVICE_FULL | Some j \<Rightarrow> Inr j)"
| "register_scan tv name p i free (e # es) =
     (if re_pid e = 0 then register_scan tv name p (Suc i) (if free = None then Some i else free) es
      else if name_equal (re_name e) name then
        if re_pid e = p \<and> task_identity_valid tv p (re_sequence e) (re_generation e) then Inl 0
        else if \<not> entry_valid tv e then Inr i
        else Inl OS_SERVICE_TAKEN
      else register_scan tv name p (Suc i) free es)"

text \<open>The last call of the function, \<open>service_registry_persistent_mount_restore\<close>, only counts mounts.\<close>

definition service_registry_register :: "task_view \<Rightarrow> cstring \<Rightarrow> pid \<Rightarrow> registry \<Rightarrow> rc \<times> registry" where
  "service_registry_register tv name p r =
     (if \<not> service_registry_name_valid name \<or> p \<le> 0 then (OS_SERVICE_BAD_NAME, r)
      else (case register_scan tv name p 0 None (rg_entries r) of
         Inl v \<Rightarrow> (v, r)
       | Inr i \<Rightarrow>
           (case mint_right_token r of
              (token, r1) \<Rightarrow>
                (0, upd_entry i (\<lambda>e. e\<lparr>re_pid := p, re_sequence := fst (identity_or_zero tv p),
                      re_generation := snd (identity_or_zero tv p), re_name := copy_name name,
                      re_backend_generation := 1, re_right_token := token, re_identity_key := key_or_zero tv p\<rparr>) r1))))"

definition service_registry_remove :: "task_view \<Rightarrow> cstring \<Rightarrow> pid \<Rightarrow> registry \<Rightarrow> rc \<times> registry" where
  "service_registry_remove tv name p r =
     (if \<not> service_registry_name_valid name \<or> p \<le> 0 then (OS_SERVICE_BAD_NAME, r)
      else (case first_idx (\<lambda>e. re_pid e = p \<and> name_equal (re_name e) name \<and> entry_valid tv e) (rg_entries r) of
         None \<Rightarrow> (OS_SERVICE_NOT_FOUND, r)
       | Some i \<Rightarrow> (0, service_registry_backend_remove_name name (upd_entry i clear_entry r))))"

definition service_registry_pid_is_owner :: "task_view \<Rightarrow> pid \<Rightarrow> registry \<Rightarrow> bool" where
  "service_registry_pid_is_owner tv p r = (if p \<le> 0 then False else \<exists>e\<in>set (rg_entries r). re_pid e = p \<and> entry_valid tv e)"

text \<open>\<open>out\<close> is the caller's array, of at least \<open>mx\<close> entries; \<open>None\<close> is NULL.\<close>

definition service_registry_collect_owned ::
    "task_view \<Rightarrow> pid \<Rightarrow> reg_entry list option \<Rightarrow> nat \<Rightarrow> registry \<Rightarrow> rc \<times> reg_entry list option" where
  "service_registry_collect_owned tv p out mx r =
     (if p \<le> 0 \<or> out = None \<and> mx > 0 then (OS_SERVICE_NOT_FOUND, out)
      else
        let owned = filter (\<lambda>e. re_pid e = p \<and> entry_valid tv e) (rg_entries r); kept = take mx owned
        in (int (length owned), map_option (\<lambda>a. kept @ drop (length kept) a) out))"


subsection \<open>Backend capabilities\<close>

definition cap_held_by :: "pid \<Rightarrow> cstring \<Rightarrow> backend_cap \<Rightarrow> bool" where
  "cap_held_by p name c \<longleftrightarrow> bc_grantee_pid c = p \<and> name_equal (bc_name c) name"

definition cap_between :: "pid \<Rightarrow> pid \<Rightarrow> cstring \<Rightarrow> backend_cap \<Rightarrow> bool" where
  "cap_between owner grantee name c \<longleftrightarrow> bc_owner_pid c = owner \<and> bc_grantee_pid c = grantee \<and> name_equal (bc_name c) name"

text \<open>
  The conditions on one capability before and after the call of \<open>service_registry_lookup\<close>, which
  may itself purge the registry; the conjunction is evaluated left to right.
\<close>

definition cap_allows :: "task_view \<Rightarrow> pid \<Rightarrow> u32 \<Rightarrow> u32 \<Rightarrow> cstring option \<Rightarrow> backend_cap \<Rightarrow> bool" where
  "cap_allows tv p right source path c \<longleftrightarrow>
     task_identity_valid tv (bc_owner_pid c) (bc_owner_sequence c) (bc_owner_generation c) \<and>
     bc_token c \<noteq> 0 \<and> bc_rights c AND right = right \<and> bc_sources c AND source = source \<and>
     identity_key_bound tv p (bc_identity_key c) \<and>
     service_registry_backend_prefix_matches (bc_prefix c) path"

fun allowed_loop :: "task_view \<Rightarrow> cstring \<Rightarrow> pid \<Rightarrow> u32 \<Rightarrow> u32 \<Rightarrow> cstring option \<Rightarrow> nat list \<Rightarrow> registry \<Rightarrow> bool \<times> registry" where
  "allowed_loop tv name p right source path [] r = (False, r)"
| "allowed_loop tv name p right source path (i # is) r =
     (let c = rg_caps r ! i
      in if bc_grantee_pid c = p \<and>
            task_identity_valid tv p (bc_grantee_sequence c) (bc_grantee_generation c) \<and> name_equal (bc_name c) name
         then (case service_registry_lookup tv name r of
             (owner, r') \<Rightarrow>
               let c' = rg_caps r' ! i
               in if owner = bc_owner_pid c' \<and> cap_allows tv p right source path c' then (True, r')
                  else allowed_loop tv name p right source path is r')
         else allowed_loop tv name p right source path is r)"

definition service_registry_backend_allowed_for_source_path ::
    "task_view \<Rightarrow> cstring \<Rightarrow> pid \<Rightarrow> u32 \<Rightarrow> u32 \<Rightarrow> cstring option \<Rightarrow> registry \<Rightarrow> bool \<times> registry" where
  "service_registry_backend_allowed_for_source_path tv name p right source path r =
     (if right = 0 \<or> right AND NOT SERVICE_BACKEND_RIGHT_ALL \<noteq> 0 \<or> \<not> service_registry_backend_sources_valid source
      then (False, r)
      else allowed_loop tv name p right source path [0..<SERVICE_REGISTRY_BACKEND_CAPACITY] r)"

definition service_registry_backend_allowed_for_source ::
    "task_view \<Rightarrow> cstring \<Rightarrow> pid \<Rightarrow> u32 \<Rightarrow> u32 \<Rightarrow> registry \<Rightarrow> bool \<times> registry" where
  "service_registry_backend_allowed_for_source tv name p right source r =
     service_registry_backend_allowed_for_source_path tv name p right source None r"

definition service_registry_backend_allowed_for ::
    "task_view \<Rightarrow> cstring \<Rightarrow> pid \<Rightarrow> u32 \<Rightarrow> registry \<Rightarrow> bool \<times> registry" where
  "service_registry_backend_allowed_for tv name p right r =
     service_registry_backend_allowed_for_source tv name p right OS_SERVICE_BACKEND_SOURCE_ALL r"

definition service_registry_backend_allowed :: "task_view \<Rightarrow> cstring \<Rightarrow> pid \<Rightarrow> registry \<Rightarrow> bool \<times> registry" where
  "service_registry_backend_allowed tv name p r =
     service_registry_backend_allowed_for tv name p SERVICE_BACKEND_RIGHT_ALL r"

text \<open>\<open>token = next++; if (next == 0) next = 1;\<close>\<close>

definition mint_backend_token :: "registry \<Rightarrow> u32 \<times> registry" where
  "mint_backend_token r = (rg_token_next r, r\<lparr>rg_token_next := next_nonzero (rg_token_next r)\<rparr>)"

definition stamp_cap :: "task_view \<Rightarrow> pid \<Rightarrow> pid \<Rightarrow> backend_cap \<Rightarrow> backend_cap" where
  "stamp_cap tv owner grantee c = c\<lparr>bc_owner_sequence := fst (identity_or_zero tv owner),
     bc_owner_generation := snd (identity_or_zero tv owner),
     bc_grantee_sequence := fst (identity_or_zero tv grantee),
     bc_grantee_generation := snd (identity_or_zero tv grantee), bc_identity_key := key_or_zero tv grantee\<rparr>"

text \<open>The branch for a capability that exists already.\<close>

definition regrant :: "task_view \<Rightarrow> cstring \<Rightarrow> pid \<Rightarrow> pid \<Rightarrow> u32 \<Rightarrow> u32 \<Rightarrow> cstring \<Rightarrow> nat \<Rightarrow> registry \<Rightarrow> registry" where
  "regrant tv name owner grantee rights sources pfx i r =
     (let c = rg_caps r ! i; rights' = bc_rights c OR rights; sources' = bc_sources c OR sources
      in if bc_rights c \<noteq> rights' \<or> bc_sources c \<noteq> sources' \<or>
            \<not> service_registry_backend_prefix_equal (bc_prefix c) (Some pfx)
         then
           let r1 = upd_cap i (\<lambda>c. (stamp_cap tv owner grantee (c\<lparr>bc_rights := rights', bc_sources := sources'\<rparr>))\<lparr>
                 bc_prefix := service_registry_backend_copy_prefix pfx\<rparr>) r;
               r2 = (if bc_token c = 0
                     then (case mint_backend_token r1 of (token, q) \<Rightarrow> upd_cap i (\<lambda>c. c\<lparr>bc_token := token\<rparr>) q) else r1)
           in service_registry_backend_generation_bump name r2
         else r)"

definition service_registry_backend_grant_scoped_source_prefix ::
    "task_view \<Rightarrow> cstring \<Rightarrow> pid \<Rightarrow> pid \<Rightarrow> u32 \<Rightarrow> u32 \<Rightarrow> cstring option \<Rightarrow> registry \<Rightarrow> rc \<times> registry" where
  "service_registry_backend_grant_scoped_source_prefix tv name owner grantee rights sources pfx r =
     (if \<not> service_registry_name_valid name \<or> owner \<le> 0 \<or> grantee \<le> 0 \<or> rights = 0 \<or>
         rights AND NOT SERVICE_BACKEND_RIGHT_ALL \<noteq> 0 \<or> \<not> service_registry_backend_sources_valid sources \<or>
         \<not> service_registry_backend_prefix_valid pfx
      then (OS_SERVICE_BAD_NAME, r)
      else (case service_registry_lookup tv name r of
         (v, r1) \<Rightarrow>
           if v \<noteq> owner then (OS_SERVICE_NOT_OWNER, r1)
           else (case first_idx (cap_between owner grantee name) (rg_caps r1) of
              Some i \<Rightarrow> (0, regrant tv name owner grantee rights sources (the pfx) i r1)
            | None \<Rightarrow>
                (case first_idx (\<lambda>c. bc_owner_pid c = 0) (rg_caps r1) of
                   None \<Rightarrow> (OS_SERVICE_FULL, r1)
                 | Some i \<Rightarrow>
                     (case mint_backend_token r1 of
                        (token, r2) \<Rightarrow>
                          (0, service_registry_backend_generation_bump name
                             (upd_cap i (\<lambda>c. (stamp_cap tv owner grantee c)\<lparr>bc_owner_pid := owner,
                                bc_grantee_pid := grantee, bc_rights := rights, bc_sources := sources, bc_token := token,
                                bc_prefix := service_registry_backend_copy_prefix (the pfx), bc_name := copy_name name\<rparr>) r2)))))))"

definition service_registry_backend_grant_scoped_source ::
    "task_view \<Rightarrow> cstring \<Rightarrow> pid \<Rightarrow> pid \<Rightarrow> u32 \<Rightarrow> u32 \<Rightarrow> registry \<Rightarrow> rc \<times> registry" where
  "service_registry_backend_grant_scoped_source tv name owner grantee rights sources r =
     service_registry_backend_grant_scoped_source_prefix tv name owner grantee rights sources (Some []) r"

definition service_registry_backend_grant_scoped ::
    "task_view \<Rightarrow> cstring \<Rightarrow> pid \<Rightarrow> pid \<Rightarrow> u32 \<Rightarrow> registry \<Rightarrow> rc \<times> registry" where
  "service_registry_backend_grant_scoped tv name owner grantee rights r =
     service_registry_backend_grant_scoped_source tv name owner grantee rights OS_SERVICE_BACKEND_SOURCE_ALL r"

definition service_registry_backend_grant ::
    "task_view \<Rightarrow> cstring \<Rightarrow> pid \<Rightarrow> pid \<Rightarrow> registry \<Rightarrow> rc \<times> registry" where
  "service_registry_backend_grant tv name owner grantee r =
     service_registry_backend_grant_scoped tv name owner grantee SERVICE_BACKEND_RIGHT_ALL r"

text \<open>
  Handing a name over. \<open>service_registry_lookup ''vfs-virtual''\<close> is called only for the name \<open>vfs\<close>.
\<close>

definition service_registry_grant :: "task_view \<Rightarrow> cstring \<Rightarrow> pid \<Rightarrow> pid \<Rightarrow> registry \<Rightarrow> rc \<times> registry" where
  "service_registry_grant tv name owner grantee r =
     (if \<not> service_registry_name_valid name \<or> owner \<le> 0 then (OS_SERVICE_BAD_NAME, r)
      else if grantee \<le> 0 then (OS_SERVICE_BAD_GRANTEE, r)
      else (case first_idx (\<lambda>e. name_equal (re_name e) name) (rg_entries r) of
         None \<Rightarrow> (OS_SERVICE_NOT_FOUND, r)
       | Some i \<Rightarrow>
           let e = rg_entries r ! i
           in if re_pid e \<noteq> owner \<or> \<not> task_identity_valid tv owner (re_sequence e) (re_generation e)
              then (OS_SERVICE_NOT_OWNER, r)
              else
                let r1 = service_registry_backend_remove_name name (upd_entry i (\<lambda>e. e\<lparr>re_pid := grantee,
                      re_sequence := fst (identity_or_zero tv grantee), re_generation := snd (identity_or_zero tv grantee),
                      re_identity_key := key_or_zero tv grantee\<rparr>) r)
                in if name_equal name ''vfs''
                   then (case service_registry_lookup tv ''vfs-virtual'' r1 of
                       (v, r2) \<Rightarrow>
                         if v > 0
                         then (0, snd (service_registry_backend_grant_scoped_source tv name grantee grantee
                                SERVICE_BACKEND_RIGHT_ALL OS_SERVICE_BACKEND_SOURCE_ALL r2))
                         else (0, r2))
                   else (0, r1)))"

text \<open>
  \<open>service_registry_backend_revoke\<close> clears the whole capability; \<open>service_registry_backend_release\<close>
  leaves the sources and the prefix.
\<close>

definition service_registry_backend_revoke :: "task_view \<Rightarrow> cstring \<Rightarrow> pid \<Rightarrow> pid \<Rightarrow> registry \<Rightarrow> rc \<times> registry" where
  "service_registry_backend_revoke tv name owner grantee r =
     (if \<not> service_registry_name_valid name \<or> owner \<le> 0 \<or> grantee \<le> 0 then (OS_SERVICE_BAD_NAME, r)
      else (case service_registry_lookup tv name r of
         (v, r1) \<Rightarrow>
           if v \<noteq> owner then (OS_SERVICE_NOT_OWNER, r1)
           else (case first_idx (cap_between owner grantee name) (rg_caps r1) of
              None \<Rightarrow> (OS_SERVICE_NOT_FOUND, r1)
            | Some i \<Rightarrow> (0, service_registry_backend_generation_bump name (upd_cap i clear_cap r1)))))"

definition service_registry_backend_release :: "cstring \<Rightarrow> pid \<Rightarrow> registry \<Rightarrow> rc \<times> registry" where
  "service_registry_backend_release name grantee r =
     (if \<not> service_registry_name_valid name \<or> grantee \<le> 0 then (OS_SERVICE_BAD_NAME, r)
      else (case first_idx (cap_held_by grantee name) (rg_caps r) of
         None \<Rightarrow> (OS_SERVICE_NOT_FOUND, r)
       | Some i \<Rightarrow>
           (0, service_registry_backend_generation_bump name
              (upd_cap i (\<lambda>c. c\<lparr>bc_owner_pid := 0, bc_grantee_pid := 0, bc_rights := 0, bc_token := 0,
                 bc_identity_key := 0, bc_name := clear0 (bc_name c)\<rparr>) r))))"

definition service_registry_backend_clear_token :: "cstring \<Rightarrow> pid \<Rightarrow> registry \<Rightarrow> rc \<times> registry" where
  "service_registry_backend_clear_token name grantee r =
     (if \<not> service_registry_name_valid name \<or> grantee \<le> 0 then (OS_SERVICE_BAD_NAME, r)
      else (case first_idx (cap_held_by grantee name) (rg_caps r) of
         None \<Rightarrow> (OS_SERVICE_NOT_FOUND, r)
       | Some i \<Rightarrow> (0, upd_cap i (\<lambda>c. c\<lparr>bc_token := 0, bc_identity_key := 0\<rparr>) r)))"

definition service_registry_backend_token_of :: "task_view \<Rightarrow> cstring \<Rightarrow> pid \<Rightarrow> u32 option \<Rightarrow> registry \<Rightarrow> rc \<times> u32 option" where
  "service_registry_backend_token_of tv name grantee out r =
     (case out of
        None \<Rightarrow> (OS_SERVICE_BAD_NAME, None)
      | Some _ \<Rightarrow>
          if \<not> service_registry_name_valid name \<or> grantee \<le> 0 then (OS_SERVICE_BAD_NAME, Some 0)
          else (case first_idx (\<lambda>c. bc_grantee_pid c = grantee \<and> bc_token c \<noteq> 0 \<and> name_equal (bc_name c) name \<and>
                  task_identity_valid tv grantee (bc_grantee_sequence c) (bc_grantee_generation c)) (rg_caps r) of
             None \<Rightarrow> (OS_SERVICE_NOT_FOUND, Some 0)
           | Some i \<Rightarrow> (0, Some (bc_token (rg_caps r ! i)))))"

definition live_cap :: "pid \<Rightarrow> pid \<Rightarrow> cstring \<Rightarrow> backend_cap \<Rightarrow> bool" where
  "live_cap owner grantee name c \<longleftrightarrow> cap_between owner grantee name c \<and> bc_token c \<noteq> 0"

definition service_registry_backend_rights ::
    "task_view \<Rightarrow> cstring \<Rightarrow> pid \<Rightarrow> pid \<Rightarrow> u32 option \<Rightarrow> registry \<Rightarrow> (rc \<times> u32 option) \<times> registry" where
  "service_registry_backend_rights tv name owner grantee out r =
     (if \<not> service_registry_name_valid name \<or> owner \<le> 0 \<or> grantee \<le> 0 \<or> out = None then ((OS_SERVICE_BAD_NAME, out), r)
      else (case service_registry_lookup tv name r of
         (v, r1) \<Rightarrow>
           if v \<noteq> owner then ((OS_SERVICE_NOT_OWNER, out), r1)
           else (case first_idx (live_cap owner grantee name) (rg_caps r1) of
              None \<Rightarrow> ((OS_SERVICE_NOT_FOUND, out), r1)
            | Some i \<Rightarrow> ((0, Some (bc_rights (rg_caps r1 ! i))), r1))))"

text \<open>\<open>os_service_backend_scope_t\<close> is the pair of its rights and its sources.\<close>

definition service_registry_backend_scope ::
    "task_view \<Rightarrow> cstring \<Rightarrow> pid \<Rightarrow> pid \<Rightarrow> (u32 \<times> u32) option \<Rightarrow> registry \<Rightarrow> (rc \<times> (u32 \<times> u32) option) \<times> registry" where
  "service_registry_backend_scope tv name owner grantee out r =
     (if out = None then ((OS_SERVICE_BAD_NAME, None), r)
      else if \<not> service_registry_name_valid name \<or> owner \<le> 0 \<or> grantee \<le> 0 then ((OS_SERVICE_BAD_NAME, Some (0, 0)), r)
      else (case service_registry_lookup tv name r of
         (v, r1) \<Rightarrow>
           if v \<noteq> owner then ((OS_SERVICE_NOT_OWNER, Some (0, 0)), r1)
           else (case first_idx (live_cap owner grantee name) (rg_caps r1) of
              None \<Rightarrow> ((OS_SERVICE_NOT_FOUND, Some (0, 0)), r1)
            | Some i \<Rightarrow> ((0, Some (bc_rights (rg_caps r1 ! i), bc_sources (rg_caps r1 ! i))), r1))))"

record backend_list =
  bl_count :: nat
  bl_entries :: "(pid \<times> u32) list"

definition zero_backend_list :: backend_list where
  "zero_backend_list = \<lparr>bl_count = 0, bl_entries = replicate SERVICE_REGISTRY_BACKEND_CAPACITY (0, 0)\<rparr>"

definition service_registry_backend_list ::
    "task_view \<Rightarrow> cstring \<Rightarrow> pid \<Rightarrow> backend_list option \<Rightarrow> registry \<Rightarrow> (rc \<times> backend_list option) \<times> registry" where
  "service_registry_backend_list tv name owner out r =
     (if out = None then ((OS_SERVICE_BAD_NAME, None), r)
      else if \<not> service_registry_name_valid name \<or> owner \<le> 0 then ((OS_SERVICE_BAD_NAME, Some zero_backend_list), r)
      else (case service_registry_lookup tv name r of
         (v, r1) \<Rightarrow>
           if v \<noteq> owner then ((OS_SERVICE_NOT_OWNER, Some zero_backend_list), r1)
           else
             let es = map (\<lambda>c. (bc_grantee_pid c, bc_rights c)) (filter (\<lambda>c. bc_owner_pid c = owner \<and>
                   bc_grantee_pid c > 0 \<and> bc_token c \<noteq> 0 \<and> name_equal (bc_name c) name) (rg_caps r1))
             in ((0, Some \<lparr>bl_count = length es, bl_entries = es @ drop (length es) (bl_entries zero_backend_list)\<rparr>), r1)))"

record backend_snapshot =
  bs_generation :: u32
  bs_list :: backend_list

definition service_registry_backend_observe ::
    "task_view \<Rightarrow> cstring \<Rightarrow> pid \<Rightarrow> u32 \<Rightarrow> backend_snapshot option \<Rightarrow> registry \<Rightarrow> (rc \<times> backend_snapshot option) \<times> registry" where
  "service_registry_backend_observe tv name owner expected out r =
     (if out = None then ((OS_SERVICE_BAD_NAME, None), r)
      else (case service_registry_backend_list tv name owner (Some zero_backend_list) r of
         ((status, l), r1) \<Rightarrow>
           if status \<noteq> 0 then ((status, Some \<lparr>bs_generation = 0, bs_list = the l\<rparr>), r1)
           else
             let g = service_registry_backend_generation_of name r1
             in if expected \<noteq> 0 \<and> expected \<noteq> g
                then ((OS_SERVICE_STALE, Some \<lparr>bs_generation = g, bs_list = zero_backend_list\<rparr>), r1)
                else ((0, Some \<lparr>bs_generation = g, bs_list = the l\<rparr>), r1)))"


subsection \<open>Rights that go with a name\<close>

definition service_right_held :: "task_view \<Rightarrow> cstring \<Rightarrow> pid \<Rightarrow> registry \<Rightarrow> bool" where
  "service_right_held tv name p r \<longleftrightarrow>
     (\<exists>e\<in>set (rg_entries r). re_pid e = p \<and> name_equal (re_name e) name \<and> re_right_token e \<noteq> 0 \<and>
        task_identity_valid tv p (re_sequence e) (re_generation e) \<and> identity_key_bound tv p (re_identity_key e))"

definition service_registry_right_token_of :: "task_view \<Rightarrow> cstring \<Rightarrow> pid \<Rightarrow> u32 option \<Rightarrow> registry \<Rightarrow> rc \<times> u32 option" where
  "service_registry_right_token_of tv name p out r =
     (if out = None then (OS_SERVICE_BAD_NAME, None)
      else if \<not> service_registry_name_valid name \<or> p \<le> 0 then (OS_SERVICE_BAD_NAME, Some 0)
      else (case first_idx (\<lambda>e. live_named name e \<and> re_pid e = p \<and> service_right_held tv name p r) (rg_entries r) of
         Some i \<Rightarrow> (0, Some (re_right_token (rg_entries r ! i)))
       | None \<Rightarrow> (if \<exists>e\<in>set (rg_entries r). live_named name e then OS_SERVICE_NOT_OWNER else OS_SERVICE_NOT_FOUND, Some 0)))"

definition service_registry_ata_ports_granted :: "task_view \<Rightarrow> pid \<Rightarrow> registry \<Rightarrow> bool" where
  "service_registry_ata_ports_granted tv p r = (if p \<le> 0 then False else service_right_held tv ''ata-driver'' p r)"

definition service_registry_owner_bypasses_backend :: "task_view \<Rightarrow> cstring \<Rightarrow> pid \<Rightarrow> u32 \<Rightarrow> registry \<Rightarrow> bool \<times> registry" where
  "service_registry_owner_bypasses_backend tv name p source r =
     (if p \<le> 0 then (False, r)
      else (case service_registry_lookup tv name r of
         (v, r1) \<Rightarrow>
           if v \<noteq> p then (False, r1)
           else if service_registry_backend_sources_valid source
           then (case service_registry_lookup tv ''vfs-virtual'' r1 of (w, r2) \<Rightarrow> (\<not> w > 0, r2))
           else (True, r1)))"

definition service_registry_ata_overlay_io_via_worker :: "task_view \<Rightarrow> pid \<Rightarrow> registry \<Rightarrow> bool \<times> registry" where
  "service_registry_ata_overlay_io_via_worker tv p r =
     (if p \<le> 0 then (False, r)
      else (case service_registry_lookup tv ''vfs-virtual'' r of
         (worker, r1) \<Rightarrow> (if worker \<le> 0 then True else p = worker, r1)))"

abbreviation (input) SERVICE_HIST_READ_DENIED :: rc where "SERVICE_HIST_READ_DENIED \<equiv> 0"
abbreviation (input) SERVICE_HIST_READ_FULL :: rc where "SERVICE_HIST_READ_FULL \<equiv> 1"
abbreviation (input) SERVICE_HIST_READ_INITRD_ONLY :: rc where "SERVICE_HIST_READ_INITRD_ONLY \<equiv> 2"
abbreviation (input) SERVICE_HIST_READ_WORKER_REQUIRED :: rc where "SERVICE_HIST_READ_WORKER_REQUIRED \<equiv> 3"

definition service_registry_historical_read_decision :: "task_view \<Rightarrow> pid \<Rightarrow> bool \<Rightarrow> registry \<Rightarrow> rc \<times> registry" where
  "service_registry_historical_read_decision tv p overlay_hit r =
     (if p \<le> 0 then (SERVICE_HIST_READ_DENIED, r)
      else (case service_registry_ata_overlay_io_via_worker tv p r of
         (ok, r1) \<Rightarrow>
           (if ok then SERVICE_HIST_READ_FULL
            else if overlay_hit then SERVICE_HIST_READ_WORKER_REQUIRED
            else SERVICE_HIST_READ_INITRD_ONLY, r1)))"

definition service_registry_net_io_via_worker :: "task_view \<Rightarrow> pid \<Rightarrow> registry \<Rightarrow> bool \<times> registry" where
  "service_registry_net_io_via_worker tv p r =
     (if p \<le> 0 then (False, r)
      else (case service_registry_lookup tv ''net-driver'' r of
         (worker, r1) \<Rightarrow> (if worker \<le> 0 then True else p = worker \<and> service_right_held tv ''net-driver'' p r1, r1)))"

text \<open>The pairs of a pinned service name and the only binary that may hold it.\<close>

definition pinned_names :: "(cstring \<times> cstring) list" where
  "pinned_names = [(''ata-driver'', ''atadriver''), (''ata-client'', ''ataclient''), (''ai-engine'', ''aiworker''),
     (''pci-driver'', ''pcidriver''), (''ps2-driver'', ''ps2driver''), (''serial-driver'', ''serialdriver''),
     (''vga-driver'', ''vgadriver''), (''usb-driver'', ''usbdriver'')]"

definition service_registry_ata_driver_name_allowed :: "cstring \<Rightarrow> cstring option \<Rightarrow> bool" where
  "service_registry_ata_driver_name_allowed service task_name =
     (case find (\<lambda>p. name_equal service (fst p)) pinned_names of
        None \<Rightarrow> True
      | Some p \<Rightarrow> (case task_name of None \<Rightarrow> False | Some t \<Rightarrow> name_equal t (snd p)))"

definition service_registry_net_syscall_gated :: "u32 \<Rightarrow> bool" where
  "service_registry_net_syscall_gated n \<longleftrightarrow>
     91 \<le> n \<and> n \<le> 98 \<or> 99 \<le> n \<and> n \<le> 108 \<or> n = 144 \<or> 128 \<le> n \<and> n \<le> 130 \<or> n = 156"

definition service_registry_net_syscall_allowed :: "task_view \<Rightarrow> pid \<Rightarrow> u32 \<Rightarrow> registry \<Rightarrow> bool \<times> registry" where
  "service_registry_net_syscall_allowed tv p n r =
     (if \<not> service_registry_net_syscall_gated n then (True, r) else service_registry_net_io_via_worker tv p r)"


subsection \<open>A task that ends\<close>

definition forget_owner :: "reg_entry \<Rightarrow> reg_entry" where
  "forget_owner e = e\<lparr>re_pid := 0, re_name := clear0 (re_name e), re_right_token := 0, re_identity_key := 0\<rparr>"

definition forget_watcher :: "notify_event \<Rightarrow> notify_event" where
  "forget_watcher h = h\<lparr>ne_sequence := 0, ne_watcher_pid := 0, ne_name := clear0 (ne_name h), ne_acked := False\<rparr>"

definition service_registry_remove_pid :: "pid \<Rightarrow> registry \<times> spill \<Rightarrow> rc \<times> registry \<times> spill" where
  "service_registry_remove_pid p rs =
     (case rs of (r, s) \<Rightarrow>
        if p \<le> 0 then (OS_SERVICE_NOT_FOUND, r, s)
        else
          let r1 = service_registry_backend_remove_pid p r;
              removed = (\<exists>e\<in>set (rg_entries r1). re_pid e = p);
              r2 = r1\<lparr>rg_entries := map (\<lambda>e. if re_pid e = p then forget_owner e else e) (rg_entries r1),
                     rg_history := map (\<lambda>h. if ne_watcher_pid h = p then forget_watcher h else h) (rg_history r1)\<rparr>
          in (if removed then 0 else OS_SERVICE_NOT_FOUND, r2, ipc_spill_clear_pid p s))"

end
