(* ===== verification/Task_Calls.thy ===== *)
theory Task_Calls
  imports Task_Report Scheduler Registry
begin

text \<open>
  The system calls on tasks and messages (\<open>kernel/syscall/syscall.c\<close>): each is the operation of
  \<open>task.c\<close> or \<open>ipc.c\<close> applied for the current task. A call that gives up the CPU is split where
  it calls \<open>schedule\<close>: \<open>Inl\<close> is a call that has returned, \<open>Inr\<close> the state in which the task is
  parked. \<open>frame\<close> says that the task has a saved system call frame, \<open>rpc\<close> that a task waits for
  the disk driver, and \<open>kctx\<close> is the continuation \<open>kctx_save\<close> stores.
\<close>

abbreviation (input) IPC_SERVICE_ENDPOINT_CAPACITY :: nat where "IPC_SERVICE_ENDPOINT_CAPACITY \<equiv> 2"
abbreviation (input) OS_IPC_WAIT_FOREVER :: u32 where "OS_IPC_WAIT_FOREVER \<equiv> 0xFFFFFFFF"
abbreviation (input) USER_ARGUMENT :: u32 where "USER_ARGUMENT \<equiv> 0xAFFFFE00"

subsection \<open>Messages\<close>

definition sys_ipc_send :: "registry \<Rightarrow> pid \<Rightarrow> os_ipc_payload option \<Rightarrow> kstate \<Rightarrow> rc \<times> kstate" where
  "sys_ipc_send r target_pid payload k =
     (case (k_current k, payload) of
        (Some c, Some p) \<Rightarrow>
          if unat (pl_size p) > OS_IPC_MAX_DATA then (OS_IPC_BAD_MESSAGE, k)
          else (case get_task_by_id k target_pid of
             None \<Rightarrow> (OS_IPC_BAD_TARGET, k)
           | Some i \<Rightarrow>
               if t_type (tsk k i) \<noteq> TASK_TYPE_USER \<or> t_state (tsk k i) = TASK_TERMINATED then (OS_IPC_BAD_TARGET, k)
               else if service_registry_pid_is_owner (task_view_of k) target_pid r \<and>
                 ep_count (t_ipc_endpoint (tsk k i)) \<ge> IPC_SERVICE_ENDPOINT_CAPACITY then (OS_IPC_SERVICE_FULL, k)
               else (case ipc_endpoint_send (t_ipc_endpoint (tsk k i)) (t_id (tsk k c)) (Some p) of
                  (v, e) \<Rightarrow>
                    let k1 = upd_task i (\<lambda>t. t\<lparr>t_ipc_endpoint := e\<rparr>) k
                    in (v, if v = 0 then task_ipc_message_queued (Some i) k1 else k1)))
      | _ \<Rightarrow> (OS_IPC_BAD_MESSAGE, k))"

definition sys_ipc_receive :: "bool \<Rightarrow> kstate \<Rightarrow> rc \<times> os_ipc_message option \<times> kstate" where
  "sys_ipc_receive out k =
     (case k_current k of
        None \<Rightarrow> (OS_IPC_BAD_MESSAGE, None, k)
      | Some c \<Rightarrow>
          if t_type (tsk k c) \<noteq> TASK_TYPE_USER \<or> \<not> out then (OS_IPC_BAD_MESSAGE, None, k)
          else (case ipc_endpoint_receive (t_ipc_endpoint (tsk k c)) out of
             (v, e, m) \<Rightarrow>
               if v \<noteq> OS_IPC_EMPTY then (v, m, upd_task c (\<lambda>t. t\<lparr>t_ipc_endpoint := e\<rparr>) k)
               else (case service_registry_ipc_spill_pop (t_id (tsk k c)) True (k_spill k) of
                  (v', Some p, s) \<Rightarrow>
                    if v' \<noteq> 0 then (OS_IPC_EMPTY, None, k)
                    else (0, Some \<lparr>msg_sender_pid = 0, msg_type = pl_type p, msg_size = pl_size p,
                            msg_request_id = pl_request_id p, msg_data = take OS_IPC_MAX_DATA (pl_data p)\<rparr>, k\<lparr>k_spill := s\<rparr>)
                | (v', None, s) \<Rightarrow> (OS_IPC_EMPTY, None, k))))"

definition ipc_recv_wait_may_block :: "bool \<Rightarrow> bool \<Rightarrow> nat \<Rightarrow> kstate \<Rightarrow> bool" where
  "ipc_recv_wait_may_block frame rpc self k =
     (if t_type (tsk k self) \<noteq> TASK_TYPE_USER \<or> \<not> frame then False
      else if t_kctx_valid (tsk k self) then False
      else if rpc \<or> k_sched_only k \<noteq> None then False
      else True)"

definition ipc_wait_park :: "u32 list \<Rightarrow> nat \<Rightarrow> kstate \<Rightarrow> kstate" where
  "ipc_wait_park kctx self k =
     upd_task self (\<lambda>t. t\<lparr>t_state := TASK_BLOCKED_IPC, t_kctx_valid := True, t_kctx := kctx\<rparr>) k"

definition sys_ipc_receive_wait ::
    "bool \<Rightarrow> bool \<Rightarrow> u32 list \<Rightarrow> bool \<Rightarrow> u32 \<Rightarrow> kstate \<Rightarrow> (rc \<times> os_ipc_message option \<times> kstate) + kstate" where
  "sys_ipc_receive_wait frame rpc kctx out timeout k =
     (case k_current k of
        None \<Rightarrow> Inl (OS_IPC_BAD_MESSAGE, None, k)
      | Some self \<Rightarrow>
          if t_type (tsk k self) \<noteq> TASK_TYPE_USER \<or> \<not> out then Inl (OS_IPC_BAD_MESSAGE, None, k)
          else (case sys_ipc_receive out k of
             (v, m, k1) \<Rightarrow>
               if ipc_wait_decide v OS_IPC_EMPTY timeout (ipc_recv_wait_may_block frame rpc self k1) = IPC_WAIT_RETURN
               then Inl (v, m, k1)
               else Inr (ipc_wait_park kctx self (upd_task self (\<lambda>t. t\<lparr>t_ipc_wait :=
                      ipc_wait_begin (t_ipc_wait t) (k_ticks k1) timeout OS_IPC_WAIT_FOREVER\<rparr>) k1))))"

text \<open>One turn of the loop of \<open>sys_ipc_receive_wait\<close>, from the resumed continuation on.\<close>

definition ipc_receive_wait_resume :: "u32 list \<Rightarrow> nat \<Rightarrow> kstate \<Rightarrow> (rc \<times> os_ipc_message option \<times> kstate) + kstate" where
  "ipc_receive_wait_resume kctx self k =
     (case sys_ipc_receive True (upd_task self (\<lambda>t. t\<lparr>t_kctx_valid := False\<rparr>) k) of
        (v, m, k1) \<Rightarrow>
          (case ipc_wait_after_wake (t_ipc_wait (tsk k1 self)) v OS_IPC_EMPTY OS_IPC_TIMEOUT (k_ticks k1) of
             (Some final, w) \<Rightarrow> Inl (final, m, upd_task self (\<lambda>t. t\<lparr>t_ipc_wait := w\<rparr>) k1)
           | (None, w) \<Rightarrow> Inr (ipc_wait_park kctx self (upd_task self (\<lambda>t. t\<lparr>t_ipc_wait := w\<rparr>) k1))))"

subsection \<open>Starting and ending tasks\<close>

text \<open>
  \<open>sys_spawn\<close> and \<open>sys_exec\<close>; \<open>arg\<close> says that there is an argument string, which goes to the
  stack page of the child.
\<close>

definition adopt_child :: "bool \<Rightarrow> bool \<Rightarrow> pid \<Rightarrow> nat \<Rightarrow> kstate \<Rightarrow> kstate" where
  "adopt_child arg waited parent i k =
     (let k1 = upd_task i (\<lambda>t. t\<lparr>t_cpu_state := (if arg then (t_cpu_state t)\<lparr>r_ebx := USER_ARGUMENT\<rparr> else t_cpu_state t),
            t_parent_pid := parent, t_waiter_pid := (if waited then parent else t_waiter_pid t)\<rparr>) k
      in k1\<lparr>k_outcap := snd (out_cap_child parent (t_id (tsk k1 i)) (k_outcap k1))\<rparr>)"

definition start_child ::
    "(cstring option \<Rightarrow> 'f option) \<Rightarrow> ('f \<Rightarrow> u32) \<Rightarrow> u32 \<Rightarrow> bool \<Rightarrow> cstring option \<Rightarrow> bool \<Rightarrow> kstate \<Rightarrow> (rc + nat) \<times> kstate" where
  "start_child initrd elf stack waited path arg k =
     (case k_current k of
        None \<Rightarrow> (Inl OS_TASK_NOT_FOUND, k)
      | Some c \<Rightarrow>
          if task_can_create_child k (t_id (tsk k c)) \<noteq> 0 then (Inl (task_can_create_child k (t_id (tsk k c))), k)
          else if task_can_create_global k \<noteq> 0 then (Inl (task_can_create_global k), k)
          else (case create_task_from_initrd_file initrd elf stack path k of
             (None, k1) \<Rightarrow> (Inl (- 1), k1)
           | (Some i, k1) \<Rightarrow> (Inr i, adopt_child arg waited (t_id (tsk k1 c)) i k1)))"

definition sys_spawn ::
    "(cstring option \<Rightarrow> 'f option) \<Rightarrow> ('f \<Rightarrow> u32) \<Rightarrow> u32 \<Rightarrow> cstring option \<Rightarrow> bool \<Rightarrow> kstate \<Rightarrow> rc \<times> kstate" where
  "sys_spawn initrd elf stack path arg k =
     (case start_child initrd elf stack False path arg k of (Inl v, k1) \<Rightarrow> (v, k1) | (Inr i, k1) \<Rightarrow> (t_id (tsk k1 i), k1))"

definition sys_exec ::
    "(cstring option \<Rightarrow> 'f option) \<Rightarrow> ('f \<Rightarrow> u32) \<Rightarrow> u32 \<Rightarrow> cstring option \<Rightarrow> bool \<Rightarrow> kstate \<Rightarrow> rc \<times> kstate" where
  "sys_exec initrd elf stack path arg k =
     (case start_child initrd elf stack True path arg k of (Inl v, k1) \<Rightarrow> (v, k1) | (Inr i, k1) \<Rightarrow> (0, k1))"

text \<open>\<open>SYS_EXEC\<close>: after a successful \<open>sys_exec\<close> the caller waits.\<close>

definition exec_call ::
    "(cstring option \<Rightarrow> 'f option) \<Rightarrow> ('f \<Rightarrow> u32) \<Rightarrow> u32 \<Rightarrow> cstring option \<Rightarrow> bool \<Rightarrow> kstate \<Rightarrow> rc \<times> kstate" where
  "exec_call initrd elf stack path arg k =
     (case (k_current k, sys_exec initrd elf stack path arg k) of
        (Some c, v, k1) \<Rightarrow> (v, if v \<ge> 0 then upd_task c (\<lambda>t. t\<lparr>t_state := TASK_WAITING\<rparr>) k1 else k1)
      | (None, v, k1) \<Rightarrow> (v, k1))"

text \<open>The end of \<open>SYS_EXIT\<close> and of a fault in Ring 3, up to the call of \<open>schedule\<close>.\<close>

definition end_task :: "int \<Rightarrow> u32 \<Rightarrow> nat \<Rightarrow> kstate \<Rightarrow> kstate" where
  "end_task code reason c k =
     upd_task c (\<lambda>t. t\<lparr>t_state := TASK_TERMINATED\<rparr>)
       (task_reparent_children c (task_wake_waiter c (task_report_parent_exit (Some c) code reason k)))"

subsection \<open>Calls on tasks\<close>

text \<open>
  The calls that change the state, for the current task; the second combinator refuses a caller
  that is not a Ring 3 task. The queries give the caller's buffer back unchanged when refused.
\<close>

definition as_caller :: "(pid \<Rightarrow> kstate \<Rightarrow> rc \<times> kstate) \<Rightarrow> kstate \<Rightarrow> rc \<times> kstate" where
  "as_caller f k = (case k_current k of None \<Rightarrow> (OS_TASK_NOT_FOUND, k) | Some c \<Rightarrow> f (t_id (tsk k c)) k)"

definition as_user_caller :: "(pid \<Rightarrow> kstate \<Rightarrow> rc \<times> kstate) \<Rightarrow> kstate \<Rightarrow> rc \<times> kstate" where
  "as_user_caller f k =
     (case k_current k of
        None \<Rightarrow> (OS_TASK_NOT_FOUND, k)
      | Some c \<Rightarrow> if t_type (tsk k c) \<noteq> TASK_TYPE_USER then (OS_TASK_NOT_FOUND, k) else f (t_id (tsk k c)) k)"

definition caller_query :: "(pid \<Rightarrow> rc \<times> 'o) \<Rightarrow> 'o \<Rightarrow> kstate \<Rightarrow> rc \<times> 'o" where
  "caller_query f out k = (case k_current k of None \<Rightarrow> (OS_TASK_NOT_FOUND, out) | Some c \<Rightarrow> f (t_id (tsk k c)))"

definition user_query :: "(pid \<Rightarrow> rc \<times> 'o) \<Rightarrow> 'o \<Rightarrow> kstate \<Rightarrow> rc \<times> 'o" where
  "user_query f out k =
     (case k_current k of
        None \<Rightarrow> (OS_TASK_NOT_FOUND, out)
      | Some c \<Rightarrow> if t_type (tsk k c) \<noteq> TASK_TYPE_USER then (OS_TASK_NOT_FOUND, out) else f (t_id (tsk k c)))"

definition sys_task_set_priority :: "pid \<Rightarrow> u32 \<Rightarrow> kstate \<Rightarrow> rc \<times> kstate" where
  "sys_task_set_priority p priority k = (if p < 0 then (OS_TASK_NOT_FOUND, k) else as_caller (\<lambda>c. task_set_priority c p priority) k)"

definition sys_task_wait :: "pid \<Rightarrow> kstate \<Rightarrow> rc \<times> kstate" where
  "sys_task_wait p k = (if p < 0 then (OS_TASK_NOT_FOUND, k) else as_caller (\<lambda>c. task_wait_for_child c p) k)"

definition sys_task_set_name :: "pid \<Rightarrow> cstring option \<Rightarrow> kstate \<Rightarrow> rc \<times> kstate" where
  "sys_task_set_name p name k = (if p < 0 then (OS_TASK_NOT_FOUND, k) else as_caller (\<lambda>c. task_set_name c p name) k)"

definition sys_task_child_result_ack :: "kstate \<Rightarrow> rc \<times> kstate" where
  "sys_task_child_result_ack k = as_caller (\<lambda>c. task_ack_child_result_history c) k"

definition sys_task_child_result_forget :: "pid \<Rightarrow> kstate \<Rightarrow> rc \<times> kstate" where
  "sys_task_child_result_forget p k = (if p < 0 then (OS_TASK_NOT_FOUND, k) else as_caller (\<lambda>c. task_forget_child_result_history c p) k)"

definition sys_task_suspend :: "pid \<Rightarrow> kstate \<Rightarrow> rc \<times> kstate" where
  "sys_task_suspend p k = (if p < 0 then (OS_TASK_NOT_FOUND, k) else as_caller (\<lambda>c. task_suspend_child c p) k)"

definition sys_task_resume :: "pid \<Rightarrow> kstate \<Rightarrow> rc \<times> kstate" where
  "sys_task_resume p k = (if p < 0 then (OS_TASK_NOT_FOUND, k) else as_caller (\<lambda>c. task_resume_child c p) k)"

definition sys_task_kill_children :: "kstate \<Rightarrow> rc \<times> kstate" where
  "sys_task_kill_children k = as_caller (\<lambda>c. task_kill_direct_children c) k"

definition sys_task_wait_any :: "kstate \<Rightarrow> rc \<times> kstate" where
  "sys_task_wait_any k = as_caller (\<lambda>c. task_wait_for_any_child c) k"

definition sys_task_delegate_child :: "pid \<Rightarrow> pid \<Rightarrow> kstate \<Rightarrow> rc \<times> kstate" where
  "sys_task_delegate_child child supervisor k = as_caller (\<lambda>c. task_delegate_child c child supervisor) k"

definition sys_task_supervision_events_ack :: "kstate \<Rightarrow> rc \<times> kstate" where
  "sys_task_supervision_events_ack k = as_caller (\<lambda>c. task_ack_supervision_events c) k"

definition sys_task_supervision_event_forget :: "u32 \<Rightarrow> kstate \<Rightarrow> rc \<times> kstate" where
  "sys_task_supervision_event_forget sq k = as_caller (\<lambda>c. task_forget_supervision_event c sq) k"

definition sys_task_supervision_notify :: "u32 \<Rightarrow> kstate \<Rightarrow> rc \<times> kstate" where
  "sys_task_supervision_notify enabled k = as_user_caller (\<lambda>c. task_set_supervision_notify c enabled) k"

definition sys_task_supervision_notify_filter :: "u32 \<Rightarrow> kstate \<Rightarrow> rc \<times> kstate" where
  "sys_task_supervision_notify_filter bits k = as_user_caller (\<lambda>c. task_set_supervision_notify_filter c bits) k"

definition sys_task_supervision_watch :: "pid \<Rightarrow> u32 \<Rightarrow> kstate \<Rightarrow> rc \<times> kstate" where
  "sys_task_supervision_watch child enabled k = as_user_caller (\<lambda>c. task_update_supervision_watch c child enabled) k"

definition sys_task_supervision_delivery_stats_ack :: "kstate \<Rightarrow> rc \<times> kstate" where
  "sys_task_supervision_delivery_stats_ack k = as_user_caller (\<lambda>c. task_ack_supervision_delivery_stats c) k"

definition sys_task_supervision_event_replay :: "u32 \<Rightarrow> kstate \<Rightarrow> rc \<times> kstate" where
  "sys_task_supervision_event_replay sq k = as_user_caller (\<lambda>c. task_replay_supervision_event c sq) k"

definition sys_task_supervision_priority :: "pid \<Rightarrow> kstate \<Rightarrow> rc \<times> kstate" where
  "sys_task_supervision_priority child k = as_user_caller (\<lambda>c. task_set_supervision_priority c child) k"

definition sys_task_supervision_notify_budget :: "u32 \<Rightarrow> kstate \<Rightarrow> rc \<times> kstate" where
  "sys_task_supervision_notify_budget limit k = as_user_caller (\<lambda>c. task_set_supervision_notify_budget c limit) k"

definition sys_task_child_result :: "pid \<Rightarrow> os_task_exit_result option \<Rightarrow> kstate \<Rightarrow> rc \<times> os_task_exit_result option" where
  "sys_task_child_result p out k = (if p < 0 then (OS_TASK_NOT_FOUND, out) else caller_query (\<lambda>c. task_get_child_result k c p out) out k)"

definition sys_task_child_result_list :: "os_task_exit_history option \<Rightarrow> kstate \<Rightarrow> rc \<times> os_task_exit_history option" where
  "sys_task_child_result_list out k = caller_query (\<lambda>c. task_fill_child_result_history k c out) out k"

definition sys_task_child_result_observe :: "u32 \<Rightarrow> os_task_exit_history_observation option \<Rightarrow> kstate \<Rightarrow> rc \<times> os_task_exit_history_observation option" where
  "sys_task_child_result_observe expected out k = caller_query (\<lambda>c. task_observe_child_result_history k c expected out) out k"

definition sys_task_child_result_find :: "pid \<Rightarrow> os_task_exit_result option \<Rightarrow> kstate \<Rightarrow> rc \<times> os_task_exit_result option" where
  "sys_task_child_result_find p out k = (if p < 0 then (OS_TASK_NOT_FOUND, out) else caller_query (\<lambda>c. task_find_child_result_history k c p out) out k)"

definition sys_task_children :: "os_task_children option \<Rightarrow> kstate \<Rightarrow> rc \<times> os_task_children option" where
  "sys_task_children out k = (if out = None then (OS_TASK_NOT_FOUND, out) else caller_query (\<lambda>c. task_fill_direct_children k c out) out k)"

definition sys_task_child_exit_count :: "u32 option \<Rightarrow> kstate \<Rightarrow> rc \<times> u32 option" where
  "sys_task_child_exit_count out k = (if out = None then (OS_TASK_NOT_FOUND, out) else caller_query (\<lambda>c. task_get_child_exit_count k c out) out k)"

definition sys_task_supervision_events :: "os_task_supervision_events option \<Rightarrow> kstate \<Rightarrow> rc \<times> os_task_supervision_events option" where
  "sys_task_supervision_events out k = (if out = None then (OS_TASK_NOT_FOUND, out) else caller_query (\<lambda>c. task_fill_supervision_events k c out) out k)"

definition sys_task_supervision_events_observe :: "u32 \<Rightarrow> os_task_supervision_events_observation option \<Rightarrow> kstate \<Rightarrow> rc \<times> os_task_supervision_events_observation option" where
  "sys_task_supervision_events_observe expected out k = (if out = None then (OS_TASK_NOT_FOUND, out) else caller_query (\<lambda>c. task_observe_supervision_events k c expected out) out k)"

definition sys_task_supervision_event_find :: "u32 \<Rightarrow> os_task_supervision_event option \<Rightarrow> kstate \<Rightarrow> rc \<times> os_task_supervision_event option" where
  "sys_task_supervision_event_find sq out k = (if out = None then (OS_TASK_NOT_FOUND, out) else caller_query (\<lambda>c. task_find_supervision_event k c sq out) out k)"

definition sys_task_supervision_summary :: "os_task_supervision_summary option \<Rightarrow> kstate \<Rightarrow> rc \<times> os_task_supervision_summary option" where
  "sys_task_supervision_summary out k = (if out = None then (OS_TASK_NOT_FOUND, out) else caller_query (\<lambda>c. task_fill_supervision_summary k c out) out k)"

definition sys_task_supervision_notify_status :: "os_task_supervision_notify_status option \<Rightarrow> kstate \<Rightarrow> rc \<times> os_task_supervision_notify_status option" where
  "sys_task_supervision_notify_status out k = (if out = None then (OS_TASK_NOT_FOUND, out) else user_query (\<lambda>c. task_fill_supervision_notify_status k c out) out k)"

definition sys_task_supervision_watch_status :: "os_task_supervision_watch_status option \<Rightarrow> kstate \<Rightarrow> rc \<times> os_task_supervision_watch_status option" where
  "sys_task_supervision_watch_status out k = (if out = None then (OS_TASK_NOT_FOUND, out) else user_query (\<lambda>c. task_fill_supervision_watch_status k c out) out k)"

definition sys_task_supervision_delivery_stats :: "os_task_supervision_delivery_stats option \<Rightarrow> kstate \<Rightarrow> rc \<times> os_task_supervision_delivery_stats option" where
  "sys_task_supervision_delivery_stats out k = (if out = None then (OS_TASK_NOT_FOUND, out) else user_query (\<lambda>c. task_fill_supervision_delivery_stats k c out) out k)"

definition sys_task_supervision_priority_status :: "pid option \<Rightarrow> kstate \<Rightarrow> rc \<times> pid option" where
  "sys_task_supervision_priority_status out k = (if out = None then (OS_TASK_NOT_FOUND, out) else user_query (\<lambda>c. task_fill_supervision_priority_status k c out) out k)"

definition sys_task_supervision_notify_budget_status :: "os_task_supervision_notify_budget_status option \<Rightarrow> kstate \<Rightarrow> rc \<times> os_task_supervision_notify_budget_status option" where
  "sys_task_supervision_notify_budget_status out k = (if out = None then (OS_TASK_NOT_FOUND, out) else user_query (\<lambda>c. task_fill_supervision_notify_budget_status k c out) out k)"

definition sys_getpid :: "kstate \<Rightarrow> rc" where
  "sys_getpid k = (case k_current k of None \<Rightarrow> - 1 | Some c \<Rightarrow> t_id (tsk k c))"

definition sys_ps :: "os_proc list option \<Rightarrow> int \<Rightarrow> kstate \<Rightarrow> rc \<times> os_proc list option" where
  "sys_ps out max_n k = (if out = None \<or> max_n \<le> 0 then (- 1, out) else task_fill_ps k out max_n)"

definition sys_task_metrics :: "pid \<Rightarrow> os_task_metrics option \<Rightarrow> kstate \<Rightarrow> rc \<times> os_task_metrics option" where
  "sys_task_metrics p out k = (if out = None \<or> p < 0 then (OS_TASK_NOT_FOUND, out) else task_fill_metrics k p out)"

definition sys_task_capacity :: "os_task_capacity option \<Rightarrow> kstate \<Rightarrow> rc \<times> os_task_capacity option" where
  "sys_task_capacity out k = task_fill_capacity k out"

end
