(* ===== verification/Registry_Inv.thy ===== *)
theory Registry_Inv
  imports Registry
begin

text \<open>
  The invariant of the service registry and what its operations do to the map from names to
  owners that it represents.
\<close>

subsection \<open>Strings\<close>

lemma name_equal_iff: "name_equal l r \<longleftrightarrow> cstr l = cstr r \<and> length (cstr l) < 16"
  by (simp add: name_equal_def str_eq_upto_iff)

lemma name_scan_iff: "name_scan n s \<longleftrightarrow> length (cstr s) < n \<and> (\<forall>c\<in>set (cstr s). name_char c)"
proof (induction n arbitrary: s)
  case (Suc n)
  then show ?case by (cases s) auto
qed simp

text \<open>A valid name: one to fifteen characters of the alphabet.\<close>

lemma name_valid_iff:
  "service_registry_name_valid s \<longleftrightarrow> cstr s \<noteq> [] \<and> length (cstr s) < 16 \<and> (\<forall>c\<in>set (cstr s). name_char c)"
  by (auto simp: service_registry_name_valid_def name_scan_iff cstr_empty_iff)

lemma cstr_copy_name: "service_registry_name_valid s \<Longrightarrow> cstr (copy_name s) = cstr s"
  by (simp add: copy_name_def name_valid_iff cstr_copy_upto_short)

lemma length_copy_name [simp]: "length (copy_name s) = 16"
  by (simp add: copy_name_def)

lemma prefix_loop_iff: "prefix_loop p path \<longleftrightarrow> prefix (cstr p) (cstr path)"
proof (induction p path rule: prefix_loop.induct)
  case (2 c s path)
  then show ?case by (cases path) auto
qed simp

lemma prefix_matches_iff:
  "service_registry_backend_prefix_matches p path \<longleftrightarrow>
     cstr p = [] \<or> (\<exists>q. path = Some q \<and> prefix (cstr p) (cstr q))"
  by (auto simp: service_registry_backend_prefix_matches_def cstr_empty_iff [symmetric] prefix_loop_iff split: option.splits)

subsection \<open>The invariant\<close>

definition entry_ok :: "reg_entry \<Rightarrow> bool" where
  "entry_ok e \<longleftrightarrow> length (re_name e) = 16 \<and> 0 \<le> re_pid e \<and>
     (if re_pid e = 0 then cstr (re_name e) = [] else service_registry_name_valid (re_name e) \<and> re_right_token e \<noteq> 0)"

definition cap_ok :: "backend_cap \<Rightarrow> bool" where
  "cap_ok c \<longleftrightarrow> length (bc_name c) = 16 \<and> length (bc_prefix c) = 48 \<and> 0 \<le> bc_owner_pid c \<and>
     (if bc_owner_pid c = 0 then bc_grantee_pid c = 0 \<and> bc_token c = 0 \<and> cstr (bc_name c) = []
      else bc_grantee_pid c > 0 \<and> service_registry_name_valid (bc_name c) \<and> bc_rights c \<noteq> 0 \<and>
        bc_rights c AND NOT SERVICE_BACKEND_RIGHT_ALL = 0 \<and> service_registry_backend_sources_valid (bc_sources c) \<and>
        service_registry_backend_prefix_valid (Some (bc_prefix c)))"

definition live_names :: "reg_entry list \<Rightarrow> cstring list" where
  "live_names es = map (\<lambda>e. cstr (re_name e)) (filter (\<lambda>e. re_pid e \<noteq> 0) es)"

definition cap_keys :: "backend_cap list \<Rightarrow> (pid \<times> pid \<times> cstring) list" where
  "cap_keys cs = map (\<lambda>c. (bc_owner_pid c, bc_grantee_pid c, cstr (bc_name c))) (filter (\<lambda>c. bc_owner_pid c \<noteq> 0) cs)"

definition registry_ok :: "registry \<Rightarrow> bool" where
  "registry_ok r \<longleftrightarrow>
     length (rg_entries r) = SERVICE_REGISTRY_CAPACITY \<and> length (rg_watches r) = SERVICE_REGISTRY_WATCH_CAPACITY \<and>
     length (rg_history r) = SERVICE_REGISTRY_NOTIFY_HISTORY_CAPACITY \<and>
     length (rg_caps r) = SERVICE_REGISTRY_BACKEND_CAPACITY \<and>
     length (rg_mounts r) = SERVICE_REGISTRY_PERSISTENT_MOUNT_CAPACITY \<and>
     (\<forall>e\<in>set (rg_entries r). entry_ok e) \<and> distinct (live_names (rg_entries r)) \<and>
     (\<forall>c\<in>set (rg_caps r). cap_ok c) \<and> distinct (cap_keys (rg_caps r)) \<and>
     rg_token_next r \<noteq> 0 \<and> rg_right_token_next r \<noteq> 0"

lemma registry_okD:
  assumes "registry_ok r"
  shows "length (rg_entries r) = 12" "length (rg_watches r) = 8" "length (rg_history r) = 8" "length (rg_caps r) = 4"
    "length (rg_mounts r) = 8" "e \<in> set (rg_entries r) \<Longrightarrow> entry_ok e" "distinct (live_names (rg_entries r))"
    "c \<in> set (rg_caps r) \<Longrightarrow> cap_ok c" "distinct (cap_keys (rg_caps r))" "rg_token_next r \<noteq> 0" "rg_right_token_next r \<noteq> 0"
  using assms by (simp_all add: registry_ok_def)

lemma entry_ok_upd [simp]:
  "entry_ok (e\<lparr>re_backend_generation := g\<rparr>) = entry_ok e" "entry_ok (e\<lparr>re_identity_key := x\<rparr>) = entry_ok e"
  by (simp_all add: entry_ok_def)

lemma entry_ok_clear [simp]: "entry_ok e \<Longrightarrow> entry_ok (clear_entry e)"
  by (simp add: entry_ok_def clear_entry_def)

lemma clear_entry_pid [simp]: "re_pid (clear_entry e) = 0"
  by (simp add: clear_entry_def)

lemma clear_cap_owner [simp]: "bc_owner_pid (clear_cap c) = 0" "bc_grantee_pid (clear_cap c) = 0" "bc_token (clear_cap c) = 0"
  "cstr (bc_name (clear_cap c)) = []"
  by (simp_all add: clear_cap_def)

lemma cap_ok_clear [simp]: "cap_ok c \<Longrightarrow> cap_ok (clear_cap c)"
  by (simp add: cap_ok_def clear_cap_def)

text \<open>Keys of the used slots are pairwise distinct; what updating one slot needs to keep it.\<close>

lemma distinct_filter_nth:
  "distinct (map f (filter P xs)) \<longleftrightarrow>
    (\<forall>i<length xs. \<forall>j<length xs. i \<noteq> j \<longrightarrow> P (xs ! i) \<longrightarrow> P (xs ! j) \<longrightarrow> f (xs ! i) \<noteq> f (xs ! j))"
proof (induction xs)
  case (Cons x xs)
  have "(P x \<longrightarrow> f x \<notin> f ` {y \<in> set xs. P y}) \<longleftrightarrow> (\<forall>j<length xs. P x \<longrightarrow> P (xs ! j) \<longrightarrow> f x \<noteq> f (xs ! j))"
    by (auto simp: in_set_conv_nth)
  with Cons.IH show ?case by (auto simp: All_less_Suc2)
qed simp

lemma distinct_filter_set:
  assumes "distinct (map f (filter P xs))" and "\<And>j. j < length xs \<Longrightarrow> j \<noteq> i \<Longrightarrow> P y \<Longrightarrow> P (xs ! j) \<Longrightarrow> f (xs ! j) \<noteq> f y"
  shows "distinct (map f (filter P (xs[i := y])))"
proof (cases "i < length xs")
  case True
  with assms show ?thesis
    unfolding distinct_filter_nth by (auto simp: nth_list_update) fastforce+
qed (use assms in \<open>simp add: list_update_beyond\<close>)

lemma distinct_filter_eq:
  assumes "distinct (map f (filter P xs))" and "x \<in> set xs" and "y \<in> set xs" and "P x" and "P y" and "f x = f y"
  shows "x = y"
  using assms by (auto simp: distinct_map inj_on_def)


subsection \<open>Parts of the state an operation leaves alone\<close>

text \<open>Everything about an entry but its backend generation.\<close>

definition ecore :: "reg_entry \<Rightarrow> reg_entry" where
  "ecore e = e\<lparr>re_backend_generation := 0\<rparr>"

definition ents :: "registry \<Rightarrow> reg_entry list" where
  "ents r = map ecore (rg_entries r)"

text \<open>The registry with its entries and capabilities blanked out.\<close>

definition rest :: "registry \<Rightarrow> registry" where
  "rest r = r\<lparr>rg_entries := [], rg_caps := []\<rparr>"

lemma ecore_simps [simp]:
  "re_pid (ecore e) = re_pid e" "re_name (ecore e) = re_name e" "re_sequence (ecore e) = re_sequence e"
  "re_generation (ecore e) = re_generation e" "re_right_token (ecore e) = re_right_token e"
  "re_identity_key (ecore e) = re_identity_key e" "ecore (e\<lparr>re_backend_generation := g\<rparr>) = ecore e"
  by (simp_all add: ecore_def)

lemma ecore_pred [simp]: "live_named n (ecore e) = live_named n e" "entry_valid tv (ecore e) = entry_valid tv e"
  "entry_ok (ecore e) = entry_ok e"
  by (simp_all add: live_named_def entry_valid_def entry_ok_def)

lemma length_ents [simp]: "length (ents r) = length (rg_entries r)"
  by (simp add: ents_def)

lemma nth_ents: "i < length (rg_entries r) \<Longrightarrow> ents r ! i = ecore (rg_entries r ! i)"
  by (simp add: ents_def)

lemma upd_entry_simps [simp]:
  "rg_caps (upd_entry i f r) = rg_caps r" "rest (upd_entry i f r) = rest r"
  "length (rg_entries (upd_entry i f r)) = length (rg_entries r)"
  "rg_entries (upd_entry i f r) = (rg_entries r)[i := f (rg_entries r ! i)]"
  by (simp_all add: upd_entry_def rest_def)

lemma upd_cap_simps [simp]:
  "rg_entries (upd_cap i f r) = rg_entries r" "ents (upd_cap i f r) = ents r" "rest (upd_cap i f r) = rest r"
  "rg_caps (upd_cap i f r) = (rg_caps r)[i := f (rg_caps r ! i)]"
  by (simp_all add: upd_cap_def rest_def ents_def)

lemma ents_upd_entry: "ents (upd_entry i f r) = (ents r)[i := ecore (f (rg_entries r ! i))]"
  by (simp add: ents_def map_update)

lemma first_idx_map: "first_idx P (map f xs) = first_idx (\<lambda>x. P (f x)) xs"
  by (induction xs) auto

lemma first_ents: "first_idx (live_named n) (rg_entries r) = first_idx (live_named n) (ents r)"
  by (simp add: ents_def first_idx_map)

lemma bump_frame [simp]:
  "ents (service_registry_backend_generation_bump n r) = ents r"
  "rg_caps (service_registry_backend_generation_bump n r) = rg_caps r"
  "rest (service_registry_backend_generation_bump n r) = rest r"
proof -
  have "ents (upd_entry i (\<lambda>e. e\<lparr>re_backend_generation := g e\<rparr>) r) = ents r" for i g
    by (cases "i < length (rg_entries r)") (simp_all add: ents_upd_entry nth_ents [symmetric] list_update_beyond)
  then show "ents (service_registry_backend_generation_bump n r) = ents r"
    "rg_caps (service_registry_backend_generation_bump n r) = rg_caps r"
    "rest (service_registry_backend_generation_bump n r) = rest r"
    by (simp_all add: service_registry_backend_generation_bump_def split: option.split)
qed

definition cap_named :: "cstring \<Rightarrow> backend_cap \<Rightarrow> bool" where
  "cap_named n c \<longleftrightarrow> bc_owner_pid c > 0 \<and> name_equal (bc_name c) n"

lemma set_caps_simps [simp]: "ents (r\<lparr>rg_caps := cs\<rparr>) = ents r" "rest (r\<lparr>rg_caps := cs\<rparr>) = rest r"
  by (simp_all add: ents_def rest_def)

lemma remove_name_frame [simp]:
  "ents (service_registry_backend_remove_name n r) = ents r"
  "rest (service_registry_backend_remove_name n r) = rest r"
  "rg_caps (service_registry_backend_remove_name n r) =
    (if service_registry_name_valid n then map (\<lambda>c. if cap_named n c then clear_cap c else c) (rg_caps r) else rg_caps r)"
  by (simp_all add: service_registry_backend_remove_name_def Let_def cap_named_def)

text \<open>The invariant speaks of the three parts separately.\<close>

definition ents_ok :: "reg_entry list \<Rightarrow> bool" where
  "ents_ok es \<longleftrightarrow> length es = 12 \<and> (\<forall>e\<in>set es. entry_ok e) \<and> distinct (live_names es)"

definition caps_ok :: "backend_cap list \<Rightarrow> bool" where
  "caps_ok cs \<longleftrightarrow> length cs = 4 \<and> (\<forall>c\<in>set cs. cap_ok c) \<and> distinct (cap_keys cs)"

definition rest_ok :: "registry \<Rightarrow> bool" where
  "rest_ok r \<longleftrightarrow> length (rg_watches r) = 8 \<and> length (rg_history r) = 8 \<and> length (rg_mounts r) = 8 \<and>
     rg_token_next r \<noteq> 0 \<and> rg_right_token_next r \<noteq> 0"

lemma live_names_ents: "live_names (ents r) = live_names (rg_entries r)"
  by (simp add: live_names_def ents_def filter_map o_def)

lemma registry_ok_parts: "registry_ok r \<longleftrightarrow> ents_ok (ents r) \<and> caps_ok (rg_caps r) \<and> rest_ok (rest r)"
  unfolding registry_ok_def ents_ok_def caps_ok_def rest_ok_def live_names_ents
  by (auto simp: ents_def rest_def)

lemma ents_ok_update:
  assumes "ents_ok es" and "entry_ok e"
    and "\<And>j. j < 12 \<Longrightarrow> j \<noteq> i \<Longrightarrow> re_pid e \<noteq> 0 \<Longrightarrow> re_pid (es ! j) \<noteq> 0 \<Longrightarrow> cstr (re_name (es ! j)) \<noteq> cstr (re_name e)"
  shows "ents_ok (es[i := e])"
  using assms unfolding ents_ok_def live_names_def
  by (auto intro!: distinct_filter_set dest!: set_update_subset_insert [THEN subsetD])

lemma ents_ok_clear:
  assumes "ents_ok es" and "i < 12"
  shows "ents_ok (es[i := clear_entry (es ! i)])"
  using assms by (intro ents_ok_update) (auto simp: ents_ok_def)

text \<open>Two live entries with the same name are the same slot.\<close>

lemma ents_unique:
  assumes "ents_ok es" and "i < 12" and "j < 12" and "re_pid (es ! i) \<noteq> 0" and "re_pid (es ! j) \<noteq> 0"
    and "cstr (re_name (es ! i)) = cstr (re_name (es ! j))"
  shows "i = j"
proof -
  have "\<forall>i<12. \<forall>j<12. i \<noteq> j \<longrightarrow> re_pid (es ! i) \<noteq> 0 \<longrightarrow> re_pid (es ! j) \<noteq> 0 \<longrightarrow> cstr (re_name (es ! i)) \<noteq> cstr (re_name (es ! j))"
    using assms(1) by (auto simp: ents_ok_def live_names_def distinct_filter_nth)
  with assms(2-) show ?thesis by blast
qed

lemma caps_ok_update:
  assumes "caps_ok cs" and "cap_ok c"
    and "\<And>j. j < 4 \<Longrightarrow> j \<noteq> i \<Longrightarrow> bc_owner_pid c \<noteq> 0 \<Longrightarrow> bc_owner_pid (cs ! j) \<noteq> 0 \<Longrightarrow>
      (bc_owner_pid (cs ! j), bc_grantee_pid (cs ! j), cstr (bc_name (cs ! j))) \<noteq> (bc_owner_pid c, bc_grantee_pid c, cstr (bc_name c))"
  shows "caps_ok (cs[i := c])"
  using assms unfolding caps_ok_def cap_keys_def
  by (auto intro!: distinct_filter_set dest!: set_update_subset_insert [THEN subsetD])

lemma caps_ok_clear_map:
  assumes "caps_ok cs"
  shows "caps_ok (map (\<lambda>c. if P c then clear_cap c else c) cs)"
proof -
  have "cap_keys (map (\<lambda>c. if P c then clear_cap c else c) cs) = cap_keys (filter (\<lambda>c. \<not> P c) cs)"
    by (induction cs) (auto simp: cap_keys_def)
  moreover have "distinct (cap_keys (filter Q cs))" if "distinct (cap_keys cs)" for Q
    using that by (induction cs) (auto simp: cap_keys_def)
  ultimately show ?thesis using assms by (auto simp: caps_ok_def)
qed

lemma caps_ok_clear: "caps_ok cs \<Longrightarrow> i < 4 \<Longrightarrow> caps_ok (cs[i := clear_cap (cs ! i)])"
  by (intro caps_ok_update) (auto simp: caps_ok_def)

subsection \<open>The map from names to owners\<close>

definition matching :: "task_view \<Rightarrow> cstring \<Rightarrow> reg_entry \<Rightarrow> bool" where
  "matching tv n e \<longleftrightarrow> re_pid e \<noteq> 0 \<and> cstr (re_name e) = n \<and> entry_valid tv e"

definition owner_in :: "task_view \<Rightarrow> reg_entry list \<Rightarrow> cstring \<Rightarrow> pid option" where
  "owner_in tv es n = map_option re_pid (find (matching tv n) es)"

definition owner_of :: "task_view \<Rightarrow> registry \<Rightarrow> cstring \<Rightarrow> pid option" where
  "owner_of tv r = owner_in tv (ents r)"

lemma matching_ecore [simp]: "matching tv n (ecore e) = matching tv n e"
  by (simp add: matching_def)

lemma owner_in_unique:
  assumes "ents_ok es" and "i < 12" and "matching tv n (es ! i)"
  shows "owner_in tv es n = Some (re_pid (es ! i))"
proof -
  obtain j where j: "j < length es" "matching tv n (es ! j)" "find (matching tv n) es = Some (es ! j)"
    using assms by (cases "find (matching tv n) es") (auto simp: find_None_iff find_Some_iff ents_ok_def)
  then have "i = j"
    using assms ents_unique [OF assms(1), of i j] by (auto simp: matching_def ents_ok_def)
  with j show ?thesis by (simp add: owner_in_def)
qed

lemma owner_in_Some:
  assumes "ents_ok es"
  shows "owner_in tv es n = Some p \<longleftrightarrow> (\<exists>i<12. matching tv n (es ! i) \<and> re_pid (es ! i) = p)"
  using owner_in_unique [OF assms, of _ tv n] assms
  by (auto simp: owner_in_def find_Some_iff ents_ok_def)

lemma owner_in_None:
  assumes "ents_ok es"
  shows "owner_in tv es n = None \<longleftrightarrow> (\<forall>i<12. \<not> matching tv n (es ! i))"
  using owner_in_unique [OF assms, of _ tv n] assms
  by (auto simp: owner_in_def find_None_iff ents_ok_def in_set_conv_nth)

text \<open>What the change of one slot does to the map.\<close>

lemma owner_in_update:
  assumes "ents_ok es" and "ents_ok (es[i := e])" and "i < 12"
  shows "owner_in tv (es[i := e]) n =
    (if matching tv n e then Some (re_pid e) else if matching tv n (es ! i) then None else owner_in tv es n)"
proof -
  have len: "length es = 12" using assms(1) by (simp add: ents_ok_def)
  consider (new) "matching tv n e" | (gone) "\<not> matching tv n e" "matching tv n (es ! i)"
    | (other) "\<not> matching tv n e" "\<not> matching tv n (es ! i)" by blast
  then show ?thesis
  proof cases
    case new
    with owner_in_unique [OF assms(2,3), of tv n] len assms(3) show ?thesis by simp
  next
    case gone
    have "\<not> matching tv n (es[i := e] ! j)" if "j < 12" for j
    proof (cases "j = i")
      case False
      then have "es[i := e] ! j = es ! j" by simp
      with False gone ents_unique [OF assms(1,3) that] show ?thesis by (auto simp: matching_def)
    qed (use gone len assms(3) in simp)
    with gone show ?thesis by (simp add: owner_in_None [OF assms(2)])
  next
    case other
    have "matching tv n (es[i := e] ! j) \<and> re_pid (es[i := e] ! j) = p \<longleftrightarrow> matching tv n (es ! j) \<and> re_pid (es ! j) = p"
      if "j < 12" for j p
      using other that len assms(3) by (auto simp: nth_list_update)
    then have "owner_in tv (es[i := e]) n = Some p \<longleftrightarrow> owner_in tv es n = Some p" for p
      unfolding owner_in_Some [OF assms(1)] owner_in_Some [OF assms(2)] by blast
    with other show ?thesis by (cases "owner_in tv es n"; cases "owner_in tv (es[i := e]) n") auto
  qed
qed

lemma owner_in_clear:
  assumes "ents_ok es" and "i < 12"
  shows "owner_in tv (es[i := clear_entry (es ! i)]) n = (if matching tv n (es ! i) then None else owner_in tv es n)"
proof -
  have "\<not> matching tv n (clear_entry (es ! i))" by (simp add: matching_def)
  then show ?thesis using owner_in_update [OF assms(1) ents_ok_clear [OF assms] assms(2)] by simp
qed

lemma entry_valid_pos: "entry_valid tv e \<Longrightarrow> re_pid e > 0"
  by (simp add: entry_valid_def task_identity_valid_def split: if_splits)

lemma live_named_iff:
  assumes "entry_ok e" and "service_registry_name_valid n"
  shows "live_named n e \<longleftrightarrow> re_pid e \<noteq> 0 \<and> cstr (re_name e) = cstr n"
  using assms by (auto simp: live_named_def name_equal_iff entry_ok_def name_valid_iff)


subsection \<open>Lookup\<close>

lemma ecore_clear: "ecore (clear_entry e) = clear_entry (ecore e)"
  by (simp add: ecore_def clear_entry_def)

lemma ents_clear: "i < length (rg_entries r) \<Longrightarrow> ents (upd_entry i clear_entry r) = (ents r)[i := clear_entry (ents r ! i)]"
  by (simp add: ents_upd_entry ecore_clear nth_ents)

text \<open>
  The two cases of a lookup of a valid name: the registry is unchanged and the owner is
  returned, or nobody owns the name and a stale entry may have been purged with the
  capabilities of that name.
\<close>

lemma lookup_cases:
  assumes "registry_ok r" and "service_registry_name_valid n" and "service_registry_lookup tv n r = (v, r')"
  obtains (found) "v > 0" "owner_of tv r (cstr n) = Some v" "r' = r"
  | (none) "v = OS_SERVICE_NOT_FOUND" "owner_of tv r (cstr n) = None" "r' = r"
  | (stale) i where "v = OS_SERVICE_NOT_FOUND" "owner_of tv r (cstr n) = None" "i < 12"
      "re_pid (ents r ! i) \<noteq> 0" "cstr (re_name (ents r ! i)) = cstr n" "\<not> entry_valid tv (ents r ! i)"
      "ents r' = (ents r)[i := clear_entry (ents r ! i)]" "rest r' = rest r"
      "rg_caps r' = map (\<lambda>c. if cap_named n c then clear_cap c else c) (rg_caps r)"
proof -
  have eo: "ents_ok (ents r)" using assms(1) by (simp add: registry_ok_parts)
  have len: "length (rg_entries r) = 12" using registry_okD(1) [OF assms(1)] .
  have ok: "entry_ok (ents r ! i)" if "i < 12" for i using eo that by (simp add: ents_ok_def)
  show ?thesis
  proof (cases "first_idx (live_named n) (ents r)")
    case None
    have "\<not> matching tv (cstr n) (ents r ! i)" if "i < 12" for i
    proof -
      have "\<not> live_named n (ents r ! i)" using None that len by (simp add: first_idx_None)
      then show ?thesis using live_named_iff [OF ok [OF that] assms(2)] by (auto simp: matching_def)
    qed
    then have "owner_of tv r (cstr n) = None" by (simp add: owner_of_def owner_in_None [OF eo])
    moreover have "v = OS_SERVICE_NOT_FOUND" "r' = r"
      using None assms(2,3) by (simp_all add: service_registry_lookup_def first_ents)
    ultimately show ?thesis by (intro none)
  next
    case (Some i)
    have i: "i < 12" using first_idx_SomeD(1) [OF Some] len by simp
    have nm: "re_pid (ents r ! i) \<noteq> 0" "cstr (re_name (ents r ! i)) = cstr n"
      using first_idx_SomeD(2) [OF Some] live_named_iff [OF ok [OF i] assms(2)] by simp_all
    have e: "ents r ! i = ecore (rg_entries r ! i)" using i len by (simp add: nth_ents)
    show ?thesis
    proof (cases "entry_valid tv (ents r ! i)")
      case True
      then have own: "owner_of tv r (cstr n) = Some (re_pid (ents r ! i))"
        unfolding owner_of_def using nm by (intro owner_in_unique [OF eo i]) (simp add: matching_def)
      have "v = re_pid (ents r ! i)" "r' = r"
        using True Some assms(2,3) unfolding e by (auto simp: service_registry_lookup_def first_ents)
      with own entry_valid_pos [OF True] show ?thesis by (intro found) simp_all
    next
      case False
      have "\<not> matching tv (cstr n) (ents r ! j)" if "j < 12" for j
        using nm False ents_unique [OF eo i that] by (auto simp: matching_def)
      then have own: "owner_of tv r (cstr n) = None" by (simp add: owner_of_def owner_in_None [OF eo])
      have run: "v = OS_SERVICE_NOT_FOUND" "r' = service_registry_backend_remove_name n (upd_entry i clear_entry r)"
        using False Some assms(2,3) unfolding e by (auto simp: service_registry_lookup_def first_ents)
      show ?thesis
        by (rule stale [OF run(1) own i nm False]) (simp_all add: run(2) ents_clear len i assms(2))
    qed
  qed
qed

lemma lookup_facts:
  assumes "registry_ok r" and "service_registry_lookup tv n r = (v, r')"
  shows "registry_ok r'" "owner_of tv r' = owner_of tv r" "rest r' = rest r"
    "v = (if service_registry_name_valid n then case owner_of tv r (cstr n) of None \<Rightarrow> OS_SERVICE_NOT_FOUND | Some p \<Rightarrow> p
          else OS_SERVICE_BAD_NAME)"
proof -
  have "registry_ok r' \<and> owner_of tv r' = owner_of tv r \<and> rest r' = rest r \<and>
      v = (case owner_of tv r (cstr n) of None \<Rightarrow> OS_SERVICE_NOT_FOUND | Some p \<Rightarrow> p)" if valid: "service_registry_name_valid n"
    using assms(1) valid assms(2)
  proof (cases rule: lookup_cases)
    case (stale i)
    have "registry_ok r'" using assms(1) stale by (simp add: registry_ok_parts ents_ok_clear caps_ok_clear_map)
    moreover have "owner_of tv r' = owner_of tv r"
      using stale assms(1) by (simp add: owner_of_def fun_eq_iff owner_in_clear registry_ok_parts matching_def)
    ultimately show ?thesis using stale by simp
  qed (use assms in auto)
  moreover have "r' = r \<and> v = OS_SERVICE_BAD_NAME" if "\<not> service_registry_name_valid n"
    using assms(2) that by (simp add: service_registry_lookup_def)
  ultimately show "registry_ok r'" "owner_of tv r' = owner_of tv r" "rest r' = rest r"
    "v = (if service_registry_name_valid n then case owner_of tv r (cstr n) of None \<Rightarrow> OS_SERVICE_NOT_FOUND | Some p \<Rightarrow> p
          else OS_SERVICE_BAD_NAME)"
    using assms(1) by (cases "service_registry_name_valid n"; auto)+
qed

subsection \<open>Registering\<close>

lemma register_scan_eq:
  "register_scan tv n p i free es =
    (case first_idx (\<lambda>e. re_pid e \<noteq> 0 \<and> name_equal (re_name e) n) es of
       Some j \<Rightarrow>
         if re_pid (es ! j) = p \<and> task_identity_valid tv p (re_sequence (es ! j)) (re_generation (es ! j)) then Inl 0
         else if \<not> entry_valid tv (es ! j) then Inr (i + j) else Inl OS_SERVICE_TAKEN
     | None \<Rightarrow>
         (case free of
            Some f \<Rightarrow> Inr f
          | None \<Rightarrow> (case first_idx (\<lambda>e. re_pid e = 0) es of None \<Rightarrow> Inl OS_SERVICE_FULL | Some j \<Rightarrow> Inr (i + j))))"
proof (induction es arbitrary: i free)
  case (Cons e es)
  show ?case
    by (cases "re_pid e = 0"; cases free; cases "name_equal (re_name e) n") (auto simp: Cons.IH split: option.splits)
qed (simp split: option.split)

definition registered :: "task_view \<Rightarrow> cstring \<Rightarrow> pid \<Rightarrow> u32 \<Rightarrow> reg_entry \<Rightarrow> reg_entry" where
  "registered tv n p token e = e\<lparr>re_pid := p, re_sequence := fst (identity_or_zero tv p),
     re_generation := snd (identity_or_zero tv p), re_name := copy_name n,
     re_backend_generation := 1, re_right_token := token, re_identity_key := key_or_zero tv p\<rparr>"

lemma identity_or_zero_valid [simp]:
  "0 < p \<Longrightarrow> task_identity_valid tv p (fst (identity_or_zero tv p)) (snd (identity_or_zero tv p))"
  by (auto simp: task_identity_valid_def identity_or_zero_def split: option.split)

lemma registered_facts:
  assumes "service_registry_name_valid n" and "0 < p" and "token \<noteq> 0"
  shows "entry_ok (registered tv n p token e)" "entry_valid tv (registered tv n p token e)"
    "re_pid (registered tv n p token e) = p" "cstr (re_name (registered tv n p token e)) = cstr n"
    "matching tv m (registered tv n p token e) \<longleftrightarrow> m = cstr n"
proof -
  have v: "service_registry_name_valid (copy_name n)" using assms(1) by (simp add: name_valid_iff cstr_copy_name)
  show "entry_ok (registered tv n p token e)" "entry_valid tv (registered tv n p token e)"
    "re_pid (registered tv n p token e) = p" "cstr (re_name (registered tv n p token e)) = cstr n"
    "matching tv m (registered tv n p token e) \<longleftrightarrow> m = cstr n"
    using assms v by (auto simp: registered_def entry_ok_def entry_valid_def cstr_copy_name matching_def)
qed

text \<open>The slot the search returns is free or holds a stale entry of the same name.\<close>

lemma register_slot:
  fixes tv
  assumes "registry_ok r" and "service_registry_name_valid n" and "0 < p"
  defines "f \<equiv> register_scan tv n p 0 None (rg_entries r)"
  shows "f = Inl 0 \<Longrightarrow> owner_of tv r (cstr n) = Some p"
    "f = Inl OS_SERVICE_TAKEN \<Longrightarrow> \<exists>q. owner_of tv r (cstr n) = Some q \<and> q \<noteq> p"
    "f = Inl OS_SERVICE_FULL \<Longrightarrow> owner_of tv r (cstr n) = None \<and> (\<forall>e\<in>set (rg_entries r). re_pid e \<noteq> 0)"
    "f = Inr i \<Longrightarrow> owner_of tv r (cstr n) = None \<and> i < 12 \<and>
       (re_pid (ents r ! i) = 0 \<or> cstr (re_name (ents r ! i)) = cstr n \<and> \<not> entry_valid tv (ents r ! i)) \<and>
       (\<forall>j<12. j \<noteq> i \<longrightarrow> re_pid (ents r ! j) \<noteq> 0 \<longrightarrow> cstr (re_name (ents r ! j)) \<noteq> cstr n)"
    "f = Inl 0 \<or> f = Inl OS_SERVICE_TAKEN \<or> f = Inl OS_SERVICE_FULL \<or> (\<exists>i. f = Inr i)"
proof -
  have eo: "ents_ok (ents r)" using assms(1) by (simp add: registry_ok_parts)
  have len: "length (rg_entries r) = 12" using registry_okD(1) [OF assms(1)] .
  have nm: "name_equal (re_name e) n \<longleftrightarrow> cstr (re_name e) = cstr n" if "re_pid e \<noteq> 0" "entry_ok e" for e
    using that assms(2) by (auto simp: name_equal_iff entry_ok_def name_valid_iff)
  have ok: "entry_ok (rg_entries r ! i)" if "i < 12" for i using registry_okD(6) [OF assms(1)] that len by simp
  let ?P = "\<lambda>e. re_pid e \<noteq> 0 \<and> name_equal (re_name e) n"
  have none: "owner_of tv r (cstr n) = None \<and> (\<forall>j<12. re_pid (ents r ! j) \<noteq> 0 \<longrightarrow> cstr (re_name (ents r ! j)) \<noteq> cstr n)"
    if "first_idx ?P (rg_entries r) = None"
  proof -
    have "\<forall>j<12. re_pid (ents r ! j) \<noteq> 0 \<longrightarrow> cstr (re_name (ents r ! j)) \<noteq> cstr n"
      using that len nm [OF _ ok] by (auto simp: first_idx_None nth_ents)
    then show ?thesis by (auto simp: owner_of_def owner_in_None [OF eo] matching_def)
  qed
  have some: "j < 12 \<and> cstr (re_name (ents r ! j)) = cstr n \<and> re_pid (ents r ! j) \<noteq> 0 \<and>
      (\<forall>m<12. m \<noteq> j \<longrightarrow> re_pid (ents r ! m) \<noteq> 0 \<longrightarrow> cstr (re_name (ents r ! m)) \<noteq> cstr n) \<and>
      owner_of tv r (cstr n) = (if entry_valid tv (ents r ! j) then Some (re_pid (ents r ! j)) else None)"
    if "first_idx ?P (rg_entries r) = Some j" for j
  proof -
    have j: "j < 12" "re_pid (ents r ! j) \<noteq> 0" "cstr (re_name (ents r ! j)) = cstr n"
      using first_idx_SomeD(1,2) [OF that] len nm [OF _ ok] by (auto simp: nth_ents)
    then have u: "m \<noteq> j \<longrightarrow> re_pid (ents r ! m) \<noteq> 0 \<longrightarrow> cstr (re_name (ents r ! m)) \<noteq> cstr n" if "m < 12" for m
      using ents_unique [OF eo, of m j] that by auto
    then have "owner_in tv (ents r) (cstr n) = None" if "\<not> entry_valid tv (ents r ! j)"
      using that by (auto simp: owner_in_None [OF eo] matching_def)
    moreover have "owner_in tv (ents r) (cstr n) = Some (re_pid (ents r ! j))" if "entry_valid tv (ents r ! j)"
      using j that by (intro owner_in_unique [OF eo]) (simp_all add: matching_def)
    ultimately show ?thesis using j u by (simp add: owner_of_def)
  qed
  have free: "i < 12 \<and> re_pid (ents r ! i) = 0" if "first_idx (\<lambda>e. re_pid e = 0) (rg_entries r) = Some i" for i
    using first_idx_SomeD(1,2) [OF that] len by (simp add: nth_ents)
  note sc = f_def register_scan_eq
  show "f = Inl 0 \<Longrightarrow> owner_of tv r (cstr n) = Some p"
    using some by (auto simp: sc nth_ents len entry_valid_def split: option.splits if_splits)
  show "f = Inl OS_SERVICE_TAKEN \<Longrightarrow> \<exists>q. owner_of tv r (cstr n) = Some q \<and> q \<noteq> p"
    using some by (auto simp: sc nth_ents len entry_valid_def split: option.splits if_splits)
  show "f = Inl OS_SERVICE_FULL \<Longrightarrow> owner_of tv r (cstr n) = None \<and> (\<forall>e\<in>set (rg_entries r). re_pid e \<noteq> 0)"
    using none by (auto simp: sc first_idx_None [of "\<lambda>e. re_pid e = 0"] split: option.splits if_splits)
  show "f = Inr i \<Longrightarrow> owner_of tv r (cstr n) = None \<and> i < 12 \<and>
       (re_pid (ents r ! i) = 0 \<or> cstr (re_name (ents r ! i)) = cstr n \<and> \<not> entry_valid tv (ents r ! i)) \<and>
       (\<forall>j<12. j \<noteq> i \<longrightarrow> re_pid (ents r ! j) \<noteq> 0 \<longrightarrow> cstr (re_name (ents r ! j)) \<noteq> cstr n)"
    using none some
    by (auto simp: sc dest: free split: option.splits if_splits) (auto simp: nth_ents len)
  show "f = Inl 0 \<or> f = Inl OS_SERVICE_TAKEN \<or> f = Inl OS_SERVICE_FULL \<or> (\<exists>i. f = Inr i)"
    by (auto simp: sc split: option.splits)
qed

lemma mint_right_token_facts:
  assumes "mint_right_token r = (token, r1)" and "registry_ok r"
  shows "token \<noteq> 0" "r1 = r\<lparr>rg_right_token_next := next_nonzero (rg_right_token_next r)\<rparr>"
  using assms registry_okD(11) [OF assms(2)] by (auto simp: mint_right_token_def Let_def)

lemma set_right_token_simps [simp]:
  "ents (r\<lparr>rg_right_token_next := x\<rparr>) = ents r" "rest (r\<lparr>rg_right_token_next := x\<rparr>) = (rest r)\<lparr>rg_right_token_next := x\<rparr>"
  by (simp_all add: ents_def rest_def)

lemma register_cases:
  assumes "registry_ok r" and "service_registry_register tv n p r = (v, r')"
  obtains (bad) "v = OS_SERVICE_BAD_NAME" "\<not> service_registry_name_valid n \<or> p \<le> 0" "r' = r"
  | (own) "v = 0" "service_registry_name_valid n" "owner_of tv r (cstr n) = Some p" "r' = r"
  | (taken) q where "v = OS_SERVICE_TAKEN" "service_registry_name_valid n" "owner_of tv r (cstr n) = Some q" "q \<noteq> p" "r' = r"
  | (full) "v = OS_SERVICE_FULL" "service_registry_name_valid n" "owner_of tv r (cstr n) = None"
      "\<forall>e\<in>set (rg_entries r). re_pid e \<noteq> 0" "r' = r"
  | (new) "v = 0" "service_registry_name_valid n" "0 < p" "owner_of tv r (cstr n) = None" "registry_ok r'"
      "owner_of tv r' = (owner_of tv r)(cstr n \<mapsto> p)" "rg_caps r' = rg_caps r"
      "rest r' = (rest r)\<lparr>rg_right_token_next := next_nonzero (rg_right_token_next r)\<rparr>"
proof (cases "service_registry_name_valid n \<and> 0 < p")
  case False
  then have "v = OS_SERVICE_BAD_NAME" "r' = r" using assms(2) by (auto simp: service_registry_register_def)
  with False show ?thesis by (intro bad) auto
next
  case ok: True
  note sl = register_slot [OF assms(1) conjunct1 [OF ok] conjunct2 [OF ok], of tv]
  let ?f = "register_scan tv n p 0 None (rg_entries r)"
  consider "?f = Inl 0" | "?f = Inl OS_SERVICE_TAKEN" | "?f = Inl OS_SERVICE_FULL" | i where "?f = Inr i"
    using sl(5) by blast
  then show ?thesis
  proof cases
    case 1
    then have "v = 0" "r' = r" using ok assms(2) by (simp_all add: service_registry_register_def)
    with 1 ok sl(1) show ?thesis by (intro own) simp_all
  next
    case 2
    then have "v = OS_SERVICE_TAKEN" "r' = r" using ok assms(2) by (simp_all add: service_registry_register_def)
    moreover obtain q where "owner_of tv r (cstr n) = Some q" "q \<noteq> p" using sl(2) [OF 2] by blast
    ultimately show ?thesis using ok by (intro taken) simp_all
  next
    case 3
    then have "v = OS_SERVICE_FULL" "r' = r" using ok assms(2) by (simp_all add: service_registry_register_def)
    with sl(3) [OF 3] ok show ?thesis by (intro full) simp_all
  next
    case (4 i)
    note s = sl(4) [OF 4]
    obtain token r1 where m: "mint_right_token r = (token, r1)" by fastforce
    note mt = mint_right_token_facts [OF m assms(1)]
    let ?e = "ecore (registered tv n p token (rg_entries r ! i))"
    have run: "v = 0" "r' = upd_entry i (registered tv n p token) r1"
      using 4 m ok assms(2) by (auto simp: service_registry_register_def registered_def [abs_def])
    have e: "ents r' = (ents r)[i := ?e]" unfolding run(2) mt(2) by (simp add: ents_upd_entry)
    have eo: "ents_ok (ents r)" using assms(1) by (simp add: registry_ok_parts)
    have "ents_ok ((ents r)[i := ?e])"
      using s ok mt(1) by (intro ents_ok_update [OF eo]) (auto simp: registered_facts)
    note eo' = this
    have reg: "registry_ok r'"
      using assms(1) eo' unfolding registry_ok_parts e
      by (simp add: run(2) mt(2)) (simp add: rest_ok_def)
    have "owner_of tv r' = (owner_of tv r)(cstr n \<mapsto> p)"
    proof
      fix m
      have "\<not> matching tv m (ents r ! i)" using s by (auto simp: matching_def)
      then show "owner_of tv r' m = ((owner_of tv r)(cstr n \<mapsto> p)) m"
        unfolding owner_of_def e using s ok mt(1) by (subst owner_in_update [OF eo eo']) (auto simp: registered_facts)
    qed
    with run(1) ok s reg show ?thesis by (intro new) (simp_all add: run(2) mt(2))
  qed
qed

subsection \<open>Removing\<close>

lemma remove_cases:
  assumes "registry_ok r" and "service_registry_remove tv n p r = (v, r')"
  obtains (bad) "v = OS_SERVICE_BAD_NAME" "\<not> service_registry_name_valid n \<or> p \<le> 0" "r' = r"
  | (none) "v = OS_SERVICE_NOT_FOUND" "service_registry_name_valid n" "owner_of tv r (cstr n) \<noteq> Some p" "r' = r"
  | (gone) "v = 0" "service_registry_name_valid n" "owner_of tv r (cstr n) = Some p" "registry_ok r'"
      "owner_of tv r' = (owner_of tv r)(cstr n := None)" "rest r' = rest r"
      "rg_caps r' = map (\<lambda>c. if cap_named n c then clear_cap c else c) (rg_caps r)"
proof (cases "service_registry_name_valid n \<and> 0 < p")
  case False
  then have "v = OS_SERVICE_BAD_NAME" "r' = r" using assms(2) by (auto simp: service_registry_remove_def)
  with False show ?thesis by (intro bad) auto
next
  case ok: True
  have eo: "ents_ok (ents r)" using assms(1) by (simp add: registry_ok_parts)
  have len: "length (rg_entries r) = 12" using registry_okD(1) [OF assms(1)] .
  let ?P = "\<lambda>e. re_pid e = p \<and> name_equal (re_name e) n \<and> entry_valid tv e"
  have m: "?P (rg_entries r ! i) \<longleftrightarrow> matching tv (cstr n) (ents r ! i) \<and> re_pid (ents r ! i) = p" if "i < 12" for i
    using ok that len registry_okD(6) [OF assms(1), of "rg_entries r ! i"]
    by (auto simp: matching_def nth_ents name_equal_iff entry_ok_def name_valid_iff)
  show ?thesis
  proof (cases "first_idx ?P (rg_entries r)")
    case None
    then have "\<not> ?P (rg_entries r ! i)" if "i < 12" for i using that len by (simp add: first_idx_None)
    with m have "owner_of tv r (cstr n) \<noteq> Some p" by (auto simp: owner_of_def owner_in_Some [OF eo])
    moreover have "v = OS_SERVICE_NOT_FOUND" "r' = r" using None ok assms(2) by (auto simp: service_registry_remove_def)
    ultimately show ?thesis using ok by (intro none) simp_all
  next
    case (Some i)
    have i: "i < 12" using first_idx_SomeD(1) [OF Some] len by simp
    have mi: "matching tv (cstr n) (ents r ! i)" "re_pid (ents r ! i) = p"
      using m [OF i] first_idx_SomeD(2) [OF Some] by simp_all
    have run: "v = 0" "r' = service_registry_backend_remove_name n (upd_entry i clear_entry r)"
      using Some ok assms(2) by (auto simp: service_registry_remove_def)
    have e: "ents r' = (ents r)[i := clear_entry (ents r ! i)]" using i len by (simp add: run(2) ents_clear)
    have "registry_ok r'"
      using assms(1) i ok unfolding registry_ok_parts e by (simp add: run(2) ents_ok_clear caps_ok_clear_map)
    moreover have "owner_of tv r' = (owner_of tv r)(cstr n := None)"
      using mi(1) by (auto simp: owner_of_def e owner_in_clear [OF eo i] matching_def)
    moreover have "owner_of tv r (cstr n) = Some p"
      using owner_in_unique [OF eo i mi(1)] mi(2) by (simp add: owner_of_def)
    ultimately show ?thesis using ok run by (intro gone) simp_all
  qed
qed


subsection \<open>Granting a backend capability\<close>

definition fresh_cap :: "task_view \<Rightarrow> cstring \<Rightarrow> pid \<Rightarrow> pid \<Rightarrow> u32 \<Rightarrow> u32 \<Rightarrow> cstring \<Rightarrow> u32 \<Rightarrow> backend_cap \<Rightarrow> backend_cap" where
  "fresh_cap tv n owner grantee rights sources pfx token c =
     (stamp_cap tv owner grantee c)\<lparr>bc_owner_pid := owner, bc_grantee_pid := grantee, bc_rights := rights,
        bc_sources := sources, bc_token := token,
        bc_prefix := service_registry_backend_copy_prefix pfx, bc_name := copy_name n\<rparr>"

definition widened_cap :: "task_view \<Rightarrow> pid \<Rightarrow> pid \<Rightarrow> u32 \<Rightarrow> u32 \<Rightarrow> cstring \<Rightarrow> u32 \<Rightarrow> backend_cap \<Rightarrow> backend_cap" where
  "widened_cap tv owner grantee rights sources pfx token c =
     (stamp_cap tv owner grantee (c\<lparr>bc_rights := bc_rights c OR rights, bc_sources := bc_sources c OR sources\<rparr>))\<lparr>
        bc_prefix := service_registry_backend_copy_prefix pfx, bc_token := (if bc_token c = 0 then token else bc_token c)\<rparr>"

definition scope_ok :: "cstring \<Rightarrow> pid \<Rightarrow> pid \<Rightarrow> u32 \<Rightarrow> u32 \<Rightarrow> cstring option \<Rightarrow> bool" where
  "scope_ok n owner grantee rights sources pfx \<longleftrightarrow> service_registry_name_valid n \<and> 0 < owner \<and> 0 < grantee \<and> rights \<noteq> 0 \<and>
     rights AND NOT SERVICE_BACKEND_RIGHT_ALL = 0 \<and> service_registry_backend_sources_valid sources \<and>
     service_registry_backend_prefix_valid pfx"

lemma prefix_scan_length: "prefix_scan prev n s \<Longrightarrow> length (cstr s) < n"
proof (induction prev n s rule: prefix_scan.induct)
  case (2 prev n s)
  then show ?case by (cases s) (auto simp: Let_def split: if_splits)
qed simp

lemma prefix_scan_cong: "cstr s = cstr t \<Longrightarrow> prefix_scan prev n s = prefix_scan prev n t"
proof (induction n arbitrary: prev s t)
  case (Suc n)
  have r: "rd (u :: cstring) 0 = (case cstr u of [] \<Rightarrow> NUL | c # _ \<Rightarrow> c)" for u by (cases u) auto
  have r1: "rd u 1 = (case cstr (tl u) of [] \<Rightarrow> NUL | c # _ \<Rightarrow> c)" if "cstr u \<noteq> []" for u :: cstring
    using that r [of "tl u"] by (cases u) auto
  have t: "cstr (tl u) = tl (cstr u)" if "cstr u \<noteq> []" for u :: cstring using that by (cases u) (auto split: if_splits)
  show ?case
  proof (cases "cstr s = []")
    case True
    with Suc.prems show ?thesis by (simp add: r)
  next
    case False
    with Suc.prems have ct: "cstr t \<noteq> []" "cstr (tl s) = cstr (tl t)" by (simp_all add: t)
    show ?thesis using Suc.IH [OF ct(2)] Suc.prems r1 [OF False] r1 [OF ct(1)] ct(2) by (simp add: r)
  qed
qed simp

lemma prefix_copy:
  assumes "service_registry_backend_prefix_valid (Some p)"
  shows "cstr (service_registry_backend_copy_prefix p) = cstr p"
    "service_registry_backend_prefix_valid (Some (service_registry_backend_copy_prefix p))"
    "length (service_registry_backend_copy_prefix p) = 48"
proof -
  have "length (cstr p) < 48"
    using assms prefix_scan_length [of None 48 p]
    by (auto simp: service_registry_backend_prefix_valid_def cstr_empty_iff [symmetric] split: if_splits)
  then show c: "cstr (service_registry_backend_copy_prefix p) = cstr p"
    by (simp add: service_registry_backend_copy_prefix_def cstr_copy_upto_short)
  show "service_registry_backend_prefix_valid (Some (service_registry_backend_copy_prefix p))"
    using assms c prefix_scan_cong [OF c] by (simp add: service_registry_backend_prefix_valid_def cstr_empty_iff [symmetric])
qed (simp add: service_registry_backend_copy_prefix_def)

lemma sources_or:
  assumes "service_registry_backend_sources_valid a" and "service_registry_backend_sources_valid b"
  shows "service_registry_backend_sources_valid (a OR b)"
  using assms by (auto simp: service_registry_backend_sources_valid_def bit.conj_disj_distrib2 or_eq_0_iff)

lemma fresh_cap_ok:
  assumes "scope_ok n owner grantee rights sources (Some pfx)"
  shows "cap_ok (fresh_cap tv n owner grantee rights sources pfx token c)"
  using assms prefix_copy [of pfx] cstr_copy_name [of n]
  by (simp add: fresh_cap_def stamp_cap_def cap_ok_def scope_ok_def name_valid_iff)

lemma widened_cap_ok:
  assumes "cap_ok c" and "bc_owner_pid c \<noteq> 0" and "scope_ok n owner grantee rights sources (Some pfx)"
  shows "cap_ok (widened_cap tv owner grantee rights sources pfx token c)"
  using assms prefix_copy [of pfx]
  by (simp add: widened_cap_def stamp_cap_def cap_ok_def scope_ok_def sources_or bit.conj_disj_distrib2 or_eq_0_iff)

lemma cap_between_iff:
  assumes "cap_ok c" and "service_registry_name_valid n" and "0 < owner"
  shows "cap_between owner grantee n c \<longleftrightarrow> bc_owner_pid c = owner \<and> bc_grantee_pid c = grantee \<and> cstr (bc_name c) = cstr n"
  using assms by (auto simp: cap_between_def name_equal_iff name_valid_iff)

lemma upd_token_next [simp]: "rg_token_next (upd_cap i f r) = rg_token_next r" "rg_token_next (upd_entry i g r) = rg_token_next r"
  by (simp_all add: upd_cap_def upd_entry_def)

lemma set_token_simps [simp]:
  "ents (r\<lparr>rg_token_next := x\<rparr>) = ents r" "rest (r\<lparr>rg_token_next := x\<rparr>) = (rest r)\<lparr>rg_token_next := x\<rparr>"
  by (simp_all add: ents_def rest_def)

lemma rest_ok_token [simp]: "rest_ok (r\<lparr>rg_token_next := next_nonzero x\<rparr>) = rest_ok (r\<lparr>rg_token_next := 1\<rparr>)"
  "rest_ok r \<Longrightarrow> rest_ok (r\<lparr>rg_token_next := 1\<rparr>)"
  by (simp_all add: rest_ok_def)

text \<open>The possible outcomes of a grant.\<close>

lemma backend_grant_cases:
  assumes "registry_ok r"
    and "service_registry_backend_grant_scoped_source_prefix tv n owner grantee rights sources pfx r = (v, r')"
  obtains (bad) "v = OS_SERVICE_BAD_NAME" "\<not> scope_ok n owner grantee rights sources pfx" "r' = r"
  | (not_owner) "v = OS_SERVICE_NOT_OWNER" "scope_ok n owner grantee rights sources pfx"
      "owner_of tv r (cstr n) \<noteq> Some owner" "snd (service_registry_lookup tv n r) = r'"
  | (full) "v = OS_SERVICE_FULL" "scope_ok n owner grantee rights sources pfx" "owner_of tv r (cstr n) = Some owner"
      "\<forall>c\<in>set (rg_caps r). bc_owner_pid c \<noteq> 0 \<and> \<not> cap_between owner grantee n c" "r' = r"
  | (same) i where "v = 0" "scope_ok n owner grantee rights sources pfx" "owner_of tv r (cstr n) = Some owner" "i < 4"
      "cap_between owner grantee n (rg_caps r ! i)" "bc_rights (rg_caps r ! i) OR rights = bc_rights (rg_caps r ! i)"
      "bc_sources (rg_caps r ! i) OR sources = bc_sources (rg_caps r ! i)" "cstr (bc_prefix (rg_caps r ! i)) = cstr (the pfx)" "r' = r"
  | (widened) i where "v = 0" "scope_ok n owner grantee rights sources pfx" "owner_of tv r (cstr n) = Some owner" "i < 4"
      "cap_between owner grantee n (rg_caps r ! i)"
      "rg_caps r' = (rg_caps r)[i := widened_cap tv owner grantee rights sources (the pfx) (rg_token_next r) (rg_caps r ! i)]"
      "ents r' = ents r" "rest r' = rest r \<or> rest r' = (rest r)\<lparr>rg_token_next := next_nonzero (rg_token_next r)\<rparr>"
  | (fresh) i where "v = 0" "scope_ok n owner grantee rights sources pfx" "owner_of tv r (cstr n) = Some owner" "i < 4"
      "bc_owner_pid (rg_caps r ! i) = 0" "\<forall>c\<in>set (rg_caps r). \<not> cap_between owner grantee n c"
      "rg_caps r' = (rg_caps r)[i := fresh_cap tv n owner grantee rights sources (the pfx) (rg_token_next r) (rg_caps r ! i)]"
      "ents r' = ents r" "rest r' = (rest r)\<lparr>rg_token_next := next_nonzero (rg_token_next r)\<rparr>"
proof (cases "scope_ok n owner grantee rights sources pfx")
  case False
  then have "v = OS_SERVICE_BAD_NAME" "r' = r"
    using assms(2) by (auto simp: service_registry_backend_grant_scoped_source_prefix_def scope_ok_def)
  with False show ?thesis by (intro bad)
next
  case ok: True
  note d = service_registry_backend_grant_scoped_source_prefix_def
  have guard: "(\<not> service_registry_name_valid n \<or> owner \<le> 0 \<or> grantee \<le> 0 \<or> rights = 0 \<or>
      rights AND NOT SERVICE_BACKEND_RIGHT_ALL \<noteq> 0 \<or> \<not> service_registry_backend_sources_valid sources \<or>
      \<not> service_registry_backend_prefix_valid pfx) = False" using ok by (auto simp: scope_ok_def)
  have valid: "service_registry_name_valid n" "0 < owner" using ok by (simp_all add: scope_ok_def)
  obtain q where q: "pfx = Some q" using ok by (cases pfx) (auto simp: scope_ok_def service_registry_backend_prefix_valid_def)
  obtain w r1 where l: "service_registry_lookup tv n r = (w, r1)" by fastforce
  have len: "length (rg_caps r) = 4" using registry_okD(4) [OF assms(1)] .
  note lf = lookup_facts(4) [OF assms(1) l]
  show ?thesis
  proof (cases "owner_of tv r (cstr n) = Some owner")
    case False
    then have "w \<noteq> owner" using lf valid by (auto split: option.splits)
    then have "v = OS_SERVICE_NOT_OWNER" "r' = r1" using assms(2) l unfolding d guard by auto
    with False ok l show ?thesis by (intro not_owner) simp_all
  next
    case own: True
    have w: "w = owner" using lf valid own by simp
    have r1: "r1 = r" using assms(1) valid(1) l by (cases rule: lookup_cases) (use own in auto)
    show ?thesis
    proof (cases "first_idx (cap_between owner grantee n) (rg_caps r)")
      case (Some i)
      note i = first_idx_SomeD(1,2) [OF Some]
      let ?c = "rg_caps r ! i"
      have run: "v = 0" "r' = regrant tv n owner grantee rights sources (the pfx) i r"
        using assms(2) l Some unfolding d guard by (simp_all add: w r1)
      have pe: "service_registry_backend_prefix_equal (bc_prefix ?c) (Some q) \<longleftrightarrow> cstr (bc_prefix ?c) = cstr q"
        using ok prefix_scan_length [of None 48 q] q
        by (auto simp: service_registry_backend_prefix_equal_def str_eq_upto_iff scope_ok_def
            service_registry_backend_prefix_valid_def cstr_empty_iff [symmetric] split: if_splits)
      show ?thesis
      proof (cases "bc_rights ?c OR rights = bc_rights ?c \<and> bc_sources ?c OR sources = bc_sources ?c \<and> cstr (bc_prefix ?c) = cstr q")
        case True
        then have "r' = r" using run(2) pe q by (simp add: regrant_def Let_def)
        with True run(1) ok own i len q show ?thesis by (intro same) auto
      next
        case False
        then have changed: "(bc_rights ?c \<noteq> bc_rights ?c OR rights \<or> bc_sources ?c \<noteq> bc_sources ?c OR sources \<or>
            \<not> service_registry_backend_prefix_equal (bc_prefix ?c) (Some q)) = True"
          using pe by auto
        have cs: "rg_caps r' = (rg_caps r)[i := widened_cap tv owner grantee rights sources q (rg_token_next r) ?c]"
          using i(1) unfolding run(2) regrant_def Let_def q option.sel changed
          by (auto simp: widened_cap_def mint_backend_token_def stamp_cap_def split: if_splits)
        have "ents r' = ents r" "rest r' = rest r \<or> rest r' = (rest r)\<lparr>rg_token_next := next_nonzero (rg_token_next r)\<rparr>"
          unfolding run(2) regrant_def Let_def q option.sel changed
          by (simp_all add: mint_backend_token_def)
        with cs run(1) ok own i len q show ?thesis by (intro widened) simp_all
      qed
    next
      case None
      then have nb: "\<forall>c\<in>set (rg_caps r). \<not> cap_between owner grantee n c" by (simp add: first_idx_None)
      show ?thesis
      proof (cases "first_idx (\<lambda>c. bc_owner_pid c = 0) (rg_caps r)")
        case no: None
        then have "\<forall>c\<in>set (rg_caps r). bc_owner_pid c \<noteq> 0" by (simp add: first_idx_None)
        moreover have "v = OS_SERVICE_FULL" "r' = r" using assms(2) l None no unfolding d guard by (simp_all add: w r1)
        ultimately show ?thesis using ok own nb by (intro full) simp_all
      next
        case (Some i)
        note i = first_idx_SomeD(1,2) [OF Some]
        have run: "v = 0" "r' = service_registry_backend_generation_bump n
            (upd_cap i (fresh_cap tv n owner grantee rights sources (the pfx) (rg_token_next r))
              (r\<lparr>rg_token_next := next_nonzero (rg_token_next r)\<rparr>))"
          using assms(2) l None Some unfolding d guard
          by (simp_all add: w r1 mint_backend_token_def fresh_cap_def [abs_def])
        with i ok own nb len show ?thesis by (intro fresh) simp_all
      qed
    qed
  qed
qed

lemma backend_grant_facts:
  assumes "registry_ok r"
    and "service_registry_backend_grant_scoped_source_prefix tv n owner grantee rights sources pfx r = (v, r')"
  shows "registry_ok r'" "owner_of tv r' = owner_of tv r"
proof -
  have "registry_ok r' \<and> owner_of tv r' = owner_of tv r"
    using assms
  proof (cases rule: backend_grant_cases)
    case not_owner
    then show ?thesis using lookup_facts(1,2) [OF assms(1)] by (metis prod.collapse)
  next
    case (widened i)
    have co: "caps_ok (rg_caps r)" "cap_ok (rg_caps r ! i)" using assms(1) widened(4) by (auto simp: registry_ok_parts caps_ok_def)
    let ?c = "widened_cap tv owner grantee rights sources (the pfx) (rg_token_next r) (rg_caps r ! i)"
    have cb: "bc_owner_pid (rg_caps r ! i) = owner" "0 < owner" using widened(2,5) by (simp_all add: cap_between_def scope_ok_def)
    obtain q where "pfx = Some q" using widened(2) by (cases pfx) (auto simp: scope_ok_def service_registry_backend_prefix_valid_def)
    with widened(2) cb have "cap_ok ?c" by (intro widened_cap_ok [OF co(2)]) simp_all
    moreover have "bc_owner_pid ?c = bc_owner_pid (rg_caps r ! i)" "bc_grantee_pid ?c = bc_grantee_pid (rg_caps r ! i)" "bc_name ?c = bc_name (rg_caps r ! i)"
      by (simp_all add: widened_cap_def stamp_cap_def)
    ultimately have "caps_ok ((rg_caps r)[i := ?c])"
      using co widened(4) by (intro caps_ok_update) (auto simp: caps_ok_def cap_keys_def distinct_filter_nth)
    then show ?thesis using assms(1) widened(6-8) by (auto simp: registry_ok_parts owner_of_def)
  next
    case (fresh i)
    have co: "caps_ok (rg_caps r)" using assms(1) by (simp add: registry_ok_parts)
    let ?c = "fresh_cap tv n owner grantee rights sources (the pfx) (rg_token_next r) (rg_caps r ! i)"
    obtain q where "pfx = Some q" using fresh(2) by (cases pfx) (auto simp: scope_ok_def service_registry_backend_prefix_valid_def)
    with fresh(2) have c: "cap_ok ?c" by (intro fresh_cap_ok) simp_all
    have valid: "service_registry_name_valid n" "0 < owner" using fresh(2) by (simp_all add: scope_ok_def)
    have "caps_ok ((rg_caps r)[i := ?c])"
    proof (rule caps_ok_update [OF co c])
      fix j assume j: "(j::nat) < 4"
      then have "rg_caps r ! j \<in> set (rg_caps r)" using co by (simp add: caps_ok_def)
      then have "\<not> cap_between owner grantee n (rg_caps r ! j)" "cap_ok (rg_caps r ! j)" using fresh(6) co by (auto simp: caps_ok_def)
      then show "(bc_owner_pid (rg_caps r ! j), bc_grantee_pid (rg_caps r ! j), cstr (bc_name (rg_caps r ! j))) \<noteq>
          (bc_owner_pid ?c, bc_grantee_pid ?c, cstr (bc_name ?c))"
        using cap_between_iff [of "rg_caps r ! j" n owner grantee] valid
        by (auto simp: fresh_cap_def stamp_cap_def cstr_copy_name)
    qed
    then show ?thesis using assms(1) fresh(7-9) by (auto simp: registry_ok_parts owner_of_def)
  qed (use assms in auto)
  then show "registry_ok r'" "owner_of tv r' = owner_of tv r" by simp_all
qed

end
