(* ===== verification/Registry_Owner.thy ===== *)
theory Registry_Owner
  imports Registry_Inv
begin

text \<open>
  Who owns a name, over any series of registry calls. The contract is the locale
  \<open>name_authority\<close>; the registry provides it. Then what the operations on capabilities
  guarantee to the holder and to the owner.
\<close>

subsection \<open>Handing a name over\<close>

definition handed_over :: "task_view \<Rightarrow> pid \<Rightarrow> reg_entry \<Rightarrow> reg_entry" where
  "handed_over tv grantee e = e\<lparr>re_pid := grantee, re_sequence := fst (identity_or_zero tv grantee),
     re_generation := snd (identity_or_zero tv grantee), re_identity_key := key_or_zero tv grantee\<rparr>"

text \<open>The part of \<open>service_registry_grant\<close> after the entry has changed hands.\<close>

definition after_handover :: "task_view \<Rightarrow> cstring \<Rightarrow> pid \<Rightarrow> registry \<Rightarrow> registry" where
  "after_handover tv n grantee r1 =
     (if name_equal n ''vfs''
      then (case service_registry_lookup tv ''vfs-virtual'' r1 of
          (v, r2) \<Rightarrow> if v > 0 then snd (service_registry_backend_grant_scoped_source tv n grantee grantee
              SERVICE_BACKEND_RIGHT_ALL OS_SERVICE_BACKEND_SOURCE_ALL r2) else r2)
      else r1)"

lemma after_handover_facts:
  assumes "registry_ok r"
  shows "registry_ok (after_handover tv n g r)" "owner_of tv (after_handover tv n g r) = owner_of tv r"
proof -
  obtain v r2 where l: "service_registry_lookup tv ''vfs-virtual'' r = (v, r2)" by fastforce
  note lf = lookup_facts [OF assms l]
  obtain w r3 where b: "service_registry_backend_grant_scoped_source_prefix tv n g g SERVICE_BACKEND_RIGHT_ALL
      OS_SERVICE_BACKEND_SOURCE_ALL (Some []) r2 = (w, r3)" by fastforce
  note bf = backend_grant_facts [OF lf(1) b]
  show "registry_ok (after_handover tv n g r)" "owner_of tv (after_handover tv n g r) = owner_of tv r"
    using assms l lf b bf
    by (simp_all add: after_handover_def service_registry_backend_grant_scoped_source_def)
qed

lemma grant_cases:
  assumes "registry_ok r" and "service_registry_grant tv n owner grantee r = (v, r')"
  obtains (bad) "v = OS_SERVICE_BAD_NAME" "\<not> service_registry_name_valid n \<or> owner \<le> 0" "r' = r"
  | (bad_grantee) "v = OS_SERVICE_BAD_GRANTEE" "grantee \<le> 0" "r' = r"
  | (refused) "v = OS_SERVICE_NOT_FOUND \<or> v = OS_SERVICE_NOT_OWNER" "service_registry_name_valid n"
      "owner_of tv r (cstr n) \<noteq> Some owner" "r' = r"
  | (handed) "v = 0" "service_registry_name_valid n" "0 < grantee" "owner_of tv r (cstr n) = Some owner" "registry_ok r'"
      "owner_of tv r' = (owner_of tv r)(cstr n \<mapsto> grantee)"
      "\<not> name_equal n ''vfs'' \<Longrightarrow> rg_caps r' = map (\<lambda>c. if cap_named n c then clear_cap c else c) (rg_caps r)"
proof (cases "service_registry_name_valid n \<and> 0 < owner")
  case False
  then have "v = OS_SERVICE_BAD_NAME" "r' = r" using assms(2) by (auto simp: service_registry_grant_def)
  with False show ?thesis by (intro bad) auto
next
  case ok: True
  show ?thesis
  proof (cases "0 < grantee")
    case False
    then have "v = OS_SERVICE_BAD_GRANTEE" "r' = r" using ok assms(2) by (auto simp: service_registry_grant_def)
    with False show ?thesis by (intro bad_grantee) auto
  next
    case g: True
    have eo: "ents_ok (ents r)" using assms(1) by (simp add: registry_ok_parts)
    have len: "length (rg_entries r) = 12" using registry_okD(1) [OF assms(1)] .
    have nm: "name_equal (re_name (rg_entries r ! i)) n \<longleftrightarrow> re_pid (ents r ! i) \<noteq> 0 \<and> cstr (re_name (ents r ! i)) = cstr n" if "i < 12" for i
      using ok that len registry_okD(6) [OF assms(1), of "rg_entries r ! i"]
      by (auto simp: nth_ents name_equal_iff entry_ok_def name_valid_iff split: if_splits)
    show ?thesis
    proof (cases "first_idx (\<lambda>e. name_equal (re_name e) n) (rg_entries r)")
      case None
      then have "\<not> name_equal (re_name (rg_entries r ! i)) n" if "i < 12" for i using that len by (simp add: first_idx_None)
      with nm have "owner_of tv r (cstr n) \<noteq> Some owner" by (auto simp: owner_of_def owner_in_Some [OF eo] matching_def)
      moreover have "v = OS_SERVICE_NOT_FOUND" "r' = r" using None ok g assms(2) by (simp_all add: service_registry_grant_def)
      ultimately show ?thesis using ok by (intro refused) simp_all
    next
      case (Some i)
      have i: "i < 12" using first_idx_SomeD(1) [OF Some] len by simp
      note n = nm [OF i, THEN iffD1, OF first_idx_SomeD(2) [OF Some]]
      let ?e = "rg_entries r ! i"
      show ?thesis
      proof (cases "re_pid ?e = owner \<and> task_identity_valid tv owner (re_sequence ?e) (re_generation ?e)")
        case False
        have "j = i" if "matching tv (cstr n) (ents r ! j)" "j < 12" for j
          using ents_unique [OF eo that(2) i] that n by (auto simp: matching_def)
        with False have "owner_of tv r (cstr n) \<noteq> Some owner"
          by (auto simp: owner_of_def owner_in_Some [OF eo] matching_def nth_ents len i entry_valid_def)
        moreover have "v = OS_SERVICE_NOT_OWNER" "r' = r" using False Some ok g assms(2) by (auto simp: service_registry_grant_def Let_def)
        ultimately show ?thesis using ok by (intro refused) simp_all
      next
        case True
        let ?r1 = "service_registry_backend_remove_name n (upd_entry i (handed_over tv grantee) r)"
        have run: "v = 0" "r' = after_handover tv n grantee ?r1"
          using True Some ok g assms(2)
          by (auto simp: service_registry_grant_def Let_def after_handover_def handed_over_def [abs_def] split: prod.splits if_splits)
        let ?h = "ecore (handed_over tv grantee ?e)"
        have e: "ents ?r1 = (ents r)[i := ?h]" by (simp add: ents_upd_entry)
        have hp: "re_pid ?h = grantee" "re_name ?h = re_name (ents r ! i)" "entry_valid tv ?h"
          using g i len by (simp_all add: handed_over_def nth_ents entry_valid_def)
        have "entry_ok (ents r ! i)" using eo i by (simp add: ents_ok_def)
        then have "entry_ok ?h" using n g i len by (auto simp: entry_ok_def handed_over_def nth_ents split: if_splits)
        then have eo': "ents_ok ((ents r)[i := ?h])"
          using n hp ents_unique [OF eo _ i] by (intro ents_ok_update [OF eo]) auto
        have "registry_ok ?r1" using assms(1) eo' ok unfolding registry_ok_parts e by (simp add: caps_ok_clear_map)
        note ah = after_handover_facts [OF this, of tv n grantee]
        have mi: "matching tv (cstr n) (ents r ! i)" using True n i len by (simp add: matching_def nth_ents entry_valid_def)
        have "owner_of tv r (cstr n) = Some owner"
          using owner_in_unique [OF eo i mi] True i len by (simp add: owner_of_def nth_ents)
        moreover have "owner_of tv ?r1 = (owner_of tv r)(cstr n \<mapsto> grantee)"
          unfolding owner_of_def e using mi hp n g by (auto simp: owner_in_update [OF eo eo' i] matching_def fun_eq_iff)
        moreover have "\<not> name_equal n ''vfs'' \<Longrightarrow> rg_caps r' = map (\<lambda>c. if cap_named n c then clear_cap c else c) (rg_caps r)"
          using ok by (simp add: run(2) after_handover_def)
        ultimately show ?thesis using ok g run(1) ah by (intro handed) (simp_all add: run(2))
      qed
    qed
  qed
qed

subsection \<open>What the check of a capability decides\<close>

definition permits :: "task_view \<Rightarrow> registry \<Rightarrow> cstring \<Rightarrow> pid \<Rightarrow> u32 \<Rightarrow> u32 \<Rightarrow> cstring option \<Rightarrow> backend_cap \<Rightarrow> bool" where
  "permits tv r n p right source path c \<longleftrightarrow> bc_grantee_pid c = p \<and>
     task_identity_valid tv p (bc_grantee_sequence c) (bc_grantee_generation c) \<and> cstr (bc_name c) = cstr n \<and>
     owner_of tv r (cstr n) = Some (bc_owner_pid c) \<and> cap_allows tv p right source path c"

lemma owner_of_valid:
  assumes "registry_ok r" and "owner_of tv r (cstr n) = Some p"
  shows "service_registry_name_valid n" "0 < p"
proof -
  have eo: "ents_ok (ents r)" using assms(1) by (simp add: registry_ok_parts)
  obtain i where i: "i < 12" "matching tv (cstr n) (ents r ! i)" "re_pid (ents r ! i) = p"
    using assms(2) by (auto simp: owner_of_def owner_in_Some [OF eo])
  then have "entry_ok (ents r ! i)" using eo by (simp add: ents_ok_def)
  with i show "service_registry_name_valid n" by (auto simp: matching_def entry_ok_def name_valid_iff)
  show "0 < p" using i entry_valid_pos [of tv "ents r ! i"] by (simp add: matching_def)
qed

lemma allowed_loop_iff:
  assumes "registry_ok r" and "set is \<subseteq> {..<4}" and "allowed_loop tv n p right source path is r = (b, r')"
  shows "b \<longleftrightarrow> (\<exists>i\<in>set is. permits tv r n p right source path (rg_caps r ! i))" "registry_ok r'" "owner_of tv r' = owner_of tv r"
proof -
  have "(b \<longleftrightarrow> (\<exists>i\<in>set is. permits tv r n p right source path (rg_caps r ! i))) \<and> registry_ok r' \<and> owner_of tv r' = owner_of tv r"
    using assms
  proof (induction "is" arbitrary: r)
    case (Cons i "is")
    let ?c = "rg_caps r ! i"
    have i: "i < 4" "set is \<subseteq> {..<4}" using Cons.prems(2) by auto
    show ?case
    proof (cases "bc_grantee_pid ?c = p \<and> task_identity_valid tv p (bc_grantee_sequence ?c) (bc_grantee_generation ?c) \<and>
        name_equal (bc_name ?c) n")
      case False
      have "cap_ok ?c" using Cons.prems(1) i(1) registry_okD(4,8) [OF Cons.prems(1)] by simp
      then have "\<not> permits tv r n p right source path ?c"
        using False owner_of_valid [OF Cons.prems(1), of tv n "bc_owner_pid ?c"]
        by (auto simp: permits_def name_equal_iff name_valid_iff)
      moreover have "allowed_loop tv n p right source path is r = (b, r')" using Cons.prems(3) False by (auto simp: Let_def)
      ultimately show ?thesis using Cons.IH [OF Cons.prems(1) i(2)] by auto
    next
      case True
      obtain v r1 where l: "service_registry_lookup tv n r = (v, r1)" by fastforce
      note lf = lookup_facts [OF Cons.prems(1) l]
      have cok: "0 \<le> bc_owner_pid (rg_caps r1 ! i)" using lf(1) i(1) registry_okD(4,8) [OF lf(1)] by (simp add: cap_ok_def)
      show ?thesis
      proof (cases "owner_of tv r (cstr n)")
        case None
        then have "v < 0" using lf(4) by auto
        then have "allowed_loop tv n p right source path is r1 = (b, r')" using Cons.prems(3) True l cok by (auto simp: Let_def)
        then show ?thesis using Cons.IH [OF lf(1) i(2)] None lf(2) by (auto simp: permits_def)
      next
        case (Some q)
        note ov = owner_of_valid [OF Cons.prems(1) Some]
        have r1: "r1 = r" using Cons.prems(1) ov(1) l by (cases rule: lookup_cases) (use Some in auto)
        have v: "v = q" using lf(4) ov Some by simp
        have nm: "cstr (bc_name ?c) = cstr n" using True by (simp add: name_equal_iff)
        have pm: "permits tv r n p right source path ?c \<longleftrightarrow> v = bc_owner_pid ?c \<and> cap_allows tv p right source path ?c"
          using True Some v nm by (auto simp: permits_def)
        show ?thesis
        proof (cases "permits tv r n p right source path ?c")
          case yes: True
          then have "b" "r' = r" using Cons.prems(3) True l pm by (auto simp: Let_def r1)
          with yes Cons.prems(1) show ?thesis by auto
        next
          case no: False
          then have "allowed_loop tv n p right source path is r = (b, r')" using Cons.prems(3) True l pm by (auto simp: Let_def r1)
          then show ?thesis using Cons.IH [OF Cons.prems(1) i(2)] no by auto
        qed
      qed
    qed
  qed simp
  then show "b \<longleftrightarrow> (\<exists>i\<in>set is. permits tv r n p right source path (rg_caps r ! i))" "registry_ok r'" "owner_of tv r' = owner_of tv r"
    by simp_all
qed

text \<open>The verdict of \<open>service_registry_backend_allowed_for_source_path\<close>.\<close>

definition allowed :: "task_view \<Rightarrow> registry \<Rightarrow> cstring \<Rightarrow> pid \<Rightarrow> u32 \<Rightarrow> u32 \<Rightarrow> cstring option \<Rightarrow> bool" where
  "allowed tv r n p right source path = fst (service_registry_backend_allowed_for_source_path tv n p right source path r)"

lemma allowed_iff:
  assumes "registry_ok r"
  shows "allowed tv r n p right source path \<longleftrightarrow> right \<noteq> 0 \<and> right AND NOT SERVICE_BACKEND_RIGHT_ALL = 0 \<and>
    service_registry_backend_sources_valid source \<and> (\<exists>c\<in>set (rg_caps r). permits tv r n p right source path c)"
proof -
  have len: "length (rg_caps r) = 4" using registry_okD(4) [OF assms] .
  obtain b r' where l: "allowed_loop tv n p right source path [0..<4] r = (b, r')" by fastforce
  have "b \<longleftrightarrow> (\<exists>i<4. permits tv r n p right source path (rg_caps r ! i))"
    using allowed_loop_iff(1) [OF assms _ l] by (auto simp: atLeast0LessThan lessThan_def)
  also have "\<dots> \<longleftrightarrow> (\<exists>c\<in>set (rg_caps r). permits tv r n p right source path c)"
    using len by (auto simp: set_conv_nth)
  finally show ?thesis
    using l unfolding allowed_def service_registry_backend_allowed_for_source_path_def by auto
qed

subsection \<open>Ownership over a series of calls\<close>

datatype ('m, 'p) name_call = Register 'm 'p | Remove 'm 'p | Hand 'm 'p 'p | Look 'm

fun acts_for :: "('m \<Rightarrow> 'n) \<Rightarrow> 'n \<Rightarrow> 'p \<Rightarrow> ('m, 'p) name_call \<Rightarrow> bool" where
  "acts_for key n p (Remove m q) \<longleftrightarrow> key m = n \<and> q = p"
| "acts_for key n p (Hand m q _) \<longleftrightarrow> key m = n \<and> q = p"
| "acts_for key n p _ \<longleftrightarrow> False"

fun gives :: "('m \<Rightarrow> 'n) \<Rightarrow> 'n \<Rightarrow> 'p \<Rightarrow> ('m, 'p) name_call \<Rightarrow> bool" where
  "gives key n p (Register m q) \<longleftrightarrow> key m = n \<and> q = p"
| "gives key n p (Hand m _ q) \<longleftrightarrow> key m = n \<and> q = p"
| "gives key n p _ \<longleftrightarrow> False"

locale name_authority =
  fixes inv :: "'s \<Rightarrow> bool"
    and owner :: "'s \<Rightarrow> 'n \<Rightarrow> 'p option"
    and key :: "'m \<Rightarrow> 'n"
    and register :: "'m \<Rightarrow> 'p \<Rightarrow> 's \<Rightarrow> 's"
    and remove :: "'m \<Rightarrow> 'p \<Rightarrow> 's \<Rightarrow> 's"
    and hand :: "'m \<Rightarrow> 'p \<Rightarrow> 'p \<Rightarrow> 's \<Rightarrow> 's"
    and look :: "'m \<Rightarrow> 's \<Rightarrow> 's"
  assumes inv_kept: "inv s \<Longrightarrow> inv (register m p s)" "inv s \<Longrightarrow> inv (remove m p s)" "inv s \<Longrightarrow> inv (hand m p q s)" "inv s \<Longrightarrow> inv (look m s)"
    and register_owner: "inv s \<Longrightarrow> owner (register m p s) = owner s \<or>
      owner s (key m) = None \<and> owner (register m p s) = (owner s)(key m \<mapsto> p)"
    and remove_owner: "inv s \<Longrightarrow> owner (remove m p s) = owner s \<or>
      owner s (key m) = Some p \<and> owner (remove m p s) = (owner s)(key m := None)"
    and hand_owner: "inv s \<Longrightarrow> owner (hand m p q s) = owner s \<or>
      owner s (key m) = Some p \<and> owner (hand m p q s) = (owner s)(key m \<mapsto> q)"
    and look_owner: "inv s \<Longrightarrow> owner (look m s) = owner s"
begin

definition call :: "('m, 'p) name_call \<Rightarrow> 's \<Rightarrow> 's" where
  "call c s = (case c of Register m p \<Rightarrow> register m p s | Remove m p \<Rightarrow> remove m p s | Hand m p q \<Rightarrow> hand m p q s | Look m \<Rightarrow> look m s)"

lemma call_inv: "inv s \<Longrightarrow> inv (call c s)"
  by (simp add: call_def inv_kept split: name_call.split)

lemma call_keeps:
  assumes "inv s" and "owner s n = Some p" and "\<not> acts_for key n p c"
  shows "owner (call c s) n = Some p"
proof (cases c)
  case (Register m q)
  with assms(2) register_owner [OF assms(1), of m q] show ?thesis by (auto simp: call_def)
next
  case (Remove m q)
  with assms(2,3) remove_owner [OF assms(1), of m q] show ?thesis by (auto simp: call_def)
next
  case (Hand m q q')
  with assms(2,3) hand_owner [OF assms(1), of m q q'] show ?thesis by (auto simp: call_def)
next
  case (Look m)
  with assms(2) look_owner [OF assms(1), of m] show ?thesis by (simp add: call_def)
qed

lemma call_changes:
  assumes "inv s" and "owner (call c s) n = Some q"
  shows "owner s n = Some q \<or> gives key n q c"
proof (cases c)
  case (Register m p)
  with assms(2) register_owner [OF assms(1), of m p] show ?thesis by (auto simp: call_def split: if_splits)
next
  case (Remove m p)
  with assms(2) remove_owner [OF assms(1), of m p] show ?thesis by (auto simp: call_def split: if_splits)
next
  case (Hand m p p')
  with assms(2) hand_owner [OF assms(1), of m p p'] show ?thesis by (auto simp: call_def split: if_splits)
next
  case (Look m)
  with assms(2) look_owner [OF assms(1), of m] show ?thesis by (simp add: call_def)
qed

lemma runs_keep:
  "inv s \<Longrightarrow> owner s n = Some p \<Longrightarrow> \<forall>c\<in>set cs. \<not> acts_for key n p c \<Longrightarrow> inv (fold call cs s) \<and> owner (fold call cs s) n = Some p"
  by (induction cs arbitrary: s) (simp_all add: call_inv call_keeps)

lemma runs_change:
  "inv s \<Longrightarrow> owner (fold call cs s) n = Some q \<Longrightarrow> owner s n = Some q \<or> (\<exists>c\<in>set cs. gives key n q c)"
proof (induction cs arbitrary: s)
  case (Cons c cs)
  then show ?case using call_changes [of s c n q] by (auto simp: call_inv)
qed simp

end

text \<open>The registry, for the tasks that exist while the calls are made.\<close>

definition reg_call :: "task_view \<Rightarrow> (cstring, pid) name_call \<Rightarrow> registry \<Rightarrow> registry" where
  "reg_call tv c r = (case c of
       Register n p \<Rightarrow> snd (service_registry_register tv n p r)
     | Remove n p \<Rightarrow> snd (service_registry_remove tv n p r)
     | Hand n p q \<Rightarrow> snd (service_registry_grant tv n p q r)
     | Look n \<Rightarrow> snd (service_registry_lookup tv n r))"

interpretation names: name_authority registry_ok "owner_of tv" cstr
  "\<lambda>n p r. snd (service_registry_register tv n p r)" "\<lambda>n p r. snd (service_registry_remove tv n p r)"
  "\<lambda>n p q r. snd (service_registry_grant tv n p q r)" "\<lambda>n r. snd (service_registry_lookup tv n r)"
  rewrites "name_authority.call (\<lambda>n p r. snd (service_registry_register tv n p r)) (\<lambda>n p r. snd (service_registry_remove tv n p r))
    (\<lambda>n p q r. snd (service_registry_grant tv n p q r)) (\<lambda>n r. snd (service_registry_lookup tv n r)) = reg_call tv"
  for tv
proof -
  have reg: "registry_ok (snd (service_registry_register tv n p r)) \<and> (owner_of tv (snd (service_registry_register tv n p r)) = owner_of tv r \<or>
      owner_of tv r (cstr n) = None \<and> owner_of tv (snd (service_registry_register tv n p r)) = (owner_of tv r)(cstr n \<mapsto> p))"
    if "registry_ok r" for tv n p r
    using that by (rule register_cases [where v = "fst (service_registry_register tv n p r)", OF _ prod.collapse [symmetric]]) (use that in auto)
  have rem: "registry_ok (snd (service_registry_remove tv n p r)) \<and> (owner_of tv (snd (service_registry_remove tv n p r)) = owner_of tv r \<or>
      owner_of tv r (cstr n) = Some p \<and> owner_of tv (snd (service_registry_remove tv n p r)) = (owner_of tv r)(cstr n := None))"
    if "registry_ok r" for tv n p r
    using that by (rule remove_cases [where v = "fst (service_registry_remove tv n p r)", OF _ prod.collapse [symmetric]]) (use that in auto)
  have hand: "registry_ok (snd (service_registry_grant tv n p q r)) \<and> (owner_of tv (snd (service_registry_grant tv n p q r)) = owner_of tv r \<or>
      owner_of tv r (cstr n) = Some p \<and> owner_of tv (snd (service_registry_grant tv n p q r)) = (owner_of tv r)(cstr n \<mapsto> q))"
    if "registry_ok r" for tv n p q r
    using that by (rule grant_cases [where v = "fst (service_registry_grant tv n p q r)", OF _ prod.collapse [symmetric]]) (use that in auto)
  have look: "registry_ok (snd (service_registry_lookup tv n r)) \<and> owner_of tv (snd (service_registry_lookup tv n r)) = owner_of tv r"
    if "registry_ok r" for tv n r
    using lookup_facts(1,2) [OF that prod.collapse [symmetric]] by simp
  show auth: "name_authority registry_ok (owner_of tv) cstr (\<lambda>n p r. snd (service_registry_register tv n p r))
      (\<lambda>n p r. snd (service_registry_remove tv n p r)) (\<lambda>n p q r. snd (service_registry_grant tv n p q r))
      (\<lambda>n r. snd (service_registry_lookup tv n r))" for tv
    by unfold_locales (use reg rem hand look in blast)+
  show "name_authority.call (\<lambda>n p r. snd (service_registry_register tv n p r)) (\<lambda>n p r. snd (service_registry_remove tv n p r))
    (\<lambda>n p q r. snd (service_registry_grant tv n p q r)) (\<lambda>n r. snd (service_registry_lookup tv n r)) = reg_call tv" for tv
    by (intro ext) (simp add: name_authority.call_def [OF auth] reg_call_def)
qed

text \<open>A registry before anything is published, and a system with two tasks.\<close>

definition blank_registry :: registry where
  "blank_registry =
     \<lparr>rg_entries = replicate SERVICE_REGISTRY_CAPACITY \<lparr>re_pid = 0, re_sequence = 0, re_generation = 0,
        re_name = replicate 16 NUL, re_backend_generation = 1, re_right_token = 0, re_identity_key = 0\<rparr>,
      rg_watches = replicate SERVICE_REGISTRY_WATCH_CAPACITY \<lparr>rw_pid = 0, rw_sequence = 0, rw_generation = 0, rw_name = replicate 16 NUL\<rparr>,
      rg_history = replicate SERVICE_REGISTRY_NOTIFY_HISTORY_CAPACITY \<lparr>ne_sequence = 0, ne_watcher_pid = 0,
        ne_name = replicate 16 NUL, ne_old_pid = 0, ne_new_pid = 0, ne_reason = 0, ne_acked = False, ne_replayed = False\<rparr>,
      rg_notify_seq = 0,
      rg_caps = replicate SERVICE_REGISTRY_BACKEND_CAPACITY \<lparr>bc_owner_pid = 0, bc_owner_sequence = 0, bc_owner_generation = 0,
        bc_grantee_pid = 0, bc_grantee_sequence = 0, bc_grantee_generation = 0, bc_rights = 0, bc_sources = 0,
        bc_prefix = replicate 48 NUL, bc_name = replicate 16 NUL, bc_token = 0, bc_identity_key = 0\<rparr>,
      rg_token_next = 1, rg_right_token_next = 1,
      rg_mounts = replicate SERVICE_REGISTRY_PERSISTENT_MOUNT_CAPACITY \<lparr>mt_service_name = replicate 16 NUL,
        mt_prefix = replicate 48 NUL, mt_source = 0, mt_active = False\<rparr>,
      rg_boot_pending = 0, rg_event_journal_allowed = True, rg_writes = []\<rparr>"

definition demo_view :: task_view where
  "demo_view = \<lparr>tv_identity = [5 \<mapsto> (1, 1), 6 \<mapsto> (2, 1)], tv_key = [5 \<mapsto> 11, 6 \<mapsto> 12]\<rparr>"

lemma registry_ok_blank: "registry_ok blank_registry"
  by (simp add: registry_ok_def blank_registry_def entry_ok_def cap_ok_def live_names_def cap_keys_def)

lemma owner_blank: "owner_of tv blank_registry n = None"
  by (simp add: owner_of_def owner_in_def ents_def blank_registry_def find_None_iff matching_def)

text \<open>
  Publishing a name. The call succeeds for a valid name and a task when the task owns the
  name already or nobody does and there is room; afterwards a lookup of the name gives the
  task, and every other name has the owner it had. It answers \<open>OS_SERVICE_TAKEN\<close> exactly when
  another live task owns the name, \<open>OS_SERVICE_FULL\<close> only when all twelve slots are in use,
  \<open>OS_SERVICE_BAD_NAME\<close> exactly for an invalid name or PID; a refused call changes nothing.
\<close>

theorem register_correct:
  assumes "registry_ok r" and "service_registry_register tv n p r = (v, r')"
  shows "registry_ok r' \<and>
    (v = 0 \<longrightarrow> fst (service_registry_lookup tv n r') = p \<and> owner_of tv r' = (owner_of tv r)(cstr n \<mapsto> p)) \<and>
    (v \<noteq> 0 \<longrightarrow> r' = r) \<and>
    (v = OS_SERVICE_BAD_NAME \<longleftrightarrow> \<not> service_registry_name_valid n \<or> p \<le> 0) \<and>
    (v = OS_SERVICE_TAKEN \<longleftrightarrow> service_registry_name_valid n \<and> 0 < p \<and> (\<exists>q. owner_of tv r (cstr n) = Some q \<and> q \<noteq> p)) \<and>
    (v = OS_SERVICE_FULL \<longrightarrow> owner_of tv r (cstr n) = None \<and> (\<forall>e\<in>set (rg_entries r). re_pid e \<noteq> 0))"
proof -
  have look: "fst (service_registry_lookup tv n q) = p" if "registry_ok q" "owner_of tv q (cstr n) = Some p" for q
    using lookup_facts(4) [OF that(1) prod.collapse [symmetric], of tv n] that(2) owner_of_valid(1) [OF that] by simp
  show ?thesis
    using assms
  proof (cases rule: register_cases)
    case own
    then show ?thesis using assms(1) look owner_of_valid(2) [OF assms(1) own(3)] by auto
  next
    case (taken q)
    then have "0 < p \<or> p \<le> 0" by linarith
    with taken assms show ?thesis by (auto simp: service_registry_register_def split: if_splits)
  next
    case full
    then have "0 < p" using assms(2) by (auto simp: service_registry_register_def split: if_splits)
    with full assms(1) show ?thesis by auto
  next
    case new
    then show ?thesis using look by auto
  qed (use assms in auto)
qed

theorem register_correct_witness:
  "registry_ok blank_registry \<and> fst (service_registry_register demo_view ''vfs'' 5 blank_registry) = 0 \<and>
   fst (service_registry_lookup demo_view ''vfs'' (snd (service_registry_register demo_view ''vfs'' 5 blank_registry))) = 5"
proof -
  have v: "fst (service_registry_register demo_view ''vfs'' 5 blank_registry) = 0"
    by (simp add: blank_registry_def) code_simp
  then show ?thesis
    using register_correct [OF registry_ok_blank prod.collapse [symmetric], of demo_view "''vfs''" 5] registry_ok_blank by simp
qed

text \<open>
  C18. A name belongs to its owner. Whatever calls register, remove, hand over and look up
  names, the owner of a name stays its owner as long as no call in its own name gives it up,
  and a task that owns a name in the end owned it at the start, registered it, or was handed
  it by the owner.
\<close>

theorem ownership_by_consent:
  assumes "registry_ok r"
  shows "registry_ok (fold (reg_call tv) cs r) \<and>
    (owner_of tv r n = Some p \<and> (\<forall>c\<in>set cs. \<not> acts_for cstr n p c) \<longrightarrow> owner_of tv (fold (reg_call tv) cs r) n = Some p) \<and>
    (owner_of tv (fold (reg_call tv) cs r) n = Some q \<longrightarrow> owner_of tv r n = Some q \<or> (\<exists>c\<in>set cs. gives cstr n q c))"
proof -
  have "registry_ok (fold (reg_call tv) cs r)"
    using assms by (induction cs arbitrary: r) (simp_all add: names.call_inv)
  with names.runs_keep [OF assms, of tv n p cs] names.runs_change [OF assms, of tv cs n q] show ?thesis by auto
qed

theorem ownership_by_consent_witness:
  "owner_of demo_view (snd (service_registry_register demo_view ''vfs'' 5 blank_registry)) ''vfs'' = Some 5 \<and>
   owner_of demo_view (fold (reg_call demo_view) [Register ''vfs'' 6, Remove ''vfs'' 6, Hand ''vfs'' 6 6]
     (snd (service_registry_register demo_view ''vfs'' 5 blank_registry))) ''vfs'' = Some 5"
proof -
  let ?r = "snd (service_registry_register demo_view ''vfs'' 5 blank_registry)"
  have ok: "registry_ok ?r" using names.call_inv [OF registry_ok_blank, of demo_view "Register ''vfs'' 5"] by (simp add: reg_call_def)
  have own: "owner_of demo_view ?r ''vfs'' = Some 5"
    by (simp add: blank_registry_def owner_of_def) code_simp
  show ?thesis
    using own ownership_by_consent [OF ok, of demo_view "[Register ''vfs'' 6, Remove ''vfs'' 6, Hand ''vfs'' 6 6]" "''vfs''" 5 5]
    by simp
qed

end
