(* ===== verification/Backend_Caps.thy ===== *)
theory Backend_Caps
  imports Registry_Owner
begin

text \<open>
  What granting and revoking a backend capability does to what a task may do.
\<close>

lemma and_eq_iff_subset: "(a AND b = b) \<longleftrightarrow> b AND NOT a = (0 :: 'a :: len word)"
  by (auto simp: bit_eq_iff bit_simps)

definition keys_ok :: "task_view \<Rightarrow> bool" where
  "keys_ok tv \<longleftrightarrow> (\<forall>p. tv_key tv p \<noteq> Some 0)"

lemma key_or_zero_bound: "keys_ok tv \<Longrightarrow> identity_key_bound tv p (key_or_zero tv p)"
  by (auto simp: keys_ok_def identity_key_bound_def key_or_zero_def split: option.splits)

text \<open>What a stamped capability of the current owner allows.\<close>

lemma stamped_permits:
  assumes "registry_ok r" and "keys_ok tv" and "owner_of tv r (cstr n) = Some owner" and "0 < grantee"
    and "bc_owner_pid c = owner" and "bc_grantee_pid c = grantee" and "cstr (bc_name c) = cstr n" and "bc_token c \<noteq> 0"
    and "(bc_owner_sequence c, bc_owner_generation c) = identity_or_zero tv owner"
    and "(bc_grantee_sequence c, bc_grantee_generation c) = identity_or_zero tv grantee"
    and "bc_identity_key c = key_or_zero tv grantee"
  shows "permits tv r n grantee right source path c \<longleftrightarrow>
    right AND NOT (bc_rights c) = 0 \<and> source AND NOT (bc_sources c) = 0 \<and> service_registry_backend_prefix_matches (bc_prefix c) path"
proof -
  have "task_identity_valid tv grantee (bc_grantee_sequence c) (bc_grantee_generation c)"
    "task_identity_valid tv owner (bc_owner_sequence c) (bc_owner_generation c)"
    using identity_or_zero_valid [OF assms(4), of tv] identity_or_zero_valid [OF owner_of_valid(2) [OF assms(1,3)], of tv] assms(9,10)
    by (metis fst_conv snd_conv)+
  then show ?thesis
    using assms key_or_zero_bound [OF assms(2), of grantee]
    by (simp add: permits_def cap_allows_def and_eq_iff_subset)
qed

lemma permits_cong: "owner_of tv r' = owner_of tv r \<Longrightarrow> permits tv r' = permits tv r"
  by (intro ext) (simp add: permits_def)

lemma permits_live: "permits tv r n p right source path c \<Longrightarrow> registry_ok r \<Longrightarrow> 0 < bc_owner_pid c"
  using owner_of_valid(2) [of r tv n "bc_owner_pid c"] by (simp add: permits_def)

lemma fresh_cap_simps [simp]:
  "bc_owner_pid (fresh_cap tv n a b x y z t c) = a" "bc_grantee_pid (fresh_cap tv n a b x y z t c) = b"
  "bc_rights (fresh_cap tv n a b x y z t c) = x" "bc_sources (fresh_cap tv n a b x y z t c) = y"
  "bc_token (fresh_cap tv n a b x y z t c) = t" "bc_name (fresh_cap tv n a b x y z t c) = copy_name n"
  "bc_prefix (fresh_cap tv n a b x y z t c) = service_registry_backend_copy_prefix z"
  "(bc_owner_sequence (fresh_cap tv n a b x y z t c), bc_owner_generation (fresh_cap tv n a b x y z t c)) = identity_or_zero tv a"
  "(bc_grantee_sequence (fresh_cap tv n a b x y z t c), bc_grantee_generation (fresh_cap tv n a b x y z t c)) = identity_or_zero tv b"
  "bc_identity_key (fresh_cap tv n a b x y z t c) = key_or_zero tv b"
  by (simp_all add: fresh_cap_def stamp_cap_def)

lemma widened_cap_simps [simp]:
  "bc_owner_pid (widened_cap tv a b x y z t c) = bc_owner_pid c" "bc_grantee_pid (widened_cap tv a b x y z t c) = bc_grantee_pid c"
  "bc_rights (widened_cap tv a b x y z t c) = bc_rights c OR x" "bc_sources (widened_cap tv a b x y z t c) = bc_sources c OR y"
  "bc_token (widened_cap tv a b x y z t c) = (if bc_token c = 0 then t else bc_token c)" "bc_name (widened_cap tv a b x y z t c) = bc_name c"
  "bc_prefix (widened_cap tv a b x y z t c) = service_registry_backend_copy_prefix z"
  "(bc_owner_sequence (widened_cap tv a b x y z t c), bc_owner_generation (widened_cap tv a b x y z t c)) = identity_or_zero tv a"
  "(bc_grantee_sequence (widened_cap tv a b x y z t c), bc_grantee_generation (widened_cap tv a b x y z t c)) = identity_or_zero tv b"
  "bc_identity_key (widened_cap tv a b x y z t c) = key_or_zero tv b"
  by (simp_all add: widened_cap_def stamp_cap_def)

definition scope_of :: "u32 \<Rightarrow> u32 \<Rightarrow> cstring \<Rightarrow> u32 \<Rightarrow> u32 \<Rightarrow> cstring option \<Rightarrow> bool" where
  "scope_of rights sources pfx right source path \<longleftrightarrow>
     right \<noteq> 0 \<and> right AND NOT rights = 0 \<and> service_registry_backend_sources_valid source \<and> source AND NOT sources = 0 \<and>
     (cstr pfx = [] \<or> (\<exists>q. path = Some q \<and> prefix (cstr pfx) (cstr q)))"

lemma subset_trans_word: "a AND NOT b = 0 \<Longrightarrow> b AND NOT c = 0 \<Longrightarrow> a AND NOT c = (0 :: 'a :: len word)"
  by (auto simp: bit_eq_iff bit_simps)

text \<open>
  C19. A first grant gives exactly its scope. When the owner of a name grants a task rights and
  sources under a prefix, and holds no capability for that task on that name yet, then the
  task may afterwards use exactly the rights of the grant, on sources of the grant, on paths
  that start with the prefix; and what any other task may do on that name, or this task on any
  other name, is as before.
\<close>

theorem first_grant_exact:
  assumes "registry_ok r" and "keys_ok tv"
    and "service_registry_backend_grant_scoped_source_prefix tv n owner grantee rights sources (Some pfx) r = (0, r')"
    and "\<forall>c\<in>set (rg_caps r). \<not> cap_between owner grantee n c"
  shows "(allowed tv r' n grantee right source path \<longleftrightarrow> scope_of rights sources pfx right source path) \<and>
    (p \<noteq> grantee \<or> cstr m \<noteq> cstr n \<longrightarrow> allowed tv r' m p right source path = allowed tv r m p right source path)"
  using assms(1,3)
proof (cases rule: backend_grant_cases)
  case (same i)
  then show ?thesis using assms(1,4) registry_okD(4) [OF assms(1)] by auto
next
  case (widened i)
  then show ?thesis using assms(1,4) registry_okD(4) [OF assms(1)] by auto
next
  case (fresh i)
  let ?c = "fresh_cap tv n owner grantee rights sources pfx (rg_token_next r) (rg_caps r ! i)"
  note ok = backend_grant_facts(1) [OF assms(1,3)]
  have own: "owner_of tv r' = owner_of tv r" by (rule backend_grant_facts(2) [OF assms(1,3)])
  have len: "length (rg_caps r) = 4" by (rule registry_okD(4) [OF assms(1)])
  have sc: "service_registry_name_valid n" "0 < grantee" "rights AND NOT SERVICE_BACKEND_RIGHT_ALL = 0"
    "service_registry_backend_prefix_valid (Some pfx)" using fresh(2) by (simp_all add: scope_ok_def)
  have new: "permits tv r n grantee right source path ?c \<longleftrightarrow> right AND NOT rights = 0 \<and> source AND NOT sources = 0 \<and>
      service_registry_backend_prefix_matches (service_registry_backend_copy_prefix pfx) path"
    using stamped_permits [OF assms(1,2) fresh(3) sc(2), of ?c] registry_okD(10) [OF assms(1)] sc(1) by (simp add: cstr_copy_name)
  have caps: "(\<exists>c\<in>set (rg_caps r'). permits tv r m p right source path c) \<longleftrightarrow>
      permits tv r m p right source path ?c \<or> (\<exists>c\<in>set (rg_caps r). permits tv r m p right source path c)" for m p
  proof -
    have "\<not> permits tv r m p right source path (rg_caps r ! i)"
      using fresh(5) permits_live [OF _ assms(1), of tv m p right source path "rg_caps r ! i"] by auto
    then show ?thesis
      using fresh(4,7) len by (auto simp: set_conv_nth nth_list_update)
  qed
  have none: "\<not> (\<exists>c\<in>set (rg_caps r). permits tv r n grantee right source path c)"
  proof
    assume "\<exists>c\<in>set (rg_caps r). permits tv r n grantee right source path c"
    then obtain c where c: "c \<in> set (rg_caps r)" "permits tv r n grantee right source path c" by blast
    then have "cap_between owner grantee n c"
      using fresh(3) sc(1) by (auto simp: permits_def cap_between_def name_equal_iff name_valid_iff)
    with assms(4) c(1) show False by blast
  qed
  have "right AND NOT rights = 0 \<Longrightarrow> right AND NOT SERVICE_BACKEND_RIGHT_ALL = 0" using subset_trans_word [OF _ sc(3)] .
  then have "allowed tv r' n grantee right source path \<longleftrightarrow> scope_of rights sources pfx right source path"
    unfolding allowed_iff [OF ok] permits_cong [OF own] caps new using none
    by (auto simp: scope_of_def prefix_matches_iff prefix_copy(1) [OF sc(4)])
  moreover have "allowed tv r' m p right source path = allowed tv r m p right source path" if "p \<noteq> grantee \<or> cstr m \<noteq> cstr n"
    unfolding allowed_iff [OF ok] allowed_iff [OF assms(1)] permits_cong [OF own] caps
    using that sc(1) by (auto simp: permits_def cstr_copy_name)
  ultimately show ?thesis by blast
qed simp_all

lemma keys_ok_demo: "keys_ok demo_view"
  by (auto simp: keys_ok_def demo_view_def)

definition vfs_registry :: registry where
  "vfs_registry = snd (service_registry_register demo_view ''vfs'' 5 blank_registry)"

definition reader_registry :: registry where
  "reader_registry = snd (service_registry_backend_grant_scoped_source_prefix demo_view ''vfs'' 5 6 SERVICE_BACKEND_RIGHT_READ 1 (Some ''a/'') vfs_registry)"

lemma vfs_registry_facts:
  "registry_ok vfs_registry" "\<forall>c\<in>set (rg_caps vfs_registry). \<not> cap_between 5 6 ''vfs'' c" "owner_of demo_view vfs_registry ''vfs'' = Some 5"
  "service_registry_backend_grant_scoped_source_prefix demo_view ''vfs'' 5 6 SERVICE_BACKEND_RIGHT_READ 1 (Some ''a/'') vfs_registry = (0, reader_registry)"
proof -
  show "registry_ok vfs_registry"
    unfolding vfs_registry_def using names.call_inv [OF registry_ok_blank, of demo_view "Register ''vfs'' 5"] by (simp add: reg_call_def)
  show "\<forall>c\<in>set (rg_caps vfs_registry). \<not> cap_between 5 6 ''vfs'' c" "owner_of demo_view vfs_registry ''vfs'' = Some 5"
    by code_simp+
  have "fst (service_registry_backend_grant_scoped_source_prefix demo_view ''vfs'' 5 6 SERVICE_BACKEND_RIGHT_READ 1 (Some ''a/'') vfs_registry) = 0"
    by code_simp
  then show "service_registry_backend_grant_scoped_source_prefix demo_view ''vfs'' 5 6 SERVICE_BACKEND_RIGHT_READ 1 (Some ''a/'') vfs_registry = (0, reader_registry)"
    unfolding reader_registry_def by (metis prod.collapse)
qed

theorem first_grant_exact_witness:
  "allowed demo_view reader_registry ''vfs'' 6 SERVICE_BACKEND_RIGHT_READ 1 (Some ''a/x'') \<and>
   \<not> allowed demo_view reader_registry ''vfs'' 6 SERVICE_BACKEND_RIGHT_READ 1 (Some ''b/x'') \<and>
   \<not> allowed demo_view reader_registry ''vfs'' 6 SERVICE_BACKEND_RIGHT_MUTATE 1 (Some ''a/x'')"
  using first_grant_exact [OF vfs_registry_facts(1) keys_ok_demo vfs_registry_facts(4,2)]
  by (simp add: scope_of_def service_registry_backend_sources_valid_def)

text \<open>
  C38. A second grant carries the earlier rights to the new prefix. When the task already
  holds a capability of that owner on that name, granting it other rights under another prefix
  lets it use all the rights and sources of the first grant under the second prefix as well,
  though neither grant gave them there.
\<close>

theorem second_grant_moves_rights:
  assumes "registry_ok r" and "keys_ok tv"
    and "service_registry_backend_grant_scoped_source_prefix tv n owner grantee rights sources (Some pfx) r = (0, r')"
    and "c \<in> set (rg_caps r)" and "cap_between owner grantee n c" and "cstr pfx \<noteq> cstr (bc_prefix c)"
    and "prefix (cstr pfx) (cstr path)"
  shows "allowed tv r' n grantee (bc_rights c) (bc_sources c) (Some path)"
  using assms(1,3)
proof (cases rule: backend_grant_cases)
  case (widened i)
  have len: "length (rg_caps r) = 4" by (rule registry_okD(4) [OF assms(1)])
  have sc: "service_registry_name_valid n" "0 < owner" "0 < grantee" "service_registry_backend_prefix_valid (Some pfx)"
    using widened(2) by (simp_all add: scope_ok_def)
  have co: "cap_ok c" using registry_okD(8) [OF assms(1,4)] .
  have "cap_ok (rg_caps r ! i)" using registry_okD(8) [OF assms(1)] widened(4) len by simp
  then have c: "c = rg_caps r ! i"
    using distinct_filter_eq [OF registry_okD(9) [OF assms(1), unfolded cap_keys_def] assms(4), of "rg_caps r ! i"]
      widened(4,5) assms(5) len sc co by (simp add: cap_between_iff)
  let ?c = "widened_cap tv owner grantee rights sources pfx (rg_token_next r) c"
  have "?c \<in> set (rg_caps r')" using widened(4,6) len by (simp add: c set_update_memI)
  moreover have "permits tv r n grantee (bc_rights c) (bc_sources c) (Some path) ?c"
    using stamped_permits [OF assms(1,2) widened(3) sc(3), of ?c "bc_rights c" "bc_sources c" "Some path"]
      assms(5,7) registry_okD(10) [OF assms(1)] co sc
    by (auto simp: cap_between_iff prefix_matches_iff prefix_copy(1) [OF sc(4)] bit_eq_iff bit_simps)
  ultimately show ?thesis
    unfolding allowed_iff [OF backend_grant_facts(1) [OF assms(1,3)]] permits_cong [OF backend_grant_facts(2) [OF assms(1,3)]]
    using co sc assms(5) by (auto simp: cap_ok_def cap_between_def)
next
  case (same i)
  have len: "length (rg_caps r) = 4" by (rule registry_okD(4) [OF assms(1)])
  have sc: "service_registry_name_valid n" "0 < owner" using same(2) by (simp_all add: scope_ok_def)
  have "cap_ok (rg_caps r ! i)" "cap_ok c" using registry_okD(8) [OF assms(1)] same(4) len assms(4) by simp_all
  then have "c = rg_caps r ! i"
    using distinct_filter_eq [OF registry_okD(9) [OF assms(1), unfolded cap_keys_def] assms(4), of "rg_caps r ! i"]
      same(4,5) assms(5) len sc by (simp add: cap_between_iff)
  with same(8) assms(6) show ?thesis by simp
next
  case (fresh i)
  with assms(4,5) show ?thesis by blast
qed (use assms in auto)

theorem second_grant_moves_rights_witness:
  "allowed demo_view (snd (service_registry_backend_grant_scoped_source_prefix demo_view ''vfs'' 5 6
     SERVICE_BACKEND_RIGHT_MUTATE 2 (Some ''b/'') reader_registry)) ''vfs'' 6 SERVICE_BACKEND_RIGHT_READ 1 (Some ''b/x'')"
proof -
  let ?c = "rg_caps reader_registry ! 0"
  let ?g = "service_registry_backend_grant_scoped_source_prefix demo_view ''vfs'' 5 6 SERVICE_BACKEND_RIGHT_MUTATE 2 (Some ''b/'') reader_registry"
  have ok: "registry_ok reader_registry" by (rule backend_grant_facts(1) [OF vfs_registry_facts(1,4)])
  have c: "cap_between 5 6 ''vfs'' ?c" "bc_rights ?c = 1" "bc_sources ?c = 1" "cstr (bc_prefix ?c) = ''a/''" "fst ?g = 0"
    by code_simp+
  have "?c \<in> set (rg_caps reader_registry)" using registry_okD(4) [OF ok] by simp
  then show ?thesis
    using second_grant_moves_rights [OF ok keys_ok_demo _ _ c(1), of SERVICE_BACKEND_RIGHT_MUTATE 2 "''b/''" "snd ?g" "''b/x''"] c
    by (simp add: prod_eq_iff)
qed

subsection \<open>Withdrawing capabilities\<close>

lemma not_allowedI:
  assumes "registry_ok r" and "\<And>c. c \<in> set (rg_caps r) \<Longrightarrow> \<not> permits tv r n p right source path c"
  shows "\<not> allowed tv r n p right source path"
  using assms by (auto simp: allowed_iff)

lemma revoke_facts:
  assumes "registry_ok r" and "service_registry_backend_revoke tv n owner grantee r = (0, r')"
  shows "registry_ok r'" "owner_of tv r' = owner_of tv r" "owner_of tv r (cstr n) = Some owner"
    "\<And>c. c \<in> set (rg_caps r') \<Longrightarrow> \<not> cap_between owner grantee n c"
    "\<And>P. (\<And>i. i < 4 \<Longrightarrow> bc_grantee_pid (rg_caps r ! i) = grantee \<Longrightarrow> rg_caps r' = (rg_caps r)[i := clear_cap (rg_caps r ! i)] \<Longrightarrow> P) \<Longrightarrow> P"
proof -
  obtain v r1 where l: "service_registry_lookup tv n r = (v, r1)" by fastforce
  have ok: "service_registry_name_valid n" "0 < owner" "0 < grantee" and v: "v = owner"
    using assms(2) l by (auto simp: service_registry_backend_revoke_def split: if_splits)
  note lf = lookup_facts [OF assms(1) l]
  have own: "owner_of tv r (cstr n) = Some owner" using lf(4) ok v by (cases "owner_of tv r (cstr n)") auto
  have r1: "r1 = r" using assms(1) ok(1) l by (cases rule: lookup_cases) (use own in auto)
  obtain i where i: "first_idx (cap_between owner grantee n) (rg_caps r) = Some i"
      "r' = service_registry_backend_generation_bump n (upd_cap i clear_cap r)"
    using assms(2) l ok v by (auto simp: service_registry_backend_revoke_def r1 split: option.splits)
  note id = first_idx_SomeD [OF i(1)]
  have len: "length (rg_caps r) = 4" by (rule registry_okD(4) [OF assms(1)])
  show "registry_ok r'" using assms(1) id(1) len by (simp add: registry_ok_parts i(2) caps_ok_clear)
  show "owner_of tv r' = owner_of tv r" by (simp add: owner_of_def i(2))
  show "owner_of tv r (cstr n) = Some owner" by (rule own)
  have co: "cap_ok (rg_caps r ! j)" if "j < 4" for j using registry_okD(8) [OF assms(1)] that len by simp
  have "\<not> cap_between owner grantee n ((rg_caps r)[i := clear_cap (rg_caps r ! i)] ! j)" if j: "j < 4" for j
  proof (cases "j = i")
    case True
    then show ?thesis using id(1) ok by (simp add: cap_between_def)
  next
    case False
    have uniq: "\<forall>a<4. \<forall>b<4. a \<noteq> b \<longrightarrow> cap_between owner grantee n (rg_caps r ! a) \<longrightarrow> \<not> cap_between owner grantee n (rg_caps r ! b)"
    proof (intro allI impI notI)
      fix a b :: nat
      assume ab: "a < 4" "b < 4" "a \<noteq> b" "cap_between owner grantee n (rg_caps r ! a)" "cap_between owner grantee n (rg_caps r ! b)"
      have d: "\<forall>i<4. \<forall>j<4. i \<noteq> j \<longrightarrow> bc_owner_pid (rg_caps r ! i) \<noteq> 0 \<longrightarrow> bc_owner_pid (rg_caps r ! j) \<noteq> 0 \<longrightarrow>
          bc_grantee_pid (rg_caps r ! i) = bc_grantee_pid (rg_caps r ! j) \<longrightarrow>
          bc_owner_pid (rg_caps r ! i) = bc_owner_pid (rg_caps r ! j) \<longrightarrow> cstr (bc_name (rg_caps r ! i)) \<noteq> cstr (bc_name (rg_caps r ! j))"
        using registry_okD(9) [OF assms(1)] len by (auto simp: cap_keys_def distinct_filter_nth)
      show False using d [rule_format, OF ab(1-3)] ab(4,5) ok co [OF ab(1)] co [OF ab(2)] by (auto simp: cap_between_iff)
    qed
    have "cap_between owner grantee n (rg_caps r ! j) \<Longrightarrow> j = i" using uniq id(1,2) j len by auto
    with False show ?thesis by auto
  qed
  then show "\<not> cap_between owner grantee n c" if "c \<in> set (rg_caps r')" for c
    using that len by (auto simp: i(2) set_conv_nth)
  show P if "\<And>i. i < 4 \<Longrightarrow> bc_grantee_pid (rg_caps r ! i) = grantee \<Longrightarrow> rg_caps r' = (rg_caps r)[i := clear_cap (rg_caps r ! i)] \<Longrightarrow> P" for P
    by (rule that [of i]) (use id(1,2) len in \<open>simp_all add: cap_between_def i(2)\<close>)
qed

text \<open>The loop of \<open>service_registry_backend_remove_pid\<close> clears every capability of the task.\<close>

definition purge_cap :: "pid \<Rightarrow> backend_cap \<Rightarrow> backend_cap" where
  "purge_cap p c = (if bc_owner_pid c = p \<or> bc_grantee_pid c = p then clear_cap c else c)"

lemma update_next_map:
  assumes "n < length xs"
  shows "(map g (take n xs) @ drop n xs)[n := g (xs ! n)] = map g (take (Suc n) xs) @ drop (Suc n) xs"
proof -
  have "drop n xs = xs ! n # drop (Suc n) xs" using assms by (simp add: Cons_nth_drop_Suc)
  then show ?thesis using assms by (simp add: list_update_append take_Suc_conv_app_nth)
qed

lemma remove_pid_step:
  assumes "i < length (rg_caps r)"
  shows "rg_caps (remove_pid_cap p i r) = (rg_caps r)[i := purge_cap p (rg_caps r ! i)]"
    "ents (remove_pid_cap p i r) = ents r" "rest (remove_pid_cap p i r) = rest r"
  using assms by (simp_all add: remove_pid_cap_def purge_cap_def Let_def)

lemma remove_pid_loop:
  assumes "n \<le> length (rg_caps r)"
  shows "rg_caps (fold (remove_pid_cap p) [0..<n] r) = map (purge_cap p) (take n (rg_caps r)) @ drop n (rg_caps r) \<and>
    ents (fold (remove_pid_cap p) [0..<n] r) = ents r \<and> rest (fold (remove_pid_cap p) [0..<n] r) = rest r"
  using assms
proof (induction n)
  case (Suc n)
  let ?q = "fold (remove_pid_cap p) [0..<n] r"
  have q: "rg_caps ?q = map (purge_cap p) (take n (rg_caps r)) @ drop n (rg_caps r)" "ents ?q = ents r" "rest ?q = rest r"
    using Suc by auto
  have n: "n < length (rg_caps ?q)" "rg_caps ?q ! n = rg_caps r ! n" using Suc.prems by (simp_all add: q nth_append)
  have "rg_caps (remove_pid_cap p n ?q) = map (purge_cap p) (take (Suc n) (rg_caps r)) @ drop (Suc n) (rg_caps r)"
    using update_next_map [of n "rg_caps r" "purge_cap p"] Suc.prems
    by (simp add: remove_pid_step(1) [OF n(1)] n(2)) (simp add: q(1))
  with q remove_pid_step(2,3) [OF n(1), of p] show ?case by simp
qed simp

lemma backend_remove_pid_facts:
  assumes "length (rg_caps r) = 4" and "0 < p"
  shows "rg_caps (service_registry_backend_remove_pid p r) = map (purge_cap p) (rg_caps r)"
    "ents (service_registry_backend_remove_pid p r) = ents r" "rest (service_registry_backend_remove_pid p r) = rest r"
  using remove_pid_loop [of 4 r p] assms by (simp_all add: service_registry_backend_remove_pid_def)

lemma purge_ok: "caps_ok cs \<Longrightarrow> caps_ok (map (purge_cap p) cs)"
  using caps_ok_clear_map [of cs "\<lambda>c. bc_owner_pid c = p \<or> bc_grantee_pid c = p"] by (simp add: purge_cap_def [abs_def])

text \<open>When a task ends, its names, its capabilities and its pending notifications go.\<close>

lemma remove_pid_facts:
  assumes "registry_ok r" and "0 < p" and "service_registry_remove_pid p (r, s) = (v, r', s')"
  shows "registry_ok r'" "owner_of tv r' n = (if owner_of tv r n = Some p then None else owner_of tv r n)"
    "rg_caps r' = map (purge_cap p) (rg_caps r)" "\<forall>e\<in>set (rg_entries r'). re_pid e \<noteq> p"
    "\<forall>h\<in>set (rg_history r'). ne_watcher_pid h \<noteq> p" "s' = ipc_spill_clear_pid p s"
proof -
  let ?b = "service_registry_backend_remove_pid p r"
  let ?f = "\<lambda>e. if re_pid e = p then forget_owner e else e"
  note b = backend_remove_pid_facts [OF registry_okD(4) [OF assms(1)] assms(2)]
  have eo: "ents_ok (ents r)" using assms(1) by (simp add: registry_ok_parts)
  have r': "r' = ?b\<lparr>rg_entries := map ?f (rg_entries ?b),
      rg_history := map (\<lambda>h. if ne_watcher_pid h = p then forget_watcher h else h) (rg_history ?b)\<rparr>"
    and s': "s' = ipc_spill_clear_pid p s"
    using assms(2,3) by (auto simp: service_registry_remove_pid_def Let_def)
  have e: "ents r' = map ?f (ents r)"
    unfolding b(2) [symmetric] by (simp add: r' ents_def ecore_def forget_owner_def)
  have ok: "entry_ok (?f e)" if "entry_ok e" for e using that by (simp add: entry_ok_def forget_owner_def)
  have "live_names (map ?f es) = live_names (filter (\<lambda>e. re_pid e \<noteq> p) es)" for es
    by (induction es) (auto simp: live_names_def forget_owner_def)
  moreover have "distinct (live_names (filter Q es))" if "distinct (live_names es)" for Q es
    using that by (induction es) (auto simp: live_names_def)
  moreover have "\<forall>e\<in>set (map ?f (ents r)). entry_ok e" using eo ok unfolding ents_ok_def set_map by blast
  ultimately have eo': "ents_ok (ents r')" using eo unfolding e ents_ok_def by simp
  have "rest_ok (rest r') = rest_ok (rest ?b)" by (simp add: r' rest_ok_def rest_def)
  then have "rest_ok (rest r')" using assms(1) b(3) by (simp add: registry_ok_parts)
  with eo' show "registry_ok r'" using assms(1) b(1) by (simp add: registry_ok_parts r' purge_ok)
  show "rg_caps r' = map (purge_cap p) (rg_caps r)" using b(1) by (simp add: r')
  show "\<forall>e\<in>set (rg_entries r'). re_pid e \<noteq> p" "\<forall>h\<in>set (rg_history r'). ne_watcher_pid h \<noteq> p"
    using assms(2) by (auto simp: r' forget_owner_def forget_watcher_def)
  show "s' = ipc_spill_clear_pid p s" by (rule s')
  have m: "matching tv n (ents r' ! i) \<longleftrightarrow> matching tv n (ents r ! i) \<and> re_pid (ents r ! i) \<noteq> p" if "i < 12" for i
    using that eo by (auto simp: e ents_ok_def matching_def forget_owner_def)
  have same: "ents r' ! i = ents r ! i" if "i < 12" "re_pid (ents r ! i) \<noteq> p" for i
    using that eo by (simp add: e ents_ok_def)
  show "owner_of tv r' n = (if owner_of tv r n = Some p then None else owner_of tv r n)"
  proof (cases "owner_of tv r n")
    case None
    then have "owner_in tv (ents r') n = None" using m by (simp add: owner_of_def owner_in_None [OF eo] owner_in_None [OF eo'])
    with None show ?thesis by (simp add: owner_of_def)
  next
    case (Some q)
    then obtain i where i: "i < 12" "matching tv n (ents r ! i)" "re_pid (ents r ! i) = q"
      by (auto simp: owner_of_def owner_in_Some [OF eo])
    show ?thesis
    proof (cases "q = p")
      case True
      have "\<not> matching tv n (ents r' ! j)" if "j < 12" for j
        using m [OF that] ents_unique [OF eo that i(1)] i True by (auto simp: matching_def)
      with Some True show ?thesis by (simp add: owner_of_def owner_in_None [OF eo'])
    next
      case False
      then show ?thesis
        using Some i m [OF i(1)] same [OF i(1)] owner_in_unique [OF eo' i(1), of tv n] by (simp add: owner_of_def)
    qed
  qed
qed

text \<open>
  C20. Revocation is complete. When the owner of a name revokes the capability of a task, that
  task may use no right of the name afterwards, whatever the source and path, while the name
  keeps its owner and what every other task may do, on every name, is unchanged.
\<close>

theorem revocation_complete:
  assumes "registry_ok r" and "service_registry_backend_revoke tv n owner grantee r = (0, r')"
  shows "\<not> allowed tv r' n grantee right source path \<and> owner_of tv r' = owner_of tv r \<and>
    (p \<noteq> grantee \<longrightarrow> allowed tv r' m p right source path = allowed tv r m p right source path)"
proof -
  note rf = revoke_facts [OF assms]
  have "\<not> permits tv r' n grantee right source path c" if "c \<in> set (rg_caps r')" for c
    using rf(4) [OF that] rf(2,3) owner_of_valid [OF assms(1) rf(3)]
    by (auto simp: permits_def cap_between_def name_equal_iff name_valid_iff)
  then have "\<not> allowed tv r' n grantee right source path" by (rule not_allowedI [OF rf(1)])
  moreover have "allowed tv r' m p right source path = allowed tv r m p right source path" if "p \<noteq> grantee"
  proof -
    obtain i where i: "i < 4" "bc_grantee_pid (rg_caps r ! i) = grantee" "rg_caps r' = (rg_caps r)[i := clear_cap (rg_caps r ! i)]"
      by (rule rf(5))
    have "\<not> permits tv r m p right source path (rg_caps r ! i)" "\<not> permits tv r m p right source path (clear_cap (rg_caps r ! i))"
      using i(2) that permits_live [OF _ assms(1), of tv m p right source path "clear_cap (rg_caps r ! i)"] by (auto simp: permits_def)
    then have "(\<exists>c\<in>set (rg_caps r'). permits tv r m p right source path c) \<longleftrightarrow> (\<exists>c\<in>set (rg_caps r). permits tv r m p right source path c)"
      using i(1,3) registry_okD(4) [OF assms(1)] by (auto simp: set_conv_nth nth_list_update)
    then show ?thesis unfolding allowed_iff [OF rf(1)] allowed_iff [OF assms(1)] permits_cong [OF rf(2)] by simp
  qed
  ultimately show ?thesis using rf(2) by blast
qed

theorem revocation_complete_witness:
  "allowed demo_view reader_registry ''vfs'' 6 SERVICE_BACKEND_RIGHT_READ 1 (Some ''a/x'') \<and>
   \<not> allowed demo_view (snd (service_registry_backend_revoke demo_view ''vfs'' 5 6 reader_registry)) ''vfs'' 6 SERVICE_BACKEND_RIGHT_READ 1 (Some ''a/x'')"
proof -
  let ?g = "service_registry_backend_revoke demo_view ''vfs'' 5 6 reader_registry"
  have ok: "registry_ok reader_registry" by (rule backend_grant_facts(1) [OF vfs_registry_facts(1,4)])
  have "allowed demo_view reader_registry ''vfs'' 6 SERVICE_BACKEND_RIGHT_READ 1 (Some ''a/x'')" "fst ?g = 0" by code_simp+
  then show ?thesis using revocation_complete [OF ok, of demo_view "''vfs''" 5 6 "snd ?g"] by (simp add: prod_eq_iff)
qed

text \<open>
  C21. The end of a task withdraws exactly its authority. After \<open>service_registry_remove_pid\<close>
  for a task, the names it owned have no owner and every other name keeps its own; a task may
  use a right on a name exactly when it could before, is not the task that ended, and the task
  that ended did not own the name; no watch event waits for the task any more.
\<close>

theorem task_end_withdraws_authority:
  assumes "registry_ok r" and "0 < q" and "service_registry_remove_pid q (r, s) = (v, r', s')"
  shows "owner_of tv r' n = (if owner_of tv r n = Some q then None else owner_of tv r n) \<and>
    (allowed tv r' m p right source path \<longleftrightarrow>
       allowed tv r m p right source path \<and> p \<noteq> q \<and> owner_of tv r (cstr m) \<noteq> Some q) \<and>
    (\<forall>h\<in>set (rg_history r'). ne_watcher_pid h \<noteq> q)"
proof -
  note rf = remove_pid_facts [OF assms]
  have live: "\<not> permits tv r' m p right source path (clear_cap c)" for c
    using permits_live [OF _ rf(1), of tv m p right source path "clear_cap c"] by auto
  have "permits tv r' m p right source path (purge_cap q c) \<longleftrightarrow>
      permits tv r m p right source path c \<and> p \<noteq> q \<and> owner_of tv r (cstr m) \<noteq> Some q" for c
    using live [of c] rf(2) [of tv "cstr m"] by (auto simp: purge_cap_def permits_def split: if_splits)
  then have "allowed tv r' m p right source path \<longleftrightarrow>
       allowed tv r m p right source path \<and> p \<noteq> q \<and> owner_of tv r (cstr m) \<noteq> Some q"
    unfolding allowed_iff [OF rf(1)] allowed_iff [OF assms(1)] by (auto simp: rf(3))
  with rf(2,5) show ?thesis by blast
qed

theorem task_end_withdraws_authority_witness:
  "owner_of demo_view (fst (snd (service_registry_remove_pid 5 (reader_registry, spill_blank)))) ''vfs'' = None \<and>
   allowed demo_view reader_registry ''vfs'' 6 SERVICE_BACKEND_RIGHT_READ 1 (Some ''a/x'') \<and>
   \<not> allowed demo_view (fst (snd (service_registry_remove_pid 5 (reader_registry, spill_blank)))) ''vfs'' 6 SERVICE_BACKEND_RIGHT_READ 1 (Some ''a/x'')"
proof -
  have ok: "registry_ok reader_registry" by (rule backend_grant_facts(1) [OF vfs_registry_facts(1,4)])
  obtain v r' s' where g: "service_registry_remove_pid 5 (reader_registry, spill_blank) = (v, r', s')" by (metis prod.collapse)
  have o: "owner_of demo_view reader_registry ''vfs'' = Some 5" "cstr ''vfs'' = ''vfs''"
    "allowed demo_view reader_registry ''vfs'' 6 SERVICE_BACKEND_RIGHT_READ 1 (Some ''a/x'')" by code_simp+
  show ?thesis
    using task_end_withdraws_authority [OF ok _ g, of demo_view "''vfs''" "''vfs''" 6 SERVICE_BACKEND_RIGHT_READ 1 "Some ''a/x''"] o
    by (simp add: g)
qed

end
