(* ===== verification/Registry_Policy.thy ===== *)
theory Registry_Policy
  imports Backend_Caps
begin

text \<open>
  The decisions the rest of the kernel takes from the registry: who may open the ports of a driver,
  which network calls are dispatched, which reads reach the disk. Each is shown equal to a
  statement about the owner of a name.
\<close>

subsection \<open>Rights of a driver\<close>

lemma right_held_owner:
  assumes "registry_ok r" and "0 < p" and "service_right_held tv n p r"
  shows "owner_of tv r (cstr n) = Some p"
proof -
  obtain i where i: "i < length (rg_entries r)" "re_pid (rg_entries r ! i) = p" "name_equal (re_name (rg_entries r ! i)) n"
    "task_identity_valid tv p (re_sequence (rg_entries r ! i)) (re_generation (rg_entries r ! i))"
    using assms(3) by (auto simp: service_right_held_def in_set_conv_nth)
  have eo: "ents_ok (ents r)" using assms(1) by (simp add: registry_ok_parts)
  have "i < 12" using i(1) eo by (simp add: ents_ok_def)
  moreover have "matching tv (cstr n) (ents r ! i)"
    using i assms(2) by (simp add: nth_ents matching_def name_equal_iff entry_valid_def)
  ultimately show ?thesis using i(1,2) by (auto simp: owner_of_def owner_in_Some [OF eo] nth_ents)
qed

lemma right_held_remove_pid:
  assumes "registry_ok r" and "0 < p" and "service_registry_remove_pid p (r, s) = (v, r', s')"
  shows "\<not> service_right_held tv n p r'"
  using remove_pid_facts(4) [OF assms] by (auto simp: service_right_held_def)

text \<open>
  C25. The ports of a driver belong to one task. At most one task holds the right of a name; it is the
  task that a lookup of the name returns; the right is gone once the task has ended, and a later
  task that runs under the same PID with another identity key does not hold it.
\<close>

theorem driver_right_exclusive:
  assumes "registry_ok r" and "0 < p" and "service_right_held tv n p r"
  shows "(0 < q \<and> service_right_held tv n q r \<longrightarrow> q = p) \<and> fst (service_registry_lookup tv n r) = p \<and>
    (\<forall>s v r' s'. service_registry_remove_pid p (r, s) = (v, r', s') \<longrightarrow> \<not> service_right_held tv' n p r') \<and>
    (tv_key tv' p \<noteq> tv_key tv p \<longrightarrow> \<not> service_right_held tv' n p r)"
proof -
  note own = right_held_owner [OF assms]
  have "q = p" if "0 < q" "service_right_held tv n q r" using right_held_owner [OF assms(1) that] own by simp
  moreover have "fst (service_registry_lookup tv n r) = p"
    using lookup_facts(4) [OF assms(1) surjective_pairing, of tv n] owner_of_valid(1) [OF assms(1) own] own by simp
  moreover have "\<not> service_right_held tv' n p r" if "tv_key tv' p \<noteq> tv_key tv p"
  proof
    assume h: "service_right_held tv' n p r"
    have eo: "ents_ok (ents r)" using assms(1) by (simp add: registry_ok_parts)
    have *: "\<exists>i<12. live_named n (ents r ! i) \<and> identity_key_bound w p (re_identity_key (rg_entries r ! i))" if "service_right_held w n p r" for w
      using that eo assms(2) by (fastforce simp: service_right_held_def in_set_conv_nth nth_ents live_named_def ents_ok_def)
    obtain i j where ij: "i < 12" "j < 12" "live_named n (ents r ! i)" "live_named n (ents r ! j)"
      "identity_key_bound tv p (re_identity_key (rg_entries r ! i))" "identity_key_bound tv' p (re_identity_key (rg_entries r ! j))"
      using * [OF assms(3)] * [OF h] by blast
    have "i = j" using ents_unique [OF eo ij(1,2)] ij(3,4) by (auto simp: live_named_def name_equal_iff)
    with ij(5,6) that show False by (auto simp: identity_key_bound_def split: option.splits)
  qed
  ultimately show ?thesis using right_held_remove_pid [OF assms(1,2)] by blast
qed

definition driver_registry :: registry where
  "driver_registry = snd (service_registry_register demo_view ''net-driver'' 5 blank_registry)"

lemma driver_registry_facts:
  "registry_ok driver_registry" "service_right_held demo_view ''net-driver'' 5 driver_registry"
  "owner_of demo_view driver_registry ''net-driver'' = Some 5"
  unfolding driver_registry_def
  using names.call_inv [OF registry_ok_blank, of demo_view "Register ''net-driver'' 5"] by (simp add: reg_call_def, code_simp+)

theorem driver_right_exclusive_witness:
  "\<not> service_right_held demo_view ''net-driver'' 6 driver_registry \<and> fst (service_registry_lookup demo_view ''net-driver'' driver_registry) = 5"
  using driver_right_exclusive [OF driver_registry_facts(1) _ driver_registry_facts(2), of 6] by auto

subsection \<open>Gates\<close>

lemma net_driver_valid: "service_registry_name_valid ''net-driver''" "service_registry_name_valid ''vfs-virtual''"
  "cstr ''net-driver'' = ''net-driver''" "cstr ''vfs-virtual'' = ''vfs-virtual''"
  by code_simp+

text \<open>
  The network gate follows the owner of net-driver. A call that is not a network call is always
  dispatched. A network call of a task is dispatched exactly when no live task owns the name
  net-driver, or when the caller is that task and holds its right; the check changes no owner.
\<close>

theorem network_gate_exact:
  assumes "registry_ok r" and "service_registry_net_syscall_allowed tv p call r = (b, r')"
  shows "b = (service_registry_net_syscall_gated call \<longrightarrow> 0 < p \<and>
      (case owner_of tv r ''net-driver'' of None \<Rightarrow> True | Some d \<Rightarrow> p = d \<and> service_right_held tv ''net-driver'' p r)) \<and>
    owner_of tv r' = owner_of tv r \<and> registry_ok r'"
proof (cases "service_registry_net_syscall_gated call \<and> 0 < p")
  case False
  then show ?thesis
    using assms by (auto simp: service_registry_net_syscall_allowed_def service_registry_net_io_via_worker_def split: if_splits)
next
  case True
  obtain v r1 where l: "service_registry_lookup tv ''net-driver'' r = (v, r1)" by fastforce
  note lf = lookup_facts [OF assms(1) l]
  have r': "r' = r1" and b: "b = (if v \<le> 0 then True else p = v \<and> service_right_held tv ''net-driver'' p r1)"
    using assms(2) True l by (auto simp: service_registry_net_syscall_allowed_def service_registry_net_io_via_worker_def split: if_splits)
  show ?thesis
  proof (cases "owner_of tv r ''net-driver''")
    case None
    then show ?thesis using True lf(1,2,4) b r' net_driver_valid by simp
  next
    case (Some d)
    then have d: "v = d" "0 < d" using lf(4) net_driver_valid owner_of_valid(2) [OF assms(1), of tv "''net-driver''"] by simp_all
    have "r1 = r" using assms(1) net_driver_valid(1) l by (cases rule: lookup_cases) (use Some net_driver_valid in auto)
    then show ?thesis using True Some d b r' lf(1,2) by simp
  qed
qed

theorem network_gate_exact_witness:
  "fst (service_registry_net_syscall_allowed demo_view 5 99 driver_registry) \<and>
   \<not> fst (service_registry_net_syscall_allowed demo_view 6 99 driver_registry)"
  using network_gate_exact [OF driver_registry_facts(1) surjective_pairing, of demo_view 5 99]
    network_gate_exact [OF driver_registry_facts(1) surjective_pairing, of demo_view 6 99] driver_registry_facts(2,3)
  by (simp add: service_registry_net_syscall_gated_def)

end
