(* ===== verification/Nic_Owner.thy ===== *)
theory Nic_Owner
  imports Kernel_Prelude
begin

text \<open>
  Who drives a device: the kernel, or the one user task that claimed it. The locale states what
  the network card (\<open>net_nic_owner.c\<close>, modelled here) and the disk controller (\<open>ata_job.c\<close>) both
  promise to the scheduler, which opens I/O ports, and to the kernel's own driver code.
\<close>

subsection \<open>Exclusive ownership\<close>

locale exclusive_owner =
  fixes ports :: "pid \<Rightarrow> pid \<Rightarrow> 's \<Rightarrow> bool"
    and kernel_may :: "pid \<Rightarrow> 's \<Rightarrow> bool"
    and claim :: "pid \<Rightarrow> pid \<Rightarrow> 's \<Rightarrow> rc \<times> 's"
    and release :: "pid \<Rightarrow> 's \<Rightarrow> rc \<times> 's"
  assumes ports_live: "ports p live s \<Longrightarrow> 0 < p \<and> p = live"
    and kernel_excluded: "kernel_may live s \<Longrightarrow> \<not> ports p live s"
    and claim_opens: "claim p live s = (0, s') \<Longrightarrow> ports p live s'"
    and release_closes: "release p s = (0, s') \<Longrightarrow> \<not> ports q live s'"
    and kernel_free: "release p s = (0, s') \<Longrightarrow> kernel_may live s'"
begin

lemma ports_exclusive: "ports p live s \<Longrightarrow> ports q live s \<Longrightarrow> q = p"
  using ports_live by metis

lemma claim_excludes: "claim p live s = (0, s') \<Longrightarrow> \<not> kernel_may live s' \<and> (ports q live s' \<longrightarrow> q = p)"
  using claim_opens kernel_excluded ports_exclusive by blast

lemma claim_release: "claim p live s = (0, s') \<Longrightarrow> release p s' = (0, s'') \<Longrightarrow> kernel_may live' s'' \<and> \<not> ports q live' s''"
  using release_closes kernel_free by blast

end

subsection \<open>The network card\<close>

abbreviation (input) OS_NET_WORKER_REQUIRED :: rc where "OS_NET_WORKER_REQUIRED \<equiv> - 59"
abbreviation (input) OS_NET_NIC_ABSENT :: rc where "OS_NET_NIC_ABSENT \<equiv> - 143"

record wire_status =
  ws_connects :: u32
  ws_frames_tx :: u32
  ws_frames_rx :: u32
  ws_arp_tx :: u32
  ws_sends :: u32
  ws_recvs :: u32
  ws_closes :: u32
  ws_refused :: u32
  ws_demuxed :: u32
  ws_dropped :: u32
  ws_arp_replies :: u32
  ws_peer_fins :: u32
  ws_bound :: u32
  ws_worker_pid :: pid
  ws_routed :: u32

record stack_report =
  sr_wire :: wire_status
  sr_llm_status :: u32
  sr_socket_ops :: u32
  sr_wire_ops :: u32
  sr_llm_ops :: u32
  sr_rounds :: u32
  sr_frames_built :: u32
  sr_frames_parsed :: u32
  sr_reports :: u32

record nic_status =
  ns_owner_pid :: pid
  ns_claims :: u32
  ns_reclaims :: u32
  ns_irq_forwarded :: u32
  ns_kernel_refused :: u32
  ns_kernel_gated :: u32
  ns_pumps :: u32
  ns_frames_out :: u32
  ns_frames_in :: u32
  ns_worker_tx_ok :: u32
  ns_worker_tx_failed :: u32

record nic_owner =
  no_owner :: pid
  no_pending_irq :: u32
  no_st :: nic_status
  no_report :: stack_report
  no_retired :: wire_status
  no_live_reports :: bool

definition zero_wire :: wire_status where
  "zero_wire = \<lparr>ws_connects = 0, ws_frames_tx = 0, ws_frames_rx = 0, ws_arp_tx = 0, ws_sends = 0, ws_recvs = 0,
     ws_closes = 0, ws_refused = 0, ws_demuxed = 0, ws_dropped = 0, ws_arp_replies = 0, ws_peer_fins = 0, ws_bound = 0,
     ws_worker_pid = 0, ws_routed = 0\<rparr>"

definition zero_report :: stack_report where
  "zero_report = \<lparr>sr_wire = zero_wire, sr_llm_status = 0, sr_socket_ops = 0, sr_wire_ops = 0, sr_llm_ops = 0,
     sr_rounds = 0, sr_frames_built = 0, sr_frames_parsed = 0, sr_reports = 0\<rparr>"

definition wire_add :: "wire_status \<Rightarrow> wire_status \<Rightarrow> wire_status" where
  "wire_add a b = a\<lparr>ws_connects := ws_connects a + ws_connects b, ws_frames_tx := ws_frames_tx a + ws_frames_tx b,
     ws_frames_rx := ws_frames_rx a + ws_frames_rx b, ws_arp_tx := ws_arp_tx a + ws_arp_tx b,
     ws_sends := ws_sends a + ws_sends b, ws_recvs := ws_recvs a + ws_recvs b, ws_closes := ws_closes a + ws_closes b,
     ws_refused := ws_refused a + ws_refused b, ws_demuxed := ws_demuxed a + ws_demuxed b,
     ws_dropped := ws_dropped a + ws_dropped b, ws_arp_replies := ws_arp_replies a + ws_arp_replies b,
     ws_peer_fins := ws_peer_fins a + ws_peer_fins b, ws_routed := ws_routed a + ws_routed b\<rparr>"

definition owner_retire :: "nic_owner \<Rightarrow> nic_owner" where
  "owner_retire s = s\<lparr>no_retired := wire_add (no_retired s) (sr_wire (no_report s)),
     no_report := zero_report\<lparr>sr_reports := sr_reports (no_report s)\<rparr>, no_live_reports := False\<rparr>"

definition nic_owner_init :: nic_owner where
  "nic_owner_init = \<lparr>no_owner = 0, no_pending_irq = 0,
     no_st = \<lparr>ns_owner_pid = 0, ns_claims = 0, ns_reclaims = 0, ns_irq_forwarded = 0, ns_kernel_refused = 0,
       ns_kernel_gated = 0, ns_pumps = 0, ns_frames_out = 0, ns_frames_in = 0, ns_worker_tx_ok = 0, ns_worker_tx_failed = 0\<rparr>,
     no_report = zero_report, no_retired = zero_wire, no_live_reports = False\<rparr>"

definition nic_owner_claim :: "pid \<Rightarrow> pid \<Rightarrow> bool \<Rightarrow> nic_owner \<Rightarrow> rc \<times> nic_owner" where
  "nic_owner_claim p live present s =
     (if p \<le> 0 \<or> p \<noteq> live then (OS_NET_WORKER_REQUIRED, s)
      else if \<not> present then (OS_NET_NIC_ABSENT, s)
      else if no_owner s = p then (0, s)
      else if no_owner s \<noteq> 0 then (OS_NET_WORKER_REQUIRED, s)
      else (0, s\<lparr>no_owner := p, no_pending_irq := 0, no_st := (no_st s)\<lparr>ns_claims := ns_claims (no_st s) + 1\<rparr>\<rparr>))"

definition nic_owner_release :: "pid \<Rightarrow> nic_owner \<Rightarrow> rc \<times> nic_owner" where
  "nic_owner_release p s =
     (if p \<le> 0 \<or> no_owner s \<noteq> p then (OS_NET_WORKER_REQUIRED, s)
      else (0, s\<lparr>no_owner := 0, no_pending_irq := 0\<rparr>))"

definition nic_owner_pid :: "nic_owner \<Rightarrow> pid" where
  "nic_owner_pid s = no_owner s"

definition nic_owner_ports_open :: "pid \<Rightarrow> pid \<Rightarrow> nic_owner \<Rightarrow> bool" where
  "nic_owner_ports_open p live s \<longleftrightarrow> no_owner s > 0 \<and> p = no_owner s \<and> no_owner s = live"

definition nic_owner_kernel_may_touch :: "nic_owner \<Rightarrow> bool" where
  "nic_owner_kernel_may_touch s \<longleftrightarrow> no_owner s = 0"

definition nic_owner_drop_if_gone :: "pid \<Rightarrow> nic_owner \<Rightarrow> rc \<times> nic_owner" where
  "nic_owner_drop_if_gone live s =
     (if no_owner s = 0 \<or> no_owner s = live then (0, s)
      else (1, (owner_retire s)\<lparr>no_owner := 0, no_pending_irq := 0\<rparr>))"

definition nic_owner_irq :: "nic_owner \<Rightarrow> rc \<times> nic_owner" where
  "nic_owner_irq s =
     (if no_owner s = 0 then (0, s)
      else (1, s\<lparr>no_pending_irq := no_pending_irq s + 1, no_st := (no_st s)\<lparr>ns_irq_forwarded := ns_irq_forwarded (no_st s) + 1\<rparr>\<rparr>))"

definition nic_owner_irq_take :: "pid \<Rightarrow> nic_owner \<Rightarrow> u32 \<times> nic_owner" where
  "nic_owner_irq_take p s =
     (if p \<le> 0 \<or> p \<noteq> no_owner s then (0, s) else (no_pending_irq s, s\<lparr>no_pending_irq := 0\<rparr>))"

definition nic_owner_note_kernel_refused :: "nic_owner \<Rightarrow> nic_owner" where
  "nic_owner_note_kernel_refused s = s\<lparr>no_st := (no_st s)\<lparr>ns_kernel_refused := ns_kernel_refused (no_st s) + 1\<rparr>\<rparr>"

definition nic_owner_note_kernel_gated :: "nic_owner \<Rightarrow> nic_owner" where
  "nic_owner_note_kernel_gated s = s\<lparr>no_st := (no_st s)\<lparr>ns_kernel_gated := ns_kernel_gated (no_st s) + 1\<rparr>\<rparr>"

definition nic_owner_note_reclaim :: "nic_owner \<Rightarrow> nic_owner" where
  "nic_owner_note_reclaim s = s\<lparr>no_st := (no_st s)\<lparr>ns_reclaims := ns_reclaims (no_st s) + 1\<rparr>\<rparr>"

definition nic_owner_note_pump :: "u32 \<Rightarrow> u32 \<Rightarrow> u32 \<Rightarrow> u32 \<Rightarrow> nic_owner \<Rightarrow> nic_owner" where
  "nic_owner_note_pump frames_out frame_in tx_ok tx_failed s =
     s\<lparr>no_st := (no_st s)\<lparr>ns_pumps := ns_pumps (no_st s) + 1, ns_frames_out := ns_frames_out (no_st s) + frames_out,
       ns_frames_in := ns_frames_in (no_st s) + frame_in, ns_worker_tx_ok := ns_worker_tx_ok (no_st s) + tx_ok,
       ns_worker_tx_failed := ns_worker_tx_failed (no_st s) + tx_failed\<rparr>\<rparr>"

definition nic_owner_fill_status :: "nic_owner \<Rightarrow> nic_status" where
  "nic_owner_fill_status s = (no_st s)\<lparr>ns_owner_pid := no_owner s\<rparr>"

definition nic_owner_publish :: "pid \<Rightarrow> stack_report option \<Rightarrow> nic_owner \<Rightarrow> rc \<times> nic_owner" where
  "nic_owner_publish p report s =
     (case report of None \<Rightarrow> (OS_NET_WORKER_REQUIRED, s) | Some q \<Rightarrow>
        if p \<le> 0 \<or> p \<noteq> no_owner s then (OS_NET_WORKER_REQUIRED, s)
        else (0, s\<lparr>no_report := q\<lparr>sr_wire := (sr_wire q)\<lparr>ws_worker_pid := p\<rparr>, sr_reports := sr_reports (no_report s) + 1\<rparr>,
                   no_live_reports := True\<rparr>))"

definition nic_owner_stack :: "nic_owner \<Rightarrow> rc \<times> stack_report" where
  "nic_owner_stack s =
     (if no_owner s \<le> 0 \<or> \<not> no_live_reports s then (0, zero_report\<lparr>sr_reports := sr_reports (no_report s)\<rparr>)
      else (1, no_report s))"

definition nic_owner_merge_wire :: "wire_status \<Rightarrow> nic_owner \<Rightarrow> wire_status" where
  "nic_owner_merge_wire w s =
     (let w1 = wire_add w (no_retired s)
      in if no_owner s > 0 \<and> no_live_reports s
         then let w2 = wire_add w1 (sr_wire (no_report s)) in w2\<lparr>ws_bound := ws_bound w2 + ws_bound (sr_wire (no_report s))\<rparr>
         else w1)"

definition nic_owner_llm_status :: "u32 \<Rightarrow> nic_owner \<Rightarrow> u32" where
  "nic_owner_llm_status word s = (if no_owner s > 0 \<and> no_live_reports s then sr_llm_status (no_report s) else word)"

interpretation nic: exclusive_owner nic_owner_ports_open "\<lambda>_. nic_owner_kernel_may_touch"
  "\<lambda>p live. nic_owner_claim p live True" nic_owner_release
  by unfold_locales
    (auto simp: nic_owner_ports_open_def nic_owner_kernel_may_touch_def nic_owner_claim_def nic_owner_release_def split: if_splits)

subsection \<open>Histories of the card\<close>

text \<open>
  The calls that change the state, in any order, from \<open>nic_owner_init\<close> on; the callers give every
  operation the current live worker.
\<close>

inductive nic_reach :: "nic_owner \<Rightarrow> bool" where
  init: "nic_reach nic_owner_init"
| claim: "nic_reach s \<Longrightarrow> nic_reach (snd (nic_owner_claim p live present s))"
| release: "nic_reach s \<Longrightarrow> nic_reach (snd (nic_owner_release p s))"
| drop: "nic_reach s \<Longrightarrow> nic_reach (snd (nic_owner_drop_if_gone live s))"
| irq: "nic_reach s \<Longrightarrow> nic_reach (snd (nic_owner_irq s))"
| irq_take: "nic_reach s \<Longrightarrow> nic_reach (snd (nic_owner_irq_take p s))"
| refused: "nic_reach s \<Longrightarrow> nic_reach (nic_owner_note_kernel_refused s)"
| gated: "nic_reach s \<Longrightarrow> nic_reach (nic_owner_note_kernel_gated s)"
| reclaim: "nic_reach s \<Longrightarrow> nic_reach (nic_owner_note_reclaim s)"
| pump: "nic_reach s \<Longrightarrow> nic_reach (nic_owner_note_pump a b c d s)"
| publish: "nic_reach s \<Longrightarrow> nic_reach (snd (nic_owner_publish p report s))"

definition nic_inv :: "nic_owner \<Rightarrow> bool" where
  "nic_inv s \<longleftrightarrow> 0 \<le> no_owner s \<and> (\<not> no_live_reports s \<longrightarrow> sr_wire (no_report s) = zero_wire)"

lemmas nic_ops = nic_owner_claim_def nic_owner_release_def nic_owner_drop_if_gone_def nic_owner_irq_def nic_owner_irq_take_def
  nic_owner_note_kernel_refused_def nic_owner_note_kernel_gated_def nic_owner_note_reclaim_def nic_owner_note_pump_def
  nic_owner_publish_def owner_retire_def nic_owner_init_def

lemma nic_reach_inv: "nic_reach s \<Longrightarrow> nic_inv s"
  by (induction rule: nic_reach.induct) (auto simp: nic_inv_def nic_ops zero_report_def split: option.splits)

lemma wire_add_zero: "wire_add a zero_wire = a"
  by (simp add: wire_add_def zero_wire_def)

lemma wire_add_assoc: "wire_add (wire_add a b) c = wire_add a (wire_add b c)"
  by (simp add: wire_add_def add.assoc)

lemma wire_add_bound: "wire_add (a\<lparr>ws_bound := x\<rparr>) b = (wire_add a b)\<lparr>ws_bound := x\<rparr>"
  by (simp add: wire_add_def)


definition served_nic :: nic_owner where
  "served_nic = snd (nic_owner_publish 5 (Some (zero_report\<lparr>sr_wire := zero_wire\<lparr>ws_frames_tx := 7\<rparr>\<rparr>))
     (snd (nic_owner_claim 5 5 True nic_owner_init)))"

lemma served_nic_reach: "nic_reach served_nic"
  unfolding served_nic_def by (intro nic_reach.intros)


text \<open>
  A released card keeps the former owner's report. When the owner has published a report and then
  releases the card, the totals lose its counters; when another worker then claims the card, the
  report and the session word of the former one are given out as if the new one had published them.
\<close>

theorem release_keeps_report:
  assumes "nic_owner_publish p (Some q) s = (0, s1)" and "nic_owner_release p s1 = (0, s2)"
    and "nic_owner_claim p' p' True s2 = (0, s3)"
  shows "nic_owner_merge_wire w s2 = wire_add w (no_retired s) \<and>
    fst (nic_owner_stack s3) = 1 \<and> ws_worker_pid (sr_wire (snd (nic_owner_stack s3))) = p \<and>
    nic_owner_llm_status word s3 = sr_llm_status q"
  using assms
  by (auto simp: nic_ops nic_owner_merge_wire_def nic_owner_stack_def nic_owner_llm_status_def split: if_splits)

theorem release_keeps_report_witness:
  "ws_worker_pid (sr_wire (snd (nic_owner_stack (snd (nic_owner_claim 6 6 True (snd (nic_owner_release 5 served_nic))))))) = 5"
proof -
  let ?s = "snd (nic_owner_claim 5 5 True nic_owner_init)"
  let ?q = "zero_report\<lparr>sr_wire := zero_wire\<lparr>ws_frames_tx := 7\<rparr>\<rparr>"
  have "nic_owner_publish 5 (Some ?q) ?s = (0, served_nic)" "fst (nic_owner_release 5 served_nic) = 0"
    "fst (nic_owner_claim 6 6 True (snd (nic_owner_release 5 served_nic))) = 0"
    by code_simp+
  then show ?thesis
    using release_keeps_report [of 5 ?q ?s served_nic "snd (nic_owner_release 5 served_nic)" 6
        "snd (nic_owner_claim 6 6 True (snd (nic_owner_release 5 served_nic)))" zero_wire 0] by (simp add: prod_eq_iff)
qed

end
