(* ===== verification/Ata_Job.thy ===== *)
theory Ata_Job
  imports Nic_Owner
begin

text \<open>
  Controller ownership and the job queue between the kernel and the disk driver task
  (\<open>ata_job.c\<close>): the overlay image, written or read in chunks of at most eight sectors, and one
  synchronous sector job that goes between the chunks.

  The function pointers \<open>g_snapshot\<close> and \<open>g_restore\<close> lead to the overlay store: what a call of the
  first one writes is the argument \<open>snapshot\<close> (None when there is none or it fails), whether the second
  one accepts an image is the predicate \<open>restore\<close>. A data buffer argument is an option (NULL) whose
  list has the length the caller passes along. \<open>g_cursor\<close> and \<open>g_total\<close> count sectors and are naturals.
\<close>

abbreviation (input) OS_ATA_DRIVER_REQUIRED :: rc where "OS_ATA_DRIVER_REQUIRED \<equiv> - 58"
abbreviation (input) OS_ATA_CONTROLLER_BUSY :: rc where "OS_ATA_CONTROLLER_BUSY \<equiv> - 85"
abbreviation (input) OS_ATA_JOB_STALE :: rc where "OS_ATA_JOB_STALE \<equiv> - 86"
abbreviation (input) OS_ATA_JOB_CHUNK_OK :: rc where "OS_ATA_JOB_CHUNK_OK \<equiv> 0"
abbreviation (input) OS_ATA_JOB_FLUSH_DONE :: rc where "OS_ATA_JOB_FLUSH_DONE \<equiv> 1"
abbreviation (input) OS_ATA_JOB_LOAD_DONE :: rc where "OS_ATA_JOB_LOAD_DONE \<equiv> 2"
abbreviation (input) OS_ATA_JOB_LOAD_SKIPPED :: rc where "OS_ATA_JOB_LOAD_SKIPPED \<equiv> 3"
abbreviation (input) OS_ATA_JOB_FAILED :: rc where "OS_ATA_JOB_FAILED \<equiv> 4"
abbreviation (input) OS_ATA_JOB_IO_DONE :: rc where "OS_ATA_JOB_IO_DONE \<equiv> 5"
abbreviation (input) OS_ATA_JOB_NONE :: u32 where "OS_ATA_JOB_NONE \<equiv> 0"
abbreviation (input) OS_ATA_JOB_WRITE :: u32 where "OS_ATA_JOB_WRITE \<equiv> 1"
abbreviation (input) OS_ATA_JOB_READ :: u32 where "OS_ATA_JOB_READ \<equiv> 2"
abbreviation (input) OS_ATA_JOB_IO_READ :: u32 where "OS_ATA_JOB_IO_READ \<equiv> 3"
abbreviation (input) OS_ATA_JOB_IO_WRITE :: u32 where "OS_ATA_JOB_IO_WRITE \<equiv> 4"
abbreviation (input) OS_ATA_JOB_MAX_SECTORS :: nat where "OS_ATA_JOB_MAX_SECTORS \<equiv> 8"
abbreviation (input) OS_ATA_OVERLAY_SECTORS :: nat where "OS_ATA_OVERLAY_SECTORS \<equiv> 64"
abbreviation (input) OS_ATA_OVERLAY_SECTORS_MAX :: nat where "OS_ATA_OVERLAY_SECTORS_MAX \<equiv> 192"
abbreviation (input) OS_ATA_KERNEL_RESERVED_LBAS :: u32 where "OS_ATA_KERNEL_RESERVED_LBAS \<equiv> 64"
abbreviation (input) ATA_JOB_SNAPSHOT_BYTES :: nat where "ATA_JOB_SNAPSHOT_BYTES \<equiv> 98304"

datatype ata_handed = ATA_HANDED_NONE | ATA_HANDED_OVERLAY | ATA_HANDED_IO

datatype ata_io = ATA_IO_NONE | ATA_IO_PENDING | ATA_IO_HANDED | ATA_IO_DONE | ATA_IO_FAILED

record os_ata_job =
  oj_op :: u32
  oj_drive :: u32
  oj_lba :: u32
  oj_count :: nat
  oj_generation :: u32
  oj_flags :: u32

record ata_stats =
  as_flush_done :: u32
  as_load_done :: u32
  as_load_skipped :: u32
  as_job_failures :: u32
  as_kernel_overlay_writes :: u32
  as_kernel_pio_refused :: u32
  as_fallback_flushes :: u32
  as_fat_driver_read_sectors :: u32
  as_fat_driver_write_sectors :: u32
  as_fat_kernel_pio_sectors :: u32
  as_fat_kernel_pio_live :: u32
  as_fat_rpc_aborts :: u32
  as_boot_driver_pid :: pid
  as_channel_resets :: u32
  as_supervised_respawns :: u32
  as_journal_kernel_pio_reads :: u32
  as_journal_installs :: u32

record ata_job =
  aj_claim_pid :: pid
  aj_buf :: "u8 list"
  aj_total :: nat
  aj_ext_lba :: u32
  aj_flush_dirty :: bool
  aj_load_pending :: bool
  aj_active_op :: u32
  aj_cursor :: nat
  aj_generation :: u32
  aj_ov_generation :: u32
  aj_load_invalid :: bool
  aj_client_min_lba :: u32
  aj_slave_locked :: bool
  aj_stats :: ata_stats
  aj_handed :: ata_handed
  aj_io_state :: ata_io
  aj_io_op :: u32
  aj_io_drive :: u32
  aj_io_lba :: u32
  aj_io_count :: nat
  aj_io_gen :: u32
  aj_io_buf :: "u8 list"
  aj_io_flags :: u32
  aj_debug_crash_armed :: bool
  aj_boot_mount_deferred :: bool
  aj_slave_present :: bool

definition zero_stats :: ata_stats where
  "zero_stats = \<lparr>as_flush_done = 0, as_load_done = 0, as_load_skipped = 0, as_job_failures = 0, as_kernel_overlay_writes = 0,
     as_kernel_pio_refused = 0, as_fallback_flushes = 0, as_fat_driver_read_sectors = 0, as_fat_driver_write_sectors = 0,
     as_fat_kernel_pio_sectors = 0, as_fat_kernel_pio_live = 0, as_fat_rpc_aborts = 0, as_boot_driver_pid = 0,
     as_channel_resets = 0, as_supervised_respawns = 0, as_journal_kernel_pio_reads = 0, as_journal_installs = 0\<rparr>"

definition upd_stats :: "(ata_stats \<Rightarrow> ata_stats) \<Rightarrow> ata_job \<Rightarrow> ata_job" where
  "upd_stats f s = s\<lparr>aj_stats := f (aj_stats s)\<rparr>"

definition job_geometry :: "ata_job \<Rightarrow> ata_job" where
  "job_geometry s =
     (if dec32 (aj_buf s) = 0x564F4941 \<and> dec32 (drop 4 (aj_buf s)) = 4 \<and> dec32 (drop 16 (aj_buf s)) \<ge> 4225 \<and>
         dec32 (drop 20 (aj_buf s)) = 128
      then s\<lparr>aj_ext_lba := dec32 (drop 16 (aj_buf s)), aj_total := OS_ATA_OVERLAY_SECTORS_MAX\<rparr>
      else s\<lparr>aj_total := OS_ATA_OVERLAY_SECTORS, aj_ext_lba := 0\<rparr>)"

definition job_lba :: "nat \<Rightarrow> ata_job \<Rightarrow> u32" where
  "job_lba cursor s =
     (if cursor < OS_ATA_OVERLAY_SECTORS then word_of_nat cursor
      else aj_ext_lba s + word_of_nat (cursor - OS_ATA_OVERLAY_SECTORS))"

definition ata_job_init :: "ata_job \<Rightarrow> ata_job" where
  "ata_job_init s = s\<lparr>aj_claim_pid := 0, aj_flush_dirty := False, aj_load_pending := False, aj_active_op := OS_ATA_JOB_NONE,
     aj_cursor := 0, aj_generation := 0, aj_load_invalid := False, aj_client_min_lba := OS_ATA_KERNEL_RESERVED_LBAS,
     aj_slave_locked := False, aj_handed := ATA_HANDED_NONE, aj_io_state := ATA_IO_NONE, aj_io_flags := 0,
     aj_debug_crash_armed := False, aj_stats := zero_stats\<rparr>"

subsection \<open>Ownership\<close>

definition ata_owner_holder :: "pid \<Rightarrow> ata_job \<Rightarrow> pid \<times> ata_job" where
  "ata_owner_holder live s =
     (let s1 = (if aj_claim_pid s \<noteq> 0 \<and> (live \<le> 0 \<or> aj_claim_pid s \<noteq> live) then s\<lparr>aj_claim_pid := 0\<rparr> else s)
      in (aj_claim_pid s1, s1))"

definition ata_owner_claim :: "pid \<Rightarrow> pid \<Rightarrow> ata_job \<Rightarrow> rc \<times> ata_job" where
  "ata_owner_claim p live s =
     (if p \<le> 0 \<or> live \<le> 0 \<or> p \<noteq> live then (OS_ATA_DRIVER_REQUIRED, s)
      else (case ata_owner_holder live s of
         (h, s1) \<Rightarrow> if h \<noteq> 0 \<and> aj_claim_pid s1 \<noteq> p then (OS_ATA_CONTROLLER_BUSY, s1) else (0, s1\<lparr>aj_claim_pid := p\<rparr>)))"

definition ata_owner_release :: "pid \<Rightarrow> ata_job \<Rightarrow> rc \<times> ata_job" where
  "ata_owner_release p s =
     (if p \<le> 0 \<or> aj_claim_pid s \<noteq> p then (OS_ATA_DRIVER_REQUIRED, s) else (0, s\<lparr>aj_claim_pid := 0\<rparr>))"

definition ata_owner_ports_open :: "pid \<Rightarrow> pid \<Rightarrow> ata_job \<Rightarrow> bool \<times> ata_job" where
  "ata_owner_ports_open p live s =
     (if p > 0 \<and> p = live then (case ata_owner_holder live s of (h, s1) \<Rightarrow> (h = p, s1)) else (False, s))"

definition ata_owner_kernel_may_pio :: "pid \<Rightarrow> ata_job \<Rightarrow> bool \<times> ata_job" where
  "ata_owner_kernel_may_pio live s =
     (case ata_owner_holder live s of
        (h, s1) \<Rightarrow>
          if h \<noteq> 0 then (False, upd_stats (\<lambda>t. t\<lparr>as_kernel_pio_refused := as_kernel_pio_refused t + 1\<rparr>) s1)
          else (True, s1))"

interpretation ata: exclusive_owner "\<lambda>p live s. fst (ata_owner_ports_open p live s)" "\<lambda>live s. fst (ata_owner_kernel_may_pio live s)"
  ata_owner_claim ata_owner_release
  by unfold_locales
    (auto simp: ata_owner_ports_open_def ata_owner_kernel_may_pio_def ata_owner_claim_def ata_owner_release_def ata_owner_holder_def Let_def
      split: if_splits)

subsection \<open>Requests\<close>

definition ata_job_request_flush :: "ata_job \<Rightarrow> ata_job" where
  "ata_job_request_flush s =
     s\<lparr>aj_flush_dirty := True, aj_load_invalid := (if aj_active_op s = OS_ATA_JOB_READ then True else aj_load_invalid s),
       aj_load_pending := False\<rparr>"

definition ata_job_request_load :: "ata_job \<Rightarrow> ata_job" where
  "ata_job_request_load s = (if aj_flush_dirty s then s else s\<lparr>aj_load_pending := True\<rparr>)"

definition ata_job_pending :: "ata_job \<Rightarrow> bool" where
  "ata_job_pending s \<longleftrightarrow> aj_flush_dirty s \<or> aj_load_pending s \<or> aj_active_op s \<noteq> OS_ATA_JOB_NONE \<or>
     aj_io_state s = ATA_IO_PENDING \<or> aj_io_state s = ATA_IO_HANDED"

definition ata_job_io_submit :: "u32 \<Rightarrow> u32 \<Rightarrow> nat \<Rightarrow> bool \<Rightarrow> u8 list option \<Rightarrow> ata_job \<Rightarrow> rc \<times> ata_job" where
  "ata_job_io_submit drive lba n write data s =
     (if aj_io_state s = ATA_IO_PENDING \<or> aj_io_state s = ATA_IO_HANDED then (- 1, s)
      else if drive > 1 \<or> n = 0 \<or> n > OS_ATA_JOB_MAX_SECTORS then (- 1, s)
      else if write \<and> data = None then (- 1, s)
      else
        let crash = write \<and> aj_debug_crash_armed s
        in (0, s\<lparr>aj_io_op := (if write then OS_ATA_JOB_IO_WRITE else OS_ATA_JOB_IO_READ), aj_io_drive := drive,
             aj_io_lba := lba, aj_io_count := n, aj_generation := aj_generation s + 1, aj_io_gen := aj_generation s + 1,
             aj_io_buf := (if write then take (n * 512) (the data) @ drop (n * 512) (aj_io_buf s) else aj_io_buf s),
             aj_io_flags := (if crash then 1 else 0), aj_debug_crash_armed := (if crash then False else aj_debug_crash_armed s),
             aj_io_state := ATA_IO_PENDING\<rparr>))"

text \<open>The result carries the bytes copied to \<open>out\<close>, None when nothing is copied.\<close>

definition ata_job_io_take :: "nat option \<Rightarrow> ata_job \<Rightarrow> rc \<times> u8 list option \<times> ata_job" where
  "ata_job_io_take capacity s =
     (if aj_io_state s \<noteq> ATA_IO_DONE \<and> aj_io_state s \<noteq> ATA_IO_FAILED then (- 1, None, s)
      else
        let s1 = s\<lparr>aj_io_state := ATA_IO_NONE\<rparr>
        in if aj_io_state s \<noteq> ATA_IO_DONE then (- 1, None, s1)
           else if aj_io_op s \<noteq> OS_ATA_JOB_IO_READ then (0, None, s1)
           else (case capacity of
              None \<Rightarrow> (- 1, None, s1)
            | Some c \<Rightarrow> if c < aj_io_count s * 512 then (- 1, None, s1)
                else (0, Some (take (aj_io_count s * 512) (aj_io_buf s)), s1)))"

definition ata_job_io_cancel :: "ata_job \<Rightarrow> ata_job" where
  "ata_job_io_cancel s =
     (if aj_io_state s = ATA_IO_NONE then s
      else upd_stats (\<lambda>t. t\<lparr>as_fat_rpc_aborts := as_fat_rpc_aborts t + 1\<rparr>)
        (s\<lparr>aj_handed := (if aj_handed s = ATA_HANDED_IO then ATA_HANDED_NONE else aj_handed s),
           aj_io_state := ATA_IO_NONE, aj_generation := aj_generation s + 1\<rparr>))"

definition ata_job_note_journal_kernel_read :: "u32 \<Rightarrow> ata_job \<Rightarrow> ata_job" where
  "ata_job_note_journal_kernel_read n = upd_stats (\<lambda>t. t\<lparr>as_journal_kernel_pio_reads := as_journal_kernel_pio_reads t + n\<rparr>)"

definition ata_job_note_journal_install :: "ata_job \<Rightarrow> ata_job" where
  "ata_job_note_journal_install = upd_stats (\<lambda>t. t\<lparr>as_journal_installs := as_journal_installs t + 1\<rparr>)"

definition ata_job_note_fat_kernel_pio :: "u32 \<Rightarrow> bool \<Rightarrow> ata_job \<Rightarrow> ata_job" where
  "ata_job_note_fat_kernel_pio n live = upd_stats (\<lambda>t. t\<lparr>as_fat_kernel_pio_sectors := as_fat_kernel_pio_sectors t + n,
     as_fat_kernel_pio_live := as_fat_kernel_pio_live t + (if live then n else 0)\<rparr>)"

definition ata_job_set_boot_driver :: "pid \<Rightarrow> ata_job \<Rightarrow> ata_job" where
  "ata_job_set_boot_driver p = upd_stats (\<lambda>t. t\<lparr>as_boot_driver_pid := p\<rparr>)"

definition ata_job_debug_arm_crash :: "ata_job \<Rightarrow> ata_job" where
  "ata_job_debug_arm_crash s = s\<lparr>aj_debug_crash_armed := True\<rparr>"

definition ata_job_debug_take_crash :: "ata_job \<Rightarrow> bool \<times> ata_job" where
  "ata_job_debug_take_crash s = (if \<not> aj_debug_crash_armed s then (False, s) else (True, s\<lparr>aj_debug_crash_armed := False\<rparr>))"

definition ata_job_note_fat_driver_io :: "u32 \<Rightarrow> u32 \<Rightarrow> ata_job \<Rightarrow> ata_job" where
  "ata_job_note_fat_driver_io nread nwritten = upd_stats (\<lambda>t. t\<lparr>as_fat_driver_read_sectors := as_fat_driver_read_sectors t + nread,
     as_fat_driver_write_sectors := as_fat_driver_write_sectors t + nwritten\<rparr>)"

definition ata_job_note_driver_flush :: "ata_job \<Rightarrow> ata_job" where
  "ata_job_note_driver_flush = upd_stats (\<lambda>t. t\<lparr>as_flush_done := as_flush_done t + 1\<rparr>)"

definition ata_job_note_rpc_abort :: "ata_job \<Rightarrow> ata_job" where
  "ata_job_note_rpc_abort = upd_stats (\<lambda>t. t\<lparr>as_fat_rpc_aborts := as_fat_rpc_aborts t + 1\<rparr>)"

definition ata_job_controller_in_use :: "ata_job \<Rightarrow> bool" where
  "ata_job_controller_in_use s \<longleftrightarrow> aj_claim_pid s \<noteq> 0 \<or> aj_handed s \<noteq> ATA_HANDED_NONE"

definition ata_job_note_channel_reset :: "ata_job \<Rightarrow> ata_job" where
  "ata_job_note_channel_reset = upd_stats (\<lambda>t. t\<lparr>as_channel_resets := as_channel_resets t + 1\<rparr>)"

definition ata_job_note_respawn :: "ata_job \<Rightarrow> ata_job" where
  "ata_job_note_respawn = upd_stats (\<lambda>t. t\<lparr>as_supervised_respawns := as_supervised_respawns t + 1\<rparr>)"

definition ata_job_note_kernel_overlay_write :: "ata_job \<Rightarrow> ata_job" where
  "ata_job_note_kernel_overlay_write = upd_stats (\<lambda>t. t\<lparr>as_kernel_overlay_writes := as_kernel_overlay_writes t + 1\<rparr>)"

definition ata_job_note_fallback_flush :: "ata_job \<Rightarrow> ata_job" where
  "ata_job_note_fallback_flush = upd_stats (\<lambda>t. t\<lparr>as_fallback_flushes := as_fallback_flushes t + 1\<rparr>)"

definition ata_job_set_fences :: "u32 \<Rightarrow> bool \<Rightarrow> ata_job \<Rightarrow> ata_job" where
  "ata_job_set_fences min_lba locked s =
     s\<lparr>aj_client_min_lba := (if min_lba < OS_ATA_KERNEL_RESERVED_LBAS then OS_ATA_KERNEL_RESERVED_LBAS else min_lba),
       aj_slave_locked := locked\<rparr>"

definition ata_job_set_boot_flags :: "bool \<Rightarrow> bool \<Rightarrow> ata_job \<Rightarrow> ata_job" where
  "ata_job_set_boot_flags deferred present s = s\<lparr>aj_boot_mount_deferred := deferred, aj_slave_present := present\<rparr>"

definition ata_job_client_write_allowed :: "u32 \<Rightarrow> u32 \<Rightarrow> ata_job \<Rightarrow> bool" where
  "ata_job_client_write_allowed drive lba s =
     (if drive = 0 then lba \<ge> aj_client_min_lba s else if drive = 1 then \<not> aj_slave_locked s else False)"

subsection \<open>Handing out and completing chunks\<close>

definition chunk_count :: "ata_job \<Rightarrow> nat" where
  "chunk_count s =
     (let stop = (if aj_cursor s < OS_ATA_OVERLAY_SECTORS then OS_ATA_OVERLAY_SECTORS else aj_total s);
          left = stop - aj_cursor s
      in if left < OS_ATA_JOB_MAX_SECTORS then left else OS_ATA_JOB_MAX_SECTORS)"

text \<open>
  The first part of \<open>ata_job_fetch\<close>, when no overlay job is active: take the snapshot, or begin a
  load. The code is 1 when there is a job, 0 when there is none.
\<close>

definition fetch_begin :: "u8 list option \<Rightarrow> ata_job \<Rightarrow> rc \<times> ata_job" where
  "fetch_begin snapshot s =
     (if aj_active_op s \<noteq> OS_ATA_JOB_NONE then (1, s)
      else if aj_flush_dirty s then
        (case snapshot of
           None \<Rightarrow> (- 1, s\<lparr>aj_buf := replicate ATA_JOB_SNAPSHOT_BYTES 0\<rparr>)
         | Some img \<Rightarrow> (1, (job_geometry (s\<lparr>aj_buf := img\<rparr>))\<lparr>aj_flush_dirty := False, aj_active_op := OS_ATA_JOB_WRITE,
              aj_cursor := 0, aj_generation := aj_generation s + 1, aj_ov_generation := aj_generation s + 1\<rparr>))
      else if aj_load_pending s then
        (1, s\<lparr>aj_load_pending := False, aj_load_invalid := False, aj_active_op := OS_ATA_JOB_READ, aj_total := OS_ATA_OVERLAY_SECTORS,
              aj_ext_lba := 0, aj_cursor := 0, aj_generation := aj_generation s + 1, aj_ov_generation := aj_generation s + 1\<rparr>)
      else (0, s))"

text \<open>
  \<open>wanted\<close> says that the job pointer is not NULL; \<open>capacity\<close> is the room at the data pointer, None for
  NULL. The result carries the job and the bytes copied out, if any.
\<close>

definition ata_job_fetch :: "u8 list option \<Rightarrow> bool \<Rightarrow> nat option \<Rightarrow> ata_job \<Rightarrow> rc \<times> (os_ata_job \<times> u8 list) option \<times> ata_job" where
  "ata_job_fetch snapshot wanted capacity s =
     (if \<not> wanted then (- 1, None, s)
      else if aj_handed s = ATA_HANDED_IO \<or> aj_handed s = ATA_HANDED_NONE \<and> aj_io_state s = ATA_IO_PENDING then
        (if aj_io_op s = OS_ATA_JOB_IO_WRITE \<and> (case capacity of None \<Rightarrow> True | Some c \<Rightarrow> c < aj_io_count s * 512) then (- 1, None, s)
         else (1, Some (\<lparr>oj_op = aj_io_op s, oj_drive = aj_io_drive s, oj_lba = aj_io_lba s, oj_count = aj_io_count s,
                 oj_generation = aj_io_gen s, oj_flags = aj_io_flags s\<rparr>,
                 if aj_io_op s = OS_ATA_JOB_IO_WRITE then take (aj_io_count s * 512) (aj_io_buf s) else []),
               s\<lparr>aj_io_state := ATA_IO_HANDED, aj_handed := ATA_HANDED_IO\<rparr>))
      else (case fetch_begin snapshot s of
         (v, s1) \<Rightarrow>
           if v \<noteq> 1 then (v, None, s1)
           else if aj_active_op s1 = OS_ATA_JOB_WRITE \<and> (case capacity of None \<Rightarrow> True | Some c \<Rightarrow> c < chunk_count s1 * 512)
           then (- 1, None, s1)
           else (1, Some (\<lparr>oj_op = aj_active_op s1, oj_drive = 0, oj_lba = job_lba (aj_cursor s1) s1, oj_count = chunk_count s1,
                   oj_generation = aj_ov_generation s1, oj_flags = 0\<rparr>,
                   if aj_active_op s1 = OS_ATA_JOB_WRITE then take (chunk_count s1 * 512) (drop (aj_cursor s1 * 512) (aj_buf s1)) else []),
                 s1\<lparr>aj_handed := ATA_HANDED_OVERLAY\<rparr>)))"

definition io_matches :: "os_ata_job \<Rightarrow> ata_job \<Rightarrow> bool" where
  "io_matches job s \<longleftrightarrow> aj_io_state s = ATA_IO_HANDED \<and> oj_op job = aj_io_op s \<and> oj_generation job = aj_io_gen s \<and>
     oj_lba job = aj_io_lba s \<and> oj_count job = aj_io_count s \<and> oj_drive job = aj_io_drive s"

definition done_io :: "os_ata_job \<Rightarrow> int \<Rightarrow> u8 list option \<Rightarrow> ata_job \<Rightarrow> rc \<times> ata_job" where
  "done_io job status data s =
     (if \<not> io_matches job s then (OS_ATA_JOB_STALE, s)
      else if status = 0 \<and> aj_io_op s = OS_ATA_JOB_IO_READ \<and> (case data of None \<Rightarrow> True | Some d \<Rightarrow> length d < aj_io_count s * 512)
      then (OS_ATA_JOB_STALE, s)
      else
        let n = aj_io_count s * 512;
            s1 = s\<lparr>aj_handed := ATA_HANDED_NONE, aj_io_buf := (if status = 0 \<and> aj_io_op s = OS_ATA_JOB_IO_READ
                   then take n (the data) @ drop n (aj_io_buf s) else aj_io_buf s)\<rparr>
        in if status \<noteq> 0 then
             (OS_ATA_JOB_FAILED, upd_stats (\<lambda>t. t\<lparr>as_job_failures := as_job_failures t + 1\<rparr>) (s1\<lparr>aj_io_state := ATA_IO_FAILED\<rparr>))
           else (OS_ATA_JOB_IO_DONE,
             upd_stats (\<lambda>t. if aj_io_op s = OS_ATA_JOB_IO_READ
                 then t\<lparr>as_fat_driver_read_sectors := as_fat_driver_read_sectors t + word_of_nat (aj_io_count s)\<rparr>
                 else t\<lparr>as_fat_driver_write_sectors := as_fat_driver_write_sectors t + word_of_nat (aj_io_count s)\<rparr>)
               (s1\<lparr>aj_io_state := ATA_IO_DONE\<rparr>)))"

definition chunk_matches :: "os_ata_job \<Rightarrow> ata_job \<Rightarrow> bool" where
  "chunk_matches job s \<longleftrightarrow> oj_op job = aj_active_op s \<and> oj_generation job = aj_ov_generation s \<and>
     oj_lba job = job_lba (aj_cursor s) s \<and> oj_count job = chunk_count s \<and> oj_drive job = 0"

text \<open>The end of \<open>ata_job_done\<close>, after the last chunk of the image.\<close>

definition done_image :: "(u8 list \<Rightarrow> bool) \<Rightarrow> u32 \<Rightarrow> ata_job \<Rightarrow> rc \<times> ata_job" where
  "done_image restore op s =
     (let s1 = s\<lparr>aj_active_op := OS_ATA_JOB_NONE, aj_cursor := 0\<rparr>
      in if op = OS_ATA_JOB_WRITE then (OS_ATA_JOB_FLUSH_DONE, upd_stats (\<lambda>t. t\<lparr>as_flush_done := as_flush_done t + 1\<rparr>) s1)
         else if aj_load_invalid s1 \<or> aj_flush_dirty s1 \<or> \<not> restore (aj_buf s1) then
           (OS_ATA_JOB_LOAD_SKIPPED, upd_stats (\<lambda>t. t\<lparr>as_load_skipped := as_load_skipped t + 1\<rparr>) s1)
         else (OS_ATA_JOB_LOAD_DONE, upd_stats (\<lambda>t. t\<lparr>as_load_done := as_load_done t + 1\<rparr>) s1))"

definition done_chunk :: "(u8 list \<Rightarrow> bool) \<Rightarrow> os_ata_job \<Rightarrow> int \<Rightarrow> u8 list option \<Rightarrow> ata_job \<Rightarrow> rc \<times> ata_job" where
  "done_chunk restore job status data s =
     (if aj_handed s \<noteq> ATA_HANDED_OVERLAY \<or> aj_active_op s = OS_ATA_JOB_NONE then (OS_ATA_JOB_STALE, s)
      else if \<not> chunk_matches job s then (OS_ATA_JOB_STALE, s)
      else
        let n = chunk_count s; op = aj_active_op s; s1 = s\<lparr>aj_handed := ATA_HANDED_NONE\<rparr>
        in if status \<noteq> 0 then
             (OS_ATA_JOB_FAILED, upd_stats (\<lambda>t. t\<lparr>as_job_failures := as_job_failures t + 1\<rparr>)
               (s1\<lparr>aj_active_op := OS_ATA_JOB_NONE, aj_flush_dirty := (if op = OS_ATA_JOB_WRITE then True else aj_flush_dirty s)\<rparr>))
           else if op = OS_ATA_JOB_READ \<and> (case data of None \<Rightarrow> True | Some d \<Rightarrow> length d < n * 512) then (OS_ATA_JOB_STALE, s1)
           else
             let base = aj_cursor s * 512;
                 s2 = (if op = OS_ATA_JOB_READ
                       then s1\<lparr>aj_buf := take base (aj_buf s) @ take (n * 512) (the data) @ drop (base + n * 512) (aj_buf s)\<rparr> else s1);
                 s3 = s2\<lparr>aj_cursor := aj_cursor s + n\<rparr>;
                 s4 = (if op = OS_ATA_JOB_READ \<and> aj_cursor s3 = OS_ATA_OVERLAY_SECTORS then job_geometry s3 else s3)
             in if aj_cursor s4 < aj_total s4 then (OS_ATA_JOB_CHUNK_OK, s4) else done_image restore op s4)"

definition ata_job_done :: "(u8 list \<Rightarrow> bool) \<Rightarrow> os_ata_job option \<Rightarrow> int \<Rightarrow> u8 list option \<Rightarrow> ata_job \<Rightarrow> rc \<times> ata_job" where
  "ata_job_done restore job status data s =
     (case job of None \<Rightarrow> (OS_ATA_JOB_STALE, s) | Some j \<Rightarrow>
        if aj_handed s = ATA_HANDED_IO then done_io j status data s else done_chunk restore j status data s)"

definition ata_job_driver_gone :: "ata_job \<Rightarrow> bool \<times> ata_job" where
  "ata_job_driver_gone s =
     (let need_flush = (aj_flush_dirty s \<or> aj_active_op s = OS_ATA_JOB_WRITE);
          s1 = s\<lparr>aj_claim_pid := 0, aj_active_op := OS_ATA_JOB_NONE, aj_cursor := 0, aj_load_pending := False,
                 aj_flush_dirty := False, aj_handed := ATA_HANDED_NONE\<rparr>
      in (need_flush,
          if aj_io_state s = ATA_IO_PENDING \<or> aj_io_state s = ATA_IO_HANDED
          then upd_stats (\<lambda>t. t\<lparr>as_fat_rpc_aborts := as_fat_rpc_aborts t + 1\<rparr>)
                 (s1\<lparr>aj_io_state := ATA_IO_NONE, aj_generation := aj_generation s + 1\<rparr>)
          else s1))"

end
