(* ===== verification/Ata_Flush.thy ===== *)
theory Ata_Flush
  imports Ata_Job
begin

text \<open>
  What the job queue promises the overlay store: a flush writes the whole snapshot, each chunk to its
  place; a state that has to reach the disk is not forgotten; a sector job gives its caller the
  bytes the driver read.
\<close>

subsection \<open>Serving a flush\<close>

text \<open>
  The loop of the driver: fetch a chunk, write it, report success, until the answer is not
  \<open>OS_ATA_JOB_CHUNK_OK\<close>. It gives the writes in order, and the last answer.
\<close>

fun serve :: "u8 list option \<Rightarrow> nat \<Rightarrow> ata_job \<Rightarrow> (u32 \<times> u8 list) list \<times> rc \<times> ata_job" where
  "serve snapshot 0 s = ([], OS_ATA_JOB_CHUNK_OK, s)"
| "serve snapshot (Suc n) s =
     (case ata_job_fetch snapshot True (Some 4096) s of
        (v, None, s1) \<Rightarrow> ([], v, s1)
      | (v, Some (job, d), s1) \<Rightarrow>
          (case ata_job_done (\<lambda>_. False) (Some job) 0 None s1 of
             (w, s2) \<Rightarrow>
               if w \<noteq> OS_ATA_JOB_CHUNK_OK then ([(oj_lba job, d)], w, s2)
               else (case serve snapshot n s2 of (ws, r) \<Rightarrow> ((oj_lba job, d) # ws, r))))"

definition chunk_write :: "ata_job \<Rightarrow> nat \<Rightarrow> u32 \<times> u8 list" where
  "chunk_write s k = (job_lba (8 * k) s, take 4096 (drop (4096 * k) (aj_buf s)))"

definition writing :: "ata_job \<Rightarrow> bool" where
  "writing s \<longleftrightarrow> aj_active_op s = OS_ATA_JOB_WRITE \<and> aj_handed s = ATA_HANDED_NONE \<and> aj_io_state s \<noteq> ATA_IO_PENDING \<and>
     (aj_total s = 64 \<or> aj_total s = 192)"

lemma chunk_count_8: "aj_cursor s = 8 * k \<Longrightarrow> 8 * k < aj_total s \<Longrightarrow> aj_total s = 64 \<or> aj_total s = 192 \<Longrightarrow> chunk_count s = 8"
  by (auto simp: chunk_count_def Let_def)

lemma job_lba_cong: "aj_ext_lba t = aj_ext_lba s \<Longrightarrow> job_lba c t = job_lba c s"
  by (simp add: job_lba_def)

lemma serve_step:
  assumes "writing s" and "aj_cursor s = 8 * k" and "8 * k < aj_total s"
  defines "t \<equiv> s\<lparr>aj_cursor := 8 * Suc k\<rparr>"
  shows "serve snapshot (Suc n) s =
    (if 8 * Suc k < aj_total s then (case serve snapshot n t of (ws, r) \<Rightarrow> (chunk_write s k # ws, r))
     else ([chunk_write s k], OS_ATA_JOB_FLUSH_DONE, snd (done_image (\<lambda>_. False) OS_ATA_JOB_WRITE t)))"
proof -
  have c: "chunk_count s = 8" using chunk_count_8 assms(1-3) by (auto simp: writing_def)
  let ?job = "\<lparr>oj_op = aj_active_op s, oj_drive = 0, oj_lba = job_lba (8 * k) s, oj_count = 8, oj_generation = aj_ov_generation s, oj_flags = 0\<rparr>"
  let ?d = "take 4096 (drop (4096 * k) (aj_buf s))"
  let ?h = "s\<lparr>aj_handed := ATA_HANDED_OVERLAY\<rparr>"
  have f: "ata_job_fetch snapshot True (Some 4096) s = (1, Some (?job, ?d), ?h)"
    using assms(1,2) c by (simp add: ata_job_fetch_def writing_def fetch_begin_def mult.commute)
  have "chunk_count ?h = chunk_count s" by (simp add: chunk_count_def)
  with c have ch: "chunk_count ?h = 8" by simp
  have m: "chunk_matches ?job ?h" using assms(2) ch job_lba_cong [of ?h s "8 * k"] by (simp add: chunk_matches_def)
  have "ata_job_done (\<lambda>_. False) (Some ?job) 0 None ?h =
      (if 8 * Suc k < aj_total s then (OS_ATA_JOB_CHUNK_OK, t) else done_image (\<lambda>_. False) OS_ATA_JOB_WRITE t)"
  proof -
    have h: "s\<lparr>aj_handed := ATA_HANDED_NONE\<rparr> = s" using assms(1) by (cases s) (simp add: writing_def)
    show ?thesis using assms(1,2) m ch by (simp add: ata_job_done_def done_chunk_def writing_def Let_def t_def h add.commute)
  qed
  with f show ?thesis by (simp add: chunk_write_def done_image_def Let_def)
qed

lemma serve_writing:
  assumes "writing s" and "aj_cursor s = 8 * k" and "8 * (k + m) = aj_total s" and "0 < m" and "m \<le> n"
  shows "serve snapshot n s = (map (chunk_write s) [k..<k + m], OS_ATA_JOB_FLUSH_DONE,
    snd (done_image (\<lambda>_. False) OS_ATA_JOB_WRITE (s\<lparr>aj_cursor := aj_total s\<rparr>)))"
  using assms
proof (induction m arbitrary: s k n)
  case (Suc m)
  obtain n' where n: "n = Suc n'" using Suc.prems(5) by (cases n) auto
  let ?t = "s\<lparr>aj_cursor := 8 * Suc k\<rparr>"
  have k: "8 * k < aj_total s" using Suc.prems(3) by simp
  show ?case
  proof (cases m)
    case 0
    then have "aj_total s = 8 * Suc k" using Suc.prems(3) by simp
    then show ?thesis using serve_step [OF Suc.prems(1,2) k] 0 by (simp add: n)
  next
    case (Suc m')
    have w: "writing ?t" using Suc.prems(1) by (simp add: writing_def)
    have "serve snapshot n' ?t = (map (chunk_write ?t) [Suc k..<Suc k + m], OS_ATA_JOB_FLUSH_DONE,
        snd (done_image (\<lambda>_. False) OS_ATA_JOB_WRITE (?t\<lparr>aj_cursor := aj_total ?t\<rparr>)))"
      using Suc.prems Suc w n by (intro Suc.IH) simp_all
    moreover have "chunk_write ?t = chunk_write s" by (simp add: chunk_write_def job_lba_def fun_eq_iff)
    moreover have "8 * Suc k < aj_total s" using Suc.prems(3) Suc by simp
    ultimately show ?thesis using serve_step [OF Suc.prems(1,2) k, of snapshot n'] by (simp add: n upt_conv_Cons Suc del: upt_Suc)
  qed
qed simp

lemma concat_chunks: "concat (map (\<lambda>k. take n (drop (n * k) xs)) [0..<m]) = take (n * m) xs"
proof (induction m)
  case (Suc m)
  then show ?case by (simp add: take_add add.commute [of n])
qed simp

lemma geometry_total: "aj_total (job_geometry s) = 64 \<or> aj_total (job_geometry s) = 192"
  by (simp add: job_geometry_def)


definition idle_job :: ata_job where
  "idle_job = ata_job_init \<lparr>aj_claim_pid = 0, aj_buf = replicate ATA_JOB_SNAPSHOT_BYTES 0, aj_total = 64, aj_ext_lba = 0,
     aj_flush_dirty = False, aj_load_pending = False, aj_active_op = 0, aj_cursor = 0, aj_generation = 0, aj_ov_generation = 0,
     aj_load_invalid = False, aj_client_min_lba = 64, aj_slave_locked = False, aj_stats = zero_stats, aj_handed = ATA_HANDED_NONE,
     aj_io_state = ATA_IO_NONE, aj_io_op = 0, aj_io_drive = 0, aj_io_lba = 0, aj_io_count = 0, aj_io_gen = 0,
     aj_io_buf = replicate 4096 0, aj_io_flags = 0, aj_debug_crash_armed = False, aj_boot_mount_deferred = False,
     aj_slave_present = False\<rparr>"

text \<open>An image of the extended format: magic, version 4, extension at LBA 5000, 128 sectors.\<close>

definition demo_image :: "u8 list" where
  "demo_image = enc32 0x564F4941 @ enc32 4 @ enc32 0 @ enc32 0 @ enc32 5000 @ enc32 128 @ replicate 98280 7"

lemma demo_geometry: "job_geometry (s\<lparr>aj_buf := demo_image\<rparr>) = s\<lparr>aj_buf := demo_image, aj_ext_lba := 5000, aj_total := 192\<rparr>"
  by (simp add: job_geometry_def demo_image_def)


subsection \<open>What has to reach the disk\<close>

datatype ata_call = Flush | Load | Submit u32 u32 nat bool "u8 list option" | Fetch "u8 list option" bool "nat option"
  | Done "os_ata_job option" int "u8 list option" | Take "nat option" | Cancel | Claim pid pid | Release pid | Gone

fun ata_step :: "(u8 list \<Rightarrow> bool) \<Rightarrow> ata_call \<Rightarrow> ata_job \<Rightarrow> rc \<times> ata_job" where
  "ata_step restore Flush s = (0, ata_job_request_flush s)"
| "ata_step restore Load s = (0, ata_job_request_load s)"
| "ata_step restore (Submit drive lba n write data) s = ata_job_io_submit drive lba n write data s"
| "ata_step restore (Fetch snapshot wanted capacity) s = (case ata_job_fetch snapshot wanted capacity s of (v, _, s') \<Rightarrow> (v, s'))"
| "ata_step restore (Done job status data) s = ata_job_done restore job status data s"
| "ata_step restore (Take capacity) s = (case ata_job_io_take capacity s of (v, _, s') \<Rightarrow> (v, s'))"
| "ata_step restore Cancel s = (0, ata_job_io_cancel s)"
| "ata_step restore (Claim p live) s = ata_owner_claim p live s"
| "ata_step restore (Release p) s = ata_owner_release p s"
| "ata_step restore Gone s = (case ata_job_driver_gone s of (b, s') \<Rightarrow> (if b then 1 else 0, s'))"

definition unsaved :: "ata_job \<Rightarrow> bool" where
  "unsaved s \<longleftrightarrow> aj_flush_dirty s \<or> aj_active_op s = OS_ATA_JOB_WRITE"

lemma unsaved_stats [simp]: "unsaved (upd_stats f s) = unsaved s"
  by (simp add: unsaved_def upd_stats_def)

lemma unsaved_fetch: "ata_job_fetch snapshot wanted capacity s = (v, out, s') \<Longrightarrow> unsaved s \<Longrightarrow> unsaved s'"
  by (auto simp: ata_job_fetch_def fetch_begin_def unsaved_def job_geometry_def split: if_splits option.splits)

lemma geometry_frame [simp]: "aj_flush_dirty (job_geometry s) = aj_flush_dirty s" "aj_active_op (job_geometry s) = aj_active_op s"
  by (simp_all add: job_geometry_def)

lemma unsaved_image:
  "done_image restore (aj_active_op t) t = (v, s') \<Longrightarrow> unsaved t \<Longrightarrow> v \<noteq> OS_ATA_JOB_FLUSH_DONE \<Longrightarrow> unsaved s'"
  by (auto simp: done_image_def Let_def unsaved_def upd_stats_def split: if_splits)

lemma unsaved_chunk:
  assumes "done_chunk restore j status data s = (v, s')" and "unsaved s" and "v \<noteq> OS_ATA_JOB_FLUSH_DONE"
  shows "unsaved s'"
proof (cases "(aj_handed s \<noteq> ATA_HANDED_OVERLAY \<or> aj_active_op s = OS_ATA_JOB_NONE) \<or> \<not> chunk_matches j s \<or> status \<noteq> 0 \<or>
    aj_active_op s = OS_ATA_JOB_READ \<and> (case data of None \<Rightarrow> True | Some d \<Rightarrow> length d < chunk_count s * 512)")
  case True
  then show ?thesis using assms by (auto simp: done_chunk_def Let_def unsaved_def upd_stats_def split: if_splits)
next
  case False
  then have f: "aj_handed s = ATA_HANDED_OVERLAY" "(aj_active_op s = OS_ATA_JOB_NONE) = False" "chunk_matches j s" "status = 0"
    "(aj_active_op s = OS_ATA_JOB_READ \<and> (case data of None \<Rightarrow> True | Some d \<Rightarrow> length d < chunk_count s * 512)) = False"
    by blast+
  define t2 where "t2 = (if aj_active_op s = OS_ATA_JOB_READ then s\<lparr>aj_handed := ATA_HANDED_NONE, aj_buf := take (aj_cursor s * 512) (aj_buf s) @
    take (chunk_count s * 512) (the data) @ drop (aj_cursor s * 512 + chunk_count s * 512) (aj_buf s)\<rparr> else s\<lparr>aj_handed := ATA_HANDED_NONE\<rparr>)"
  define t3 where "t3 = t2\<lparr>aj_cursor := aj_cursor s + chunk_count s\<rparr>"
  define t where "t = (if aj_active_op s = OS_ATA_JOB_READ \<and> aj_cursor t3 = OS_ATA_OVERLAY_SECTORS then job_geometry t3 else t3)"
  have t: "aj_active_op t = aj_active_op s" "aj_flush_dirty t = aj_flush_dirty s" by (simp_all add: t_def t3_def t2_def)
  have "done_chunk restore j status data s =
      (if aj_cursor t < aj_total t then (OS_ATA_JOB_CHUNK_OK, t) else done_image restore (aj_active_op t) t)"
    unfolding done_chunk_def Let_def t(1) unfolding t_def t3_def t2_def by (simp only: f simp_thms if_True if_False not_True_eq_False)
  then show ?thesis using assms t unsaved_image [of restore t v s'] by (auto simp: unsaved_def split: if_splits)
qed

lemma unsaved_done:
  assumes "ata_job_done restore job status data s = (v, s')" and "unsaved s" and "v \<noteq> OS_ATA_JOB_FLUSH_DONE"
  shows "unsaved s'"
proof (cases job)
  case (Some j)
  show ?thesis
  proof (cases "aj_handed s = ATA_HANDED_IO")
    case True
    then have "done_io j status data s = (v, s')" using assms(1) by (simp add: ata_job_done_def Some)
    then show ?thesis using assms(2) by (auto simp: done_io_def Let_def unsaved_def upd_stats_def split: if_splits)
  next
    case False
    then have "done_chunk restore j status data s = (v, s')" using assms(1) by (simp add: ata_job_done_def Some)
    then show ?thesis using unsaved_chunk assms(2,3) by blast
  qed
qed (use assms in \<open>simp add: ata_job_done_def\<close>)

text \<open>
  A change that has to reach the disk is never forgotten. As long as a flush is queued or being
  written, every call of the queue keeps it so, except the completion that answers FLUSH_DONE,
  and the loss of the driver, which reports to its caller that the kernel must write it.
\<close>

theorem flush_not_forgotten:
  assumes "unsaved s" and "ata_step restore c s = (v, s')"
  shows "unsaved s' \<or> (\<exists>job status data. c = Done job status data \<and> v = OS_ATA_JOB_FLUSH_DONE) \<or> (c = Gone \<and> v = 1)"
proof (cases c)
  case (Fetch snapshot wanted capacity)
  then show ?thesis using assms unsaved_fetch by (auto split: prod.splits)
next
  case (Done job status data)
  then show ?thesis using assms unsaved_done by auto
qed (use assms in \<open>auto simp: ata_job_request_flush_def ata_job_request_load_def ata_job_io_submit_def ata_job_io_take_def
  ata_job_io_cancel_def ata_owner_claim_def ata_owner_holder_def ata_owner_release_def ata_job_driver_gone_def Let_def
  upd_stats_def unsaved_def split: if_splits option.splits\<close>)

theorem flush_not_forgotten_witness:
  "fst (ata_step (\<lambda>_. True) Gone (ata_job_request_flush idle_job)) = 1 \<and> unsaved (snd (ata_step (\<lambda>_. True) Cancel (ata_job_request_flush idle_job)))"
proof -
  have u: "unsaved (ata_job_request_flush idle_job)" by (simp add: unsaved_def ata_job_request_flush_def)
  have "\<not> unsaved (snd (ata_step (\<lambda>_. True) Gone (ata_job_request_flush idle_job)))"
    by (simp add: ata_job_driver_gone_def Let_def unsaved_def upd_stats_def ata_job_request_flush_def idle_job_def ata_job_init_def)
  then show ?thesis
    using flush_not_forgotten [OF u surjective_pairing, of "\<lambda>_. True" Gone] flush_not_forgotten [OF u surjective_pairing, of "\<lambda>_. True" Cancel]
    by simp
qed

subsection \<open>Sector jobs\<close>

text \<open>
  A sector job is a round trip. A read that is submitted, fetched and completed by the driver
  gives its caller exactly the bytes the driver read, and a write hands the driver exactly the
  caller's bytes; once a job is cancelled, completing it late is answered with STALE and changes
  nothing.
\<close>

theorem io_job_roundtrip:
  assumes "aj_handed s = ATA_HANDED_NONE" and "ata_job_io_submit drive lba n write data s = (0, s1)"
    and "ata_job_fetch snapshot True (Some 4096) s1 = (v, out, s2)"
  shows "v = 1 \<and> (\<exists>job d. out = Some (job, d) \<and> oj_drive job = drive \<and> oj_lba job = lba \<and> oj_count job = n \<and>
    (write \<and> n * 512 \<le> length (the data) \<longrightarrow> d = take (n * 512) (the data)) \<and>
    (\<not> write \<and> n * 512 \<le> length got \<and> n * 512 \<le> c \<longrightarrow>
      (case ata_job_done restore (Some job) 0 (Some got) s2 of
         (w, s3) \<Rightarrow> w = OS_ATA_JOB_IO_DONE \<and> fst (ata_job_io_take (Some c) s3) = 0 \<and>
           fst (snd (ata_job_io_take (Some c) s3)) = Some (take (n * 512) got))) \<and>
    ata_job_done restore (Some job) status reply (ata_job_io_cancel s2) = (OS_ATA_JOB_STALE, ata_job_io_cancel s2))"
proof -
  have sub: "n \<le> 8" "aj_io_state s1 = ATA_IO_PENDING" "aj_handed s1 = ATA_HANDED_NONE" "aj_io_drive s1 = drive" "aj_io_lba s1 = lba"
    "aj_io_count s1 = n" "aj_io_op s1 = (if write then OS_ATA_JOB_IO_WRITE else OS_ATA_JOB_IO_READ)"
    "write \<Longrightarrow> aj_io_buf s1 = take (n * 512) (the data) @ drop (n * 512) (aj_io_buf s)"
    using assms(1,2) by (auto simp: ata_job_io_submit_def Let_def split: if_splits)
  let ?job = "\<lparr>oj_op = aj_io_op s1, oj_drive = drive, oj_lba = lba, oj_count = n, oj_generation = aj_io_gen s1, oj_flags = aj_io_flags s1\<rparr>"
  let ?d = "if write then take (n * 512) (aj_io_buf s1) else []"
  have f: "v = 1" "out = Some (?job, ?d)" "s2 = s1\<lparr>aj_io_state := ATA_IO_HANDED, aj_handed := ATA_HANDED_IO\<rparr>"
    using assms(3) sub by (auto simp: ata_job_fetch_def split: if_splits)
  have m: "io_matches ?job s2" using sub by (simp add: io_matches_def f(3))
  have "ata_job_done restore (Some ?job) status reply (ata_job_io_cancel s2) = (OS_ATA_JOB_STALE, ata_job_io_cancel s2)"
    by (simp add: ata_job_io_cancel_def f(3) upd_stats_def ata_job_done_def done_chunk_def)
  moreover have "case ata_job_done restore (Some ?job) 0 (Some got) s2 of
      (w, s3) \<Rightarrow> w = OS_ATA_JOB_IO_DONE \<and> fst (ata_job_io_take (Some c) s3) = 0 \<and>
        fst (snd (ata_job_io_take (Some c) s3)) = Some (take (n * 512) got)" if "\<not> write" "n * 512 \<le> length got" "n * 512 \<le> c"
    using that m sub(6,7) by (simp add: ata_job_done_def done_io_def Let_def f(3) upd_stats_def ata_job_io_take_def)
  ultimately show ?thesis using f(1,2) sub(8) by auto
qed

definition reading_job :: ata_job where
  "reading_job = snd (ata_job_io_submit 0 5000 1 False None idle_job)"

definition reading_fetch :: "rc \<times> (os_ata_job \<times> u8 list) option \<times> ata_job" where
  "reading_fetch = ata_job_fetch None True (Some 4096) reading_job"

theorem io_job_roundtrip_witness:
  "\<exists>job d. fst (snd reading_fetch) = Some (job, d) \<and> oj_lba job = 5000 \<and>
     fst (snd (ata_job_io_take (Some 512) (snd (ata_job_done (\<lambda>_. True) (Some job) 0 (Some (replicate 512 3)) (snd (snd reading_fetch)))))) =
       Some (replicate 512 3)"
proof -
  have h: "aj_handed idle_job = ATA_HANDED_NONE" by (simp add: idle_job_def ata_job_init_def)
  have s: "ata_job_io_submit 0 5000 1 False None idle_job = (0, reading_job)"
    by (simp add: reading_job_def ata_job_io_submit_def idle_job_def ata_job_init_def)
  have f: "ata_job_fetch None True (Some 4096) reading_job = (fst reading_fetch, fst (snd reading_fetch), snd (snd reading_fetch))"
    by (simp add: reading_fetch_def)
  show ?thesis
    using io_job_roundtrip [OF h s f, of "replicate 512 3" 512 "\<lambda>_. True" 0 None] by (auto simp: case_prod_beta)
qed

end
