(* ===== verification/Ata_Fsop.thy ===== *)
theory Ata_Fsop
  imports Ata_Job
begin

text \<open>
  The slot for one file system operation served by the disk driver task (\<open>ata_fsop.c\<close>): the kernel
  fills the request buffer and submits, the driver fetches, notes its progress, publishes the
  overlay image and answers, the caller takes the answer. Lengths are naturals; a buffer argument
  is an option (NULL) whose list has the length passed along. \<open>fo_result\<close> is a 32-bit signed value.
\<close>

abbreviation (input) OS_ATA_JOB_FS_OP :: u32 where "OS_ATA_JOB_FS_OP \<equiv> 7"
abbreviation (input) OS_ATA_JOB_FS_DONE :: rc where "OS_ATA_JOB_FS_DONE \<equiv> 6"
abbreviation (input) OS_ATA_FS_STORE_ALL :: u32 where "OS_ATA_FS_STORE_ALL \<equiv> 7"
abbreviation (input) OS_ATA_FS_NOTE_SECTOR_WRITTEN :: u32 where "OS_ATA_FS_NOTE_SECTOR_WRITTEN \<equiv> 1"
abbreviation (input) OS_ATA_FS_NOTE_PERSISTED :: u32 where "OS_ATA_FS_NOTE_PERSISTED \<equiv> 2"
abbreviation (input) OS_ATA_FS_NOTE_PERSIST_FAILED :: u32 where "OS_ATA_FS_NOTE_PERSIST_FAILED \<equiv> 3"
abbreviation (input) OS_ATA_FSOP_BUFFER_SIZE :: nat where "OS_ATA_FSOP_BUFFER_SIZE \<equiv> 8192"
abbreviation (input) ATA_FSOP_MIRROR_BYTES :: nat where "ATA_FSOP_MIRROR_BYTES \<equiv> 98304"
abbreviation (input) ATA_FSOP_SNAP_MAGIC :: u32 where "ATA_FSOP_SNAP_MAGIC \<equiv> 0x564F4941"
abbreviation (input) REQUEST_HEADER :: nat where "REQUEST_HEADER \<equiv> 32"
abbreviation (input) REPLY_HEADER :: nat where "REPLY_HEADER \<equiv> 16"

datatype fsop_state = ATA_FSOP_FREE | ATA_FSOP_SUBMITTED | ATA_FSOP_FETCHED | ATA_FSOP_DONE | ATA_FSOP_ABORTED

record os_ata_fsop_reply =
  rp_result :: int
  rp_out_len :: nat
  rp_sectors_read :: u32
  rp_sectors_written :: u32

record fsop =
  fo_store_flags :: u32
  fo_store_pid :: pid
  fo_state :: fsop_state
  fo_generation :: u32
  fo_op :: u32
  fo_flags :: u32
  fo_driver_pid :: pid
  fo_req_len :: nat
  fo_req :: "u8 list"
  fo_out :: "u8 list"
  fo_reply :: os_ata_fsop_reply
  fo_committed :: bool
  fo_published :: bool
  fo_published_result :: int
  fo_mirror :: "u8 list"
  fo_mirror_size :: nat
  fo_ops :: u32
  fo_kernel_live :: u32
  fo_aborts :: u32
  fo_redone :: u32
  fo_unavailable :: u32
  fo_publishes :: u32
  fo_handovers :: u32
  fo_restores :: u32
  fo_persisted :: u32
  fo_sectors_read :: u32
  fo_sectors_written :: u32

definition fsop_copy :: "u8 list \<Rightarrow> u8 list \<Rightarrow> nat \<Rightarrow> u8 list" where
  "fsop_copy dst src n = take n src @ drop n dst"

definition ata_fsop_init :: "fsop \<Rightarrow> fsop" where
  "ata_fsop_init s = s\<lparr>fo_store_flags := 0, fo_store_pid := 0, fo_state := ATA_FSOP_FREE, fo_generation := 0, fo_op := 0,
     fo_flags := 0, fo_driver_pid := 0, fo_req_len := 0, fo_committed := False, fo_published := False, fo_published_result := 0,
     fo_mirror_size := 0, fo_ops := 0, fo_kernel_live := 0, fo_aborts := 0, fo_redone := 0, fo_unavailable := 0,
     fo_publishes := 0, fo_handovers := 0, fo_restores := 0, fo_persisted := 0, fo_sectors_read := 0, fo_sectors_written := 0\<rparr>"

definition ata_fsop_store_ready :: "pid \<Rightarrow> u32 \<Rightarrow> fsop \<Rightarrow> rc \<times> fsop" where
  "ata_fsop_store_ready driver_pid flags s =
     (if driver_pid \<le> 0 \<or> flags AND NOT OS_ATA_FS_STORE_ALL \<noteq> 0 then (- 1, s)
      else (0, s\<lparr>fo_store_pid := driver_pid, fo_store_flags := flags\<rparr>))"

definition ata_fsop_store_drop :: "fsop \<Rightarrow> fsop" where
  "ata_fsop_store_drop s = s\<lparr>fo_store_pid := 0, fo_store_flags := 0\<rparr>"

definition ata_fsop_store_flags :: "pid \<Rightarrow> fsop \<Rightarrow> u32" where
  "ata_fsop_store_flags live s = (if live \<le> 0 \<or> live \<noteq> fo_store_pid s then 0 else fo_store_flags s)"

text \<open>What the kernel writes through \<open>ata_fsop_request_buffer\<close>.\<close>

definition fill_request :: "u8 list \<Rightarrow> fsop \<Rightarrow> fsop" where
  "fill_request bytes s = s\<lparr>fo_req := fsop_copy (fo_req s) bytes (length bytes)\<rparr>"

definition ata_fsop_submit :: "nat \<Rightarrow> u32 \<Rightarrow> pid \<Rightarrow> u32 \<Rightarrow> fsop \<Rightarrow> rc \<times> fsop" where
  "ata_fsop_submit len oper driver_pid flags s =
     (if fo_state s \<noteq> ATA_FSOP_FREE \<or> driver_pid \<le> 0 \<or> len < REQUEST_HEADER \<or> len > OS_ATA_FSOP_BUFFER_SIZE then (- 1, s)
      else let g = (if fo_generation s + 1 = 0 then 1 else fo_generation s + 1)
        in (sint g, s\<lparr>fo_generation := g, fo_state := ATA_FSOP_SUBMITTED, fo_op := oper, fo_flags := flags,
              fo_driver_pid := driver_pid, fo_req_len := len, fo_committed := False, fo_published := False,
              fo_published_result := 0, fo_reply := \<lparr>rp_result = - 1, rp_out_len = 0, rp_sectors_read = 0, rp_sectors_written = 0\<rparr>\<rparr>))"

definition fsop_live :: "pid \<Rightarrow> u32 \<Rightarrow> fsop \<Rightarrow> bool" where
  "fsop_live p g s \<longleftrightarrow> p > 0 \<and> p = fo_driver_pid s \<and> g = fo_generation s \<and>
     (fo_state s = ATA_FSOP_SUBMITTED \<or> fo_state s = ATA_FSOP_FETCHED)"

definition ata_fsop_fetch :: "pid \<Rightarrow> os_ata_job option \<Rightarrow> fsop \<Rightarrow> rc \<times> os_ata_job option \<times> fsop" where
  "ata_fsop_fetch p job s =
     (case job of
        None \<Rightarrow> (0, job, s)
      | Some _ \<Rightarrow>
          if fo_state s \<noteq> ATA_FSOP_SUBMITTED \<or> p \<noteq> fo_driver_pid s then (0, job, s)
          else (1, Some \<lparr>oj_op = OS_ATA_JOB_FS_OP, oj_drive = 0, oj_lba = fo_op s, oj_count = 0,
                  oj_generation = fo_generation s, oj_flags = fo_flags s\<rparr>, s\<lparr>fo_state := ATA_FSOP_FETCHED\<rparr>))"

definition ata_fsop_copy_request :: "pid \<Rightarrow> u32 \<Rightarrow> u8 list option \<Rightarrow> fsop \<Rightarrow> rc \<times> u8 list option" where
  "ata_fsop_copy_request p g dst s =
     (case dst of
        None \<Rightarrow> (OS_ATA_JOB_STALE, dst)
      | Some d \<Rightarrow>
          if fo_state s \<noteq> ATA_FSOP_FETCHED \<or> \<not> fsop_live p g s \<or> length d < fo_req_len s then (OS_ATA_JOB_STALE, dst)
          else (int (fo_req_len s), Some (fsop_copy d (fo_req s) (fo_req_len s))))"

definition ata_fsop_note :: "pid \<Rightarrow> u32 \<Rightarrow> u32 \<Rightarrow> fsop \<Rightarrow> rc \<times> fsop" where
  "ata_fsop_note p g kind s =
     (if kind = OS_ATA_FS_NOTE_PERSISTED \<or> kind = OS_ATA_FS_NOTE_PERSIST_FAILED
      then (if \<not> fsop_live p g s then (OS_ATA_JOB_STALE, s)
            else (0, if kind = OS_ATA_FS_NOTE_PERSISTED then s\<lparr>fo_persisted := fo_persisted s + 1\<rparr> else s))
      else if kind \<noteq> OS_ATA_FS_NOTE_SECTOR_WRITTEN \<or> \<not> fsop_live p g s then (OS_ATA_JOB_STALE, s)
      else (0, s\<lparr>fo_committed := True\<rparr>))"

definition ata_fsop_publish :: "pid \<Rightarrow> u32 \<Rightarrow> u8 list option \<Rightarrow> int \<Rightarrow> fsop \<Rightarrow> rc \<times> fsop" where
  "ata_fsop_publish p g im result s =
     (case im of
        None \<Rightarrow> (OS_ATA_JOB_STALE, s)
      | Some img \<Rightarrow>
          if \<not> fsop_live p g s \<or> length img < 16 \<or> length img > ATA_FSOP_MIRROR_BYTES then (OS_ATA_JOB_STALE, s)
          else if dec32 img \<noteq> ATA_FSOP_SNAP_MAGIC then (OS_ATA_JOB_STALE, s)
          else (0, s\<lparr>fo_mirror := fsop_copy (fo_mirror s) img (length img), fo_mirror_size := length img, fo_published := True,
                 fo_published_result := result, fo_publishes := fo_publishes s + 1\<rparr>))"

definition reply_of :: "u8 list \<Rightarrow> os_ata_fsop_reply" where
  "reply_of b = \<lparr>rp_result = dec_i32 b, rp_out_len = unat (dec32 (drop 4 b)), rp_sectors_read = dec32 (drop 8 b),
     rp_sectors_written = dec32 (drop 12 b)\<rparr>"

text \<open>The field \<open>out_cap\<close> of the request in the buffer.\<close>

definition request_out_cap :: "fsop \<Rightarrow> nat" where
  "request_out_cap s = unat (dec32 (drop 28 (fo_req s)))"

definition ata_fsop_done :: "pid \<Rightarrow> u32 \<Rightarrow> u8 list option \<Rightarrow> fsop \<Rightarrow> rc \<times> fsop" where
  "ata_fsop_done p g reply s =
     (case reply of
        None \<Rightarrow> (OS_ATA_JOB_STALE, s)
      | Some b \<Rightarrow>
          if fo_state s \<noteq> ATA_FSOP_FETCHED \<or> \<not> fsop_live p g s \<or> length b < REPLY_HEADER then (OS_ATA_JOB_STALE, s)
          else let r = reply_of b
            in if rp_out_len r > request_out_cap s \<or> rp_out_len r > OS_ATA_FSOP_BUFFER_SIZE \<or>
                  rp_out_len r > length b - REPLY_HEADER then (OS_ATA_JOB_STALE, s)
               else (OS_ATA_JOB_FS_DONE, s\<lparr>fo_out := fsop_copy (fo_out s) (drop REPLY_HEADER b) (rp_out_len r), fo_reply := r,
                      fo_state := ATA_FSOP_DONE, fo_ops := fo_ops s + 1, fo_sectors_read := fo_sectors_read s + rp_sectors_read r,
                      fo_sectors_written := fo_sectors_written s + rp_sectors_written r\<rparr>))"

text \<open>\<open>reply\<close> tells whether the caller passed a place for the header.\<close>

definition ata_fsop_take :: "u8 list option \<Rightarrow> bool \<Rightarrow> fsop \<Rightarrow> rc \<times> u8 list option \<times> os_ata_fsop_reply option \<times> fsop" where
  "ata_fsop_take out reply s =
     (if fo_state s \<noteq> ATA_FSOP_DONE \<or> \<not> reply then (- 1, out, None, s)
      else if rp_out_len (fo_reply s) > (case out of None \<Rightarrow> 0 | Some d \<Rightarrow> length d) \<or> rp_out_len (fo_reply s) \<noteq> 0 \<and> out = None
      then (- 1, out, None, s\<lparr>fo_state := ATA_FSOP_FREE\<rparr>)
      else (0, map_option (\<lambda>d. fsop_copy d (fo_out s) (rp_out_len (fo_reply s))) out, Some (fo_reply s),
            s\<lparr>fo_state := ATA_FSOP_FREE\<rparr>))"

definition ata_fsop_abort :: "fsop \<Rightarrow> fsop" where
  "ata_fsop_abort s =
     (if fo_state s \<noteq> ATA_FSOP_SUBMITTED \<and> fo_state s \<noteq> ATA_FSOP_FETCHED then s
      else s\<lparr>fo_state := ATA_FSOP_ABORTED, fo_aborts := fo_aborts s + 1\<rparr>)"

text \<open>\<open>None\<close> when nothing was published.\<close>

definition ata_fsop_published :: "fsop \<Rightarrow> int option" where
  "ata_fsop_published s = (if \<not> fo_published s then None else Some (fo_published_result s))"

definition ata_fsop_release :: "fsop \<Rightarrow> fsop" where
  "ata_fsop_release s = (if fo_state s = ATA_FSOP_ABORTED \<or> fo_state s = ATA_FSOP_DONE then s\<lparr>fo_state := ATA_FSOP_FREE\<rparr> else s)"

definition ata_fsop_mirror_set :: "u8 list option \<Rightarrow> fsop \<Rightarrow> rc \<times> fsop" where
  "ata_fsop_mirror_set im s =
     (case im of
        None \<Rightarrow> (- 1, s)
      | Some img \<Rightarrow>
          if length img < 16 \<or> length img > ATA_FSOP_MIRROR_BYTES then (- 1, s)
          else (0, s\<lparr>fo_mirror := fsop_copy (fo_mirror s) img (length img), fo_mirror_size := length img\<rparr>))"

definition ata_fsop_mirror_commit :: "nat \<Rightarrow> fsop \<Rightarrow> rc \<times> fsop" where
  "ata_fsop_mirror_commit n s =
     (if n < 16 \<or> n > ATA_FSOP_MIRROR_BYTES then (- 1, s\<lparr>fo_mirror_size := 0\<rparr>) else (0, s\<lparr>fo_mirror_size := n\<rparr>))"

definition ata_fsop_mirror :: "fsop \<Rightarrow> u8 list option" where
  "ata_fsop_mirror s = (if fo_mirror_size s \<noteq> 0 then Some (take (fo_mirror_size s) (fo_mirror s)) else None)"

definition ata_fsop_note_kernel_live :: "fsop \<Rightarrow> fsop" where
  "ata_fsop_note_kernel_live s = s\<lparr>fo_kernel_live := fo_kernel_live s + 1\<rparr>"

definition ata_fsop_note_redone :: "fsop \<Rightarrow> fsop" where
  "ata_fsop_note_redone s = s\<lparr>fo_redone := fo_redone s + 1\<rparr>"

definition ata_fsop_note_unavailable :: "fsop \<Rightarrow> fsop" where
  "ata_fsop_note_unavailable s = s\<lparr>fo_unavailable := fo_unavailable s + 1\<rparr>"

definition ata_fsop_note_handover :: "fsop \<Rightarrow> fsop" where
  "ata_fsop_note_handover s = s\<lparr>fo_handovers := fo_handovers s + 1\<rparr>"

definition ata_fsop_note_restore :: "fsop \<Rightarrow> fsop" where
  "ata_fsop_note_restore s = s\<lparr>fo_restores := fo_restores s + 1\<rparr>"

subsection \<open>One operation\<close>

text \<open>What any task may call while the operation is under way, and the kernel's abort.\<close>

datatype fsop_call =
    Fetch pid
  | Copy_request pid u32 "u8 list option"
  | Note pid u32 u32
  | Publish pid u32 "u8 list option" int
  | Answer pid u32 "u8 list option"
  | Abort

definition blank_job :: os_ata_job where
  "blank_job = \<lparr>oj_op = 0, oj_drive = 0, oj_lba = 0, oj_count = 0, oj_generation = 0, oj_flags = 0\<rparr>"

fun fsop_apply :: "fsop_call \<Rightarrow> fsop \<Rightarrow> fsop" where
  "fsop_apply (Fetch p) s = snd (snd (ata_fsop_fetch p (Some blank_job) s))"
| "fsop_apply (Copy_request p g d) s = s"
| "fsop_apply (Note p g kind) s = snd (ata_fsop_note p g kind s)"
| "fsop_apply (Publish p g img r) s = snd (ata_fsop_publish p g img r s)"
| "fsop_apply (Answer p g b) s = snd (ata_fsop_done p g b s)"
| "fsop_apply Abort s = ata_fsop_abort s"

text \<open>An answer that fits the request.\<close>

definition answer_fits :: "u8 list \<Rightarrow> nat \<Rightarrow> bool" where
  "answer_fits b cap \<longleftrightarrow> REPLY_HEADER \<le> length b \<and> rp_out_len (reply_of b) \<le> min cap (min OS_ATA_FSOP_BUFFER_SIZE (length b - REPLY_HEADER))"


definition slot_of :: "fsop \<Rightarrow> pid \<times> u32 \<times> u8 list" where
  "slot_of s = (fo_driver_pid s, fo_generation s, fo_req s)"

text \<open>What is known of a slot after some calls.\<close>

definition slot_ok :: "fsop_call list \<Rightarrow> fsop \<Rightarrow> bool" where
  "slot_ok ops s \<longleftrightarrow> fo_state s \<noteq> ATA_FSOP_FREE \<and>
     (fo_state s = ATA_FSOP_DONE \<longrightarrow> (\<exists>b. Answer (fo_driver_pid s) (fo_generation s) (Some b) \<in> set ops \<and>
        answer_fits b (request_out_cap s) \<and> fo_reply s = reply_of b \<and>
        take (rp_out_len (reply_of b)) (fo_out s) = take (rp_out_len (reply_of b)) (drop REPLY_HEADER b)))"

lemma done_cases:
  "ata_fsop_done p g reply s = (OS_ATA_JOB_STALE, s) \<or>
   (\<exists>b. reply = Some b \<and> fo_state s = ATA_FSOP_FETCHED \<and> p = fo_driver_pid s \<and> g = fo_generation s \<and>
      answer_fits b (request_out_cap s) \<and> fst (ata_fsop_done p g reply s) = OS_ATA_JOB_FS_DONE \<and>
      fo_reply (snd (ata_fsop_done p g reply s)) = reply_of b \<and>
      fo_out (snd (ata_fsop_done p g reply s)) = fsop_copy (fo_out s) (drop REPLY_HEADER b) (rp_out_len (reply_of b)) \<and>
      fo_state (snd (ata_fsop_done p g reply s)) = ATA_FSOP_DONE \<and> slot_of (snd (ata_fsop_done p g reply s)) = slot_of s)"
  unfolding ata_fsop_done_def Let_def
  by (auto simp: fsop_live_def answer_fits_def slot_of_def not_less split: option.splits)

lemma slot_okI:
  assumes "slot_ok ops s" "slot_of s' = slot_of s" "fo_reply s' = fo_reply s" "fo_out s' = fo_out s"
    and "fo_state s' = fo_state s \<or> fo_state s' \<in> {ATA_FSOP_FETCHED, ATA_FSOP_ABORTED}"
  shows "slot_ok (ops @ [c]) s'"
proof -
  have "fo_driver_pid s' = fo_driver_pid s" "fo_generation s' = fo_generation s" "request_out_cap s' = request_out_cap s"
    using assms(2) by (auto simp: slot_of_def request_out_cap_def)
  with assms show ?thesis unfolding slot_ok_def by auto
qed

lemma slot_call:
  assumes "slot_ok ops s"
  shows "slot_ok (ops @ [c]) (fsop_apply c s) \<and> slot_of (fsop_apply c s) = slot_of s"
proof (cases c)
  case (Answer p g reply)
  show ?thesis
    using done_cases [of p g reply s]
  proof (elim disjE exE)
    assume "ata_fsop_done p g reply s = (OS_ATA_JOB_STALE, s)"
    with assms Answer show ?thesis by (auto intro: slot_okI)
  next
    fix b assume b: "reply = Some b \<and> fo_state s = ATA_FSOP_FETCHED \<and> p = fo_driver_pid s \<and> g = fo_generation s \<and>
      answer_fits b (request_out_cap s) \<and> fst (ata_fsop_done p g reply s) = OS_ATA_JOB_FS_DONE \<and>
      fo_reply (snd (ata_fsop_done p g reply s)) = reply_of b \<and>
      fo_out (snd (ata_fsop_done p g reply s)) = fsop_copy (fo_out s) (drop REPLY_HEADER b) (rp_out_len (reply_of b)) \<and>
      fo_state (snd (ata_fsop_done p g reply s)) = ATA_FSOP_DONE \<and> slot_of (snd (ata_fsop_done p g reply s)) = slot_of s"
    have "rp_out_len (reply_of b) \<le> length (drop 16 b)" using b by (simp add: answer_fits_def)
    then have "take (rp_out_len (reply_of b)) (fsop_copy (fo_out s) (drop 16 b) (rp_out_len (reply_of b))) =
        take (rp_out_len (reply_of b)) (drop 16 b)"
      by (simp add: fsop_copy_def)
    with b Answer show ?thesis by (auto simp: slot_ok_def slot_of_def request_out_cap_def)
  qed
qed (use assms in \<open>auto simp: ata_fsop_fetch_def ata_fsop_note_def ata_fsop_publish_def ata_fsop_abort_def slot_of_def
  intro!: slot_okI [OF assms] split: option.splits\<close>)

lemma slot_run: "slot_ok pre s \<Longrightarrow> slot_ok (pre @ ops) (fold fsop_apply ops s) \<and> slot_of (fold fsop_apply ops s) = slot_of s"
proof (induction ops arbitrary: pre s)
  case (Cons c ops)
  from Cons.IH [of "pre @ [c]" "fsop_apply c s"] slot_call [OF Cons.prems, of c] show ?case by simp
qed simp

text \<open>
  C27. Once a file system operation is submitted to a driver, whatever calls follow, from any
  task, in any order and with any data: what the caller takes is the answer of that driver to
  that request, byte for byte, with no more output than the caller asked for; no other task and
  no answer to another request can complete the operation; and after an abort every late answer
  is refused and changes nothing.
\<close>

theorem fsop_answer_authentic:
  assumes "fo_state s0 = ATA_FSOP_FREE" "ata_fsop_submit len oper p flags s0 = (r0, s1)" "r0 \<noteq> - 1"
  shows "let s = fold fsop_apply ops s1; t = ata_fsop_take (Some buf) True s
    in (fst t = 0 \<longrightarrow> (\<exists>b. Answer p (fo_generation s1) (Some b) \<in> set ops \<and> answer_fits b (request_out_cap s1) \<and>
          fst (snd (snd t)) = Some (reply_of b) \<and>
          fst (snd t) = Some (take (rp_out_len (reply_of b)) (drop REPLY_HEADER b) @ drop (rp_out_len (reply_of b)) buf))) \<and>
       (fst (ata_fsop_done q g reply s) = OS_ATA_JOB_FS_DONE \<longrightarrow> q = p \<and> g = fo_generation s1) \<and>
       (fo_state s = ATA_FSOP_ABORTED \<longrightarrow> ata_fsop_done q g reply s = (OS_ATA_JOB_STALE, s))"
proof -
  have s1: "fo_driver_pid s1 = p" "fo_state s1 = ATA_FSOP_SUBMITTED"
    using assms by (auto simp: ata_fsop_submit_def Let_def split: if_splits)
  define s where "s = fold fsop_apply ops s1"
  have "slot_ok [] s1" by (simp add: slot_ok_def s1)
  from slot_run [OF this, of ops] have ok: "slot_ok ops s" and same: "slot_of s = slot_of s1" by (simp_all add: s_def)
  have ids: "fo_driver_pid s = p" "fo_generation s = fo_generation s1" "request_out_cap s = request_out_cap s1"
    using same s1 by (auto simp: slot_of_def request_out_cap_def)
  define t where "t = ata_fsop_take (Some buf) True s"
  have "\<exists>b. Answer p (fo_generation s1) (Some b) \<in> set ops \<and> answer_fits b (request_out_cap s1) \<and>
      fst (snd (snd t)) = Some (reply_of b) \<and>
      fst (snd t) = Some (take (rp_out_len (reply_of b)) (drop REPLY_HEADER b) @ drop (rp_out_len (reply_of b)) buf)"
    if "fst t = 0"
  proof -
    have "fo_state s = ATA_FSOP_DONE" using that by (auto simp: t_def ata_fsop_take_def split: if_splits)
    then obtain b where b: "Answer p (fo_generation s1) (Some b) \<in> set ops" "answer_fits b (request_out_cap s1)" "fo_reply s = reply_of b"
      "take (rp_out_len (reply_of b)) (fo_out s) = take (rp_out_len (reply_of b)) (drop REPLY_HEADER b)"
      using ok ids by (auto simp: slot_ok_def)
    then show ?thesis using that by (auto simp: t_def ata_fsop_take_def fsop_copy_def split: if_splits)
  qed
  moreover have "fst (ata_fsop_done q g reply s) = OS_ATA_JOB_FS_DONE \<longrightarrow> q = p \<and> g = fo_generation s1"
    using done_cases [of q g reply s] ids by auto
  moreover have "fo_state s = ATA_FSOP_ABORTED \<longrightarrow> ata_fsop_done q g reply s = (OS_ATA_JOB_STALE, s)"
    using done_cases [of q g reply s] by auto
  ultimately show ?thesis by (simp add: Let_def s_def t_def)
qed


definition idle_fsop :: fsop where
  "idle_fsop = \<lparr>fo_store_flags = 0, fo_store_pid = 0, fo_state = ATA_FSOP_FREE, fo_generation = 0, fo_op = 0, fo_flags = 0,
     fo_driver_pid = 0, fo_req_len = 0, fo_req = replicate 28 0 @ enc32 4, fo_out = [],
     fo_reply = \<lparr>rp_result = 0, rp_out_len = 0, rp_sectors_read = 0, rp_sectors_written = 0\<rparr>, fo_committed = False,
     fo_published = False, fo_published_result = 0, fo_mirror = [], fo_mirror_size = 0, fo_ops = 0, fo_kernel_live = 0,
     fo_aborts = 0, fo_redone = 0, fo_unavailable = 0, fo_publishes = 0, fo_handovers = 0, fo_restores = 0, fo_persisted = 0,
     fo_sectors_read = 0, fo_sectors_written = 0\<rparr>"

theorem fsop_answer_authentic_witness:
  "let s1 = snd (ata_fsop_submit 32 17 5 0 idle_fsop);
       ops = [Fetch 5, Answer 6 1 None, Answer 5 1 (Some (enc_i32 2 @ enc32 2 @ enc32 0 @ enc32 0 @ [7, 9]))];
       t = ata_fsop_take (Some [0, 0, 0, 0]) True (fold fsop_apply ops s1)
   in fst t = 0 \<and> (\<exists>b. Answer 5 (fo_generation s1) (Some b) \<in> set ops \<and> answer_fits b (request_out_cap s1) \<and>
        fst (snd (snd t)) = Some (reply_of b))"
proof -
  define s1 where "s1 = snd (ata_fsop_submit 32 17 5 0 idle_fsop)"
  define ops where "ops = [Fetch 5, Answer 6 1 None, Answer 5 1 (Some (enc_i32 2 @ enc32 2 @ enc32 0 @ enc32 0 @ [7, 9]))]"
  have sub: "ata_fsop_submit 32 17 5 0 idle_fsop = (1, s1)" unfolding s1_def by code_simp
  have ok: "fst (ata_fsop_take (Some [0, 0, 0, 0]) True (fold fsop_apply ops s1)) = 0"
    unfolding s1_def ops_def by code_simp
  have "fo_state idle_fsop = ATA_FSOP_FREE" "(1 :: int) \<noteq> - 1" by (simp_all add: idle_fsop_def)
  from fsop_answer_authentic [OF this(1) sub this(2), of ops "[0, 0, 0, 0]" 6 1 None] ok
  show ?thesis unfolding s1_def [symmetric] ops_def [symmetric] by (auto simp: Let_def)
qed

end
