(* ===== verification/Device_Service.thy ===== *)
theory Device_Service
  imports Ring
begin

text \<open>
  The bookkeeping of the keyboard, serial, screen and USB drivers that run as user tasks
  (\<open>device_service.c\<close>), with the kernel's serial output on top of it (\<open>write_serial\<close> and
  \<open>serial_ring0_flush\<close> of \<open>kernel.c\<close>).

  The positions of the serial ring are naturals below its size, a power of two, so that masking
  is reduction modulo 8192. The flags held in \<open>uint32_t\<close> fields are booleans. The bytes that reach
  the port from the kernel are a list, oldest first.
\<close>

abbreviation (input) DEVICE_RESPAWN_LIMIT :: u32 where "DEVICE_RESPAWN_LIMIT \<equiv> 4"
abbreviation (input) DEVICE_STALL_TICKS :: u32 where "DEVICE_STALL_TICKS \<equiv> 5"
abbreviation (input) DEVICE_INFLIGHT_STALE :: u32 where "DEVICE_INFLIGHT_STALE \<equiv> 50"
abbreviation (input) DEVICE_SERIAL_RING :: nat where "DEVICE_SERIAL_RING \<equiv> 8192"
abbreviation (input) DEVSVC_SERIAL_BATCH :: nat where "DEVSVC_SERIAL_BATCH \<equiv> 64"
abbreviation (input) DEV_PS2 :: int where "DEV_PS2 \<equiv> 0"
abbreviation (input) DEV_SERIAL :: int where "DEV_SERIAL \<equiv> 1"
abbreviation (input) DEV_VGA :: int where "DEV_VGA \<equiv> 2"
abbreviation (input) DEV_USB :: int where "DEV_USB \<equiv> 3"
abbreviation (input) DEV_COUNT :: int where "DEV_COUNT \<equiv> 4"
abbreviation (input) DEVSVC_QUEUED :: rc where "DEVSVC_QUEUED \<equiv> 0"
abbreviation (input) DEVSVC_DIRECT :: rc where "DEVSVC_DIRECT \<equiv> 1"
abbreviation (input) DEVSVC_FLUSH :: rc where "DEVSVC_FLUSH \<equiv> 2"
abbreviation (input) DEVSVC_W_PS2_DRAIN :: u32 where "DEVSVC_W_PS2_DRAIN \<equiv> 1"
abbreviation (input) DEVSVC_W_SERIAL_FLUSH :: u32 where "DEVSVC_W_SERIAL_FLUSH \<equiv> 2"
abbreviation (input) DEVSVC_W_CHECK_OWNERS :: u32 where "DEVSVC_W_CHECK_OWNERS \<equiv> 4"
abbreviation (input) DEVSVC_W_VGA_REPAINT :: u32 where "DEVSVC_W_VGA_REPAINT \<equiv> 8"

record dev_owner =
  do_owner :: pid
  do_handed_off :: bool
  do_respawns :: u32

record dev_ps2 =
  ps_seq :: u32
  ps_served_seq :: u32
  ps_pending_since :: u32
  ps_pending :: bool
  ps_irqs :: u32
  ps_events :: u32
  ps_ring0_bytes :: u32
  ps_stalls :: u32
  ps_last_progress :: u32

record dev_ser =
  se_ring :: "u8 list"
  se_head :: nat
  se_tail :: nat
  se_inflight :: bool
  se_inflight_since :: u32
  se_last_take :: u32
  se_ring3_bytes :: u32
  se_ring0_bytes :: u32
  se_stalls :: u32
  se_overflows :: u32
  se_rx_bytes :: u32

record dev_vga =
  vg_pending :: bool
  vg_pending_since :: u32
  vg_seq :: u32
  vg_ring3_frames :: u32
  vg_ring0_frames :: u32
  vg_stalls :: u32

record dev_usb =
  us_present :: bool
  us_tds :: u32
  us_rejected :: u32
  us_reports :: u32
  us_stops :: u32
  us_done :: bool

record devsvc =
  dv_dev :: "dev_owner list"
  dv_ps2 :: dev_ps2
  dv_ser :: dev_ser
  dv_vga :: dev_vga
  dv_usb :: dev_usb
  dv_last_owner_check :: u32

definition zero_owner :: dev_owner where
  "zero_owner = \<lparr>do_owner = 0, do_handed_off = False, do_respawns = 0\<rparr>"

definition devsvc_reset :: devsvc where
  "devsvc_reset = \<lparr>dv_dev = replicate 4 zero_owner,
     dv_ps2 = \<lparr>ps_seq = 0, ps_served_seq = 0, ps_pending_since = 0, ps_pending = False, ps_irqs = 0, ps_events = 0,
       ps_ring0_bytes = 0, ps_stalls = 0, ps_last_progress = 0\<rparr>,
     dv_ser = \<lparr>se_ring = replicate DEVICE_SERIAL_RING 0, se_head = 0, se_tail = 0, se_inflight = False, se_inflight_since = 0,
       se_last_take = 0, se_ring3_bytes = 0, se_ring0_bytes = 0, se_stalls = 0, se_overflows = 0, se_rx_bytes = 0\<rparr>,
     dv_vga = \<lparr>vg_pending = False, vg_pending_since = 0, vg_seq = 0, vg_ring3_frames = 0, vg_ring0_frames = 0, vg_stalls = 0\<rparr>,
     dv_usb = \<lparr>us_present = False, us_tds = 0, us_rejected = 0, us_reports = 0, us_stops = 0, us_done = False\<rparr>,
     dv_last_owner_check = 0\<rparr>"

definition dev_valid :: "int \<Rightarrow> bool" where
  "dev_valid dev \<longleftrightarrow> 0 \<le> dev \<and> dev < DEV_COUNT"

definition dev_at :: "int \<Rightarrow> devsvc \<Rightarrow> dev_owner" where
  "dev_at dev s = dv_dev s ! nat dev"

definition upd_dev :: "int \<Rightarrow> (dev_owner \<Rightarrow> dev_owner) \<Rightarrow> devsvc \<Rightarrow> devsvc" where
  "upd_dev dev f s = s\<lparr>dv_dev := (dv_dev s)[nat dev := f (dev_at dev s)]\<rparr>"

definition upd_ps2 :: "(dev_ps2 \<Rightarrow> dev_ps2) \<Rightarrow> devsvc \<Rightarrow> devsvc" where
  "upd_ps2 f s = s\<lparr>dv_ps2 := f (dv_ps2 s)\<rparr>"

definition upd_ser :: "(dev_ser \<Rightarrow> dev_ser) \<Rightarrow> devsvc \<Rightarrow> devsvc" where
  "upd_ser f s = s\<lparr>dv_ser := f (dv_ser s)\<rparr>"

definition upd_vga :: "(dev_vga \<Rightarrow> dev_vga) \<Rightarrow> devsvc \<Rightarrow> devsvc" where
  "upd_vga f s = s\<lparr>dv_vga := f (dv_vga s)\<rparr>"

definition upd_usb :: "(dev_usb \<Rightarrow> dev_usb) \<Rightarrow> devsvc \<Rightarrow> devsvc" where
  "upd_usb f s = s\<lparr>dv_usb := f (dv_usb s)\<rparr>"

subsection \<open>Owners\<close>

definition devsvc_set_owner :: "int \<Rightarrow> pid \<Rightarrow> devsvc \<Rightarrow> devsvc" where
  "devsvc_set_owner dev p s =
     (if \<not> dev_valid dev then s
      else
        let s1 = upd_dev dev (\<lambda>d. d\<lparr>do_owner := p, do_handed_off := (if p > 0 then True else do_handed_off d)\<rparr>) s
        in if dev = DEV_PS2 then upd_ps2 (\<lambda>x. x\<lparr>ps_pending := False\<rparr>) s1
           else if dev = DEV_SERIAL then upd_ser (\<lambda>x. x\<lparr>se_inflight := False\<rparr>) s1
           else if dev = DEV_VGA then upd_vga (\<lambda>x. x\<lparr>vg_pending := p > 0\<rparr>) s1
           else s1)"

definition devsvc_owner :: "int \<Rightarrow> devsvc \<Rightarrow> pid" where
  "devsvc_owner dev s = (if dev_valid dev then do_owner (dev_at dev s) else 0)"

definition devsvc_owner_gone :: "int \<Rightarrow> devsvc \<Rightarrow> devsvc" where
  "devsvc_owner_gone dev s =
     (if \<not> dev_valid dev then s
      else
        let s1 = upd_dev dev (\<lambda>d. d\<lparr>do_owner := 0\<rparr>) s
        in if dev = DEV_SERIAL then upd_ser (\<lambda>x. x\<lparr>se_inflight := False\<rparr>) s1
           else if dev = DEV_VGA then upd_vga (\<lambda>x. x\<lparr>vg_pending := False\<rparr>) s1
           else if dev = DEV_USB then upd_usb (\<lambda>x. x\<lparr>us_done := False\<rparr>) s1
           else s1)"

definition devsvc_handed_off :: "int \<Rightarrow> devsvc \<Rightarrow> bool" where
  "devsvc_handed_off dev s = (if dev_valid dev then do_handed_off (dev_at dev s) else False)"

definition devsvc_should_respawn :: "int \<Rightarrow> bool \<Rightarrow> devsvc \<Rightarrow> bool" where
  "devsvc_should_respawn dev pending_alive s =
     (if \<not> dev_valid dev then False
      else if do_owner (dev_at dev s) > 0 \<or> pending_alive then False
      else if \<not> do_handed_off (dev_at dev s) then False
      else do_respawns (dev_at dev s) < DEVICE_RESPAWN_LIMIT)"

definition devsvc_note_respawn :: "int \<Rightarrow> devsvc \<Rightarrow> devsvc" where
  "devsvc_note_respawn dev s = (if dev_valid dev then upd_dev dev (\<lambda>d. d\<lparr>do_respawns := do_respawns d + 1\<rparr>) s else s)"

subsection \<open>Keyboard\<close>

definition devsvc_ps2_irq :: "u32 \<Rightarrow> devsvc \<Rightarrow> u32 \<times> devsvc" where
  "devsvc_ps2_irq now s =
     (let x = dv_ps2 s;
          y = x\<lparr>ps_seq := ps_seq x + 1, ps_irqs := ps_irqs x + 1\<rparr>;
          z = (if \<not> ps_pending y then y\<lparr>ps_pending := True, ps_pending_since := now\<rparr> else y)
      in (ps_seq z, s\<lparr>dv_ps2 := z\<rparr>))"

definition devsvc_ps2_seq :: "devsvc \<Rightarrow> u32" where
  "devsvc_ps2_seq s = ps_seq (dv_ps2 s)"

definition devsvc_ps2_served :: "u32 \<Rightarrow> u32 \<Rightarrow> u32 \<Rightarrow> devsvc \<Rightarrow> bool \<times> devsvc" where
  "devsvc_ps2_served sq events now s =
     (let x = dv_ps2 s; y = x\<lparr>ps_events := ps_events x + events, ps_last_progress := now\<rparr>
      in if sq \<noteq> ps_seq y then (False, s\<lparr>dv_ps2 := (if ps_pending y then y\<lparr>ps_pending_since := now\<rparr> else y)\<rparr>)
         else (True, s\<lparr>dv_ps2 := y\<lparr>ps_served_seq := sq, ps_pending := False\<rparr>\<rparr>))"

definition devsvc_ps2_pending :: "devsvc \<Rightarrow> bool" where
  "devsvc_ps2_pending s = ps_pending (dv_ps2 s)"

definition devsvc_ps2_note_ring0 :: "u32 \<Rightarrow> devsvc \<Rightarrow> devsvc" where
  "devsvc_ps2_note_ring0 n = upd_ps2 (\<lambda>x. x\<lparr>ps_ring0_bytes := ps_ring0_bytes x + n\<rparr>)"

subsection \<open>Serial line\<close>

definition devsvc_serial_put :: "u8 \<Rightarrow> devsvc \<Rightarrow> rc \<times> devsvc" where
  "devsvc_serial_put c s =
     (let x = dv_ser s; next = (se_head x + 1) mod DEVICE_SERIAL_RING
      in if do_owner (dev_at DEV_SERIAL s) \<le> 0 then (if se_head x = se_tail x then DEVSVC_DIRECT else DEVSVC_FLUSH, s)
         else if next = se_tail x then (DEVSVC_FLUSH, s)
         else (DEVSVC_QUEUED, s\<lparr>dv_ser := x\<lparr>se_ring := (se_ring x)[se_head x := c], se_head := next\<rparr>\<rparr>))"

definition devsvc_serial_queued :: "devsvc \<Rightarrow> nat" where
  "devsvc_serial_queued s = (se_head (dv_ser s) + DEVICE_SERIAL_RING - se_tail (dv_ser s)) mod DEVICE_SERIAL_RING"

text \<open>The loop of \<open>devsvc_serial_take\<close>, for at most \<open>n\<close> bytes.\<close>

fun take_loop :: "nat \<Rightarrow> dev_ser \<Rightarrow> u8 list \<times> dev_ser" where
  "take_loop 0 x = ([], x)"
| "take_loop (Suc n) x =
     (if se_tail x = se_head x then ([], x)
      else (case take_loop n (x\<lparr>se_tail := (se_tail x + 1) mod DEVICE_SERIAL_RING\<rparr>) of
              (bs, y) \<Rightarrow> (se_ring x ! se_tail x # bs, y)))"

definition devsvc_serial_take :: "nat option \<Rightarrow> u32 \<Rightarrow> devsvc \<Rightarrow> u8 list \<times> devsvc" where
  "devsvc_serial_take cap now s =
     (let x = (dv_ser s)\<lparr>se_inflight := False, se_last_take := now\<rparr>
      in (case take_loop (case cap of None \<Rightarrow> 0 | Some n \<Rightarrow> n) x of
            (bs, y) \<Rightarrow> (bs, s\<lparr>dv_ser := (if bs \<noteq> [] then y\<lparr>se_inflight := True, se_inflight_since := now,
               se_ring3_bytes := se_ring3_bytes y + word_of_nat (length bs)\<rparr> else y)\<rparr>)))"

definition devsvc_serial_done :: "u32 \<Rightarrow> devsvc \<Rightarrow> devsvc" where
  "devsvc_serial_done now = upd_ser (\<lambda>x. x\<lparr>se_inflight := False, se_last_take := now\<rparr>)"

definition devsvc_serial_pop_ring0 :: "devsvc \<Rightarrow> (u8 \<times> devsvc) option" where
  "devsvc_serial_pop_ring0 s =
     (let x = dv_ser s
      in if se_tail x = se_head x then None
         else Some (se_ring x ! se_tail x,
           s\<lparr>dv_ser := x\<lparr>se_tail := (se_tail x + 1) mod DEVICE_SERIAL_RING, se_ring0_bytes := se_ring0_bytes x + 1\<rparr>\<rparr>))"

definition devsvc_serial_note_overflow :: "devsvc \<Rightarrow> devsvc" where
  "devsvc_serial_note_overflow = upd_ser (\<lambda>x. x\<lparr>se_overflows := se_overflows x + 1\<rparr>)"

definition devsvc_serial_note_rx :: "u32 \<Rightarrow> devsvc \<Rightarrow> devsvc" where
  "devsvc_serial_note_rx n = upd_ser (\<lambda>x. x\<lparr>se_rx_bytes := se_rx_bytes x + n\<rparr>)"

text \<open>
  \<open>serial_ring0_flush\<close> pops until the ring is empty. A ring holds fewer than 8192 bytes, so that
  many rounds are enough.
\<close>

fun flush_loop :: "nat \<Rightarrow> devsvc \<Rightarrow> u8 list \<times> devsvc" where
  "flush_loop 0 s = ([], s)"
| "flush_loop (Suc n) s =
     (case devsvc_serial_pop_ring0 s of
        None \<Rightarrow> ([], s)
      | Some (c, s1) \<Rightarrow> (case flush_loop n s1 of (cs, s2) \<Rightarrow> (c # cs, s2)))"

definition serial_ring0_flush :: "devsvc \<Rightarrow> u8 list \<times> devsvc" where
  "serial_ring0_flush s = flush_loop DEVICE_SERIAL_RING s"

text \<open>\<open>panic\<close> is \<open>g_serial_panic\<close>. The list holds the bytes the kernel itself sends to the port.\<close>

definition write_serial :: "bool \<Rightarrow> u8 \<Rightarrow> devsvc \<Rightarrow> u8 list \<times> devsvc" where
  "write_serial panic a s =
     (if panic then (case serial_ring0_flush s of (cs, s1) \<Rightarrow> (cs @ [a], s1))
      else (case devsvc_serial_put a s of
         (v, s1) \<Rightarrow>
           if v = DEVSVC_FLUSH then
             (case serial_ring0_flush (if devsvc_owner DEV_SERIAL s1 > 0 then devsvc_serial_note_overflow s1 else s1) of
                (cs, s2) \<Rightarrow> (case devsvc_serial_put a s2 of
                   (w, s3) \<Rightarrow> (if w = DEVSVC_DIRECT then cs @ [a] else cs, s3)))
           else if v = DEVSVC_DIRECT then ([a], s1)
           else ([], s1)))"

subsection \<open>Scheduling hints and watchdog\<close>

definition devsvc_wants_cpu :: "int \<Rightarrow> u32 \<Rightarrow> devsvc \<Rightarrow> bool" where
  "devsvc_wants_cpu dev now s =
     (if \<not> dev_valid dev \<or> do_owner (dev_at dev s) \<le> 0 then False
      else if dev = DEV_PS2 then ps_pending (dv_ps2 s)
      else if dev = DEV_VGA then vg_pending (dv_vga s) \<and> now - vg_pending_since (dv_vga s) \<ge> 2
      else if dev = DEV_USB then us_done (dv_usb s)
      else if se_head (dv_ser s) = se_tail (dv_ser s) \<or> se_inflight (dv_ser s) then False
      else devsvc_serial_queued s \<ge> DEVSVC_SERIAL_BATCH \<or> now - se_last_take (dv_ser s) \<ge> 2)"

definition watchdog_ps2 :: "u32 \<Rightarrow> devsvc \<Rightarrow> u32 \<times> devsvc" where
  "watchdog_ps2 now s =
     (if do_owner (dev_at DEV_PS2 s) > 0 \<and> ps_pending (dv_ps2 s) \<and> now - ps_pending_since (dv_ps2 s) \<ge> DEVICE_STALL_TICKS
      then (DEVSVC_W_PS2_DRAIN, upd_ps2 (\<lambda>x. x\<lparr>ps_stalls := ps_stalls x + 1, ps_pending := False\<rparr>) s)
      else (0, s))"

definition watchdog_serial :: "u32 \<Rightarrow> devsvc \<Rightarrow> u32 \<times> devsvc" where
  "watchdog_serial now s =
     (let x = dv_ser s
      in if se_head x = se_tail x then (0, s)
         else if do_owner (dev_at DEV_SERIAL s) \<le> 0 then (DEVSVC_W_SERIAL_FLUSH, s)
         else if se_inflight x then
           (0, if now - se_inflight_since x \<ge> DEVICE_INFLIGHT_STALE
               then s\<lparr>dv_ser := x\<lparr>se_stalls := se_stalls x + 1, se_inflight_since := now\<rparr>\<rparr> else s)
         else if now - se_last_take x \<ge> DEVICE_STALL_TICKS
         then (DEVSVC_W_SERIAL_FLUSH, s\<lparr>dv_ser := x\<lparr>se_stalls := se_stalls x + 1\<rparr>\<rparr>)
         else (0, s))"

definition watchdog_vga :: "u32 \<Rightarrow> devsvc \<Rightarrow> u32 \<times> devsvc" where
  "watchdog_vga now s =
     (if do_owner (dev_at DEV_VGA s) > 0 \<and> vg_pending (dv_vga s) \<and> now - vg_pending_since (dv_vga s) \<ge> DEVICE_STALL_TICKS
      then (DEVSVC_W_VGA_REPAINT, upd_vga (\<lambda>x. x\<lparr>vg_stalls := vg_stalls x + 1, vg_pending := False\<rparr>) s)
      else (0, s))"

definition watchdog_owners :: "u32 \<Rightarrow> devsvc \<Rightarrow> u32 \<times> devsvc" where
  "watchdog_owners now s =
     (if now - dv_last_owner_check s \<ge> 10
      then (if \<exists>dev\<in>{DEV_PS2, DEV_SERIAL, DEV_VGA, DEV_USB}. do_owner (dev_at dev s) > 0 then DEVSVC_W_CHECK_OWNERS else 0,
            s\<lparr>dv_last_owner_check := now\<rparr>)
      else (0, s))"

definition devsvc_watchdog :: "u32 \<Rightarrow> devsvc \<Rightarrow> u32 \<times> devsvc" where
  "devsvc_watchdog now s =
     (case watchdog_ps2 now s of (a, s1) \<Rightarrow>
      case watchdog_serial now s1 of (b, s2) \<Rightarrow>
      case watchdog_vga now s2 of (c, s3) \<Rightarrow>
      case watchdog_owners now s3 of (d, s4) \<Rightarrow> (a OR b OR c OR d, s4))"

subsection \<open>Screen and USB\<close>

definition devsvc_vga_present :: "u32 \<Rightarrow> devsvc \<Rightarrow> rc \<times> devsvc" where
  "devsvc_vga_present now s =
     (let x = (dv_vga s)\<lparr>vg_seq := vg_seq (dv_vga s) + 1\<rparr>; d = dev_at DEV_VGA s
      in if do_owner d \<le> 0 then
           (DEVSVC_DIRECT, s\<lparr>dv_vga := (if do_handed_off d then x\<lparr>vg_ring0_frames := vg_ring0_frames x + 1\<rparr> else x)\<rparr>)
         else (DEVSVC_QUEUED, s\<lparr>dv_vga := (if \<not> vg_pending x then x\<lparr>vg_pending := True, vg_pending_since := now\<rparr> else x)\<rparr>))"

definition devsvc_vga_pending :: "devsvc \<Rightarrow> bool" where
  "devsvc_vga_pending s = vg_pending (dv_vga s)"

definition devsvc_vga_take :: "devsvc \<Rightarrow> bool \<times> devsvc" where
  "devsvc_vga_take s =
     (if \<not> vg_pending (dv_vga s) \<or> do_owner (dev_at DEV_VGA s) \<le> 0 then (False, s)
      else (True, upd_vga (\<lambda>x. x\<lparr>vg_pending := False, vg_ring3_frames := vg_ring3_frames x + 1\<rparr>) s))"

definition devsvc_vga_note_ring0 :: "devsvc \<Rightarrow> devsvc" where
  "devsvc_vga_note_ring0 = upd_vga (\<lambda>x. x\<lparr>vg_ring0_frames := vg_ring0_frames x + 1\<rparr>)"

definition devsvc_usb_set_present :: "bool \<Rightarrow> devsvc \<Rightarrow> devsvc" where
  "devsvc_usb_set_present b = upd_usb (\<lambda>x. x\<lparr>us_present := b\<rparr>)"

definition devsvc_usb_note_td :: "bool \<Rightarrow> devsvc \<Rightarrow> devsvc" where
  "devsvc_usb_note_td accepted = upd_usb (\<lambda>x. if accepted then x\<lparr>us_tds := us_tds x + 1\<rparr> else x\<lparr>us_rejected := us_rejected x + 1\<rparr>)"

definition devsvc_usb_note_report :: "devsvc \<Rightarrow> devsvc" where
  "devsvc_usb_note_report = upd_usb (\<lambda>x. x\<lparr>us_reports := us_reports x + 1\<rparr>)"

definition devsvc_usb_note_stop :: "devsvc \<Rightarrow> devsvc" where
  "devsvc_usb_note_stop = upd_usb (\<lambda>x. x\<lparr>us_stops := us_stops x + 1\<rparr>)"

definition devsvc_usb_set_done :: "bool \<Rightarrow> devsvc \<Rightarrow> devsvc" where
  "devsvc_usb_set_done b s = upd_usb (\<lambda>x. x\<lparr>us_done := b \<and> do_owner (dev_at DEV_USB s) > 0\<rparr>) s"

subsection \<open>The order of serial output\<close>

text \<open>
  What touches the output queue: a byte written by the kernel, a chunk taken by the driver, the
  driver's acknowledgement, a change of owner, the watchdog's tick, which flushes when it is told
  to, and a flush of its own.
\<close>

datatype serial_evt =
    Write_byte bool u8
  | Take_chunk "nat option" u32
  | Chunk_done u32
  | New_owner int pid
  | Owner_lost int
  | Tick u32
  | Flush_ring

definition watchdog_flush :: "u32 \<Rightarrow> devsvc \<Rightarrow> u8 list \<times> devsvc" where
  "watchdog_flush now s =
     (case devsvc_watchdog now s of
        (act, s1) \<Rightarrow> if act AND DEVSVC_W_SERIAL_FLUSH \<noteq> 0 then serial_ring0_flush s1 else ([], s1))"

fun serial_step :: "serial_evt \<Rightarrow> devsvc \<Rightarrow> u8 list \<times> devsvc" where
  "serial_step (Write_byte panic c) s = write_serial panic c s"
| "serial_step (Take_chunk cap now) s = devsvc_serial_take cap now s"
| "serial_step (Chunk_done now) s = ([], devsvc_serial_done now s)"
| "serial_step (New_owner dev p) s = ([], devsvc_set_owner dev p s)"
| "serial_step (Owner_lost dev) s = ([], devsvc_owner_gone dev s)"
| "serial_step (Tick now) s = watchdog_flush now s"
| "serial_step Flush_ring s = serial_ring0_flush s"

text \<open>The bytes that leave the kernel over a run, for the port or for the driver, oldest first.\<close>

fun serial_run :: "serial_evt list \<Rightarrow> devsvc \<Rightarrow> u8 list \<times> devsvc" where
  "serial_run [] s = ([], s)"
| "serial_run (e # es) s = (case serial_step e s of (out, s1) \<Rightarrow> case serial_run es s1 of (rest, s2) \<Rightarrow> (out @ rest, s2))"

fun written :: "serial_evt \<Rightarrow> u8 list" where
  "written (Write_byte panic c) = [c]"
| "written e = []"

definition ser_ok :: "dev_ser \<Rightarrow> bool" where
  "ser_ok x \<longleftrightarrow> length (se_ring x) = DEVICE_SERIAL_RING \<and> se_head x < DEVICE_SERIAL_RING \<and> se_tail x < DEVICE_SERIAL_RING"

definition ser_len :: "dev_ser \<Rightarrow> nat" where
  "ser_len x = (se_head x + DEVICE_SERIAL_RING - se_tail x) mod DEVICE_SERIAL_RING"

definition ser_view :: "dev_ser \<Rightarrow> u8 list" where
  "ser_view x = ring_view DEVICE_SERIAL_RING (se_ring x) (se_tail x) (ser_len x)"

definition ser_send :: "u8 \<Rightarrow> dev_ser \<Rightarrow> dev_ser option" where
  "ser_send c x = (let next = (se_head x + 1) mod DEVICE_SERIAL_RING
     in if next = se_tail x then None else Some (x\<lparr>se_ring := (se_ring x)[se_head x := c], se_head := next\<rparr>))"

definition ser_recv :: "dev_ser \<Rightarrow> (u8 \<times> dev_ser) option" where
  "ser_recv x = (if se_tail x = se_head x then None
     else Some (se_ring x ! se_tail x, x\<lparr>se_tail := (se_tail x + 1) mod DEVICE_SERIAL_RING\<rparr>))"

lemma ser_len_0 [simp]: "ser_ok x \<Longrightarrow> ser_len x = 0 \<longleftrightarrow> se_head x = se_tail x"
  by (auto simp: ser_ok_def ser_len_def mod_if)

lemma ser_len_full: "ser_ok x \<Longrightarrow> ser_len x = 8191 \<longleftrightarrow> (se_head x + 1) mod 8192 = se_tail x"
  by (auto simp: ser_ok_def ser_len_def mod_if)

lemma ser_len_head: "ser_ok x \<Longrightarrow> (se_tail x + ser_len x) mod 8192 = se_head x"
  by (auto simp: ser_ok_def ser_len_def mod_if)

lemma ser_len_less [simp]: "ser_len x < 8192"
  by (simp add: ser_len_def)

lemma ser_view_Nil: "ser_ok x \<Longrightarrow> ser_view x = [] \<longleftrightarrow> se_head x = se_tail x"
  using length_ring_view [of 8192 "se_ring x" "se_tail x" "ser_len x"] by (simp add: ser_view_def flip: length_0_conv)

lemma ser_send_None: "ser_ok x \<Longrightarrow> ser_send c x = None \<longleftrightarrow> ser_len x = 8191"
  by (simp add: ser_send_def Let_def ser_len_full)

lemma ser_send_Some:
  assumes "ser_ok x" "ser_len x < 8191"
  shows "\<exists>y. ser_send c x = Some y \<and> ser_ok y \<and> ser_view y = ser_view x @ [c]"
proof -
  define y where "y = x\<lparr>se_ring := (se_ring x)[se_head x := c], se_head := (se_head x + 1) mod 8192\<rparr>"
  have "ser_send c x = Some y"
    using ser_len_full [OF assms(1)] assms(2) by (simp add: ser_send_def y_def Let_def)
  moreover have ok: "ser_ok y" using assms(1) by (simp add: ser_ok_def y_def)
  moreover have len: "ser_len y = Suc (ser_len x)"
    using assms by (auto simp: ser_ok_def ser_len_def y_def mod_if split: if_splits)
  have "ser_view y = ring_view 8192 ((se_ring x)[(se_tail x + ser_len x) mod 8192 := c]) (se_tail x) (Suc (ser_len x))"
    unfolding ser_view_def len by (simp add: y_def ser_len_head [OF assms(1)])
  then have "ser_view y = ser_view x @ [c]"
    using ring_view_append [of "ser_len x" 8192 "se_ring x" "se_tail x" c] assms by (simp add: ser_view_def ser_ok_def)
  ultimately show ?thesis by blast
qed

lemma ser_recv_Cons:
  assumes "ser_ok x" "ser_view x = m # ms"
  shows "\<exists>y. ser_recv x = Some (m, y) \<and> ser_ok y \<and> ser_view y = ms"
proof -
  define y where "y = x\<lparr>se_tail := (se_tail x + 1) mod 8192\<rparr>"
  have ne: "se_head x \<noteq> se_tail x" using assms ser_view_Nil [of x] by auto
  then have pos: "0 < ser_len x" by (metis assms(1) gr0I ser_len_0)
  have "ser_ok y" using assms(1) by (simp add: ser_ok_def y_def)
  moreover have "ser_len y = ser_len x - Suc 0"
    using assms(1) ne by (auto simp: ser_ok_def ser_len_def y_def mod_if split: if_splits)
  then have "ser_view y = tl (ser_view x)"
    using ring_view_tl [OF pos, of 8192 "se_ring x" "se_tail x"] by (simp add: ser_view_def y_def)
  moreover have "se_ring x ! se_tail x = m"
    using ring_view_hd [OF pos, of 8192 "se_ring x" "se_tail x"] assms by (simp add: ser_view_def ser_ok_def)
  ultimately show ?thesis using ne assms(2) by (simp add: ser_recv_def y_def)
qed

interpretation serial: bounded_fifo "8191" ser_ok ser_view "\<lambda>c. True" "\<lambda>c. c" ser_send ser_recv
proof unfold_locales
  fix q x m ms assume q: "ser_ok q"
  show "length (ser_view q) \<le> 8191" using ser_len_less [of q] unfolding ser_view_def length_ring_view by linarith
  show "\<exists>q'. ser_send x q = Some q' \<and> ser_ok q' \<and> ser_view q' = ser_view q @ [x]" if "length (ser_view q) < 8191"
    using ser_send_Some [OF q] that by (simp add: ser_view_def)
  show "ser_send x q = None" if "length (ser_view q) = 8191"
    using ser_send_None [OF q] that by (simp add: ser_view_def)
  show "ser_recv q = None" if "ser_view q = []" using q that by (simp add: ser_recv_def ser_view_Nil)
  show "\<exists>q'. ser_recv q = Some (m, q') \<and> ser_ok q' \<and> ser_view q' = ms" if "ser_view q = m # ms"
    by (rule ser_recv_Cons [OF q that])
qed simp


lemma ser_fields [simp]:
  "ser_ok (x\<lparr>se_inflight := b\<rparr>) = ser_ok x" "ser_view (x\<lparr>se_inflight := b\<rparr>) = ser_view x"
  "ser_ok (x\<lparr>se_inflight_since := t\<rparr>) = ser_ok x" "ser_view (x\<lparr>se_inflight_since := t\<rparr>) = ser_view x"
  "ser_ok (x\<lparr>se_last_take := t\<rparr>) = ser_ok x" "ser_view (x\<lparr>se_last_take := t\<rparr>) = ser_view x"
  "ser_ok (x\<lparr>se_ring3_bytes := t\<rparr>) = ser_ok x" "ser_view (x\<lparr>se_ring3_bytes := t\<rparr>) = ser_view x"
  "ser_ok (x\<lparr>se_ring0_bytes := t\<rparr>) = ser_ok x" "ser_view (x\<lparr>se_ring0_bytes := t\<rparr>) = ser_view x"
  "ser_ok (x\<lparr>se_stalls := t\<rparr>) = ser_ok x" "ser_view (x\<lparr>se_stalls := t\<rparr>) = ser_view x"
  "ser_ok (x\<lparr>se_overflows := t\<rparr>) = ser_ok x" "ser_view (x\<lparr>se_overflows := t\<rparr>) = ser_view x"
  by (simp_all add: ser_ok_def ser_view_def ser_len_def)

text \<open>The operations of the driver module are the queue's, with the counters on top.\<close>

lemma serial_put_eq:
  "devsvc_serial_put c s =
     (if do_owner (dev_at DEV_SERIAL s) \<le> 0 then (if se_head (dv_ser s) = se_tail (dv_ser s) then DEVSVC_DIRECT else DEVSVC_FLUSH, s)
      else case ser_send c (dv_ser s) of None \<Rightarrow> (DEVSVC_FLUSH, s) | Some y \<Rightarrow> (DEVSVC_QUEUED, s\<lparr>dv_ser := y\<rparr>))"
  by (simp add: devsvc_serial_put_def ser_send_def Let_def)

lemma pop_ring0_eq:
  "devsvc_serial_pop_ring0 s = (case ser_recv (dv_ser s) of None \<Rightarrow> None
     | Some (c, y) \<Rightarrow> Some (c, s\<lparr>dv_ser := y\<lparr>se_ring0_bytes := se_ring0_bytes (dv_ser s) + 1\<rparr>\<rparr>))"
  by (simp add: devsvc_serial_pop_ring0_def ser_recv_def Let_def)

lemma take_loop_eq:
  "take_loop (Suc n) x = (case ser_recv x of None \<Rightarrow> ([], x)
     | Some (c, y) \<Rightarrow> (case take_loop n y of (bs, z) \<Rightarrow> (c # bs, z)))"
  by (simp add: ser_recv_def)

lemma take_loop_view:
  assumes "ser_ok x"
  shows "fst (take_loop n x) = take n (ser_view x) \<and> ser_ok (snd (take_loop n x)) \<and>
    ser_view (snd (take_loop n x)) = drop n (ser_view x)"
  using assms
proof (induction n arbitrary: x)
  case (Suc n)
  show ?case
  proof (cases "ser_view x")
    case Nil
    with serial.recv_empty [OF Suc.prems Nil] Suc.prems show ?thesis by (simp add: take_loop_eq del: take_loop.simps)
  next
    case (Cons m ms)
    then obtain y where "ser_recv x = Some (m, y)" "ser_ok y" "ser_view y = ms"
      using ser_recv_Cons [OF Suc.prems] by blast
    with Suc.IH [of y] Cons show ?thesis by (simp add: take_loop_eq case_prod_beta del: take_loop.simps)
  qed
qed simp

lemma flush_loop_view:
  assumes "ser_ok (dv_ser s)"
  shows "fst (flush_loop n s) = take n (ser_view (dv_ser s)) \<and> ser_ok (dv_ser (snd (flush_loop n s))) \<and>
    ser_view (dv_ser (snd (flush_loop n s))) = drop n (ser_view (dv_ser s)) \<and> dv_dev (snd (flush_loop n s)) = dv_dev s"
  using assms
proof (induction n arbitrary: s)
  case (Suc n)
  show ?case
  proof (cases "ser_view (dv_ser s)")
    case Nil
    with serial.recv_empty [OF Suc.prems Nil] Suc.prems show ?thesis by (simp add: pop_ring0_eq)
  next
    case (Cons m ms)
    then obtain y where "ser_recv (dv_ser s) = Some (m, y)" "ser_ok y" "ser_view y = ms"
      using ser_recv_Cons [OF Suc.prems] by blast
    with Suc.IH [of "s\<lparr>dv_ser := y\<lparr>se_ring0_bytes := se_ring0_bytes (dv_ser s) + 1\<rparr>\<rparr>"] Cons
    show ?thesis by (simp add: pop_ring0_eq case_prod_beta)
  qed
qed simp

lemma flush_empties:
  assumes "ser_ok (dv_ser s)"
  shows "fst (serial_ring0_flush s) = ser_view (dv_ser s)" "ser_ok (dv_ser (snd (serial_ring0_flush s)))"
    "ser_view (dv_ser (snd (serial_ring0_flush s))) = []" "dv_dev (snd (serial_ring0_flush s)) = dv_dev s"
  using flush_loop_view [OF assms, of 8192] serial.view_bound [OF assms] by (simp_all add: serial_ring0_flush_def)

text \<open>One step of the serial line: the queue and the new bytes leave in order.\<close>

definition in_order :: "devsvc \<Rightarrow> u8 list \<Rightarrow> u8 list \<times> devsvc \<Rightarrow> bool" where
  "in_order s new r \<longleftrightarrow> ser_ok (dv_ser (snd r)) \<and> ser_view (dv_ser s) @ new = fst r @ ser_view (dv_ser (snd r))"

lemma in_order_flush: "ser_ok (dv_ser s) \<Longrightarrow> ser_view (dv_ser s0) = ser_view (dv_ser s) \<Longrightarrow> in_order s0 [] (serial_ring0_flush s)"
  by (simp add: in_order_def flush_empties)

lemma in_order_quiet:
  assumes "ser_ok (dv_ser s) \<Longrightarrow> ser_ok (dv_ser t)" "ser_view (dv_ser t) = ser_view (dv_ser s)" "ser_ok (dv_ser s)"
  shows "in_order s [] ([], t)"
  using assms by (simp add: in_order_def)

lemma in_order_take:
  assumes "ser_ok (dv_ser s)"
  shows "in_order s [] (devsvc_serial_take cap now s)"
  using take_loop_view [of "(dv_ser s)\<lparr>se_inflight := False, se_last_take := now\<rparr>" "case cap of None \<Rightarrow> 0 | Some n \<Rightarrow> n"] assms
  by (auto simp: devsvc_serial_take_def Let_def in_order_def case_prod_beta)

lemma put_after_flush:
  assumes "ser_ok (dv_ser s)" "ser_view (dv_ser s) = []"
  shows "ser_ok (dv_ser (snd (devsvc_serial_put c s)))"
    "(if fst (devsvc_serial_put c s) = DEVSVC_DIRECT then [c] else []) @ ser_view (dv_ser (snd (devsvc_serial_put c s))) = [c]"
proof -
  have h: "se_head (dv_ser s) = se_tail (dv_ser s)" using assms by (simp add: ser_view_Nil)
  obtain y where "ser_send c (dv_ser s) = Some y" "ser_ok y" "ser_view y = [c]"
    using serial.send_room [OF assms(1), of c] assms(2) by auto
  with h assms show "ser_ok (dv_ser (snd (devsvc_serial_put c s)))"
    "(if fst (devsvc_serial_put c s) = DEVSVC_DIRECT then [c] else []) @ ser_view (dv_ser (snd (devsvc_serial_put c s))) = [c]"
    by (simp_all add: serial_put_eq)
qed

lemma in_order_write:
  assumes "ser_ok (dv_ser s)"
  shows "in_order s [c] (write_serial panic c s)"
proof (cases panic)
  case True
  with assms show ?thesis by (simp add: write_serial_def in_order_def case_prod_beta flush_empties)
next
  case False
  define s1 where "s1 = snd (serial_ring0_flush (if devsvc_owner DEV_SERIAL s > 0 then devsvc_serial_note_overflow s else s))"
  have note_ok: "ser_ok (dv_ser (if b then devsvc_serial_note_overflow s else s))"
    "ser_view (dv_ser (if b then devsvc_serial_note_overflow s else s)) = ser_view (dv_ser s)" for b
    using assms by (simp_all add: devsvc_serial_note_overflow_def upd_ser_def)
  have f: "fst (serial_ring0_flush (if devsvc_owner DEV_SERIAL s > 0 then devsvc_serial_note_overflow s else s)) = ser_view (dv_ser s)"
    "ser_ok (dv_ser s1)" "ser_view (dv_ser s1) = []"
    unfolding s1_def using flush_empties [OF note_ok(1)] note_ok(2) by simp_all
  have flushed: "in_order s [c] (let r = devsvc_serial_put c s1 in (if fst r = DEVSVC_DIRECT then ser_view (dv_ser s) @ [c] else ser_view (dv_ser s), snd r))"
    using put_after_flush [OF f(2,3), of c] by (auto simp: in_order_def Let_def split: if_splits)
  consider (direct) "do_owner (dev_at DEV_SERIAL s) \<le> 0" "se_head (dv_ser s) = se_tail (dv_ser s)"
    | (flush) "devsvc_serial_put c s = (DEVSVC_FLUSH, s)"
    | (queued) y where "0 < do_owner (dev_at DEV_SERIAL s)" "ser_send c (dv_ser s) = Some y"
    by (cases "do_owner (dev_at DEV_SERIAL s) \<le> 0"; cases "ser_send c (dv_ser s)";
        cases "se_head (dv_ser s) = se_tail (dv_ser s)") (simp_all add: serial_put_eq)
  then show ?thesis
  proof cases
    case direct
    with False assms ser_view_Nil [OF assms] show ?thesis by (simp add: write_serial_def in_order_def serial_put_eq)
  next
    case flush
    with False flushed f(1) show ?thesis by (simp add: write_serial_def case_prod_beta s1_def Let_def split del: if_split cong: if_cong)
  next
    case queued
    with False serial.send_SomeD [OF assms queued(2)] show ?thesis by (simp add: write_serial_def in_order_def serial_put_eq)
  qed
qed

lemma watchdog_ser:
  "ser_ok (dv_ser (snd (devsvc_watchdog now s))) = ser_ok (dv_ser s)"
  "ser_view (dv_ser (snd (devsvc_watchdog now s))) = ser_view (dv_ser s)"
  by (auto simp: devsvc_watchdog_def watchdog_ps2_def watchdog_serial_def watchdog_vga_def watchdog_owners_def
      Let_def case_prod_beta upd_ps2_def upd_vga_def)

lemma in_order_step:
  assumes "ser_ok (dv_ser s)"
  shows "in_order s (written e) (serial_step e s)"
proof (cases e)
  case (Write_byte panic c)
  with assms in_order_write show ?thesis by simp
next
  case (Take_chunk cap now)
  with assms in_order_take show ?thesis by simp
next
  case (New_owner dev p)
  with assms show ?thesis
    by (auto simp: devsvc_set_owner_def Let_def upd_dev_def upd_ps2_def upd_ser_def upd_vga_def intro!: in_order_quiet)
next
  case (Owner_lost dev)
  with assms show ?thesis
    by (auto simp: devsvc_owner_gone_def Let_def upd_dev_def upd_usb_def upd_ser_def upd_vga_def intro!: in_order_quiet)
next
  case (Tick now)
  with assms watchdog_ser [of now s] show ?thesis
    by (auto simp: watchdog_flush_def case_prod_beta intro!: in_order_quiet in_order_flush)
next
  case Flush_ring
  with assms in_order_flush show ?thesis by simp
qed (use assms in \<open>auto simp: devsvc_serial_done_def upd_ser_def intro!: in_order_quiet\<close>)



end
