(* ===== verification/Io_Bitmap.thy ===== *)
theory Io_Bitmap
  imports Kernel_Prelude
begin

text \<open>
  The I/O permission bitmap of the TSS (\<open>io_bitmap.c\<close>) and the switches that open the ports of
  one device for the running task (\<open>tss_set_*\<close> and the TSS part of \<open>gdt_init\<close> in \<open>gdt.c\<close>).
  A set bit denies the port. The map is a list of bytes, \<open>None\<close> is NULL. The descriptor table
  and the hardware loads of \<open>gdt_init\<close> are not modelled.
\<close>

abbreviation (input) TSS_IO_BITMAP_BYTES :: nat where "TSS_IO_BITMAP_BYTES \<equiv> 8192"

subsection \<open>The bitmap\<close>

definition io_bitmap_deny_all :: "u8 list option \<Rightarrow> nat \<Rightarrow> u8 list option" where
  "io_bitmap_deny_all m len = map_option (\<lambda>bs. replicate len 0xFF @ drop len bs) m"

definition port_byte :: "u16 \<Rightarrow> nat" where
  "port_byte port = unat (drop_bit 3 port)"

definition port_mask :: "u16 \<Rightarrow> u8" where
  "port_mask port = push_bit (unat (port AND 7)) 1"

definition io_bitmap_set_port :: "nat \<Rightarrow> bool \<Rightarrow> u16 \<Rightarrow> u8 list option \<Rightarrow> u8 list option" where
  "io_bitmap_set_port len allow port m =
     (case m of
        None \<Rightarrow> None
      | Some bs \<Rightarrow>
          if port_byte port \<ge> len then m
          else Some (bs[port_byte port :=
            (if allow then bs ! port_byte port AND NOT (port_mask port) else bs ! port_byte port OR port_mask port)]))"

definition io_bitmap_port_allowed :: "u8 list option \<Rightarrow> nat \<Rightarrow> u16 \<Rightarrow> bool" where
  "io_bitmap_port_allowed m len port =
     (case m of None \<Rightarrow> False | Some bs \<Rightarrow> port_byte port < len \<and> bs ! port_byte port AND port_mask port = 0)"

text \<open>The ports \<open>a\<close> to \<open>b\<close>, both included, in the order of the loops.\<close>

definition port_range :: "nat \<Rightarrow> nat \<Rightarrow> u16 list" where
  "port_range a b = map word_of_nat [a..<Suc b]"

definition ata_ports :: "u16 list" where "ata_ports = port_range 0x1F0 0x1F7 @ [0x3F6]"
definition ne2k_ports :: "u16 list" where "ne2k_ports = port_range 0x300 0x31F"
definition pci_ports :: "u16 list" where "pci_ports = port_range 0xCF8 0xCFF"
definition ps2_ports :: "u16 list" where "ps2_ports = [0x60, 0x64]"
definition serial_ports :: "u16 list" where "serial_ports = port_range 0x3F8 0x3FF"
definition vga_ports :: "u16 list" where "vga_ports = [0x3D4, 0x3D5]"

definition usb_ports :: "u16 \<Rightarrow> u16 list" where
  "usb_ports base = map (\<lambda>off. base + off) [0x02, 0x03, 0x04, 0x05, 0x06, 0x07, 0x10, 0x11, 0x12, 0x13]"

definition set_ports :: "nat \<Rightarrow> bool \<Rightarrow> u16 list \<Rightarrow> u8 list option \<Rightarrow> u8 list option" where
  "set_ports len allow ps m = fold (io_bitmap_set_port len allow) ps m"

definition io_bitmap_apply_ata :: "nat \<Rightarrow> bool \<Rightarrow> u8 list option \<Rightarrow> u8 list option" where
  "io_bitmap_apply_ata len allow m = set_ports len allow ata_ports m"

definition io_bitmap_apply_ne2k :: "nat \<Rightarrow> bool \<Rightarrow> u8 list option \<Rightarrow> u8 list option" where
  "io_bitmap_apply_ne2k len allow m = set_ports len allow ne2k_ports m"

definition io_bitmap_apply_pci :: "nat \<Rightarrow> bool \<Rightarrow> u8 list option \<Rightarrow> u8 list option" where
  "io_bitmap_apply_pci len allow m = set_ports len allow pci_ports m"

definition io_bitmap_apply_ps2 :: "nat \<Rightarrow> bool \<Rightarrow> u8 list option \<Rightarrow> u8 list option" where
  "io_bitmap_apply_ps2 len allow m = set_ports len allow ps2_ports m"

definition io_bitmap_apply_serial :: "nat \<Rightarrow> bool \<Rightarrow> u8 list option \<Rightarrow> u8 list option" where
  "io_bitmap_apply_serial len allow m = set_ports len allow serial_ports m"

definition io_bitmap_apply_vga :: "nat \<Rightarrow> bool \<Rightarrow> u8 list option \<Rightarrow> u8 list option" where
  "io_bitmap_apply_vga len allow m = set_ports len allow vga_ports m"

definition io_bitmap_apply_usb :: "nat \<Rightarrow> u16 \<Rightarrow> bool \<Rightarrow> u8 list option \<Rightarrow> u8 list option" where
  "io_bitmap_apply_usb len base allow m = (if base = 0 then m else set_ports len allow (usb_ports base) m)"

subsection \<open>The switches of the TSS\<close>

text \<open>The flags are the \<open>g_tss_*_granted\<close> variables: -1 before \<open>gdt_init\<close>, then 0 or 1.\<close>

record tss =
  ts_ss0 :: u32
  ts_esp0 :: u32
  ts_bitmap :: "u8 list"
  ts_bitmap_end :: u8
  ts_ata :: int
  ts_nic :: int
  ts_pci :: int
  ts_ps2 :: int
  ts_serial :: int
  ts_vga :: int
  ts_usb :: int
  ts_usb_base :: u16

definition gdt_init_tss :: "tss \<Rightarrow> tss" where
  "gdt_init_tss t = t\<lparr>ts_ss0 := 0x10, ts_esp0 := 0,
     ts_bitmap := the (io_bitmap_deny_all (Some (replicate TSS_IO_BITMAP_BYTES 0)) TSS_IO_BITMAP_BYTES), ts_bitmap_end := 0xFF,
     ts_ata := 0, ts_nic := 0, ts_pci := 0, ts_ps2 := 0, ts_serial := 0, ts_vga := 0, ts_usb := 0\<rparr>"

definition tss_set_stack :: "u32 \<Rightarrow> u32 \<Rightarrow> tss \<Rightarrow> tss" where
  "tss_set_stack ss esp t = t\<lparr>ts_ss0 := ss, ts_esp0 := esp\<rparr>"

definition on_bitmap :: "(u8 list option \<Rightarrow> u8 list option) \<Rightarrow> tss \<Rightarrow> tss" where
  "on_bitmap f t = t\<lparr>ts_bitmap := the (f (Some (ts_bitmap t)))\<rparr>"

definition tss_set_ata_io :: "bool \<Rightarrow> tss \<Rightarrow> tss" where
  "tss_set_ata_io grant t =
     (if ts_ata t = of_bool grant then t
      else (on_bitmap (io_bitmap_apply_ata TSS_IO_BITMAP_BYTES grant) t)\<lparr>ts_ata := of_bool grant\<rparr>)"

definition tss_set_nic_io :: "bool \<Rightarrow> tss \<Rightarrow> tss" where
  "tss_set_nic_io grant t =
     (if ts_nic t = of_bool grant then t
      else (on_bitmap (io_bitmap_apply_ne2k TSS_IO_BITMAP_BYTES grant) t)\<lparr>ts_nic := of_bool grant\<rparr>)"

definition tss_set_pci_io :: "bool \<Rightarrow> tss \<Rightarrow> tss" where
  "tss_set_pci_io grant t =
     (if ts_pci t = of_bool grant then t
      else (on_bitmap (io_bitmap_apply_pci TSS_IO_BITMAP_BYTES grant) t)\<lparr>ts_pci := of_bool grant\<rparr>)"

definition tss_set_ps2_io :: "bool \<Rightarrow> tss \<Rightarrow> tss" where
  "tss_set_ps2_io grant t =
     (if ts_ps2 t = of_bool grant then t
      else (on_bitmap (io_bitmap_apply_ps2 TSS_IO_BITMAP_BYTES grant) t)\<lparr>ts_ps2 := of_bool grant\<rparr>)"

definition tss_set_vga_io :: "bool \<Rightarrow> tss \<Rightarrow> tss" where
  "tss_set_vga_io grant t =
     (if ts_vga t = of_bool grant then t
      else (on_bitmap (io_bitmap_apply_vga TSS_IO_BITMAP_BYTES grant) t)\<lparr>ts_vga := of_bool grant\<rparr>)"

definition tss_set_usb_io :: "bool \<Rightarrow> u16 \<Rightarrow> tss \<Rightarrow> tss" where
  "tss_set_usb_io grant0 base t =
     (let grant = grant0 \<and> base \<noteq> 0
      in if ts_usb t = of_bool grant \<and> (\<not> grant \<or> ts_usb_base t = base) then t
         else
           let t1 = (if ts_usb t = 1 \<and> ts_usb_base t \<noteq> 0
                 then on_bitmap (io_bitmap_apply_usb TSS_IO_BITMAP_BYTES (ts_usb_base t) False) t else t);
               t2 = (if grant then on_bitmap (io_bitmap_apply_usb TSS_IO_BITMAP_BYTES base True) t1 else t1)
           in t2\<lparr>ts_usb := of_bool grant, ts_usb_base := base\<rparr>)"

definition tss_set_serial_io :: "bool \<Rightarrow> tss \<Rightarrow> tss" where
  "tss_set_serial_io grant t =
     (if ts_serial t = of_bool grant then t
      else (on_bitmap (io_bitmap_apply_serial TSS_IO_BITMAP_BYTES grant) t)\<lparr>ts_serial := of_bool grant\<rparr>)"

subsection \<open>One port\<close>

lemma port_byte_eq: "port_byte p = unat p div 8"
  by (simp add: port_byte_def drop_bit_eq_div unat_div)

lemma port_low_eq: "unat (p AND 7 :: u16) = unat p mod 8"
proof -
  have "p AND 7 = take_bit 3 p" by (simp add: take_bit_eq_mask mask_numeral)
  then show ?thesis by (simp add: take_bit_eq_mod unat_mod)
qed

lemma port_byte_bound: "port_byte p < 8192"
proof -
  have "unat p < 2 ^ LENGTH(16)" by (rule unsigned_less)
  then show ?thesis by (simp add: port_byte_eq)
qed

lemma port_slot_inj: "port_byte p = port_byte q \<Longrightarrow> unat p mod 8 = unat q mod 8 \<Longrightarrow> p = q"
  unfolding port_byte_eq by (metis div_mult_mod_eq word_unat_eq_iff)

lemma mask_test: "(b AND port_mask p = 0) \<longleftrightarrow> \<not> bit b (unat p mod 8)"
  unfolding port_mask_def port_low_eq by (simp add: push_bit_of_1 and_exp_eq_0_iff_not_bit)


lemma set_port_allowed:
  assumes "length bs = 8192"
  shows "\<exists>cs. io_bitmap_set_port 8192 allow p (Some bs) = Some cs \<and> length cs = 8192 \<and>
    (\<forall>q. io_bitmap_port_allowed (Some cs) 8192 q = (if q = p then allow else io_bitmap_port_allowed (Some bs) 8192 q))"
proof -
  define v where "v = (if allow then bs ! port_byte p AND NOT (port_mask p) else bs ! port_byte p OR port_mask p)"
  have bits: "bit v (unat q mod 8) = (if unat q mod 8 = unat p mod 8 then \<not> allow else bit (bs ! port_byte p) (unat q mod 8))" for q :: u16
    by (auto simp: v_def port_mask_def port_low_eq bit_simps)
  have "io_bitmap_port_allowed (Some (bs[port_byte p := v])) 8192 q =
      (if q = p then allow else io_bitmap_port_allowed (Some bs) 8192 q)" for q
    using bits [of q] port_slot_inj [of q p] port_byte_bound [of p] assms
    by (cases "port_byte q = port_byte p") (auto simp: io_bitmap_port_allowed_def mask_test)
  then show ?thesis
    using assms port_byte_bound [of p] by (simp add: io_bitmap_set_port_def v_def [symmetric])
qed

lemma set_ports_allowed:
  assumes "length bs = 8192"
  shows "\<exists>cs. set_ports 8192 allow ps (Some bs) = Some cs \<and> length cs = 8192 \<and>
    (\<forall>q. io_bitmap_port_allowed (Some cs) 8192 q = (if q \<in> set ps then allow else io_bitmap_port_allowed (Some bs) 8192 q))"
  using assms
proof (induction ps arbitrary: bs)
  case (Cons p ps)
  obtain cs where cs: "io_bitmap_set_port 8192 allow p (Some bs) = Some cs" "length cs = 8192"
    "\<forall>q. io_bitmap_port_allowed (Some cs) 8192 q = (if q = p then allow else io_bitmap_port_allowed (Some bs) 8192 q)"
    using set_port_allowed [OF Cons.prems] by blast
  show ?case using Cons.IH [OF cs(2)] cs by (auto simp: set_ports_def)
qed (simp add: set_ports_def)

subsection \<open>The ports that are open\<close>

definition tss_open :: "tss \<Rightarrow> u16 \<Rightarrow> bool" where
  "tss_open t q = io_bitmap_port_allowed (Some (ts_bitmap t)) TSS_IO_BITMAP_BYTES q"

text \<open>What the flags promise: the ports of the granted devices, and no other.\<close>

definition granted_ports :: "tss \<Rightarrow> u16 set" where
  "granted_ports t =
     (if ts_ata t = 1 then set ata_ports else {}) \<union> (if ts_nic t = 1 then set ne2k_ports else {}) \<union>
     (if ts_pci t = 1 then set pci_ports else {}) \<union> (if ts_ps2 t = 1 then set ps2_ports else {}) \<union>
     (if ts_serial t = 1 then set serial_ports else {}) \<union> (if ts_vga t = 1 then set vga_ports else {}) \<union>
     (if ts_usb t = 1 then set (usb_ports (ts_usb_base t)) else {})"

definition fixed_ports :: "u16 list" where
  "fixed_ports = ata_ports @ ne2k_ports @ pci_ports @ ps2_ports @ serial_ports @ vga_ports"

text \<open>A register base of the USB controller whose registers are not ports of another device.\<close>

definition usb_base_clear :: "u16 \<Rightarrow> bool" where
  "usb_base_clear base \<longleftrightarrow> set (usb_ports base) \<inter> set fixed_ports = {}"

definition flags_ok :: "tss \<Rightarrow> bool" where
  "flags_ok t \<longleftrightarrow> {ts_ata t, ts_nic t, ts_pci t, ts_ps2 t, ts_serial t, ts_vga t, ts_usb t} \<subseteq> {0, 1} \<and>
     (ts_usb t = 1 \<longrightarrow> ts_usb_base t \<noteq> 0 \<and> usb_base_clear (ts_usb_base t))"

definition tss_ok :: "tss \<Rightarrow> bool" where
  "tss_ok t \<longleftrightarrow> length (ts_bitmap t) = TSS_IO_BITMAP_BYTES \<and> flags_ok t \<and> (\<forall>q. tss_open t q \<longleftrightarrow> q \<in> granted_ports t)"

lemma set_port_range:
  assumes "b < 65536"
  shows "q \<in> set (port_range a b) \<longleftrightarrow> a \<le> unat q \<and> unat q \<le> b"
proof
  assume "q \<in> set (port_range a b)"
  then obtain n where "a \<le> n" "n \<le> b" "q = word_of_nat n" by (auto simp: port_range_def)
  with assms show "a \<le> unat q \<and> unat q \<le> b" by (simp add: unat_of_nat)
next
  assume "a \<le> unat q \<and> unat q \<le> b"
  then have "unat q \<in> set [a..<Suc b]" by auto
  then have "word_of_nat (unat q) \<in> set (port_range a b)" unfolding port_range_def by (metis image_eqI set_map)
  then show "q \<in> set (port_range a b)" by simp
qed

lemma port_literal: "n < 65536 \<Longrightarrow> q = (word_of_nat n :: u16) \<longleftrightarrow> unat q = n"
  by (auto simp: unat_of_nat)

lemma fixed_sets:
  "q \<in> set ata_ports \<longleftrightarrow> unat q = 0x3F6 \<or> 0x1F0 \<le> unat q \<and> unat q \<le> 0x1F7"
  "q \<in> set ne2k_ports \<longleftrightarrow> 0x300 \<le> unat q \<and> unat q \<le> 0x31F"
  "q \<in> set pci_ports \<longleftrightarrow> 0xCF8 \<le> unat q \<and> unat q \<le> 0xCFF"
  "q \<in> set ps2_ports \<longleftrightarrow> unat q = 0x60 \<or> unat q = 0x64"
  "q \<in> set serial_ports \<longleftrightarrow> 0x3F8 \<le> unat q \<and> unat q \<le> 0x3FF"
  "q \<in> set vga_ports \<longleftrightarrow> unat q = 0x3D4 \<or> unat q = 0x3D5"
  using port_literal [of "0x3F6" q] port_literal [of "0x60" q] port_literal [of "0x64" q] port_literal [of "0x3D4" q] port_literal [of "0x3D5" q]
  by (simp_all add: ata_ports_def ne2k_ports_def pci_ports_def ps2_ports_def serial_ports_def vga_ports_def set_port_range)

lemma on_bitmap_open:
  assumes "length (ts_bitmap t) = 8192"
  shows "length (ts_bitmap (on_bitmap (set_ports 8192 allow ps) t)) = 8192"
    "tss_open (on_bitmap (set_ports 8192 allow ps) t) q = (if q \<in> set ps then allow else tss_open t q)"
  using set_ports_allowed [OF assms, of allow ps] by (auto simp: on_bitmap_def tss_open_def)

lemma on_bitmap_flags [simp]:
  "ts_ata (on_bitmap f t) = ts_ata t" "ts_nic (on_bitmap f t) = ts_nic t" "ts_pci (on_bitmap f t) = ts_pci t"
  "ts_ps2 (on_bitmap f t) = ts_ps2 t" "ts_serial (on_bitmap f t) = ts_serial t" "ts_vga (on_bitmap f t) = ts_vga t"
  "ts_usb (on_bitmap f t) = ts_usb t" "ts_usb_base (on_bitmap f t) = ts_usb_base t"
  by (simp_all add: on_bitmap_def)

lemma tss_open_flags [simp]:
  "tss_open (t\<lparr>ts_ata := a\<rparr>) = tss_open t" "tss_open (t\<lparr>ts_nic := a\<rparr>) = tss_open t" "tss_open (t\<lparr>ts_pci := a\<rparr>) = tss_open t"
  "tss_open (t\<lparr>ts_ps2 := a\<rparr>) = tss_open t" "tss_open (t\<lparr>ts_serial := a\<rparr>) = tss_open t" "tss_open (t\<lparr>ts_vga := a\<rparr>) = tss_open t"
  "tss_open (t\<lparr>ts_usb := a\<rparr>) = tss_open t" "tss_open (t\<lparr>ts_usb_base := b\<rparr>) = tss_open t"
  "tss_open (t\<lparr>ts_ss0 := w\<rparr>) = tss_open t" "tss_open (t\<lparr>ts_esp0 := w\<rparr>) = tss_open t"
  by (simp_all add: tss_open_def fun_eq_iff)


text \<open>
  The contract of one switch: it owns one flag and one set of ports, and rewrites the bitmap only
  when the flag changes.
\<close>

locale port_switch =
  fixes flag :: "tss \<Rightarrow> int"
    and set_flag :: "int \<Rightarrow> tss \<Rightarrow> tss"
    and ports :: "u16 list"
    and switch :: "bool \<Rightarrow> tss \<Rightarrow> tss"
  assumes switch_eq: "switch g t = (if flag t = of_bool g then t else set_flag (of_bool g) (on_bitmap (set_ports 8192 g ports) t))"
    and flag_set: "flag (set_flag v t) = v"
    and bitmap_set: "ts_bitmap (set_flag v t) = ts_bitmap t"
    and flags_set: "flags_ok t \<Longrightarrow> v \<in> {0, 1} \<Longrightarrow> flags_ok (set_flag v t)"
    and ports_set: "flags_ok t \<Longrightarrow> granted_ports (set_flag v t) = granted_ports t - set ports \<union> (if v = 1 then set ports else {})"
begin

lemma switch_flag: "flag (switch g t) = of_bool g"
  by (simp add: switch_eq flag_set)

lemma switch_ok:
  assumes "tss_ok t"
  shows "tss_ok (switch g t)"
proof (cases "flag t = of_bool g")
  case False
  let ?u = "on_bitmap (set_ports 8192 g ports) t"
  have t: "length (ts_bitmap t) = 8192" "flags_ok t" "\<And>q. tss_open t q \<longleftrightarrow> q \<in> granted_ports t"
    using assms by (auto simp: tss_ok_def)
  have u: "flags_ok ?u" "granted_ports ?u = granted_ports t"
    using t(2) by (simp_all add: flags_ok_def granted_ports_def)
  have "flags_ok (set_flag (of_bool g) ?u)" by (rule flags_set [OF u(1)]) simp
  moreover have "tss_open (set_flag (of_bool g) ?u) q \<longleftrightarrow> q \<in> granted_ports (set_flag (of_bool g) ?u)" for q
  proof -
    have "tss_open (set_flag (of_bool g) ?u) q = tss_open ?u q" by (simp add: tss_open_def bitmap_set)
    then show ?thesis using ports_set [OF u(1), of "of_bool g"] t(3) on_bitmap_open(2) [OF t(1)] u(2) by auto
  qed
  ultimately show ?thesis
    using False on_bitmap_open(1) [OF t(1)] by (simp add: switch_eq tss_ok_def bitmap_set)
qed (use assms in \<open>simp add: switch_eq\<close>)

end

lemma usb_clear_not:
  assumes "flags_ok t" "ts_usb t = 1" "q \<in> set (usb_ports (ts_usb_base t))"
  shows "q \<notin> set ata_ports" "q \<notin> set ne2k_ports" "q \<notin> set pci_ports" "q \<notin> set ps2_ports" "q \<notin> set serial_ports" "q \<notin> set vga_ports"
  using assms by (auto simp: flags_ok_def usb_base_clear_def fixed_ports_def)

lemma granted_iff:
  "q \<in> granted_ports t \<longleftrightarrow> ts_ata t = 1 \<and> q \<in> set ata_ports \<or> ts_nic t = 1 \<and> q \<in> set ne2k_ports \<or>
     ts_pci t = 1 \<and> q \<in> set pci_ports \<or> ts_ps2 t = 1 \<and> q \<in> set ps2_ports \<or> ts_serial t = 1 \<and> q \<in> set serial_ports \<or>
     ts_vga t = 1 \<and> q \<in> set vga_ports \<or> ts_usb t = 1 \<and> q \<in> set (usb_ports (ts_usb_base t))"
  by (simp add: granted_ports_def)

lemma ports_disjoint:
  "q \<in> set ata_ports \<Longrightarrow> q \<notin> set ne2k_ports \<and> q \<notin> set pci_ports \<and> q \<notin> set ps2_ports \<and> q \<notin> set serial_ports \<and> q \<notin> set vga_ports"
  "q \<in> set ne2k_ports \<Longrightarrow> q \<notin> set ata_ports \<and> q \<notin> set pci_ports \<and> q \<notin> set ps2_ports \<and> q \<notin> set serial_ports \<and> q \<notin> set vga_ports"
  "q \<in> set pci_ports \<Longrightarrow> q \<notin> set ata_ports \<and> q \<notin> set ne2k_ports \<and> q \<notin> set ps2_ports \<and> q \<notin> set serial_ports \<and> q \<notin> set vga_ports"
  "q \<in> set ps2_ports \<Longrightarrow> q \<notin> set ata_ports \<and> q \<notin> set ne2k_ports \<and> q \<notin> set pci_ports \<and> q \<notin> set serial_ports \<and> q \<notin> set vga_ports"
  "q \<in> set serial_ports \<Longrightarrow> q \<notin> set ata_ports \<and> q \<notin> set ne2k_ports \<and> q \<notin> set pci_ports \<and> q \<notin> set ps2_ports \<and> q \<notin> set vga_ports"
  "q \<in> set vga_ports \<Longrightarrow> q \<notin> set ata_ports \<and> q \<notin> set ne2k_ports \<and> q \<notin> set pci_ports \<and> q \<notin> set ps2_ports \<and> q \<notin> set serial_ports"
  by (simp_all only: fixed_sets) linarith+

lemma granted_set:
  assumes "flags_ok t"
  shows "granted_ports (t\<lparr>ts_ata := v\<rparr>) = granted_ports t - set ata_ports \<union> (if v = 1 then set ata_ports else {})"
    "granted_ports (t\<lparr>ts_nic := v\<rparr>) = granted_ports t - set ne2k_ports \<union> (if v = 1 then set ne2k_ports else {})"
    "granted_ports (t\<lparr>ts_pci := v\<rparr>) = granted_ports t - set pci_ports \<union> (if v = 1 then set pci_ports else {})"
    "granted_ports (t\<lparr>ts_ps2 := v\<rparr>) = granted_ports t - set ps2_ports \<union> (if v = 1 then set ps2_ports else {})"
    "granted_ports (t\<lparr>ts_serial := v\<rparr>) = granted_ports t - set serial_ports \<union> (if v = 1 then set serial_ports else {})"
    "granted_ports (t\<lparr>ts_vga := v\<rparr>) = granted_ports t - set vga_ports \<union> (if v = 1 then set vga_ports else {})"
proof -
  have iff: "granted_ports u = granted_ports t - P \<union> (if v = 1 then P else {})"
    if "\<And>q. q \<in> P \<Longrightarrow> q \<in> granted_ports u \<longleftrightarrow> v = 1" "\<And>q. q \<notin> P \<Longrightarrow> q \<in> granted_ports u \<longleftrightarrow> q \<in> granted_ports t" for u P
    using that by (auto split: if_splits)
  note usb = usb_clear_not [OF assms]
  show "granted_ports (t\<lparr>ts_ata := v\<rparr>) = granted_ports t - set ata_ports \<union> (if v = 1 then set ata_ports else {})"
    by (rule iff) (use usb(1) ports_disjoint(1) in \<open>fastforce simp: granted_iff\<close>)+
  show "granted_ports (t\<lparr>ts_nic := v\<rparr>) = granted_ports t - set ne2k_ports \<union> (if v = 1 then set ne2k_ports else {})"
    by (rule iff) (use usb(2) ports_disjoint(2) in \<open>fastforce simp: granted_iff\<close>)+
  show "granted_ports (t\<lparr>ts_pci := v\<rparr>) = granted_ports t - set pci_ports \<union> (if v = 1 then set pci_ports else {})"
    by (rule iff) (use usb(3) ports_disjoint(3) in \<open>fastforce simp: granted_iff\<close>)+
  show "granted_ports (t\<lparr>ts_ps2 := v\<rparr>) = granted_ports t - set ps2_ports \<union> (if v = 1 then set ps2_ports else {})"
    by (rule iff) (use usb(4) ports_disjoint(4) in \<open>fastforce simp: granted_iff\<close>)+
  show "granted_ports (t\<lparr>ts_serial := v\<rparr>) = granted_ports t - set serial_ports \<union> (if v = 1 then set serial_ports else {})"
    by (rule iff) (use usb(5) ports_disjoint(5) in \<open>fastforce simp: granted_iff\<close>)+
  show "granted_ports (t\<lparr>ts_vga := v\<rparr>) = granted_ports t - set vga_ports \<union> (if v = 1 then set vga_ports else {})"
    by (rule iff) (use usb(6) ports_disjoint(6) in \<open>fastforce simp: granted_iff\<close>)+
qed

lemmas switch_eqs = on_bitmap_def flags_ok_def io_bitmap_apply_ata_def io_bitmap_apply_ne2k_def
  io_bitmap_apply_pci_def io_bitmap_apply_ps2_def io_bitmap_apply_serial_def io_bitmap_apply_vga_def

interpretation ata_sw: port_switch ts_ata "\<lambda>v t. t\<lparr>ts_ata := v\<rparr>" ata_ports tss_set_ata_io
  by unfold_locales (auto simp: switch_eqs tss_set_ata_io_def granted_set)

interpretation nic_sw: port_switch ts_nic "\<lambda>v t. t\<lparr>ts_nic := v\<rparr>" ne2k_ports tss_set_nic_io
  by unfold_locales (auto simp: switch_eqs tss_set_nic_io_def granted_set)

interpretation pci_sw: port_switch ts_pci "\<lambda>v t. t\<lparr>ts_pci := v\<rparr>" pci_ports tss_set_pci_io
  by unfold_locales (auto simp: switch_eqs tss_set_pci_io_def granted_set)

interpretation ps2_sw: port_switch ts_ps2 "\<lambda>v t. t\<lparr>ts_ps2 := v\<rparr>" ps2_ports tss_set_ps2_io
  by unfold_locales (auto simp: switch_eqs tss_set_ps2_io_def granted_set)

interpretation serial_sw: port_switch ts_serial "\<lambda>v t. t\<lparr>ts_serial := v\<rparr>" serial_ports tss_set_serial_io
  by unfold_locales (auto simp: switch_eqs tss_set_serial_io_def granted_set)

interpretation vga_sw: port_switch ts_vga "\<lambda>v t. t\<lparr>ts_vga := v\<rparr>" vga_ports tss_set_vga_io
  by unfold_locales (auto simp: switch_eqs tss_set_vga_io_def granted_set)

text \<open>The USB switch also follows the register base.\<close>

lemma usb_granted:
  assumes "flags_ok t" "b = 1 \<longrightarrow> base \<noteq> 0 \<and> usb_base_clear base"
  shows "granted_ports (t\<lparr>ts_usb := b, ts_usb_base := base\<rparr>) =
    granted_ports (t\<lparr>ts_usb := 0\<rparr>) \<union> (if b = 1 then set (usb_ports base) else {})"
  by (auto simp: granted_iff)

lemma usb_released:
  assumes "flags_ok t" "ts_usb t = 1"
  shows "granted_ports (t\<lparr>ts_usb := 0\<rparr>) = granted_ports t - set (usb_ports (ts_usb_base t))"
proof (rule set_eqI)
  fix q
  show "q \<in> granted_ports (t\<lparr>ts_usb := 0\<rparr>) \<longleftrightarrow> q \<in> granted_ports t - set (usb_ports (ts_usb_base t))"
    using usb_clear_not [OF assms, of q] by (cases "q \<in> set (usb_ports (ts_usb_base t))") (simp_all add: granted_iff)
qed

lemma tss_set_usb_ok:
  assumes "tss_ok t" "grant \<longrightarrow> usb_base_clear base"
  shows "tss_ok (tss_set_usb_io grant base t)"
proof (cases "ts_usb t = of_bool (grant \<and> base \<noteq> 0) \<and> (\<not> (grant \<and> base \<noteq> 0) \<or> ts_usb_base t = base)")
  case True
  then show ?thesis using assms(1) by (auto simp: tss_set_usb_io_def Let_def)
next
  case False
  define g where "g \<longleftrightarrow> grant \<and> base \<noteq> 0"
  define t1 where "t1 = (if ts_usb t = 1 then on_bitmap (set_ports 8192 False (usb_ports (ts_usb_base t))) t else t)"
  define t2 where "t2 = (if g then on_bitmap (set_ports 8192 True (usb_ports base)) t1 else t1)"
  have t: "length (ts_bitmap t) = 8192" "flags_ok t" "\<And>q. tss_open t q \<longleftrightarrow> q \<in> granted_ports t"
    using assms(1) by (auto simp: tss_ok_def)
  then have nz: "ts_usb t = 1 \<Longrightarrow> ts_usb_base t \<noteq> 0" by (simp add: flags_ok_def)
  have eq: "tss_set_usb_io grant base t = t2\<lparr>ts_usb := of_bool g, ts_usb_base := base\<rparr>"
  proof -
    have apply_usb: "b \<noteq> 0 \<Longrightarrow> io_bitmap_apply_usb 8192 b a = set_ports 8192 a (usb_ports b)" for a b
      by (simp add: io_bitmap_apply_usb_def fun_eq_iff)
    have "(if ts_usb t = 1 \<and> ts_usb_base t \<noteq> 0 then on_bitmap (io_bitmap_apply_usb 8192 (ts_usb_base t) False) t else t) = t1"
      using nz by (cases "ts_usb t = 1") (simp_all add: t1_def apply_usb)
    moreover have "g \<Longrightarrow> base \<noteq> 0" by (simp add: g_def)
    then have "(if g then on_bitmap (io_bitmap_apply_usb 8192 base True) t1 else t1) = t2"
      by (cases g) (simp_all add: t2_def apply_usb)
    ultimately show ?thesis
      using False unfolding tss_set_usb_io_def Let_def g_def [symmetric] by (simp only: if_False)
  qed
  have l1: "length (ts_bitmap t1) = 8192" using t(1) on_bitmap_open(1) by (simp add: t1_def)
  have l2: "length (ts_bitmap t2) = 8192" using l1 on_bitmap_open(1) by (simp add: t2_def)
  have "granted_ports (t\<lparr>ts_usb := 0\<rparr>) = granted_ports t" if "ts_usb t \<noteq> 1"
    using that by (auto simp: granted_iff)
  then have o1: "tss_open t1 q \<longleftrightarrow> q \<in> granted_ports (t\<lparr>ts_usb := 0\<rparr>)" for q
    using on_bitmap_open(2) [OF t(1)] usb_released [OF t(2)] t(3) by (auto simp: t1_def)
  have o2: "tss_open t2 q \<longleftrightarrow> q \<in> granted_ports (t\<lparr>ts_usb := 0\<rparr>) \<or> g \<and> q \<in> set (usb_ports base)" for q
    using on_bitmap_open(2) [OF l1] o1 by (auto simp: t2_def)
  have fl: "flags_ok (t2\<lparr>ts_usb := of_bool g, ts_usb_base := base\<rparr>)"
    using t(2) assms(2) by (auto simp: flags_ok_def t1_def t2_def g_def)
  have "granted_ports (t2\<lparr>ts_usb := of_bool g, ts_usb_base := base\<rparr>) =
      granted_ports (t\<lparr>ts_usb := of_bool g, ts_usb_base := base\<rparr>)"
    by (simp add: granted_ports_def t1_def t2_def)
  also have "\<dots> = granted_ports (t\<lparr>ts_usb := 0\<rparr>) \<union> (if g then set (usb_ports base) else {})"
    using usb_granted [OF t(2), of "of_bool g" base] assms(2) by (auto simp: g_def)
  finally show ?thesis using fl l2 o2 by (simp add: eq tss_ok_def)
qed

lemma tss_init_ok: "tss_ok (gdt_init_tss t)"
proof -
  have ff: "(0xFF :: u8) = - 1" by simp
  have "tss_open (gdt_init_tss t) q = False" for q
    using port_byte_bound [of q] mask_test [of "- 1" q]
    by (simp add: tss_open_def gdt_init_tss_def io_bitmap_deny_all_def io_bitmap_port_allowed_def ff)
  then show ?thesis
    by (simp add: tss_ok_def gdt_init_tss_def io_bitmap_deny_all_def flags_ok_def granted_ports_def)
qed


lemma switch_flags [simp]:
  "ts_ata (tss_set_ata_io g t) = of_bool g" "ts_nic (tss_set_ata_io g t) = ts_nic t" "ts_pci (tss_set_ata_io g t) = ts_pci t" "ts_ps2 (tss_set_ata_io g t) = ts_ps2 t"
  "ts_serial (tss_set_ata_io g t) = ts_serial t" "ts_vga (tss_set_ata_io g t) = ts_vga t" "ts_usb (tss_set_ata_io g t) = ts_usb t" "ts_usb_base (tss_set_ata_io g t) = ts_usb_base t"
  "ts_ata (tss_set_nic_io g t) = ts_ata t" "ts_nic (tss_set_nic_io g t) = of_bool g" "ts_pci (tss_set_nic_io g t) = ts_pci t" "ts_ps2 (tss_set_nic_io g t) = ts_ps2 t"
  "ts_serial (tss_set_nic_io g t) = ts_serial t" "ts_vga (tss_set_nic_io g t) = ts_vga t" "ts_usb (tss_set_nic_io g t) = ts_usb t" "ts_usb_base (tss_set_nic_io g t) = ts_usb_base t"
  "ts_ata (tss_set_pci_io g t) = ts_ata t" "ts_nic (tss_set_pci_io g t) = ts_nic t" "ts_pci (tss_set_pci_io g t) = of_bool g" "ts_ps2 (tss_set_pci_io g t) = ts_ps2 t"
  "ts_serial (tss_set_pci_io g t) = ts_serial t" "ts_vga (tss_set_pci_io g t) = ts_vga t" "ts_usb (tss_set_pci_io g t) = ts_usb t" "ts_usb_base (tss_set_pci_io g t) = ts_usb_base t"
  "ts_ata (tss_set_ps2_io g t) = ts_ata t" "ts_nic (tss_set_ps2_io g t) = ts_nic t" "ts_pci (tss_set_ps2_io g t) = ts_pci t" "ts_ps2 (tss_set_ps2_io g t) = of_bool g"
  "ts_serial (tss_set_ps2_io g t) = ts_serial t" "ts_vga (tss_set_ps2_io g t) = ts_vga t" "ts_usb (tss_set_ps2_io g t) = ts_usb t" "ts_usb_base (tss_set_ps2_io g t) = ts_usb_base t"
  "ts_ata (tss_set_serial_io g t) = ts_ata t" "ts_nic (tss_set_serial_io g t) = ts_nic t" "ts_pci (tss_set_serial_io g t) = ts_pci t" "ts_ps2 (tss_set_serial_io g t) = ts_ps2 t"
  "ts_serial (tss_set_serial_io g t) = of_bool g" "ts_vga (tss_set_serial_io g t) = ts_vga t" "ts_usb (tss_set_serial_io g t) = ts_usb t" "ts_usb_base (tss_set_serial_io g t) = ts_usb_base t"
  "ts_ata (tss_set_vga_io g t) = ts_ata t" "ts_nic (tss_set_vga_io g t) = ts_nic t" "ts_pci (tss_set_vga_io g t) = ts_pci t" "ts_ps2 (tss_set_vga_io g t) = ts_ps2 t"
  "ts_serial (tss_set_vga_io g t) = ts_serial t" "ts_vga (tss_set_vga_io g t) = of_bool g" "ts_usb (tss_set_vga_io g t) = ts_usb t" "ts_usb_base (tss_set_vga_io g t) = ts_usb_base t"
  "ts_ata (tss_set_usb_io g base t) = ts_ata t" "ts_nic (tss_set_usb_io g base t) = ts_nic t" "ts_pci (tss_set_usb_io g base t) = ts_pci t"
  "ts_ps2 (tss_set_usb_io g base t) = ts_ps2 t" "ts_serial (tss_set_usb_io g base t) = ts_serial t" "ts_vga (tss_set_usb_io g base t) = ts_vga t"
  "ts_usb (tss_set_usb_io g base t) = of_bool (g \<and> base \<noteq> 0)"
  "ts_ata (tss_set_stack ss esp t) = ts_ata t" "ts_nic (tss_set_stack ss esp t) = ts_nic t" "ts_pci (tss_set_stack ss esp t) = ts_pci t" "ts_ps2 (tss_set_stack ss esp t) = ts_ps2 t"
  "ts_serial (tss_set_stack ss esp t) = ts_serial t" "ts_vga (tss_set_stack ss esp t) = ts_vga t" "ts_usb (tss_set_stack ss esp t) = ts_usb t" "ts_usb_base (tss_set_stack ss esp t) = ts_usb_base t"
  by (auto simp: tss_set_ata_io_def tss_set_nic_io_def tss_set_pci_io_def tss_set_ps2_io_def tss_set_serial_io_def
      tss_set_vga_io_def tss_set_usb_io_def tss_set_stack_def Let_def)

lemma switch_usb_base: "g \<Longrightarrow> base \<noteq> 0 \<Longrightarrow> ts_usb_base (tss_set_usb_io g base t) = base"
  by (auto simp: tss_set_usb_io_def Let_def)

subsection \<open>Any run of switches\<close>

datatype tss_op =
    Set_stack u32 u32
  | Set_ata bool
  | Set_nic bool
  | Set_pci bool
  | Set_ps2 bool
  | Set_serial bool
  | Set_vga bool
  | Set_usb bool u16

fun tss_apply :: "tss_op \<Rightarrow> tss \<Rightarrow> tss" where
  "tss_apply (Set_stack ss esp) t = tss_set_stack ss esp t"
| "tss_apply (Set_ata g) t = tss_set_ata_io g t"
| "tss_apply (Set_nic g) t = tss_set_nic_io g t"
| "tss_apply (Set_pci g) t = tss_set_pci_io g t"
| "tss_apply (Set_ps2 g) t = tss_set_ps2_io g t"
| "tss_apply (Set_serial g) t = tss_set_serial_io g t"
| "tss_apply (Set_vga g) t = tss_set_vga_io g t"
| "tss_apply (Set_usb g base) t = tss_set_usb_io g base t"

fun op_clear :: "tss_op \<Rightarrow> bool" where
  "op_clear (Set_usb g base) = (g \<longrightarrow> usb_base_clear base)"
| "op_clear op = True"

lemma tss_set_stack_ok: "tss_ok t \<Longrightarrow> tss_ok (tss_set_stack ss esp t)"
  by (simp add: tss_ok_def tss_set_stack_def flags_ok_def granted_ports_def)

lemma tss_apply_ok:
  assumes "tss_ok t" "op_clear op"
  shows "tss_ok (tss_apply op t)"
  using assms ata_sw.switch_ok nic_sw.switch_ok pci_sw.switch_ok ps2_sw.switch_ok serial_sw.switch_ok vga_sw.switch_ok
    tss_set_usb_ok tss_set_stack_ok
  by (cases op) simp_all

lemma tss_run_ok:
  assumes "tss_ok t" "\<forall>op\<in>set ops. op_clear op"
  shows "tss_ok (fold tss_apply ops t)"
  using assms by (induction ops arbitrary: t) (simp_all add: tss_apply_ok)

text \<open>
  C28. From \<open>gdt_init\<close> on, after any sequence of port switches, a port is open to Ring 3 exactly
  when it belongs to a device whose switch is on: setting single bits of the 8192-byte map, and
  only on transitions, leaves no port of another device open or closed by mistake, the register
  base of the USB controller may move, and the command and frame-list registers of that
  controller (offsets 0 and 8) are never opened by its own switch. The base must not lie on the
  ports of another device.
\<close>

theorem io_bitmap_exact:
  assumes "\<forall>op\<in>set ops. op_clear op"
  shows "let t = fold tss_apply ops (gdt_init_tss t0)
    in (io_bitmap_port_allowed (Some (ts_bitmap t)) TSS_IO_BITMAP_BYTES q \<longleftrightarrow> q \<in> granted_ports t) \<and>
       ts_usb_base t \<notin> set (usb_ports (ts_usb_base t)) \<and> ts_usb_base t + 8 \<notin> set (usb_ports (ts_usb_base t))"
proof -
  have "tss_ok (fold tss_apply ops (gdt_init_tss t0))" by (rule tss_run_ok [OF tss_init_ok assms(1)])
  moreover have "base \<notin> set (usb_ports base) \<and> base + 8 \<notin> set (usb_ports base)" for base
    by (simp add: usb_ports_def)
  ultimately show ?thesis by (simp add: tss_ok_def tss_open_def Let_def)
qed

definition blank_tss :: tss where
  "blank_tss = \<lparr>ts_ss0 = 0, ts_esp0 = 0, ts_bitmap = [], ts_bitmap_end = 0, ts_ata = - 1, ts_nic = - 1, ts_pci = - 1,
     ts_ps2 = - 1, ts_serial = - 1, ts_vga = - 1, ts_usb = - 1, ts_usb_base = 0\<rparr>"

theorem io_bitmap_exact_witness:
  "let t = fold tss_apply [Set_ata True, Set_usb True 0xC040, Set_ata False] (gdt_init_tss blank_tss)
   in io_bitmap_port_allowed (Some (ts_bitmap t)) TSS_IO_BITMAP_BYTES 0xC042 \<and>
      \<not> io_bitmap_port_allowed (Some (ts_bitmap t)) TSS_IO_BITMAP_BYTES 0x1F0"
proof -
  let ?ops = "[Set_ata True, Set_usb True 0xC040, Set_ata False]"
  have clear: "\<forall>op\<in>set ?ops. op_clear op"
    by (simp add: usb_base_clear_def fixed_ports_def usb_ports_def fixed_sets)
  have flags: "ts_ata (gdt_init_tss blank_tss) = 0" "ts_nic (gdt_init_tss blank_tss) = 0" "ts_pci (gdt_init_tss blank_tss) = 0"
    "ts_ps2 (gdt_init_tss blank_tss) = 0" "ts_serial (gdt_init_tss blank_tss) = 0" "ts_vga (gdt_init_tss blank_tss) = 0"
    "ts_usb (gdt_init_tss blank_tss) = 0"
    by (simp_all add: gdt_init_tss_def)
  show ?thesis
    using io_bitmap_exact [OF clear, of blank_tss "0xC042"] io_bitmap_exact [OF clear, of blank_tss "0x1F0"]
    by (simp add: Let_def granted_iff flags switch_usb_base usb_ports_def)
qed

end
