(* ===== verification/Dispatch.thy ===== *)
theory Dispatch
  imports Scheduler Registry_Policy Ata_Flush Ata_Fsop Device_Service Io_Bitmap
begin

text \<open>
  \<open>schedule\<close> of \<open>task.c\<close> as a whole, over the state of all the modules it calls: the deferred
  release, the hook of the disk driver calls (\<open>ata_rpc_sched_hook\<close> of \<open>syscall.c\<close>), the choice of
  the next task, the port switches, the page directory and the jump. \<open>stack_addr\<close> is the address
  of the top of the kernel stack of a slot, which the linker fixes.
\<close>

abbreviation (input) ATA_RPC_TIMEOUT_TICKS :: u32 where "ATA_RPC_TIMEOUT_TICKS \<equiv> 300"
abbreviation (input) ATA_RESPAWN_WAIT_TICKS :: u32 where "ATA_RESPAWN_WAIT_TICKS \<equiv> 3000"

datatype rpc_kind = ATA_RPC_NONE | ATA_RPC_IO | ATA_RPC_FLUSH | ATA_RPC_FSOP | ATA_RPC_WAIT_STORE

record machine =
  m_k :: kstate
  m_reg :: registry
  m_ata :: ata_job
  m_fsop :: fsop
  m_nic :: nic_owner
  m_dev :: devsvc
  m_tss :: tss
  m_usb_base :: u16
  m_rpc_waiter :: "nat option"
  m_rpc_kind :: rpc_kind
  m_rpc_started :: u32
  m_rpc_aborted :: bool

definition upd_k :: "(kstate \<Rightarrow> kstate) \<Rightarrow> machine \<Rightarrow> machine" where
  "upd_k f m = m\<lparr>m_k := f (m_k m)\<rparr>"

subsection \<open>Live drivers\<close>

definition service_lookup :: "cstring \<Rightarrow> machine \<Rightarrow> pid \<times> machine" where
  "service_lookup name m =
     (case service_registry_lookup (task_view_of (m_k m)) name (m_reg m) of (v, r) \<Rightarrow> (v, m\<lparr>m_reg := r\<rparr>))"

text \<open>The owner of a driver name, when it is a live task with the right program name.\<close>

definition live_task_named :: "cstring \<Rightarrow> pid \<Rightarrow> kstate \<Rightarrow> bool" where
  "live_task_named task_name p k =
     (case get_task_by_id k p of
        None \<Rightarrow> False
      | Some i \<Rightarrow> t_type (tsk k i) = TASK_TYPE_USER \<and> t_state (tsk k i) \<noteq> TASK_TERMINATED \<and> cstr (t_name (tsk k i)) = task_name)"

definition live_driver :: "cstring \<Rightarrow> cstring \<Rightarrow> machine \<Rightarrow> pid \<times> machine" where
  "live_driver service_name task_name m =
     (case service_lookup service_name m of
        (p, m1) \<Rightarrow> (if p \<le> 0 then 0 else if live_task_named task_name p (m_k m1) then p else 0, m1))"

definition pci_live_driver :: "machine \<Rightarrow> pid \<times> machine" where
  "pci_live_driver m = live_driver ''pci-driver'' ''pcidriver'' m"

definition ata_live_driver :: "machine \<Rightarrow> pid \<times> machine" where
  "ata_live_driver m = (case service_lookup ''ata-driver'' m of (p, m1) \<Rightarrow> (if p > 0 then p else 0, m1))"

subsection \<open>Waiting for the disk driver\<close>

definition ata_rpc_abort :: "machine \<Rightarrow> machine" where
  "ata_rpc_abort m =
     (case m_rpc_waiter m of
        None \<Rightarrow> m
      | Some w \<Rightarrow>
          if t_state (tsk (m_k m) w) \<noteq> TASK_BLOCKED_KERNEL then m
          else
            let m1 = m\<lparr>m_rpc_aborted := True\<rparr>;
                m2 = (if m_rpc_kind m = ATA_RPC_IO then m1\<lparr>m_ata := ata_job_io_cancel (m_ata m1)\<rparr> else m1);
                m3 = (if m_rpc_kind m = ATA_RPC_FSOP
                  then m2\<lparr>m_fsop := ata_fsop_abort (m_fsop m2), m_ata := ata_job_note_rpc_abort (m_ata m2)\<rparr> else m2)
            in upd_k (\<lambda>k. (upd_task w (\<lambda>t. t\<lparr>t_state := TASK_READY\<rparr>) k)\<lparr>k_sched_only := Some w\<rparr>) m3)"

text \<open>The driver may serve the call: it is pinned and neither ended nor parked elsewhere.\<close>

definition rpc_driver_serves :: "kstate \<Rightarrow> bool" where
  "rpc_driver_serves k =
     (case k_sched_only k of
        None \<Rightarrow> False
      | Some d \<Rightarrow> t_state (tsk k d) \<in> {TASK_READY, TASK_RUNNING, TASK_BLOCKED_IPC})"

definition ata_rpc_sched_hook :: "u32 \<Rightarrow> machine \<Rightarrow> machine" where
  "ata_rpc_sched_hook now m =
     (case m_rpc_waiter m of
        None \<Rightarrow> m
      | Some w \<Rightarrow>
          if t_state (tsk (m_k m) w) \<noteq> TASK_BLOCKED_KERNEL then m
          else if m_rpc_kind m = ATA_RPC_WAIT_STORE
          then (if now - m_rpc_started m > ATA_RESPAWN_WAIT_TICKS then ata_rpc_abort m else m)
          else if now - m_rpc_started m > ATA_RPC_TIMEOUT_TICKS \<or> \<not> rpc_driver_serves (m_k m) then ata_rpc_abort m
          else m)"

text \<open>
  \<open>ata_rpc_block\<close> up to its call of \<open>schedule\<close>, with the continuation \<open>kctx_save\<close> stored, and from
  the resumed continuation on.
\<close>

definition ata_rpc_block_begin :: "nat \<Rightarrow> rpc_kind \<Rightarrow> nat \<Rightarrow> u32 list \<Rightarrow> machine \<Rightarrow> machine" where
  "ata_rpc_block_begin driver kind self kctx m =
     upd_k (\<lambda>k. (upd_task self (\<lambda>t. t\<lparr>t_state := TASK_BLOCKED_KERNEL, t_kctx_valid := True, t_kctx := kctx\<rparr>) k)
        \<lparr>k_sched_only := Some driver\<rparr>)
       (m\<lparr>m_rpc_kind := kind, m_rpc_waiter := Some self, m_rpc_aborted := False, m_rpc_started := k_ticks (m_k m)\<rparr>)"

definition ata_rpc_block_end :: "rpc_kind \<Rightarrow> nat \<Rightarrow> machine \<Rightarrow> rc \<times> machine" where
  "ata_rpc_block_end kind self m =
     (let m1 = upd_k (\<lambda>k. (upd_task self (\<lambda>t. t\<lparr>t_kctx_valid := False\<rparr>) k)\<lparr>k_sched_only := None\<rparr>) (m\<lparr>m_rpc_waiter := None\<rparr>)
      in (if m_rpc_aborted m1 then - 2
          else if kind = ATA_RPC_FLUSH then 0
          else if kind = ATA_RPC_FSOP then (if fo_state (m_fsop m1) = ATA_FSOP_DONE then 0 else - 1)
          else if aj_io_state (m_ata m1) = ATA_IO_DONE then 0 else - 1, m1))"

text \<open>\<open>frame\<close>: the current task has a saved system call frame.\<close>

definition ata_rpc_driver_for_current :: "bool \<Rightarrow> machine \<Rightarrow> nat option \<times> machine" where
  "ata_rpc_driver_for_current frame m =
     (case ata_live_driver m of
        (p, m1) \<Rightarrow>
          (case k_current (m_k m1) of
             None \<Rightarrow> (None, m1)
           | Some c \<Rightarrow>
               if p \<le> 0 \<or> t_type (tsk (m_k m1) c) \<noteq> TASK_TYPE_USER \<or> t_id (tsk (m_k m1) c) = p \<or> \<not> frame \<or> m_rpc_waiter m1 \<noteq> None
               then (None, m1)
               else (case get_task_by_id (m_k m1) p of
                   None \<Rightarrow> (None, m1)
                 | Some d \<Rightarrow> (if t_type (tsk (m_k m1) d) \<noteq> TASK_TYPE_USER \<or> t_state (tsk (m_k m1) d) \<noteq> TASK_READY
                     then None else Some d, m1))))"

subsection \<open>The ports of the incoming task\<close>

definition grant_ata :: "bool \<Rightarrow> pid \<Rightarrow> machine \<Rightarrow> bool \<times> machine" where
  "grant_ata user p m =
     (if user \<and> service_registry_ata_ports_granted (task_view_of (m_k m)) p (m_reg m)
      then (case ata_owner_ports_open p p (m_ata m) of (b, a) \<Rightarrow> (b, m\<lparr>m_ata := a\<rparr>)) else (False, m))"

definition grant_pci :: "bool \<Rightarrow> pid \<Rightarrow> machine \<Rightarrow> bool \<times> machine" where
  "grant_pci user p m = (if user then (case pci_live_driver m of (d, m1) \<Rightarrow> (d = p, m1)) else (False, m))"

definition grant_dev :: "int \<Rightarrow> bool \<Rightarrow> pid \<Rightarrow> machine \<Rightarrow> bool" where
  "grant_dev dev user p m \<longleftrightarrow> user \<and> devsvc_owner dev (m_dev m) = p"

definition grant_nic :: "bool \<Rightarrow> pid \<Rightarrow> machine \<Rightarrow> bool \<times> machine" where
  "grant_nic user p m =
     (if user \<and> nic_owner_pid (m_nic m) \<noteq> 0
      then (case service_lookup ''net-driver'' m of (live, m1) \<Rightarrow> (nic_owner_ports_open p live (m_nic m1), m1)) else (False, m))"

definition switch_ports :: "bool \<Rightarrow> pid \<Rightarrow> machine \<Rightarrow> machine" where
  "switch_ports user p m =
     (case grant_ata user p m of (a, m1) \<Rightarrow>
      case grant_pci user p m1 of (c, m2) \<Rightarrow>
      case grant_nic user p m2 of (n, m3) \<Rightarrow>
        m3\<lparr>m_tss := tss_set_nic_io n (tss_set_usb_io (grant_dev DEV_USB user p m3) (m_usb_base m3)
             (tss_set_vga_io (grant_dev DEV_VGA user p m3) (tss_set_serial_io (grant_dev DEV_SERIAL user p m3)
               (tss_set_ps2_io (grant_dev DEV_PS2 user p m3) (tss_set_pci_io c (tss_set_ata_io a (m_tss m3)))))))\<rparr>)"

subsection \<open>schedule\<close>

datatype outcome = Sched_Return | Sched_Halt | Resume_Kernel "u32 list" | Jump_To_Task cpu_state

definition enter_directory :: "nat \<Rightarrow> kstate \<Rightarrow> kstate" where
  "enter_directory n k = (case t_vmm_dir (tsk k n) of None \<Rightarrow> k | Some d \<Rightarrow> k\<lparr>k_current_directory := d\<rparr>)"

definition dispatch :: "(nat \<Rightarrow> u32) \<Rightarrow> nat \<Rightarrow> machine \<Rightarrow> outcome \<times> machine" where
  "dispatch stack_addr n m =
     (let t = tsk (m_k m) n;
          user = (t_type t = TASK_TYPE_USER);
          m1 = (if user then m\<lparr>m_tss := tss_set_stack 0x10 (case t_kernel_stack_p t of None \<Rightarrow> 0 | Some s \<Rightarrow> stack_addr s) (m_tss m)\<rparr> else m);
          m2 = upd_k (enter_directory n) (switch_ports user (t_id t) m1)
      in if t_kctx_valid (tsk (m_k m2) n)
         then (Resume_Kernel (t_kctx (tsk (m_k m2) n)), upd_k (upd_task n (\<lambda>t. t\<lparr>t_kctx_valid := False\<rparr>)) m2)
         else (Jump_To_Task (t_cpu_state (tsk (m_k m2) n)), m2))"

definition schedule :: "(nat \<Rightarrow> u32) \<Rightarrow> cpu_state \<Rightarrow> machine \<Rightarrow> outcome \<times> machine" where
  "schedule stack_addr cpu m =
     (let now = k_ticks (m_k m);
          m1 = ata_rpc_sched_hook now (upd_k task_reap_deferred m)
      in (case k_current (m_k m1) of
            None \<Rightarrow> (Sched_Return, m1)
          | Some cur \<Rightarrow>
              (case sched_leave cpu cur (m_k m1) of
                 None \<Rightarrow> (Sched_Halt, upd_k (\<lambda>k. (unlink_task cur k)\<lparr>k_deferred_reap := Some cur\<rparr>) m1)
               | Some k1 \<Rightarrow>
                   (case k_current (sched_enter k1) of
                      None \<Rightarrow> (Sched_Return, m1\<lparr>m_k := sched_enter k1\<rparr>)
                    | Some n \<Rightarrow> dispatch stack_addr n (m1\<lparr>m_k := sched_enter k1\<rparr>)))))"

subsection \<open>Frames\<close>

lemma upd_k_simps [simp]:
  "m_k (upd_k f m) = f (m_k m)" "m_reg (upd_k f m) = m_reg m" "m_ata (upd_k f m) = m_ata m" "m_fsop (upd_k f m) = m_fsop m"
  "m_nic (upd_k f m) = m_nic m" "m_dev (upd_k f m) = m_dev m" "m_tss (upd_k f m) = m_tss m" "m_usb_base (upd_k f m) = m_usb_base m"
  "m_rpc_waiter (upd_k f m) = m_rpc_waiter m" "m_rpc_kind (upd_k f m) = m_rpc_kind m"
  "m_rpc_started (upd_k f m) = m_rpc_started m" "m_rpc_aborted (upd_k f m) = m_rpc_aborted m"
  by (simp_all add: upd_k_def)

lemma claim_frame [simp]: "aj_claim_pid (ata_job_io_cancel a) = aj_claim_pid a" "aj_claim_pid (ata_job_note_rpc_abort a) = aj_claim_pid a"
  by (simp_all add: ata_job_io_cancel_def ata_job_note_rpc_abort_def upd_stats_def)

lemma abort_frame [simp]:
  "m_reg (ata_rpc_abort m) = m_reg m" "m_nic (ata_rpc_abort m) = m_nic m" "m_dev (ata_rpc_abort m) = m_dev m"
  "m_tss (ata_rpc_abort m) = m_tss m" "m_usb_base (ata_rpc_abort m) = m_usb_base m"
  "aj_claim_pid (m_ata (ata_rpc_abort m)) = aj_claim_pid (m_ata m)"
  by (simp_all add: ata_rpc_abort_def Let_def split: option.split)

lemma hook_frame [simp]:
  "m_reg (ata_rpc_sched_hook now m) = m_reg m" "m_nic (ata_rpc_sched_hook now m) = m_nic m"
  "m_dev (ata_rpc_sched_hook now m) = m_dev m" "m_tss (ata_rpc_sched_hook now m) = m_tss m"
  "m_usb_base (ata_rpc_sched_hook now m) = m_usb_base m" "aj_claim_pid (m_ata (ata_rpc_sched_hook now m)) = aj_claim_pid (m_ata m)"
  by (simp_all add: ata_rpc_sched_hook_def split: option.split)

subsection \<open>The grants\<close>

lemma driver_names_valid:
  "service_registry_name_valid ''pci-driver''" "cstr ''pci-driver'' = ''pci-driver''"
  "service_registry_name_valid ''net-driver''" "cstr ''net-driver'' = ''net-driver''"
  "service_registry_name_valid ''ata-driver''" "cstr ''ata-driver'' = ''ata-driver''"
  by code_simp+

lemma service_lookup_facts:
  assumes "registry_ok (m_reg m)" "service_registry_name_valid n"
  shows "m_k (snd (service_lookup n m)) = m_k m" "m_ata (snd (service_lookup n m)) = m_ata m" "m_nic (snd (service_lookup n m)) = m_nic m"
    "m_dev (snd (service_lookup n m)) = m_dev m" "m_tss (snd (service_lookup n m)) = m_tss m"
    "m_usb_base (snd (service_lookup n m)) = m_usb_base m" "registry_ok (m_reg (snd (service_lookup n m)))"
    "owner_of tv (m_reg (snd (service_lookup n m))) = owner_of tv (m_reg m) \<or> tv \<noteq> task_view_of (m_k m)"
    "fst (service_lookup n m) = (case owner_of (task_view_of (m_k m)) (m_reg m) (cstr n) of None \<Rightarrow> OS_SERVICE_NOT_FOUND | Some p \<Rightarrow> p)"
proof -
  obtain v r where r: "service_registry_lookup (task_view_of (m_k m)) n (m_reg m) = (v, r)" by force
  then have eq: "service_lookup n m = (v, m\<lparr>m_reg := r\<rparr>)" by (simp add: service_lookup_def)
  note f = lookup_facts [OF assms(1) r]
  show "m_k (snd (service_lookup n m)) = m_k m" "m_ata (snd (service_lookup n m)) = m_ata m" "m_nic (snd (service_lookup n m)) = m_nic m"
    "m_dev (snd (service_lookup n m)) = m_dev m" "m_tss (snd (service_lookup n m)) = m_tss m"
    "m_usb_base (snd (service_lookup n m)) = m_usb_base m" "registry_ok (m_reg (snd (service_lookup n m)))"
    "owner_of tv (m_reg (snd (service_lookup n m))) = owner_of tv (m_reg m) \<or> tv \<noteq> task_view_of (m_k m)"
    "fst (service_lookup n m) = (case owner_of (task_view_of (m_k m)) (m_reg m) (cstr n) of None \<Rightarrow> OS_SERVICE_NOT_FOUND | Some p \<Rightarrow> p)"
    using f assms(2) by (auto simp: eq split: option.split)
qed

lemma grant_ata_facts:
  assumes "0 < p"
  shows "fst (grant_ata user p m) \<longleftrightarrow> user \<and> service_right_held (task_view_of (m_k m)) ''ata-driver'' p (m_reg m) \<and> aj_claim_pid (m_ata m) = p"
    "m_k (snd (grant_ata user p m)) = m_k m" "m_reg (snd (grant_ata user p m)) = m_reg m" "m_nic (snd (grant_ata user p m)) = m_nic m"
    "m_dev (snd (grant_ata user p m)) = m_dev m" "m_tss (snd (grant_ata user p m)) = m_tss m" "m_usb_base (snd (grant_ata user p m)) = m_usb_base m"
  using assms by (auto simp: grant_ata_def service_registry_ata_ports_granted_def ata_owner_ports_open_def ata_owner_holder_def Let_def case_prod_beta)

lemma grant_pci_facts:
  assumes "0 < p" "registry_ok (m_reg m)"
  defines "tv \<equiv> task_view_of (m_k m)"
  shows "fst (grant_pci user p m) \<longleftrightarrow> user \<and> owner_of tv (m_reg m) ''pci-driver'' = Some p \<and> live_task_named ''pcidriver'' p (m_k m)"
    "m_k (snd (grant_pci user p m)) = m_k m" "registry_ok (m_reg (snd (grant_pci user p m)))"
    "owner_of tv (m_reg (snd (grant_pci user p m))) = owner_of tv (m_reg m)" "m_nic (snd (grant_pci user p m)) = m_nic m"
    "m_dev (snd (grant_pci user p m)) = m_dev m" "m_tss (snd (grant_pci user p m)) = m_tss m" "m_usb_base (snd (grant_pci user p m)) = m_usb_base m"
proof -
  note f = service_lookup_facts [OF assms(2) driver_names_valid(1), unfolded driver_names_valid(2)]
  show "fst (grant_pci user p m) \<longleftrightarrow> user \<and> owner_of tv (m_reg m) ''pci-driver'' = Some p \<and> live_task_named ''pcidriver'' p (m_k m)"
    using assms(1) f(1,9) owner_of_valid(2) [OF assms(2), of _ "''pci-driver''", unfolded driver_names_valid(2)]
    by (auto simp: grant_pci_def pci_live_driver_def live_driver_def case_prod_beta tv_def split: option.splits)
  show "m_k (snd (grant_pci user p m)) = m_k m" "registry_ok (m_reg (snd (grant_pci user p m)))"
    "owner_of tv (m_reg (snd (grant_pci user p m))) = owner_of tv (m_reg m)" "m_nic (snd (grant_pci user p m)) = m_nic m"
    "m_dev (snd (grant_pci user p m)) = m_dev m" "m_tss (snd (grant_pci user p m)) = m_tss m" "m_usb_base (snd (grant_pci user p m)) = m_usb_base m"
    using f assms(2) by (auto simp: grant_pci_def pci_live_driver_def live_driver_def case_prod_beta tv_def)
qed

lemma grant_nic_facts:
  assumes "0 < p" "registry_ok (m_reg m)"
  shows "fst (grant_nic user p m) \<longleftrightarrow> user \<and> no_owner (m_nic m) = p \<and> owner_of (task_view_of (m_k m)) (m_reg m) ''net-driver'' = Some p"
    "m_k (snd (grant_nic user p m)) = m_k m"
    "m_dev (snd (grant_nic user p m)) = m_dev m" "m_tss (snd (grant_nic user p m)) = m_tss m" "m_usb_base (snd (grant_nic user p m)) = m_usb_base m"
proof -
  note f = service_lookup_facts [OF assms(2) driver_names_valid(3), unfolded driver_names_valid(4)]
  show "fst (grant_nic user p m) \<longleftrightarrow> user \<and> no_owner (m_nic m) = p \<and> owner_of (task_view_of (m_k m)) (m_reg m) ''net-driver'' = Some p"
    using assms(1) f(3,9)
    by (auto simp: grant_nic_def nic_owner_ports_open_def nic_owner_pid_def case_prod_beta split: option.splits)
  show "m_k (snd (grant_nic user p m)) = m_k m"
    "m_dev (snd (grant_nic user p m)) = m_dev m" "m_tss (snd (grant_nic user p m)) = m_tss m" "m_usb_base (snd (grant_nic user p m)) = m_usb_base m"
    using f by (auto simp: grant_nic_def case_prod_beta)
qed


text \<open>Which ports a task may use, in terms of what it owns.\<close>

definition owned_port :: "machine \<Rightarrow> kstate \<Rightarrow> nat \<Rightarrow> u16 \<Rightarrow> bool" where
  "owned_port m k n q =
     (let p = t_id (tsk k n); tv = task_view_of k
      in t_type (tsk k n) = TASK_TYPE_USER \<and>
         (q \<in> set ata_ports \<and> service_right_held tv ''ata-driver'' p (m_reg m) \<and> aj_claim_pid (m_ata m) = p \<or>
          q \<in> set pci_ports \<and> owner_of tv (m_reg m) ''pci-driver'' = Some p \<and> live_task_named ''pcidriver'' p k \<or>
          q \<in> set ps2_ports \<and> devsvc_owner DEV_PS2 (m_dev m) = p \<or>
          q \<in> set serial_ports \<and> devsvc_owner DEV_SERIAL (m_dev m) = p \<or>
          q \<in> set vga_ports \<and> devsvc_owner DEV_VGA (m_dev m) = p \<or>
          m_usb_base m \<noteq> 0 \<and> q \<in> set (usb_ports (m_usb_base m)) \<and> devsvc_owner DEV_USB (m_dev m) = p \<or>
          q \<in> set ne2k_ports \<and> no_owner (m_nic m) = p \<and> owner_of tv (m_reg m) ''net-driver'' = Some p))"

lemma switch_ports_open:
  assumes "tss_ok (m_tss m)" "usb_base_clear (m_usb_base m)" "registry_ok (m_reg m)" "0 < t_id (tsk (m_k m) n)"
  defines "user \<equiv> t_type (tsk (m_k m) n) = TASK_TYPE_USER"
  shows "tss_open (m_tss (switch_ports user (t_id (tsk (m_k m) n)) m)) q \<longleftrightarrow> owned_port m (m_k m) n q"
    "m_k (switch_ports user (t_id (tsk (m_k m) n)) m) = m_k m"
proof -
  define p where "p = t_id (tsk (m_k m) n)"
  have p: "0 < p" using assms(4) by (simp add: p_def)
  define m1 m2 m3 where "m1 = snd (grant_ata user p m)" and "m2 = snd (grant_pci user p m1)" and "m3 = snd (grant_nic user p m2)"
  note a = grant_ata_facts [OF p, of user m, folded m1_def]
  have r1: "registry_ok (m_reg m1)" by (simp add: a assms(3))
  note c = grant_pci_facts [OF p r1, of user, folded m2_def, unfolded a]
  note d = grant_nic_facts [OF p c(3), of user, folded m3_def, unfolded c a]
  define t where "t = tss_set_nic_io (fst (grant_nic user p m2)) (tss_set_usb_io (grant_dev DEV_USB user p m3) (m_usb_base m3)
     (tss_set_vga_io (grant_dev DEV_VGA user p m3) (tss_set_serial_io (grant_dev DEV_SERIAL user p m3)
       (tss_set_ps2_io (grant_dev DEV_PS2 user p m3) (tss_set_pci_io (fst (grant_pci user p m1)) (tss_set_ata_io (fst (grant_ata user p m)) (m_tss m3)))))))"
  have eq: "switch_ports user p m = m3\<lparr>m_tss := t\<rparr>"
    by (simp add: switch_ports_def case_prod_beta m1_def m2_def m3_def t_def)
  then show "m_k (switch_ports user (t_id (tsk (m_k m) n)) m) = m_k m" by (simp add: d flip: p_def)
  have "tss_ok t"
    unfolding t_def using assms(1,2)
    by (intro nic_sw.switch_ok tss_set_usb_ok vga_sw.switch_ok serial_sw.switch_ok ps2_sw.switch_ok pci_sw.switch_ok ata_sw.switch_ok)
      (simp_all add: d)
  then have "tss_open t q \<longleftrightarrow> q \<in> granted_ports t" by (simp add: tss_ok_def)
  also have "\<dots> \<longleftrightarrow> owned_port m (m_k m) n q"
  proof -
    define u where "u \<longleftrightarrow> grant_dev DEV_USB user p m3 \<and> m_usb_base m \<noteq> 0"
    have g: "grant_dev dev user p m3 \<longleftrightarrow> user \<and> devsvc_owner dev (m_dev m) = p" for dev by (simp add: grant_dev_def d)
    have flags: "ts_ata t = of_bool (fst (grant_ata user p m))" "ts_nic t = of_bool (fst (grant_nic user p m2))"
      "ts_pci t = of_bool (fst (grant_pci user p m1))" "ts_ps2 t = of_bool (grant_dev DEV_PS2 user p m3)"
      "ts_serial t = of_bool (grant_dev DEV_SERIAL user p m3)" "ts_vga t = of_bool (grant_dev DEV_VGA user p m3)"
      "ts_usb t = of_bool u" "u \<Longrightarrow> ts_usb_base t = m_usb_base m"
      unfolding t_def u_def by (simp_all add: d switch_usb_base)
    have "ts_usb t = 1 \<and> q \<in> set (usb_ports (ts_usb_base t)) \<longleftrightarrow> u \<and> q \<in> set (usb_ports (m_usb_base m))"
      using flags(7,8) by (cases u) simp_all
    then show ?thesis
      unfolding granted_iff flags(1-6) of_bool_eq_1_iff owned_port_def Let_def a(1) c(1) d(1) g u_def p_def [symmetric] user_def [symmetric]
      by (cases user) (simp_all, blast)
  qed
  finally show "tss_open (m_tss (switch_ports user (t_id (tsk (m_k m) n)) m)) q \<longleftrightarrow> owned_port m (m_k m) n q"
    by (simp add: eq flip: p_def)
qed


lemma owned_port_cong:
  assumes "m_reg m' = m_reg m" "aj_claim_pid (m_ata m') = aj_claim_pid (m_ata m)" "m_dev m' = m_dev m" "m_usb_base m' = m_usb_base m"
    "m_nic m' = m_nic m"
  shows "owned_port m' k n q = owned_port m k n q"
  by (simp add: owned_port_def Let_def assms)

lemma view_cong:
  assumes "queue_slots k' = queue_slots k" "\<And>i. tcore (tsk k' i) = tcore (tsk k i)"
  shows "task_view_of k' = task_view_of k" "get_task_by_id k' = get_task_by_id k"
proof -
  show g: "get_task_by_id k' = get_task_by_id k"
    by (rule get_task_by_id_cong [OF assms(1)]) (rule tcore_eqD(1) [OF assms(2)])
  show "task_view_of k' = task_view_of k"
    by (simp add: task_view_of_def task_get_identity_def task_identity_key_def g tcore_eqD [OF assms(2)] fun_eq_iff)
qed

lemma owned_port_view:
  assumes "queue_slots k' = queue_slots k" "\<And>i. tcore (tsk k' i) = tcore (tsk k i)"
    "\<And>i. t_state (tsk k' i) = t_state (tsk k i)" "\<And>i. t_name (tsk k' i) = t_name (tsk k i)"
  shows "owned_port m k' n q = owned_port m k n q"
  unfolding owned_port_def Let_def live_task_named_def view_cong [OF assms(1,2)]
  by (simp add: assms tcore_eqD [OF assms(2)] cong: option.case_cong)

lemma enter_directory_frame [simp]: "tsk (enter_directory n k) = tsk k" "queue_slots (enter_directory n k) = queue_slots k"
  "k_current (enter_directory n k) = k_current k" "k_pool (enter_directory n k) = k_pool k"
  by (simp_all add: enter_directory_def split: option.split)

lemma switch_ports_k: "m_k (switch_ports user p m) = m_k m"
  by (simp add: switch_ports_def grant_ata_def grant_pci_def grant_nic_def pci_live_driver_def live_driver_def service_lookup_def
      case_prod_beta)

lemma dispatch_k:
  assumes "dispatch stack_addr n m = (out, m')"
  shows "m_k m' = enter_directory n (m_k m) \<or> m_k m' = upd_task n (\<lambda>t. t\<lparr>t_kctx_valid := False\<rparr>) (enter_directory n (m_k m))"
    "out = (if t_kctx_valid (tsk (m_k m) n) then Resume_Kernel (t_kctx (tsk (m_k m) n)) else Jump_To_Task (t_cpu_state (tsk (m_k m) n)))"
  using assms by (auto simp: dispatch_def Let_def switch_ports_k split: if_splits)

lemma dispatch_facts:
  assumes "tss_ok (m_tss m)" "usb_base_clear (m_usb_base m)" "registry_ok (m_reg m)" "0 < t_id (tsk (m_k m) n)"
    and "dispatch stack_addr n m = (out, m')"
  shows "tss_open (m_tss m') q \<longleftrightarrow> owned_port m (m_k m') n q"
proof -
  define user where "user = (t_type (tsk (m_k m) n) = TASK_TYPE_USER)"
  define m1 where "m1 = (if user then m\<lparr>m_tss := tss_set_stack 0x10 (case t_kernel_stack_p (tsk (m_k m) n) of None \<Rightarrow> 0 | Some s \<Rightarrow> stack_addr s) (m_tss m)\<rparr> else m)"
  have m1: "tss_ok (m_tss m1)" "m_usb_base m1 = m_usb_base m" "m_reg m1 = m_reg m" "m_k m1 = m_k m" "m_ata m1 = m_ata m" "m_dev m1 = m_dev m"
    "m_nic m1 = m_nic m"
    using assms(1) by (simp_all add: m1_def tss_set_stack_ok)
  note sw = switch_ports_open [OF m1(1) assms(2) [folded m1(2)] assms(3) [folded m1(3)] assms(4) [folded m1(4)], unfolded m1(4), folded user_def]
  have t': "m_tss m' = m_tss (switch_ports user (t_id (tsk (m_k m) n)) m1)"
    using assms(5) by (auto simp: dispatch_def Let_def user_def m1_def switch_ports_k split: if_splits)
  have "owned_port m (m_k m') n q = owned_port m (m_k m) n q"
    by (rule owned_port_view) (use dispatch_k(1) [OF assms(5)] in auto)
  moreover have "owned_port m1 (m_k m) n q = owned_port m (m_k m) n q"
    by (rule owned_port_cong) (simp_all add: m1)
  ultimately show "tss_open (m_tss m') q \<longleftrightarrow> owned_port m (m_k m') n q" using sw(1) t' by simp
qed

text \<open>
  C6. After every switch the ports open to the task that now runs are exactly those of the
  devices it owns: the disk ports for the holder of the right of ata-driver that claimed the
  controller, the PCI ports for the live pcidriver that owns pci-driver, the keyboard, serial,
  screen and USB registers for the claimed owner, the card for the owner of net-driver that
  claimed it. Any other task runs with every port closed, whatever the task before it had.
\<close>

theorem schedule_opens_owned_ports:
  assumes "tss_ok (m_tss m)" "usb_base_clear (m_usb_base m)" "registry_ok (m_reg m)"
    and "schedule stack_addr cpu m = (out, m')" "out \<notin> {Sched_Return, Sched_Halt}"
    and "k_current (m_k m') = Some n" "0 < t_id (tsk (m_k m') n)"
  shows "tss_open (m_tss m') q \<longleftrightarrow> owned_port m (m_k m') n q"
proof -
  define h where "h = ata_rpc_sched_hook (k_ticks (m_k m)) (upd_k task_reap_deferred m)"
  obtain cur k1 n' where s: "k_current (m_k h) = Some cur" "sched_leave cpu cur (m_k h) = Some k1" "k_current (sched_enter k1) = Some n'"
    "dispatch stack_addr n' (h\<lparr>m_k := sched_enter k1\<rparr>) = (out, m')"
    using assms(4,5) by (auto simp: schedule_def Let_def h_def [symmetric] split: option.splits)
  let ?g = "h\<lparr>m_k := sched_enter k1\<rparr>"
  have g: "m_tss ?g = m_tss m" "m_usb_base ?g = m_usb_base m" "m_reg ?g = m_reg m" "m_dev ?g = m_dev m" "m_nic ?g = m_nic m"
    "aj_claim_pid (m_ata ?g) = aj_claim_pid (m_ata m)"
    by (simp_all add: h_def)
  have k': "t_id (tsk (m_k m') i) = t_id (tsk (m_k ?g) i)" "k_current (m_k m') = Some n'" for i
    using dispatch_k(1) [OF s(4)] s(3) by auto
  have "0 < t_id (tsk (m_k ?g) n')" using k' assms(6,7) by simp
  from dispatch_facts [OF _ _ _ this s(4), of q] have "tss_open (m_tss m') q \<longleftrightarrow> owned_port ?g (m_k m') n' q"
    using assms(1-3) g by simp
  also have "owned_port ?g (m_k m') n' q = owned_port m (m_k m') n q"
    using k'(2) assms(6) g by (simp add: owned_port_cong [of ?g m])
  finally show ?thesis .
qed

subsection \<open>A caller that waits for the disk driver comes back\<close>

definition reap_ok :: "kstate \<Rightarrow> bool" where
  "reap_ok k \<longleftrightarrow> (\<forall>d. k_deferred_reap k = Some d \<longrightarrow> d \<notin> set (queue_slots k))"

lemma release_detached_sched:
  "k_sched_only (task_release_detached t k) = k_sched_only k" "k_rr_anchor (task_release_detached t k) = k_rr_anchor k"
  by (auto simp: task_release_detached_def task_destroy_user_vmm_def task_static_vmm_release_def
      task_static_release_def upd_task_def split: option.splits vmm_dir.splits)

lemma reap_facts:
  assumes "sched_ok k" "reap_ok k"
  shows "sched_ok (task_reap_deferred k)" "queue_slots (task_reap_deferred k) = queue_slots k"
    "k_current (task_reap_deferred k) = k_current k" "k_sched_only (task_reap_deferred k) = k_sched_only k"
    "k_ticks (task_reap_deferred k) = k_ticks k"
    "i \<in> set (queue_slots k) \<Longrightarrow> tsk (task_reap_deferred k) i = tsk k i"
proof -
  let ?k = "k\<lparr>k_deferred_reap := None\<rparr>"
  have wf: "kwf ?k" using sched_okD(1) [OF assms(1)] by simp
  have qs: "queue_slots (task_release_detached t ?k) = queue_slots k \<and> kwf (task_release_detached t ?k)"
    if "\<forall>d. t = Some d \<longrightarrow> d \<notin> set (queue_slots k)" for t
    using kwf_release_detached [OF wf] wf that by (cases t) (auto simp: task_release_detached_def)
  have nq: "\<forall>d. k_deferred_reap k = Some d \<longrightarrow> d \<notin> set (queue_slots k)" using assms(2) by (simp add: reap_ok_def)
  note q = qs [OF nq]
  show "queue_slots (task_reap_deferred k) = queue_slots k" using q by (simp add: task_reap_deferred_def)
  show gl: "k_current (task_reap_deferred k) = k_current k" "k_sched_only (task_reap_deferred k) = k_sched_only k"
    "k_ticks (task_reap_deferred k) = k_ticks k"
    by (simp_all add: task_reap_deferred_def release_detached_globals release_detached_sched)
  show t: "tsk (task_reap_deferred k) i = tsk k i" if "i \<in> set (queue_slots k)" for i
  proof (cases "k_deferred_reap k")
    case None
    then show ?thesis by (simp add: task_reap_deferred_def task_release_detached_def)
  next
    case (Some d)
    then have "i \<noteq> d" using that nq by auto
    with Some show ?thesis using release_detached_other [of i d ?k] by (simp add: task_reap_deferred_def)
  qed
  show "sched_ok (task_reap_deferred k)"
    using q sched_okD [OF assms(1)] t gl
    by (auto simp: sched_ok_def task_reap_deferred_def release_detached_sched release_detached_globals)
qed

lemma sched_leave_Some:
  assumes "sched_ok k" "k_current k = Some cur" "k_queue k \<noteq> None"
    and "t_state (tsk k cur) = TASK_TERMINATED \<longrightarrow> (\<exists>i\<in>set (queue_slots k). i \<noteq> cur)"
  shows "\<exists>k1. sched_leave cpu cur k = Some k1"
proof (cases "t_state (tsk k cur) = TASK_TERMINATED")
  case False
  then show ?thesis using assms(2) by (auto simp: sched_leave_def Let_def split: option.splits)
next
  case True
  note wf = sched_okD(1) [OF assms(1)] and cur = kwf_current [OF sched_okD(1) [OF assms(1)] assms(2,3)]
  obtain i where i: "i \<in> set (queue_slots k)" "i \<noteq> cur" using assms(4) True by blast
  then have "queue_slots k \<noteq> [cur]" by auto
  from unlink_current [OF wf cur(1) this] obtain c where c: "k_current (unlink_task cur k) = Some c" by blast
  have "i \<in> set (queue_slots (unlink_task cur k))" using i by (simp add: kwf_unlink(2) [OF wf cur(1)])
  then have "k_queue (unlink_task cur k) \<noteq> None" by (cases "k_queue (unlink_task cur k)") (simp_all add: queue_slots_def)
  with c True show ?thesis by (auto simp: sched_leave_def Let_def)
qed

text \<open>A pinned ready task is the one that runs next, with its continuation.\<close>

lemma pinned_runs:
  assumes "sched_ok k" "k_current k = Some cur" "k_sched_only k = Some w" "t_state (tsk k w) = TASK_READY"
  shows "\<exists>k1. sched_leave cpu cur k = Some k1 \<and> k_current (sched_enter k1) = Some w \<and>
    t_state (tsk (sched_enter k1) w) = TASK_RUNNING \<and> t_kctx_valid (tsk (sched_enter k1) w) = t_kctx_valid (tsk k w) \<and>
    t_kctx (tsk (sched_enter k1) w) = t_kctx (tsk k w)"
proof -
  have w: "w \<in> set (queue_slots k)" using sched_okD(3) [OF assms(1,3)] .
  have q: "k_queue k \<noteq> None" using w by (cases "k_queue k") (simp_all add: queue_slots_def)
  have ended: "t_state (tsk k cur) = TASK_TERMINATED \<Longrightarrow> w \<noteq> cur" using assms(4) by auto
  obtain k1 where k1: "sched_leave cpu cur k = Some k1"
    using sched_leave_Some [OF assms(1,2) q] w ended by blast
  have pin: "k_sched_only k = Some cur \<longrightarrow> t_state (tsk k cur) \<noteq> TASK_TERMINATED" using assms(3) ended by auto
  note lf = sched_leave_facts [OF assms(1,2) q pin k1]
  have kept: "w \<in> set (queue_slots k1) \<and> t_state (tsk k1 w) = TASK_READY \<and> k_sched_only k1 = Some w \<and>
      t_kctx_valid (tsk k1 w) = t_kctx_valid (tsk k w) \<and> t_kctx (tsk k1 w) = t_kctx (tsk k w)"
  proof (cases "t_state (tsk k cur) = TASK_TERMINATED")
    case False
    note l = sched_leave_live [OF assms(1,2) q False k1]
    show ?thesis using w assms(3,4) by (simp add: l)
  next
    case True
    have only: "k_sched_only k \<noteq> Some cur" using assms(3) ended [OF True] by simp
    note l = sched_leave_ended [OF assms(1,2) q True only k1]
    have "f ((tsk k1 w)\<lparr>t_next := None, t_prev := None\<rparr>) = f ((tsk k w)\<lparr>t_next := None, t_prev := None\<rparr>)" for f :: "task \<Rightarrow> 'a"
      by (simp add: l(6))
    from this [of t_state] this [of t_kctx_valid] this [of t_kctx] show ?thesis
      using w assms(3,4) ended [OF True] by (simp add: l(2,5))
  qed
  obtain c where c: "k_current k1 = Some c" "c \<in> set (queue_slots k1)" using lf(2) by blast
  have "fst (sched_pick k1 (k_ticks k1) c) = w" using kept by (simp add: sched_pick_def Let_def)
  then show ?thesis
    using sched_enter_facts(2,6,12,13) [OF lf(1) c, of w] kept k1 by auto
qed


text \<open>What makes the hook give up: the time is over, or the pinned driver cannot serve the call.\<close>

definition rpc_overdue :: "machine \<Rightarrow> bool" where
  "rpc_overdue m \<longleftrightarrow>
     (if m_rpc_kind m = ATA_RPC_WAIT_STORE then k_ticks (m_k m) - m_rpc_started m > ATA_RESPAWN_WAIT_TICKS
      else k_ticks (m_k m) - m_rpc_started m > ATA_RPC_TIMEOUT_TICKS \<or> \<not> rpc_driver_serves (m_k m))"

lemma switch_ports_rpc [simp]:
  "m_rpc_aborted (switch_ports user p m) = m_rpc_aborted m" "m_fsop (switch_ports user p m) = m_fsop m"
  "aj_io_state (m_ata (switch_ports user p m)) = aj_io_state (m_ata m)"
  by (simp_all add: switch_ports_def grant_ata_def grant_pci_def grant_nic_def pci_live_driver_def live_driver_def service_lookup_def
      ata_owner_ports_open_def ata_owner_holder_def Let_def case_prod_beta)

lemma dispatch_rpc:
  assumes "dispatch stack_addr n m = (out, m')"
  shows "m_rpc_aborted m' = m_rpc_aborted m" "m_fsop m' = m_fsop m" "aj_io_state (m_ata m') = aj_io_state (m_ata m)"
  using assms by (auto simp: dispatch_def Let_def split: if_splits)

lemma abort_facts:
  assumes "m_rpc_waiter m = Some w" "t_state (tsk (m_k m) w) = TASK_BLOCKED_KERNEL"
  shows "m_k (ata_rpc_abort m) = (upd_task w (\<lambda>t. t\<lparr>t_state := TASK_READY\<rparr>) (m_k m))\<lparr>k_sched_only := Some w\<rparr>"
    "m_rpc_aborted (ata_rpc_abort m)" "m_rpc_kind m = ATA_RPC_IO \<Longrightarrow> aj_io_state (m_ata (ata_rpc_abort m)) = ATA_IO_NONE"
    "m_rpc_kind m = ATA_RPC_FSOP \<Longrightarrow> m_fsop (ata_rpc_abort m) = ata_fsop_abort (m_fsop m)"
  using assms by (auto simp: ata_rpc_abort_def Let_def ata_job_io_cancel_def upd_stats_def)

lemma sched_ok_unblock:
  assumes "sched_ok k" "w \<in> set (queue_slots k)"
  shows "sched_ok ((upd_task w (\<lambda>t. t\<lparr>t_state := TASK_READY\<rparr>) k)\<lparr>k_sched_only := Some w\<rparr>)"
proof -
  have "kwf (upd_task w (\<lambda>t. t\<lparr>t_state := TASK_READY\<rparr>) k)"
    by (rule kwf_upd_task [OF sched_okD(1) [OF assms(1)]]) (simp_all add: task_ok_state)
  moreover have "w < length (k_pool k)"
    using kwf_sizes(1,8) [OF sched_okD(1) [OF assms(1)]] assms(2) by simp
  ultimately show ?thesis
    using sched_okD(2,4) [OF assms(1)] assms(2) by (auto simp: sched_ok_def)
qed

lemma rpc_hook_aborts:
  assumes "sched_ok (m_k m)" "reap_ok (m_k m)" "m_rpc_waiter m = Some w" "w \<in> set (queue_slots (m_k m))"
    and "t_state (tsk (m_k m) w) = TASK_BLOCKED_KERNEL" "rpc_overdue m"
  shows "ata_rpc_sched_hook (k_ticks (m_k m)) (upd_k task_reap_deferred m) = ata_rpc_abort (upd_k task_reap_deferred m)"
proof -
  note rf = reap_facts [OF assms(1,2)]
  have "rpc_driver_serves (task_reap_deferred (m_k m)) = rpc_driver_serves (m_k m)"
    using sched_okD(3) [OF assms(1)] rf(6) by (auto simp: rpc_driver_serves_def rf(4) split: option.split)
  then show ?thesis
    using assms(3,5,6) rf(6) [OF assms(4)] by (simp add: ata_rpc_sched_hook_def rpc_overdue_def split: if_splits)
qed


subsection \<open>An example\<close>

text \<open>Three tasks of one priority; task 2 has claimed the keyboard.\<close>

definition desk :: "kstate \<Rightarrow> machine" where
  "desk k = \<lparr>m_k = k, m_reg = blank_registry, m_ata = idle_job, m_fsop = idle_fsop, m_nic = nic_owner_init,
     m_dev = devsvc_set_owner DEV_PS2 2 devsvc_reset, m_tss = gdt_init_tss blank_tss, m_usb_base = 0xC040,
     m_rpc_waiter = None, m_rpc_kind = ATA_RPC_NONE, m_rpc_started = 0, m_rpc_aborted = False\<rparr>"

definition desk_state :: kstate where
  "desk_state = turn_state\<lparr>k_deferred_reap := None\<rparr>"

lemma desk_state_facts:
  "turns_ok 2 desk_state" "runnable_users desk_state = [1, 2, 3]" "k_current desk_state = Some 1" "task_reap_deferred desk_state = desk_state"
  "sched_ok desk_state" "queue_slots desk_state = [0, 1, 2, 3]" "reap_ok desk_state" "k_sched_only desk_state = None"
  "tsk desk_state = tsk turn_state"
proof -
  have d: "tsk desk_state = tsk turn_state" "queue_slots desk_state = queue_slots turn_state" "k_current desk_state = k_current turn_state"
    "k_gets_waiter desk_state = k_gets_waiter turn_state" "k_sched_only desk_state = k_sched_only turn_state"
    "k_rr_anchor desk_state = k_rr_anchor turn_state" "kwf desk_state" "k_deferred_reap desk_state = None"
    using turn_state_facts(1) by (simp_all add: desk_state_def)
  show "tsk desk_state = tsk turn_state" "queue_slots desk_state = [0, 1, 2, 3]" "k_current desk_state = Some 1" "k_sched_only desk_state = None"
    by (simp_all add: d turn_state_facts)
  show ok: "sched_ok desk_state" using turn_state_ok(1) d by (simp add: sched_ok_def)
  show users: "runnable_users desk_state = [1, 2, 3]" using turn_state_ok(2) by (simp add: runnable_users_def d)
  show "turns_ok 2 desk_state" using turn_state_ok(2,3) ok users by (simp add: turns_ok_def d)
  show "reap_ok desk_state" by (simp add: reap_ok_def d)
  have "desk_state\<lparr>k_deferred_reap := None\<rparr> = desk_state" using d(8) by (cases desk_state) simp
  then show "task_reap_deferred desk_state = desk_state" by (simp add: task_reap_deferred_def task_release_detached_def d(8))
qed

lemma desk_usb: "usb_base_clear 0xC040"
  by (simp add: usb_base_clear_def fixed_ports_def usb_ports_def fixed_sets)

lemma turn_state_id: "t_id (tsk turn_state 2) = 2"
  using family_facts(15) kwf_sizes(1) [OF family_facts(1)] by (simp add: turn_state_def)

theorem schedule_opens_owned_ports_witness:
  "let m' = snd (schedule (\<lambda>_. 0) zero_cpu_state (desk desk_state))
   in k_current (m_k m') = Some 2 \<and> tss_open (m_tss m') 0x60 \<and> \<not> tss_open (m_tss m') 0x1F0"
proof -
  note f = desk_state_facts
  have c: "k_current desk_state = Some (runnable_users desk_state ! 0)" by (simp add: f)
  obtain k' where k': "sched_switch zero_cpu_state desk_state = Some k'" "k_current k' = Some 2" "\<forall>j. tcore (tsk k' j) = tcore (tsk desk_state j)"
    using turns_switch [OF f(1) _ c, of zero_cpu_state] by (auto simp: f)
  then obtain k1 where k1: "sched_leave zero_cpu_state 1 desk_state = Some k1" "k' = sched_enter k1"
    by (auto simp: sched_switch_def f)
  obtain out m' where d: "dispatch (\<lambda>_. 0) 2 ((desk desk_state)\<lparr>m_k := k'\<rparr>) = (out, m')" by force
  have "upd_k task_reap_deferred (desk desk_state) = desk desk_state" by (simp add: upd_k_def desk_def f)
  then have sch: "schedule (\<lambda>_. 0) zero_cpu_state (desk desk_state) = (out, m')"
    using k1 k'(2) d by (simp add: schedule_def Let_def ata_rpc_sched_hook_def f, simp add: desk_def f)
  have out: "out \<notin> {Sched_Return, Sched_Halt}" using dispatch_k(2) [OF d] by (simp split: if_splits)
  have t2: "tcore (tsk (m_k m') 2) = tcore (tsk turn_state 2)" and cur: "k_current (m_k m') = Some 2"
    using dispatch_k(1) [OF d] k'(2,3) by (auto simp: f(9))
  have id: "t_id (tsk (m_k m') 2) = 2" "t_type (tsk (m_k m') 2) = TASK_TYPE_USER"
    using tcore_eqD(1,5) [OF t2] turn_state_id turn_state_facts(13) by simp_all
  have pre: "tss_ok (m_tss (desk desk_state))" "usb_base_clear (m_usb_base (desk desk_state))" "registry_ok (m_reg (desk desk_state))"
    by (simp_all add: desk_def tss_init_ok desk_usb registry_ok_blank)
  have "tss_open (m_tss m') q \<longleftrightarrow> owned_port (desk desk_state) (m_k m') 2 q" for q
    by (rule schedule_opens_owned_ports [OF pre sch out cur]) (simp add: id)
  moreover have "devsvc_owner DEV_PS2 (m_dev (desk desk_state)) = 2"
    by (simp add: desk_def devsvc_owner_def dev_valid_def devsvc_set_owner_def dev_at_def upd_dev_def upd_ps2_def devsvc_reset_def Let_def)
  moreover have "\<not> service_right_held tv n 2 blank_registry" for tv n
    by (auto simp: service_right_held_def blank_registry_def)
  ultimately show ?thesis
    using cur id by (simp add: sch Let_def owned_port_def fixed_sets, simp add: desk_def usb_ports_def)
qed


text \<open>Task 2 waits for a sector since tick 0; it is tick 301.\<close>

definition blocked_state :: kstate where
  "blocked_state = (upd_task 2 (\<lambda>t. t\<lparr>t_state := TASK_BLOCKED_KERNEL, t_kctx_valid := True, t_kctx := [4096]\<rparr>) desk_state)\<lparr>k_ticks := 301\<rparr>"

lemma blocked_state_facts:
  "sched_ok blocked_state" "reap_ok blocked_state" "k_current blocked_state = Some 1" "2 \<in> set (queue_slots blocked_state)"
  "t_state (tsk blocked_state 2) = TASK_BLOCKED_KERNEL" "t_kctx_valid (tsk blocked_state 2)" "t_kctx (tsk blocked_state 2) = [4096]"
  "k_ticks blocked_state = 301"
proof -
  note f = desk_state_facts
  have len: "length (k_pool desk_state) = 16" by (rule kwf_sizes(1) [OF sched_okD(1) [OF f(5)]])
  have wf: "kwf blocked_state"
    unfolding blocked_state_def kwf_sched_globals
    by (rule kwf_upd_task [OF sched_okD(1) [OF f(5)]]) (simp_all add: task_ok_state)
  have k: "queue_slots blocked_state = [0, 1, 2, 3]" "k_current blocked_state = Some 1" "k_sched_only blocked_state = None"
    "k_rr_anchor blocked_state = None" "k_deferred_reap blocked_state = k_deferred_reap desk_state"
    using turn_state_facts(6) by (simp_all add: blocked_state_def f, simp add: desk_state_def)
  have t: "tsk blocked_state i = (if i = 2 then (tsk turn_state 2)\<lparr>t_state := TASK_BLOCKED_KERNEL, t_kctx_valid := True, t_kctx := [4096]\<rparr> else tsk turn_state i)" for i
    using len by (simp add: blocked_state_def f(9))
  show "sched_ok blocked_state"
    using wf turn_state_facts by (simp add: sched_ok_def k t)
  show "reap_ok blocked_state" using f(6,7) by (simp add: reap_ok_def k)
  show "k_current blocked_state = Some 1" "2 \<in> set (queue_slots blocked_state)" "t_state (tsk blocked_state 2) = TASK_BLOCKED_KERNEL"
    "t_kctx_valid (tsk blocked_state 2)" "t_kctx (tsk blocked_state 2) = [4096]"
    by (simp_all add: k t)
  show "k_ticks blocked_state = 301" by (simp add: blocked_state_def)
qed


end
