(* ===== verification/Kernel_Run.thy ===== *)
theory Kernel_Run
  imports Task_Calls Dispatch
begin

text \<open>
  What holds in every state the kernel reaches: the task calls, the message calls, the clock and
  the scheduler keep the task state well formed, leave at most the current task running and never
  let a task sleep while a message waits for it. Between two calls no task waits for the disk
  driver, so no task is pinned.
\<close>

subsection \<open>Steady operations\<close>

text \<open>Operations that keep the frame of the task state and lose no wake-up.\<close>

definition steady :: "kstate \<Rightarrow> kstate \<Rightarrow> bool" where
  "steady k k' \<longleftrightarrow> tframe k k' \<and> (kwf k \<longrightarrow> no_lost_wakeup k \<longrightarrow> no_lost_wakeup k')"

named_theorems steady_intro

lemma steady_refl [simp]: "steady k k"
  by (simp add: steady_def)

lemma steady_trans [trans]: "steady a b \<Longrightarrow> steady b c \<Longrightarrow> steady a c"
  unfolding steady_def using tframe_trans tframe_kwf by blast

lemma steady_upd:
  assumes "tcore (f (tsk k i)) = tcore (tsk k i)" and "task_ok (tsk k i) \<Longrightarrow> task_ok (f (tsk k i))"
    and "t_state (f (tsk k i)) = t_state (tsk k i) \<or> t_state (f (tsk k i)) \<notin> {TASK_BLOCKED_IPC, TASK_RUNNING}"
    and "t_ipc_endpoint (f (tsk k i)) = t_ipc_endpoint (tsk k i)"
  shows "steady k (upd_task i f k)"
  using assms tframe_upd [of f k i] no_lost_upd [of k f i] by (auto simp: steady_def)

lemma steady_set_state: "s \<notin> {TASK_BLOCKED_IPC, TASK_RUNNING} \<Longrightarrow> steady k (upd_task i (\<lambda>t. t\<lparr>t_state := s\<rparr>) k)"
  by (rule steady_upd) (auto simp: tcore_def task_ok_def exit_log_def event_log_def)

lemma steady_set_waiter: "steady k (upd_task i (\<lambda>t. t\<lparr>t_waiter_pid := w\<rparr>) k)"
  by (rule steady_upd) simp_all

lemma steady_set_parent: "steady k (upd_task i (\<lambda>t. t\<lparr>t_parent_pid := w\<rparr>) k)"
  by (rule steady_upd) simp_all

lemma steady_fold:
  assumes "\<And>x k. steady k (f x k)"
  shows "steady k (fold f xs k)"
  by (induction xs arbitrary: k) (auto intro: steady_trans assms)

lemma steady_record:
  assumes "\<And>i. p = Some i \<Longrightarrow> i \<in> set (queue_slots k)"
  shows "steady k (task_record_supervision_event p a c r d k)"
proof (cases p)
  case None
  then show ?thesis by (simp add: task_record_supervision_event_def)
next
  case (Some i)
  then show ?thesis using assms no_lost_record [of k i a c r d] by (auto simp: steady_def)
qed

lemma steady_report_exit: "steady k (task_report_parent_exit (Some c) code reason k)"
  using no_lost_report_exit by (auto simp: steady_def)

lemma steady_wake_waiter: "steady k (task_wake_waiter c k)"
  by (auto simp: task_wake_waiter_def Let_def split: option.splits
      intro: steady_set_waiter steady_trans [OF steady_set_state steady_set_waiter])

lemma steady_reparent: "steady k (task_reparent_children d k)"
  unfolding task_reparent_children_def by (rule steady_fold) (auto intro: steady_set_parent)

subsection \<open>Task control\<close>

lemma steady_wait_any_loop: "steady k (snd (wait_any_loop r xs found k))"
proof (induction xs arbitrary: found k)
  case (Cons i xs)
  let ?k = "upd_task i (\<lambda>t. t\<lparr>t_waiter_pid := r\<rparr>) k"
  have "steady k (snd (wait_any_loop r xs True ?k))"
    by (rule steady_trans [OF steady_set_waiter Cons.IH])
  with Cons.IH [of k found] show ?case by (simp del: tsk_upd_task)
qed simp

lemma steady_waits [steady_intro]:
  "steady k (snd (task_wait_for_child r c k))" "steady k (snd (task_wait_for_any_child r k))"
proof -
  show "steady k (snd (task_wait_for_child r c k))"
    by (auto simp: task_wait_for_child_def split: option.splits
        intro: steady_trans [OF steady_set_waiter steady_set_state])
  obtain res k1 where w: "wait_any_loop r (queue_slots k) False k = (res, k1)" by fastforce
  have "steady k k1" using steady_wait_any_loop [of k r "queue_slots k" False] w by simp
  then show "steady k (snd (task_wait_for_any_child r k))"
    by (auto simp: task_wait_for_any_child_def w split: option.splits bool.splits
        intro: steady_trans [OF _ steady_set_state])
qed

lemma steady_set_child_state:
  assumes "s \<notin> {TASK_BLOCKED_IPC, TASK_RUNNING}"
  shows "steady k (snd (task_set_child_state f s a r c k))"
proof -
  have "steady k (task_record_supervision_event (get_task_by_id k r) a c 0 0 (upd_task i (\<lambda>t. t\<lparr>t_state := s\<rparr>) k))" for i
    by (rule steady_trans [OF steady_set_state [OF assms] steady_record])
      (auto dest: get_task_by_id_SomeD(1))
  then show ?thesis by (auto simp: task_set_child_state_def split: option.splits)
qed

lemma steady_suspend_resume [steady_intro]:
  "steady k (snd (task_suspend_child r c k))" "steady k (snd (task_resume_child r c k))"
  by (simp_all add: task_suspend_child_def task_resume_child_def steady_set_child_state)

lemma remove_watch_keeps [simp]: "t_state (task_remove_supervision_watch c t) = t_state t"
  "t_ipc_endpoint (task_remove_supervision_watch c t) = t_ipc_endpoint t"
  by (simp_all add: task_remove_supervision_watch_def Let_def split: option.splits)

lemma forget_child_endpoint [simp]: "t_ipc_endpoint (forget_child c t) = t_ipc_endpoint t"
  by (simp add: forget_child_def Let_def)

lemma steady_delegate [steady_intro]: "steady k (snd (task_delegate_child rp cp sp k))"
proof -
  have "steady k (delegated r c s rp cp sp k)" if "r \<in> set (queue_slots k)" "s \<in> set (queue_slots k)" for r c s
    unfolding delegated_def
    by (rule steady_trans [OF steady_trans [OF steady_trans [OF steady_record steady_record] steady_upd] steady_set_parent])
      (use that in \<open>simp_all add: tframeD(1) [OF tframe_record]\<close>)
  then show ?thesis
    using delegate_cases [of rp cp sp k "fst (task_delegate_child rp cp sp k)" "snd (task_delegate_child rp cp sp k)"]
    by (auto dest!: get_task_by_id_SomeD(1))
qed

lemma steady_settings [steady_intro]:
  "steady k (snd (task_set_priority r p pr k))" "steady k (snd (task_set_supervision_notify r e k))"
  "steady k (snd (task_set_supervision_notify_filter r m k))" "steady k (snd (task_set_supervision_priority r p k))"
  "steady k (snd (task_set_supervision_notify_budget r m k))" "steady k (snd (task_ack_supervision_delivery_stats r k))"
  "steady k (snd (task_set_name r p nm k))"
  by (auto simp: task_set_priority_def task_set_supervision_notify_def task_set_supervision_notify_filter_def
      task_set_supervision_priority_def task_set_supervision_notify_budget_def task_ack_supervision_delivery_stats_def
      task_set_name_def tcore_def task_ok_def exit_log_def event_log_def intro!: steady_upd split: option.splits)

lemma steady_watch [steady_intro]: "steady k (snd (task_update_supervision_watch r c e k))"
  by (auto simp: task_update_supervision_watch_def Let_def remove_watch_ok split: option.splits
      intro!: steady_upd) (auto simp: tcore_def task_ok_def exit_log_def event_log_def)

subsection \<open>Reports\<close>

lemma steady_same_mail:
  assumes "tframe k k'" and "k_spill k' = k_spill k"
    and "\<And>i. t_state (tsk k' i) = t_state (tsk k i)" "\<And>i. t_ipc_endpoint (tsk k' i) = t_ipc_endpoint (tsk k i)"
  shows "steady k k'"
  using assms by (auto simp: steady_def no_lost_wakeup_def asleep_ok_def tframeD)

lemma set_last_child_keeps [simp]: "t_ipc_endpoint (set_last_child a b c d t) = t_ipc_endpoint t"
  by (simp add: set_last_child_def)

lemma steady_acks [steady_intro]:
  "steady k (snd (task_ack_child_result_history p k))" "steady k (snd (task_ack_supervision_events p k))"
  "steady k (snd (task_forget_supervision_event p s k))" "steady k (snd (task_forget_child_result_history p c k))"
proof -
  show "steady k (snd (task_ack_child_result_history p k))"
    by (rule steady_same_mail, simp) (auto simp: task_ack_child_result_history_def Let_def split: option.splits)
  show "steady k (snd (task_ack_supervision_events p k))"
    by (rule steady_same_mail, simp) (auto simp: task_ack_supervision_events_def Let_def split: option.splits)
  show "steady k (snd (task_forget_supervision_event p s k))"
    by (rule steady_same_mail, simp) (auto simp: task_forget_supervision_event_def Let_def split: option.splits)
  show "steady k (snd (task_forget_child_result_history p c k))"
    by (rule steady_same_mail, simp) (auto simp: task_forget_child_result_history_def Let_def split: option.splits)
qed

text \<open>A kernel message for one task, queued or spilled, then the wake-up.\<close>

lemma no_lost_deliver:
  assumes "kwf k" and "no_lost_wakeup k" and "i \<in> set (queue_slots k)" and "deliver_supervision i p k = (r, k')"
  shows "no_lost_wakeup (if r = 0 then task_ipc_message_queued (Some i) k' else k')"
proof -
  have f: "tframe k k'" using tframe_deliver [of k i p] assms(4) by simp
  have i: "i < length (k_pool k)" "i < length (k_pool k')" "task_ok (tsk k' i)"
    using kwf_sizes(1,8) [OF assms(1)] assms(3) kwf_task(2) [OF tframe_kwf [OF f assms(1)]] by (simp_all add: tframeD [OF f])
  have sp: "spill_pending (k_spill k') q \<Longrightarrow> q = t_id (tsk k i) \<or> spill_pending (k_spill k) q" for q
    using deliver_spill [of i p k q] assms(4) by simp
  have other: "j \<noteq> i \<Longrightarrow> tsk k' j = tsk k j" for j using deliver_other [of j i p k] assms(4) by simp
  show ?thesis
  proof (cases "r = 0")
    case True
    have "no_lost_wakeup (task_ipc_message_queued (Some i) k')"
      by (rule no_lost_local [OF assms(1-3) tframe_trans [OF f tframe_message_queued]])
        (use sp message_queued_awake [OF i(2,3)] in \<open>simp_all add: message_queued_other other asleep_ok_def\<close>)
    with True show ?thesis by simp
  next
    case False
    have "t_state (tsk k' i) = t_state (tsk k i)" using deliver_keeps(3) [where k = k and i = i and p = p] assms(4) i by simp
    then have "asleep_ok k' i = asleep_ok k i"
      using deliver_refused [OF assms(4) False i(1)] by (intro asleep_cong) (simp_all add: tframeD [OF f])
    then have "no_lost_wakeup k'"
      using assms(2,3) by (intro no_lost_local [OF assms(1-3) f other sp]) (simp_all add: no_lost_wakeup_def)
    with False show ?thesis by simp
  qed
qed

lemma steady_deliver:
  assumes "i \<in> set (queue_slots k)" and "deliver_supervision i p k = (r, k')"
  shows "steady k (if r = 0 then task_ipc_message_queued (Some i) k' else k')"
proof -
  have "tframe k k'" using tframe_deliver [of k i p] assms(2) by simp
  then have "tframe k (if r = 0 then task_ipc_message_queued (Some i) k' else k')"
    using tframe_trans [OF _ tframe_message_queued] by simp
  then show ?thesis using no_lost_deliver [OF _ _ assms] by (simp add: steady_def)
qed

lemma steady_stats:
  "steady k (upd_task i (\<lambda>t. t\<lparr>t_supervision_delivery_attempted := a t\<rparr>) k)"
  "steady k (upd_task i (\<lambda>t. t\<lparr>t_supervision_delivery_delivered := a t\<rparr>) k)"
  "steady k (upd_task i (\<lambda>t. t\<lparr>t_supervision_delivery_dropped := a t\<rparr>) k)"
  by (rule steady_upd; simp)+

lemma steady_replay [steady_intro]: "steady k (snd (task_replay_supervision_event p s k))"
proof -
  have "steady k (snd (if r = 0
      then (0, upd_task i (\<lambda>t. t\<lparr>t_supervision_delivery_delivered := t_supervision_delivery_delivered t + 1\<rparr>) (task_ipc_message_queued (Some i) k2))
      else (r, upd_task i (\<lambda>t. t\<lparr>t_supervision_delivery_dropped := t_supervision_delivery_dropped t + 1\<rparr>) k2)))"
    if d: "deliver_supervision i pl (upd_task i (\<lambda>t. t\<lparr>t_supervision_delivery_attempted := t_supervision_delivery_attempted t + 1\<rparr>) k) = (r, k2)"
      and i: "live_user k p = Some i" for i pl r k2
  proof -
    have "i \<in> set (queue_slots k)"
      using i by (auto simp: live_user_def dest: get_task_by_id_SomeD(1) split: option.splits if_splits)
    then have "steady k (if r = 0 then task_ipc_message_queued (Some i) k2 else k2)"
      by (intro steady_trans [OF steady_stats(1) steady_deliver [OF _ d]]) simp
    then show ?thesis by (auto intro: steady_trans steady_stats(2,3) split: if_splits)
  qed
  then show ?thesis
    by (auto simp: task_replay_supervision_event_def Let_def split: option.splits prod.splits)
qed

lemma steady_tick [steady_intro]: "steady k (task_ipc_wait_tick now k)"
  unfolding task_ipc_wait_tick_def
  by (intro steady_fold steady_upd) (auto simp: tick_task_ok, auto simp: ipc_wait_tick_task_def split: prod.splits if_splits)

lemma steady_end_task [steady_intro]: "steady k (end_task code reason c k)"
  unfolding end_task_def
  by (rule steady_trans [OF steady_trans [OF steady_trans [OF steady_report_exit steady_wake_waiter] steady_reparent] steady_set_state])
    simp

lemma steady_kill_prepared: "steady k (kill_prepared c k)"
  using steady_end_task by (simp add: kill_prepared_def end_task_def)

lemma steady_send [steady_intro]: "steady k (snd (sys_ipc_send r target payload k))"
proof -
  have "steady k (if v = 0 then task_ipc_message_queued (Some i) (upd_task i (\<lambda>t. t\<lparr>t_ipc_endpoint := e\<rparr>) k)
      else upd_task i (\<lambda>t. t\<lparr>t_ipc_endpoint := e\<rparr>) k)"
    if "get_task_by_id k q = Some i" "ipc_endpoint_send (t_ipc_endpoint (tsk k i)) s (Some p) = (v, e)" for q i s p v e
    using that no_lost_send [OF _ _ get_task_by_id_SomeD(1) [OF that(1)] that(2)] tframe_endpoint_send [OF that(2)]
      tframe_trans [OF tframe_endpoint_send [OF that(2)] tframe_message_queued] by (simp add: steady_def)
  then show ?thesis
    by (auto simp: sys_ipc_send_def Let_def split: option.splits prod.splits if_splits)
qed

subsection \<open>The invariant\<close>

text \<open>The task that ended last is off the queue and keeps its slot until it is released.\<close>

definition reap_held :: "kstate \<Rightarrow> bool" where
  "reap_held k \<longleftrightarrow> (\<forall>d. k_deferred_reap k = Some d \<longrightarrow> d \<notin> set (queue_slots k) \<and> k_used k ! d \<and> d < 16)"

definition kernel_ok :: "kstate \<Rightarrow> bool" where
  "kernel_ok k \<longleftrightarrow> sched_ok k \<and> k_sched_only k = None \<and> no_lost_wakeup k \<and> reap_held k \<and>
     (\<forall>i\<in>set (queue_slots k). t_type (tsk k i) = TASK_TYPE_USER \<longrightarrow> 0 < t_id (tsk k i))"

lemma kernel_okD:
  assumes "kernel_ok k"
  shows "kwf k" "sched_ok k" "k_sched_only k = None" "no_lost_wakeup k" "reap_held k" "reap_ok k"
    "i \<in> set (queue_slots k) \<Longrightarrow> t_type (tsk k i) = TASK_TYPE_USER \<Longrightarrow> 0 < t_id (tsk k i)"
  using assms by (auto simp: kernel_ok_def sched_ok_def reap_held_def reap_ok_def)

lemma kernel_ok_tframe:
  assumes "kernel_ok k" and f: "tframe k k'" and "no_lost_wakeup k'"
  shows "kernel_ok k'"
proof -
  have g: "k_sched_only k' = k_sched_only k"
    using tframeD(9) [OF f] by (cases k; cases k') (simp add: kglob_def)
  note gl = kglob_eqD [OF tframeD(9) [OF f]]
  have run: "t_state (tsk k' i) = TASK_RUNNING \<Longrightarrow> t_state (tsk k i) = TASK_RUNNING" for i
    using f by (simp add: tframe_def)
  show ?thesis
    using assms(1,3) run tframe_kwf [OF f] kernel_okD(1) [OF assms(1)]
    by (auto simp: kernel_ok_def sched_ok_def reap_held_def tframeD [OF f] g gl)
qed

lemma kernel_ok_steady: "kernel_ok k \<Longrightarrow> steady k k' \<Longrightarrow> kernel_ok k'"
  using kernel_ok_tframe [of k k'] kernel_okD(1,4) [of k] by (auto simp: steady_def)

subsection \<open>Receiving\<close>

lemma no_lost_update:
  assumes "no_lost_wakeup k" and "tcore (f (tsk k c)) = tcore (tsk k c)"
    and "t_state (f (tsk k c)) \<noteq> TASK_BLOCKED_IPC"
  shows "no_lost_wakeup (upd_task c f k)"
proof -
  have "queue_slots (upd_task c f k) = queue_slots k"
    by (intro queue_slots_cong) (use tcore_eqD(6) [OF assms(2)] in simp_all)
  with assms show ?thesis by (auto simp: no_lost_wakeup_def asleep_ok_def)
qed

lemma receive_cases:
  assumes "sys_ipc_receive out k = (v, m, k')"
  shows "k' = k \<or> (\<exists>c e. k_current k = Some c \<and> ipc_endpoint_receive (t_ipc_endpoint (tsk k c)) True = (v, e, m) \<and>
      k' = upd_task c (\<lambda>t. t\<lparr>t_ipc_endpoint := e\<rparr>) k) \<or>
    (\<exists>q p s. service_registry_ipc_spill_pop q True (k_spill k) = (0, Some p, s) \<and> k' = k\<lparr>k_spill := s\<rparr>)"
  using assms
  by (auto simp: sys_ipc_receive_def split: option.splits prod.splits if_splits)

lemma pop_pending:
  assumes "service_registry_ipc_spill_pop q True s = (v, p, s')"
  shows "spill_pending s' r \<Longrightarrow> spill_pending s r"
  using assms
  by (auto simp: service_registry_ipc_spill_pop_def spill_pending_def split: option.splits if_splits
      dest!: set_update_subset_insert [THEN subsetD])

lemma task_ok_receive:
  assumes "task_ok t" and "ipc_endpoint_receive (t_ipc_endpoint t) True = (v, e, m)"
  shows "task_ok (t\<lparr>t_ipc_endpoint := e\<rparr>)"
proof (cases "ep_view (t_ipc_endpoint t)")
  case Nil
  then have "e = t_ipc_endpoint t" using assms(2) length_ep_view [of "t_ipc_endpoint t"] by (simp add: ipc_endpoint_receive_def)
  with assms(1) show ?thesis by simp
next
  case (Cons x xs)
  then have "ep_inv e" using ipc_endpoint_receive_cons [OF task_ok_parts(1) [OF assms(1)] Cons] assms(2) by auto
  with assms(1) show ?thesis by (rule task_ok_endpoint)
qed

lemma kernel_ok_receive:
  assumes "kernel_ok k" and "k_current k = Some c" and "t_state (tsk k c) = TASK_RUNNING"
    and "sys_ipc_receive out k = (v, m, k')"
  shows "kernel_ok k'" "tframe k k'" "t_state (tsk k' i) = t_state (tsk k i)" "t_ipc_wait (tsk k' i) = t_ipc_wait (tsk k i)"
proof -
  have ok: "tframe k k' \<and> t_state (tsk k' i) = t_state (tsk k i) \<and> t_ipc_wait (tsk k' i) = t_ipc_wait (tsk k i) \<and>
      no_lost_wakeup k'" for i
    using receive_cases [OF assms(4)]
  proof (elim disjE exE conjE)
    fix c' e assume c': "k_current k = Some c'" "ipc_endpoint_receive (t_ipc_endpoint (tsk k c')) True = (v, e, m)"
      and k': "k' = upd_task c' (\<lambda>t. t\<lparr>t_ipc_endpoint := e\<rparr>) k"
    have "tframe k k'" unfolding k'
      by (rule tframe_upd) (simp_all add: tcore_def task_ok_receive [OF _ c'(2)])
    moreover have "no_lost_wakeup k'" unfolding k'
      by (rule no_lost_update [OF kernel_okD(4) [OF assms(1)]]) (use c'(1) assms(2,3) in \<open>simp_all add: tcore_def\<close>)
    ultimately show ?thesis by (simp add: k')
  next
    fix q p s assume p: "service_registry_ipc_spill_pop q True (k_spill k) = (0, Some p, s)" and k': "k' = k\<lparr>k_spill := s\<rparr>"
    have "no_lost_wakeup k'"
      using kernel_okD(4) [OF assms(1)] pop_pending [OF p] by (auto simp: k' no_lost_wakeup_def asleep_ok_def)
    then show ?thesis by (simp add: k')
  qed (use kernel_okD(4) [OF assms(1)] in simp)
  then show "tframe k k'" "t_state (tsk k' i) = t_state (tsk k i)" "t_ipc_wait (tsk k' i) = t_ipc_wait (tsk k i)" by auto
  have "steady k k'" using ok by (simp add: steady_def)
  then show "kernel_ok k'" by (rule kernel_ok_steady [OF assms(1)])
qed

lemma receive_empty:
  assumes "k_current k = Some c" and "t_type (tsk k c) = TASK_TYPE_USER" and "0 < t_id (tsk k c)"
    and "sys_ipc_receive True k = (v, m, k')" and "v = OS_IPC_EMPTY"
  shows "k' = k" "ep_count (t_ipc_endpoint (tsk k c)) = 0" "\<not> spill_pending (k_spill k) (t_id (tsk k c))" "m = None"
proof -
  obtain w e x where r: "ipc_endpoint_receive (t_ipc_endpoint (tsk k c)) True = (w, e, x)" by (metis prod_cases3)
  have w: "w = OS_IPC_EMPTY"
    using assms r by (auto simp: sys_ipc_receive_def split: if_splits option.splits prod.splits)
  then show count: "ep_count (t_ipc_endpoint (tsk k c)) = 0"
    using r by (auto simp: ipc_endpoint_receive_def split: if_splits)
  obtain v' p s where q: "service_registry_ipc_spill_pop (t_id (tsk k c)) True (k_spill k) = (v', p, s)" by (metis prod_cases3)
  have "p = None"
    using assms r w q by (auto simp: sys_ipc_receive_def service_registry_ipc_spill_pop_def split: if_splits option.splits)
  then have n: "min_idx (\<lambda>x. ss_used x \<and> ss_watcher_pid x = t_id (tsk k c)) ss_order (sp_slots (k_spill k)) = None"
    using q assms(3) by (auto simp: service_registry_ipc_spill_pop_def split: option.splits)
  show "\<not> spill_pending (k_spill k) (t_id (tsk k c))"
    using n unfolding min_idx_None by (auto simp: spill_pending_def)
  show "k' = k" "m = None"
    using assms r w q \<open>p = None\<close> by (simp_all add: sys_ipc_receive_def)
qed

text \<open>A task that has found its mailbox and the overflow area empty may go to sleep.\<close>

lemma kernel_ok_park:
  assumes "kernel_ok k" and "c \<in> set (queue_slots k)" and "ep_count (t_ipc_endpoint (tsk k c)) = 0"
    and "\<not> spill_pending (k_spill k) (t_id (tsk k c))" and "wait_inv w" "w_blocked w"
  shows "kernel_ok (ipc_wait_park kctx c (upd_task c (\<lambda>t. t\<lparr>t_ipc_wait := w\<rparr>) k))"
proof -
  let ?f = "\<lambda>t. t\<lparr>t_ipc_wait := w, t_state := TASK_BLOCKED_IPC, t_kctx_valid := True, t_kctx := kctx\<rparr>"
  have eq: "ipc_wait_park kctx c (upd_task c (\<lambda>t. t\<lparr>t_ipc_wait := w\<rparr>) k) = upd_task c ?f k"
    using kwf_sizes(1,8) [OF kernel_okD(1) [OF assms(1)]] assms(2)
    by (simp add: ipc_wait_park_def upd_task_def tsk_def)
  have f: "tframe k (upd_task c ?f k)"
    by (rule tframe_upd) (simp_all add: tcore_def task_ok_def exit_log_def event_log_def assms(5,6))
  have "no_lost_wakeup (upd_task c ?f k)"
    using kernel_okD(4) [OF assms(1)] assms(3,4) by (auto simp: no_lost_wakeup_def asleep_ok_def tframeD(1) [OF f])
  then show ?thesis unfolding eq by (rule kernel_ok_tframe [OF assms(1) f])
qed

fun call_state :: "(rc \<times> os_ipc_message option \<times> kstate) + kstate \<Rightarrow> kstate" where
  "call_state (Inl (v, m, k)) = k"
| "call_state (Inr k) = k"

lemma kernel_ok_receive_wait:
  assumes "kernel_ok k" and "k_current k = Some c" and "c \<in> set (queue_slots k)" and "t_state (tsk k c) = TASK_RUNNING"
  shows "kernel_ok (call_state (sys_ipc_receive_wait frame rpc kctx out timeout k))"
proof -
  obtain v m k1 where r: "sys_ipc_receive out k = (v, m, k1)" by (metis prod_cases3)
  note k1 = kernel_ok_receive [OF assms(1,2,4) r]
  consider (refused) "t_type (tsk k c) \<noteq> TASK_TYPE_USER \<or> \<not> out"
    | (ret) "t_type (tsk k c) = TASK_TYPE_USER" "out" "ipc_wait_decide v OS_IPC_EMPTY timeout (ipc_recv_wait_may_block frame rpc c k1) = IPC_WAIT_RETURN"
    | (park) "t_type (tsk k c) = TASK_TYPE_USER" "out" "ipc_wait_decide v OS_IPC_EMPTY timeout (ipc_recv_wait_may_block frame rpc c k1) \<noteq> IPC_WAIT_RETURN"
    by blast
  then show ?thesis
  proof cases
    case park
    then have v: "v = OS_IPC_EMPTY" by (simp add: ipc_wait_decide_def split: if_splits)
    note e = receive_empty [OF assms(2) park(1) kernel_okD(7) [OF assms(1,3) park(1)] _ v]
    have "k1 = k" "ep_count (t_ipc_endpoint (tsk k c)) = 0" "\<not> spill_pending (k_spill k) (t_id (tsk k c))"
      using e [of m k1] r park(2) by simp_all
    moreover have "upd_task c (\<lambda>t. t\<lparr>t_ipc_wait := ipc_wait_begin (t_ipc_wait t) n timeout f\<rparr>) k =
        upd_task c (\<lambda>t. t\<lparr>t_ipc_wait := ipc_wait_begin (t_ipc_wait (tsk k c)) n timeout f\<rparr>) k" for n f
      by (simp add: upd_task_def tsk_def)
    moreover have "w_blocked (ipc_wait_begin w n t f)" for w n t f by (simp add: ipc_wait_begin_def)
    ultimately show ?thesis
      using kernel_ok_park [OF assms(1,3), of "ipc_wait_begin (t_ipc_wait (tsk k c)) (k_ticks k) timeout OS_IPC_WAIT_FOREVER" kctx] park assms(2) r
      by (simp add: sys_ipc_receive_wait_def)
  qed (use assms(1,2) r k1(1) in \<open>simp_all add: sys_ipc_receive_wait_def\<close>)
qed

lemma kernel_ok_resume:
  assumes "kernel_ok k" and "k_current k = Some c" and "c \<in> set (queue_slots k)" and "t_state (tsk k c) = TASK_RUNNING"
    and "t_type (tsk k c) = TASK_TYPE_USER"
  shows "kernel_ok (call_state (ipc_receive_wait_resume kctx c k))"
proof -
  let ?k0 = "upd_task c (\<lambda>t. t\<lparr>t_kctx_valid := False\<rparr>) k"
  have len: "c < length (k_pool k)" using kwf_sizes(1,8) [OF kernel_okD(1) [OF assms(1)]] assms(3) by simp
  have k0: "kernel_ok ?k0" by (rule kernel_ok_steady [OF assms(1)]) (rule steady_upd; simp)
  have c0: "k_current ?k0 = Some c" "c \<in> set (queue_slots ?k0)" "t_state (tsk ?k0 c) = TASK_RUNNING" "t_type (tsk ?k0 c) = TASK_TYPE_USER"
    using assms(2-5) by simp_all
  obtain v m k1 where r: "sys_ipc_receive True ?k0 = (v, m, k1)" by (metis prod_cases3)
  obtain fin w where a: "ipc_wait_after_wake (t_ipc_wait (tsk k1 c)) v OS_IPC_EMPTY OS_IPC_TIMEOUT (k_ticks k1) = (fin, w)" by fastforce
  have wi: "wait_inv w" using wait_inv_after_wake a by (metis snd_conv)
  note k1 = kernel_ok_receive [OF k0 c0(1,3) r]
  show ?thesis
  proof (cases fin)
    case (Some f)
    have "steady k1 (upd_task c (\<lambda>t. t\<lparr>t_ipc_wait := w\<rparr>) k1)"
      by (rule steady_upd) (use k1(3) [of c] c0(3) wi in \<open>auto simp: tcore_def task_ok_def exit_log_def event_log_def\<close>)
    with kernel_ok_steady [OF k1(1)] show ?thesis using r a Some by (simp add: ipc_receive_wait_resume_def)
  next
    case None
    then have v: "v = OS_IPC_EMPTY" "w_blocked w"
      using a by (auto simp: ipc_wait_after_wake_def split: if_splits)
    note e = receive_empty [OF c0(1,4) kernel_okD(7) [OF k0 c0(2,4)] r v(1)]
    show ?thesis
      using kernel_ok_park [OF k0 c0(2) e(2,3) wi v(2), of kctx] r a None e(1) by (simp add: ipc_receive_wait_resume_def)
  qed
qed

subsection \<open>Starting and ending tasks\<close>

lemma create_keeps:
  assumes "kwf k" and "create_task_from_initrd_file initrd elf stack path k = (Some i, k')"
  shows "i \<notin> set (queue_slots k)" "j \<noteq> i \<Longrightarrow> (tsk k' j)\<lparr>t_next := None, t_prev := None\<rparr> = (tsk k j)\<lparr>t_next := None, t_prev := None\<rparr>"
    "k_current k' = k_current k" "k_rr_anchor k' = k_rr_anchor k" "k_sched_only k' = k_sched_only k"
    "k_deferred_reap k' = k_deferred_reap k" "k_spill k' = k_spill k" "j \<noteq> i \<Longrightarrow> k_used k' ! j = k_used k ! j" "i < 16"
    "t_id (tsk k' i) = k_next_task_id k"
proof -
  from create_task_cases [OF assms(2,1)] obtain d f n where
    c: "i < 16" "\<not> k_used k ! i" "d < 16" and k': "k' = add_task_to_queue i (with_fresh_task k i d n (elf f) stack)"
    by auto
  note w = with_fresh_task_facts [OF assms(1) c]
  have gl: "k_rr_anchor (add_task_to_queue i x) = k_rr_anchor x" "k_sched_only (add_task_to_queue i x) = k_sched_only x"
    "k_deferred_reap (add_task_to_queue i x) = k_deferred_reap x" "k_spill (add_task_to_queue i x) = k_spill x" for x
    by (auto simp: add_task_to_queue_def split: option.splits)
  show "i \<notin> set (queue_slots k)" "i < 16" by (fact w(3), fact c(1))
  show "t_id (tsk k' i) = k_next_task_id k"
    unfolding k' add_task_to_queue_keeps w(4) by (simp add: fresh_task_def setup_initial_user_context_def task_fx_init_def)
  show "k_current k' = k_current k" "k_rr_anchor k' = k_rr_anchor k" "k_sched_only k' = k_sched_only k"
    "k_deferred_reap k' = k_deferred_reap k" "k_spill k' = k_spill k"
    by (simp_all add: k' gl add_task_to_queue_globals with_fresh_task_def)
  show "k_used k' ! j = k_used k ! j" if "j \<noteq> i" using that by (simp add: k' add_task_to_queue_globals with_fresh_task_def)
  show "(tsk k' j)\<lparr>t_next := None, t_prev := None\<rparr> = (tsk k j)\<lparr>t_next := None, t_prev := None\<rparr>" if "j \<noteq> i"
    using that w(5) by (simp add: k' add_task_to_queue_slots)
qed

lemma kernel_ok_create:
  assumes "kernel_ok k" and "k_queue k \<noteq> None" and "create_task_from_initrd_file initrd elf stack path k = (r, k')"
  shows "kernel_ok k'"
proof (cases r)
  case None
  then show ?thesis using create_task_facts [OF kernel_okD(1) [OF assms(1)] assms(2), of initrd elf stack path] assms(1,3) by simp
next
  case (Some i)
  note wf = kernel_okD(1) [OF assms(1)] and run = assms(3) [unfolded Some]
  note c = create_keeps [OF wf run]
  have f: "kwf k'" "\<not> k_used k ! i" "queue_slots k' = queue_slots k @ [i]" "t_state (tsk k' i) = TASK_READY"
    using create_task_facts [OF wf assms(2), of initrd elf stack path] run by simp_all
  have st: "t_state (tsk k' j) = t_state (tsk k j)" "t_type (tsk k' j) = t_type (tsk k j)" "t_id (tsk k' j) = t_id (tsk k j)"
    "t_ipc_endpoint (tsk k' j) = t_ipc_endpoint (tsk k j)" if "j \<in> set (queue_slots k)" for j
    using links_only [OF c(2), of j] that c(1) by auto
  have s: "sched_ok k'" unfolding sched_ok_def f(3) c(3,4,5)
    using f(1,4) kernel_okD(2) [OF assms(1)] st(1) by (auto simp: sched_ok_def)
  have l: "no_lost_wakeup k'" unfolding no_lost_wakeup_def f(3)
    using kernel_okD(4) [OF assms(1)] st f(4) by (auto simp: no_lost_wakeup_def asleep_ok_def c(7))
  have "d \<noteq> i" if "k_deferred_reap k = Some d" for d
    using kernel_okD(5) [OF assms(1)] that f(2) by (auto simp: reap_held_def)
  then have h: "reap_held k'" using kernel_okD(5) [OF assms(1)] by (auto simp: reap_held_def f(3) c(6,8))
  have "0 < k_next_task_id k"
    using kwf_current [OF wf _ assms(2)] kwf_globals(6) [OF wf assms(2)] kwf_task(3,4) [OF wf] by fastforce
  then have "0 < t_id (tsk k' j)" if "j \<in> set (queue_slots k')" "t_type (tsk k' j) = TASK_TYPE_USER" for j
    using that kernel_okD(7) [OF assms(1)] st by (cases "j = i") (auto simp: f(3) c(10))
  with s l h kernel_okD(3) [OF assms(1)] show ?thesis by (simp add: kernel_ok_def c(5))
qed

lemma steady_adopt: "steady k (adopt_child arg waited p i k)"
proof -
  let ?k = "upd_task i (\<lambda>t. t\<lparr>t_cpu_state := (if arg then (t_cpu_state t)\<lparr>r_ebx := USER_ARGUMENT\<rparr> else t_cpu_state t),
            t_parent_pid := p, t_waiter_pid := (if waited then p else t_waiter_pid t)\<rparr>) k"
  have "steady k ?k" by (rule steady_upd) simp_all
  moreover have "steady ?k (?k\<lparr>k_outcap := snd (out_cap_child p q (k_outcap ?k))\<rparr>)" for q
    unfolding steady_def by (intro conjI impI tframe_outcap) (simp_all add: cap_inv_child)
  ultimately show ?thesis unfolding adopt_child_def Let_def by (rule steady_trans)
qed

lemma kernel_ok_start_child:
  assumes "kernel_ok k" and "k_queue k \<noteq> None"
  shows "kernel_ok (snd (start_child initrd elf stack waited path arg k))"
  using assms(1)
  by (auto simp: start_child_def split: option.splits prod.splits
      intro: kernel_ok_steady [OF _ steady_adopt] kernel_ok_create [OF assms])

lemma kernel_ok_spawn_exec:
  assumes "kernel_ok k" and "k_queue k \<noteq> None"
  shows "kernel_ok (snd (sys_spawn initrd elf stack path arg k))" "kernel_ok (snd (sys_exec initrd elf stack path arg k))"
    "kernel_ok (snd (exec_call initrd elf stack path arg k))"
proof -
  show "kernel_ok (snd (sys_spawn initrd elf stack path arg k))" and e: "kernel_ok (snd (sys_exec initrd elf stack path arg k))"
    using kernel_ok_start_child [OF assms, of initrd elf stack False path arg]
      kernel_ok_start_child [OF assms, of initrd elf stack True path arg]
    by (auto simp: sys_spawn_def sys_exec_def split: prod.splits sum.splits)
  show "kernel_ok (snd (exec_call initrd elf stack path arg k))"
    using e kernel_ok_steady [OF e steady_set_state [of TASK_WAITING]]
    by (auto simp: exec_call_def split: option.splits prod.splits)
qed

lemma release_used:
  "j \<noteq> i \<Longrightarrow> k_used (task_release_detached (Some i) k) ! j = k_used k ! j"
  "k_deferred_reap (task_release_detached t k) = k_deferred_reap k"
  by (auto simp: task_release_detached_def task_destroy_user_vmm_def task_static_vmm_release_def
      task_static_release_def upd_task_def split: option.splits vmm_dir.splits)

lemma unlink_globals:
  "k_used (unlink_task i k) = k_used k" "k_deferred_reap (unlink_task i k) = k_deferred_reap k" "k_spill (unlink_task i k) = k_spill k"
  by (auto simp: unlink_task_def Let_def split: option.splits)

text \<open>A task taken off the queue and released.\<close>

lemma kernel_ok_dispose:
  assumes "kernel_ok k" and "c \<in> set (queue_slots k)"
  shows "kernel_ok (task_release_detached (Some c) (unlink_task c k))"
proof -
  let ?k = "task_release_detached (Some c) (unlink_task c k)"
  note wf = kernel_okD(1) [OF assms(1)]
  note d = kwf_dispose [OF wf assms(2)]
  have qn: "k_queue k \<noteq> None" using assms(2) by (cases "k_queue k") (auto simp: queue_slots_def)
  have sub: "j \<in> set (remove1 c (queue_slots k)) \<longleftrightarrow> j \<in> set (queue_slots k) \<and> j \<noteq> c" for j
    using kwf_sizes(7) [OF wf] by auto
  have st: "t_state (tsk ?k j) = t_state (tsk k j)" "t_type (tsk ?k j) = t_type (tsk k j)" "t_id (tsk ?k j) = t_id (tsk k j)"
    "t_ipc_endpoint (tsk ?k j) = t_ipc_endpoint (tsk k j)" if "j \<noteq> c" for j
    using links_only [OF d(3) [OF that]] by auto
  have gl: "k_sched_only ?k = k_sched_only k" "k_rr_anchor ?k = (if k_rr_anchor k = Some c then None else k_rr_anchor k)"
    "k_deferred_reap ?k = k_deferred_reap k" "k_spill ?k = k_spill k" "k_current ?k = k_current (unlink_task c k)"
    using qn by (simp_all add: release_detached_sched unlink_anchor release_used unlink_globals release_detached_globals)
  have "k_current (unlink_task c k) = Some i" if "k_current k = Some i" "i \<noteq> c" "i \<in> set (queue_slots k)" for i
  proof -
    have "k_queue (unlink_task c k) \<noteq> None"
      using kwf_unlink(2) [OF wf assms(2)] that(2,3) sub [of i] by (cases "k_queue (unlink_task c k)") (auto simp: queue_slots_def)
    then show ?thesis using that qn by (auto simp: unlink_task_def Let_def split: option.splits if_splits)
  qed
  then have "sched_ok ?k"
    using kernel_okD(2,3) [OF assms(1)] d(1) st(1) by (auto simp: sched_ok_def d(2) gl sub split: if_splits)
  moreover have "no_lost_wakeup ?k"
    using kernel_okD(4) [OF assms(1)] st by (auto simp: no_lost_wakeup_def asleep_ok_def d(2) gl sub)
  moreover have "reap_held ?k"
  proof -
    have "k_used ?k ! d" if "d \<noteq> c" "k_used k ! d" for d using that by (simp add: release_used unlink_globals)
    moreover have "d \<noteq> c" if "k_deferred_reap k = Some d" for d
      using kernel_okD(5) [OF assms(1)] assms(2) that by (auto simp: reap_held_def)
    ultimately show ?thesis using kernel_okD(5) [OF assms(1)] unfolding reap_held_def d(2) gl sub by blast
  qed
  ultimately show ?thesis using kernel_okD(3,7) [OF assms(1)] st by (auto simp: kernel_ok_def d(2) gl sub)
qed

lemma kernel_ok_end_killed:
  assumes "kernel_ok k" and "c \<in> set (queue_slots k)"
  shows "kernel_ok (end_killed_task c k)"
  unfolding end_killed_eq
  by (rule kernel_ok_dispose [OF kernel_ok_steady [OF assms(1) steady_kill_prepared]])
    (simp add: tframeD(1) [OF tframe_kill_prepared] assms(2))

lemma kernel_ok_kill: "kernel_ok k \<Longrightarrow> kernel_ok (snd (task_kill r p k))"
  by (auto simp: task_kill_def split: option.splits intro!: kernel_ok_end_killed dest: get_task_by_id_SomeD(1))

lemma kernel_ok_kill_children: "kernel_ok k \<Longrightarrow> kernel_ok (snd (task_kill_direct_children r k))"
proof -
  assume k: "kernel_ok k"
  let ?f = "\<lambda>p k. case get_task_by_id k p of None \<Rightarrow> k
      | Some c \<Rightarrow> if t_parent_pid (tsk k c) \<noteq> r then k else end_killed_task c k"
  have step: "kernel_ok k \<Longrightarrow> kernel_ok (?f p k)" for p k
    by (auto intro: kernel_ok_end_killed split: option.split dest: get_task_by_id_SomeD(1))
  have "kernel_ok (fold ?f ps k)" for ps
    using k by (induction ps arbitrary: k) (simp, simp only: fold_simps step)
  with k show ?thesis by (simp add: task_kill_direct_children_def Let_def)
qed

subsection \<open>The scheduler\<close>

lemma sched_scan_in:
  assumes "kwf k" "start \<in> set (queue_slots k)"
  shows "sched_scan k start \<in> set (queue_slots k)"
proof -
  have "\<And>P t. find P (scan_slots k start) = Some t \<Longrightarrow> t \<in> set (queue_slots k)"
    using scan_slots_set(1) [OF assms] by (metis find_SomeD(1))
  moreover have "\<And>t. best_candidate k (scan_slots k start) = Some t \<Longrightarrow> t \<in> set (queue_slots k)"
    using best_candidate_SomeD(1) scan_slots_set(1) [OF assms] by metis
  ultimately show ?thesis using assms(2) by (auto simp: sched_scan_eq [OF assms] split: option.split)
qed

lemma sched_pick_in:
  assumes "sched_ok k" "cur \<in> set (queue_slots k)"
  shows "fst (sched_pick k now cur) \<in> set (queue_slots k)"
  using sched_scan_in [OF sched_okD(1) [OF assms(1)] sched_start_in [OF assms]] sched_okD(2,3) [OF assms(1)] resume_anchorD(1)
  by (auto simp: sched_pick_def Let_def split: option.split)

lemma kernel_ok_enter:
  assumes "kernel_ok k" "sched_idle k" "k_current k = Some cur" "cur \<in> set (queue_slots k)"
  shows "kernel_ok (sched_enter k)"
proof -
  obtain n resumed where pick: "sched_pick k (k_ticks k) cur = (n, resumed)" by fastforce
  have n: "n \<in> set (queue_slots k)" using sched_pick_in [OF kernel_okD(2) [OF assms(1)] assms(4), of "k_ticks k"] pick by simp
  define k2 where "k2 = (if t_type (tsk k n) = TASK_TYPE_USER \<and> t_priority (tsk k n) < OS_TASK_PRIORITY_HIGH
    then k\<lparr>k_current := Some n, k_rr_anchor := Some n, k_resume_after_high := None\<rparr> else k\<lparr>k_current := Some n\<rparr>)"
  let ?f = "\<lambda>t. t\<lparr>t_state := TASK_RUNNING, t_last_scheduled_ticks := (if resumed then t_last_scheduled_ticks t else k_ticks k),
    t_switch_count := t_switch_count t + 1\<rparr>"
  have e: "sched_enter k = upd_task n ?f k2"
    using assms(3) pick by (simp add: sched_enter_def Let_def k2_def)
  have k2: "kwf k2" "queue_slots k2 = queue_slots k" "tsk k2 = tsk k" "no_lost_wakeup k2" "k_current k2 = Some n"
    "k_rr_anchor k2 \<in> {k_rr_anchor k, Some n}" "k_sched_only k2 = k_sched_only k" "k_deferred_reap k2 = k_deferred_reap k" "k_used k2 = k_used k"
    using kwf_set_current [OF kernel_okD(1) [OF assms(1)] n] kernel_okD(4) [OF assms(1)]
    by (simp_all add: no_lost_wakeup_def asleep_ok_def k2_def)
  have len: "n < length (k_pool k2)" using kwf_sizes(1,8) [OF k2(1)] n k2(2) by simp
  have wf: "kwf (sched_enter k)" unfolding e
    by (rule kwf_upd_task [OF k2(1)]) (simp_all add: task_ok_state)
  have qs: "queue_slots (sched_enter k) = queue_slots k" unfolding e using k2(2) by simp
  have "no_lost_wakeup (sched_enter k)" unfolding e by (rule no_lost_update [OF k2(4)]) simp_all
  moreover have "sched_ok (sched_enter k)"
    using wf kernel_okD(2) [OF assms(1)] assms(2) n len k2(6)
    by (auto simp: sched_ok_def qs sched_idle_def) (auto simp: e k2(3,5,7) split: if_splits)
  moreover have "reap_held (sched_enter k)"
    using kernel_okD(5) [OF assms(1)] by (simp add: reap_held_def qs) (simp add: e k2(8,9))
  ultimately show ?thesis
    using kernel_okD(3,7) [OF assms(1)] len by (auto simp: kernel_ok_def qs) (auto simp: e k2(3,7))
qed

lemma kernel_ok_leave:
  assumes "kernel_ok k" "k_current k = Some cur" "k_queue k \<noteq> None" "k_deferred_reap k = None" "sched_leave cpu cur k = Some k1"
  shows "kernel_ok k1" "sched_idle k1"
proof -
  have only: "k_sched_only k \<noteq> Some cur" using kernel_okD(3) [OF assms(1)] by simp
  show idle: "sched_idle k1"
    by (rule sched_leave_facts(1) [OF kernel_okD(2) [OF assms(1)] assms(2,3) _ assms(5)]) (simp add: only)
  have ok: "sched_ok k1" using idle by (simp add: sched_idle_def)
  note cur = kwf_current [OF kernel_okD(1) [OF assms(1)] assms(2,3)]
  show "kernel_ok k1"
  proof (cases "t_state (tsk k cur) = TASK_TERMINATED")
    case True
    note l = sched_leave_ended [OF kernel_okD(2) [OF assms(1)] assms(2,3) True only assms(5)]
    note t = links_only [OF l(6)]
    have k1: "k_spill k1 = k_spill k" "k_used k1 = k_used k"
      using assms(5) True by (auto simp: sched_leave_def Let_def unlink_globals split: if_splits option.splits)
    have "no_lost_wakeup k1"
      using kernel_okD(4) [OF assms(1)] by (auto simp: no_lost_wakeup_def asleep_ok_def l(2) t k1 dest: in_set_remove1D)
    moreover have "reap_held k1"
      using l(3,4) cur kwf_task(1) [OF kernel_okD(1) [OF assms(1)] cur(1)] by (simp add: reap_held_def k1)
    ultimately show ?thesis
      using ok kernel_okD(3,7) [OF assms(1)] by (auto simp: kernel_ok_def l(2,5) t dest: in_set_remove1D)
  next
    case False
    note l = sched_leave_live [OF kernel_okD(2) [OF assms(1)] assms(2,3) False assms(5)]
    have k1: "k_spill k1 = k_spill k" "k_used k1 = k_used k" "k_deferred_reap k1 = k_deferred_reap k"
      "t_ipc_endpoint (tsk k1 i) = t_ipc_endpoint (tsk k i)" for i
      using assms(2,5) False by (auto simp: sched_leave_def Let_def split: if_splits option.splits)
    have "no_lost_wakeup k1"
      using kernel_okD(4) [OF assms(1)] by (auto simp: no_lost_wakeup_def asleep_ok_def l(2,4) tcore_eqD(1) [OF l(6)] k1 split: if_splits)
    then show ?thesis
      using ok kernel_okD(3,5,7) [OF assms(1)] by (auto simp: kernel_ok_def reap_held_def l(2,9) k1 tcore_eqD(1,5) [OF l(6)])
  qed
qed

lemma kernel_ok_reap:
  assumes "kernel_ok k"
  shows "kernel_ok (task_reap_deferred k)" "k_deferred_reap (task_reap_deferred k) = None"
proof -
  note r = reap_facts [OF kernel_okD(2,6) [OF assms]]
  show d: "k_deferred_reap (task_reap_deferred k) = None" by (simp add: task_reap_deferred_def release_used)
  have s: "k_spill (task_reap_deferred k) = k_spill k" by (simp add: task_reap_deferred_def release_detached_globals)
  have "no_lost_wakeup (task_reap_deferred k)"
    using kernel_okD(4) [OF assms] by (auto simp: no_lost_wakeup_def asleep_ok_def r(2,6) s)
  with r(1) d show "kernel_ok (task_reap_deferred k)"
    using kernel_okD(3,7) [OF assms] by (auto simp: kernel_ok_def reap_held_def r(2,4,6))
qed

text \<open>One turn of the scheduler, the deferred release included.\<close>

lemma kernel_ok_switch:
  assumes "kernel_ok k" "k_queue k \<noteq> None" "sched_switch cpu (task_reap_deferred k) = Some k'"
  shows "kernel_ok k'"
proof -
  let ?k = "task_reap_deferred k"
  obtain cur k1 where c: "k_current ?k = Some cur" and l: "sched_leave cpu cur ?k = Some k1" and k': "k' = sched_enter k1"
    using assms(3) by (auto simp: sched_switch_def split: option.splits)
  have q: "k_queue ?k \<noteq> None" using assms(2) by (simp add: task_reap_deferred_def release_detached_globals)
  note k1 = kernel_ok_leave [OF kernel_ok_reap(1) [OF assms(1)] c q kernel_ok_reap(2) [OF assms(1)] l]
  have "\<exists>c. k_current k1 = Some c \<and> c \<in> set (queue_slots k1)"
    by (rule sched_leave_facts(2) [OF kernel_okD(2) [OF kernel_ok_reap(1) [OF assms(1)]] c q _ l])
      (simp add: kernel_okD(3) [OF kernel_ok_reap(1) [OF assms(1)]])
  then show ?thesis using kernel_ok_enter [OF k1] k' by auto
qed

subsection \<open>Runs of the kernel\<close>

text \<open>The calls of a Ring 3 task, and what each leaves when it returns or gives up the CPU.\<close>

datatype task_call =
    Set_Priority pid u32 | Wait pid | Set_Name pid "cstring option" | Result_Ack | Result_Forget pid
  | Suspend pid | Resume pid | Kill pid | Kill_Children | Wait_Any | Delegate pid pid
  | Events_Ack | Event_Forget u32 | Notify u32 | Notify_Filter u32 | Watch pid u32 | Stats_Ack
  | Event_Replay u32 | Priority_Child pid | Notify_Budget u32
  | Send registry pid "os_ipc_payload option" | Receive bool | Receive_Wait bool bool "u32 list" bool u32 | Continue "u32 list"
  | Spawn "cstring option" bool | Exec "cstring option" bool | Exit int u32

definition current_pid :: "kstate \<Rightarrow> pid" where
  "current_pid k = (case k_current k of None \<Rightarrow> - 1 | Some c \<Rightarrow> t_id (tsk k c))"

fun do_call :: "(cstring option \<Rightarrow> 'f option) \<Rightarrow> ('f \<Rightarrow> u32) \<Rightarrow> u32 \<Rightarrow> task_call \<Rightarrow> kstate \<Rightarrow> kstate" where
  "do_call initrd elf stack (Set_Priority p n) k = snd (sys_task_set_priority p n k)"
| "do_call initrd elf stack (Wait p) k = snd (sys_task_wait p k)"
| "do_call initrd elf stack (Set_Name p n) k = snd (sys_task_set_name p n k)"
| "do_call initrd elf stack Result_Ack k = snd (sys_task_child_result_ack k)"
| "do_call initrd elf stack (Result_Forget p) k = snd (sys_task_child_result_forget p k)"
| "do_call initrd elf stack (Suspend p) k = snd (sys_task_suspend p k)"
| "do_call initrd elf stack (Resume p) k = snd (sys_task_resume p k)"
| "do_call initrd elf stack (Kill p) k = snd (task_kill (current_pid k) p k)"
| "do_call initrd elf stack Kill_Children k = snd (sys_task_kill_children k)"
| "do_call initrd elf stack Wait_Any k = snd (sys_task_wait_any k)"
| "do_call initrd elf stack (Delegate c s) k = snd (sys_task_delegate_child c s k)"
| "do_call initrd elf stack Events_Ack k = snd (sys_task_supervision_events_ack k)"
| "do_call initrd elf stack (Event_Forget n) k = snd (sys_task_supervision_event_forget n k)"
| "do_call initrd elf stack (Notify n) k = snd (sys_task_supervision_notify n k)"
| "do_call initrd elf stack (Notify_Filter n) k = snd (sys_task_supervision_notify_filter n k)"
| "do_call initrd elf stack (Watch p n) k = snd (sys_task_supervision_watch p n k)"
| "do_call initrd elf stack Stats_Ack k = snd (sys_task_supervision_delivery_stats_ack k)"
| "do_call initrd elf stack (Event_Replay n) k = snd (sys_task_supervision_event_replay n k)"
| "do_call initrd elf stack (Priority_Child p) k = snd (sys_task_supervision_priority p k)"
| "do_call initrd elf stack (Notify_Budget n) k = snd (sys_task_supervision_notify_budget n k)"
| "do_call initrd elf stack (Send r p m) k = snd (sys_ipc_send r p m k)"
| "do_call initrd elf stack (Receive out) k = snd (snd (sys_ipc_receive out k))"
| "do_call initrd elf stack (Receive_Wait frame rpc kctx out n) k = call_state (sys_ipc_receive_wait frame rpc kctx out n k)"
| "do_call initrd elf stack (Continue kctx) k =
     (case k_current k of None \<Rightarrow> k | Some c \<Rightarrow> call_state (ipc_receive_wait_resume kctx c k))"
| "do_call initrd elf stack (Spawn p a) k = snd (sys_spawn initrd elf stack p a k)"
| "do_call initrd elf stack (Exec p a) k = snd (exec_call initrd elf stack p a k)"
| "do_call initrd elf stack (Exit code reason) k =
     (case k_current k of None \<Rightarrow> k | Some c \<Rightarrow> end_task code reason c k)"

definition running_user :: "kstate \<Rightarrow> bool" where
  "running_user k \<longleftrightarrow> (\<exists>c\<in>set (queue_slots k). k_current k = Some c \<and> t_type (tsk k c) = TASK_TYPE_USER \<and> t_state (tsk k c) = TASK_RUNNING)"

text \<open>The kernel's own steps: the clock (\<open>timer_handler\<close>), boot services, notifications and the scheduler.\<close>

definition clock_tick :: "kstate \<Rightarrow> kstate" where
  "clock_tick k = task_ipc_wait_tick (k_ticks k + 1) (k\<lparr>k_ticks := k_ticks k + 1\<rparr>)"

inductive reached :: "(cstring option \<Rightarrow> 'f option) \<Rightarrow> ('f \<Rightarrow> u32) \<Rightarrow> u32 \<Rightarrow> kstate \<Rightarrow> bool"
  for initrd elf stack where
  boot: "reached initrd elf stack (tasking_init boot_state)"
| boot_task: "reached initrd elf stack k \<Longrightarrow> k_queue k \<noteq> None \<Longrightarrow>
    reached initrd elf stack (snd (create_task_from_initrd_file initrd elf stack path k))"
| call: "reached initrd elf stack k \<Longrightarrow> running_user k \<Longrightarrow> reached initrd elf stack (do_call initrd elf stack a k)"
| clock: "reached initrd elf stack k \<Longrightarrow> reached initrd elf stack (clock_tick k)"
| notify: "reached initrd elf stack k \<Longrightarrow> get_task_by_id k p = Some i \<Longrightarrow> deliver_supervision i m k = (r, k') \<Longrightarrow>
    reached initrd elf stack (if r = 0 then task_ipc_message_queued (Some i) k' else k')"
| purge: "reached initrd elf stack k \<Longrightarrow> reached initrd elf stack (k\<lparr>k_spill := ipc_spill_clear_pid p (k_spill k)\<rparr>)"
| keyboard: "reached initrd elf stack k \<Longrightarrow> reached initrd elf stack (k\<lparr>k_gets_waiter := w\<rparr>)"
| hand_over: "reached initrd elf stack k \<Longrightarrow> reached initrd elf stack (task_yield_to_driver_mark k)"
| switch: "reached initrd elf stack k \<Longrightarrow> k_queue k \<noteq> None \<Longrightarrow> sched_switch cpu (task_reap_deferred k) = Some k' \<Longrightarrow>
    reached initrd elf stack k'"

lemma as_caller_steady: "(\<And>c. steady k (snd (f c k))) \<Longrightarrow> steady k (snd (as_caller f k))" "(\<And>c. steady k (snd (f c k))) \<Longrightarrow> steady k (snd (as_user_caller f k))"
  by (simp_all add: as_caller_def as_user_caller_def split: option.split)

lemma steady_calls:
  "steady k (snd (sys_task_set_priority p n k))"
  "steady k (snd (sys_task_wait p k))"
  "steady k (snd (sys_task_set_name p nm k))"
  "steady k (snd (sys_task_child_result_ack k))"
  "steady k (snd (sys_task_child_result_forget p k))"
  "steady k (snd (sys_task_suspend p k))"
  "steady k (snd (sys_task_resume p k))"
  "steady k (snd (sys_task_wait_any k))"
  "steady k (snd (sys_task_delegate_child p q k))"
  "steady k (snd (sys_task_supervision_events_ack k))"
  "steady k (snd (sys_task_supervision_event_forget n k))"
  "steady k (snd (sys_task_supervision_notify n k))"
  "steady k (snd (sys_task_supervision_notify_filter n k))"
  "steady k (snd (sys_task_supervision_watch p n k))"
  "steady k (snd (sys_task_supervision_delivery_stats_ack k))"
  "steady k (snd (sys_task_supervision_event_replay n k))"
  "steady k (snd (sys_task_supervision_priority p k))"
  "steady k (snd (sys_task_supervision_notify_budget n k))"
  unfolding sys_task_set_priority_def sys_task_wait_def sys_task_set_name_def sys_task_child_result_ack_def
    sys_task_child_result_forget_def sys_task_suspend_def sys_task_resume_def sys_task_wait_any_def
    sys_task_delegate_child_def sys_task_supervision_events_ack_def sys_task_supervision_event_forget_def
    sys_task_supervision_notify_def sys_task_supervision_notify_filter_def sys_task_supervision_watch_def
    sys_task_supervision_delivery_stats_ack_def sys_task_supervision_event_replay_def
    sys_task_supervision_priority_def sys_task_supervision_notify_budget_def
  by (simp_all add: as_caller_steady steady_intro)

lemma kernel_ok_call:
  assumes "kernel_ok k" and "running_user k"
  shows "kernel_ok (do_call initrd elf stack a k)"
proof -
  obtain c where c: "k_current k = Some c" "c \<in> set (queue_slots k)" "t_state (tsk k c) = TASK_RUNNING" "t_type (tsk k c) = TASK_TYPE_USER"
    using assms(2) by (auto simp: running_user_def)
  have q: "k_queue k \<noteq> None" using c(2) by (cases "k_queue k") (auto simp: queue_slots_def)
  have st: "steady k k' \<Longrightarrow> kernel_ok k'" for k' by (rule kernel_ok_steady [OF assms(1)])
  show ?thesis
  proof (cases a)
    case (Kill p)
    then show ?thesis by (simp add: kernel_ok_kill [OF assms(1)])
  next
    case Kill_Children
    then show ?thesis by (simp add: sys_task_kill_children_def as_caller_def c(1) kernel_ok_kill_children [OF assms(1)])
  next
    case (Receive out)
    obtain v m k' where "sys_ipc_receive out k = (v, m, k')" by (metis prod_cases3)
    then show ?thesis using kernel_ok_receive(1) [OF assms(1) c(1,3)] Receive by simp
  next
    case (Receive_Wait frame rpc kctx out n)
    then show ?thesis by (simp add: kernel_ok_receive_wait [OF assms(1) c(1-3)])
  next
    case (Continue kctx)
    then show ?thesis by (simp add: c(1) kernel_ok_resume [OF assms(1) c])
  next
    case (Spawn p arg)
    then show ?thesis by (simp add: kernel_ok_spawn_exec [OF assms(1) q])
  next
    case (Exec p arg)
    then show ?thesis by (simp add: kernel_ok_spawn_exec [OF assms(1) q])
  qed (simp_all add: c(1) steady_calls [THEN st] steady_send [THEN st] steady_end_task [THEN st])
qed

lemma kernel_ok_boot: "kernel_ok (tasking_init boot_state)"
proof -
  have "k_current (tasking_init boot_state) = Some 0" "k_rr_anchor (tasking_init boot_state) = None"
    "k_sched_only (tasking_init boot_state) = None" "k_deferred_reap (tasking_init boot_state) = None"
    "tsk (tasking_init boot_state) 0 = kernel_task boot_state"
    by (simp_all add: tasking_init_eq boot_state_def tsk_def)
  then show ?thesis
    by (simp add: kernel_ok_def sched_ok_def kwf_boot reap_held_def no_lost_wakeup_def asleep_ok_def kernel_task_def)
qed

lemma kernel_ok_globals [simp]:
  "kernel_ok (k\<lparr>k_gets_waiter := w\<rparr>) = kernel_ok k" "kernel_ok (k\<lparr>k_ticks := t\<rparr>) = kernel_ok k"
  "kernel_ok (k\<lparr>k_resume_after_high := r\<rparr>) = kernel_ok k"
  by (simp_all add: kernel_ok_def sched_ok_def reap_held_def no_lost_wakeup_def asleep_ok_def)

lemma kernel_ok_purge: "kernel_ok k \<Longrightarrow> kernel_ok (k\<lparr>k_spill := ipc_spill_clear_pid p (k_spill k)\<rparr>)"
proof -
  assume k: "kernel_ok k"
  have "spill_pending (ipc_spill_clear_pid p s) q \<Longrightarrow> spill_pending s q" for s q
    by (auto simp: spill_pending_def ipc_spill_clear_pid_def split: if_splits)
  then have "no_lost_wakeup (k\<lparr>k_spill := ipc_spill_clear_pid p (k_spill k)\<rparr>)"
    using kernel_okD(4) [OF k] by (auto simp: no_lost_wakeup_def asleep_ok_def)
  then show ?thesis by (rule kernel_ok_tframe [OF k tframe_spill])
qed

lemma kernel_ok_clock: "kernel_ok k \<Longrightarrow> kernel_ok (clock_tick k)"
  unfolding clock_tick_def by (rule kernel_ok_steady [OF _ steady_tick]) simp

lemma reached_ok: "reached initrd elf stack k \<Longrightarrow> kernel_ok k"
proof (induction rule: reached.induct)
  case (boot_task k path)
  then show ?case by (metis kernel_ok_create prod.collapse)
next
  case (notify k p i m r k')
  show ?case by (rule kernel_ok_steady [OF notify.IH steady_deliver [OF get_task_by_id_SomeD(1) [OF notify.hyps(2)] notify.hyps(3)]])
next
  case (switch k cpu k')
  show ?case by (rule kernel_ok_switch [OF switch.IH switch.hyps(2,3)])
qed (simp_all add: kernel_ok_boot kernel_ok_call kernel_ok_purge kernel_ok_clock task_yield_to_driver_mark_def)

subsection \<open>The queue loops\<close>

text \<open>
  The loops of \<open>task.c\<close> over the task queue, as they are written, with no bound: \<open>queue_loop\<close>
  is \<open>do { visit t; t = t->next; } while (t && t != task_queue)\<close> and \<open>scan_loop\<close> is
  \<open>do { t = t->next; visit t; } while (t != start)\<close>. The result lists the nodes in the order of the
  visits; a loop that never ends has the value \<open>None\<close>, as has a scan that meets a null pointer.
\<close>

partial_function (option) queue_loop :: "('a \<Rightarrow> 'a option) \<Rightarrow> 'a \<Rightarrow> 'a \<Rightarrow> 'a list option" where
  "queue_loop nxt h t =
     (case nxt t of
        None \<Rightarrow> Some [t]
      | Some u \<Rightarrow> if u = h then Some [t] else Option.bind (queue_loop nxt h u) (\<lambda>us. Some (t # us)))"

partial_function (option) scan_loop :: "('a \<Rightarrow> 'a option) \<Rightarrow> 'a \<Rightarrow> 'a \<Rightarrow> 'a list option" where
  "scan_loop nxt start t =
     (case nxt t of
        None \<Rightarrow> None
      | Some u \<Rightarrow> if u = start then Some [u] else Option.bind (scan_loop nxt start u) (\<lambda>us. Some (u # us)))"

declare queue_loop.simps [code] scan_loop.simps [code]

lemma queue_loop_segs:
  assumes "segs nxt prv (t # xs)" and "h \<notin> set xs" and "nxt (last (t # xs)) = Some h"
  shows "queue_loop nxt h t = Some (t # xs)"
  using assms by (induction xs arbitrary: t) (auto simp: queue_loop.simps)

lemma scan_loop_segs:
  assumes "segs nxt prv (t # xs)" and "start \<notin> set xs" and "nxt (last (t # xs)) = Some start"
  shows "scan_loop nxt start t = Some (xs @ [start])"
  using assms by (induction xs arbitrary: t) (auto simp: scan_loop.simps)

lemma queue_length:
  assumes "kwf k"
  shows "length (queue_slots k) \<le> 16"
  using slots_bound [OF kwf_sizes(7) [OF assms]] kwf_sizes(8) [OF assms] by blast

lemma queue_loop_ends:
  assumes "kwf k" and "k_queue k = Some h"
  shows "queue_loop (nx k) h h = Some (queue_slots k)"
proof -
  have "queue_slots k \<noteq> []" "hd (queue_slots k) = h"
    using assms(2) by (auto simp: queue_slots_def numeral_eq_Suc)
  then obtain xs where q: "queue_slots k = h # xs" by (cases "queue_slots k") auto
  then have "linked_ring (nx k) (pv k) (h # xs)" using kwf_sizes(6) [OF assms(1)] by (auto simp: ring_rep_def)
  then show ?thesis unfolding q by (intro queue_loop_segs [where prv = "pv k"]) (auto simp: linked_ring_def)
qed

lemma scan_loop_ends:
  assumes "kwf k" and "s \<in> set (queue_slots k)"
  shows "scan_loop (nx k) s s = Some (scan_slots k s)"
proof -
  obtain xs ys where q: "queue_slots k = xs @ s # ys" using assms(2) by (meson split_list)
  have "linked_ring (nx k) (pv k) (xs @ s # ys)" using kwf_sizes(6) [OF assms(1)] q by (auto simp: ring_rep_def)
  then have "linked_ring (nx k) (pv k) (s # ys @ xs)"
    using linked_ring_rotate [of "nx k" "pv k" xs "s # ys"] by simp
  then have "scan_loop (nx k) s s = Some ((ys @ xs) @ [s])"
    by (intro scan_loop_segs [where prv = "pv k"]) (auto simp: linked_ring_def)
  then show ?thesis using scan_slots_ring [OF assms(1) q] by simp
qed

subsection \<open>A sleeping receiver\<close>

lemma ep_view_none: "ep_count e = 0 \<Longrightarrow> ep_view e = []"
  by (simp add: ep_view_def)

lemma wake_by_send:
  assumes k: "kernel_ok k" and c: "k_current k = Some c" and p: "payload_ok m"
    and i: "get_task_by_id k q = Some i" "t_type (tsk k i) = TASK_TYPE_USER" "t_state (tsk k i) = TASK_BLOCKED_IPC"
  shows "\<exists>k'. sys_ipc_send r q (Some m) k = (0, k') \<and> t_state (tsk k' i) = TASK_READY \<and>
    ep_inv (t_ipc_endpoint (tsk k' i)) \<and> ep_view (t_ipc_endpoint (tsk k' i)) = [message_of (t_id (tsk k c)) m]"
proof -
  have q: "i \<in> set (queue_slots k)" using get_task_by_id_SomeD(1) [OF i(1)] .
  note wf = kernel_okD(1) [OF k]
  have inv: "ep_inv (t_ipc_endpoint (tsk k i))" and w: "w_blocked (t_ipc_wait (tsk k i))"
    using kwf_task(2) [OF wf q] i(3) by (simp_all add: task_ok_def)
  have l: "i < length (k_pool k)" using kwf_sizes(1,8) [OF wf] q by simp
  have z: "ep_count (t_ipc_endpoint (tsk k i)) = 0"
    using kernel_okD(4) [OF k] q i(3) by (auto simp: no_lost_wakeup_def asleep_ok_def)
  then have v: "ep_view (t_ipc_endpoint (tsk k i)) = []" by (rule ep_view_none)
  obtain e where e: "ipc_endpoint_send (t_ipc_endpoint (tsk k i)) (t_id (tsk k c)) (Some m) = (0, e)"
    "ep_inv e" "ep_view e = [message_of (t_id (tsk k c)) m]"
    using ipc_endpoint_send_ok [OF inv p, of "t_id (tsk k c)"] z v by auto
  define k1 where "k1 = upd_task i (\<lambda>t. t\<lparr>t_ipc_endpoint := e\<rparr>) k"
  have t1: "tsk k1 i = (tsk k i)\<lparr>t_ipc_endpoint := e\<rparr>" and l1: "i < length (k_pool k1)" using l by (simp_all add: k1_def)
  have "sys_ipc_send r q (Some m) k = (0, task_ipc_message_queued (Some i) k1)"
    using c i(1,2,3) p z e(1) by (simp add: sys_ipc_send_def payload_ok_def Let_def k1_def)
  moreover have "task_ipc_message_queued (Some i) k1 = upd_task i (\<lambda>t. t\<lparr>t_ipc_wait := snd (ipc_wait_on_message (t_ipc_wait (tsk k i))), t_state := TASK_READY\<rparr>) k1"
    using i(3) w t1 by (simp add: task_ipc_message_queued_def ipc_wait_on_message_def)
  ultimately show ?thesis using t1 l1 e(2,3) by simp
qed

lemma resume_with_message:
  assumes c: "k_current k = Some i" and i: "i < length (k_pool k)" "t_type (tsk k i) = TASK_TYPE_USER"
    and e: "ep_inv (t_ipc_endpoint (tsk k i))" "ep_view (t_ipc_endpoint (tsk k i)) = m # ms"
  shows "\<exists>k'. ipc_receive_wait_resume kctx i k = Inl (0, Some m, k') \<and> ep_view (t_ipc_endpoint (tsk k' i)) = ms \<and>
    \<not> w_blocked (t_ipc_wait (tsk k' i))"
proof -
  obtain e' where e': "ipc_endpoint_receive (t_ipc_endpoint (tsk k i)) True = (0, e', Some m)" "ep_view e' = ms"
    using ipc_endpoint_receive_cons [OF e] by blast
  then show ?thesis
    using c i by (auto simp: ipc_receive_wait_resume_def sys_ipc_receive_def ipc_wait_after_wake_def)
qed

subsection \<open>Properties of every run\<close>


lemma shell_reached: "reached (\<lambda>_. Some ()) (\<lambda>_. 0x400000) 0xB0000000 shell_state"
  unfolding shell_state_def by (rule reached.boot_task [OF reached.boot]) (simp add: kwf_boot)


text \<open>
  C9. The unbounded loops over the task queue end: in every reachable state the walk of the queue
  that \<open>get_task_by_id\<close>, \<open>get_task_count\<close> and the other operations make, and the scan of
  \<open>schedule_impl\<close> from any queued task, return after at most sixteen steps, and visit every queued
  task exactly once.
\<close>

theorem queue_loops_terminate:
  assumes "reached initrd elf stack k" and "k_queue k = Some h" and "s \<in> set (queue_slots k)"
  shows "queue_loop (nx k) h h = Some (queue_slots k) \<and>
    (\<exists>ts. scan_loop (nx k) s s = Some ts \<and> distinct ts \<and> set ts = set (queue_slots k) \<and>
       ts = scan_slots k s \<and> length ts \<le> OS_TASK_GLOBAL_CAPACITY) \<and>
    distinct (queue_slots k) \<and> length (queue_slots k) \<le> OS_TASK_GLOBAL_CAPACITY"
proof -
  note wf = kernel_okD(1) [OF reached_ok [OF assms(1)]]
  note d = scan_slots_set [OF wf assms(3)] kwf_sizes(7) [OF wf]
  have "length (scan_slots k s) = length (queue_slots k)" using d by (metis distinct_card)
  then show ?thesis
    using queue_loop_ends [OF wf assms(2)] scan_loop_ends [OF wf assms(3)] d queue_length [OF wf] by simp
qed

lemma shell_queue: "k_queue shell_state = Some 0"
  using shell_state_facts(2) by (cases "k_queue shell_state") (auto simp: queue_slots_def numeral_eq_Suc)

theorem queue_loops_terminate_witness:
  "queue_loop (nx shell_state) 0 0 = Some [0, 1] \<and> (\<exists>ts. scan_loop (nx shell_state) 1 1 = Some ts \<and> set ts = {0, 1})"
  using queue_loops_terminate [OF shell_reached shell_queue, of 1] by (auto simp: shell_state_facts)

text \<open>
  C10. A message wakes its receiver and arrives: when the current task sends a well-sized message to
  a user task that sleeps in \<open>sys_ipc_receive_wait\<close>, the send succeeds whatever services the receiver
  owns, the receiver becomes ready, and its wait, resumed in any later state in which it is current
  and its mailbox has not been read, returns exactly this message, with the PID of the sender, and
  leaves in the mailbox only what came after it.
\<close>

theorem message_reaches_sleeper:
  assumes "kernel_ok k" and "k_current k = Some c" and "payload_ok m"
    and "get_task_by_id k p = Some i" and "t_type (tsk k i) = TASK_TYPE_USER" and "t_state (tsk k i) = TASK_BLOCKED_IPC"
  shows "\<exists>k1. sys_ipc_send r p (Some m) k = (0, k1) \<and> t_state (tsk k1 i) = TASK_READY \<and>
    (\<forall>k2 ms kctx. k_current k2 = Some i \<and> kwf k2 \<and> i \<in> set (queue_slots k2) \<and> t_type (tsk k2 i) = TASK_TYPE_USER \<and>
       ep_view (t_ipc_endpoint (tsk k2 i)) = ep_view (t_ipc_endpoint (tsk k1 i)) @ ms \<longrightarrow>
       (\<exists>k3. ipc_receive_wait_resume kctx i k2 = Inl (0, Some (message_of (t_id (tsk k c)) m), k3) \<and>
          ep_view (t_ipc_endpoint (tsk k3 i)) = ms))"
proof -
  obtain k1 where k1: "sys_ipc_send r p (Some m) k = (0, k1)" "t_state (tsk k1 i) = TASK_READY"
    "ep_view (t_ipc_endpoint (tsk k1 i)) = [message_of (t_id (tsk k c)) m]"
    using wake_by_send [OF assms, of r] by blast
  have "\<exists>k3. ipc_receive_wait_resume kctx i k2 = Inl (0, Some (message_of (t_id (tsk k c)) m), k3) \<and>
      ep_view (t_ipc_endpoint (tsk k3 i)) = ms"
    if "k_current k2 = Some i" "kwf k2" "i \<in> set (queue_slots k2)" "t_type (tsk k2 i) = TASK_TYPE_USER"
      "ep_view (t_ipc_endpoint (tsk k2 i)) = ep_view (t_ipc_endpoint (tsk k1 i)) @ ms" for k2 ms kctx
    using resume_with_message [of k2 i "message_of (t_id (tsk k c)) m" ms kctx] that k1(3)
      kwf_sizes(1,8) [OF that(2)] kwf_task(2) [OF that(2,3)] by (auto simp: task_ok_def)
  with k1(1,2) show ?thesis by blast
qed

definition sleeper_state :: kstate where
  "sleeper_state = upd_task 2 (\<lambda>t. t\<lparr>t_state := TASK_BLOCKED_IPC, t_ipc_endpoint := ipc_endpoint_init,
     t_ipc_wait := ipc_wait_begin ipc_wait_zero 0 OS_IPC_WAIT_FOREVER OS_IPC_WAIT_FOREVER\<rparr>) desk_state"

lemma sleeper_state_facts:
  "kernel_ok sleeper_state" "k_current sleeper_state = Some 1" "get_task_by_id sleeper_state 2 = Some 2"
  "t_type (tsk sleeper_state 2) = TASK_TYPE_USER" "t_state (tsk sleeper_state 2) = TASK_BLOCKED_IPC"
proof -
  note f = desk_state_facts
  note wf0 = sched_okD(1) [OF f(5)]
  have len: "length (k_pool desk_state) = 16" by (rule kwf_sizes(1) [OF wf0])
  have wf: "kwf sleeper_state"
    unfolding sleeper_state_def by (rule kwf_upd_task [OF wf0]) (auto simp: task_ok_def ipc_wait_begin_def wait_inv_def exit_log_def event_log_def)
  have t: "tsk sleeper_state i = (if i = 2 then (tsk turn_state 2)\<lparr>t_state := TASK_BLOCKED_IPC, t_ipc_endpoint := ipc_endpoint_init,
      t_ipc_wait := ipc_wait_begin ipc_wait_zero 0 OS_IPC_WAIT_FOREVER OS_IPC_WAIT_FOREVER\<rparr> else tsk turn_state i)" for i
    using len by (simp add: sleeper_state_def f(9))
  have g: "get_task_by_id (k\<lparr>k_current := a, k_rr_anchor := b, k_resume_after_high := c, k_sched_only := d, k_gets_waiter := e\<rparr>) = get_task_by_id k"
    for k a b c d e by (rule get_task_by_id_cong) auto
  have k: "queue_slots sleeper_state = [0, 1, 2, 3]" "k_current sleeper_state = Some 1" "k_sched_only sleeper_state = None"
    "k_rr_anchor sleeper_state = None" "k_deferred_reap sleeper_state = None" "k_spill sleeper_state = spill_blank"
    "get_task_by_id sleeper_state = [0 \<mapsto> 0, 1 \<mapsto> 1, 2 \<mapsto> 2, 3 \<mapsto> 3]"
    using turn_state_facts(6) family_facts(3,6)
    by (simp_all add: sleeper_state_def f, simp_all add: desk_state_def turn_state_def g)
  have ids: "t_id (tsk turn_state 1) = 1" "t_id (tsk turn_state 2) = 2" "t_id (tsk turn_state 3) = 3"
    using family_facts kwf_sizes(1) [OF family_facts(1)] by (simp_all add: turn_state_def)
  show "kernel_ok sleeper_state"
    using wf turn_state_facts ids
    by (simp add: kernel_ok_def sched_ok_def no_lost_wakeup_def asleep_ok_def reap_held_def k t ipc_endpoint_init_def spill_pending_def spill_blank_def)
  show "k_current sleeper_state = Some 1" "get_task_by_id sleeper_state 2 = Some 2"
    "t_type (tsk sleeper_state 2) = TASK_TYPE_USER" "t_state (tsk sleeper_state 2) = TASK_BLOCKED_IPC"
    using turn_state_facts by (simp_all add: k t)
qed

theorem message_reaches_sleeper_witness:
  "\<exists>k1. sys_ipc_send blank_registry 2 (Some \<lparr>pl_type = 7, pl_size = 2, pl_request_id = 5, pl_data = [1, 2]\<rparr>) sleeper_state = (0, k1) \<and>
     t_state (tsk k1 2) = TASK_READY"
  using message_reaches_sleeper [OF sleeper_state_facts(1,2) _ sleeper_state_facts(3,4,5),
      of "\<lparr>pl_type = 7, pl_size = 2, pl_request_id = 5, pl_data = [1, 2]\<rparr>" blank_registry]
  by (auto simp: payload_ok_def)

end
