(* ===== verification/Journal.thy ===== *)
theory Journal
  imports Registry_Inv
begin

text \<open>
  The table of persistent mounts, the history of service events, and the two journals that carry
  them over a reboot (\<open>service_registry.c\<close>, the \<open>mount_journal_\<close>, \<open>event_journal_\<close>,
  \<open>persistent_mount_\<close> and \<open>notify_\<close> functions, the watch list, and \<open>service_registry_init\<close>).

  A journal image is the list of its bytes. The packed structures are written out field by field
  in little-endian order: header fields are read at offsets 0, 4, 8, \<open>\<dots>\<close>; a mount entry has
  69 bytes (16 name, 48 prefix, 4 source, 1 active) and an event entry 32. A buffer argument is an
  option (NULL) whose list has the length the caller passes along. \<open>kernel_journal_sector_io\<close>
  belongs to the disk driver: a write it is asked for is logged in \<open>rg_writes\<close>, and what a read
  gives is the parameter \<open>sectors\<close> (the bytes, or None when the read fails).
\<close>

abbreviation (input) MOUNT_JOURNAL_MAGIC :: u32 where "MOUNT_JOURNAL_MAGIC \<equiv> 0x4A544E4D"
abbreviation (input) MOUNT_JOURNAL_VERSION :: u32 where "MOUNT_JOURNAL_VERSION \<equiv> 1"
abbreviation (input) MOUNT_JOURNAL_LBA :: u32 where "MOUNT_JOURNAL_LBA \<equiv> 4222"
abbreviation (input) MOUNT_JOURNAL_BYTES :: nat where "MOUNT_JOURNAL_BYTES \<equiv> 1024"
abbreviation (input) EVENT_JOURNAL_MAGIC :: u32 where "EVENT_JOURNAL_MAGIC \<equiv> 0x544E5645"
abbreviation (input) EVENT_JOURNAL_VERSION :: u32 where "EVENT_JOURNAL_VERSION \<equiv> 1"
abbreviation (input) EVENT_JOURNAL_LBA :: u32 where "EVENT_JOURNAL_LBA \<equiv> 4224"
abbreviation (input) EVENT_JOURNAL_BYTES :: nat where "EVENT_JOURNAL_BYTES \<equiv> 512"

subsection \<open>Persistent mounts\<close>

definition upd_mount :: "nat \<Rightarrow> (persistent_mount \<Rightarrow> persistent_mount) \<Rightarrow> registry \<Rightarrow> registry" where
  "upd_mount i f r = r\<lparr>rg_mounts := (rg_mounts r)[i := f (rg_mounts r ! i)]\<rparr>"

definition mount_for :: "cstring \<Rightarrow> cstring \<Rightarrow> persistent_mount \<Rightarrow> bool" where
  "mount_for name pfx m \<longleftrightarrow> mt_active m \<and> name_equal (mt_service_name m) name \<and>
     service_registry_backend_prefix_equal (mt_prefix m) (Some pfx)"

definition mount_insert :: "cstring \<Rightarrow> cstring option \<Rightarrow> u32 \<Rightarrow> registry \<Rightarrow> rc \<times> registry" where
  "mount_insert name pfx source r =
     (if \<not> service_registry_name_valid name then (OS_SERVICE_BAD_NAME, r)
      else (case pfx of None \<Rightarrow> (OS_SERVICE_BAD_NAME, r) | Some p \<Rightarrow>
        if rd p 0 = NUL then (OS_SERVICE_BAD_NAME, r)
        else if \<not> service_registry_backend_prefix_valid (Some p) then (OS_SERVICE_BAD_NAME, r)
        else (case first_idx (mount_for name p) (rg_mounts r) of
           Some i \<Rightarrow> (0, upd_mount i (\<lambda>m. m\<lparr>mt_source := source\<rparr>) r)
         | None \<Rightarrow> (case first_idx (\<lambda>m. \<not> mt_active m) (rg_mounts r) of
              None \<Rightarrow> (OS_SERVICE_FULL, r)
            | Some i \<Rightarrow> (0, upd_mount i (\<lambda>m. \<lparr>mt_service_name = copy_name name,
                 mt_prefix = service_registry_backend_copy_prefix p, mt_source = source, mt_active = True\<rparr>) r)))))"

definition mount_journal_checksum :: "u8 list \<Rightarrow> u32" where
  "mount_journal_checksum data = fold (\<lambda>b sum. sum + ucast b) data 0"

definition mount_journal_entry :: "persistent_mount \<Rightarrow> u8 list" where
  "mount_journal_entry m = map byte (copy_name (mt_service_name m)) @
     map byte (service_registry_backend_copy_prefix (mt_prefix m)) @ enc32 (mt_source m) @ [1]"

definition service_registry_mount_journal_export :: "u8 list option \<Rightarrow> registry \<Rightarrow> rc \<times> u8 list option" where
  "service_registry_mount_journal_export buf r =
     (case buf of None \<Rightarrow> (OS_SERVICE_BAD_NAME, None) | Some b \<Rightarrow>
        let count = length (filter mt_active (rg_mounts r));
            need = 16 + count * 69
        in if length b < need \<or> need > MOUNT_JOURNAL_BYTES then (OS_SERVICE_FULL, Some b)
           else let body = concat (map mount_journal_entry (filter mt_active (rg_mounts r)))
             in (0, Some (enc32 MOUNT_JOURNAL_MAGIC @ enc32 MOUNT_JOURNAL_VERSION @ enc32 (word_of_nat count) @
                  enc32 (mount_journal_checksum body) @ body @ replicate (length b - need) 0)))"

definition clear_mount :: "persistent_mount \<Rightarrow> persistent_mount" where
  "clear_mount m = \<lparr>mt_service_name = clear0 (mt_service_name m), mt_prefix = clear0 (mt_prefix m),
     mt_source = 0, mt_active = False\<rparr>"

fun import_mounts :: "nat \<Rightarrow> u8 list \<Rightarrow> registry \<Rightarrow> rc \<times> registry" where
  "import_mounts 0 cursor r = (0, r)"
| "import_mounts (Suc n) cursor r =
     (if cursor ! 68 = 0 then import_mounts n (drop 69 cursor) r
      else
        let name = (map chr (take 16 cursor))[15 := NUL];
            pfx = (map chr (take 48 (drop 16 cursor)))[47 := NUL];
            ins = mount_insert name (Some pfx) (dec32 (drop 64 cursor)) r
        in if fst ins \<noteq> 0 then (OS_SERVICE_FULL, snd ins)
           else import_mounts n (drop 69 cursor) (snd ins))"

definition service_registry_mount_journal_import :: "u8 list option \<Rightarrow> registry \<Rightarrow> rc \<times> registry" where
  "service_registry_mount_journal_import buf r =
     (case buf of None \<Rightarrow> (OS_SERVICE_BAD_NAME, r) | Some b \<Rightarrow>
        if length b < 16 then (OS_SERVICE_BAD_NAME, r)
        else
          let magic = dec32 b; version = dec32 (drop 4 b); count = dec32 (drop 8 b); checksum = dec32 (drop 12 b);
              bytes = unat count * 69
          in if magic \<noteq> MOUNT_JOURNAL_MAGIC \<or> version \<noteq> MOUNT_JOURNAL_VERSION then (OS_SERVICE_NOT_FOUND, r)
             else if count = 0 \<or> count > 8 then (OS_SERVICE_NOT_FOUND, r)
             else if length b < 16 + bytes then (OS_SERVICE_NOT_FOUND, r)
             else if checksum \<noteq> mount_journal_checksum (take bytes (drop 16 b)) then (OS_SERVICE_NOT_FOUND, r)
             else import_mounts (unat count) (drop 16 b) (r\<lparr>rg_mounts := map clear_mount (rg_mounts r)\<rparr>))"

definition mount_journal_flush :: "registry \<Rightarrow> registry" where
  "mount_journal_flush r =
     (if rg_boot_pending r AND 1 \<noteq> 0 then r
      else (case service_registry_mount_journal_export (Some (replicate MOUNT_JOURNAL_BYTES 0)) r of
         (rc, buf) \<Rightarrow> if rc \<noteq> 0 then r else r\<lparr>rg_writes := (MOUNT_JOURNAL_LBA, the buf) # rg_writes r\<rparr>))"

definition mount_journal_load :: "(u32 \<Rightarrow> u8 list option) \<Rightarrow> registry \<Rightarrow> rc \<times> registry" where
  "mount_journal_load sectors r =
     (case sectors MOUNT_JOURNAL_LBA of None \<Rightarrow> (- 1, r) | Some b \<Rightarrow> service_registry_mount_journal_import (Some b) r)"

definition service_registry_persistent_mount_add :: "cstring \<Rightarrow> cstring option \<Rightarrow> u32 \<Rightarrow> registry \<Rightarrow> rc \<times> registry" where
  "service_registry_persistent_mount_add name pfx source r =
     (case mount_insert name pfx source r of (rc, r1) \<Rightarrow> if rc = 0 then (rc, mount_journal_flush r1) else (rc, r1))"

definition service_registry_persistent_mount_remove :: "cstring \<Rightarrow> cstring option \<Rightarrow> registry \<Rightarrow> rc \<times> registry" where
  "service_registry_persistent_mount_remove name pfx r =
     (if \<not> service_registry_name_valid name then (OS_SERVICE_BAD_NAME, r)
      else (case pfx of None \<Rightarrow> (OS_SERVICE_BAD_NAME, r) | Some p \<Rightarrow>
        (case first_idx (mount_for name p) (rg_mounts r) of
           None \<Rightarrow> (OS_SERVICE_NOT_FOUND, r)
         | Some i \<Rightarrow> (0, mount_journal_flush (upd_mount i (\<lambda>m. m\<lparr>mt_active := False,
              mt_service_name := clear0 (mt_service_name m), mt_prefix := clear0 (mt_prefix m)\<rparr>) r)))))"

definition service_registry_persistent_mount_get :: "cstring \<Rightarrow> nat \<Rightarrow> registry \<Rightarrow> rc \<times> persistent_mount list" where
  "service_registry_persistent_mount_get name limit r =
     (if \<not> service_registry_name_valid name then (OS_SERVICE_BAD_NAME, [])
      else let ms = filter (\<lambda>m. mt_active m \<and> name_equal (mt_service_name m) name) (rg_mounts r)
           in (int (length ms), take limit ms))"

definition service_registry_persistent_mount_restore :: "cstring \<Rightarrow> registry \<Rightarrow> rc" where
  "service_registry_persistent_mount_restore name r = fst (service_registry_persistent_mount_get name 0 r)"

text \<open>The text written to the buffer is None when the call refuses before touching it.\<close>

fun format_mounts :: "nat \<Rightarrow> cstring \<Rightarrow> persistent_mount list \<Rightarrow> rc \<times> cstring" where
  "format_mounts limit out [] = (0, out)"
| "format_mounts limit out (m # ms) =
     (let p = take OS_SERVICE_BACKEND_PREFIX_MAX (cstr (mt_prefix m))
      in if length out + length p + 2 > limit then (OS_SERVICE_FULL, out)
         else format_mounts limit (out @ p @ '' '') ms)"

definition service_registry_mount_journal_format :: "cstring \<Rightarrow> nat \<Rightarrow> registry \<Rightarrow> rc \<times> cstring option" where
  "service_registry_mount_journal_format name limit r =
     (if limit = 0 \<or> \<not> service_registry_name_valid name then (OS_SERVICE_BAD_NAME, None)
      else (case format_mounts limit []
              (filter (\<lambda>m. mt_active m \<and> name_equal (mt_service_name m) name) (rg_mounts r)) of
         (rc, out) \<Rightarrow> (rc, Some out)))"

subsection \<open>Service events\<close>

definition upd_event :: "nat \<Rightarrow> (notify_event \<Rightarrow> notify_event) \<Rightarrow> registry \<Rightarrow> registry" where
  "upd_event i f r = r\<lparr>rg_history := (rg_history r)[i := f (rg_history r ! i)]\<rparr>"

definition unacked :: "notify_event \<Rightarrow> bool" where
  "unacked h \<longleftrightarrow> ne_sequence h > 0 \<and> \<not> ne_acked h"

definition event_journal_entry :: "notify_event \<Rightarrow> u8 list" where
  "event_journal_entry h = enc32 (ne_sequence h) @ map byte (copy_name (ne_name h)) @
     enc_i32 (ne_old_pid h) @ enc_i32 (ne_new_pid h) @ enc32 (ne_reason h)"

definition service_registry_event_journal_export :: "u8 list option \<Rightarrow> registry \<Rightarrow> rc \<times> u8 list option" where
  "service_registry_event_journal_export buf r =
     (case buf of None \<Rightarrow> (OS_SERVICE_BAD_NAME, None) | Some b \<Rightarrow>
        let count = length (filter unacked (rg_history r));
            need = 20 + count * 32
        in if length b < need \<or> need > EVENT_JOURNAL_BYTES then (OS_SERVICE_FULL, Some b)
           else let body = concat (map event_journal_entry (filter unacked (rg_history r)))
             in (0, Some (enc32 EVENT_JOURNAL_MAGIC @ enc32 EVENT_JOURNAL_VERSION @ enc32 (word_of_nat count) @
                  enc32 (rg_notify_seq r) @ enc32 (mount_journal_checksum body) @ body @ replicate (length b - need) 0)))"

definition blank_event :: "notify_event \<Rightarrow> notify_event" where
  "blank_event h = \<lparr>ne_sequence = 0, ne_watcher_pid = 0, ne_name = clear0 (ne_name h), ne_old_pid = 0,
     ne_new_pid = 0, ne_reason = 0, ne_acked = False, ne_replayed = False\<rparr>"

text \<open>Entry \<open>i\<close> of the image goes to slot \<open>i\<close>; \<open>n\<close> entries are left.\<close>

fun import_events :: "nat \<Rightarrow> nat \<Rightarrow> u8 list \<Rightarrow> registry \<Rightarrow> rc \<times> registry" where
  "import_events i 0 cursor r = (0, r)"
| "import_events i (Suc n) cursor r =
     (let sequence = dec32 cursor;
          name = (map chr (take 16 (drop 4 cursor)))[15 := NUL];
          reason = dec32 (drop 28 cursor)
      in if sequence = 0 then (OS_SERVICE_NOT_FOUND, r)
         else if reason < 1 \<or> reason > 4 then (OS_SERVICE_NOT_FOUND, r)
         else if \<not> service_registry_name_valid name then (OS_SERVICE_NOT_FOUND, r)
         else import_events (Suc i) n (drop 32 cursor) (upd_event i (\<lambda>_.
           \<lparr>ne_sequence = sequence, ne_watcher_pid = 0, ne_name = copy_name name, ne_old_pid = dec_i32 (drop 20 cursor),
            ne_new_pid = dec_i32 (drop 24 cursor), ne_reason = reason, ne_acked = False, ne_replayed = False\<rparr>) r))"

definition service_registry_event_journal_import :: "u8 list option \<Rightarrow> registry \<Rightarrow> rc \<times> registry" where
  "service_registry_event_journal_import buf r =
     (case buf of None \<Rightarrow> (OS_SERVICE_BAD_NAME, r) | Some b \<Rightarrow>
        if length b < 20 then (OS_SERVICE_BAD_NAME, r)
        else
          let magic = dec32 b; version = dec32 (drop 4 b); count = dec32 (drop 8 b);
              seq_counter = dec32 (drop 12 b); checksum = dec32 (drop 16 b); bytes = unat count * 32
          in if magic \<noteq> EVENT_JOURNAL_MAGIC \<or> version \<noteq> EVENT_JOURNAL_VERSION then (OS_SERVICE_NOT_FOUND, r)
             else if count > 8 then (OS_SERVICE_NOT_FOUND, r)
             else if length b < 20 + bytes then (OS_SERVICE_NOT_FOUND, r)
             else if checksum \<noteq> mount_journal_checksum (take bytes (drop 20 b)) then (OS_SERVICE_NOT_FOUND, r)
             else import_events 0 (unat count) (drop 20 b)
                    (r\<lparr>rg_history := map blank_event (rg_history r),
                       rg_notify_seq := if seq_counter > rg_notify_seq r then seq_counter else rg_notify_seq r\<rparr>))"

definition event_journal_flush :: "registry \<Rightarrow> registry" where
  "event_journal_flush r =
     (if rg_boot_pending r AND 2 \<noteq> 0 then r
      else if \<not> rg_event_journal_allowed r then r
      else (case service_registry_event_journal_export (Some (replicate EVENT_JOURNAL_BYTES 0)) r of
         (rc, buf) \<Rightarrow> if rc \<noteq> 0 then r else r\<lparr>rg_writes := (EVENT_JOURNAL_LBA, the buf) # rg_writes r\<rparr>))"

definition event_journal_load :: "(u32 \<Rightarrow> u8 list option) \<Rightarrow> registry \<Rightarrow> rc \<times> registry" where
  "event_journal_load sectors r =
     (case sectors EVENT_JOURNAL_LBA of None \<Rightarrow> (- 1, r) | Some b \<Rightarrow> service_registry_event_journal_import (Some b) r)"

definition event_journal_bind :: "cstring \<Rightarrow> pid \<Rightarrow> registry \<Rightarrow> registry" where
  "event_journal_bind name p r =
     r\<lparr>rg_history := map (\<lambda>h. if ne_watcher_pid h = 0 \<and> ne_sequence h > 0 \<and> \<not> ne_acked h \<and> name_equal (ne_name h) name
       then h\<lparr>ne_watcher_pid := p\<rparr> else h) (rg_history r)\<rparr>"

text \<open>\<open>which\<close> is 0 for the mount journal and anything else for the event journal.\<close>

definition service_registry_boot_journal_install :: "int \<Rightarrow> u8 list option \<Rightarrow> registry \<Rightarrow> rc \<times> registry" where
  "service_registry_boot_journal_install which buf r =
     (let bit = (if which = 0 then 1 else 2) :: u8
      in if rg_boot_pending r AND bit = 0 \<or> buf = None then (- 1, r)
         else
           let r1 = r\<lparr>rg_boot_pending := rg_boot_pending r AND NOT bit\<rparr>
           in (case (if which = 0 then service_registry_mount_journal_import buf r1
                     else service_registry_event_journal_import buf r1) of
                 (rc, r2) \<Rightarrow> (if rc = 0 then 0 else 1, r2)))"

subsection \<open>The history of events and the watch list\<close>

definition service_registry_notify_record ::
  "cstring \<Rightarrow> pid \<Rightarrow> pid \<Rightarrow> pid \<Rightarrow> u32 \<Rightarrow> registry \<Rightarrow> rc \<times> u32 option \<times> registry" where
  "service_registry_notify_record name watcher old new reason r =
     (if \<not> service_registry_name_valid name \<or> watcher \<le> 0 then (OS_SERVICE_BAD_NAME, None, r)
      else
        let sq = next_nonzero (rg_notify_seq r);
            slot = (case first_idx (\<lambda>h. ne_watcher_pid h = 0) (rg_history r) of
                      Some i \<Rightarrow> i | None \<Rightarrow> unat (sq mod 8));
            r1 = upd_event slot (\<lambda>_. \<lparr>ne_sequence = sq, ne_watcher_pid = watcher, ne_name = copy_name name,
                   ne_old_pid = old, ne_new_pid = new, ne_reason = reason, ne_acked = False, ne_replayed = False\<rparr>)
                   (r\<lparr>rg_notify_seq := sq\<rparr>)
        in (0, Some sq, event_journal_flush r1))"

definition pending_for :: "pid \<Rightarrow> notify_event \<Rightarrow> bool" where
  "pending_for p h \<longleftrightarrow> ne_watcher_pid h = p \<and> ne_sequence h > 0 \<and> \<not> ne_acked h"

definition service_registry_notify_pull :: "pid \<Rightarrow> registry \<Rightarrow> rc \<times> notify_event option \<times> registry" where
  "service_registry_notify_pull p r =
     (if p \<le> 0 then (OS_SERVICE_BAD_NAME, None, r)
      else (case min_idx (pending_for p) ne_sequence (rg_history r) of
         None \<Rightarrow> (OS_SERVICE_NOT_FOUND, None, r)
       | Some i \<Rightarrow> (0, Some (rg_history r ! i), event_journal_flush (upd_event i (\<lambda>h. h\<lparr>ne_acked := True\<rparr>) r))))"

definition event_of :: "pid \<Rightarrow> u32 \<Rightarrow> notify_event \<Rightarrow> bool" where
  "event_of p sq h \<longleftrightarrow> ne_watcher_pid h = p \<and> ne_sequence h = sq"

definition service_registry_notify_ack :: "pid \<Rightarrow> u32 \<Rightarrow> registry \<Rightarrow> rc \<times> registry" where
  "service_registry_notify_ack p sq r =
     (if p \<le> 0 \<or> sq = 0 then (OS_SERVICE_BAD_NAME, r)
      else (case first_idx (event_of p sq) (rg_history r) of
         None \<Rightarrow> (OS_SERVICE_NOT_FOUND, r)
       | Some i \<Rightarrow> (0, event_journal_flush (upd_event i (\<lambda>h. h\<lparr>ne_acked := True\<rparr>) r))))"

text \<open>The counts are None when the call refuses before writing them.\<close>

definition service_registry_notify_history_count :: "pid \<Rightarrow> registry \<Rightarrow> rc \<times> (nat \<times> nat) option" where
  "service_registry_notify_history_count p r =
     (if p \<le> 0 then (OS_SERVICE_BAD_NAME, None)
      else let hs = filter (\<lambda>h. ne_watcher_pid h = p \<and> ne_sequence h > 0) (rg_history r)
           in (0, Some (length (filter ne_acked hs), length (filter (\<lambda>h. \<not> ne_acked h) hs))))"

definition service_registry_notify_replay :: "pid \<Rightarrow> u32 \<Rightarrow> registry \<Rightarrow> rc \<times> registry" where
  "service_registry_notify_replay p sq r =
     (if p \<le> 0 \<or> sq = 0 then (OS_SERVICE_BAD_NAME, r)
      else (case first_idx (event_of p sq) (rg_history r) of
         None \<Rightarrow> (OS_SERVICE_NOT_FOUND, r)
       | Some i \<Rightarrow>
           if ne_acked (rg_history r ! i) then (OS_SERVICE_STALE, r)
           else if ne_replayed (rg_history r ! i) then (OS_SERVICE_FULL, r)
           else (0, upd_event i (\<lambda>h. h\<lparr>ne_replayed := True\<rparr>) r)))"

definition service_registry_notify_is_acked :: "pid \<Rightarrow> u32 \<Rightarrow> registry \<Rightarrow> rc" where
  "service_registry_notify_is_acked p sq r =
     (if p \<le> 0 \<or> sq = 0 then OS_SERVICE_BAD_NAME
      else (case first_idx (event_of p sq) (rg_history r) of
         None \<Rightarrow> OS_SERVICE_NOT_FOUND
       | Some i \<Rightarrow> if ne_acked (rg_history r ! i) then 1 else 0))"

definition upd_watch :: "nat \<Rightarrow> (reg_watch \<Rightarrow> reg_watch) \<Rightarrow> registry \<Rightarrow> registry" where
  "upd_watch i f r = r\<lparr>rg_watches := (rg_watches r)[i := f (rg_watches r ! i)]\<rparr>"

definition service_registry_subscribe :: "task_view \<Rightarrow> cstring \<Rightarrow> pid \<Rightarrow> registry \<Rightarrow> rc \<times> registry" where
  "service_registry_subscribe tv name p r =
     (if \<not> service_registry_name_valid name \<or> p \<le> 0 then (OS_SERVICE_BAD_NAME, r)
      else
        let (sq, gen) = identity_or_zero tv p
        in (case first_idx (\<lambda>w. rw_pid w \<noteq> 0 \<and> rw_pid w = p \<and> name_equal (rw_name w) name) (rg_watches r) of
              Some i \<Rightarrow> (0, event_journal_bind name p (upd_watch i (\<lambda>w. w\<lparr>rw_sequence := sq, rw_generation := gen\<rparr>) r))
            | None \<Rightarrow> (case first_idx (\<lambda>w. rw_pid w = 0) (rg_watches r) of
                 None \<Rightarrow> (OS_SERVICE_WATCH_FULL, r)
               | Some i \<Rightarrow> (0, event_journal_bind name p (upd_watch i (\<lambda>_.
                    \<lparr>rw_pid = p, rw_sequence = sq, rw_generation = gen, rw_name = copy_name name\<rparr>) r)))))"

definition service_registry_collect_watchers :: "task_view \<Rightarrow> cstring \<Rightarrow> nat \<Rightarrow> registry \<Rightarrow> rc \<times> pid list" where
  "service_registry_collect_watchers tv name limit r =
     (if \<not> service_registry_name_valid name then (OS_SERVICE_BAD_NAME, [])
      else let ws = filter (\<lambda>w. rw_pid w > 0 \<and> name_equal (rw_name w) name \<and>
                      task_identity_valid tv (rw_pid w) (rw_sequence w) (rw_generation w)) (rg_watches r)
           in (int (length ws), take limit (map rw_pid ws)))"

definition service_registry_remove_watcher_pid :: "pid \<Rightarrow> registry \<times> spill \<Rightarrow> rc \<times> registry \<times> spill" where
  "service_registry_remove_watcher_pid p rs =
     (case rs of (r, s) \<Rightarrow>
        if p \<le> 0 then (OS_SERVICE_NOT_FOUND, r, s)
        else (if \<exists>w\<in>set (rg_watches r). rw_pid w = p then 0 else OS_SERVICE_NOT_FOUND,
              r\<lparr>rg_watches := map (\<lambda>w. if rw_pid w = p then w\<lparr>rw_pid := 0, rw_name := clear0 (rw_name w)\<rparr> else w) (rg_watches r)\<rparr>,
              ipc_spill_clear_pid p s))"

subsection \<open>Initialisation\<close>

definition init_entry :: "reg_entry \<Rightarrow> reg_entry" where
  "init_entry e = \<lparr>re_pid = 0, re_sequence = 0, re_generation = 0, re_name = clear0 (re_name e),
     re_backend_generation = 1, re_right_token = 0, re_identity_key = 0\<rparr>"

definition init_watch :: "reg_watch \<Rightarrow> reg_watch" where
  "init_watch w = \<lparr>rw_pid = 0, rw_sequence = 0, rw_generation = 0, rw_name = clear0 (rw_name w)\<rparr>"

definition init_cap :: "backend_cap \<Rightarrow> backend_cap" where
  "init_cap c = (clear_cap c)\<lparr>bc_owner_sequence := 0, bc_owner_generation := 0, bc_grantee_sequence := 0, bc_grantee_generation := 0\<rparr>"

definition default_mounts :: "registry \<Rightarrow> registry" where
  "default_mounts r =
     (let r1 = snd (mount_insert ''vfs'' (Some ''initrd/'') 1 r);
          r2 = snd (mount_insert ''vfs'' (Some ''overlay/'') 2 r1);
          r3 = snd (mount_insert ''vfs'' (Some ''fat16/'') 4 r2)
      in snd (mount_insert ''vfs'' (Some ''fat32/'') 8 r3))"

text \<open>\<open>deferred\<close> is what \<open>kernel_boot_journal_deferred\<close> answers.\<close>

definition service_registry_init :: "bool \<Rightarrow> (u32 \<Rightarrow> u8 list option) \<Rightarrow> registry \<times> spill \<Rightarrow> registry \<times> spill" where
  "service_registry_init deferred sectors rs =
     (case rs of (r, s) \<Rightarrow>
        let r1 = r\<lparr>rg_entries := map init_entry (rg_entries r), rg_watches := map init_watch (rg_watches r),
                   rg_history := map blank_event (rg_history r), rg_notify_seq := 0, rg_caps := map init_cap (rg_caps r),
                   rg_token_next := 1, rg_right_token_next := 1, rg_mounts := map clear_mount (rg_mounts r),
                   rg_boot_pending := (if deferred then 3 else 0)\<rparr>;
            r2 = (if deferred then default_mounts r1
                  else (case mount_journal_load sectors r1 of
                     (rc, q) \<Rightarrow> if rc \<noteq> 0 then default_mounts q else q));
            r3 = (if deferred then r2 else snd (event_journal_load sectors r2))
        in (r3, ipc_spill_reset s))"

end
