(* ===== verification/Mount_Journal.thy ===== *)
theory Mount_Journal
  imports Journal Registry_Owner
begin

text \<open>
  The mount journal: what is written is read back, and damage is noticed. The first lemmas, on
  checksums and little-endian words, serve the event journal too.
\<close>

subsection \<open>Checksums and words\<close>

lemma fold_sum_ucast: "fold (\<lambda>b sum. sum + ucast b) d s = s + (word_of_nat (sum_list (map unat d)) :: u32)"
proof (induction d arbitrary: s)
  case (Cons b d)
  have "(ucast b :: u32) = word_of_nat (unat b)" by (simp add: unsigned_ucast_eq word_eq_iff_unsigned)
  with Cons show ?case by (simp add: add.assoc)
qed simp

lemma sum_bytes_le: "sum_list (map unat (d :: u8 list)) \<le> 255 * length d"
proof (induction d)
  case (Cons b d)
  have "unat b < 2 ^ LENGTH(8)" by (rule unsigned_less)
  then have "unat b \<le> 255" by simp
  with Cons show ?case by simp
qed simp

lemma checksum_nat: "length d \<le> 1024 \<Longrightarrow> unat (mount_journal_checksum d) = sum_list (map unat d)"
  using sum_bytes_le [of d] by (simp add: mount_journal_checksum_def fold_sum_ucast unat_of_nat)

lemma checksum_update:
  assumes "i < length d" and "length d \<le> 1024" and "x \<noteq> d ! i"
  shows "mount_journal_checksum (d[i := x]) \<noteq> mount_journal_checksum d"
proof
  assume "mount_journal_checksum (d[i := x]) = mount_journal_checksum d"
  then have "sum_list (map unat (d[i := x])) = sum_list (map unat d)"
    using checksum_nat [of d] checksum_nat [of "d[i := x]"] assms(2) by simp
  moreover have "sum_list (map unat (d[i := x])) + unat (d ! i) = sum_list (map unat d) + unat x"
    using assms(1) by (simp add: map_update sum_list_update)
      (metis (no_types, lifting) assms(1) add.commute elem_le_sum_list le_add_diff_inverse2 length_map nth_map add.assoc trans_le_add2)
  ultimately show False using assms(3) by (simp add: word_unat_eq_iff)
qed

lemma enc32_dec32: "4 \<le> length b \<Longrightarrow> enc32 (dec32 b) = take 4 b"
proof -
  assume len: "4 \<le> length b"
  have byte: "bit (ucast (x :: u8) :: u32) n \<longleftrightarrow> n < 8 \<and> bit x n" for x n
    using bit_imp_le_length [of x n] by (auto simp: bit_simps)
  have *: "ucast (dec32 b AND 0xff) = b ! 0" "ucast (drop_bit 8 (dec32 b) AND 0xff) = b ! 1"
    "ucast (drop_bit 16 (dec32 b) AND 0xff) = b ! 2" "ucast (drop_bit 24 (dec32 b) AND 0xff) = b ! 3"
    unfolding mask_ff by (rule bit_word_eqI; auto simp: dec32_def bit_simps byte dest: bit_imp_le_length)+
  have "take 4 b = [b ! 0, b ! 1, b ! 2, b ! 3]" using len by (intro nth_equalityI) (auto simp: less_Suc_eq numeral_eq_Suc)
  then show ?thesis by (simp add: enc32_def *)
qed

lemma dec32_take: "dec32 (take 4 b) = dec32 b"
  by (simp add: dec32_def)

lemma dec32_inj: "4 \<le> length b \<Longrightarrow> 4 \<le> length c \<Longrightarrow> dec32 b = dec32 c \<longleftrightarrow> take 4 b = take 4 c"
  by (metis dec32_take enc32_dec32)

lemma dec32_update:
  assumes "k \<le> i" "i < k + 4" "k + 4 \<le> length b" "x \<noteq> b ! i"
  shows "dec32 (drop k (b[i := x])) \<noteq> dec32 (drop k b)"
proof
  assume "dec32 (drop k (b[i := x])) = dec32 (drop k b)"
  then have "take 4 (drop k (b[i := x])) = take 4 (drop k b)" using assms(3) by (simp add: dec32_inj)
  then have "take 4 (drop k (b[i := x])) ! (i - k) = take 4 (drop k b) ! (i - k)" by simp
  with assms show False by simp
qed

lemma dec32_update_other: "i < k \<or> k + 4 \<le> i \<Longrightarrow> dec32 (drop k (b[i := x])) = dec32 (drop k b)"
  by (auto simp: dec32_def drop_update_swap)

subsection \<open>Mounts\<close>

definition mount_good :: "persistent_mount \<Rightarrow> bool" where
  "mount_good m \<longleftrightarrow> service_registry_name_valid (mt_service_name m) \<and> rd (mt_prefix m) 0 \<noteq> NUL \<and>
     service_registry_backend_prefix_valid (Some (mt_prefix m))"

definition mount_key :: "persistent_mount \<Rightarrow> cstring \<times> cstring" where
  "mount_key m = (cstr (mt_service_name m), cstr (mt_prefix m))"

definition mount_view :: "registry \<Rightarrow> (cstring \<times> cstring \<times> u32) list" where
  "mount_view r = map (\<lambda>m. (cstr (mt_service_name m), cstr (mt_prefix m), mt_source m)) (filter mt_active (rg_mounts r))"

text \<open>The invariant of the table: good mounts, one for each service and prefix.\<close>

definition mounts_ok :: "registry \<Rightarrow> bool" where
  "mounts_ok r \<longleftrightarrow> length (rg_mounts r) = 8 \<and> (\<forall>m\<in>set (rg_mounts r). mt_active m \<longrightarrow> mount_good m) \<and>
     distinct (map mount_key (filter mt_active (rg_mounts r)))"

definition canon_mount :: "persistent_mount \<Rightarrow> persistent_mount" where
  "canon_mount m = \<lparr>mt_service_name = copy_name (mt_service_name m),
     mt_prefix = service_registry_backend_copy_prefix (mt_prefix m), mt_source = mt_source m, mt_active = True\<rparr>"

lemma mount_good_lengths: "mount_good m \<Longrightarrow> length (cstr (mt_service_name m)) < 16 \<and> length (cstr (mt_prefix m)) < 48"
  using prefix_scan_length [of None 48 "mt_prefix m"]
  by (auto simp: mount_good_def name_valid_iff service_registry_backend_prefix_valid_def)

lemma mount_for_iff: "mount_good m' \<Longrightarrow> mount_for (mt_service_name m') (mt_prefix m') m \<longleftrightarrow> mt_active m \<and> mount_key m = mount_key m'"
  using mount_good_lengths [of m']
  by (auto simp: mount_for_def mount_key_def name_equal_iff service_registry_backend_prefix_equal_def str_eq_upto_iff)

lemma canon_mount_facts [simp]:
  "mount_good m \<Longrightarrow> mount_key (canon_mount m) = mount_key m" "mt_source (canon_mount m) = mt_source m"
  "mt_active (canon_mount m)" "mount_good m \<Longrightarrow> mount_good (canon_mount m)"
proof -
  show k: "mount_key (canon_mount m) = mount_key m" if "mount_good m"
    using mount_good_lengths [OF that]
    by (simp add: mount_key_def canon_mount_def copy_name_def service_registry_backend_copy_prefix_def cstr_copy_upto_short)
  show "mount_good (canon_mount m)" if "mount_good m"
  proof -
    have c: "cstr (mt_service_name (canon_mount m)) = cstr (mt_service_name m)" "cstr (mt_prefix (canon_mount m)) = cstr (mt_prefix m)"
      using k [OF that] by (simp_all add: mount_key_def)
    with that show ?thesis
      using prefix_scan_cong [OF c(2), of None 48]
      by (simp add: mount_good_def name_valid_iff service_registry_backend_prefix_valid_def flip: cstr_empty_iff)
  qed
qed (simp_all add: canon_mount_def)

lemma mount_insert_free:
  assumes "mount_good m" and "length (rg_mounts r) = 8" and "k < 8"
    and "\<forall>i<8. mt_active (rg_mounts r ! i) \<longleftrightarrow> i < k" and "\<forall>i<k. mount_key (rg_mounts r ! i) \<noteq> mount_key m"
  shows "mount_insert (mt_service_name m) (Some (mt_prefix m)) (mt_source m) r = (0, r\<lparr>rg_mounts := (rg_mounts r)[k := canon_mount m]\<rparr>)"
proof -
  have "first_idx (mount_for (mt_service_name m) (mt_prefix m)) (rg_mounts r) = None"
    using assms by (auto simp: first_idx_None in_set_conv_nth mount_for_iff)
  moreover have "first_idx (\<lambda>m. \<not> mt_active m) (rg_mounts r) = Some k" using assms by (simp add: first_idx_Some)
  ultimately show ?thesis
    using assms(1) by (simp add: mount_insert_def mount_good_def upd_mount_def canon_mount_def)
qed

lemma mount_insert_cong:
  assumes "cstr n = cstr n'" and "cstr p = cstr p'" and "length (cstr p) < 48" "length (cstr n) < 16"
  shows "mount_insert n (Some p) s r = mount_insert n' (Some p') s r"
proof -
  have "mount_for n p = mount_for n' p'"
    using assms by (auto simp: mount_for_def name_equal_iff service_registry_backend_prefix_equal_def str_eq_upto_iff)
  moreover have "copy_name n = copy_name n'" "service_registry_backend_copy_prefix p = service_registry_backend_copy_prefix p'"
    using copy_upto_cong [OF assms(1), of 16] copy_upto_cong [OF assms(2), of 48]
    by (simp_all only: copy_name_def service_registry_backend_copy_prefix_def)
  ultimately show ?thesis
    using assms prefix_scan_cong [OF assms(2), of None 48]
    by (simp add: mount_insert_def name_valid_iff service_registry_backend_prefix_valid_def flip: cstr_empty_iff split: option.split)
qed

subsection \<open>Entries\<close>

lemma length_entry [simp]: "length (mount_journal_entry m) = 69"
  by (simp add: mount_journal_entry_def copy_name_def service_registry_backend_copy_prefix_def)

lemma length_entries [simp]: "length (concat (map mount_journal_entry ms)) = length ms * 69"
  by (induction ms) simp_all

lemma copy_upto_last: "length (cstr s) < n \<Longrightarrow> (copy_upto n s)[n - 1 := NUL] = copy_upto n s"
  by (rule nth_equalityI) (auto simp: copy_upto_eq nth_append nth_list_update)

lemma entry_fields:
  assumes "mount_good m"
  shows "(mount_journal_entry m @ c) ! 68 = 1"
    "(map chr (take 16 (mount_journal_entry m @ c)))[15 := NUL] = mt_service_name (canon_mount m)"
    "(map chr (take 48 (drop 16 (mount_journal_entry m @ c))))[47 := NUL] = mt_prefix (canon_mount m)"
    "dec32 (drop 64 (mount_journal_entry m @ c)) = mt_source m"
  using mount_good_lengths [OF assms] copy_upto_last [of "mt_service_name m" 16] copy_upto_last [of "mt_prefix m" 48]
  by (simp_all add: mount_journal_entry_def copy_name_def service_registry_backend_copy_prefix_def nth_append canon_mount_def comp_def)

lemma import_blank: "import_mounts j (replicate (j * 69) 0 @ c) r = (0, r)"
proof (induction j arbitrary: c)
  case (Suc j)
  have "replicate (Suc j * 69) (0 :: u8) = replicate 69 0 @ replicate (j * 69) 0" by (simp flip: replicate_add)
  with Suc show ?case by (simp add: nth_append)
qed simp

lemma import_entries:
  assumes "length (rg_mounts r) = 8" and "k + length ms \<le> 8" and "\<forall>i<8. mt_active (rg_mounts r ! i) \<longleftrightarrow> i < k"
    and "\<forall>m\<in>set ms. mount_good m" and "distinct (map mount_key (take k (rg_mounts r) @ ms))"
  shows "import_mounts (length ms + j) (concat (map mount_journal_entry ms) @ replicate (j * 69) 0 @ c) r =
    (0, r\<lparr>rg_mounts := take k (rg_mounts r) @ map canon_mount ms @ drop (k + length ms) (rg_mounts r)\<rparr>)"
  using assms
proof (induction ms arbitrary: r k)
  case Nil
  then show ?case by (simp add: import_blank)
next
  case (Cons m ms)
  let ?r = "r\<lparr>rg_mounts := (rg_mounts r)[k := canon_mount m]\<rparr>"
  let ?c = "concat (map mount_journal_entry ms) @ replicate (j * 69) 0 @ c"
  have m: "mount_good m" and k: "k < 8" using Cons.prems by simp_all
  have "mount_key (rg_mounts r ! i) \<noteq> mount_key m" if "i < k" for i
  proof -
    have "rg_mounts r ! i \<in> set (take k (rg_mounts r))" using that k Cons.prems(1) by (auto simp: in_set_conv_nth)
    then have "mount_key (rg_mounts r ! i) \<in> mount_key ` set (take k (rg_mounts r))" by (rule imageI)
    then show ?thesis using Cons.prems(5) by auto
  qed
  then have ins: "mount_insert (mt_service_name m) (Some (mt_prefix m)) (mt_source m) r = (0, ?r)"
    using mount_insert_free [OF m] Cons.prems(1,3) k by simp
  have cm: "cstr (mt_service_name (canon_mount m)) = cstr (mt_service_name m)" "cstr (mt_prefix (canon_mount m)) = cstr (mt_prefix m)"
    using canon_mount_facts(1) [OF m] by (simp_all add: mount_key_def)
  have "mount_insert (mt_service_name (canon_mount m)) (Some (mt_prefix (canon_mount m))) (mt_source m) r = (0, ?r)"
    using mount_insert_cong [OF cm] cm ins mount_good_lengths [OF m] by simp
  then have "import_mounts (length (m # ms) + j) (concat (map mount_journal_entry (m # ms)) @ replicate (j * 69) 0 @ c) r =
      import_mounts (length ms + j) ?c ?r"
    using entry_fields [OF m, of ?c] by (simp add: Let_def)
  also have "\<dots> = (0, ?r\<lparr>rg_mounts := take (Suc k) (rg_mounts ?r) @ map canon_mount ms @ drop (Suc k + length ms) (rg_mounts ?r)\<rparr>)"
  proof (rule Cons.IH)
    show "\<forall>i<8. mt_active (rg_mounts ?r ! i) \<longleftrightarrow> i < Suc k" using Cons.prems(1,3) k by (auto simp: nth_list_update less_Suc_eq)
    show "distinct (map mount_key (take (Suc k) (rg_mounts ?r) @ ms))"
      using Cons.prems(1,5) k m by (auto simp: take_Suc_conv_app_nth)
  qed (use Cons.prems k in auto)
  also have "\<dots> = (0, r\<lparr>rg_mounts := take k (rg_mounts r) @ map canon_mount (m # ms) @ drop (k + length (m # ms)) (rg_mounts r)\<rparr>)"
    using Cons.prems(1) k by (simp add: take_Suc_conv_app_nth)
  finally show ?case .
qed

subsection \<open>The image on disk\<close>

definition mount_image :: "registry \<Rightarrow> u8 list" where
  "mount_image r = the (snd (service_registry_mount_journal_export (Some (replicate 1024 0)) r))"

lemma export_image:
  assumes "length (rg_mounts r) = 8"
  defines "ms \<equiv> filter mt_active (rg_mounts r)"
  defines "body \<equiv> concat (map mount_journal_entry ms)"
  shows "service_registry_mount_journal_export (Some (replicate 1024 0)) r = (0, Some (mount_image r))"
    "mount_image r = enc32 MOUNT_JOURNAL_MAGIC @ enc32 MOUNT_JOURNAL_VERSION @ enc32 (word_of_nat (length ms)) @
       enc32 (mount_journal_checksum body) @ body @ replicate (1008 - length ms * 69) 0"
    "length ms \<le> 8"
proof -
  show n: "length ms \<le> 8" using assms(1) length_filter_le [of mt_active "rg_mounts r"] by (simp add: ms_def)
  then have fit: "\<not> 1024 < 16 + length ms * 69" by simp
  then show "service_registry_mount_journal_export (Some (replicate 1024 0)) r = (0, Some (mount_image r))"
    "mount_image r = enc32 MOUNT_JOURNAL_MAGIC @ enc32 MOUNT_JOURNAL_VERSION @ enc32 (word_of_nat (length ms)) @
       enc32 (mount_journal_checksum body) @ body @ replicate (1008 - length ms * 69) 0"
    unfolding mount_image_def service_registry_mount_journal_export_def Let_def ms_def body_def by simp_all
qed

lemma checksum_sum: "mount_journal_checksum d = word_of_nat (sum_list (map unat d))"
  by (simp add: mount_journal_checksum_def fold_sum_ucast)

lemma unat_small: "n \<le> 8 \<Longrightarrow> unat (word_of_nat n :: u32) = n"
  by (simp add: unat_of_nat)

text \<open>An image with \<open>j\<close> zero entries after the real ones is read as if they were not there.\<close>

lemma import_image:
  assumes "length (rg_mounts r) = 8" and "\<forall>m\<in>set ms. mount_good m" and "distinct (map mount_key ms)"
    and "length b = 1024" "dec32 b = MOUNT_JOURNAL_MAGIC" "dec32 (drop 4 b) = MOUNT_JOURNAL_VERSION"
    and "unat (dec32 (drop 8 b)) = length ms + j" "0 < length ms + j" "length ms + j \<le> 8"
    and "dec32 (drop 12 b) = mount_journal_checksum (concat (map mount_journal_entry ms))"
    and "drop 16 b = concat (map mount_journal_entry ms) @ replicate (j * 69) 0 @ c"
  shows "service_registry_mount_journal_import (Some b) r =
    (0, r\<lparr>rg_mounts := map canon_mount ms @ drop (length ms) (map clear_mount (rg_mounts r))\<rparr>)"
proof -
  let ?r = "r\<lparr>rg_mounts := map clear_mount (rg_mounts r)\<rparr>"
  let ?body = "concat (map mount_journal_entry ms)"
  have count: "dec32 (drop 8 b) \<noteq> 0" "\<not> dec32 (drop 8 b) > 8"
    using assms(7-9) by (auto simp: word_less_nat_alt)
  have fit: "\<not> 1024 < 16 + (length ms + j) * 69" using assms(9) by simp
  have "take ((length ms + j) * 69) (drop 16 b) = ?body @ replicate (j * 69) 0"
    unfolding assms(11) by (simp add: add_mult_distrib)
  then have sum: "mount_journal_checksum (take ((length ms + j) * 69) (drop 16 b)) = mount_journal_checksum ?body"
    by (simp add: checksum_sum map_replicate sum_list_replicate del: map_concat)
  have "import_mounts (length ms + j) (drop 16 b) ?r =
      (0, ?r\<lparr>rg_mounts := take 0 (rg_mounts ?r) @ map canon_mount ms @ drop (0 + length ms) (rg_mounts ?r)\<rparr>)"
    unfolding assms(11) by (rule import_entries) (use assms in \<open>auto simp: clear_mount_def\<close>)
  then show ?thesis
    using assms(4-7,10) count fit sum by (simp add: service_registry_mount_journal_import_def Let_def)
qed

lemma mount_view_import:
  assumes "length (rg_mounts r2) = 8" and "\<forall>m\<in>set ms. mount_good m"
  shows "mount_view (r2\<lparr>rg_mounts := map canon_mount ms @ drop k (map clear_mount (rg_mounts r2))\<rparr>) =
    map (\<lambda>m. (cstr (mt_service_name m), cstr (mt_prefix m), mt_source m)) ms"
proof -
  have "filter mt_active (map canon_mount ms) = map canon_mount ms" by (simp add: filter_id_conv)
  moreover have "filter mt_active (drop k (map clear_mount (rg_mounts r2))) = []"
    by (auto simp: filter_empty_conv clear_mount_def dest!: in_set_dropD)
  moreover have "mount_key (canon_mount m) = mount_key m" if "m \<in> set ms" for m using assms(2) that by simp
  ultimately show ?thesis by (simp add: mount_view_def mount_key_def)
qed

lemma image_read:
  assumes "mounts_ok r" and "filter mt_active (rg_mounts r) \<noteq> []" and "length (rg_mounts r2) = 8"
  shows "service_registry_mount_journal_import (Some (mount_image r)) r2 =
    (0, r2\<lparr>rg_mounts := map canon_mount (filter mt_active (rg_mounts r)) @
      drop (length (filter mt_active (rg_mounts r))) (map clear_mount (rg_mounts r2))\<rparr>)"
proof -
  have len: "length (rg_mounts r) = 8" using assms(1) by (simp add: mounts_ok_def)
  note im = export_image [OF len]
  show ?thesis
    by (rule import_image [where j = 0 and c = "replicate (1008 - length (filter mt_active (rg_mounts r)) * 69) 0"])
      (use assms im(3) in \<open>auto simp: im(2) mounts_ok_def unat_small\<close>)
qed

subsection \<open>Damage\<close>

lemma entry_sum_pos: "0 < sum_list (map unat (mount_journal_entry m))"
  by (simp add: mount_journal_entry_def)

lemma checksum_prefix:
  assumes "k < length ms" and "length ms \<le> 8"
  shows "mount_journal_checksum (concat (map mount_journal_entry (take k ms))) \<noteq> mount_journal_checksum (concat (map mount_journal_entry ms))"
proof
  let ?sum = "\<lambda>ms. sum_list (map unat (concat (map mount_journal_entry ms)))"
  assume "mount_journal_checksum (concat (map mount_journal_entry (take k ms))) = mount_journal_checksum (concat (map mount_journal_entry ms))"
  then have eq: "?sum (take k ms) = ?sum ms"
    using checksum_nat [of "concat (map mount_journal_entry (take k ms))"] checksum_nat [of "concat (map mount_journal_entry ms)"] assms
    by (simp del: map_concat)
  have "ms = take k ms @ ms ! k # drop (Suc k) ms" using assms(1) by (simp add: id_take_nth_drop)
  then have "?sum ms = ?sum (take k ms) + sum_list (map unat (mount_journal_entry (ms ! k))) + ?sum (drop (Suc k) ms)"
    by (metis (no_types, lifting) add.assoc concat.simps(2) concat_append list.simps(9) map_append sum_list_append)
  with eq entry_sum_pos [of "ms ! k"] show False by linarith
qed

lemma import_refused:
  assumes "length b = 1024"
    and "dec32 b \<noteq> MOUNT_JOURNAL_MAGIC \<or> dec32 (drop 4 b) \<noteq> MOUNT_JOURNAL_VERSION \<or> dec32 (drop 8 b) = 0 \<or> dec32 (drop 8 b) > 8 \<or>
      dec32 (drop 12 b) \<noteq> mount_journal_checksum (take (unat (dec32 (drop 8 b)) * 69) (drop 16 b))"
  shows "service_registry_mount_journal_import (Some b) r = (OS_SERVICE_NOT_FOUND, r)"
  using assms by (auto simp: service_registry_mount_journal_import_def Let_def)

lemma image_parts:
  assumes "length (rg_mounts r) = 8"
  defines "ms \<equiv> filter mt_active (rg_mounts r)"
  defines "body \<equiv> concat (map mount_journal_entry ms)"
  shows "dec32 (mount_image r) = MOUNT_JOURNAL_MAGIC" "dec32 (drop 4 (mount_image r)) = MOUNT_JOURNAL_VERSION"
    "length (mount_image r) = 1024" "dec32 (drop 12 (mount_image r)) = mount_journal_checksum body"
    "drop 16 (mount_image r) = body @ replicate (1008 - length ms * 69) 0" "unat (dec32 (drop 8 (mount_image r))) = length ms"
    "length body = length ms * 69"
  using export_image [OF assms(1)] by (simp_all add: ms_def body_def unat_small)

lemma damaged_body:
  fixes x :: u8
  assumes "length (rg_mounts r) = 8" and "16 \<le> i" "i < 16 + length (filter mt_active (rg_mounts r)) * 69"
    and "x \<noteq> mount_image r ! i"
  shows "service_registry_mount_journal_import (Some ((mount_image r)[i := x])) r2 = (OS_SERVICE_NOT_FOUND, r2)"
proof -
  let ?b = "mount_image r"
  define body where "body = concat (map mount_journal_entry (filter mt_active (rg_mounts r)))"
  define n where "n = length (filter mt_active (rg_mounts r))"
  note h = image_parts [OF assms(1), folded body_def n_def]
  have i: "i - 16 < length body" and n: "n \<le> 8" using assms(2,3) h(7) export_image(3) [OF assms(1)] by (simp_all add: n_def)
  have d: "drop 16 (?b[i := x]) = body[i - 16 := x] @ replicate (1008 - n * 69) 0"
    using assms(2) i by (simp add: drop_update_swap h(5) list_update_append)
  have "?b ! i = body ! (i - 16)" using assms(2) i h(5) nth_drop [of 16 ?b "i - 16"] h(3) by (simp add: nth_append)
  then have "mount_journal_checksum (body[i - 16 := x]) \<noteq> mount_journal_checksum body"
    using assms(4) i n h(7) by (intro checksum_update) simp_all
  moreover have "take (unat (dec32 (drop 8 (?b[i := x]))) * 69) (drop 16 (?b[i := x])) = body[i - 16 := x]"
    using assms(2) h(6,7) dec32_update_other [of i 8 ?b x] d by simp
  ultimately show ?thesis
    using assms(2) dec32_update_other [of i 12 ?b x] h(3,4) import_refused [of "?b[i := x]" r2] by simp
qed

lemma damaged_padding:
  fixes x :: u8
  assumes "mounts_ok r" and "length (rg_mounts r2) = 8" and "16 + length (filter mt_active (rg_mounts r)) * 69 \<le> i"
    and "filter mt_active (rg_mounts r) \<noteq> []"
  shows "service_registry_mount_journal_import (Some ((mount_image r)[i := x])) r2 =
    (0, r2\<lparr>rg_mounts := map canon_mount (filter mt_active (rg_mounts r)) @
      drop (length (filter mt_active (rg_mounts r))) (map clear_mount (rg_mounts r2))\<rparr>)"
proof -
  let ?b = "mount_image r"
  define ms where "ms = filter mt_active (rg_mounts r)"
  have len: "length (rg_mounts r) = 8" and good: "\<forall>m\<in>set ms. mount_good m" "distinct (map mount_key ms)"
    using assms(1) by (auto simp: mounts_ok_def ms_def)
  note h = image_parts [OF len, folded ms_def]
  have i: "length ms * 69 \<le> i - 16" "16 \<le> i" using assms(3) by (simp_all add: ms_def)
  then have "drop 16 (?b[i := x]) = concat (map mount_journal_entry ms) @ replicate (0 * 69) 0 @
      (replicate (1008 - length ms * 69) 0)[i - 16 - length ms * 69 := x]"
    by (simp add: drop_update_swap h(5) list_update_append)
  note d = this
  have n: "0 < length ms + 0" "length ms + 0 \<le> 8" using assms(4) export_image(3) [OF len] by (simp_all add: ms_def)
  have p: "length (?b[i := x]) = 1024" "dec32 (?b[i := x]) = MOUNT_JOURNAL_MAGIC" "dec32 (drop 4 (?b[i := x])) = MOUNT_JOURNAL_VERSION"
    "unat (dec32 (drop 8 (?b[i := x]))) = length ms + 0" "dec32 (drop 12 (?b[i := x])) = mount_journal_checksum (concat (map mount_journal_entry ms))"
    using h i(2) dec32_update_other [of i 0 ?b x] dec32_update_other [of i 4 ?b x] dec32_update_other [of i 8 ?b x]
      dec32_update_other [of i 12 ?b x] by simp_all
  show ?thesis unfolding ms_def [symmetric] by (rule import_image [OF assms(2) good p(1-4) n p(5) d])
qed

lemma damaged_count:
  fixes x :: u8
  assumes "mounts_ok r" and "length (rg_mounts r2) = 8" and "8 \<le> i" "i < 12" and "filter mt_active (rg_mounts r) \<noteq> []"
  defines "b \<equiv> (mount_image r)[i := x]"
  shows "service_registry_mount_journal_import (Some b) r2 = (OS_SERVICE_NOT_FOUND, r2) \<or>
    service_registry_mount_journal_import (Some b) r2 = service_registry_mount_journal_import (Some (mount_image r)) r2"
proof (cases "dec32 (drop 8 b) = 0 \<or> dec32 (drop 8 b) > 8")
  case True
  have "length b = 1024" using image_parts(3) [of r] assms(1) by (simp add: mounts_ok_def b_def)
  with True import_refused [of b r2] show ?thesis by blast
next
  case False
  have len: "length (rg_mounts r) = 8" using assms(1) by (simp add: mounts_ok_def)
  let ?ms = "filter mt_active (rg_mounts r)"
  note im = export_image [OF len]
  have lb: "length b = 1024" using image_parts(3) [OF len] by (simp add: b_def)
  let ?k = "unat (dec32 (drop 8 b))"
  have k: "0 < ?k" "?k \<le> 8" using False by (auto simp: word_less_nat_alt unat_gt_0)
  have h: "dec32 b = MOUNT_JOURNAL_MAGIC" "dec32 (drop 4 b) = MOUNT_JOURNAL_VERSION"
    "dec32 (drop 12 b) = mount_journal_checksum (concat (map mount_journal_entry ?ms))"
    "drop 16 b = concat (map mount_journal_entry ?ms) @ replicate (1008 - length ?ms * 69) 0"
    using assms(3,4) dec32_update_other [of i 0 "mount_image r" x] dec32_update_other [of i 4 "mount_image r" x]
      dec32_update_other [of i 12 "mount_image r" x] image_parts [OF len] by (simp_all add: b_def)
  show ?thesis
  proof (cases "?k < length ?ms")
    case True
    have "concat (map mount_journal_entry ?ms) = concat (map mount_journal_entry (take ?k ?ms)) @ concat (map mount_journal_entry (drop ?k ?ms))"
      by (metis append_take_drop_id concat_append map_append)
    then have "take (?k * 69) (drop 16 b) = concat (map mount_journal_entry (take ?k ?ms))" using True by (simp add: h(4))
    with checksum_prefix [OF True im(3)] h(3) import_refused [OF lb, of r2] show ?thesis by auto
  next
    case False
    then obtain j where j: "?k = length ?ms + j" using le_Suc_ex not_less by blast
    have "1008 - length ?ms * 69 = j * 69 + (1008 - (length ?ms + j) * 69)" using j k(2) by simp
    then have "drop 16 b = concat (map mount_journal_entry ?ms) @ replicate (j * 69) 0 @ replicate (1008 - (length ?ms + j) * 69) 0"
      unfolding h(4) by (simp flip: replicate_add)
    note d = this
    have good: "\<forall>m\<in>set ?ms. mount_good m" "distinct (map mount_key ?ms)" using assms(1) by (simp_all add: mounts_ok_def)
    have "service_registry_mount_journal_import (Some b) r2 =
        (0, r2\<lparr>rg_mounts := map canon_mount ?ms @ drop (length ?ms) (map clear_mount (rg_mounts r2))\<rparr>)"
      by (rule import_image [OF assms(2) good lb h(1,2) j k [unfolded j] h(3) d])
    then show ?thesis using image_read [OF assms(1,5,2)] by simp
  qed
qed


text \<open>
  C22. A damaged byte never mounts anything else. When one byte of a mount journal on disk has been
  changed, anywhere in its two sectors, reading it either refuses the journal and leaves the table
  as it was, or restores exactly the table that was written.
\<close>

theorem mount_journal_damage_safe:
  assumes "mounts_ok r" and "mount_view r \<noteq> []" and "length (rg_mounts r2) = 8" and "i < 1024"
    and "service_registry_mount_journal_export (Some (replicate 1024 0)) r = (0, Some b)"
  shows "service_registry_mount_journal_import (Some (b[i := x])) r2 \<in>
    {(OS_SERVICE_NOT_FOUND, r2), service_registry_mount_journal_import (Some b) r2}"
proof (cases "x = b ! i")
  case False
  let ?ms = "filter mt_active (rg_mounts r)"
  let ?body = "concat (map mount_journal_entry ?ms)"
  have len: "length (rg_mounts r) = 8" using assms(1) by (simp add: mounts_ok_def)
  note im = export_image [OF len]
  have b: "b = mount_image r" using im(1) assms(5) by simp
  have lb: "length (b[i := x]) = 1024" "length b = 1024" using im(2,3) by (simp_all add: b)
  have ne: "?ms \<noteq> []" using assms(2) by (auto simp: mount_view_def)
  note h = image_parts [OF len, folded b]
  consider "i < 4" | "4 \<le> i" "i < 8" | "8 \<le> i" "i < 12" | "12 \<le> i" "i < 16" | "16 \<le> i" "i < 16 + length ?ms * 69" | "16 + length ?ms * 69 \<le> i"
    by linarith
  then show ?thesis
  proof cases
    case 1
    then show ?thesis using dec32_update [of 0 i b x] False lb h(1) import_refused [OF lb(1), of r2] by simp
  next
    case 2
    then show ?thesis using dec32_update [of 4 i b x] False lb h(2) import_refused [OF lb(1), of r2] by simp
  next
    case 3
    then show ?thesis using damaged_count [OF assms(1,3) 3 ne, of x] by (simp add: b)
  next
    case 4
    then have "dec32 (drop 12 (b[i := x])) \<noteq> mount_journal_checksum ?body" using dec32_update [of 12 i b x] False lb h(4) by simp
    moreover have "take (unat (dec32 (drop 8 (b[i := x]))) * 69) (drop 16 (b[i := x])) = ?body"
      using 4 h(6) dec32_update_other [of i 8 b x] by (simp add: h(5))
    ultimately show ?thesis using import_refused [OF lb(1), of r2] by simp
  next
    case 5
    then show ?thesis using damaged_body [OF len 5, of x] False by (simp add: b)
  next
    case 6
    then show ?thesis using damaged_padding [OF assms(1,3) 6 ne, of x] image_read [OF assms(1) ne assms(3)] by (simp add: b)
  qed
qed simp

definition boot_registry :: registry where
  "boot_registry = default_mounts blank_registry"

lemma boot_registry_facts:
  "mounts_ok boot_registry" "mount_view boot_registry = [(''vfs'', ''initrd/'', 1), (''vfs'', ''overlay/'', 2), (''vfs'', ''fat16/'', 4), (''vfs'', ''fat32/'', 8)]"
  "length (rg_mounts blank_registry) = 8" "mount_view blank_registry = []"
  by code_simp+


theorem mount_journal_damage_safe_witness:
  "service_registry_mount_journal_import (Some ((mount_image boot_registry)[8 := 200])) blank_registry \<in>
    {(OS_SERVICE_NOT_FOUND, blank_registry), service_registry_mount_journal_import (Some (mount_image boot_registry)) blank_registry}"
proof -
  have "length (rg_mounts boot_registry) = 8" using boot_registry_facts(1) by (simp add: mounts_ok_def)
  note e = export_image(1) [OF this]
  show ?thesis
    by (rule mount_journal_damage_safe [OF boot_registry_facts(1) _ boot_registry_facts(3) _ e]) (simp_all add: boot_registry_facts(2))
qed

end
