(* ===== verification/Event_Journal.thy ===== *)
theory Event_Journal
  imports Mount_Journal
begin

text \<open>
  The history of service events: a watcher pulls its events oldest first, each once, and the events
  it had not yet seen reach it again after a reboot, when it subscribes to the name anew.
\<close>

subsection \<open>Pulling events\<close>

lemma event_flush_frame [simp]:
  "rg_history (event_journal_flush r) = rg_history r" "rg_notify_seq (event_journal_flush r) = rg_notify_seq r"
  "rg_watches (event_journal_flush r) = rg_watches r"
  by (auto simp: event_journal_flush_def split: prod.splits)

lemma upd_event_simps [simp]:
  "rg_history (upd_event i f r) = (rg_history r)[i := f (rg_history r ! i)]" "rg_notify_seq (upd_event i f r) = rg_notify_seq r"
  by (simp_all add: upd_event_def)

fun pulls :: "nat \<Rightarrow> pid \<Rightarrow> registry \<Rightarrow> notify_event list \<times> registry" where
  "pulls 0 p r = ([], r)"
| "pulls (Suc n) p r =
     (case service_registry_notify_pull p r of
        (rc, None, r1) \<Rightarrow> ([], r1)
      | (rc, Some h, r1) \<Rightarrow> (case pulls n p r1 of (hs, r2) \<Rightarrow> (h # hs, r2)))"

lemma pull_some:
  assumes "0 < p" and "filter (pending_for p) (rg_history r) \<noteq> []"
  obtains i where "i < length (rg_history r)" "pending_for p (rg_history r ! i)"
    "\<And>h. h \<in> set (rg_history r) \<Longrightarrow> pending_for p h \<Longrightarrow> ne_sequence (rg_history r ! i) \<le> ne_sequence h"
    "service_registry_notify_pull p r = (0, Some (rg_history r ! i), event_journal_flush (upd_event i (\<lambda>h. h\<lparr>ne_acked := True\<rparr>) r))"
proof -
  obtain i where i: "min_idx (pending_for p) ne_sequence (rg_history r) = Some i"
    using assms(2) by (cases "min_idx (pending_for p) ne_sequence (rg_history r)") (auto simp: min_idx_None filter_empty_conv)
  show ?thesis
    using min_idx_SomeD [OF i] assms(1) by (intro that [of i]) (simp_all add: service_registry_notify_pull_def i)
qed

lemma acked_not_pending [simp]: "\<not> pending_for p (h\<lparr>ne_acked := True\<rparr>)"
  by (simp add: pending_for_def)

lemma pending_for_pid: "pending_for p h \<Longrightarrow> ne_watcher_pid h = p"
  by (simp add: pending_for_def)

lemma filter_other_pending:
  assumes "i < length hs" and "pending_for p (hs ! i)" and "q \<noteq> p"
  shows "filter (pending_for q) (hs[i := (hs ! i)\<lparr>ne_acked := True\<rparr>]) = filter (pending_for q) hs"
  using assms pending_for_pid [of p "hs ! i"] pending_for_pid [of q "hs ! i"]
  by (auto simp: filter_update filter_split [OF assms(1), of "pending_for q"])

lemma pulls_sorted:
  assumes "0 < p" and "distinct (map ne_sequence (filter (pending_for p) (rg_history r)))"
    and "n = length (filter (pending_for p) (rg_history r))"
  shows "fst (pulls n p r) = sort_key ne_sequence (filter (pending_for p) (rg_history r)) \<and>
    filter (pending_for p) (rg_history (snd (pulls n p r))) = [] \<and>
    (\<forall>q. q \<noteq> p \<longrightarrow> filter (pending_for q) (rg_history (snd (pulls n p r))) = filter (pending_for q) (rg_history r))"
  using assms
proof (induction n arbitrary: r)
  case (Suc n)
  let ?P = "pending_for p"
  have ne: "filter ?P (rg_history r) \<noteq> []" using Suc.prems(3) by (metis length_0_conv nat.distinct(1))
  obtain i where i: "i < length (rg_history r)" "?P (rg_history r ! i)"
    "\<And>h. h \<in> set (rg_history r) \<Longrightarrow> ?P h \<Longrightarrow> ne_sequence (rg_history r ! i) \<le> ne_sequence h"
    "service_registry_notify_pull p r = (0, Some (rg_history r ! i), event_journal_flush (upd_event i (\<lambda>h. h\<lparr>ne_acked := True\<rparr>) r))"
    by (rule pull_some [OF Suc.prems(1) ne]) blast
  let ?r = "event_journal_flush (upd_event i (\<lambda>h. h\<lparr>ne_acked := True\<rparr>) r)"
  let ?h = "rg_history r ! i"
  have split: "filter ?P (rg_history r) = filter ?P (take i (rg_history r)) @ ?h # filter ?P (drop (Suc i) (rg_history r))"
    "filter ?P (rg_history ?r) = filter ?P (take i (rg_history r)) @ filter ?P (drop (Suc i) (rg_history r))"
    using i by (simp_all add: filter_split [OF i(1)] filter_update)
  have "mset (filter ?P (rg_history r)) = add_mset ?h (mset (filter ?P (rg_history ?r)))" unfolding split by simp
  then have "sort_key ne_sequence (filter ?P (rg_history r)) = ?h # sort_key ne_sequence (filter ?P (rg_history ?r))"
  proof (rule sort_key_cons_min [OF _ Suc.prems(2)])
    fix y assume "y \<in> set (filter ?P (rg_history ?r))"
    then have "y \<in> set (filter ?P (rg_history r))" unfolding split by auto
    then show "ne_sequence ?h \<le> ne_sequence y" using i(3) by simp
  qed
  moreover have "distinct (map ne_sequence (filter ?P (rg_history ?r)))" "n = length (filter ?P (rg_history ?r))"
    using Suc.prems(2,3) unfolding split by auto
  note IH = Suc.IH [OF Suc.prems(1) this]
  have "filter (pending_for q) (rg_history ?r) = filter (pending_for q) (rg_history r)" if "q \<noteq> p" for q
    using filter_other_pending [OF i(1,2) that] by simp
  ultimately show ?case using IH i(4) by (simp add: case_prod_beta)
qed simp

text \<open>
  A watcher receives its events oldest first, each exactly once. Pulling as often as there are
  unacknowledged events for a task returns exactly those events in increasing order of their
  sequence numbers; then nothing is left for it, and the events of every other task are untouched.
\<close>

theorem pull_in_order:
  assumes "0 < p" and "distinct (map ne_sequence (filter (pending_for p) (rg_history r)))"
    and "pulls (length (filter (pending_for p) (rg_history r))) p r = (hs, r')"
  shows "hs = sort_key ne_sequence (filter (pending_for p) (rg_history r)) \<and>
    service_registry_notify_pull p r' = (OS_SERVICE_NOT_FOUND, None, r') \<and>
    (q \<noteq> p \<longrightarrow> filter (pending_for q) (rg_history r') = filter (pending_for q) (rg_history r))"
proof -
  note s = pulls_sorted [OF assms(1,2) refl, unfolded assms(3)]
  then have "min_idx (pending_for p) ne_sequence (rg_history r') = None" by (simp add: min_idx_None filter_empty_conv)
  with s assms(1) show ?thesis by (simp add: service_registry_notify_pull_def)
qed

definition two_events_registry :: registry where
  "two_events_registry =
     (let r1 = snd (snd (service_registry_notify_record ''net'' 7 0 5 1 (blank_registry\<lparr>rg_event_journal_allowed := False\<rparr>)));
          r2 = snd (snd (service_registry_notify_record ''vfs'' 7 5 6 2 r1))
      in r2\<lparr>rg_history := rev (rg_history r2)\<rparr>)"

theorem pull_in_order_witness:
  "map ne_sequence (filter (pending_for 7) (rg_history two_events_registry)) = [2, 1] \<and>
   map ne_sequence (fst (pulls 2 7 two_events_registry)) = [1, 2]"
proof -
  have e: "map ne_sequence (filter (pending_for 7) (rg_history two_events_registry)) = [2, 1]" by code_simp
  then have "length (filter (pending_for 7) (rg_history two_events_registry)) = 2" by (metis length_map length_Cons list.size(3) One_nat_def Suc_1)
  moreover have "map ne_sequence (sort_key ne_sequence (filter (pending_for 7) (rg_history two_events_registry))) = [1, 2]" by code_simp
  ultimately show ?thesis
    using pull_in_order [of 7 two_events_registry "fst (pulls 2 7 two_events_registry)" "snd (pulls 2 7 two_events_registry)"] e by simp
qed

subsection \<open>Events over a reboot\<close>

definition event_good :: "notify_event \<Rightarrow> bool" where
  "event_good h \<longleftrightarrow> service_registry_name_valid (ne_name h) \<and> 1 \<le> ne_reason h \<and> ne_reason h \<le> 4 \<and>
     int32 (ne_old_pid h) \<and> int32 (ne_new_pid h)"

definition history_ok :: "registry \<Rightarrow> bool" where
  "history_ok r \<longleftrightarrow> length (rg_history r) = 8 \<and> (\<forall>h\<in>set (rg_history r). unacked h \<longrightarrow> event_good h)"

lemma record_history_ok:
  assumes "history_ok r" and "1 \<le> reason" "reason \<le> 4" and "int32 old" "int32 new"
  shows "history_ok (snd (snd (service_registry_notify_record n w old new reason r)))"
proof (cases "service_registry_name_valid n \<and> 0 < w")
  case True
  then have "service_registry_name_valid (copy_name n)" by (simp add: name_valid_iff cstr_copy_name)
  with True assms show ?thesis
    by (auto simp: service_registry_notify_record_def Let_def history_ok_def event_good_def dest!: set_update_subset_insert [THEN subsetD])
next
  case False
  with assms(1) show ?thesis by (auto simp: service_registry_notify_record_def)
qed

definition read_event :: "notify_event \<Rightarrow> notify_event" where
  "read_event h = \<lparr>ne_sequence = ne_sequence h, ne_watcher_pid = 0, ne_name = copy_name (ne_name h), ne_old_pid = ne_old_pid h,
     ne_new_pid = ne_new_pid h, ne_reason = ne_reason h, ne_acked = False, ne_replayed = False\<rparr>"

lemma length_event_entry [simp]: "length (event_journal_entry h) = 32"
  by (simp add: event_journal_entry_def copy_name_def)

lemma length_event_entries [simp]: "length (concat (map event_journal_entry hs)) = length hs * 32"
  by (induction hs) simp_all

lemma event_fields:
  assumes "event_good h"
  shows "dec32 (event_journal_entry h @ c) = ne_sequence h"
    "(map chr (take 16 (drop 4 (event_journal_entry h @ c))))[15 := NUL] = copy_name (ne_name h)"
    "dec_i32 (drop 20 (event_journal_entry h @ c)) = ne_old_pid h" "dec_i32 (drop 24 (event_journal_entry h @ c)) = ne_new_pid h"
    "dec32 (drop 28 (event_journal_entry h @ c)) = ne_reason h"
  using assms copy_upto_last [of "ne_name h" 16]
  by (simp_all add: event_good_def name_valid_iff event_journal_entry_def copy_name_def comp_def)

lemma copy_name_twice: "service_registry_name_valid n \<Longrightarrow> copy_name (copy_name n) = copy_name n"
  using cstr_copy_name [of n] by (simp add: copy_name_def copy_upto_eq)

lemma import_event_entries:
  assumes "k + length hs \<le> length (rg_history r)" and "\<forall>h\<in>set hs. unacked h \<and> event_good h"
  shows "import_events k (length hs) (concat (map event_journal_entry hs) @ c) r =
    (0, r\<lparr>rg_history := take k (rg_history r) @ map read_event hs @ drop (k + length hs) (rg_history r)\<rparr>)"
  using assms
proof (induction hs arbitrary: k r)
  case (Cons h hs)
  let ?c = "concat (map event_journal_entry hs) @ c"
  let ?r = "upd_event k (\<lambda>_. read_event h) r"
  have h: "event_good h" "unacked h" using Cons.prems(2) by simp_all
  have v: "service_registry_name_valid (copy_name (ne_name h))" "copy_name (copy_name (ne_name h)) = copy_name (ne_name h)"
    using h(1) copy_name_twice by (simp_all add: event_good_def name_valid_iff cstr_copy_name)
  have g: "ne_sequence h \<noteq> 0" "\<not> ne_reason h < 1" "\<not> ne_reason h > 4" using h by (auto simp: unacked_def event_good_def)
  have "import_events k (length (h # hs)) (concat (map event_journal_entry (h # hs)) @ c) r = import_events (Suc k) (length hs) ?c ?r"
    using event_fields [OF h(1), of ?c] v g by (simp add: Let_def read_event_def)
  also have "\<dots> = (0, ?r\<lparr>rg_history := take (Suc k) (rg_history ?r) @ map read_event hs @ drop (Suc k + length hs) (rg_history ?r)\<rparr>)"
    using Cons.prems by (intro Cons.IH) auto
  also have "\<dots> = (0, r\<lparr>rg_history := take k (rg_history r) @ map read_event (h # hs) @ drop (k + length (h # hs)) (rg_history r)\<rparr>)"
    using Cons.prems(1) by (simp add: upd_event_def take_Suc_conv_app_nth)
  finally show ?case .
qed simp

lemma event_image_read:
  assumes "history_ok r" and "length (rg_history r2) = 8"
    and "service_registry_event_journal_export (Some (replicate 512 0)) r = (v, Some b)"
  defines "hs \<equiv> filter unacked (rg_history r)"
  shows "v = 0" "service_registry_event_journal_import (Some b) r2 =
    (0, r2\<lparr>rg_history := map read_event hs @ drop (length hs) (map blank_event (rg_history r2)),
       rg_notify_seq := if rg_notify_seq r > rg_notify_seq r2 then rg_notify_seq r else rg_notify_seq r2\<rparr>)"
proof -
  let ?body = "concat (map event_journal_entry hs)"
  have n: "length hs \<le> 8" using assms(1) length_filter_le [of unacked "rg_history r"] by (simp add: hs_def history_ok_def)
  have good: "\<forall>h\<in>set hs. unacked h \<and> event_good h" using assms(1) by (simp add: hs_def history_ok_def)
  have fit: "\<not> 512 < 20 + length hs * 32" using n by simp
  have b: "v = 0" "b = enc32 EVENT_JOURNAL_MAGIC @ enc32 EVENT_JOURNAL_VERSION @ enc32 (word_of_nat (length hs)) @
      enc32 (rg_notify_seq r) @ enc32 (mount_journal_checksum ?body) @ ?body @ replicate (492 - length hs * 32) 0"
    using assms(3) fit unfolding service_registry_event_journal_export_def Let_def hs_def by simp_all
  show "v = 0" by (rule b(1))
  let ?r = "r2\<lparr>rg_history := map blank_event (rg_history r2),
      rg_notify_seq := if rg_notify_seq r > rg_notify_seq r2 then rg_notify_seq r else rg_notify_seq r2\<rparr>"
  have len: "length b = 512" using n by (simp add: b(2))
  have h: "dec32 b = EVENT_JOURNAL_MAGIC" "dec32 (drop 4 b) = EVENT_JOURNAL_VERSION" "unat (dec32 (drop 8 b)) = length hs"
    "dec32 (drop 12 b) = rg_notify_seq r" "dec32 (drop 16 b) = mount_journal_checksum ?body"
    "drop 20 b = ?body @ replicate (492 - length hs * 32) 0" using n by (simp_all add: b(2) unat_small)
  have c: "\<not> dec32 (drop 8 b) > 8" using h(3) n by (simp add: word_less_nat_alt)
  have "import_events 0 (length hs) (drop 20 b) ?r = (0, ?r\<lparr>rg_history := take 0 (rg_history ?r) @ map read_event hs @ drop (0 + length hs) (rg_history ?r)\<rparr>)"
    unfolding h(6) using good n assms(2) by (intro import_event_entries) simp_all
  then show "service_registry_event_journal_import (Some b) r2 =
    (0, r2\<lparr>rg_history := map read_event hs @ drop (length hs) (map blank_event (rg_history r2)),
       rg_notify_seq := if rg_notify_seq r > rg_notify_seq r2 then rg_notify_seq r else rg_notify_seq r2\<rparr>)"
    using len h c fit by (simp add: service_registry_event_journal_import_def Let_def)
qed

lemma subscribe_binds:
  assumes "service_registry_subscribe tv n p r = (0, r')"
  shows "service_registry_name_valid n" "0 < p" "rg_history r' = rg_history (event_journal_bind n p r)"
  using assms by (auto simp: service_registry_subscribe_def Let_def upd_watch_def event_journal_bind_def split: if_splits option.splits prod.splits)

definition event_info :: "notify_event \<Rightarrow> u32 \<times> cstring \<times> pid \<times> pid \<times> u32" where
  "event_info h = (ne_sequence h, cstr (ne_name h), ne_old_pid h, ne_new_pid h, ne_reason h)"

text \<open>
  C24. Events survive a reboot. When the event journal of one boot is read at the next one and a task
  then subscribes to a name, the events of that name which nobody had acknowledged before the
  reboot are pending for that task, with their sequence numbers and contents, and no others
  are; sequence numbers given out later do not fall behind.
\<close>

theorem events_survive_reboot:
  assumes "history_ok r" and "length (rg_history r2) = 8"
    and "service_registry_event_journal_export (Some (replicate 512 0)) r = (v, Some b)"
    and "service_registry_event_journal_import (Some b) r2 = (w, r3)"
    and "service_registry_subscribe tv n p r3 = (0, r4)"
  shows "v = 0 \<and> w = 0 \<and> rg_notify_seq r \<le> rg_notify_seq r3 \<and>
    map event_info (filter (pending_for p) (rg_history r4)) =
      map event_info (filter (\<lambda>h. unacked h \<and> cstr (ne_name h) = cstr n) (rg_history r))"
proof -
  let ?hs = "filter unacked (rg_history r)"
  note im = event_image_read [OF assms(1-3)]
  note sb = subscribe_binds [OF assms(5)]
  have e: "w = 0" "r3 = r2\<lparr>rg_history := map read_event ?hs @ drop (length ?hs) (map blank_event (rg_history r2)),
       rg_notify_seq := if rg_notify_seq r > rg_notify_seq r2 then rg_notify_seq r else rg_notify_seq r2\<rparr>"
    using im(2) assms(4) by simp_all
  have r3: "w = 0" "rg_history r3 = map read_event ?hs @ drop (length ?hs) (map blank_event (rg_history r2))"
    "rg_notify_seq r \<le> rg_notify_seq r3"
    by (simp_all add: e not_less)
  have good: "unacked h \<and> event_good h" if "h \<in> set ?hs" for h using assms(1) that by (simp add: history_ok_def)
  define bind where "bind h = (if ne_watcher_pid h = 0 \<and> ne_sequence h > 0 \<and> \<not> ne_acked h \<and> name_equal (ne_name h) n
    then h\<lparr>ne_watcher_pid := p\<rparr> else h)" for h :: notify_event
  have "rg_history r4 = map bind (rg_history r3)" using sb(3) by (simp add: event_journal_bind_def bind_def [abs_def])
  note h4 = this
  have rest: "filter (pending_for p) (map bind (drop (length ?hs) (map blank_event (rg_history r2)))) = []"
    by (auto simp: filter_empty_conv bind_def pending_for_def blank_event_def dest!: in_set_dropD)
  have "map event_info (filter (pending_for p) (map bind (map read_event hs))) =
      map event_info (filter (\<lambda>h. cstr (ne_name h) = cstr n) hs)" if "\<forall>h\<in>set hs. unacked h \<and> event_good h" for hs
    using that
  proof (induction hs)
    case (Cons h hs)
    have "cstr (copy_name (ne_name h)) = cstr (ne_name h)" "length (cstr (ne_name h)) < 16"
      using Cons.prems by (simp_all add: event_good_def cstr_copy_name name_valid_iff)
    moreover have "ne_sequence h > 0" using Cons.prems by (simp add: unacked_def)
    ultimately have "pending_for p (bind (read_event h)) \<longleftrightarrow> cstr (ne_name h) = cstr n" "event_info (bind (read_event h)) = event_info h"
      using sb(2) by (simp_all add: bind_def read_event_def pending_for_def event_info_def name_equal_iff)
    with Cons show ?case by simp
  qed simp
  from this [of ?hs] have "map event_info (filter (pending_for p) (map bind (map read_event ?hs))) =
      map event_info (filter (\<lambda>h. cstr (ne_name h) = cstr n) ?hs)" using good by blast
  then have "map event_info (filter (pending_for p) (rg_history r4)) = map event_info (filter (\<lambda>h. cstr (ne_name h) = cstr n) ?hs)"
    unfolding h4 r3(2) map_append filter_append rest by simp
  with r3(1,3) im(1) show ?thesis by simp
qed

definition reboot_image :: "u8 list" where
  "reboot_image = the (snd (service_registry_event_journal_export (Some (replicate 512 0)) two_events_registry))"

lemma two_events_ok: "history_ok two_events_registry"
  by code_simp

lemma event_export:
  assumes "length (rg_history r) = 8"
  shows "service_registry_event_journal_export (Some (replicate 512 0)) r = (0, Some (the (snd (service_registry_event_journal_export (Some (replicate 512 0)) r))))"
proof -
  have "length (filter unacked (rg_history r)) \<le> 8" using assms length_filter_le [of unacked "rg_history r"] by simp
  then have "\<not> 512 < 20 + length (filter unacked (rg_history r)) * 32" by simp
  then show ?thesis by (simp add: service_registry_event_journal_export_def Let_def)
qed

lemma reboot_image_export: "service_registry_event_journal_export (Some (replicate 512 0)) two_events_registry = (0, Some reboot_image)"
  using event_export two_events_ok by (simp add: reboot_image_def history_ok_def)

definition carried_registry :: registry where
  "carried_registry = snd (service_registry_event_journal_import (Some reboot_image) blank_registry)"

lemma carried_eq:
  "carried_registry = blank_registry\<lparr>rg_history := map read_event (filter unacked (rg_history two_events_registry)) @
     drop (length (filter unacked (rg_history two_events_registry))) (map blank_event (rg_history blank_registry)),
     rg_notify_seq := if rg_notify_seq two_events_registry > rg_notify_seq blank_registry
       then rg_notify_seq two_events_registry else rg_notify_seq blank_registry\<rparr>"
proof -
  have "length (rg_history blank_registry) = 8" by code_simp
  from event_image_read(2) [OF two_events_ok this reboot_image_export] show ?thesis unfolding carried_registry_def by (simp only: snd_conv)
qed

theorem events_survive_reboot_witness:
  "map event_info (filter (pending_for 9) (rg_history (snd (service_registry_subscribe demo_view ''vfs'' 9 carried_registry)))) = [(2, ''vfs'', 5, 6, 2)]"
proof -
  let ?r3 = carried_registry
  have im: "service_registry_event_journal_import (Some reboot_image) blank_registry =
      (fst (service_registry_event_journal_import (Some reboot_image) blank_registry), ?r3)" by (simp add: carried_registry_def)
  have "fst (service_registry_subscribe demo_view ''vfs'' 9 ?r3) = 0" unfolding carried_eq by code_simp
  moreover have "map event_info (filter (\<lambda>h. unacked h \<and> cstr (ne_name h) = cstr ''vfs'') (rg_history two_events_registry)) = [(2, ''vfs'', 5, 6, 2)]"
    by code_simp
  moreover have "length (rg_history blank_registry) = 8" by code_simp
  ultimately show ?thesis
    using events_survive_reboot [OF two_events_ok _ reboot_image_export im, of demo_view "''vfs''" 9
        "snd (service_registry_subscribe demo_view ''vfs'' 9 ?r3)"] by (simp add: prod_eq_iff)
qed

text \<open>
  C39. A new event may erase one carried over. Events read from the journal have no watcher until
  somebody subscribes to their name; if the first slot without a watcher holds such an event, the
  next event recorded, for whatever name, takes its slot, and the carried over event is gone
  though empty slots remain.
\<close>

theorem record_erases_unbound_event:
  assumes "service_registry_name_valid n" and "0 < w"
    and "first_idx (\<lambda>h. ne_watcher_pid h = 0) (rg_history r) = Some i" and "unacked (rg_history r ! i)"
    and "\<forall>j<length (rg_history r). j \<noteq> i \<longrightarrow> ne_sequence (rg_history r ! j) \<noteq> ne_sequence (rg_history r ! i)"
    and "ne_sequence (rg_history r ! i) \<noteq> next_nonzero (rg_notify_seq r)"
    and "service_registry_notify_record n w old new reason r = (v, sq, r')"
  shows "v = 0 \<and> rg_history r ! i \<in> set (rg_history r) \<and> (\<forall>h\<in>set (rg_history r'). ne_sequence h \<noteq> ne_sequence (rg_history r ! i))"
proof -
  note i = first_idx_SomeD [OF assms(3)]
  have "rg_history r' = (rg_history r)[i := \<lparr>ne_sequence = next_nonzero (rg_notify_seq r), ne_watcher_pid = w, ne_name = copy_name n,
      ne_old_pid = old, ne_new_pid = new, ne_reason = reason, ne_acked = False, ne_replayed = False\<rparr>]" "v = 0"
    using assms(1-3,7) by (auto simp: service_registry_notify_record_def Let_def)
  note h = this
  have "ne_sequence (rg_history r' ! j) \<noteq> ne_sequence (rg_history r ! i)" if "j < length (rg_history r)" for j
    using assms(5,6) that i(1) by (cases "j = i") (simp_all add: h(1))
  with h i(1) show ?thesis by (auto simp: in_set_conv_nth)
qed

theorem record_erases_unbound_event_witness:
  "map ne_sequence (rg_history carried_registry) = [2, 1, 0, 0, 0, 0, 0, 0] \<and>
   2 \<notin> ne_sequence ` set (rg_history (snd (snd (service_registry_notify_record ''net'' 4 0 4 1 carried_registry))))"
proof -
  let ?c = "service_registry_notify_record ''net'' 4 0 4 1 carried_registry"
  have s: "map ne_sequence (rg_history carried_registry) = [2, 1, 0, 0, 0, 0, 0, 0]"
    "service_registry_name_valid ''net''" "first_idx (\<lambda>h. ne_watcher_pid h = 0) (rg_history carried_registry) = Some 0"
    "unacked (rg_history carried_registry ! 0)" "rg_notify_seq carried_registry = 2"
    unfolding carried_eq by code_simp+
  have "length (rg_history carried_registry) = 8" using arg_cong [OF s(1), of length] by simp
  moreover have "\<forall>j<8. j \<noteq> 0 \<longrightarrow> ne_sequence (rg_history carried_registry ! j) \<noteq> ne_sequence (rg_history carried_registry ! 0)"
    unfolding carried_eq by code_simp
  moreover have "ne_sequence (rg_history carried_registry ! 0) = 2" unfolding carried_eq by code_simp
  moreover have "(2 :: u32) \<noteq> next_nonzero 2" by simp
  ultimately have "\<forall>h\<in>set (rg_history (snd (snd ?c))). ne_sequence h \<noteq> 2"
    using record_erases_unbound_event [OF s(2) _ s(3,4), of 4 0 4 1 "fst ?c" "fst (snd ?c)" "snd (snd ?c)"] s(5) by simp
  with s(1) show ?thesis by auto
qed

end
