(* ===== verification/Task_End.thy ===== *)
theory Task_End
  imports Kernel_Run Backend_Caps Event_Journal
begin

text \<open>
  The end of a task as the system calls of \<open>kernel/syscall/syscall.c\<close> carry it out, across the
  components: the watchers of its services are told, its names, capabilities and watches are
  withdrawn, a lost disk driver is replaced and its store parked, and a lost network driver gives
  the card back. \<open>system\<close> is the \<open>machine\<close> of \<open>Dispatch\<close> with the static variables of the driver
  supervisor and a log of the effects on the hardware and on the file systems. What the hardware
  answers is the record \<open>hardware\<close>.
\<close>

subsection \<open>State\<close>

datatype effect =
    Channel_Reset | Fat_Caches_Dropped | Overlay_Restored "u8 list" | Overlay_Saved
  | Wire_Dropped | Nic_Reset

record hardware =
  ata_present :: bool
  ata_channel_busy :: bool
  overlay_restore :: "u8 list \<Rightarrow> rc"
  overlay_save_disk :: rc
  boot_ne2k_present :: bool
  boot_ne2k_deferred :: bool

record system =
  s_m :: machine
  s_boot_driver_pid :: pid
  s_respawn_pid :: pid
  s_respawn_count :: u32
  s_purge_pid :: pid
  s_effects :: "effect list"

definition on_m :: "(machine \<Rightarrow> machine) \<Rightarrow> system \<Rightarrow> system" where
  "on_m f s = s\<lparr>s_m := f (s_m s)\<rparr>"

definition effect :: "effect \<Rightarrow> system \<Rightarrow> system" where
  "effect e s = s\<lparr>s_effects := s_effects s @ [e]\<rparr>"

lemma on_m_simps [simp]:
  "s_m (on_m f s) = f (s_m s)" "s_boot_driver_pid (on_m f s) = s_boot_driver_pid s" "s_respawn_pid (on_m f s) = s_respawn_pid s"
  "s_respawn_count (on_m f s) = s_respawn_count s" "s_purge_pid (on_m f s) = s_purge_pid s" "s_effects (on_m f s) = s_effects s"
  "s_m (effect e s) = s_m s" "s_respawn_count (effect e s) = s_respawn_count s" "s_respawn_pid (effect e s) = s_respawn_pid s"
  by (simp_all add: on_m_def effect_def)

abbreviation (input) OS_ATA_FS_STORE_OVERLAY :: u32 where "OS_ATA_FS_STORE_OVERLAY \<equiv> 4"
abbreviation (input) ATA_RESPAWN_LIMIT :: u32 where "ATA_RESPAWN_LIMIT \<equiv> 4"

definition kernel_fat_pio_fallback_enabled :: bool where
  "kernel_fat_pio_fallback_enabled = False"

subsection \<open>Telling the watchers\<close>

text \<open>One turn of the loop of \<open>service_notify_change\<close>.\<close>

definition notify_watcher ::
    "cstring \<Rightarrow> pid \<Rightarrow> pid \<Rightarrow> u32 \<Rightarrow> os_ipc_payload \<Rightarrow> pid \<Rightarrow> machine \<Rightarrow> machine" where
  "notify_watcher name old_owner new_owner reason payload w m =
     (case get_task_by_id (m_k m) w of
        None \<Rightarrow> m
      | Some i \<Rightarrow>
          if t_type (tsk (m_k m) i) \<noteq> TASK_TYPE_USER \<or> t_state (tsk (m_k m) i) = TASK_TERMINATED then m
          else (case service_registry_notify_record name w old_owner new_owner reason (m_reg m) of
             (_, _, r) \<Rightarrow> (case deliver_supervision i payload (m_k m) of
                (v, k) \<Rightarrow> m\<lparr>m_reg := r, m_k := if v = 0 then task_ipc_message_queued (Some i) k else k\<rparr>)))"

definition service_notify_change :: "cstring \<Rightarrow> pid \<Rightarrow> pid \<Rightarrow> u32 \<Rightarrow> machine \<Rightarrow> machine" where
  "service_notify_change name old_owner new_owner reason m =
     (case os_service_make_event (Some name) old_owner new_owner reason of
        None \<Rightarrow> m
      | Some payload \<Rightarrow>
          (case service_registry_collect_watchers (task_view_of (m_k m)) name SERVICE_REGISTRY_WATCH_CAPACITY (m_reg m) of
             (n, watchers) \<Rightarrow>
               if n < 0 then m
               else fold (notify_watcher name old_owner new_owner reason payload) (take (nat n) watchers) m))"

definition sys_service_lookup :: "cstring \<Rightarrow> machine \<Rightarrow> rc \<times> machine" where
  "sys_service_lookup name m =
     (case service_lookup name m of
        (owner, m1) \<Rightarrow>
          if owner < 0 then (owner, m1)
          else if (case get_task_by_id (m_k m1) owner of
              None \<Rightarrow> True
            | Some i \<Rightarrow> t_type (tsk (m_k m1) i) \<noteq> TASK_TYPE_USER \<or> t_state (tsk (m_k m1) i) = TASK_TERMINATED)
          then (OS_SERVICE_NOT_FOUND,
            service_notify_change name owner 0 OS_SERVICE_EVENT_PURGED
              (m1\<lparr>m_reg := snd (service_registry_remove (task_view_of (m_k m1)) name owner (m_reg m1))\<rparr>))
          else (owner, m1))"

subsection \<open>A lost disk driver\<close>

definition ata_purge_is_driver :: "pid \<Rightarrow> reg_entry list \<Rightarrow> system \<Rightarrow> bool" where
  "ata_purge_is_driver p owned s \<longleftrightarrow>
     (p > 0 \<and> (p = s_boot_driver_pid s \<or> p = s_respawn_pid s \<or> p = fo_store_pid (m_fsop (s_m s)))) \<or>
     list_ex (\<lambda>e. cstr (re_name e) = ''ata-driver'') owned"

text \<open>A driver that the supervisor has started and that is neither gone nor the one being purged.\<close>

definition respawn_alive :: "system \<Rightarrow> bool" where
  "respawn_alive s \<longleftrightarrow> s_respawn_pid s > 0 \<and>
     (case get_task_by_id (m_k (s_m s)) (s_respawn_pid s) of
        None \<Rightarrow> False
      | Some i \<Rightarrow> t_type (tsk (m_k (s_m s)) i) = TASK_TYPE_USER \<and> t_state (tsk (m_k (s_m s)) i) \<noteq> TASK_TERMINATED \<and>
          t_id (tsk (m_k (s_m s)) i) \<noteq> s_purge_pid s)"

definition ata_supervisor_respawn ::
    "(cstring option \<Rightarrow> 'f option) \<Rightarrow> ('f \<Rightarrow> u32) \<Rightarrow> u32 \<Rightarrow> hardware \<Rightarrow> system \<Rightarrow> rc \<times> system" where
  "ata_supervisor_respawn initrd elf stack hw s =
     (if kernel_fat_pio_fallback_enabled \<or> \<not> ata_present hw then (- 1, s)
      else (case ata_live_driver (s_m s) of
         (p, m1) \<Rightarrow>
           let s1 = s\<lparr>s_m := m1\<rparr>
           in if p > 0 \<or> respawn_alive s1 then (0, s1)
              else if s_respawn_count s1 \<ge> ATA_RESPAWN_LIMIT then (- 1, s1)
              else (case create_task_from_initrd_file initrd elf stack (Some ''bin/atadriver'') (m_k m1) of
                 (None, k) \<Rightarrow> (- 1, s1\<lparr>s_m := m1\<lparr>m_k := k\<rparr>\<rparr>)
               | (Some i, k) \<Rightarrow>
                   (0, s1\<lparr>s_m := m1\<lparr>m_k := task_queue_move_first_user (Some i) (upd_task i (\<lambda>t. t\<lparr>t_boot_service := True\<rparr>) k),
                              m_ata := ata_job_note_respawn (m_ata m1)\<rparr>,
                          s_respawn_pid := t_id (tsk k i), s_respawn_count := s_respawn_count s1 + 1\<rparr>))))"

text \<open>The store comes back from the driver: its mirror is restored when it covered the overlay.\<close>

definition park_store :: "system \<Rightarrow> system" where
  "park_store s =
     (let f = m_fsop (s_m s); image = ata_fsop_mirror f; flags = ata_fsop_store_flags (fo_store_pid f) f;
          s1 = effect Fat_Caches_Dropped (on_m (\<lambda>m. m\<lparr>m_fsop := ata_fsop_store_drop f\<rparr>) s)
      in if flags AND OS_ATA_FS_STORE_OVERLAY \<noteq> 0
         then (case image of None \<Rightarrow> s1 | Some bytes \<Rightarrow> effect (Overlay_Restored bytes) s1) else s1)"

text \<open>The branch of the images with the Ring 0 fallback, for the store and then for the queued flush.\<close>

definition reclaim_store :: "hardware \<Rightarrow> system \<Rightarrow> bool \<times> system" where
  "reclaim_store hw s =
     (let f = m_fsop (s_m s); image = ata_fsop_mirror f; flags = ata_fsop_store_flags (fo_store_pid f) f;
          s1 = effect Fat_Caches_Dropped (on_m (\<lambda>m. m\<lparr>m_fsop := ata_fsop_store_drop f\<rparr>) s)
      in if flags AND OS_ATA_FS_STORE_OVERLAY \<noteq> 0
         then (True, case image of
             None \<Rightarrow> s1
           | Some bytes \<Rightarrow>
               let s2 = effect (Overlay_Restored bytes) s1
               in if overlay_restore hw bytes = 0 then on_m (\<lambda>m. m\<lparr>m_fsop := ata_fsop_note_restore (m_fsop m)\<rparr>) s2 else s2)
         else (False, s1))"

definition reset_channel :: "hardware \<Rightarrow> system \<Rightarrow> system" where
  "reset_channel hw s =
     (if ata_job_controller_in_use (m_ata (s_m s)) \<or> ata_channel_busy hw
      then on_m (\<lambda>m. m\<lparr>m_ata := ata_job_note_channel_reset (m_ata m)\<rparr>) (effect Channel_Reset s) else s)"

definition ata_bridge_after_purge ::
    "(cstring option \<Rightarrow> 'f option) \<Rightarrow> ('f \<Rightarrow> u32) \<Rightarrow> u32 \<Rightarrow> hardware \<Rightarrow> bool \<Rightarrow> system \<Rightarrow> system" where
  "ata_bridge_after_purge initrd elf stack hw driver_died s =
     (if \<not> driver_died then s
      else (case ata_live_driver (s_m s) of
         (p, m1) \<Rightarrow>
           if p > 0 then s\<lparr>s_m := m1\<rparr>
           else
             let s1 = reset_channel hw (s\<lparr>s_m := ata_rpc_abort m1\<rparr>); held = fo_store_pid (m_fsop (s_m s1)) > 0
             in if \<not> kernel_fat_pio_fallback_enabled
                then snd (ata_supervisor_respawn initrd elf stack hw (if held then park_store s1 else s1))
                else (case (if held then reclaim_store hw s1 else (False, s1)) of
                   (restored, s2) \<Rightarrow> (case ata_job_driver_gone (m_ata (s_m s2)) of
                     (gone, a) \<Rightarrow>
                       let s3 = on_m (\<lambda>m. m\<lparr>m_ata := a\<rparr>) s2
                       in if restored \<or> gone
                          then (let s4 = effect Overlay_Saved s3
                                in if overlay_save_disk hw = 0
                                   then on_m (\<lambda>m. m\<lparr>m_ata := ata_job_note_fallback_flush (m_ata m)\<rparr>) s4 else s4)
                          else s3))))"

subsection \<open>A lost network driver\<close>

definition kernel_net_nic_reclaim :: "hardware \<Rightarrow> system \<Rightarrow> system" where
  "kernel_net_nic_reclaim hw s =
     (let s1 = effect Wire_Dropped s
      in if \<not> boot_ne2k_present hw then s1
         else
           let s2 = on_m (\<lambda>m. m\<lparr>m_nic := nic_owner_note_reclaim (m_nic m)\<rparr>) s1
           in if boot_ne2k_deferred hw then s2 else effect Nic_Reset s2)"

subsection \<open>The end\<close>

definition purge_names :: "pid \<Rightarrow> reg_entry list \<Rightarrow> machine \<Rightarrow> machine" where
  "purge_names p owned m =
     (if owned = [] then m
      else
        let m1 = fold (\<lambda>e. service_notify_change (re_name e) p 0 OS_SERVICE_EVENT_PURGED) owned m
        in (case service_registry_remove_pid p (m_reg m1, k_spill (m_k m1)) of
              (_, r, sp) \<Rightarrow> m1\<lparr>m_reg := r, m_k := (m_k m1)\<lparr>k_spill := sp\<rparr>\<rparr>))"

definition release_card :: "hardware \<Rightarrow> system \<Rightarrow> system" where
  "release_card hw s =
     (case sys_service_lookup ''net-driver'' (s_m s) of
        (live, m) \<Rightarrow> (case nic_owner_drop_if_gone live (m_nic m) of
           (gone, n) \<Rightarrow>
             let s1 = s\<lparr>s_m := m\<lparr>m_nic := n\<rparr>\<rparr>
             in if gone \<noteq> 0 then kernel_net_nic_reclaim hw (on_m (\<lambda>m. m\<lparr>m_tss := tss_set_nic_io False (m_tss m)\<rparr>) s1) else s1))"

text \<open>The array of the collected entries is not read past their number.\<close>

definition service_notify_purge_pid ::
    "(cstring option \<Rightarrow> 'f option) \<Rightarrow> ('f \<Rightarrow> u32) \<Rightarrow> u32 \<Rightarrow> hardware \<Rightarrow> pid \<Rightarrow> system \<Rightarrow> system" where
  "service_notify_purge_pid initrd elf stack hw p s =
     (case service_registry_collect_owned (task_view_of (m_k (s_m s))) p (Some []) SERVICE_REGISTRY_CAPACITY (m_reg (s_m s)) of
        (n, out) \<Rightarrow>
          let owned = take (nat n) (case out of None \<Rightarrow> [] | Some a \<Rightarrow> a); s1 = s\<lparr>s_purge_pid := p\<rparr>; driver_died = ata_purge_is_driver p owned s1
          in release_card hw (ata_bridge_after_purge initrd elf stack hw driver_died (on_m (purge_names p owned) s1)))"

text \<open>What \<open>SYS_EXIT\<close>, \<open>sys_kill\<close> and a fault in Ring 3 withdraw from a task.\<close>

definition withdraw ::
    "(cstring option \<Rightarrow> 'f option) \<Rightarrow> ('f \<Rightarrow> u32) \<Rightarrow> u32 \<Rightarrow> hardware \<Rightarrow> pid \<Rightarrow> system \<Rightarrow> system" where
  "withdraw initrd elf stack hw p s =
     (let m = s_m (service_notify_purge_pid initrd elf stack hw p s);
          r = service_registry_backend_remove_pid p (m_reg m)
      in (case service_registry_remove_watcher_pid p (r, k_spill (m_k m)) of
            (_, r', sp) \<Rightarrow>
              (service_notify_purge_pid initrd elf stack hw p s)\<lparr>s_m := m\<lparr>m_reg := r', m_k := (m_k m)\<lparr>k_spill := sp\<rparr>\<rparr>\<rparr>))"

definition sys_kill ::
    "(cstring option \<Rightarrow> 'f option) \<Rightarrow> ('f \<Rightarrow> u32) \<Rightarrow> u32 \<Rightarrow> hardware \<Rightarrow> pid \<Rightarrow> system \<Rightarrow> rc \<times> system" where
  "sys_kill initrd elf stack hw p s =
     (case k_current (m_k (s_m s)) of
        None \<Rightarrow> (OS_TASK_CONTROL_DENIED, s)
      | Some c \<Rightarrow>
          let s1 = withdraw initrd elf stack hw p s
          in (case task_kill (t_id (tsk (m_k (s_m s1)) c)) p (m_k (s_m s1)) of
                (v, k) \<Rightarrow> (v, on_m (\<lambda>m. m\<lparr>m_k := k\<rparr>) s1)))"

text \<open>
  \<open>SYS_EXIT\<close> with its code, and \<open>syscall_kill_current_on_user_fault\<close>, up to the call of \<open>schedule\<close>.
\<close>

definition end_current ::
    "(cstring option \<Rightarrow> 'f option) \<Rightarrow> ('f \<Rightarrow> u32) \<Rightarrow> u32 \<Rightarrow> hardware \<Rightarrow> int \<Rightarrow> u32 \<Rightarrow> system \<Rightarrow> system" where
  "end_current initrd elf stack hw code reason s =
     (case k_current (m_k (s_m s)) of
        None \<Rightarrow> s
      | Some c \<Rightarrow> on_m (upd_k (end_task code reason c)) (withdraw initrd elf stack hw (t_id (tsk (m_k (s_m s)) c)) s))"

definition sys_exit ::
    "(cstring option \<Rightarrow> 'f option) \<Rightarrow> ('f \<Rightarrow> u32) \<Rightarrow> u32 \<Rightarrow> hardware \<Rightarrow> int \<Rightarrow> system \<Rightarrow> system" where
  "sys_exit initrd elf stack hw code = end_current initrd elf stack hw code OS_TASK_EVENT_EXITED"

definition syscall_kill_current_on_user_fault ::
    "(cstring option \<Rightarrow> 'f option) \<Rightarrow> ('f \<Rightarrow> u32) \<Rightarrow> u32 \<Rightarrow> hardware \<Rightarrow> system \<Rightarrow> system" where
  "syscall_kill_current_on_user_fault initrd elf stack hw =
     end_current initrd elf stack hw OS_TASK_EXIT_KILLED OS_TASK_EVENT_KILLED"

subsection \<open>What the withdrawal keeps of the other tasks\<close>

definition task_sig :: "task \<Rightarrow> pid \<times> u32 \<times> u32 \<times> u32 \<times> task_type \<times> pid \<times> bool" where
  "task_sig t = (t_id t, t_sequence t, t_generation t, t_identity_key t, t_type t, t_parent_pid t, t_boot_service t)"

lemma task_sig_upd [simp]:
  "task_sig (t\<lparr>t_state := a\<rparr>) = task_sig t" "task_sig (t\<lparr>t_ipc_endpoint := b\<rparr>) = task_sig t"
  "task_sig (t\<lparr>t_ipc_wait := c\<rparr>) = task_sig t" "task_sig (t\<lparr>t_next := d\<rparr>) = task_sig t" "task_sig (t\<lparr>t_prev := e\<rparr>) = task_sig t"
  by (simp_all add: task_sig_def)

definition keeps :: "kstate \<Rightarrow> kstate \<Rightarrow> bool" where
  "keeps k k' \<longleftrightarrow> kwf k' \<and> k_queue k' \<noteq> None \<and> k_current k' = k_current k \<and> k_root_shell_pid k' = k_root_shell_pid k \<and>
     (\<forall>p j. get_task_by_id k p = Some j \<longrightarrow> get_task_by_id k' p = Some j \<and> task_sig (tsk k' j) = task_sig (tsk k j) \<and>
        (t_state (tsk k' j) = TASK_TERMINATED \<longrightarrow> t_state (tsk k j) = TASK_TERMINATED))"

lemma keeps_refl: "kwf k \<Longrightarrow> k_queue k \<noteq> None \<Longrightarrow> keeps k k"
  by (simp add: keeps_def)

lemma keeps_trans: "keeps k k' \<Longrightarrow> keeps k' k'' \<Longrightarrow> keeps k k''"
  unfolding keeps_def by (metis (lifting))

lemma keepsD:
  assumes "keeps k k'"
  shows "kwf k'" "k_queue k' \<noteq> None" "k_current k' = k_current k" "k_root_shell_pid k' = k_root_shell_pid k"
    "get_task_by_id k p = Some j \<Longrightarrow> get_task_by_id k' p = Some j"
    "get_task_by_id k p = Some j \<Longrightarrow> task_sig (tsk k' j) = task_sig (tsk k j)"
    "get_task_by_id k p = Some j \<Longrightarrow> t_state (tsk k' j) = TASK_TERMINATED \<Longrightarrow> t_state (tsk k j) = TASK_TERMINATED"
  using assms by (auto simp: keeps_def)

lemma keeps_upd_task:
  assumes "kwf k" "k_queue k \<noteq> None" and "\<And>t. t_next (f t) = t_next t" "\<And>t. t_prev (f t) = t_prev t" "\<And>t. task_sig (f t) = task_sig t"
    and "task_ok (tsk k i) \<Longrightarrow> task_ok (f (tsk k i))"
    and "t_state (f (tsk k i)) = TASK_TERMINATED \<Longrightarrow> t_state (tsk k i) = TASK_TERMINATED"
  shows "keeps k (upd_task i f k)"
proof -
  have id: "\<And>t. t_id (f t) = t_id t" using assms(5) by (simp add: task_sig_def)
  have wf: "kwf (upd_task i f k)" by (rule kwf_upd_task [OF assms(1,3,4) id assms(6)])
  have g: "get_task_by_id (upd_task i f k) = get_task_by_id k" by (rule get_task_by_id_upd_task [OF assms(3) id])
  have t: "tsk (upd_task i f k) j = (if j = i \<and> i < length (k_pool k) then f (tsk k i) else tsk k j)" for j by simp
  show ?thesis unfolding keeps_def g t using wf assms(2,5,7) by auto
qed

lemma keeps_spill:
  assumes "kwf k" "k_queue k \<noteq> None"
  shows "keeps k (k\<lparr>k_spill := s\<rparr>)"
proof -
  have g: "get_task_by_id (k\<lparr>k_spill := s\<rparr>) = get_task_by_id k" by (rule get_task_by_id_cong) auto
  have "kwf (k\<lparr>k_spill := s\<rparr>)"
    by (rule tframe_kwf [OF tframe_spill assms(1)])
  with assms(2) g show ?thesis by (simp add: keeps_def)
qed

lemma keeps_sched_only: "keeps k k' \<Longrightarrow> keeps k (k'\<lparr>k_sched_only := a\<rparr>)"
proof -
  assume "keeps k k'"
  moreover have "get_task_by_id (k'\<lparr>k_sched_only := a\<rparr>) = get_task_by_id k'" by (rule get_task_by_id_cong) auto
  ultimately show ?thesis by (simp add: keeps_def)
qed

lemma keeps_deliver:
  assumes "kwf k" "k_queue k \<noteq> None" and "get_task_by_id k w = Some i" and "deliver_supervision i payload k = (v, k')"
  shows "keeps k (if v = 0 then task_ipc_message_queued (Some i) k' else k')"
proof -
  obtain e x where e: "ipc_endpoint_send (t_ipc_endpoint (tsk k i)) 0 (Some payload) = (x, e)" by fastforce
  let ?k1 = "upd_task i (\<lambda>t. t\<lparr>t_ipc_endpoint := e\<rparr>) k"
  have "ep_inv (t_ipc_endpoint (tsk k i)) \<Longrightarrow> ep_inv e" using ipc_endpoint_send_inv [of _ 0 "Some payload"] e by (metis snd_conv)
  then have k1: "keeps k ?k1"
    using assms(1,2) by (intro keeps_upd_task) (auto simp: task_ok_def exit_log_def event_log_def)
  have k': "keeps ?k1 k'"
    using assms(4) e keeps_spill [OF keepsD(1,2) [OF k1]] keeps_refl [OF keepsD(1,2) [OF k1]]
    by (auto simp: deliver_supervision_def Let_def split: prod.splits if_splits)
  have kk: "keeps k k'" by (rule keeps_trans [OF k1 k'])
  have "keeps k' (task_ipc_message_queued (Some i) k')"
    using keeps_refl [OF keepsD(1,2) [OF kk]]
    by (auto simp: task_ipc_message_queued_def ipc_wait_on_message_def
        task_ok_def wait_inv_def exit_log_def event_log_def intro!: keeps_upd_task keepsD(1,2) [OF kk] split: prod.splits)
  with kk show ?thesis by (auto intro: keeps_trans)
qed

text \<open>Moving a task to the front of the queue.\<close>

lemma move_first_keeps:
  assumes "P k" and "\<And>i n k. P k \<Longrightarrow> P (upd_task i (\<lambda>t. t\<lparr>t_next := n\<rparr>) k)"
    and "\<And>i n k. P k \<Longrightarrow> P (upd_task i (\<lambda>t. t\<lparr>t_prev := n\<rparr>) k)"
    and "\<And>i a b k. P k \<Longrightarrow> P (upd_task i (\<lambda>t. t\<lparr>t_next := a, t_prev := b\<rparr>) k)"
  shows "P (task_queue_move_first_user t k)"
  using assms(1) unfolding task_queue_move_first_user_def Let_def by (auto intro!: assms(2-) split: option.split)

lemma move_first_fields:
  "task_sig (tsk (task_queue_move_first_user t k) j) = task_sig (tsk k j)"
  "t_state (tsk (task_queue_move_first_user t k) j) = t_state (tsk k j)"
  "task_ok (tsk (task_queue_move_first_user t k) j) = task_ok (tsk k j)"
proof -
  show "task_sig (tsk (task_queue_move_first_user t k) j) = task_sig (tsk k j)"
    by (rule move_first_keeps [where P = "\<lambda>k'. task_sig (tsk k' j) = task_sig (tsk k j)"]) auto
  show "t_state (tsk (task_queue_move_first_user t k) j) = t_state (tsk k j)"
    by (rule move_first_keeps [where P = "\<lambda>k'. t_state (tsk k' j) = t_state (tsk k j)"]) auto
  show "task_ok (tsk (task_queue_move_first_user t k) j) = task_ok (tsk k j)"
    by (rule move_first_keeps [where P = "\<lambda>k'. task_ok (tsk k' j) = task_ok (tsk k j)"]) auto
qed

lemma move_first_globals:
  "k_current (task_queue_move_first_user t k) = k_current k" "k_root_shell_pid (task_queue_move_first_user t k) = k_root_shell_pid k"
  "k_used (task_queue_move_first_user t k) = k_used k" "k_slot_generation (task_queue_move_first_user t k) = k_slot_generation k"
  "k_vmm_used (task_queue_move_first_user t k) = k_vmm_used k" "k_next_task_id (task_queue_move_first_user t k) = k_next_task_id k"
  "k_current_directory (task_queue_move_first_user t k) = k_current_directory k" "k_identity_key (task_queue_move_first_user t k) = k_identity_key k"
  "k_outcap (task_queue_move_first_user t k) = k_outcap k" "length (k_pool (task_queue_move_first_user t k)) = length (k_pool k)"
proof -
  have h: "(task_queue_move_first_user t k)\<lparr>k_pool := []\<rparr> = k\<lparr>k_pool := []\<rparr>"
    by (rule move_first_keeps [where P = "\<lambda>k'. k'\<lparr>k_pool := []\<rparr> = k\<lparr>k_pool := []\<rparr>"]) (simp_all add: upd_task_def)
  show "k_current (task_queue_move_first_user t k) = k_current k" using arg_cong [OF h, of k_current] by simp
  show "k_root_shell_pid (task_queue_move_first_user t k) = k_root_shell_pid k" using arg_cong [OF h, of k_root_shell_pid] by simp
  show "k_used (task_queue_move_first_user t k) = k_used k" using arg_cong [OF h, of k_used] by simp
  show "k_slot_generation (task_queue_move_first_user t k) = k_slot_generation k" using arg_cong [OF h, of k_slot_generation] by simp
  show "k_vmm_used (task_queue_move_first_user t k) = k_vmm_used k" using arg_cong [OF h, of k_vmm_used] by simp
  show "k_next_task_id (task_queue_move_first_user t k) = k_next_task_id k" using arg_cong [OF h, of k_next_task_id] by simp
  show "k_current_directory (task_queue_move_first_user t k) = k_current_directory k" using arg_cong [OF h, of k_current_directory] by simp
  show "k_identity_key (task_queue_move_first_user t k) = k_identity_key k" using arg_cong [OF h, of k_identity_key] by simp
  show "k_outcap (task_queue_move_first_user t k) = k_outcap k" using arg_cong [OF h, of k_outcap] by simp
  show "length (k_pool (task_queue_move_first_user t k)) = length (k_pool k)"
    by (rule move_first_keeps [where P = "\<lambda>k'. length (k_pool k') = length (k_pool k)"]) simp_all
qed

lemma keeps_move_first:
  assumes "kwf k" and "k_queue k = Some h" and "queue_slots k = h # r" and "i \<in> set r"
  shows "keeps k (task_queue_move_first_user (Some i) k)"
proof -
  let ?k = "task_queue_move_first_user (Some i) k"
  note s = kwf_sizes [OF assms(1)]
  note gl = kwf_globals [OF assms(1)]
  have d: "distinct (h # r)" using s(7) assms(3) by simp
  have "ring_rep ?k (h # i # remove1 i r)"
    using s(6) assms(3) by (intro ring_rep_move_first_user [OF _ assms(4) s(1)]) simp
  note q = this ring_rep_queue_ok [OF this]
  have set: "set (queue_slots ?k) = set (queue_slots k)" and "distinct (queue_slots ?k)"
    using q d assms(3,4) by (auto simp: ring_rep_def linked_ring_def)
  then have m: "mset (queue_slots ?k) = mset (queue_slots k)" using s(7) set_eq_iff_mset_eq_distinct by blast
  have id: "t_id (tsk ?k j) = t_id (tsk k j)" for j using move_first_fields(1) [of "Some i" k j] by (simp add: task_sig_def)
  have "mset (task_ids ?k) = mset (task_ids k)" by (simp add: task_ids_def id mset_map m)
  then have di: "distinct (task_ids ?k)" using gl(5) mset_eq_imp_distinct_iff by blast
  have qh: "k_queue ?k = Some h" using q(1) by (simp add: ring_rep_def)
  have "dir_ok ?k" using gl(1) by (simp add: dir_ok_cong [of ?k k] move_first_globals)
  then have wf: "kwf ?k"
    using s q di gl kwf_task [OF assms(1)] assms(2) set by (simp add: kwf_def move_first_fields move_first_globals id)
  have "get_task_by_id ?k p = Some j" if "get_task_by_id k p = Some j" for p j
    using that get_task_by_id_iff [OF di, of p j] get_task_by_id_SomeD [OF that] set id by simp
  then show ?thesis using wf qh by (simp add: keeps_def move_first_fields move_first_globals)
qed

lemma create_root_shell:
  assumes "kwf k" and "create_task_from_initrd_file initrd elf stack path k = (Some i, k')"
  shows "k_root_shell_pid k' = k_root_shell_pid k"
proof -
  from create_task_cases [OF assms(2,1)] obtain d f n where
    k': "k' = add_task_to_queue i (with_fresh_task k i d n (elf f) stack)" by auto
  show ?thesis unfolding k' by (auto simp: add_task_to_queue_def with_fresh_task_def Let_def split: option.splits)
qed

lemma keeps_create:
  assumes "kwf k" "k_queue k = Some h" and "create_task_from_initrd_file initrd elf stack path k = (Some i, k')"
  shows "keeps k (task_queue_move_first_user (Some i) (upd_task i (\<lambda>t. t\<lparr>t_boot_service := True\<rparr>) k'))"
proof -
  let ?k2 = "upd_task i (\<lambda>t. t\<lparr>t_boot_service := True\<rparr>) k'"
  have f: "kwf k'" "queue_slots k' = queue_slots k @ [i]" "get_task_by_id k (k_next_task_id k) = None"
    "get_task_by_id k' = (get_task_by_id k)(k_next_task_id k := Some i)"
    using create_task_facts [OF assms(1), of initrd elf stack path] assms(2,3) by simp_all
  note c = create_keeps [OF assms(1,3)]
  obtain r where r: "queue_slots k = h # r" using assms(2) by (auto simp: queue_slots_def numeral_eq_Suc)
  have q: "queue_slots ?k2 = h # r @ [i]" "get_task_by_id ?k2 = get_task_by_id k'" by (simp_all add: f(2) r)
  have wf: "kwf ?k2" using f(1) by (rule kwf_upd_task) (simp_all add: task_ok_def exit_log_def event_log_def)
  have "ring_rep ?k2 (h # r @ [i])" using kwf_sizes(6) [OF wf] q(1) by simp
  then have h: "k_queue ?k2 = Some h" by (simp add: ring_rep_def)
  have sig: "task_sig (tsk ?k2 j) = task_sig (tsk k j)" "t_state (tsk ?k2 j) = t_state (tsk k j)" if "get_task_by_id k p = Some j" for p j
  proof -
    have "j \<noteq> i" using get_task_by_id_SomeD(1) [OF that] c(1) by auto
    then have t: "tsk ?k2 j = tsk k' j" by simp
    note e = c(2) [OF \<open>j \<noteq> i\<close>]
    have "task_sig (tsk k' j) = task_sig (tsk k j)" using arg_cong [OF e, of task_sig] unfolding task_sig_upd .
    then show "task_sig (tsk ?k2 j) = task_sig (tsk k j)" unfolding t .
    have "t_state (tsk k' j) = t_state (tsk k j)" using arg_cong [OF e, of t_state] by simp
    then show "t_state (tsk ?k2 j) = t_state (tsk k j)" unfolding t .
  qed
  have g: "get_task_by_id ?k2 p = Some j" if "get_task_by_id k p = Some j" for p j
    using that f(3) unfolding q(2) f(4) by auto
  have cr: "k_current ?k2 = k_current k" "k_root_shell_pid ?k2 = k_root_shell_pid k"
    using c(3) create_root_shell [OF assms(1,3)] by simp_all
  have "keeps k ?k2"
    unfolding keeps_def cr using wf h sig g by simp
  then show ?thesis by (rule keeps_trans) (rule keeps_move_first [OF wf h q(1)], simp)
qed

subsection \<open>What the withdrawal keeps of the registry\<close>

definition alive_user :: "kstate \<Rightarrow> pid \<Rightarrow> bool" where
  "alive_user k p = (case get_task_by_id k p of
     None \<Rightarrow> False | Some i \<Rightarrow> t_type (tsk k i) = TASK_TYPE_USER \<and> t_state (tsk k i) \<noteq> TASK_TERMINATED)"

abbreviation owner :: "machine \<Rightarrow> cstring \<Rightarrow> pid option" where
  "owner m \<equiv> owner_of (task_view_of (m_k m)) (m_reg m)"

definition m_ok :: "machine \<Rightarrow> bool" where
  "m_ok m \<longleftrightarrow> kwf (m_k m) \<and> k_queue (m_k m) \<noteq> None \<and> registry_ok (m_reg m)"

text \<open>The tasks, and the names of the Ring 3 tasks that have not ended, are as before.\<close>

definition m_keeps :: "machine \<Rightarrow> machine \<Rightarrow> bool" where
  "m_keeps m m' \<longleftrightarrow> keeps (m_k m) (m_k m') \<and> registry_ok (m_reg m') \<and>
     (\<forall>p n. alive_user (m_k m) p \<longrightarrow> (owner m' n = Some p \<longleftrightarrow> owner m n = Some p))"

lemma alive_user_keeps: "keeps k k' \<Longrightarrow> alive_user k p \<Longrightarrow> alive_user k' p"
  using keepsD(5-7) [of k k' p] by (auto simp: alive_user_def task_sig_def split: option.splits)

lemma m_keeps_ok: "m_keeps m m' \<Longrightarrow> m_ok m'"
  using keepsD [of "m_k m" "m_k m'"] by (auto simp: m_keeps_def m_ok_def)

lemma m_keeps_refl: "m_ok m \<Longrightarrow> m_keeps m m"
  by (simp add: m_keeps_def m_ok_def keeps_refl)

lemma m_keeps_trans [trans]: "m_keeps m m' \<Longrightarrow> m_keeps m' m'' \<Longrightarrow> m_keeps m m''"
  by (auto simp: m_keeps_def intro: keeps_trans dest: alive_user_keeps)

lemma owner_in_view:
  assumes "ents_ok es" and "tv_identity tv' p = tv_identity tv p"
  shows "owner_in tv' es n = Some p \<longleftrightarrow> owner_in tv es n = Some p"
proof -
  have "matching tv' n e \<longleftrightarrow> matching tv n e" if "re_pid e = p" for e
    using that assms(2) by (simp add: matching_def entry_valid_def task_identity_valid_def)
  then show ?thesis unfolding owner_in_Some [OF assms(1)] by auto
qed

lemma m_keeps_tasks:
  assumes "m_ok m" and "keeps (m_k m) k'" and "registry_ok r'" and "ents r' = ents (m_reg m)"
    and "m_k m' = k'" and "m_reg m' = r'"
  shows "m_keeps m m'"
proof -
  have "owner m' n = Some p \<longleftrightarrow> owner m n = Some p" if l: "alive_user (m_k m) p" for p n
  proof -
    obtain i where i: "get_task_by_id (m_k m) p = Some i" using l by (auto simp: alive_user_def split: option.splits)
    have "tv_identity (task_view_of k') p = tv_identity (task_view_of (m_k m)) p"
      using i keepsD(5,6) [OF assms(2) i] by (simp add: task_view_of_def task_get_identity_def task_sig_def)
    moreover have "ents_ok (ents (m_reg m))" using assms(1) by (simp add: m_ok_def registry_ok_parts)
    ultimately show ?thesis unfolding owner_of_def assms(4-6) by (rule owner_in_view [rotated])
  qed
  with assms(2,3,5,6) show ?thesis by (simp add: m_keeps_def)
qed

lemma m_keeps_reg:
  assumes "m_ok m" and "registry_ok r'" and "\<And>n p. alive_user (m_k m) p \<Longrightarrow> owner_of (task_view_of (m_k m)) r' n = Some p \<longleftrightarrow> owner m n = Some p"
    and "m_k m' = m_k m" and "m_reg m' = r'"
  shows "m_keeps m m'"
  using assms keeps_refl [of "m_k m"] by (simp add: m_keeps_def m_ok_def)

lemma m_keeps_cong:
  assumes "m_keeps m m'" and "m_k m'' = m_k m'" and "m_reg m'' = m_reg m'"
  shows "m_keeps m m''"
  using assms by (simp add: m_keeps_def)

subsection \<open>Notification\<close>

lemma event_flush_rest:
  "rg_entries (event_journal_flush r) = rg_entries r" "rg_caps (event_journal_flush r) = rg_caps r" "rg_mounts (event_journal_flush r) = rg_mounts r"
  "rg_token_next (event_journal_flush r) = rg_token_next r" "rg_right_token_next (event_journal_flush r) = rg_right_token_next r"
  by (auto simp: event_journal_flush_def split: prod.splits)

lemma notify_record_reg:
  assumes "registry_ok r" and "service_registry_notify_record name w old new reason r = (v, x, r')"
  shows "registry_ok r'" "ents r' = ents r" "rg_caps r' = rg_caps r"
proof -
  have e: "rg_entries r' = rg_entries r" "rg_caps r' = rg_caps r" "rg_mounts r' = rg_mounts r" "rg_token_next r' = rg_token_next r"
    "rg_right_token_next r' = rg_right_token_next r" "rg_watches r' = rg_watches r" "length (rg_history r') = length (rg_history r)"
    using assms(2) by (auto simp: service_registry_notify_record_def Let_def event_flush_rest upd_event_def split: if_splits)
  then show "registry_ok r'" "ents r' = ents r" "rg_caps r' = rg_caps r" using assms(1) by (simp_all add: registry_ok_def ents_def)
qed

lemma m_keeps_notify_watcher:
  assumes "m_ok m"
  shows "m_keeps m (notify_watcher name old new reason payload w m)"
proof -
  have ok: "kwf (m_k m)" "k_queue (m_k m) \<noteq> None" "registry_ok (m_reg m)" using assms by (simp_all add: m_ok_def)
  obtain a b r where r: "service_registry_notify_record name w old new reason (m_reg m) = (a, b, r)" by (metis prod_cases3)
  show ?thesis
  proof (cases "\<exists>i. get_task_by_id (m_k m) w = Some i \<and> t_type (tsk (m_k m) i) = TASK_TYPE_USER \<and> t_state (tsk (m_k m) i) \<noteq> TASK_TERMINATED")
    case True
    then obtain i where i: "get_task_by_id (m_k m) w = Some i" "t_type (tsk (m_k m) i) = TASK_TYPE_USER" "t_state (tsk (m_k m) i) \<noteq> TASK_TERMINATED"
      by blast
    obtain v k where d: "deliver_supervision i payload (m_k m) = (v, k)" by fastforce
    have "notify_watcher name old new reason payload w m = m\<lparr>m_reg := r, m_k := if v = 0 then task_ipc_message_queued (Some i) k else k\<rparr>"
      using i r d by (simp add: notify_watcher_def)
    then show ?thesis
      using keeps_deliver [OF ok(1,2) i(1) d] notify_record_reg [OF ok(3) r] by (intro m_keeps_tasks [OF assms]) simp_all
  next
    case False
    then have "notify_watcher name old new reason payload w m = m"
      by (auto simp: notify_watcher_def split: option.splits)
    with m_keeps_refl [OF assms] show ?thesis by simp
  qed
qed

lemma m_keeps_fold:
  assumes "\<And>m x. m_ok m \<Longrightarrow> m_keeps m (f x m)" and "m_ok m"
  shows "m_keeps m (fold f xs m)"
  using assms(2)
proof (induction xs arbitrary: m)
  case (Cons x xs)
  note x = assms(1) [OF Cons.prems, of x]
  show ?case using m_keeps_trans [OF x Cons.IH [OF m_keeps_ok [OF x]]] by simp
qed (simp add: m_keeps_refl)

lemma m_keeps_notify: "m_ok m \<Longrightarrow> m_keeps m (service_notify_change name old new reason m)"
  unfolding service_notify_change_def
  by (auto split: option.split prod.split intro: m_keeps_refl m_keeps_fold [OF m_keeps_notify_watcher])

subsection \<open>Lookups\<close>

lemma m_keeps_lookup:
  assumes "m_ok m" and "service_lookup name m = (v, m')"
  shows "m_keeps m m'" "m_k m' = m_k m"
proof -
  obtain r where r: "service_registry_lookup (task_view_of (m_k m)) name (m_reg m) = (v, r)" "m' = m\<lparr>m_reg := r\<rparr>"
    using assms(2) by (auto simp: service_lookup_def split: prod.splits)
  have "registry_ok (m_reg m)" using assms(1) by (simp add: m_ok_def)
  note l = lookup_facts [OF this r(1)]
  show "m_keeps m m'" using l by (intro m_keeps_reg [OF assms(1)]) (simp_all add: r(2))
  show "m_k m' = m_k m" by (simp add: r(2))
qed

lemma m_keeps_live_driver: "m_ok m \<Longrightarrow> ata_live_driver m = (p, m') \<Longrightarrow> m_keeps m m'"
  using m_keeps_lookup(1) [of m "''ata-driver''"] by (auto simp: ata_live_driver_def split: prod.splits)

lemma m_keeps_sys_lookup:
  assumes "m_ok m" and "sys_service_lookup name m = (v, m')"
  shows "m_keeps m m'"
proof -
  obtain o1 m1 where l: "service_lookup name m = (o1, m1)" by fastforce
  note k1 = m_keeps_lookup [OF assms(1) l]
  note ok1 = m_keeps_ok [OF k1(1)]
  let ?tv = "task_view_of (m_k m1)"
  obtain x r where r: "service_registry_remove ?tv name o1 (m_reg m1) = (x, r)" by fastforce
  have e: "(case get_task_by_id (m_k m1) o1 of None \<Rightarrow> True
      | Some i \<Rightarrow> t_type (tsk (m_k m1) i) \<noteq> TASK_TYPE_USER \<or> t_state (tsk (m_k m1) i) = TASK_TERMINATED) \<longleftrightarrow> \<not> alive_user (m_k m1) o1"
    by (simp add: alive_user_def split: option.split)
  have "m' = (if o1 < 0 \<or> alive_user (m_k m1) o1 then m1 else service_notify_change name o1 0 OS_SERVICE_EVENT_PURGED (m1\<lparr>m_reg := r\<rparr>))"
    using assms(2) e by (simp add: sys_service_lookup_def l r split: if_splits)
  then consider (keep) "m' = m1" | (purge) "\<not> alive_user (m_k m1) o1" "m' = service_notify_change name o1 0 OS_SERVICE_EVENT_PURGED (m1\<lparr>m_reg := r\<rparr>)"
    by (meson)
  then show ?thesis
  proof cases
    case purge
    have rok: "registry_ok (m_reg m1)" using ok1 by (simp add: m_ok_def)
    from rok r have "registry_ok r \<and> (\<forall>n p. p \<noteq> o1 \<longrightarrow> (owner_of ?tv r n = Some p \<longleftrightarrow> owner_of ?tv (m_reg m1) n = Some p))"
      by (cases rule: remove_cases) (use rok in auto)
    with purge(1) have "m_keeps m1 (m1\<lparr>m_reg := r\<rparr>)" by (intro m_keeps_reg [OF ok1]) auto
    note k2 = m_keeps_trans [OF k1(1) this]
    show ?thesis unfolding purge(2) by (rule m_keeps_trans [OF k2 m_keeps_notify [OF m_keeps_ok [OF k2]]])
  qed (use k1 in simp)
qed

subsection \<open>Lost drivers\<close>

lemma m_keeps_abort:
  assumes "m_ok m"
  shows "m_keeps m (ata_rpc_abort m)"
proof (cases "\<exists>w. m_rpc_waiter m = Some w \<and> t_state (tsk (m_k m) w) = TASK_BLOCKED_KERNEL")
  case True
  then obtain w where w: "m_rpc_waiter m = Some w" "t_state (tsk (m_k m) w) = TASK_BLOCKED_KERNEL" by blast
  have ok: "kwf (m_k m)" "k_queue (m_k m) \<noteq> None" "registry_ok (m_reg m)" using assms by (simp_all add: m_ok_def)
  have "keeps (m_k m) ((upd_task w (\<lambda>t. t\<lparr>t_state := TASK_READY\<rparr>) (m_k m))\<lparr>k_sched_only := Some w\<rparr>)"
    by (rule keeps_sched_only, rule keeps_upd_task [OF ok(1,2)]) (simp_all add: task_ok_state)
  then show ?thesis
    by (rule m_keeps_tasks [OF assms _ ok(3) refl]) (simp_all add: ata_rpc_abort_def w Let_def upd_k_def)
next
  case False
  then have "ata_rpc_abort m = m" by (auto simp: ata_rpc_abort_def split: option.splits)
  with m_keeps_refl [OF assms] show ?thesis by simp
qed

lemma m_keeps_respawn:
  assumes "m_ok (s_m s)"
  shows "m_keeps (s_m s) (s_m (snd (ata_supervisor_respawn initrd elf stack hw s)))"
proof -
  obtain p m1 where l: "ata_live_driver (s_m s) = (p, m1)" by fastforce
  note k1 = m_keeps_live_driver [OF assms l]
  have ok: "kwf (m_k m1)" "k_queue (m_k m1) \<noteq> None" "registry_ok (m_reg m1)" using m_keeps_ok [OF k1] by (simp_all add: m_ok_def)
  obtain x k where c: "create_task_from_initrd_file initrd elf stack (Some ''bin/atadriver'') (m_k m1) = (x, k)" by fastforce
  show ?thesis
  proof (cases x)
    case None
    then have "k = m_k m1" using create_task_facts [OF ok(1,2), of initrd elf stack "Some ''bin/atadriver''"] c by simp
    then show ?thesis using m_keeps_refl [OF assms] k1 None c l by (simp add: ata_supervisor_respawn_def Let_def)
  next
    case (Some i)
    obtain h where h: "k_queue (m_k m1) = Some h" using ok(2) by blast
    note n = keeps_create [OF ok(1) h, of initrd elf stack "Some ''bin/atadriver''" i k]
    let ?k2 = "task_queue_move_first_user (Some i) (upd_task i (\<lambda>t. t\<lparr>t_boot_service := True\<rparr>) k)"
    have "m_keeps m1 (m1\<lparr>m_k := ?k2, m_ata := a\<rparr>)" for a
      using n c Some by (intro m_keeps_tasks [OF m_keeps_ok [OF k1] _ ok(3) refl]) simp_all
    then have "m_keeps (s_m s) (m1\<lparr>m_k := ?k2, m_ata := a\<rparr>)" for a using k1 m_keeps_trans by blast
    then show ?thesis using m_keeps_refl [OF assms] k1 Some c l by (simp add: ata_supervisor_respawn_def Let_def)
  qed
qed

lemma store_tasks:
  "m_k (s_m (park_store s)) = m_k (s_m s)" "m_reg (s_m (park_store s)) = m_reg (s_m s)"
  "m_k (s_m (reset_channel hw s)) = m_k (s_m s)" "m_reg (s_m (reset_channel hw s)) = m_reg (s_m s)"
  by (auto simp: park_store_def reset_channel_def Let_def split: option.split)

lemma m_keeps_bridge:
  assumes "m_ok (s_m s)"
  shows "m_keeps (s_m s) (s_m (ata_bridge_after_purge initrd elf stack hw died s))"
proof -
  obtain p m1 where l: "ata_live_driver (s_m s) = (p, m1)" by fastforce
  note k1 = m_keeps_live_driver [OF assms l]
  note k2 = m_keeps_trans [OF k1 m_keeps_abort [OF m_keeps_ok [OF k1]]]
  let ?s1 = "reset_channel hw (s\<lparr>s_m := ata_rpc_abort m1\<rparr>)"
  have k3: "m_keeps (s_m s) (s_m ?s1)" by (rule m_keeps_cong [OF k2]) (simp_all add: store_tasks)
  have k4: "m_keeps (s_m s) (s_m (if b then park_store ?s1 else ?s1))" for b
    by (rule m_keeps_cong [OF k3]) (simp_all add: store_tasks)
  have "m_keeps (s_m s) (s_m (snd (ata_supervisor_respawn initrd elf stack hw (if b then park_store ?s1 else ?s1))))" for b
    by (rule m_keeps_trans [OF k4 m_keeps_respawn [OF m_keeps_ok [OF k4]]])
  with k1 m_keeps_refl [OF assms] l show ?thesis
    by (simp add: ata_bridge_after_purge_def Let_def kernel_fat_pio_fallback_enabled_def)
qed

lemma m_keeps_card:
  assumes "m_ok (s_m s)"
  shows "m_keeps (s_m s) (s_m (release_card hw s))"
proof -
  obtain v m where l: "sys_service_lookup ''net-driver'' (s_m s) = (v, m)" by fastforce
  show ?thesis
    by (rule m_keeps_cong [OF m_keeps_sys_lookup [OF assms l]])
      (simp_all add: release_card_def kernel_net_nic_reclaim_def l Let_def split: prod.split)
qed

subsection \<open>The withdrawal\<close>

lemma owned_none:
  assumes "registry_ok r" and "filter (\<lambda>e. re_pid e = p \<and> entry_valid tv e) (rg_entries r) = []"
  shows "owner_of tv r n \<noteq> Some p"
proof -
  have "ents_ok (ents r)" and len: "length (rg_entries r) = 12" using assms(1) by (simp_all add: registry_ok_parts registry_okD)
  then show ?thesis
    using assms(2) by (auto simp: owner_of_def owner_in_Some ents_def matching_def filter_empty_conv entry_valid_def)
qed

lemma m_keeps_purge:
  assumes "m_ok m" and "alive_user (m_k m) q" and "0 < q"
    and "owned = filter (\<lambda>e. re_pid e = q \<and> entry_valid (task_view_of (m_k m)) e) (rg_entries (m_reg m))"
  shows "keeps (m_k m) (m_k (purge_names q owned m))" "registry_ok (m_reg (purge_names q owned m))"
    "owner (purge_names q owned m) n \<noteq> Some q"
    "alive_user (m_k m) p \<Longrightarrow> p \<noteq> q \<Longrightarrow> owner (purge_names q owned m) n = Some p \<longleftrightarrow> owner m n = Some p"
proof -
  have rok: "registry_ok (m_reg m)" using assms(1) by (simp add: m_ok_def)
  let ?g = "keeps (m_k m) (m_k (purge_names q owned m)) \<and> registry_ok (m_reg (purge_names q owned m)) \<and> owner (purge_names q owned m) n \<noteq> Some q \<and>
    (alive_user (m_k m) p \<and> p \<noteq> q \<longrightarrow> (owner (purge_names q owned m) n = Some p \<longleftrightarrow> owner m n = Some p))"
  have ?g
  proof (cases "owned = []")
    case True
    then show ?thesis using owned_none [OF rok] m_keeps_refl [OF assms(1)] assms(4) by (simp add: purge_names_def m_keeps_def)
  next
    case False
    let ?m1 = "fold (\<lambda>e. service_notify_change (re_name e) q 0 OS_SERVICE_EVENT_PURGED) owned m"
    have k1: "m_keeps m ?m1" by (rule m_keeps_fold [OF m_keeps_notify assms(1)])
    have k: "keeps (m_k m) (m_k ?m1)" "registry_ok (m_reg ?m1)" using k1 by (simp_all add: m_keeps_def)
    obtain v r sp where r: "service_registry_remove_pid q (m_reg ?m1, k_spill (m_k ?m1)) = (v, r, sp)" by (metis prod_cases3)
    note rf = remove_pid_facts [OF k(2) assms(3) r]
    let ?k2 = "(m_k ?m1)\<lparr>k_spill := sp\<rparr>"
    have e: "purge_names q owned m = ?m1\<lparr>m_reg := r, m_k := ?k2\<rparr>" using False r by (simp add: purge_names_def Let_def)
    have "get_task_by_id ?k2 = get_task_by_id (m_k ?m1)" by (rule get_task_by_id_cong) auto
    then have tv: "task_view_of ?k2 = task_view_of (m_k ?m1)"
      by (simp add: task_view_of_def task_get_identity_def task_identity_key_def fun_eq_iff)
    have "keeps (m_k m) ?k2" by (rule keeps_trans [OF k(1) keeps_spill [OF keepsD(1,2) [OF k(1)]]])
    moreover have "alive_user (m_k m) p \<Longrightarrow> owner ?m1 n = Some p \<longleftrightarrow> owner m n = Some p" using k1 by (simp add: m_keeps_def)
    ultimately show ?thesis using rf(1) by (simp add: e tv rf(2)) (metis option.inject)
  qed
  then show "keeps (m_k m) (m_k (purge_names q owned m))" "registry_ok (m_reg (purge_names q owned m))"
    "owner (purge_names q owned m) n \<noteq> Some q"
    "alive_user (m_k m) p \<Longrightarrow> p \<noteq> q \<Longrightarrow> owner (purge_names q owned m) n = Some p \<longleftrightarrow> owner m n = Some p" by blast+
qed

text \<open>The state after \<open>withdraw\<close>: the task is as before, without any authority, and the others keep theirs.\<close>

lemma withdraw_names:
  fixes initrd elf stack hw s
  assumes "m_ok (s_m s)" and "alive_user (m_k (s_m s)) q" and "0 < q"
  defines "m' \<equiv> s_m (service_notify_purge_pid initrd elf stack hw q s)"
  shows "keeps (m_k (s_m s)) (m_k m')" "registry_ok (m_reg m')" "owner m' n \<noteq> Some q"
    "alive_user (m_k (s_m s)) p \<Longrightarrow> p \<noteq> q \<Longrightarrow> owner m' n = Some p \<longleftrightarrow> owner (s_m s) n = Some p"
proof -
  let ?m = "s_m s"
  let ?owned = "filter (\<lambda>e. re_pid e = q \<and> entry_valid (task_view_of (m_k ?m)) e) (rg_entries (m_reg ?m))"
  let ?s1 = "on_m (purge_names q ?owned) (s\<lparr>s_purge_pid := q\<rparr>)"
  have "length ?owned \<le> 12" using assms(1) length_filter_le [of _ "rg_entries (m_reg ?m)"] by (simp add: m_ok_def registry_okD)
  then have "service_registry_collect_owned (task_view_of (m_k ?m)) q (Some []) SERVICE_REGISTRY_CAPACITY (m_reg ?m) = (int (length ?owned), Some ?owned)"
    using assms(3) by (simp add: service_registry_collect_owned_def Let_def)
  then obtain died where m': "m' = s_m (release_card hw (ata_bridge_after_purge initrd elf stack hw died ?s1))"
    by (simp add: m'_def service_notify_purge_pid_def Let_def)
  note p = m_keeps_purge [OF assms(1,2,3) refl]
  let ?m1 = "s_m ?s1"
  have ok1: "m_ok ?m1" using p(1,2) keepsD(1,2) [OF p(1)] by (simp add: m_ok_def)
  note b = m_keeps_bridge [OF ok1, of initrd elf stack hw died]
  note k = m_keeps_trans [OF b m_keeps_card [OF m_keeps_ok [OF b], of hw]]
  have k1: "keeps (m_k ?m) (m_k ?m1)" using p(1) by simp
  show "keeps (m_k ?m) (m_k m')" using k keeps_trans [OF k1] by (simp add: m' m_keeps_def)
  show "registry_ok (m_reg m')" using k by (simp add: m' m_keeps_def)
  have q: "alive_user (m_k ?m1) q" by (rule alive_user_keeps [OF k1 assms(2)])
  then have "owner m' n = Some q \<longleftrightarrow> owner ?m1 n = Some q" using k by (simp add: m' m_keeps_def)
  with p(3) show "owner m' n \<noteq> Some q" by simp
  assume a: "alive_user (m_k ?m) p" "p \<noteq> q"
  have "owner m' n = Some p \<longleftrightarrow> owner ?m1 n = Some p" using k alive_user_keeps [OF k1 a(1)] by (simp add: m' m_keeps_def)
  with p(4) [OF a] show "owner m' n = Some p \<longleftrightarrow> owner ?m n = Some p" by simp
qed

lemma purge_caps_none:
  assumes "registry_ok r" and "rg_caps r = map (purge_cap q) cs" and "0 < q"
  shows "\<not> allowed tv r n q right source path"
proof -
  have "\<not> permits tv r n q right source path (purge_cap q c)" for c
    using assms(3) by (auto simp: permits_def purge_cap_def)
  then show ?thesis unfolding allowed_iff [OF assms(1)] using assms(2) by auto
qed

lemma withdraw_facts:
  fixes initrd elf stack hw s
  assumes "m_ok (s_m s)" and "alive_user (m_k (s_m s)) q" and "0 < q"
  defines "m' \<equiv> s_m (withdraw initrd elf stack hw q s)"
  shows "keeps (m_k (s_m s)) (m_k m')" "registry_ok (m_reg m')" "owner m' n \<noteq> Some q"
    "\<not> allowed (task_view_of (m_k m')) (m_reg m') n' q right source path"
    "\<forall>w\<in>set (rg_watches (m_reg m')). rw_pid w \<noteq> q" "\<not> spill_pending (k_spill (m_k m')) q"
    "alive_user (m_k (s_m s)) p \<Longrightarrow> p \<noteq> q \<Longrightarrow> owner m' n = Some p \<longleftrightarrow> owner (s_m s) n = Some p"
proof -
  let ?s = "service_notify_purge_pid initrd elf stack hw q s"
  let ?m = "s_m ?s"
  note w = withdraw_names [OF assms(1-3), where initrd = initrd and elf = elf and stack = stack and hw = hw]
  have len: "length (rg_caps (m_reg ?m)) = 4" using w(2) by (rule registry_okD(4))
  note b = backend_remove_pid_facts [OF len assms(3)]
  let ?r = "service_registry_backend_remove_pid q (m_reg ?m)"
  let ?ws = "map (\<lambda>w. if rw_pid w = q then w\<lparr>rw_pid := 0, rw_name := clear0 (rw_name w)\<rparr> else w) (rg_watches ?r)"
  let ?k = "(m_k ?m)\<lparr>k_spill := ipc_spill_clear_pid q (k_spill (m_k ?m))\<rparr>"
  have m': "m' = ?m\<lparr>m_reg := ?r\<lparr>rg_watches := ?ws\<rparr>, m_k := ?k\<rparr>"
    using assms(3) by (simp add: m'_def withdraw_def service_registry_remove_watcher_pid_def Let_def)
  have "registry_ok ?r"
    using w(2) b purge_ok [of "rg_caps (m_reg ?m)" q] by (simp add: registry_ok_parts)
  then show rok: "registry_ok (m_reg m')" by (simp add: m' registry_ok_def)
  have kk: "keeps (m_k ?m) ?k" by (rule keeps_spill [OF keepsD(1,2) [OF w(1)]])
  show "keeps (m_k (s_m s)) (m_k m')" using keeps_trans [OF w(1) kk] by (simp add: m')
  have "get_task_by_id ?k = get_task_by_id (m_k ?m)" by (rule get_task_by_id_cong) auto
  then have tv: "task_view_of ?k = task_view_of (m_k ?m)"
    by (simp add: task_view_of_def task_get_identity_def task_identity_key_def fun_eq_iff)
  have o: "owner m' n = owner ?m n" by (simp add: m' tv owner_of_def b ents_def [of "_\<lparr>rg_watches := _\<rparr>"] flip: ents_def)
  show "owner m' n \<noteq> Some q" using w(3) by (simp add: o)
  show "alive_user (m_k (s_m s)) p \<Longrightarrow> p \<noteq> q \<Longrightarrow> owner m' n = Some p \<longleftrightarrow> owner (s_m s) n = Some p" using w(4) by (simp add: o)
  show "\<not> allowed (task_view_of (m_k m')) (m_reg m') n' q right source path"
    by (rule purge_caps_none [OF rok _ assms(3), of "rg_caps (m_reg ?m)"]) (simp add: m' b)
  show "\<forall>w\<in>set (rg_watches (m_reg m')). rw_pid w \<noteq> q" using assms(3) by (auto simp: m')
  show "\<not> spill_pending (k_spill (m_k m')) q"
    using assms(3) by (auto simp: m' spill_pending_def ipc_spill_clear_pid_def split: if_splits)
qed

subsection \<open>Properties\<close>

text \<open>
  C11. A task that ends by \<open>SYS_EXIT\<close> leaves no authority behind. It is terminated; it owns no name,
  holds no capability on any name, watches no service; the kernel state and the registry stay well
  formed; and every other Ring 3 task that has not ended owns exactly the names it owned before,
  whether the task was a driver that the kernel replaces or not.
\<close>

theorem exit_leaves_no_authority:
  assumes "kwf (m_k (s_m s))" and "registry_ok (m_reg (s_m s))" and "k_current (m_k (s_m s)) = Some c"
    and "t_id (tsk (m_k (s_m s)) c) = q" and "0 < q" and "alive_user (m_k (s_m s)) q" and "k_queue (m_k (s_m s)) \<noteq> None"
  shows "(let m' = s_m (sys_exit initrd elf stack hw code s); tv' = task_view_of (m_k m') in
      kwf (m_k m') \<and> registry_ok (m_reg m') \<and> t_state (tsk (m_k m') c) = TASK_TERMINATED \<and>
      (\<forall>n. owner_of tv' (m_reg m') n \<noteq> Some q) \<and>
      (\<forall>n right source path. \<not> allowed tv' (m_reg m') n q right source path) \<and>
      (\<forall>w\<in>set (rg_watches (m_reg m')). rw_pid w \<noteq> q) \<and>
      (\<forall>p n. alive_user (m_k (s_m s)) p \<and> p \<noteq> q \<longrightarrow>
         (owner_of tv' (m_reg m') n = Some p \<longleftrightarrow> owner_of (task_view_of (m_k (s_m s))) (m_reg (s_m s)) n = Some p)))"
proof -
  have ok: "m_ok (s_m s)" using assms(1,2,7) by (simp add: m_ok_def)
  let ?w = "s_m (withdraw initrd elf stack hw q s)"
  note w = withdraw_facts [OF ok assms(6,5), where initrd = initrd and elf = elf and stack = stack and hw = hw]
  let ?k = "end_task code OS_TASK_EVENT_EXITED c (m_k ?w)"
  have m': "s_m (sys_exit initrd elf stack hw code s) = ?w\<lparr>m_k := ?k\<rparr>"
    using assms(3,4) by (simp add: sys_exit_def end_current_def upd_k_def)
  have f: "tframe (m_k ?w) ?k" using steady_end_task by (auto simp: steady_def)
  have tv: "task_view_of ?k = task_view_of (m_k ?w)" by (simp add: task_view_of_def tframeD [OF f])
  have wf: "kwf ?k" by (rule tframe_kwf [OF f keepsD(1) [OF w(1)]])
  have "c \<in> set (queue_slots (m_k (s_m s)))" using kwf_globals(6) [OF assms(1,7)] assms(3) by auto
  then have "get_task_by_id (m_k (s_m s)) q = Some c" using get_task_by_id_self [OF assms(1)] assms(4) by auto
  then have "c \<in> set (queue_slots ?k)"
    using keepsD(5) [OF w(1)] get_task_by_id_SomeD(1) tframeD(1) [OF f] by metis
  then have "c < length (k_pool ?k)" using kwf_sizes(1,8) [OF wf] by simp
  then have "t_state (tsk ?k c) = TASK_TERMINATED" by (simp add: end_task_def)
  then show ?thesis using w wf by (simp add: m' tv Let_def)
qed

text \<open>
  C40. \<open>sys_kill\<close> disarms its target before it asks whether the caller may kill it. When the call is
  refused, because the caller is neither the parent nor the root shell of a boot service, the target
  goes on running, but has lost all names it owned, all capabilities and all watches.
\<close>

theorem refused_kill_disarms_target:
  assumes "kwf (m_k (s_m s))" and "registry_ok (m_reg (s_m s))" and "k_current (m_k (s_m s)) = Some c"
    and "get_task_by_id (m_k (s_m s)) q = Some i" and "0 < q" and "alive_user (m_k (s_m s)) q" and "k_queue (m_k (s_m s)) \<noteq> None"
    and "t_id (tsk (m_k (s_m s)) c) \<noteq> t_parent_pid (tsk (m_k (s_m s)) i)"
    and "t_id (tsk (m_k (s_m s)) c) \<noteq> k_root_shell_pid (m_k (s_m s))"
  shows "(case sys_kill initrd elf stack hw q s of (v, s') \<Rightarrow>
      v < 0 \<and> get_task_by_id (m_k (s_m s')) q = Some i \<and> alive_user (m_k (s_m s')) q \<and>
      (\<forall>n. owner_of (task_view_of (m_k (s_m s'))) (m_reg (s_m s')) n \<noteq> Some q) \<and>
      (\<forall>n right source path. \<not> allowed (task_view_of (m_k (s_m s'))) (m_reg (s_m s')) n q right source path) \<and>
      (\<forall>w\<in>set (rg_watches (m_reg (s_m s'))). rw_pid w \<noteq> q))"
proof -
  have ok: "m_ok (s_m s)" using assms(1,2,7) by (simp add: m_ok_def)
  let ?s = "withdraw initrd elf stack hw q s"
  let ?k = "m_k (s_m ?s)"
  note w = withdraw_facts [OF ok assms(6,5), where initrd = initrd and elf = elf and stack = stack and hw = hw]
  have "c \<in> set (queue_slots (m_k (s_m s)))" using kwf_globals(6) [OF assms(1,7)] assms(3) by auto
  note c = keepsD(6) [OF w(1) get_task_by_id_self [OF assms(1) this]]
  note i = keepsD(5,6) [OF w(1) assms(4)]
  have "fst (task_kill (t_id (tsk ?k c)) q ?k) < 0" "snd (task_kill (t_id (tsk ?k c)) q ?k) = ?k"
    using c i assms(5,8,9) keepsD(4) [OF w(1)] by (auto simp: task_kill_def task_sig_def)
  then obtain v where v: "task_kill (t_id (tsk ?k c)) q ?k = (v, ?k)" "v < 0" by (metis prod.collapse)
  have "sys_kill initrd elf stack hw q s = (v, on_m (\<lambda>m. m\<lparr>m_k := ?k\<rparr>) ?s)"
    using assms(3) by (simp add: sys_kill_def Let_def v)
  then show ?thesis using v(2) w i(1) alive_user_keeps [OF w(1) assms(6)] by simp
qed

subsection \<open>A concrete system\<close>

definition vfs_reg :: registry where
  "vfs_reg = snd (service_registry_register (task_view_of desk_state) ''vfs'' 3 blank_registry)"

definition office :: system where
  "office = \<lparr>s_m = (desk desk_state)\<lparr>m_reg := vfs_reg\<rparr>, s_boot_driver_pid = 0, s_respawn_pid = 0, s_respawn_count = 0,
     s_purge_pid = 0, s_effects = []\<rparr>"

definition no_disk :: hardware where
  "no_disk = \<lparr>ata_present = False, ata_channel_busy = False, overlay_restore = (\<lambda>_. 0), overlay_save_disk = - 1,
     boot_ne2k_present = False, boot_ne2k_deferred = False\<rparr>"

lemma vfs_reg_facts: "registry_ok vfs_reg" "owner_of (task_view_of desk_state) vfs_reg ''vfs'' = Some 3"
proof -
  let ?tv = "task_view_of desk_state"
  obtain v where r: "service_registry_register ?tv ''vfs'' 3 blank_registry = (v, vfs_reg)" by (metis vfs_reg_def prod.collapse)
  have c: "service_registry_name_valid ''vfs''" "cstr ''vfs'' = ''vfs''" "\<exists>e\<in>set (rg_entries blank_registry). re_pid e = 0"
    by (code_simp, code_simp, simp add: blank_registry_def)
  have n: "owner_of ?tv blank_registry ''vfs'' = None"
    by (simp add: owner_of_def owner_in_def ents_def blank_registry_def matching_def find_None_iff)
  from registry_ok_blank r show "registry_ok vfs_reg" "owner_of ?tv vfs_reg ''vfs'' = Some 3"
    by (cases rule: register_cases; use c n registry_ok_blank in auto)+
qed

lemma office_facts:
  "kwf (m_k (s_m office))" "registry_ok (m_reg (s_m office))" "k_current (m_k (s_m office)) = Some 1"
  "get_task_by_id (m_k (s_m office)) = [0 \<mapsto> 0, 1 \<mapsto> 1, 2 \<mapsto> 2, 3 \<mapsto> 3]" "alive_user (m_k (s_m office)) 3" "alive_user (m_k (s_m office)) 1"
  "k_queue (m_k (s_m office)) \<noteq> None" "t_id (tsk (m_k (s_m office)) 1) = 1" "t_parent_pid (tsk (m_k (s_m office)) 3) = 2"
  "k_root_shell_pid (m_k (s_m office)) = 0"
proof -
  have k: "m_k (s_m office) = desk_state" by (simp add: office_def desk_def)
  have len: "length (k_pool family_state) = 16" by (rule kwf_sizes(1) [OF family_facts(1)])
  note d = desk_state_facts
  show "kwf (m_k (s_m office))" unfolding k by (rule sched_okD(1) [OF d(5)])
  show "registry_ok (m_reg (s_m office))" by (simp add: office_def vfs_reg_facts)
  show "k_current (m_k (s_m office)) = Some 1" unfolding k by (rule d(3))
  have g: "get_task_by_id (x\<lparr>k_current := a, k_rr_anchor := b, k_resume_after_high := c, k_sched_only := e, k_gets_waiter := f\<rparr>) = get_task_by_id x"
    "get_task_by_id (x\<lparr>k_deferred_reap := w\<rparr>) = get_task_by_id x" for x a b c e f w by (rule get_task_by_id_cong; auto)+
  show gt: "get_task_by_id (m_k (s_m office)) = [0 \<mapsto> 0, 1 \<mapsto> 1, 2 \<mapsto> 2, 3 \<mapsto> 3]"
    unfolding k desk_state_def turn_state_def by (simp add: g family_facts)
  show "alive_user (m_k (s_m office)) 3" "alive_user (m_k (s_m office)) 1"
    using gt turn_state_facts unfolding k by (simp_all add: alive_user_def d(9))
  show "k_queue (m_k (s_m office)) \<noteq> None" unfolding k using turn_state_facts(7) by (simp add: desk_state_def)
  show "t_id (tsk (m_k (s_m office)) 1) = 1" "t_parent_pid (tsk (m_k (s_m office)) 3) = 2"
    unfolding k using len family_facts by (simp_all add: d(9) turn_state_def)
  show "k_root_shell_pid (m_k (s_m office)) = 0" unfolding k by (simp add: desk_state_def turn_state_def family_facts)
qed

theorem exit_leaves_no_authority_witness:
  "t_state (tsk (m_k (s_m (sys_exit (\<lambda>_. Some ()) (\<lambda>_. 0x400000) 0xB0000000 no_disk 7 office))) 1) = TASK_TERMINATED"
  using exit_leaves_no_authority [OF office_facts(1-3,8) _ office_facts(6,7), of "\<lambda>_. Some ()" "\<lambda>_. 0x400000" "0xB0000000" no_disk 7]
  by (simp add: Let_def)

theorem refused_kill_disarms_target_witness:
  "owner_of (task_view_of (m_k (s_m office))) (m_reg (s_m office)) ''vfs'' = Some 3 \<and>
   fst (sys_kill (\<lambda>_. Some ()) (\<lambda>_. 0x400000) 0xB0000000 no_disk 3 office) < 0 \<and>
   (case sys_kill (\<lambda>_. Some ()) (\<lambda>_. 0x400000) 0xB0000000 no_disk 3 office of (_, s') \<Rightarrow>
     get_task_by_id (m_k (s_m s')) 3 = Some 3 \<and> owner_of (task_view_of (m_k (s_m s'))) (m_reg (s_m s')) ''vfs'' \<noteq> Some 3)"
  using refused_kill_disarms_target [OF office_facts(1-3) _ _ office_facts(5,7), of 3 "\<lambda>_. Some ()" "\<lambda>_. 0x400000" "0xB0000000" no_disk]
    office_facts vfs_reg_facts(2)
  by (auto simp: office_def desk_def split: prod.splits)

end
