(* ===== verification/Bigint.thy ===== *)
theory Bigint
  imports Kernel_Prelude
begin

text \<open>
  The multi-precision arithmetic of \<open>kernel/bigint.c\<close>, the basis of the RSA and ECDSA verification
  of the kernel. A \<open>bigint_t\<close> is the array of its limbs, least significant first, with the number
  of limbs in use; the capacity is the length of the array. A loop \<open>for (i = 0; i < n; i++)\<close> is a
  recursion on the number of turns, a loop downwards one on the number of turns left; limbs are
  32-bit words and the double-width sums and products 64-bit words, as in the source. A pointer
  argument that the code tests is an option. The limbs of an initialised number are never NULL.
\<close>

type_synonym u64 = "64 word"

record bigint =
  bi_limbs :: "u32 list"
  bi_length :: nat

definition bi_capacity :: "bigint \<Rightarrow> nat" where
  "bi_capacity v = length (bi_limbs v)"

text \<open>\<open>i < value->length ? value->limbs[i] : 0\<close>\<close>

definition limb :: "bigint \<Rightarrow> nat \<Rightarrow> u32" where
  "limb v i = (if i < bi_length v then bi_limbs v ! i else 0)"

subsection \<open>Basics\<close>

primrec normal_length :: "u32 list \<Rightarrow> nat \<Rightarrow> nat" where
  "normal_length xs 0 = 0"
| "normal_length xs (Suc n) = (if xs ! n = 0 then normal_length xs n else Suc n)"

definition bigint_normalize :: "bigint \<Rightarrow> bigint" where
  "bigint_normalize v = v\<lparr>bi_length := normal_length (bi_limbs v) (bi_length v)\<rparr>"

definition bigint_zero :: "bigint \<Rightarrow> bigint" where
  "bigint_zero v = \<lparr>bi_limbs = replicate (bi_capacity v) 0, bi_length = 0\<rparr>"

definition bigint_copy :: "bigint \<Rightarrow> bigint \<Rightarrow> bigint" where
  "bigint_copy output input = \<lparr>bi_limbs = map (limb input) [0..<bi_capacity output], bi_length = bi_length input\<rparr>"

definition bigint_init :: "bigint option \<Rightarrow> u32 list option \<Rightarrow> nat \<Rightarrow> rc \<times> bigint option" where
  "bigint_init value limbs capacity =
     (if value = None \<or> limbs = None \<or> capacity = 0 then (- 1, value)
      else (0, Some (bigint_zero \<lparr>bi_limbs = (case limbs of None \<Rightarrow> [] | Some l \<Rightarrow> take capacity l), bi_length = 0\<rparr>)))"

subsection \<open>Bytes\<close>

primrec from_be_loop :: "u8 list \<Rightarrow> nat \<Rightarrow> nat \<Rightarrow> u32 list \<Rightarrow> u32 list" where
  "from_be_loop input len 0 limbs = limbs"
| "from_be_loop input len (Suc offset) limbs =
     (let limbs1 = from_be_loop input len offset limbs; reverse = len - 1 - offset
      in limbs1[reverse div 4 := limbs1 ! (reverse div 4) OR push_bit (reverse mod 4 * 8) (ucast (input ! offset))])"

definition bigint_from_be :: "bigint option \<Rightarrow> u8 list option \<Rightarrow> nat \<Rightarrow> rc \<times> bigint option" where
  "bigint_from_be value input len =
     (case (value, input) of
        (Some v, Some bs) \<Rightarrow>
          if len = 0 then (- 1, value)
          else if (len + 3) div 4 > bi_capacity v then (- 2, value)
          else (0, Some (bigint_normalize (let z = bigint_zero v
                  in \<lparr>bi_limbs = from_be_loop bs len len (bi_limbs z), bi_length = (len + 3) div 4\<rparr>)))
      | _ \<Rightarrow> (- 1, value))"

definition be_byte :: "bigint \<Rightarrow> nat \<Rightarrow> u8" where
  "be_byte v reverse = (if reverse div 4 < bi_length v then ucast (drop_bit (reverse mod 4 * 8) (bi_limbs v ! (reverse div 4))) else 0)"

definition bigint_to_be :: "bigint option \<Rightarrow> u8 list option \<Rightarrow> nat \<Rightarrow> rc \<times> u8 list option" where
  "bigint_to_be value output len =
     (case (value, output) of
        (Some v, Some bs) \<Rightarrow> (0, Some (map (\<lambda>i. be_byte v (len - 1 - i)) [0..<len] @ drop len bs))
      | _ \<Rightarrow> (- 1, output))"

subsection \<open>Comparison\<close>

primrec compare_loop :: "u32 list \<Rightarrow> u32 list \<Rightarrow> nat \<Rightarrow> int" where
  "compare_loop left right 0 = 0"
| "compare_loop left right (Suc i) =
     (if left ! i \<noteq> right ! i then (if left ! i > right ! i then 1 else - 1) else compare_loop left right i)"

definition bigint_compare :: "bigint option \<Rightarrow> bigint option \<Rightarrow> int" where
  "bigint_compare left right =
     (case (left, right) of
        (Some l, Some r) \<Rightarrow>
          if bi_length l \<noteq> bi_length r then (if bi_length l > bi_length r then 1 else - 1)
          else compare_loop (bi_limbs l) (bi_limbs r) (bi_length l)
      | _ \<Rightarrow> - 2)"

definition bigint_raw_compare :: "u32 list \<Rightarrow> u32 list \<Rightarrow> nat \<Rightarrow> int" where
  "bigint_raw_compare left right n = compare_loop left right n"

subsection \<open>Sum, difference and product\<close>

text \<open>
  The carry and the borrow chain, over the limbs \<open>f\<close> and \<open>g\<close> of the operands. Each turn reads the
  limbs of its own index before it writes that index, so the result may be one of the operands.
\<close>

primrec add_loop :: "(nat \<Rightarrow> u32) \<Rightarrow> (nat \<Rightarrow> u32) \<Rightarrow> nat \<Rightarrow> u32 list \<Rightarrow> u32 list \<times> u64" where
  "add_loop f g 0 out = (out, 0)"
| "add_loop f g (Suc i) out =
     (case add_loop f g i out of
        (out1, carry) \<Rightarrow> let sum = carry + ucast (f i) + ucast (g i) in (out1[i := ucast sum], drop_bit 32 sum))"

primrec sub_loop :: "(nat \<Rightarrow> u32) \<Rightarrow> (nat \<Rightarrow> u32) \<Rightarrow> nat \<Rightarrow> u32 list \<Rightarrow> u32 list \<times> u64" where
  "sub_loop f g 0 out = (out, 0)"
| "sub_loop f g (Suc i) out =
     (case sub_loop f g i out of
        (out1, borrow) \<Rightarrow>
          let lv = ucast (f i); rv = ucast (g i) + borrow
          in (out1[i := ucast (lv - rv :: u64)], if lv < rv then 1 else 0))"

definition bigint_add :: "bigint option \<Rightarrow> bigint option \<Rightarrow> bigint option \<Rightarrow> rc \<times> bigint option" where
  "bigint_add output left right =
     (case (output, left, right) of
        (Some w, Some l, Some r) \<Rightarrow>
          let mx = (if bi_length l > bi_length r then bi_length l else bi_length r)
          in if bi_capacity w < mx then (- 2, output)
             else (case add_loop (limb l) (limb r) mx (bi_limbs w) of
                (limbs, carry) \<Rightarrow>
                  if carry \<noteq> 0
                  then (if mx \<ge> bi_capacity w then (- 3, Some (w\<lparr>bi_limbs := limbs\<rparr>))
                        else (0, Some (bigint_normalize \<lparr>bi_limbs = limbs[mx := ucast carry], bi_length = mx + 1\<rparr>)))
                  else (0, Some (bigint_normalize \<lparr>bi_limbs = limbs, bi_length = mx\<rparr>)))
      | _ \<Rightarrow> (- 1, output))"

definition bigint_subtract :: "bigint option \<Rightarrow> bigint option \<Rightarrow> bigint option \<Rightarrow> rc \<times> bigint option" where
  "bigint_subtract output left right =
     (case (output, left, right) of
        (Some w, Some l, Some r) \<Rightarrow>
          if bigint_compare left right < 0 \<or> bi_capacity w < bi_length l then (- 1, output)
          else (0, Some (bigint_normalize \<lparr>bi_limbs = fst (sub_loop (limb l) (limb r) (bi_length l) (bi_limbs w)), bi_length = bi_length l\<rparr>))
      | _ \<Rightarrow> (- 1, output))"

text \<open>One row of the product: \<open>out[i + j] += x * right[j]\<close>, with the carry.\<close>

primrec mul_row :: "u32 \<Rightarrow> u32 list \<Rightarrow> nat \<Rightarrow> nat \<Rightarrow> u32 list \<Rightarrow> u32 list \<times> u64" where
  "mul_row x right i 0 out = (out, 0)"
| "mul_row x right i (Suc j) out =
     (case mul_row x right i j out of
        (out1, carry) \<Rightarrow>
          let product = ucast x * ucast (right ! j) + ucast (out1 ! (i + j)) + carry
          in (out1[i + j := ucast product], drop_bit 32 product))"

primrec mul_loop :: "u32 list \<Rightarrow> u32 list \<Rightarrow> nat \<Rightarrow> nat \<Rightarrow> u32 list \<Rightarrow> u32 list" where
  "mul_loop left right rlen 0 out = out"
| "mul_loop left right rlen (Suc i) out =
     (case mul_row (left ! i) right i rlen (mul_loop left right rlen i out) of
        (out1, carry) \<Rightarrow> out1[i + rlen := ucast carry])"

text \<open>\<open>alias\<close> says that the output is one of the operands.\<close>

definition bigint_multiply :: "bool \<Rightarrow> bigint option \<Rightarrow> bigint option \<Rightarrow> bigint option \<Rightarrow> rc \<times> bigint option" where
  "bigint_multiply alias output left right =
     (case (output, left, right) of
        (Some w, Some l, Some r) \<Rightarrow>
          if alias then (- 1, output)
          else if bi_length l + bi_length r > bi_capacity w then (- 2, output)
          else (0, Some (bigint_normalize
                 \<lparr>bi_limbs = mul_loop (bi_limbs l) (bi_limbs r) (bi_length r) (bi_length l) (bi_limbs (bigint_zero w)),
                  bi_length = bi_length l + bi_length r\<rparr>))
      | _ \<Rightarrow> (- 1, output))"

subsection \<open>Modular arithmetic\<close>

definition bigint_raw_subtract :: "u32 list \<Rightarrow> u32 list \<Rightarrow> nat \<Rightarrow> u32 list" where
  "bigint_raw_subtract left right n = fst (sub_loop ((!) left) ((!) right) n left)"

text \<open>The correction after a sum below twice the modulus, with the carry out of its top limb.\<close>

definition mod_correct :: "bool \<Rightarrow> u32 list \<Rightarrow> bigint \<Rightarrow> bigint" where
  "mod_correct carry limbs m =
     bigint_normalize \<lparr>bi_limbs = (if carry \<or> bigint_raw_compare limbs (bi_limbs m) (bi_length m) \<ge> 0
         then bigint_raw_subtract limbs (bi_limbs m) (bi_length m) else limbs), bi_length = bi_length m\<rparr>"

primrec shift_loop :: "u32 \<Rightarrow> nat \<Rightarrow> u32 list \<Rightarrow> u32 list \<times> u32" where
  "shift_loop bit0 0 limbs = (limbs, bit0)"
| "shift_loop bit0 (Suc i) limbs =
     (case shift_loop bit0 i limbs of
        (limbs1, carry) \<Rightarrow> (limbs1[i := push_bit 1 (limbs1 ! i) OR carry], drop_bit 31 (limbs1 ! i)))"

definition bigint_mod_shift_add :: "bigint \<Rightarrow> bigint \<Rightarrow> bool \<Rightarrow> bigint" where
  "bigint_mod_shift_add remainder m b =
     (case shift_loop (of_bool b) (bi_length m) (bi_limbs remainder) of (limbs, carry) \<Rightarrow> mod_correct (carry \<noteq> 0) limbs m)"

text \<open>The bits of a number in the order of the loops over limbs and bits, from the lowest or from the highest.\<close>

definition limb_bits :: "u32 \<Rightarrow> bool list" where
  "limb_bits x = map (bit x) [0..<32]"

definition bits_up :: "bigint \<Rightarrow> bool list" where
  "bits_up v = concat (map limb_bits (take (bi_length v) (bi_limbs v)))"

definition bits_down :: "bigint \<Rightarrow> bool list" where
  "bits_down v = rev (bits_up v)"

definition bigint_mod_reduce :: "bigint option \<Rightarrow> bigint option \<Rightarrow> bigint option \<Rightarrow> rc \<times> bigint option" where
  "bigint_mod_reduce output input modulus =
     (case (output, input, modulus) of
        (Some w, Some v, Some m) \<Rightarrow>
          if bi_length m = 0 \<or> bi_capacity w < bi_length m then (- 1, output)
          else (0, Some (foldl (\<lambda>r. bigint_mod_shift_add r m) (bigint_zero w) (bits_down v)))
      | _ \<Rightarrow> (- 1, output))"

definition bigint_mod_add :: "bigint \<Rightarrow> bigint \<Rightarrow> bigint \<Rightarrow> bigint \<Rightarrow> rc \<times> bigint" where
  "bigint_mod_add output left right m =
     (if bi_capacity output < bi_length m then (- 1, output)
      else (case add_loop (limb left) (limb right) (bi_length m) (bi_limbs output) of
         (limbs, carry) \<Rightarrow> (0, mod_correct (carry \<noteq> 0) limbs m)))"

text \<open>Double and add, from the lowest bit of the right operand.\<close>

fun mod_mul_loop :: "bigint \<Rightarrow> bool list \<Rightarrow> bigint \<Rightarrow> bigint \<Rightarrow> rc \<times> bigint \<times> bigint" where
  "mod_mul_loop m [] out tmp = (0, out, tmp)"
| "mod_mul_loop m (b # bs) out tmp =
     (case (if b then bigint_mod_add out out tmp m else (0, out)) of
        (v, out1) \<Rightarrow>
          if v \<noteq> 0 then (- 3, out1, tmp)
          else (case bigint_mod_add tmp tmp tmp m of
             (v', tmp1) \<Rightarrow> if v' \<noteq> 0 then (- 4, out1, tmp1) else mod_mul_loop m bs out1 tmp1))"

definition bigint_mod_multiply ::
    "bigint option \<Rightarrow> bigint option \<Rightarrow> bigint option \<Rightarrow> bigint option \<Rightarrow> bigint option \<Rightarrow> rc \<times> bigint option" where
  "bigint_mod_multiply output left right modulus temporary =
     (case (output, left, right, modulus, temporary) of
        (Some w, Some l, Some r, Some m, Some t) \<Rightarrow>
          if bi_capacity w < bi_length m \<or> bi_capacity t < bi_length m then (- 1, output)
          else (case bigint_mod_reduce temporary left modulus of
             (v, Some t1) \<Rightarrow>
               if v \<noteq> 0 then (- 2, Some (bigint_zero w))
               else (case mod_mul_loop m (bits_up r) (bigint_zero w) t1 of (v', out, _) \<Rightarrow> (v', Some out))
           | (v, None) \<Rightarrow> (- 2, Some (bigint_zero w)))
      | _ \<Rightarrow> (- 1, output))"

subsection \<open>Fixed width\<close>

text \<open>
  The variants without branches on the values; all operands have at least as many limbs as the
  modulus, and the result has exactly as many.
\<close>

definition bigint_mod_add_ct_masked ::
    "bigint option \<Rightarrow> bigint option \<Rightarrow> bigint option \<Rightarrow> bigint option \<Rightarrow> u32 \<Rightarrow> rc \<times> bigint option" where
  "bigint_mod_add_ct_masked output left right modulus msk =
     (case (output, left, right, modulus) of
        (Some w, Some l, Some r, Some m) \<Rightarrow>
          if bi_length m = 0 \<or> bi_capacity w < bi_length m \<or> bi_capacity l < bi_length m \<or> bi_capacity r < bi_length m then (- 1, output)
          else (case add_loop ((!) (bi_limbs l)) (\<lambda>i. bi_limbs r ! i AND msk) (bi_length m) (bi_limbs w) of
             (o1, carry) \<Rightarrow> (case sub_loop ((!) o1) ((!) (bi_limbs m)) (bi_length m) o1 of
                (o2, borrow) \<Rightarrow>
                  let keep_sub = ucast carry OR (ucast borrow XOR 1) :: u32; restore_mask = 0 - (keep_sub XOR 1);
                      o3 = fst (add_loop ((!) o2) (\<lambda>i. bi_limbs m ! i AND restore_mask) (bi_length m) o2)
                  in (0, Some \<lparr>bi_limbs = o3, bi_length = bi_length m\<rparr>)))
      | _ \<Rightarrow> (- 1, output))"

definition bigint_mod_add_ct :: "bigint option \<Rightarrow> bigint option \<Rightarrow> bigint option \<Rightarrow> bigint option \<Rightarrow> rc \<times> bigint option" where
  "bigint_mod_add_ct output left right modulus = bigint_mod_add_ct_masked output left right modulus 0xffffffff"

definition bigint_mod_subtract_ct :: "bigint option \<Rightarrow> bigint option \<Rightarrow> bigint option \<Rightarrow> bigint option \<Rightarrow> rc \<times> bigint option" where
  "bigint_mod_subtract_ct output left right modulus =
     (case (output, left, right, modulus) of
        (Some w, Some l, Some r, Some m) \<Rightarrow>
          if bi_length m = 0 \<or> bi_capacity w < bi_length m \<or> bi_capacity l < bi_length m \<or> bi_capacity r < bi_length m then (- 1, output)
          else (case sub_loop ((!) (bi_limbs l)) ((!) (bi_limbs r)) (bi_length m) (bi_limbs w) of
             (o1, borrow) \<Rightarrow>
               let msk = 0 - ucast borrow :: u32;
                   o2 = fst (add_loop ((!) o1) (\<lambda>i. bi_limbs m ! i AND msk) (bi_length m) o1)
               in (0, Some \<lparr>bi_limbs = o2, bi_length = bi_length m\<rparr>))
      | _ \<Rightarrow> (- 1, output))"

fun mod_mul_ct_loop :: "bigint \<Rightarrow> bool list \<Rightarrow> bigint \<Rightarrow> bigint \<Rightarrow> rc \<times> bigint" where
  "mod_mul_ct_loop m [] out tmp = (0, out)"
| "mod_mul_ct_loop m (b # bs) out tmp =
     (case bigint_mod_add_ct_masked (Some out) (Some out) (Some tmp) (Some m) (0 - of_bool b) of
        (v, Some out1) \<Rightarrow>
          if v \<noteq> 0 then (- 2, out1)
          else (case bigint_mod_add_ct (Some tmp) (Some tmp) (Some tmp) (Some m) of
             (v', Some tmp1) \<Rightarrow> if v' \<noteq> 0 then (- 3, out1) else mod_mul_ct_loop m bs out1 tmp1
           | (v', None) \<Rightarrow> (- 3, out1))
      | (v, None) \<Rightarrow> (- 2, out))"

text \<open>The lower limbs of an array replaced by those of another.\<close>

definition load_limbs :: "nat \<Rightarrow> (nat \<Rightarrow> u32) \<Rightarrow> u32 list \<Rightarrow> u32 list" where
  "load_limbs n f xs = map f [0..<n] @ drop n xs"

definition bigint_mod_multiply_ct ::
    "bigint option \<Rightarrow> bigint option \<Rightarrow> bigint option \<Rightarrow> bigint option \<Rightarrow> bigint option \<Rightarrow> rc \<times> bigint option" where
  "bigint_mod_multiply_ct output left right modulus temporary =
     (case (output, left, right, modulus, temporary) of
        (Some w, Some l, Some r, Some m, Some t) \<Rightarrow>
          let n = bi_length m
          in if n = 0 \<or> bi_capacity w < n \<or> bi_capacity l < n \<or> bi_capacity r < n \<or> bi_capacity t < n then (- 1, output)
             else (case mod_mul_ct_loop m (bits_up \<lparr>bi_limbs = bi_limbs r, bi_length = n\<rparr>)
                     \<lparr>bi_limbs = load_limbs n (\<lambda>_. 0) (bi_limbs w), bi_length = n\<rparr>
                     \<lparr>bi_limbs = load_limbs n ((!) (bi_limbs l)) (bi_limbs t), bi_length = n\<rparr> of
                (v, out) \<Rightarrow> (v, Some out))
      | _ \<Rightarrow> (- 1, output))"

subsection \<open>Montgomery products\<close>

text \<open>\<open>x += a[j] * b_i + t[j]; t[j] = (uint32_t)x; x >>= 32;\<close>\<close>

primrec mont_row :: "u32 list \<Rightarrow> u32 \<Rightarrow> nat \<Rightarrow> u32 list \<Rightarrow> u32 list \<times> u64" where
  "mont_row a bi 0 t = (t, 0)"
| "mont_row a bi (Suc j) t =
     (case mont_row a bi j t of
        (t1, x) \<Rightarrow> let y = x + (ucast (a ! j) * ucast bi + ucast (t1 ! j)) in (t1[j := ucast y], drop_bit 32 y))"

text \<open>\<open>x += q * m[j] + t[j]; t[j - 1] = (uint32_t)x; x >>= 32;\<close> for \<open>j\<close> from 1, after the lowest limb.\<close>

primrec mont_reduce :: "u32 list \<Rightarrow> u32 \<Rightarrow> nat \<Rightarrow> u32 list \<Rightarrow> u32 list \<times> u64" where
  "mont_reduce m q 0 t = (t, drop_bit 32 (ucast q * ucast (m ! 0) + ucast (t ! 0)))"
| "mont_reduce m q (Suc j) t =
     (case mont_reduce m q j t of
        (t1, x) \<Rightarrow> let y = x + (ucast q * ucast (m ! Suc j) + ucast (t1 ! Suc j)) in (t1[j := ucast y], drop_bit 32 y))"

definition mont_step :: "u32 list \<Rightarrow> u32 \<Rightarrow> u32 list \<Rightarrow> nat \<Rightarrow> u32 \<Rightarrow> u32 list \<Rightarrow> u32 list" where
  "mont_step a bi m n n0inv t =
     (case mont_row a bi n t of
        (t1, x) \<Rightarrow>
          let y = x + ucast (t1 ! n); t2 = t1[n := ucast y, n + 1 := ucast (drop_bit 32 y)]; q = t2 ! 0 * n0inv
          in (case mont_reduce m q (n - 1) t2 of
                (t3, z) \<Rightarrow>
                  let z1 = z + ucast (t3 ! n) in t3[n - 1 := ucast z1, n := t3 ! (n + 1) + ucast (drop_bit 32 z1)]))"

primrec mont_loop :: "u32 list \<Rightarrow> u32 list \<Rightarrow> u32 list \<Rightarrow> nat \<Rightarrow> u32 \<Rightarrow> nat \<Rightarrow> u32 list" where
  "mont_loop a b m n n0inv 0 = replicate (n + 2) 0"
| "mont_loop a b m n n0inv (Suc i) = mont_step a (b ! i) m n n0inv (mont_loop a b m n n0inv i)"

primrec mont_sub :: "u32 list \<Rightarrow> u32 list \<Rightarrow> nat \<Rightarrow> u32 list \<times> u32" where
  "mont_sub t m 0 = ([], 0)"
| "mont_sub t m (Suc i) =
     (case mont_sub t m i of
        (r, borrow) \<Rightarrow> let x = ucast (t ! i) - ucast (m ! i) - ucast borrow :: u64 in (r @ [ucast x], ucast (drop_bit 63 x)))"

definition mont_mul :: "u32 list \<Rightarrow> u32 list \<Rightarrow> u32 list \<Rightarrow> nat \<Rightarrow> u32 \<Rightarrow> u32 list" where
  "mont_mul a b m n n0inv =
     (let t = mont_loop a b m n n0inv n
      in (case mont_sub t m n of
            (r, borrow) \<Rightarrow>
              let msk = 0 - ((t ! n OR (borrow XOR 1)) AND 1) in map (\<lambda>i. (r ! i AND msk) OR (t ! i AND NOT msk)) [0..<n]))"

subsection \<open>Exponentiation\<close>

definition mont_n0inv :: "u32 \<Rightarrow> u32" where
  "mont_n0inv m0 = 0 - ((\<lambda>x. x * (2 - m0 * x)) ^^ 5) 1"

text \<open>\<open>current\<close> becomes the base times \<open>2^(32 n)\<close>, by \<open>32 n\<close> doublings.\<close>

primrec double_loop :: "bigint \<Rightarrow> nat \<Rightarrow> bigint \<Rightarrow> rc \<times> bigint" where
  "double_loop m 0 cur = (0, cur)"
| "double_loop m (Suc k) cur =
     (case bigint_mod_add_ct (Some cur) (Some cur) (Some cur) (Some m) of
        (v, Some cur1) \<Rightarrow> if v \<noteq> 0 then (- 2, cur1) else double_loop m k cur1
      | (v, None) \<Rightarrow> (- 2, cur))"

text \<open>One bit of the exponent; the result is \<open>None\<close> until the first bit that is set.\<close>

definition mont_exp_bit :: "u32 list \<Rightarrow> nat \<Rightarrow> u32 \<Rightarrow> u32 list \<Rightarrow> u32 list option \<Rightarrow> bool \<Rightarrow> u32 list option" where
  "mont_exp_bit m n n0inv current result b =
     (case result of
        None \<Rightarrow> if b then Some current else None
      | Some r \<Rightarrow>
          let s = mont_mul r r m n n0inv in Some (if b then mont_mul s current m n n0inv else s))"

definition bigint_modexp_mont :: "bigint \<Rightarrow> bigint \<Rightarrow> bigint \<Rightarrow> bigint \<Rightarrow> rc \<times> bigint" where
  "bigint_modexp_mont output base ex m =
     (let n = bi_length m; n0inv = mont_n0inv (bi_limbs m ! 0)
      in (case bigint_mod_reduce (Some \<lparr>bi_limbs = replicate n 0, bi_length = 0\<rparr>) (Some base) (Some m) of
            (v, Some cur) \<Rightarrow>
              if v \<noteq> 0 then (- 1, output)
              else (case double_loop m (32 * n) \<lparr>bi_limbs = map (limb cur) [0..<n], bi_length = n\<rparr> of
                 (v', cur1) \<Rightarrow>
                   if v' \<noteq> 0 then (- 2, output)
                   else (case foldl (mont_exp_bit (bi_limbs m) n n0inv (bi_limbs cur1)) None (bits_down ex) of
                      None \<Rightarrow>
                        (0, if n = 1 \<and> bi_limbs m ! 0 = 1 then bigint_zero output
                            else \<lparr>bi_limbs = (bi_limbs (bigint_zero output))[0 := 1], bi_length = 1\<rparr>)
                    | Some r \<Rightarrow>
                        (0, bigint_normalize \<lparr>bi_limbs = load_limbs n
                              ((!) (mont_mul r (1 # replicate (n - 1) 0) (bi_limbs m) n n0inv)) (bi_limbs (bigint_zero output)),
                              bi_length = n\<rparr>)))
          | (v, None) \<Rightarrow> (- 1, output)))"

abbreviation (input) BIGINT_MONT_MAX_LIMBS :: nat where "BIGINT_MONT_MAX_LIMBS \<equiv> 128"

definition bigint_mont_ok :: "bigint \<Rightarrow> bool" where
  "bigint_mont_ok m \<longleftrightarrow> bi_length m \<ge> 1 \<and> bi_length m \<le> BIGINT_MONT_MAX_LIMBS \<and> bi_limbs m ! 0 AND 1 \<noteq> 0 \<and>
     bi_limbs m ! (bi_length m - 1) \<noteq> 0"

text \<open>
  The path for the other moduli. The four numbers of the workspace are \<open>result\<close>, \<open>current\<close>,
  \<open>product\<close> and \<open>temporary\<close>; \<open>product\<close> and \<open>temporary\<close> are overwritten by every product.
\<close>

definition blank_number :: "nat \<Rightarrow> bigint" where
  "blank_number n = \<lparr>bi_limbs = replicate n 0, bi_length = 0\<rparr>"

definition first_result :: "bigint \<Rightarrow> bigint" where
  "first_result m =
     (if bi_length m = 1 \<and> bi_limbs m ! 0 = 1 then blank_number (bi_length m)
      else \<lparr>bi_limbs = (replicate (bi_length m) 0)[0 := 1], bi_length = 1\<rparr>)"

text \<open>\<open>result = result * factor mod m\<close>, through \<open>product\<close>.\<close>

definition times_mod :: "bigint \<Rightarrow> bigint \<Rightarrow> bigint \<Rightarrow> bigint option" where
  "times_mod m result factor =
     (case bigint_mod_multiply (Some (blank_number (bi_length m))) (Some result) (Some factor) (Some m) (Some (blank_number (bi_length m))) of
        (v, Some p) \<Rightarrow> if v \<noteq> 0 then None else Some (bigint_copy result p)
      | (v, None) \<Rightarrow> None)"

definition exp_bit :: "bigint \<Rightarrow> bigint \<Rightarrow> bool \<Rightarrow> bool \<Rightarrow> rc + bigint \<Rightarrow> rc + bigint" where
  "exp_bit m current square b st =
     (case st of
        Inl v \<Rightarrow> Inl v
      | Inr r \<Rightarrow> (case (if square then times_mod m r r else Some r) of
           None \<Rightarrow> Inl (- 5)
         | Some r1 \<Rightarrow> if b then (case times_mod m r1 current of None \<Rightarrow> Inl (- 6) | Some r2 \<Rightarrow> Inr r2) else Inr r1))"

text \<open>The bits of the top limb start at its highest set bit, which is not preceded by a squaring.\<close>

definition exp_loop :: "bigint \<Rightarrow> bigint \<Rightarrow> bigint \<Rightarrow> rc + bigint \<Rightarrow> rc + bigint" where
  "exp_loop m current ex st =
     (if bi_length ex = 0 then st
      else
        let top = dropWhile Not (rev (limb_bits (bi_limbs ex ! (bi_length ex - 1))));
            st1 = (case top of [] \<Rightarrow> st | b # bs \<Rightarrow> foldl (\<lambda>s c. exp_bit m current True c s) (exp_bit m current False b st) bs)
        in foldl (\<lambda>s c. exp_bit m current True c s) st1 (bits_down (ex\<lparr>bi_length := bi_length ex - 1\<rparr>)))"

definition store_result :: "bigint \<Rightarrow> bigint \<Rightarrow> bigint" where
  "store_result output result =
     \<lparr>bi_limbs = load_limbs (bi_length result) ((!) (bi_limbs result)) (bi_limbs (bigint_zero output)), bi_length = bi_length result\<rparr>"

definition modexp_plain :: "bigint \<Rightarrow> bigint \<Rightarrow> bigint \<Rightarrow> bigint \<Rightarrow> rc \<times> bigint" where
  "modexp_plain output base ex m =
     (case bigint_mod_reduce (Some (blank_number (bi_length m))) (Some base) (Some m) of
        (v, Some cur) \<Rightarrow>
          if v \<noteq> 0 then (- 4, output)
          else (case exp_loop m cur ex (Inr (first_result m)) of
             Inl v' \<Rightarrow> (v', output)
           | Inr r \<Rightarrow> (0, store_result output r))
      | (v, None) \<Rightarrow> (- 4, output))"

text \<open>
  The workspace is four arrays of the length of the modulus; the comparison of its size is one of
  16-bit numbers. The offsets of the arrays are 16-bit numbers too, so the arrays are separate, as they
  are here, for a modulus of fewer than 16384 limbs.
\<close>

definition bigint_modexp ::
    "bigint option \<Rightarrow> bigint option \<Rightarrow> bigint option \<Rightarrow> bigint option \<Rightarrow> u32 list option \<Rightarrow> nat \<Rightarrow> rc \<times> bigint option" where
  "bigint_modexp output base ex modulus workspace workspace_length =
     (case (output, base, ex, modulus, workspace) of
        (Some w, Some b, Some e, Some m, Some _) \<Rightarrow>
          if bi_length m = 0 then (- 1, output)
          else if bi_capacity w < bi_length m \<or> workspace_length < 4 * bi_length m mod 65536 then (- 2, output)
          else if bigint_mont_ok m then (case bigint_modexp_mont w b e m of (v, out) \<Rightarrow> (if v = 0 then 0 else - 4, Some out))
          else (case modexp_plain w b e m of (v, out) \<Rightarrow> (v, Some out))
      | _ \<Rightarrow> (- 1, output))"

text \<open>The variant for short exponents works from the lowest bit.\<close>

function u32_loop :: "bigint \<Rightarrow> u32 \<Rightarrow> bigint \<Rightarrow> bigint \<Rightarrow> rc + bigint" where
  "u32_loop m ex result current =
     (if ex = 0 then Inr result
      else (case (if ex AND 1 \<noteq> 0 then times_mod m result current else Some result) of
         None \<Rightarrow> Inl (- 5)
       | Some r \<Rightarrow>
           if drop_bit 1 ex \<noteq> 0
           then (case times_mod m current current of None \<Rightarrow> Inl (- 6) | Some c \<Rightarrow> u32_loop m (drop_bit 1 ex) r c)
           else Inr r))"
  by pat_completeness auto

lemma unat_half: "unat (drop_bit (Suc 0) (x :: u32)) = unat x div 2"
  using unat_drop_bit_eq [of 1 x] by (simp add: drop_bit_eq_div)

termination u32_loop
  by (relation "measure (\<lambda>(m, ex, r, c). unat ex)") (auto simp: unat_half unat_gt_0)

definition bigint_modexp_u32 ::
    "bigint option \<Rightarrow> bigint option \<Rightarrow> u32 \<Rightarrow> bigint option \<Rightarrow> u32 list option \<Rightarrow> nat \<Rightarrow> rc \<times> bigint option" where
  "bigint_modexp_u32 output base ex modulus workspace workspace_length =
     (case (output, base, modulus, workspace) of
        (Some w, Some b, Some m, Some _) \<Rightarrow>
          if bi_length m = 0 then (- 1, output)
          else if bi_capacity w < bi_length m \<or> workspace_length < 4 * bi_length m mod 65536 then (- 2, output)
          else if bigint_mont_ok m
          then (case bigint_modexp_mont w b \<lparr>bi_limbs = [ex], bi_length = 1\<rparr> m of (v, out) \<Rightarrow> (if v = 0 then 0 else - 4, Some out))
          else (case bigint_mod_reduce (Some (blank_number (bi_length m))) (Some b) (Some m) of
             (v, Some cur) \<Rightarrow>
               if v \<noteq> 0 then (- 4, output)
               else (case u32_loop m ex (first_result m) cur of
                  Inl v' \<Rightarrow> (v', output)
                | Inr r \<Rightarrow> (0, Some (store_result w r)))
           | (v, None) \<Rightarrow> (- 4, output))
      | _ \<Rightarrow> (- 1, output))"

end
