(* ===== verification/Bigint_Correct.thy ===== *)
theory Bigint_Correct
  imports Bigint
begin

text \<open>
  The arithmetic of \<open>Bigint\<close> computes on the values: \<open>big_value\<close> is the number that the limbs in use
  stand for, and every operation is shown to give the sum, difference, product, remainder or power of
  these values, with no overflow of the 64-bit intermediate results.
\<close>

subsection \<open>Values\<close>

definition dval :: "(nat \<Rightarrow> u32) \<Rightarrow> nat \<Rightarrow> nat" where
  "dval f n = (\<Sum>i<n. unat (f i) * 2 ^ (32 * i))"

definition big_value :: "bigint \<Rightarrow> nat" where
  "big_value v = dval ((!) (bi_limbs v)) (bi_length v)"

lemma dval_simps [simp]: "dval f 0 = 0" "dval f (Suc n) = dval f n + unat (f n) * 2 ^ (32 * n)"
  by (simp_all add: dval_def)

lemma u32_bound: "unat (x :: u32) < 2 ^ 32"
proof -
  have "unat x < 2 ^ LENGTH(32)" by (rule unsigned_less)
  then show ?thesis by simp
qed

lemma dval_bound: "dval f n < 2 ^ (32 * n)"
proof (induction n)
  case (Suc n)
  have "(unat (f n) + 1) * 2 ^ (32 * n) \<le> 2 ^ 32 * 2 ^ (32 * n)" using u32_bound [of "f n"] by (intro mult_right_mono) simp_all
  then have "unat (f n) * 2 ^ (32 * n) + 2 ^ (32 * n) \<le> 2 ^ 32 * 2 ^ (32 * n)" by (simp only: add_mult_distrib mult_1)
  with Suc have "dval f (Suc n) < 2 ^ 32 * 2 ^ (32 * n)" unfolding dval_simps by linarith
  then show ?case by (simp add: power_add)
qed simp

lemma dval_cong: "(\<And>i. i < n \<Longrightarrow> f i = g i) \<Longrightarrow> dval f n = dval g n"
  by (simp add: dval_def)

lemma dval_extend: "n \<le> m \<Longrightarrow> (\<And>i. n \<le> i \<Longrightarrow> i < m \<Longrightarrow> f i = 0) \<Longrightarrow> dval f m = dval f n"
  by (induction m) (auto simp: le_Suc_eq)

subsection \<open>Double-width arithmetic\<close>

lemma unat_up: "unat (ucast (x :: u32) :: u64) = unat x"
proof -
  have "unat (ucast x :: u64) = take_bit 64 (unat x)" by (simp add: unsigned_ucast_eq)
  then show ?thesis using u32_bound [of x] by (simp add: take_bit_nat_eq_self)
qed

lemma unat_high: "unat (drop_bit k (s :: u64)) = unat s div 2 ^ k"
proof -
  have "unat (drop_bit k s) = drop_bit k (unat s)" by (rule unat_drop_bit_eq)
  also have "\<dots> = unat s div 2 ^ k" by (rule drop_bit_eq_div)
  finally show ?thesis .
qed

lemma split64: "unat (ucast (s :: u64) :: u32) + 2 ^ 32 * unat (drop_bit 32 s) = unat s"
proof -
  have "unat (ucast s :: u32) = unat s mod 2 ^ 32" by (simp add: unsigned_ucast_eq take_bit_eq_mod)
  moreover have "unat (drop_bit 32 s) = unat s div 2 ^ 32" by (rule unat_high)
  ultimately show ?thesis by presburger
qed

lemma high_bound: "unat (drop_bit 32 (s :: u64)) < 2 ^ 32"
proof -
  have "unat s < 2 ^ LENGTH(64)" by (rule unsigned_less)
  then have "unat s div 2 ^ 32 < 2 ^ 32" by (simp add: less_mult_imp_div_less)
  then show ?thesis unfolding unat_high .
qed

lemma unat_add64: "unat a + unat b < 2 ^ 64 \<Longrightarrow> unat (a + b :: u64) = unat a + unat b"
  by (simp add: unat_word_ariths)

lemma mac64:
  assumes "unat c < 2 ^ 32"
  shows "unat (ucast (x :: u32) * ucast (y :: u32) + ucast (z :: u32) + c :: u64) = unat x * unat y + unat z + unat c"
proof -
  have "unat x * unat y \<le> (2 ^ 32 - 1) * (2 ^ 32 - 1)" using u32_bound [of x] u32_bound [of y] by (intro mult_le_mono) simp_all
  with assms u32_bound [of z] have b: "unat x * unat y + unat z + unat c < 2 ^ 64" by simp
  then have m: "unat (ucast x * ucast y :: u64) = unat x * unat y" by (simp add: unat_word_ariths unat_up)
  with b have a: "unat (ucast x * ucast y + ucast z :: u64) = unat x * unat y + unat z" by (simp add: unat_add64 unat_up)
  show ?thesis using b by (subst unat_add64) (simp_all add: a)
qed

subsection \<open>Carry and borrow chains\<close>

lemma add_loop_correct:
  assumes "n \<le> length out" and "add_loop f g n out = (out', c)"
  shows "length out' = length out \<and> (\<forall>i. n \<le> i \<longrightarrow> out' ! i = out ! i) \<and> unat c \<le> 1 \<and>
    dval ((!) out') n + unat c * 2 ^ (32 * n) = dval f n + dval g n"
  using assms
proof (induction n arbitrary: out' c)
  case (Suc n)
  obtain o1 c1 where r: "add_loop f g n out = (o1, c1)" by fastforce
  note ih = Suc.IH [OF _ r]
  define s where "s = c1 + ucast (f n) + ucast (g n)"
  have res: "out' = o1[n := ucast s]" "c = drop_bit 32 s" using Suc.prems(2) by (simp_all add: r s_def Let_def)
  have c1: "unat c1 \<le> 1" using ih Suc.prems(1) by simp
  have "unat (c1 + ucast (f n)) = unat c1 + unat (f n)"
    using c1 u32_bound [of "f n"] by (subst unat_add64) (simp_all add: unat_up)
  then have us: "unat s = unat c1 + unat (f n) + unat (g n)"
    unfolding s_def using c1 u32_bound [of "f n"] u32_bound [of "g n"] by (subst unat_add64) (simp_all add: unat_up)
  have sp: "unat (ucast s :: u32) + 2 ^ 32 * unat c = unat c1 + unat (f n) + unat (g n)" using split64 [of s] us res(2) by simp
  have "unat c \<le> 1" using sp c1 u32_bound [of "f n"] u32_bound [of "g n"] by simp
  moreover have "dval ((!) out') n = dval ((!) o1) n" by (rule dval_cong) (simp add: res)
  then have "dval ((!) out') (Suc n) + unat c * 2 ^ (32 * Suc n) =
      dval ((!) o1) n + (unat (ucast s :: u32) + 2 ^ 32 * unat c) * 2 ^ (32 * n)"
    using Suc.prems(1) ih by (simp add: res(1) power_add algebra_simps)
  then have "dval ((!) out') (Suc n) + unat c * 2 ^ (32 * Suc n) = dval f (Suc n) + dval g (Suc n)"
    unfolding sp using ih Suc.prems(1) by (simp add: algebra_simps)
  ultimately show ?case using ih Suc.prems(1) by (simp add: res(1))
qed simp

lemma sub_step:
  fixes x y :: u32 and b :: u64
  assumes "unat b \<le> 1"
  defines "r \<equiv> ucast y + b" and "d \<equiv> ucast x :: u64"
  shows "unat (ucast (d - r) :: u32) + unat y + unat b = unat x + 2 ^ 32 * of_bool (d < r)"
proof -
  have ur: "unat r = unat y + unat b" unfolding r_def using assms(1) u32_bound [of y] by (subst unat_add64) (simp_all add: unat_up)
  have ud: "unat d = unat x" by (simp add: d_def unat_up)
  have lt: "d < r \<longleftrightarrow> unat x < unat y + unat b" by (simp add: word_less_nat_alt ur ud)
  have dr: "unat (d - r) = (if unat y + unat b \<le> unat x then unat x - (unat y + unat b) else unat x + 2 ^ 64 - (unat y + unat b))"
    using ur ud by (simp add: unat_sub_if')
  have "unat (ucast (d - r) :: u32) = unat (d - r) mod 2 ^ 32" by (simp add: unsigned_ucast_eq take_bit_eq_mod)
  moreover have "unat (d - r) mod 2 ^ 32 + (unat y + unat b) = unat x + 2 ^ 32 * of_bool (d < r)"
  proof (cases "unat y + unat b \<le> unat x")
    case True
    then show ?thesis using dr lt u32_bound [of x] by simp
  next
    case False
    have "unat x + 2 ^ 64 - (unat y + unat b) = (2 ^ 32 - 1) * 2 ^ 32 + (unat x + 2 ^ 32 - (unat y + unat b))"
      using assms(1) u32_bound [of y] by simp
    then have "unat (d - r) = (2 ^ 32 - 1) * 2 ^ 32 + (unat x + 2 ^ 32 - (unat y + unat b))" using dr False by simp
    then have "unat (d - r) mod 2 ^ 32 = (unat x + 2 ^ 32 - (unat y + unat b)) mod 2 ^ 32" by (metis mod_mult_self3)
    also have "\<dots> = unat x + 2 ^ 32 - (unat y + unat b)" using False by (intro mod_less) simp
    finally show ?thesis using lt False assms(1) u32_bound [of y] by simp
  qed
  ultimately show ?thesis by simp
qed

lemma sub_loop_correct:
  assumes "n \<le> length out" and "sub_loop f g n out = (out', b)"
  shows "length out' = length out \<and> (\<forall>i. n \<le> i \<longrightarrow> out' ! i = out ! i) \<and> unat b \<le> 1 \<and>
    dval ((!) out') n + dval g n = dval f n + unat b * 2 ^ (32 * n)"
  using assms
proof (induction n arbitrary: out' b)
  case (Suc n)
  obtain o1 b1 where r: "sub_loop f g n out = (o1, b1)" by fastforce
  note ih = Suc.IH [OF _ r]
  define x :: u32 where "x = ucast (ucast (f n) - (ucast (g n) + b1) :: u64)"
  have res: "out' = o1[n := x]" "b = (if ucast (f n) < ucast (g n) + b1 then 1 else 0)"
    using Suc.prems(2) by (simp_all add: r x_def Let_def)
  have st: "unat x + unat (g n) + unat b1 = unat (f n) + 2 ^ 32 * unat b"
    using sub_step [of b1 "f n" "g n"] ih Suc.prems(1) by (simp add: x_def res(2))
  have "dval ((!) out') n = dval ((!) o1) n" by (rule dval_cong) (simp add: res)
  then have "dval ((!) out') (Suc n) + dval g (Suc n) + unat b1 * 2 ^ (32 * n) =
      (dval ((!) o1) n + dval g n) + (unat x + unat (g n) + unat b1) * 2 ^ (32 * n)"
    using Suc.prems(1) ih by (simp add: res(1) algebra_simps)
  also have "\<dots> = dval f n + unat b1 * 2 ^ (32 * n) + (unat (f n) + 2 ^ 32 * unat b) * 2 ^ (32 * n)"
    unfolding st using ih Suc.prems(1) by simp
  finally have "dval ((!) out') (Suc n) + dval g (Suc n) = dval f (Suc n) + unat b * 2 ^ (32 * Suc n)"
    by (simp add: power_add algebra_simps)
  then show ?case using ih Suc.prems(1) res by simp
qed simp

lemma compare_loop_correct:
  "compare_loop l r n = (if dval ((!) l) n < dval ((!) r) n then - 1 else if dval ((!) l) n = dval ((!) r) n then 0 else 1)"
proof (induction n)
  case (Suc n)
  have top: "dval f n + unat (f n) * 2 ^ (32 * n) < dval g n + unat (g n) * 2 ^ (32 * n)" if "unat (f n) < unat (g n)" for f g
  proof -
    have "(unat (f n) + 1) * 2 ^ (32 * n) \<le> unat (g n) * 2 ^ (32 * n)" using that by (intro mult_right_mono) simp_all
    then show ?thesis using dval_bound [of f n] by simp
  qed
  show ?case
    using Suc top [of "(!) l" "(!) r"] top [of "(!) r" "(!) l"] by (cases "l ! n" "r ! n" rule: linorder_cases) (auto simp: word_less_nat_alt)
qed simp

subsection \<open>Well-formed numbers\<close>

text \<open>The type of a number: within its array, and without leading zero limbs.\<close>

definition bigint_ok :: "bigint \<Rightarrow> bool" where
  "bigint_ok v \<longleftrightarrow> bi_length v \<le> bi_capacity v \<and> (bi_length v > 0 \<longrightarrow> bi_limbs v ! (bi_length v - 1) \<noteq> 0)"

text \<open>A number of \<open>n\<close> significant limbs at most, all limbs of the array above them zero.\<close>

definition clean :: "bigint \<Rightarrow> bool" where
  "clean v \<longleftrightarrow> bi_length v \<le> bi_capacity v \<and> (\<forall>i. bi_length v \<le> i \<and> i < bi_capacity v \<longrightarrow> bi_limbs v ! i = 0)"

lemma clean_value: "clean v \<Longrightarrow> bi_length v \<le> n \<Longrightarrow> n \<le> bi_capacity v \<Longrightarrow> dval ((!) (bi_limbs v)) n = big_value v"
  unfolding big_value_def by (rule dval_extend) (auto simp: clean_def)

lemma limb_value: "bi_length v \<le> n \<Longrightarrow> dval (limb v) n = big_value v"
proof -
  assume "bi_length v \<le> n"
  then have "dval (limb v) n = dval (limb v) (bi_length v)" by (rule dval_extend) (simp add: limb_def)
  also have "\<dots> = big_value v" unfolding big_value_def by (rule dval_cong) (simp add: limb_def)
  finally show ?thesis .
qed

lemma normal_length:
  "normal_length xs n \<le> n" "normal_length xs n \<le> i \<Longrightarrow> i < n \<Longrightarrow> xs ! i = 0"
  "normal_length xs n > 0 \<Longrightarrow> xs ! (normal_length xs n - 1) \<noteq> 0" "dval ((!) xs) (normal_length xs n) = dval ((!) xs) n"
  by (induction n) (auto simp: less_Suc_eq split: if_splits)

lemma normalize_facts:
  assumes "bi_length v \<le> bi_capacity v"
  shows "bigint_ok (bigint_normalize v)" "big_value (bigint_normalize v) = big_value v"
    "bi_capacity (bigint_normalize v) = bi_capacity v" "bi_limbs (bigint_normalize v) = bi_limbs v"
    "bi_length (bigint_normalize v) \<le> bi_length v" "clean v \<Longrightarrow> clean (bigint_normalize v)"
proof -
  note n = normal_length [where xs = "bi_limbs v" and n = "bi_length v"]
  show "bigint_ok (bigint_normalize v)" "big_value (bigint_normalize v) = big_value v" "bi_capacity (bigint_normalize v) = bi_capacity v"
    "bi_limbs (bigint_normalize v) = bi_limbs v" "bi_length (bigint_normalize v) \<le> bi_length v"
    using assms n(1,3,4) by (auto simp: bigint_ok_def bigint_normalize_def big_value_def bi_capacity_def)
  show "clean (bigint_normalize v)" if "clean v"
    unfolding clean_def
  proof (intro conjI allI impI)
    show "bi_length (bigint_normalize v) \<le> bi_capacity (bigint_normalize v)" using assms n(1) by (simp add: bigint_normalize_def bi_capacity_def)
    fix i assume "bi_length (bigint_normalize v) \<le> i \<and> i < bi_capacity (bigint_normalize v)"
    then show "bi_limbs (bigint_normalize v) ! i = 0"
      using that n(2) [of i] by (cases "i < bi_length v") (simp_all add: clean_def bigint_normalize_def bi_capacity_def)
  qed
qed

lemma zero_facts:
  "clean (bigint_zero v)" "bigint_ok (bigint_zero v)" "big_value (bigint_zero v) = 0" "bi_capacity (bigint_zero v) = bi_capacity v"
  "bi_length (bigint_zero v) = 0"
  by (simp_all add: clean_def bigint_ok_def bigint_zero_def bi_capacity_def big_value_def)

lemma ok_value_bounds:
  assumes "bigint_ok v"
  shows "big_value v < 2 ^ (32 * bi_length v)" "bi_length v > 0 \<Longrightarrow> 2 ^ (32 * (bi_length v - 1)) \<le> big_value v"
    "big_value v = 0 \<longleftrightarrow> bi_length v = 0"
proof -
  show "big_value v < 2 ^ (32 * bi_length v)" unfolding big_value_def by (rule dval_bound)
  have low: "2 ^ (32 * (bi_length v - 1)) \<le> big_value v" if n: "bi_length v > 0"
  proof -
    obtain n where n': "bi_length v = Suc n" using n by (cases "bi_length v") auto
    have "unat (bi_limbs v ! n) \<ge> 1" using assms n' by (simp add: bigint_ok_def unat_gt_0 Suc_leI)
    then have "1 * 2 ^ (32 * n) \<le> unat (bi_limbs v ! n) * 2 ^ (32 * n)" by (rule mult_right_mono) simp
    moreover have "big_value v = dval ((!) (bi_limbs v)) n + unat (bi_limbs v ! n) * 2 ^ (32 * n)" by (simp add: big_value_def n')
    ultimately have "2 ^ (32 * n) \<le> big_value v" by linarith
    then show ?thesis using n' by simp
  qed
  then show "bi_length v > 0 \<Longrightarrow> 2 ^ (32 * (bi_length v - 1)) \<le> big_value v" .
  show "big_value v = 0 \<longleftrightarrow> bi_length v = 0"
  proof (cases "bi_length v = 0")
    case False
    then have "(0 :: nat) < 2 ^ (32 * (bi_length v - 1))" "2 ^ (32 * (bi_length v - 1)) \<le> big_value v" using low by simp_all
    with False show ?thesis by linarith
  qed (simp add: big_value_def)
qed

text \<open>Two well-formed numbers with the same value have the same limbs in use.\<close>

lemma dval_inj: "dval f n = dval g n \<Longrightarrow> i < n \<Longrightarrow> f i = g i"
proof (induction n)
  case (Suc n)
  have "unat (f n) = unat (g n)"
  proof -
    have "(dval h n + unat (h n) * 2 ^ (32 * n)) div 2 ^ (32 * n) = unat (h n)" for h
      using dval_bound [of h n] by simp
    from this [of f] this [of g] Suc.prems(1) show ?thesis unfolding dval_simps by metis
  qed
  with Suc show ?case by (cases "i = n") (auto simp: less_Suc_eq word_unat_eq_iff)
qed simp

lemma ok_length_le:
  assumes "bigint_ok v" and "bigint_ok w" and "big_value v \<le> big_value w"
  shows "bi_length v \<le> bi_length w"
proof (rule ccontr)
  assume "\<not> ?thesis"
  then have l: "bi_length v > 0" "bi_length w \<le> bi_length v - 1" by auto
  have "2 ^ (32 * bi_length w) \<le> (2 :: nat) ^ (32 * (bi_length v - 1))" using l(2) by (intro power_increasing) simp_all
  with ok_value_bounds(1) [OF assms(2)] ok_value_bounds(2) [OF assms(1) l(1)] assms(3) show False by linarith
qed

lemma value_unique:
  assumes "bigint_ok v" and "bigint_ok w" and "big_value v = big_value w"
  shows "bi_length v = bi_length w" "take (bi_length v) (bi_limbs v) = take (bi_length w) (bi_limbs w)"
proof -
  show l: "bi_length v = bi_length w" using ok_length_le [OF assms(1,2)] ok_length_le [OF assms(2,1)] assms(3) by simp
  show "take (bi_length v) (bi_limbs v) = take (bi_length w) (bi_limbs w)"
    using dval_inj [of "(!) (bi_limbs v)" "bi_length v" "(!) (bi_limbs w)"] assms l
    by (auto simp: list_eq_iff_nth_eq big_value_def bigint_ok_def bi_capacity_def)
qed

subsection \<open>Comparison, sum, difference\<close>

lemma bigint_compare_correct:
  assumes "bigint_ok l" and "bigint_ok r"
  shows "bigint_compare (Some l) (Some r) = (if big_value l < big_value r then - 1 else if big_value l = big_value r then 0 else 1)"
proof (cases "bi_length l" "bi_length r" rule: linorder_cases)
  case less
  then have "\<not> big_value r \<le> big_value l" using ok_length_le [OF assms(2,1)] by auto
  with less show ?thesis by (simp add: bigint_compare_def)
next
  case greater
  then have "\<not> big_value l \<le> big_value r" using ok_length_le [OF assms(1,2)] by auto
  with greater show ?thesis by (simp add: bigint_compare_def)
next
  case equal
  then show ?thesis by (simp add: bigint_compare_def compare_loop_correct big_value_def)
qed

lemma bigint_add_correct:
  assumes "bi_length l \<le> bi_capacity l" and "bi_length r \<le> bi_capacity r" and "bigint_add (Some w) (Some l) (Some r) = (v, out)"
  shows "(v = 0 \<longrightarrow> (\<exists>s. out = Some s \<and> bigint_ok s \<and> bi_capacity s = bi_capacity w \<and> big_value s = big_value l + big_value r)) \<and>
    (v \<noteq> 0 \<longrightarrow> bi_capacity w < max (bi_length l) (bi_length r) \<or> 2 ^ (32 * bi_capacity w) \<le> big_value l + big_value r)"
proof -
  define n where "n = max (bi_length l) (bi_length r)"
  have mx: "(if bi_length l > bi_length r then bi_length l else bi_length r) = n" by (simp add: n_def)
  obtain o1 c where a: "add_loop (limb l) (limb r) n (bi_limbs w) = (o1, c)" by fastforce
  show ?thesis
  proof (cases "bi_capacity w < n")
    case True
    then show ?thesis using assms(3) by (simp add: bigint_add_def mx n_def)
  next
    case False
    then have cap: "n \<le> length (bi_limbs w)" by (simp add: bi_capacity_def)
    have f: "length o1 = bi_capacity w" "unat c \<le> 1" "dval ((!) o1) n + unat c * 2 ^ (32 * n) = big_value l + big_value r"
      using add_loop_correct [OF cap a] limb_value [of l n] limb_value [of r n] by (simp_all add: n_def bi_capacity_def)
    show ?thesis
    proof (cases "c = 0")
      case True
      have "(v, out) = (0, Some (bigint_normalize \<lparr>bi_limbs = o1, bi_length = n\<rparr>))"
        using assms(3) False True by (simp add: bigint_add_def mx a)
      moreover note normalize_facts [of "\<lparr>bi_limbs = o1, bi_length = n\<rparr>"]
      ultimately show ?thesis using f False True by (simp add: bi_capacity_def big_value_def)
    next
      case c: False
      then have c1: "unat c = 1" using f(2) by (metis le_antisym less_one not_le unat_eq_0)
      then have c1w: "c = 1" by (metis unat_1 word_unat_eq_iff)
      show ?thesis
      proof (cases "n \<ge> bi_capacity w")
        case True
        then have "n = bi_capacity w" using False by simp
        then have "2 ^ (32 * bi_capacity w) \<le> big_value l + big_value r" using f(3) c1 by simp
        then show ?thesis using assms(3) False c True by (simp add: bigint_add_def mx a)
      next
        case fits: False
        have "(v, out) = (0, Some (bigint_normalize \<lparr>bi_limbs = o1[n := 1], bi_length = n + 1\<rparr>))"
          using assms(3) False c fits by (simp add: bigint_add_def mx a c1w)
        moreover have "big_value \<lparr>bi_limbs = o1[n := 1], bi_length = n + 1\<rparr> = big_value l + big_value r"
          using f(1,3) c1 fits dval_cong [of n "(!) (o1[n := 1])" "(!) o1"] by (simp add: big_value_def)
        moreover note normalize_facts [of "\<lparr>bi_limbs = o1[n := 1], bi_length = n + 1\<rparr>"]
        ultimately show ?thesis using f(1) fits by (simp add: bi_capacity_def)
      qed
    qed
  qed
qed

lemma bigint_subtract_correct:
  assumes "bigint_ok l" and "bigint_ok r" and "bigint_subtract (Some w) (Some l) (Some r) = (v, out)"
  shows "(v = 0 \<longleftrightarrow> big_value r \<le> big_value l \<and> bi_length l \<le> bi_capacity w) \<and>
    (v = 0 \<longrightarrow> (\<exists>s. out = Some s \<and> bigint_ok s \<and> bi_capacity s = bi_capacity w \<and> big_value s = big_value l - big_value r)) \<and>
    (v \<noteq> 0 \<longrightarrow> out = Some w)"
proof (cases "big_value r \<le> big_value l \<and> bi_length l \<le> bi_capacity w")
  case True
  let ?n = "bi_length l"
  obtain o1 b where a: "sub_loop (limb l) (limb r) ?n (bi_limbs w) = (o1, b)" by fastforce
  have "\<not> bigint_compare (Some l) (Some r) < 0" using bigint_compare_correct [OF assms(1,2)] True by simp
  then have e: "(v, out) = (0, Some (bigint_normalize \<lparr>bi_limbs = o1, bi_length = ?n\<rparr>))"
    using assms(3) True by (simp add: bigint_subtract_def a)
  have "bi_length r \<le> ?n" by (rule ok_length_le [OF assms(2,1)]) (use True in simp)
  moreover have "?n \<le> length (bi_limbs w)" using True by (simp add: bi_capacity_def)
  ultimately have f: "length o1 = bi_capacity w" "unat b \<le> 1" "dval ((!) o1) ?n + big_value r = big_value l + unat b * 2 ^ (32 * ?n)"
    using sub_loop_correct [OF _ a] limb_value [of l ?n] limb_value [of r ?n] by (simp_all add: bi_capacity_def)
  have "unat b = 0"
  proof (rule ccontr)
    assume "unat b \<noteq> 0"
    with f(2) have "unat b = 1" by simp
    with f(3) True dval_bound [of "(!) o1" ?n] show False by simp
  qed
  then have "dval ((!) o1) ?n = big_value l - big_value r" using f(3) by simp
  then show ?thesis using e normalize_facts [of "\<lparr>bi_limbs = o1, bi_length = ?n\<rparr>"] f(1) True by (simp add: bi_capacity_def big_value_def)
next
  case False
  then have "(v, out) = (- 1, Some w)"
    using assms(3) bigint_compare_correct [OF assms(1,2)] by (auto simp: bigint_subtract_def split: if_splits)
  with False show ?thesis by auto
qed

subsection \<open>Product\<close>

lemma dval_split: "dval f (i + j) = dval f i + 2 ^ (32 * i) * dval (\<lambda>k. f (i + k)) j"
  by (induction j) (simp_all add: power_add algebra_simps)

lemma ucast_low: "unat (c :: u64) < 2 ^ 32 \<Longrightarrow> unat (ucast c :: u32) = unat c"
  by (simp add: unsigned_ucast_eq take_bit_nat_eq_self)

lemma mul_row_correct:
  assumes "i + j \<le> length out" and "mul_row x right i j out = (out', c)"
  shows "length out' = length out \<and> (\<forall>k. k < i \<or> i + j \<le> k \<longrightarrow> out' ! k = out ! k) \<and> unat c < 2 ^ 32 \<and>
    dval (\<lambda>k. out' ! (i + k)) j + unat c * 2 ^ (32 * j) = dval (\<lambda>k. out ! (i + k)) j + unat x * dval ((!) right) j"
  using assms
proof (induction j arbitrary: out' c)
  case (Suc j)
  obtain o1 c1 where r: "mul_row x right i j out = (o1, c1)" by fastforce
  note ih = Suc.IH [OF _ r]
  define p where "p = ucast x * ucast (right ! j) + ucast (o1 ! (i + j)) + c1"
  have res: "out' = o1[i + j := ucast p]" "c = drop_bit 32 p" using Suc.prems(2) by (simp_all add: r p_def Let_def)
  have "o1 ! (i + j) = out ! (i + j)" using ih Suc.prems(1) by simp
  then have up: "unat p = unat x * unat (right ! j) + unat (out ! (i + j)) + unat c1"
    unfolding p_def using ih Suc.prems(1) by (subst mac64) simp_all
  have sp: "unat (ucast p :: u32) + 2 ^ 32 * unat c = unat x * unat (right ! j) + unat (out ! (i + j)) + unat c1"
    using split64 [of p] up res(2) by simp
  have "dval (\<lambda>k. out' ! (i + k)) j = dval (\<lambda>k. o1 ! (i + k)) j" by (rule dval_cong) (simp add: res)
  then have "dval (\<lambda>k. out' ! (i + k)) (Suc j) + unat c * 2 ^ (32 * Suc j) =
      dval (\<lambda>k. o1 ! (i + k)) j + (unat (ucast p :: u32) + 2 ^ 32 * unat c) * 2 ^ (32 * j)"
    using Suc.prems(1) ih by (simp add: res(1) power_add algebra_simps)
  also have "\<dots> = dval (\<lambda>k. out ! (i + k)) (Suc j) + unat x * dval ((!) right) (Suc j)"
    unfolding sp using ih Suc.prems(1) by (simp add: algebra_simps)
  finally show ?case using ih Suc.prems(1) high_bound [of p] by (simp add: res)
qed simp

lemma mul_loop_correct:
  assumes "i + n \<le> length out" and "\<forall>k<length out. out ! k = 0"
  shows "length (mul_loop left right n i out) = length out \<and> (\<forall>k<length out. i + n \<le> k \<longrightarrow> mul_loop left right n i out ! k = 0) \<and>
    dval ((!) (mul_loop left right n i out)) (i + n) = dval ((!) left) i * dval ((!) right) n"
  using assms(1)
proof (induction i)
  case 0
  have "dval ((!) out) n = 0" using dval_extend [of 0 n "(!) out"] assms(2) 0 by simp
  then show ?case using assms(2) by simp
next
  case (Suc i)
  let ?o = "mul_loop left right n i out"
  obtain o1 c where r: "mul_row (left ! i) right i n ?o = (o1, c)" by fastforce
  have ih: "length ?o = length out" "\<And>k. k < length out \<Longrightarrow> i + n \<le> k \<Longrightarrow> ?o ! k = 0"
    "dval ((!) ?o) (i + n) = dval ((!) left) i * dval ((!) right) n" using Suc by simp_all
  have f: "length o1 = length out" "\<And>k. k < i \<or> i + n \<le> k \<Longrightarrow> o1 ! k = ?o ! k" "unat c < 2 ^ 32"
    "dval (\<lambda>k. o1 ! (i + k)) n + unat c * 2 ^ (32 * n) = dval (\<lambda>k. ?o ! (i + k)) n + unat (left ! i) * dval ((!) right) n"
    using mul_row_correct [OF _ r] Suc.prems ih(1) by auto
  let ?q = "o1[i + n := ucast c]"
  have q: "mul_loop left right n (Suc i) out = ?q" by (simp add: r)
  have "dval ((!) ?q) (i + n) = dval ((!) o1) (i + n)" by (rule dval_cong) simp
  also have "\<dots> = dval ((!) ?o) i + 2 ^ (32 * i) * dval (\<lambda>k. o1 ! (i + k)) n"
    using dval_cong [of i "(!) o1" "(!) ?o"] f(2) by (simp add: dval_split)
  finally have "dval ((!) ?q) (Suc i + n) =
      dval ((!) ?o) i + 2 ^ (32 * i) * (dval (\<lambda>k. o1 ! (i + k)) n + unat c * 2 ^ (32 * n))"
    using Suc.prems f(1,3) by (simp add: ucast_low power_add algebra_simps)
  also have "\<dots> = dval ((!) ?o) (i + n) + 2 ^ (32 * i) * (unat (left ! i) * dval ((!) right) n)"
    unfolding f(4) by (simp add: dval_split algebra_simps)
  also have "\<dots> = dval ((!) left) (Suc i) * dval ((!) right) n" by (simp add: ih(3) algebra_simps)
  finally show ?case unfolding q using f(1,2) ih(2) by simp
qed

lemma bigint_multiply_correct:
  assumes "bigint_multiply al (Some w) (Some l) (Some r) = (v, out)"
  shows "(v = 0 \<longleftrightarrow> \<not> al \<and> bi_length l + bi_length r \<le> bi_capacity w) \<and>
    (v = 0 \<longrightarrow> (\<exists>p. out = Some p \<and> bigint_ok p \<and> clean p \<and> bi_capacity p = bi_capacity w \<and> big_value p = big_value l * big_value r)) \<and>
    (v \<noteq> 0 \<longrightarrow> out = Some w)"
proof (cases "\<not> al \<and> bi_length l + bi_length r \<le> bi_capacity w")
  case True
  let ?z = "bi_limbs (bigint_zero w)" and ?n = "bi_length l + bi_length r"
  let ?p = "\<lparr>bi_limbs = mul_loop (bi_limbs l) (bi_limbs r) (bi_length r) (bi_length l) ?z, bi_length = ?n\<rparr>"
  have z: "length ?z = bi_capacity w" "\<forall>k<length ?z. ?z ! k = 0" by (simp_all add: bigint_zero_def)
  note m = mul_loop_correct [of "bi_length l" "bi_length r" ?z "bi_limbs l" "bi_limbs r"]
  have "clean ?p" "bi_length ?p \<le> bi_capacity ?p" "big_value ?p = big_value l * big_value r" "bi_capacity ?p = bi_capacity w"
    using m z True by (simp_all add: clean_def bi_capacity_def big_value_def)
  with normalize_facts [of ?p] show ?thesis using assms True by (auto simp: bigint_multiply_def)
next
  case False
  then show ?thesis using assms by (auto simp: bigint_multiply_def split: if_splits)
qed

subsection \<open>Bits\<close>

lemma foldl_horner: "foldl (\<lambda>a b. 2 * a + of_bool b) a (rev bs) = a * 2 ^ length bs + (horner_sum of_bool 2 bs :: nat)"
  by (induction bs) (simp_all add: algebra_simps)

lemma limb_bits_value: "horner_sum of_bool 2 (limb_bits x) = unat x"
proof -
  have "limb_bits x = map (bit (unat x)) [0..<32]" by (simp add: limb_bits_def bit_unsigned_iff)
  then have "horner_sum of_bool 2 (limb_bits x) = take_bit 32 (unat x)" by (simp only: horner_sum_bit_eq_take_bit)
  also have "\<dots> = unat x" using u32_bound [of x] by (simp add: take_bit_nat_eq_self)
  finally show ?thesis .
qed

lemma dval_Cons: "dval ((!) (x # xs)) (Suc n) = unat x + 2 ^ 32 * dval ((!) xs) n"
  using dval_split [of "(!) (x # xs)" 1 n] by (simp del: dval_simps(2)) (simp add: dval_def)

lemma horner_append: "horner_sum of_bool 2 (xs @ ys) = horner_sum of_bool 2 xs + 2 ^ length xs * (horner_sum of_bool 2 ys :: nat)"
  by (induction xs) (simp_all add: algebra_simps)

lemma bits_up_value:
  assumes "bi_length v \<le> bi_capacity v"
  shows "horner_sum of_bool 2 (bits_up v) = big_value v"
proof -
  have "horner_sum of_bool 2 (concat (map limb_bits xs)) = dval ((!) xs) (length xs)" for xs
  proof (induction xs)
    case (Cons x xs)
    have "length (limb_bits x) = 32" by (simp add: limb_bits_def)
    then have "horner_sum of_bool 2 (concat (map limb_bits (x # xs))) = unat x + 2 ^ 32 * dval ((!) xs) (length xs)"
      using Cons by (simp add: horner_append limb_bits_value)
    then show ?case using dval_Cons [of x xs "length xs"] by simp
  qed simp
  from this [of "take (bi_length v) (bi_limbs v)"] show ?thesis
    using assms dval_cong [of "bi_length v" "(!) (take (bi_length v) (bi_limbs v))" "(!) (bi_limbs v)"]
    by (simp add: bits_up_def big_value_def bi_capacity_def min_def)
qed

lemma bits_down_value:
  "bi_length v \<le> bi_capacity v \<Longrightarrow> foldl (\<lambda>a b. 2 * a + of_bool b) 0 (bits_down v) = big_value v"
  unfolding bits_down_def foldl_horner by (simp add: bits_up_value)

subsection \<open>Residues\<close>

lemma word_le_one:
  fixes c :: "'a :: len word"
  assumes "unat c \<le> 1"
  shows "c = 0 \<or> c = 1" "unat c = of_bool (c \<noteq> 0)"
proof -
  show "c = 0 \<or> c = 1" using assms by (auto simp: le_Suc_eq word_unat_eq_iff)
  then show "unat c = of_bool (c \<noteq> 0)" by auto
qed

text \<open>A number below the modulus in an array that holds all limbs of the modulus.\<close>

definition residue :: "bigint \<Rightarrow> bigint \<Rightarrow> bool" where
  "residue m r \<longleftrightarrow> clean r \<and> bigint_ok r \<and> bi_length r \<le> bi_length m \<and> bi_length m \<le> bi_capacity r \<and> big_value r < big_value m"

definition modulus_ok :: "bigint \<Rightarrow> bool" where
  "modulus_ok m \<longleftrightarrow> bi_length m \<le> bi_capacity m \<and> 0 < big_value m"

lemma residue_value: "residue m r \<Longrightarrow> dval ((!) (bi_limbs r)) (bi_length m) = big_value r"
  by (rule clean_value) (auto simp: residue_def)

lemma raw_subtract:
  assumes "n \<le> length xs"
  shows "length (bigint_raw_subtract xs ys n) = length xs" "n \<le> i \<Longrightarrow> bigint_raw_subtract xs ys n ! i = xs ! i"
    "\<exists>b\<le>1. dval ((!) (bigint_raw_subtract xs ys n)) n + dval ((!) ys) n = dval ((!) xs) n + b * 2 ^ (32 * n)"
proof -
  obtain o1 b where r: "sub_loop ((!) xs) ((!) ys) n xs = (o1, b)" by fastforce
  note f = sub_loop_correct [OF assms r]
  show "length (bigint_raw_subtract xs ys n) = length xs" "n \<le> i \<Longrightarrow> bigint_raw_subtract xs ys n ! i = xs ! i"
    using f by (simp_all add: bigint_raw_subtract_def r)
  show "\<exists>b\<le>1. dval ((!) (bigint_raw_subtract xs ys n)) n + dval ((!) ys) n = dval ((!) xs) n + b * 2 ^ (32 * n)"
    using f by (auto simp: bigint_raw_subtract_def r)
qed

text \<open>One subtraction of the modulus brings a sum below twice the modulus back, with the carry as its top bit.\<close>

lemma reduce_once:
  fixes x y M B b :: nat
  assumes "x + of_bool c * B < 2 * M" and "M < B" and "b \<le> 1" and "y + M = x + b * B" and "y < B" and "c \<or> M \<le> x"
  shows "y = (x + of_bool c * B) mod M"
proof -
  have "y = x + of_bool c * B - M"
  proof (cases c)
    case True
    have "b \<noteq> 0"
    proof
      assume "b = 0"
      then have "M \<le> x" using assms(4) by simp
      then show False using assms(1,2) True by simp
    qed
    then have "b = 1" using assms(3) by simp
    then show ?thesis using assms(4) True by simp
  next
    case False
    have "b \<noteq> 1" using assms(4,5,6) False by auto
    then have "b = 0" using assms(3) by simp
    then show ?thesis using assms(4) False by simp
  qed
  moreover have "M \<le> x + of_bool c * B" using assms(2,6) by auto
  ultimately show ?thesis using assms(1) by (simp add: mod_if)
qed

lemma mod_correct_facts:
  assumes m: "modulus_ok m" and n: "bi_length m \<le> length xs" and z: "\<And>i. bi_length m \<le> i \<Longrightarrow> i < length xs \<Longrightarrow> xs ! i = 0"
    and s: "dval ((!) xs) (bi_length m) + of_bool c * 2 ^ (32 * bi_length m) < 2 * big_value m"
  shows "residue m (mod_correct c xs m)" "bi_capacity (mod_correct c xs m) = length xs"
    "big_value (mod_correct c xs m) = (dval ((!) xs) (bi_length m) + of_bool c * 2 ^ (32 * bi_length m)) mod big_value m"
proof -
  let ?n = "bi_length m" and ?M = "big_value m"
  let ?S = "dval ((!) xs) ?n + of_bool c * 2 ^ (32 * ?n)"
  let ?g = "c \<or> bigint_raw_compare xs (bi_limbs m) ?n \<ge> 0"
  let ?y = "if ?g then bigint_raw_subtract xs (bi_limbs m) ?n else xs"
  have M: "dval ((!) (bi_limbs m)) ?n = ?M" "?M < 2 ^ (32 * ?n)" "0 < ?M" using m dval_bound [of "(!) (bi_limbs m)" ?n] by (simp_all add: big_value_def modulus_ok_def)
  note r = raw_subtract [OF n, where ys = "bi_limbs m"]
  have g: "?g \<longleftrightarrow> c \<or> ?M \<le> dval ((!) xs) ?n" using M(1) by (auto simp: bigint_raw_compare_def compare_loop_correct)
  have y: "dval ((!) ?y) ?n = ?S mod ?M"
  proof (cases ?g)
    case True
    obtain b where "b \<le> 1" "dval ((!) (bigint_raw_subtract xs (bi_limbs m) ?n)) ?n + ?M = dval ((!) xs) ?n + b * 2 ^ (32 * ?n)"
      using r(3) M(1) by auto
    from reduce_once [OF s M(2) this dval_bound] True g show ?thesis by simp
  next
    case False
    then show ?thesis using g by simp
  qed
  let ?v = "\<lparr>bi_limbs = ?y, bi_length = ?n\<rparr>"
  have "clean ?v" "bi_length ?v \<le> bi_capacity ?v" "bi_capacity ?v = length xs" "big_value ?v = ?S mod ?M"
    using n z r(1,2) y by (auto simp: clean_def bi_capacity_def big_value_def)
  moreover have "mod_correct c xs m = bigint_normalize ?v" by (simp add: mod_correct_def)
  moreover note normalize_facts [of ?v]
  ultimately show "residue m (mod_correct c xs m)" "bi_capacity (mod_correct c xs m) = length xs"
    "big_value (mod_correct c xs m) = ?S mod ?M"
    using M(3) n by (simp_all add: residue_def)
qed

lemma mod_add_correct:
  assumes "modulus_ok m" and "residue m l" and "residue m r" and "bi_length m \<le> bi_capacity w"
    and "\<And>i. bi_length m \<le> i \<Longrightarrow> i < bi_capacity w \<Longrightarrow> bi_limbs w ! i = 0"
  shows "\<exists>s. bigint_mod_add w l r m = (0, s) \<and> residue m s \<and> bi_capacity s = bi_capacity w \<and>
    big_value s = (big_value l + big_value r) mod big_value m"
proof -
  let ?n = "bi_length m"
  obtain xs c where a: "add_loop (limb l) (limb r) ?n (bi_limbs w) = (xs, c)" by fastforce
  have cap: "?n \<le> length (bi_limbs w)" using assms(4) by (simp add: bi_capacity_def)
  have lr: "dval (limb l) ?n = big_value l" "dval (limb r) ?n = big_value r" using assms(2,3) by (auto simp: residue_def intro: limb_value)
  note f = add_loop_correct [OF cap a, unfolded lr]
  have "unat c = of_bool (c \<noteq> 0)" using f by (intro word_le_one(2)) simp
  then have s: "dval ((!) xs) ?n + of_bool (c \<noteq> 0) * 2 ^ (32 * ?n) = big_value l + big_value r" using f by simp
  moreover have "big_value l + big_value r < 2 * big_value m" using assms(2,3) by (simp add: residue_def)
  ultimately have "dval ((!) xs) ?n + of_bool (c \<noteq> 0) * 2 ^ (32 * ?n) < 2 * big_value m" by simp
  note g = mod_correct_facts [OF assms(1) _ _ this]
  have "bi_length m \<le> length xs" "\<And>i. ?n \<le> i \<Longrightarrow> i < length xs \<Longrightarrow> xs ! i = 0" using f cap assms(5) by (simp_all add: bi_capacity_def)
  note g [OF this]
  then show ?thesis using assms(4) f by (simp add: bigint_mod_add_def a s bi_capacity_def)
qed

lemma shift_step:
  assumes "unat c \<le> 1"
  shows "unat (push_bit 1 (x :: u32) OR c) + 2 ^ 32 * unat (drop_bit 31 x) = 2 * unat x + unat c"
proof -
  have "c = 0 \<or> c = 1" using assms by (rule word_le_one(1))
  then have e: "push_bit 1 x OR c = 2 * x + c" by (auto simp: or_one_eq)
  have "unat (2 * x + c) = (2 * unat x + unat c) mod 2 ^ 32"
    by (simp add: unat_word_ariths mod_simps)
  moreover have "unat (drop_bit 31 x) = (2 * unat x + unat c) div 2 ^ 32"
  proof -
    have "unat (drop_bit 31 x) = drop_bit 31 (unat x)" by (rule unat_drop_bit_eq)
    also have "\<dots> = unat x div 2 ^ 31" by (rule drop_bit_eq_div)
    also have "unat x = (2 * unat x + unat c) div 2" using assms by simp
    also have "(2 * unat x + unat c) div 2 div 2 ^ 31 = (2 * unat x + unat c) div (2 * 2 ^ 31)" by (simp only: div_mult2_eq)
    also have "\<dots> = (2 * unat x + unat c) div 2 ^ 32" by simp
    finally show ?thesis .
  qed
  ultimately show ?thesis unfolding e by (simp only: mod_mult_div_eq)
qed

lemma shift_loop_correct:
  assumes "n \<le> length xs" and "shift_loop b n xs = (xs', c)" and "unat b \<le> 1"
  shows "length xs' = length xs \<and> (\<forall>i. n \<le> i \<longrightarrow> xs' ! i = xs ! i) \<and> unat c \<le> 1 \<and>
    dval ((!) xs') n + unat c * 2 ^ (32 * n) = 2 * dval ((!) xs) n + unat b"
  using assms(1,2)
proof (induction n arbitrary: xs' c)
  case (Suc n)
  obtain o1 c1 where r: "shift_loop b n xs = (o1, c1)" by fastforce
  note ih = Suc.IH [OF _ r]
  have o: "o1 ! n = xs ! n" using ih Suc.prems(1) by simp
  have res: "xs' = o1[n := push_bit 1 (xs ! n) OR c1]" "c = drop_bit 31 (xs ! n)" using Suc.prems(2) o by (simp_all add: r)
  have st: "unat (push_bit 1 (xs ! n) OR c1) + 2 ^ 32 * unat c = 2 * unat (xs ! n) + unat c1"
    unfolding res(2) using ih Suc.prems(1) by (intro shift_step) simp
  have "dval ((!) xs') n = dval ((!) o1) n" by (rule dval_cong) (simp add: res)
  then have "dval ((!) xs') (Suc n) + unat c * 2 ^ (32 * Suc n) =
      dval ((!) o1) n + (unat (push_bit 1 (xs ! n) OR c1) + 2 ^ 32 * unat c) * 2 ^ (32 * n)"
    using Suc.prems(1) ih by (simp add: res(1) power_add algebra_simps)
  also have "\<dots> = 2 * dval ((!) xs) (Suc n) + unat b" unfolding st using ih Suc.prems(1) by (simp add: algebra_simps)
  finally have "dval ((!) xs') (Suc n) + unat c * 2 ^ (32 * Suc n) = 2 * dval ((!) xs) (Suc n) + unat b" .
  moreover have "unat c \<le> 1"
    using st ih Suc.prems(1) u32_bound [of "xs ! n"] by simp
  ultimately show ?case using ih Suc.prems(1) by (simp add: res(1))
qed (use assms(3) in simp)

lemma mod_shift_add_correct:
  assumes "modulus_ok m" and "residue m r"
  shows "residue m (bigint_mod_shift_add r m b)" "bi_capacity (bigint_mod_shift_add r m b) = bi_capacity r"
    "big_value (bigint_mod_shift_add r m b) = (2 * big_value r + of_bool b) mod big_value m"
proof -
  let ?n = "bi_length m"
  obtain xs c where a: "shift_loop (of_bool b) ?n (bi_limbs r) = (xs, c)" by fastforce
  have cap: "?n \<le> length (bi_limbs r)" using assms(2) by (simp add: residue_def bi_capacity_def)
  have b: "unat (of_bool b :: u32) = of_bool b" by (cases b) simp_all
  note f = shift_loop_correct [OF cap a, unfolded b residue_value [OF assms(2)]]
  have c: "unat c = of_bool (c \<noteq> 0)" using f by (intro word_le_one(2)) simp
  have s: "dval ((!) xs) ?n + of_bool (c \<noteq> 0) * 2 ^ (32 * ?n) = 2 * big_value r + of_bool b" using f c by simp
  have "2 * big_value r + of_bool b < 2 * big_value m" using assms(2) by (cases b) (simp_all add: residue_def)
  then have "dval ((!) xs) ?n + of_bool (c \<noteq> 0) * 2 ^ (32 * ?n) < 2 * big_value m" using s by simp
  note g = mod_correct_facts [OF assms(1) _ _ this]
  have "bi_length m \<le> length xs" "\<And>i. ?n \<le> i \<Longrightarrow> i < length xs \<Longrightarrow> xs ! i = 0"
    using f cap assms(2) by (simp_all add: bi_capacity_def residue_def clean_def)
  note g [OF this]
  then show "residue m (bigint_mod_shift_add r m b)" "bi_capacity (bigint_mod_shift_add r m b) = bi_capacity r"
    "big_value (bigint_mod_shift_add r m b) = (2 * big_value r + of_bool b) mod big_value m"
    using f by (simp_all add: bigint_mod_shift_add_def a s bi_capacity_def)
qed

subsection \<open>Reduction and product modulo a number\<close>

lemma mod_double: "(2 * (a mod m) + c) mod m = (2 * a + c) mod (m :: nat)"
  by (metis mod_add_left_eq mod_mult_right_eq)

lemma mod_linear: "(a mod m + (b mod m) * c) mod m = (a + b * c) mod (m :: nat)"
proof -
  have "(a mod m + (b mod m) * c) mod m = (a + (b mod m) * c) mod m" by (rule mod_add_left_eq)
  also have "\<dots> = (a + ((b mod m) * c) mod m) mod m" by (rule mod_add_right_eq [symmetric])
  also have "\<dots> = (a + b * c mod m) mod m" by (simp only: mod_mult_left_eq)
  finally show ?thesis by (simp only: mod_add_right_eq)
qed

lemma mod_square_times: "(a mod m) * (a mod m) * c mod m = a * a * c mod (m :: nat)"
proof -
  have "(a mod m) * (a mod m) * c mod m = ((a mod m) * (a mod m) mod m) * c mod m" by (rule mod_mult_left_eq [symmetric])
  also have "\<dots> = (a * a mod m) * c mod m" by (simp only: mod_mult_eq)
  finally show ?thesis by (simp only: mod_mult_left_eq)
qed

lemma residue_zero: "modulus_ok m \<Longrightarrow> bi_length m \<le> bi_capacity w \<Longrightarrow> residue m (bigint_zero w)"
  by (simp add: residue_def zero_facts modulus_ok_def)

lemma fold_shift_add:
  assumes "modulus_ok m" and "residue m r"
  shows "residue m (foldl (\<lambda>r. bigint_mod_shift_add r m) r bs)" "bi_capacity (foldl (\<lambda>r. bigint_mod_shift_add r m) r bs) = bi_capacity r"
    "big_value (foldl (\<lambda>r. bigint_mod_shift_add r m) r bs) = foldl (\<lambda>a b. 2 * a + of_bool b) (big_value r) bs mod big_value m"
proof -
  have "residue m (foldl (\<lambda>r. bigint_mod_shift_add r m) r bs) \<and> bi_capacity (foldl (\<lambda>r. bigint_mod_shift_add r m) r bs) = bi_capacity r \<and>
      big_value (foldl (\<lambda>r. bigint_mod_shift_add r m) r bs) = foldl (\<lambda>a b. 2 * a + of_bool b) (big_value r) bs mod big_value m"
  proof (induction bs rule: rev_induct)
    case Nil
    then show ?case using assms(2) by (simp add: residue_def)
  next
    case (snoc b bs)
    then show ?case using mod_shift_add_correct [OF assms(1), of "foldl (\<lambda>r. bigint_mod_shift_add r m) r bs" b] by (simp add: mod_double split del: split_of_bool)
  qed
  then show "residue m (foldl (\<lambda>r. bigint_mod_shift_add r m) r bs)" "bi_capacity (foldl (\<lambda>r. bigint_mod_shift_add r m) r bs) = bi_capacity r"
    "big_value (foldl (\<lambda>r. bigint_mod_shift_add r m) r bs) = foldl (\<lambda>a b. 2 * a + of_bool b) (big_value r) bs mod big_value m" by blast+
qed

lemma modulus_length: "modulus_ok m \<Longrightarrow> 0 < bi_length m"
  by (cases "bi_length m") (auto simp: modulus_ok_def big_value_def)

lemma mod_reduce_correct:
  assumes "modulus_ok m" and "bi_length m \<le> bi_capacity w" and "bi_length v \<le> bi_capacity v"
  shows "\<exists>r. bigint_mod_reduce (Some w) (Some v) (Some m) = (0, Some r) \<and> residue m r \<and> bi_capacity r = bi_capacity w \<and>
    big_value r = big_value v mod big_value m"
  using fold_shift_add [OF assms(1) residue_zero [OF assms(1,2)], of "bits_down v"] modulus_length [OF assms(1)] assms(2) bits_down_value [OF assms(3)]
  by (simp add: bigint_mod_reduce_def zero_facts)

lemma residue_above: "residue m r \<Longrightarrow> bi_length m \<le> i \<Longrightarrow> i < bi_capacity r \<Longrightarrow> bi_limbs r ! i = 0"
  by (auto simp: residue_def clean_def)

lemma mod_add_residues:
  assumes "modulus_ok m" and "residue m w" and "residue m l" and "residue m r"
  shows "\<exists>s. bigint_mod_add w l r m = (0, s) \<and> residue m s \<and> bi_capacity s = bi_capacity w \<and>
    big_value s = (big_value l + big_value r) mod big_value m"
  using assms residue_above [OF assms(2)] by (intro mod_add_correct) (auto simp: residue_def)

lemma mod_mul_loop_correct:
  assumes "modulus_ok m" and "residue m w" and "residue m t"
  shows "\<exists>s t'. mod_mul_loop m bs w t = (0, s, t') \<and> residue m s \<and> bi_capacity s = bi_capacity w \<and>
    big_value s = (big_value w + big_value t * horner_sum of_bool 2 bs) mod big_value m"
  using assms(2,3)
proof (induction bs arbitrary: w t)
  case Nil
  then show ?case by (simp add: residue_def)
next
  case (Cons b bs)
  obtain w1 where w1: "(if b then bigint_mod_add w w t m else (0, w)) = (0, w1)" "residue m w1" "bi_capacity w1 = bi_capacity w"
    "big_value w1 = (big_value w + big_value t * of_bool b) mod big_value m"
  proof (cases b)
    case True
    then show ?thesis using that mod_add_residues [OF assms(1) Cons.prems(1,1,2)] by auto
  next
    case False
    then show ?thesis using that [of w] Cons.prems(1) by (simp add: residue_def)
  qed
  obtain t1 where t1: "bigint_mod_add t t t m = (0, t1)" "residue m t1" "big_value t1 = (big_value t + big_value t) mod big_value m"
    using mod_add_residues [OF assms(1) Cons.prems(2,2,2)] by blast
  obtain s t' where s: "mod_mul_loop m bs w1 t1 = (0, s, t')" "residue m s" "bi_capacity s = bi_capacity w1"
    "big_value s = (big_value w1 + big_value t1 * horner_sum of_bool 2 bs) mod big_value m"
    using Cons.IH [OF w1(2) t1(2)] by blast
  have "big_value s = (big_value w + big_value t * of_bool b + (big_value t + big_value t) * horner_sum of_bool 2 bs) mod big_value m"
    unfolding s(4) w1(4) t1(3) by (rule mod_linear)
  also have "big_value w + big_value t * of_bool b + (big_value t + big_value t) * horner_sum of_bool 2 bs =
      big_value w + big_value t * horner_sum of_bool 2 (b # bs)"
    by (simp only: horner_sum_simps distrib_left distrib_right mult_2 add.assoc)
  finally have v: "big_value s = (big_value w + big_value t * horner_sum of_bool 2 (b # bs)) mod big_value m" .
  have "mod_mul_loop m (b # bs) w t = (0, s, t')" unfolding mod_mul_loop.simps w1(1) by (simp add: t1(1) s(1))
  with v s(2,3) w1(3) show ?case by auto
qed

lemma mod_multiply_correct:
  assumes "modulus_ok m" and "bi_length m \<le> bi_capacity w" and "bi_length m \<le> bi_capacity t"
    and "bi_length l \<le> bi_capacity l" and "bi_length r \<le> bi_capacity r"
  shows "\<exists>p. bigint_mod_multiply (Some w) (Some l) (Some r) (Some m) (Some t) = (0, Some p) \<and> residue m p \<and>
    bi_capacity p = bi_capacity w \<and> big_value p = big_value l * big_value r mod big_value m"
proof -
  obtain t1 where t1: "bigint_mod_reduce (Some t) (Some l) (Some m) = (0, Some t1)" "residue m t1" "big_value t1 = big_value l mod big_value m"
    using mod_reduce_correct [OF assms(1,3,4)] by blast
  note z = residue_zero [OF assms(1,2)]
  obtain s t' where s: "mod_mul_loop m (bits_up r) (bigint_zero w) t1 = (0, s, t')" "residue m s" "bi_capacity s = bi_capacity w"
    "big_value s = big_value t1 * big_value r mod big_value m"
    using mod_mul_loop_correct [OF assms(1) z t1(2), of "bits_up r"] bits_up_value [OF assms(5)] by (auto simp: zero_facts)
  have "big_value s = big_value l * big_value r mod big_value m" unfolding s(4) t1(3) by (rule mod_mult_left_eq)
  then show ?thesis using s assms(2,3) by (auto simp: bigint_mod_multiply_def t1(1))
qed

subsection \<open>The path of repeated products\<close>

lemma copy_facts:
  assumes "residue m p" and "bi_capacity w = bi_capacity p"
  shows "residue m (bigint_copy w p)" "big_value (bigint_copy w p) = big_value p" "bi_capacity (bigint_copy w p) = bi_capacity w"
proof -
  have l: "bi_length p \<le> bi_capacity p" using assms(1) by (simp add: residue_def clean_def)
  then show v: "big_value (bigint_copy w p) = big_value p"
    unfolding big_value_def using assms(2) by (simp add: bigint_copy_def) (rule dval_cong, simp add: limb_def)
  show c: "bi_capacity (bigint_copy w p) = bi_capacity w" by (simp add: bigint_copy_def bi_capacity_def)
  show "residue m (bigint_copy w p)"
    using assms l v c by (auto simp: residue_def clean_def bigint_ok_def bigint_copy_def limb_def bi_capacity_def)
qed

lemma times_mod_correct:
  assumes "modulus_ok m" and "residue m r" and "residue m f" and "bi_capacity r = bi_length m"
  shows "\<exists>p. times_mod m r f = Some p \<and> residue m p \<and> bi_capacity p = bi_length m \<and> big_value p = big_value r * big_value f mod big_value m"
proof -
  let ?b = "blank_number (bi_length m)"
  have b: "bi_capacity ?b = bi_length m" by (simp add: blank_number_def bi_capacity_def)
  have "bi_length r \<le> bi_capacity r" "bi_length f \<le> bi_capacity f" using assms(2,3) by (auto simp: residue_def clean_def)
  then obtain p where p: "bigint_mod_multiply (Some ?b) (Some r) (Some f) (Some m) (Some ?b) = (0, Some p)" "residue m p"
    "bi_capacity p = bi_length m" "big_value p = big_value r * big_value f mod big_value m"
    using mod_multiply_correct [OF assms(1), of ?b ?b r f] b by auto
  then show ?thesis using copy_facts [of m p r] assms(4) by (simp add: times_mod_def)
qed

lemma exp_bit_correct:
  assumes "modulus_ok m" and "residue m r" and "residue m c" and "bi_capacity r = bi_length m"
  shows "\<exists>p. exp_bit m c sq b (Inr r) = Inr p \<and> residue m p \<and> bi_capacity p = bi_length m \<and>
    big_value p = (if sq then big_value r * big_value r else big_value r) * big_value c ^ of_bool b mod big_value m"
proof -
  obtain r1 where r1: "(if sq then times_mod m r r else Some r) = Some r1" "residue m r1" "bi_capacity r1 = bi_length m"
    "big_value r1 = (if sq then big_value r * big_value r else big_value r) mod big_value m"
  proof (cases sq)
    case True
    then show ?thesis using that times_mod_correct [OF assms(1,2,2,4)] by auto
  next
    case False
    then show ?thesis using that [of r] assms(2,4) by (simp add: residue_def)
  qed
  show ?thesis
  proof (cases b)
    case True
    obtain p where "times_mod m r1 c = Some p" "residue m p" "bi_capacity p = bi_length m" "big_value p = big_value r1 * big_value c mod big_value m"
      using times_mod_correct [OF assms(1) r1(2) assms(3) r1(3)] by blast
    moreover have "big_value r1 * big_value c mod big_value m = (if sq then big_value r * big_value r else big_value r) * big_value c mod big_value m"
      unfolding r1(4) by (rule mod_mult_left_eq)
    ultimately show ?thesis using True r1(1) by (auto simp: exp_bit_def)
  next
    case False
    then have "exp_bit m c sq b (Inr r) = Inr r1" using r1(1) by (simp add: exp_bit_def)
    with False r1(2,3,4) show ?thesis by (intro exI [of _ r1]) simp
  qed
qed

text \<open>Square and multiply: the power of the bits read so far.\<close>

lemma exp_fold_correct:
  assumes "modulus_ok m" and "residue m c"
  shows "residue m r \<Longrightarrow> bi_capacity r = bi_length m \<Longrightarrow> big_value r = big_value c ^ e mod big_value m \<Longrightarrow>
    \<exists>p. foldl (\<lambda>s b. exp_bit m c True b s) (Inr r) bs = Inr p \<and> residue m p \<and> bi_capacity p = bi_length m \<and>
      big_value p = big_value c ^ foldl (\<lambda>a b. 2 * a + of_bool b) e bs mod big_value m"
proof (induction bs arbitrary: r e)
  case (Cons b bs)
  obtain p where p: "exp_bit m c True b (Inr r) = Inr p" "residue m p" "bi_capacity p = bi_length m"
    "big_value p = big_value r * big_value r * big_value c ^ of_bool b mod big_value m"
    using exp_bit_correct [OF assms(1) Cons.prems(1) assms(2) Cons.prems(2), of True b] by auto
  have "big_value p = big_value c ^ e * big_value c ^ e * big_value c ^ of_bool b mod big_value m"
    unfolding p(4) Cons.prems(3) by (rule mod_square_times)
  then have "big_value p = big_value c ^ (2 * e + of_bool b) mod big_value m" by (simp add: power_add mult_2)
  from Cons.IH [OF p(2,3) this] p(1) show ?case by simp
qed auto

lemma value_one:
  assumes "bigint_ok m" and "big_value m = 1"
  shows "bi_length m = 1" "bi_limbs m ! 0 = 1"
proof -
  let ?w = "\<lparr>bi_limbs = [1], bi_length = 1\<rparr>"
  have "bigint_ok ?w" "big_value ?w = 1" by (simp_all add: bigint_ok_def bi_capacity_def big_value_def)
  note u = value_unique [OF assms(1) this(1)]
  show l: "bi_length m = 1" using u(1) assms(2) \<open>big_value ?w = 1\<close> by simp
  have "unat (bi_limbs m ! 0) = 1" using assms(2) l by (simp add: big_value_def)
  then show "bi_limbs m ! 0 = 1" by (simp add: word_unat_eq_iff)
qed

lemma first_result_facts:
  assumes "modulus_ok m" and "bigint_ok m"
  shows "residue m (first_result m)" "bi_capacity (first_result m) = bi_length m" "big_value (first_result m) = 1 mod big_value m"
proof -
  have n: "0 < bi_length m" "0 < big_value m" using modulus_length [OF assms(1)] assms(1) by (simp_all add: modulus_ok_def)
  show c: "bi_capacity (first_result m) = bi_length m" by (simp add: first_result_def blank_number_def bi_capacity_def)
  have "residue m (first_result m) \<and> big_value (first_result m) = 1 mod big_value m"
  proof (cases "big_value m = 1")
    case True
    then have "first_result m = blank_number 1" using value_one [OF assms(2)] by (simp add: first_result_def)
    then show ?thesis using value_one(1) [OF assms(2)] True
      by (simp add: residue_def clean_def bigint_ok_def blank_number_def bi_capacity_def big_value_def)
  next
    case False
    then have f: "first_result m = \<lparr>bi_limbs = (replicate (bi_length m) 0)[0 := 1], bi_length = 1\<rparr>"
      using n by (auto simp: first_result_def big_value_def)
    have "big_value (first_result m) = 1" using n by (simp add: f big_value_def)
    moreover have "1 < big_value m" using False n by simp
    ultimately show ?thesis
      using n by (auto simp: residue_def clean_def bigint_ok_def f bi_capacity_def nth_list_update)
  qed
  then show "residue m (first_result m)" "big_value (first_result m) = 1 mod big_value m" by blast+
qed

lemma bits_down_top:
  assumes "bi_length e = Suc n" and "bi_length e \<le> bi_capacity e"
  shows "bits_down e = rev (limb_bits (bi_limbs e ! n)) @ bits_down (e\<lparr>bi_length := n\<rparr>)"
  using assms by (simp add: bits_down_def bits_up_def take_Suc_conv_app_nth bi_capacity_def)

lemma foldl_leading_zeros: "foldl (\<lambda>a b. 2 * a + of_bool b) (0 :: nat) (dropWhile Not bs) = foldl (\<lambda>a b. 2 * a + of_bool b) 0 bs"
  by (induction bs) auto

lemma exp_loop_correct:
  assumes m: "modulus_ok m" and c: "residue m c" and e: "bi_length e \<le> bi_capacity e"
    and r: "residue m r" "bi_capacity r = bi_length m" "big_value r = 1 mod big_value m"
  shows "\<exists>p. exp_loop m c e (Inr r) = Inr p \<and> residue m p \<and> bi_capacity p = bi_length m \<and>
    big_value p = big_value c ^ big_value e mod big_value m"
proof (cases "bi_length e")
  case 0
  then show ?thesis using r by (simp add: exp_loop_def big_value_def)
next
  case (Suc n)
  let ?h = "\<lambda>a b. 2 * a + of_bool b :: nat"
  let ?top = "rev (limb_bits (bi_limbs e ! n))"
  let ?st = "case dropWhile Not ?top of [] \<Rightarrow> Inr r
     | b # bs \<Rightarrow> foldl (\<lambda>s b. exp_bit m c True b s) (exp_bit m c False b (Inr r)) bs"
  have "\<exists>p. ?st = Inr p \<and> residue m p \<and> bi_capacity p = bi_length m \<and> big_value p = big_value c ^ foldl ?h 0 ?top mod big_value m"
  proof (cases "dropWhile Not ?top")
    case Nil
    have "foldl ?h 0 (dropWhile Not ?top) = 0" unfolding Nil by simp
    then have "foldl ?h 0 ?top = 0" unfolding foldl_leading_zeros .
    then show ?thesis unfolding Nil using r by simp
  next
    case (Cons b bs)
    obtain p where p: "exp_bit m c False b (Inr r) = Inr p" "residue m p" "bi_capacity p = bi_length m"
      "big_value p = big_value r * big_value c ^ of_bool b mod big_value m"
      using exp_bit_correct [OF m r(1) c r(2), of False b] by auto
    have "big_value p = big_value c ^ of_bool b mod big_value m"
      unfolding p(4) r(3) using mod_mult_left_eq [of 1 "big_value m" "big_value c ^ of_bool b"] by simp
    from exp_fold_correct [OF m c p(2,3) this, of bs] have
      "\<exists>q. foldl (\<lambda>s b. exp_bit m c True b s) (Inr p) bs = Inr q \<and> residue m q \<and> bi_capacity q = bi_length m \<and>
        big_value q = big_value c ^ foldl ?h (of_bool b) bs mod big_value m" .
    moreover have "foldl ?h 0 ?top = foldl ?h (of_bool b) bs" using foldl_leading_zeros [of ?top] Cons by simp
    ultimately show ?thesis using Cons p(1) by simp
  qed
  then obtain p where p: "?st = Inr p" "residue m p" "bi_capacity p = bi_length m" "big_value p = big_value c ^ foldl ?h 0 ?top mod big_value m"
    by blast
  have "big_value e = foldl ?h (foldl ?h 0 ?top) (bits_down (e\<lparr>bi_length := n\<rparr>))"
    using bits_down_value [OF e] bits_down_top [OF Suc e] by simp
  then show ?thesis
    using exp_fold_correct [OF m c p(2,3,4), of "bits_down (e\<lparr>bi_length := n\<rparr>)"] p(1) by (simp add: exp_loop_def Suc Let_def)
qed

lemma store_result_facts:
  assumes "residue m r" and "bi_length m \<le> bi_capacity w"
  shows "bigint_ok (store_result w r)" "clean (store_result w r)" "bi_capacity (store_result w r) = bi_capacity w"
    "big_value (store_result w r) = big_value r"
proof -
  have l: "bi_length r \<le> bi_capacity w" "bi_length r \<le> bi_capacity r" using assms by (auto simp: residue_def)
  have nth: "bi_limbs (store_result w r) ! i = (if i < bi_length r then bi_limbs r ! i else 0)" if "i < bi_capacity w" for i
    using that l by (auto simp: store_result_def load_limbs_def bigint_zero_def nth_append)
  show c: "bi_capacity (store_result w r) = bi_capacity w"
    using l by (simp add: store_result_def load_limbs_def bigint_zero_def bi_capacity_def)
  have n: "bi_length (store_result w r) = bi_length r" by (simp add: store_result_def)
  show "big_value (store_result w r) = big_value r"
    unfolding big_value_def n by (rule dval_cong) (use nth l in auto)
  show "clean (store_result w r)" using nth l by (simp add: clean_def c n)
  show "bigint_ok (store_result w r)"
  proof (cases "bi_length r = 0")
    case False
    then have "bi_length r - 1 < bi_capacity w" using l by simp
    from nth [OF this] show ?thesis using assms(1) l False by (simp add: bigint_ok_def residue_def c n)
  qed (simp add: bigint_ok_def n)
qed

lemma modexp_plain_correct:
  assumes "modulus_ok m" and "bigint_ok m" and "bi_length m \<le> bi_capacity w" and "bi_length b \<le> bi_capacity b" and "bi_length e \<le> bi_capacity e"
  shows "\<exists>s. modexp_plain w b e m = (0, s) \<and> bigint_ok s \<and> clean s \<and> bi_capacity s = bi_capacity w \<and>
    big_value s = big_value b ^ big_value e mod big_value m"
proof -
  have "bi_length m \<le> bi_capacity (blank_number (bi_length m))" by (simp add: blank_number_def bi_capacity_def)
  then obtain c where c: "bigint_mod_reduce (Some (blank_number (bi_length m))) (Some b) (Some m) = (0, Some c)" "residue m c"
    "big_value c = big_value b mod big_value m"
    using mod_reduce_correct [OF assms(1) _ assms(4)] by blast
  obtain p where p: "exp_loop m c e (Inr (first_result m)) = Inr p" "residue m p" "big_value p = big_value c ^ big_value e mod big_value m"
    using exp_loop_correct [OF assms(1) c(2) assms(5) first_result_facts [OF assms(1,2)]] by blast
  have "big_value p = big_value b ^ big_value e mod big_value m" unfolding p(3) c(3) by (rule power_mod)
  then show ?thesis using store_result_facts [OF p(2) assms(3)] by (simp add: modexp_plain_def c(1) p(1))
qed

lemma times_mod_factor:
  assumes "modulus_ok m" and "residue m r" and "residue m f" and "bi_capacity r = bi_length m"
  shows "\<exists>p. (if b then times_mod m r f else Some r) = Some p \<and> residue m p \<and> bi_capacity p = bi_length m \<and>
    big_value p = big_value r * big_value f ^ of_bool b mod big_value m"
proof (cases b)
  case True
  then show ?thesis using times_mod_correct [OF assms] by simp
next
  case False
  then show ?thesis using assms by (simp add: residue_def)
qed

lemma mod_times_power: "(x mod m) * (y mod m) ^ k mod m = x * y ^ k mod (m :: nat)"
proof -
  have "(x mod m) * (y mod m) ^ k mod m = (x mod m) * ((y mod m) ^ k mod m) mod m" by (rule mod_mult_right_eq [symmetric])
  also have "(y mod m) ^ k mod m = y ^ k mod m" by (rule power_mod)
  also have "(x mod m) * (y ^ k mod m) mod m = x * y ^ k mod m" by (rule mod_mult_eq)
  finally show ?thesis .
qed

lemma unat_binary: "unat (x :: u32) = 2 * unat (drop_bit 1 x) + of_bool (x AND 1 \<noteq> 0)"
proof -
  have "unat (x AND 1) = unat x mod 2" by (simp only: unsigned_and_eq unsigned_1 and_one_eq [of "unat x"])
  then have "of_bool (x AND 1 \<noteq> 0) = unat x mod 2" by (cases "x AND 1 = 0") (auto simp: word_unat_eq_iff)
  then show ?thesis using unat_half [of x] by simp
qed

lemma u32_loop_correct:
  "modulus_ok m \<Longrightarrow> residue m r \<Longrightarrow> bi_capacity r = bi_length m \<Longrightarrow> residue m c \<Longrightarrow> bi_capacity c = bi_length m \<Longrightarrow>
    \<exists>p. u32_loop m e r c = Inr p \<and> residue m p \<and> big_value p = big_value r * big_value c ^ unat e mod big_value m"
proof (induction m e r c rule: u32_loop.induct)
  case (1 m e r c)
  let ?b = "e AND 1 \<noteq> 0"
  obtain p where p: "(if ?b then times_mod m r c else Some r) = Some p" "residue m p" "bi_capacity p = bi_length m"
    "big_value p = big_value r * big_value c ^ of_bool ?b mod big_value m"
    using times_mod_factor [OF "1.prems"(1,2,4,3), of ?b] by blast
  obtain d where d: "times_mod m c c = Some d" "residue m d" "bi_capacity d = bi_length m" "big_value d = big_value c * big_value c mod big_value m"
    using times_mod_correct [OF "1.prems"(1,4,4,5)] by blast
  consider "e = 0" | "e \<noteq> 0" "drop_bit 1 e = 0" | "e \<noteq> 0" "drop_bit 1 e \<noteq> 0" by blast
  then show ?case
  proof cases
    case 1
    then show ?thesis using "1.prems"(2) by (simp add: residue_def)
  next
    case 2
    then have "unat e = of_bool ?b" using unat_binary [of e] by simp
    then show ?thesis using 2 p by (simp add: u32_loop.simps [of m e])
  next
    case 3
    obtain q where q: "u32_loop m (drop_bit 1 e) p d = Inr q" "residue m q"
      "big_value q = big_value p * big_value d ^ unat (drop_bit 1 e) mod big_value m"
      using "1.IH" [OF 3(1) p(1) 3(2) d(1) "1.prems"(1) p(2,3) d(2,3)] by blast
    let ?k = "unat (drop_bit 1 e)"
    have "big_value q = big_value r * big_value c ^ of_bool ?b * (big_value c * big_value c) ^ ?k mod big_value m"
      unfolding q(3) p(4) d(4) by (rule mod_times_power)
    also have "big_value r * big_value c ^ of_bool ?b * (big_value c * big_value c) ^ ?k = big_value r * big_value c ^ unat e"
      unfolding unat_binary [of e] by (simp add: power_add power_mult power2_eq_square mult_ac)
    finally show ?thesis using q 3 p(1) d(1) by (simp add: u32_loop.simps [of m e])
  qed
qed

end
