(* ===== verification/Bigint_Mont.thy ===== *)
theory Bigint_Mont
  imports Bigint_Correct
begin

text \<open>
  The routines that take the same time for every operand of a given width, and the Montgomery path of
  the modular power. Sums, differences and products by masks give the residues that the branching
  routines give; a Montgomery product times \<open>2^(32 n)\<close> is the product of its operands, its
  intermediate result stays below twice the modulus; the Newton iteration finds the inverse of an odd
  limb; and the two paths of \<open>bigint_modexp\<close> return the same number.
\<close>

subsection \<open>Arithmetic in constant time\<close>

lemma and_flag: "(x :: u32) AND (0 - of_bool b) = (if b then x else 0)"
  by (cases b) simp_all

lemma dval_none [simp]: "dval (\<lambda>i. 0) n = 0"
  by (simp add: dval_def)

lemma dval_flag: "dval (\<lambda>i. f i AND (0 - of_bool b)) n = of_bool b * dval f n"
  by (cases b) (simp_all add: dval_def)

text \<open>A number in the fixed width of the modulus, reduced.\<close>

definition wide_residue :: "bigint \<Rightarrow> bigint \<Rightarrow> bool" where
  "wide_residue m r \<longleftrightarrow> bi_length r = bi_length m \<and> bi_length m \<le> bi_capacity r \<and> big_value r < big_value m"

lemma bit_flag:
  fixes c :: u64
  assumes "unat c \<le> 1"
  shows "(ucast c :: u32) = of_bool (c \<noteq> 0)"
  using word_le_one(1) [OF assms] by auto

lemma add_nothing:
  assumes "n \<le> length xs"
  shows "dval ((!) (fst (add_loop ((!) xs) (\<lambda>i. f i AND (0 - of_bool False)) n xs))) n = dval ((!) xs) n"
proof -
  obtain o1 c where a: "add_loop ((!) xs) (\<lambda>i. f i AND (0 - of_bool False)) n xs = (o1, c)" by fastforce
  have "dval ((!) o1) n + unat c * 2 ^ (32 * n) = dval ((!) xs) n"
    using add_loop_correct [OF assms a] dval_flag [of f False n] by simp
  then have "unat c * 2 ^ (32 * n) < 1 * 2 ^ (32 * n)" using dval_bound [of "(!) xs" n] by linarith
  then have "unat c = 0" by simp
  then show ?thesis using \<open>dval ((!) o1) n + unat c * 2 ^ (32 * n) = dval ((!) xs) n\<close> a by simp
qed

lemma add_back:
  assumes "n \<le> length xs" and "dval ((!) xs) n + dval f n = y + 2 ^ (32 * n)" and "y < 2 ^ (32 * n)"
  shows "dval ((!) (fst (add_loop ((!) xs) (\<lambda>i. f i AND (0 - of_bool True)) n xs))) n = y"
proof -
  obtain o1 c where a: "add_loop ((!) xs) (\<lambda>i. f i AND (0 - of_bool True)) n xs = (o1, c)" by fastforce
  have f: "dval ((!) o1) n + unat c * 2 ^ (32 * n) = y + 2 ^ (32 * n)" "unat c \<le> 1"
    using add_loop_correct [OF assms(1) a] dval_flag [of f True n] assms(2) by simp_all
  have "unat c \<noteq> 0" using f(1) dval_bound [of "(!) o1" n] by (intro notI) simp
  then have "unat c = 1" using f(2) by simp
  then show ?thesis using f(1) a by simp
qed

lemma add_length: "n \<le> length xs \<Longrightarrow> length (fst (add_loop f g n xs)) = length xs"
  using add_loop_correct [of n xs f g] by (cases "add_loop f g n xs") simp

lemma dval_below: "n \<le> length xs \<Longrightarrow> big_value \<lparr>bi_limbs = xs, bi_length = n\<rparr> = dval ((!) xs) n"
  by (simp add: big_value_def)

lemma mod_add_ct_masked_correct:
  assumes m: "modulus_ok m" and l: "wide_residue m l" and r: "wide_residue m r" and w: "bi_length m \<le> bi_capacity w"
  shows "\<exists>s. bigint_mod_add_ct_masked (Some w) (Some l) (Some r) (Some m) (0 - of_bool b) = (0, Some s) \<and> wide_residue m s \<and>
    bi_capacity s = bi_capacity w \<and> big_value s = (big_value l + of_bool b * big_value r) mod big_value m"
proof -
  let ?n = "bi_length m" and ?M = "big_value m" and ?S = "big_value l + of_bool b * big_value r"
  let ?B = "2 ^ (32 * ?n) :: nat"
  have n: "?n > 0" "0 < ?M" "?M < ?B" using m modulus_length [OF m] dval_bound by (simp_all add: modulus_ok_def big_value_def)
  have lim: "bi_length l = ?n" "bi_length r = ?n" "?S < 2 * ?M" using l r by (cases b; simp add: wide_residue_def)+
  obtain o1 c where o1: "add_loop ((!) (bi_limbs l)) (\<lambda>i. bi_limbs r ! i AND (0 - of_bool b)) ?n (bi_limbs w) = (o1, c)" by fastforce
  have w': "?n \<le> length (bi_limbs w)" using w by (simp add: bi_capacity_def)
  have f1: "length o1 = bi_capacity w" "unat c \<le> 1" "dval ((!) o1) ?n + unat c * ?B = ?S"
    using add_loop_correct [OF w' o1] lim by (simp_all add: dval_flag big_value_def bi_capacity_def)
  obtain o2 bw where o2: "sub_loop ((!) o1) ((!) (bi_limbs m)) ?n o1 = (o2, bw)" by fastforce
  have n1: "?n \<le> length o1" using w f1(1) by simp
  have f2: "length o2 = bi_capacity w" "unat bw \<le> 1" "dval ((!) o2) ?n + ?M = dval ((!) o1) ?n + unat bw * ?B"
    using sub_loop_correct [OF n1 o2] f1(1) by (simp_all add: big_value_def)
  have n2: "?n \<le> length o2" using w f2(1) by simp
  let ?restore = "c = 0 \<and> bw \<noteq> 0"
  have keep: "0 - ((ucast c OR (ucast bw XOR 1) :: u32) XOR 1) = 0 - of_bool ?restore"
    unfolding bit_flag [OF f1(2)] bit_flag [OF f2(2)] by (cases "c = 0"; cases "bw = 0") simp_all
  let ?o3 = "fst (add_loop ((!) o2) (\<lambda>i. bi_limbs m ! i AND (0 - of_bool ?restore)) ?n o2)"
  have uc: "unat c = of_bool (c \<noteq> 0)" "unat bw = of_bool (bw \<noteq> 0)" using word_le_one(2) f1(2) f2(2) by blast+
  have b1: "dval ((!) o1) ?n < ?B" "dval ((!) o2) ?n < ?B" by (rule dval_bound)+
  have v: "dval ((!) ?o3) ?n = ?S mod ?M"
  proof (cases ?restore)
    case True
    then have x: "dval ((!) o2) ?n + ?M = dval ((!) o1) ?n + ?B" "dval ((!) o1) ?n = ?S" using f1(3) f2(3) uc by simp_all
    then have "?S < ?M" using b1(2) by linarith
    moreover have "dval ((!) o2) ?n + dval ((!) (bi_limbs m)) ?n = ?S + ?B" using x by (simp add: big_value_def)
    from add_back [OF n2 this] have "dval ((!) ?o3) ?n = ?S" using True x(2) b1(1) by simp
    ultimately show ?thesis by simp
  next
    case False
    have "dval ((!) ?o3) ?n = dval ((!) o2) ?n" using add_nothing [OF n2] False by auto
    also have "\<dots> = ?S mod ?M"
      using reduce_once [of "dval ((!) o1) ?n" "c \<noteq> 0" ?B ?M "unat bw" "dval ((!) o2) ?n"] f1(3) f2(2,3) uc lim(3) n(3) b1 False by auto
    finally show ?thesis .
  qed
  have "length ?o3 = bi_capacity w" using add_length [OF n2] f2(1) by simp
  then have "wide_residue m \<lparr>bi_limbs = ?o3, bi_length = ?n\<rparr>" using w v n by (simp add: wide_residue_def bi_capacity_def big_value_def)
  moreover have "\<not> (?n = 0 \<or> bi_capacity w < ?n \<or> bi_capacity l < ?n \<or> bi_capacity r < ?n)" using w l r n by (simp add: wide_residue_def)
  then have "bigint_mod_add_ct_masked (Some w) (Some l) (Some r) (Some m) (0 - of_bool b) = (0, Some \<lparr>bi_limbs = ?o3, bi_length = ?n\<rparr>)"
    by (simp only: bigint_mod_add_ct_masked_def option.case prod.case if_False o1 o2 Let_def keep)
  ultimately show ?thesis using v \<open>length ?o3 = bi_capacity w\<close> by (simp add: bi_capacity_def big_value_def)
qed

lemma mod_add_ct_correct:
  assumes "modulus_ok m" and "wide_residue m l" and "wide_residue m r" and "bi_length m \<le> bi_capacity w"
  shows "\<exists>s. bigint_mod_add_ct (Some w) (Some l) (Some r) (Some m) = (0, Some s) \<and> wide_residue m s \<and>
    bi_capacity s = bi_capacity w \<and> big_value s = (big_value l + big_value r) mod big_value m"
proof -
  have "(0xffffffff :: u32) = 0 - of_bool True" by simp
  then show ?thesis using mod_add_ct_masked_correct [OF assms, of True] unfolding bigint_mod_add_ct_def by (simp only: of_bool_eq mult_1)
qed

lemma double_loop_correct:
  assumes "modulus_ok m"
  shows "wide_residue m c \<Longrightarrow> \<exists>d. double_loop m k c = (0, d) \<and> wide_residue m d \<and> bi_capacity d = bi_capacity c \<and>
    big_value d = big_value c * 2 ^ k mod big_value m"
proof (induction k arbitrary: c)
  case 0
  then show ?case by (simp add: wide_residue_def)
next
  case (Suc k)
  obtain d where d: "bigint_mod_add_ct (Some c) (Some c) (Some c) (Some m) = (0, Some d)" "wide_residue m d" "bi_capacity d = bi_capacity c"
    "big_value d = (big_value c + big_value c) mod big_value m"
    using mod_add_ct_correct [OF assms Suc.prems Suc.prems] Suc.prems by (auto simp: wide_residue_def)
  obtain e where e: "double_loop m k d = (0, e)" "wide_residue m e" "bi_capacity e = bi_capacity d" "big_value e = big_value d * 2 ^ k mod big_value m"
    using Suc.IH [OF d(2)] by blast
  have "big_value e = (big_value c + big_value c) * 2 ^ k mod big_value m" unfolding e(4) d(4) by (rule mod_mult_left_eq)
  also have "(big_value c + big_value c) * 2 ^ k = big_value c * 2 ^ Suc k" by simp
  finally show ?case using d(1,3) e(1,2,3) by simp
qed

lemma mod_subtract_ct_correct:
  assumes m: "modulus_ok m" and l: "wide_residue m l" and r: "wide_residue m r" and w: "bi_length m \<le> bi_capacity w"
  shows "\<exists>s. bigint_mod_subtract_ct (Some w) (Some l) (Some r) (Some m) = (0, Some s) \<and> wide_residue m s \<and>
    bi_capacity s = bi_capacity w \<and> big_value s = (big_value l + big_value m - big_value r) mod big_value m"
proof -
  let ?n = "bi_length m" and ?M = "big_value m" and ?L = "big_value l" and ?R = "big_value r"
  let ?B = "2 ^ (32 * ?n) :: nat"
  have n: "?n > 0" "?M < ?B" using modulus_length [OF m] dval_bound by (simp_all add: big_value_def)
  have lim: "bi_length l = ?n" "bi_length r = ?n" "?L < ?M" "?R < ?M" using l r by (simp_all add: wide_residue_def)
  have w': "?n \<le> length (bi_limbs w)" using w by (simp add: bi_capacity_def)
  obtain o1 bw where o1: "sub_loop ((!) (bi_limbs l)) ((!) (bi_limbs r)) ?n (bi_limbs w) = (o1, bw)" by fastforce
  have f1: "length o1 = bi_capacity w" "unat bw \<le> 1" "dval ((!) o1) ?n + ?R = ?L + unat bw * ?B"
    using sub_loop_correct [OF w' o1] lim by (simp_all add: big_value_def bi_capacity_def)
  have n1: "?n \<le> length o1" using w f1(1) by simp
  have uc: "unat bw = of_bool (bw \<noteq> 0)" using word_le_one(2) f1(2) by blast
  let ?o2 = "fst (add_loop ((!) o1) (\<lambda>i. bi_limbs m ! i AND (0 - of_bool (bw \<noteq> 0))) ?n o1)"
  have v: "dval ((!) ?o2) ?n = (?L + ?M - ?R) mod ?M"
  proof (cases "bw = 0")
    case True
    then have x: "dval ((!) o1) ?n = ?L - ?R" "?R \<le> ?L" using f1(3) by simp_all
    have eq: "?L + ?M - ?R = ?L - ?R + ?M" using x(2) by simp
    have "(?L + ?M - ?R) mod ?M = ?L - ?R" unfolding eq using lim(3) by simp
    then show ?thesis using add_nothing [OF n1] True x(1) by simp
  next
    case False
    then have x: "dval ((!) o1) ?n + ?R = ?L + ?B" using f1(3) uc by simp
    then have lt: "?L < ?R" using dval_bound [of "(!) o1" ?n] by linarith
    have "dval ((!) o1) ?n + dval ((!) (bi_limbs m)) ?n = (?L + ?M - ?R) + ?B" using x lim by (simp add: big_value_def)
    from add_back [OF n1 this] have "dval ((!) ?o2) ?n = ?L + ?M - ?R" using False lt lim n(2) by simp
    then show ?thesis using lt lim by simp
  qed
  have "length ?o2 = bi_capacity w" using add_length [OF n1] f1(1) by simp
  then have "wide_residue m \<lparr>bi_limbs = ?o2, bi_length = ?n\<rparr>" using w v lim by (simp add: wide_residue_def bi_capacity_def big_value_def)
  moreover have "\<not> (?n = 0 \<or> bi_capacity w < ?n \<or> bi_capacity l < ?n \<or> bi_capacity r < ?n)" using w l r n by (simp add: wide_residue_def)
  then have "bigint_mod_subtract_ct (Some w) (Some l) (Some r) (Some m) = (0, Some \<lparr>bi_limbs = ?o2, bi_length = ?n\<rparr>)"
    by (simp only: bigint_mod_subtract_ct_def option.case prod.case if_False o1 Let_def bit_flag [OF f1(2)])
  ultimately show ?thesis using v \<open>length ?o2 = bi_capacity w\<close> by (simp add: bi_capacity_def big_value_def)
qed

lemma mod_mul_ct_loop_correct:
  assumes "modulus_ok m"
  shows "wide_residue m w \<Longrightarrow> wide_residue m t \<Longrightarrow> \<exists>s. mod_mul_ct_loop m bs w t = (0, s) \<and> wide_residue m s \<and> bi_capacity s = bi_capacity w \<and>
    big_value s = (big_value w + big_value t * horner_sum of_bool 2 bs) mod big_value m"
proof (induction bs arbitrary: w t)
  case Nil
  then show ?case by (simp add: wide_residue_def)
next
  case (Cons b bs)
  have cap: "bi_length m \<le> bi_capacity w" "bi_length m \<le> bi_capacity t" using Cons.prems by (simp_all add: wide_residue_def)
  obtain x where x: "bigint_mod_add_ct_masked (Some w) (Some w) (Some t) (Some m) (0 - of_bool b) = (0, Some x)" "wide_residue m x"
    "bi_capacity x = bi_capacity w" "big_value x = (big_value w + of_bool b * big_value t) mod big_value m"
    using mod_add_ct_masked_correct [OF assms Cons.prems cap(1), of b] by blast
  obtain y where y: "bigint_mod_add_ct (Some t) (Some t) (Some t) (Some m) = (0, Some y)" "wide_residue m y"
    "big_value y = (big_value t + big_value t) mod big_value m"
    using mod_add_ct_correct [OF assms Cons.prems(2,2) cap(2)] by blast
  obtain s where s: "mod_mul_ct_loop m bs x y = (0, s)" "wide_residue m s" "bi_capacity s = bi_capacity x"
    "big_value s = (big_value x + big_value y * horner_sum of_bool 2 bs) mod big_value m"
    using Cons.IH [OF x(2) y(2)] by blast
  have "big_value s = (big_value w + of_bool b * big_value t + (big_value t + big_value t) * horner_sum of_bool 2 bs) mod big_value m"
    unfolding s(4) x(4) y(3) by (rule mod_linear)
  also have "big_value w + of_bool b * big_value t + (big_value t + big_value t) * horner_sum of_bool 2 bs =
      big_value w + big_value t * horner_sum of_bool 2 (b # bs)" by (simp add: algebra_simps)
  finally show ?case using s(1,2,3) x(1,3) y(1) by simp
qed

lemma load_limbs_nth: "n \<le> length xs \<Longrightarrow> i < length xs \<Longrightarrow> load_limbs n f xs ! i = (if i < n then f i else xs ! i)"
  by (simp add: load_limbs_def nth_append)

lemma load_limbs_length [simp]: "n \<le> length xs \<Longrightarrow> length (load_limbs n f xs) = length xs"
  by (simp add: load_limbs_def)

lemma load_limbs_value: "n \<le> length xs \<Longrightarrow> dval ((!) (load_limbs n f xs)) n = dval f n"
  by (rule dval_cong) (simp add: load_limbs_nth)

lemma mod_multiply_ct_correct:
  assumes m: "modulus_ok m" and l: "wide_residue m l" and r: "wide_residue m r"
    and w: "bi_length m \<le> bi_capacity w" and t: "bi_length m \<le> bi_capacity t"
  shows "\<exists>s. bigint_mod_multiply_ct (Some w) (Some l) (Some r) (Some m) (Some t) = (0, Some s) \<and> wide_residue m s \<and>
    bi_capacity s = bi_capacity w \<and> big_value s = big_value l * big_value r mod big_value m"
proof -
  let ?n = "bi_length m"
  let ?w = "\<lparr>bi_limbs = load_limbs ?n (\<lambda>_. 0) (bi_limbs w), bi_length = ?n\<rparr>"
  let ?t = "\<lparr>bi_limbs = load_limbs ?n ((!) (bi_limbs l)) (bi_limbs t), bi_length = ?n\<rparr>"
  have len: "?n \<le> length (bi_limbs w)" "?n \<le> length (bi_limbs t)" using w t by (simp_all add: bi_capacity_def)
  have lim: "bi_length l = ?n" "bi_length r = ?n" "big_value l < big_value m" "0 < big_value m" "?n > 0"
    using l r m modulus_length [OF m] by (simp_all add: wide_residue_def modulus_ok_def)
  have v: "big_value ?w = 0" "big_value ?t = big_value l" using len lim by (simp_all add: big_value_def load_limbs_value)
  have "wide_residue m ?w" "wide_residue m ?t" using v lim len by (simp_all add: wide_residue_def bi_capacity_def)
  from mod_mul_ct_loop_correct [OF m this, of "bits_up r"] obtain s where s: "mod_mul_ct_loop m (bits_up r) ?w ?t = (0, s)" "wide_residue m s"
    "bi_capacity s = bi_capacity ?w" "big_value s = big_value l * horner_sum of_bool 2 (bits_up r) mod big_value m"
    unfolding v by auto
  have "horner_sum of_bool 2 (bits_up r) = big_value r" using r by (intro bits_up_value) (simp add: wide_residue_def)
  moreover have e: "\<lparr>bi_limbs = bi_limbs r, bi_length = ?n\<rparr> = r" using lim(2) by (cases r) simp
  have "\<not> (?n = 0 \<or> bi_capacity w < ?n \<or> bi_capacity l < ?n \<or> bi_capacity r < ?n \<or> bi_capacity t < ?n)"
    using w l r t lim by (simp add: wide_residue_def)
  then have "bigint_mod_multiply_ct (Some w) (Some l) (Some r) (Some m) (Some t) = (0, Some s)"
    by (simp only: bigint_mod_multiply_ct_def option.case prod.case if_False Let_def e s(1))
  ultimately show ?thesis using s len by (simp add: bi_capacity_def)
qed

subsection \<open>Montgomery products\<close>

lemma mont_row_mul: "mont_row a x j t = mul_row x a 0 j t"
  by (induction j) (simp_all add: ac_simps split: prod.splits)

lemma mont_row_correct:
  assumes "j \<le> length t" and "mont_row a x j t = (t', c)"
  shows "length t' = length t" "\<And>k. j \<le> k \<Longrightarrow> t' ! k = t ! k" "unat c < 2 ^ 32"
    "dval ((!) t') j + unat c * 2 ^ (32 * j) = dval ((!) t) j + unat x * dval ((!) a) j"
  using mul_row_correct [of 0 j t x a t' c] assms unfolding mont_row_mul by simp_all

lemma mac64': "unat c < 2 ^ 32 \<Longrightarrow>
    unat (c + (ucast (x :: u32) * ucast (y :: u32) + ucast (z :: u32)) :: u64) = unat x * unat y + unat z + unat c"
  using mac64 [of c x y z] by (simp add: add.commute)

lemma mont_reduce_correct:
  assumes "Suc j \<le> length t" and "mont_reduce m q j t = (t', c)" and "q * m ! 0 + t ! 0 = 0"
  shows "length t' = length t \<and> (\<forall>k. j \<le> k \<longrightarrow> t' ! k = t ! k) \<and> unat c < 2 ^ 32 \<and>
    2 ^ 32 * dval ((!) t') j + unat c * 2 ^ (32 * Suc j) = unat q * dval ((!) m) (Suc j) + dval ((!) t) (Suc j)"
  using assms
proof (induction j arbitrary: t' c)
  case 0
  let ?y = "ucast q * ucast (m ! 0) + ucast (t ! 0) :: u64"
  have y: "unat ?y = unat q * unat (m ! 0) + unat (t ! 0)" using mac64 [of 0 q "m ! 0" "t ! 0"] by simp
  have "unat (ucast ?y :: u32) = unat ?y mod 2 ^ 32" by (simp add: unsigned_ucast_eq take_bit_eq_mod)
  also have "\<dots> = unat (q * m ! 0 + t ! 0)" unfolding y by (simp add: unat_word_ariths mod_simps)
  finally have "unat (ucast ?y :: u32) = 0" using "0.prems"(3) by simp
  then have "2 ^ 32 * unat (drop_bit 32 ?y) = unat ?y" using split64 [of ?y] by simp
  then show ?case using "0.prems"(2) y high_bound [of ?y] by (auto simp: mult.commute)
next
  case (Suc j)
  obtain t1 c1 where r: "mont_reduce m q j t = (t1, c1)" by fastforce
  have ih: "length t1 = length t" "\<And>k. j \<le> k \<Longrightarrow> t1 ! k = t ! k" "unat c1 < 2 ^ 32"
    "2 ^ 32 * dval ((!) t1) j + unat c1 * 2 ^ (32 * Suc j) = unat q * dval ((!) m) (Suc j) + dval ((!) t) (Suc j)"
    using Suc.IH [OF _ r Suc.prems(3)] Suc.prems(1) by auto
  define y :: u64 where "y = c1 + (ucast q * ucast (m ! Suc j) + ucast (t1 ! Suc j))"
  have res: "t' = t1[j := ucast y]" "c = drop_bit 32 y" using Suc.prems(2) by (simp_all add: r y_def Let_def)
  have y: "unat (ucast y :: u32) + 2 ^ 32 * unat c = unat q * unat (m ! Suc j) + unat (t ! Suc j) + unat c1"
    using split64 [of y] mac64' [OF ih(3)] ih(2) [of "Suc j"] by (simp add: res(2) y_def)
  have "dval ((!) t') j = dval ((!) t1) j" by (rule dval_cong) (simp add: res)
  then have "2 ^ 32 * dval ((!) t') (Suc j) + unat c * 2 ^ (32 * Suc (Suc j)) =
      2 ^ 32 * dval ((!) t1) j + (unat (ucast y :: u32) + 2 ^ 32 * unat c) * 2 ^ (32 * Suc j)"
    using Suc.prems(1) ih(1) by (simp add: res(1) power_add algebra_simps)
  also have "\<dots> = (2 ^ 32 * dval ((!) t1) j + unat c1 * 2 ^ (32 * Suc j)) + (unat q * unat (m ! Suc j) + unat (t ! Suc j)) * 2 ^ (32 * Suc j)"
    unfolding y by (simp only: algebra_simps)
  also have "\<dots> = unat q * dval ((!) m) (Suc (Suc j)) + dval ((!) t) (Suc (Suc j))"
    unfolding ih(4) by (simp add: algebra_simps)
  finally show ?case using ih high_bound [of y] by (simp add: res)
qed

lemma two_limbs:
  assumes "unat c < 2 ^ 32"
  shows "unat (ucast (c + ucast (x :: u32) :: u64) :: u32) + 2 ^ 32 * unat (ucast (drop_bit 32 (c + ucast x :: u64)) :: u32) = unat c + unat x"
    "unat (ucast (drop_bit 32 (c + ucast x :: u64)) :: u32) \<le> 1"
proof -
  have s: "unat (c + ucast x :: u64) = unat c + unat x" using assms u32_bound [of x] by (subst unat_add64) (simp_all add: unat_up)
  have h: "unat (ucast (drop_bit 32 (c + ucast x :: u64)) :: u32) = unat (drop_bit 32 (c + ucast x))" by (rule ucast_low [OF high_bound])
  show e: "unat (ucast (c + ucast x :: u64) :: u32) + 2 ^ 32 * unat (ucast (drop_bit 32 (c + ucast x :: u64)) :: u32) = unat c + unat x"
    unfolding h split64 s ..
  show "unat (ucast (drop_bit 32 (c + ucast x :: u64)) :: u32) \<le> 1" using e assms u32_bound [of x] by simp
qed

text \<open>One turn adds \<open>a * b_i\<close> and a multiple of the modulus, and drops the lowest limb, which is zero.\<close>

lemma mont_step_correct:
  assumes n: "0 < n" "length t = n + 2" and inv: "n0inv * m ! 0 = - 1"
  shows "length (mont_step a x m n n0inv t) = n + 2 \<and>
    (\<exists>q<2 ^ 32. 2 ^ 32 * dval ((!) (mont_step a x m n n0inv t)) (n + 1) =
      dval ((!) t) (n + 1) + unat x * dval ((!) a) n + q * dval ((!) m) n)"
proof -
  obtain t1 c where r1: "mont_row a x n t = (t1, c)" by fastforce
  have f1: "length t1 = n + 2" "\<And>k. n \<le> k \<Longrightarrow> t1 ! k = t ! k" "unat c < 2 ^ 32"
    "dval ((!) t1) n + unat c * 2 ^ (32 * n) = dval ((!) t) n + unat x * dval ((!) a) n"
    using mont_row_correct [OF _ r1] n by simp_all
  define y where "y = c + ucast (t1 ! n)"
  define t2 where "t2 = t1[n := ucast y, n + 1 := ucast (drop_bit 32 y)]"
  define q where "q = t2 ! 0 * n0inv"
  have y: "unat (ucast y :: u32) + 2 ^ 32 * unat (ucast (drop_bit 32 y) :: u32) = unat c + unat (t ! n)" "unat (ucast (drop_bit 32 y) :: u32) \<le> 1"
    using two_limbs [OF f1(3), of "t1 ! n"] f1(2) [of n] by (simp_all add: y_def)
  have l2: "length t2 = n + 2" "t2 ! n = ucast y" "t2 ! (n + 1) = ucast (drop_bit 32 y)" using f1(1) by (simp_all add: t2_def)
  have d2: "dval ((!) t2) n = dval ((!) t1) n" by (rule dval_cong) (simp add: t2_def)
  have low: "q * m ! 0 + t2 ! 0 = 0"
  proof -
    have "q * m ! 0 = t2 ! 0 * (n0inv * m ! 0)" by (simp add: q_def mult.assoc)
    then show ?thesis by (simp add: inv)
  qed
  obtain t3 d where r2: "mont_reduce m q (n - 1) t2 = (t3, d)" by fastforce
  have f2: "length t3 = n + 2" "\<And>k. n - 1 \<le> k \<Longrightarrow> t3 ! k = t2 ! k" "unat d < 2 ^ 32"
    "2 ^ 32 * dval ((!) t3) (n - 1) + unat d * 2 ^ (32 * n) = unat q * dval ((!) m) n + dval ((!) t2) n"
    using mont_reduce_correct [OF _ r2 low] n l2(1) by auto
  define z where "z = d + ucast (t3 ! n)"
  define u where "u = t3[n - 1 := ucast z, n := t3 ! (n + 1) + ucast (drop_bit 32 z)]"
  have z: "unat (ucast z :: u32) + 2 ^ 32 * unat (ucast (drop_bit 32 z) :: u32) = unat d + unat (t2 ! n)" "unat (ucast (drop_bit 32 z) :: u32) \<le> 1"
    using two_limbs [OF f2(3), of "t3 ! n"] f2(2) [of n] by (simp_all add: z_def)
  have step: "mont_step a x m n n0inv t = u"
    unfolding mont_step_def r1 prod.case Let_def y_def [symmetric] t2_def [symmetric] q_def [symmetric] r2 z_def [symmetric] u_def ..
  have top: "unat (u ! n) = unat (ucast (drop_bit 32 y) :: u32) + unat (ucast (drop_bit 32 z) :: u32)"
    using y(2) z(2) f2(1) f2(2) [of "n + 1"] l2(3) by (simp add: u_def unat_word_ariths)
  obtain k where k: "n = Suc k" using n(1) by (cases n) auto
  have "dval ((!) u) k = dval ((!) t3) k" by (rule dval_cong) (simp add: u_def k)
  moreover have "u ! k = ucast z" using f2(1) by (simp add: u_def k)
  ultimately have "2 ^ 32 * dval ((!) u) (n + 1) = 2 ^ 32 * dval ((!) t3) (n - 1) +
      (unat (ucast z :: u32) + 2 ^ 32 * unat (ucast (drop_bit 32 z) :: u32)) * 2 ^ (32 * n) + 2 ^ 32 * unat (ucast (drop_bit 32 y) :: u32) * 2 ^ (32 * n)"
    using top by (simp add: k power_add algebra_simps)
  also have "\<dots> = (unat q * dval ((!) m) n + dval ((!) t2) n) + (unat (ucast y :: u32) + 2 ^ 32 * unat (ucast (drop_bit 32 y) :: u32)) * 2 ^ (32 * n)"
    unfolding z(1) f2(4) [symmetric] l2(2) by (simp add: algebra_simps)
  also have "\<dots> = dval ((!) t) (n + 1) + unat x * dval ((!) a) n + unat q * dval ((!) m) n"
    unfolding y(1) d2 using f1(4) by (simp add: algebra_simps)
  finally show ?thesis using u32_bound [of q] f2(1) by (auto simp: step u_def)
qed

lemma below_twice:
  fixes V W A x q M :: nat
  assumes "2 ^ 32 * W = V + x * A + q * M" and "V < 2 * M" and "A < M" and "x < 2 ^ 32" and "q < 2 ^ 32"
  shows "W < 2 * M"
proof -
  have "x * A \<le> 4294967295 * M" "q * M \<le> 4294967295 * M" using assms(3,4,5) by (intro mult_le_mono; simp)+
  moreover have "4294967296 * W = V + x * A + q * M" using assms(1) by simp
  ultimately show ?thesis using assms(2) by linarith
qed

text \<open>The accumulator stays below twice the modulus, and times \<open>2^(32 i)\<close> it is \<open>a\<close> times the limbs of \<open>b\<close> so far.\<close>

lemma mont_loop_correct:
  assumes "0 < n" and "n0inv * m ! 0 = - 1" and "dval ((!) a) n < dval ((!) m) n"
  shows "length (mont_loop a b m n n0inv i) = n + 2 \<and> dval ((!) (mont_loop a b m n n0inv i)) (n + 1) < 2 * dval ((!) m) n \<and>
    (\<exists>k. dval ((!) (mont_loop a b m n n0inv i)) (n + 1) * 2 ^ (32 * i) = dval ((!) a) n * dval ((!) b) i + k * dval ((!) m) n)"
proof (induction i)
  case 0
  have "dval ((!) (replicate (n + 2) 0)) (n + 1) = dval (\<lambda>_. 0) (n + 1)" by (rule dval_cong) (simp del: replicate_Suc)
  then have "dval ((!) (replicate (n + 2) 0)) (n + 1) = 0" by simp
  then show ?case using assms(3) by simp
next
  case (Suc i)
  let ?t = "mont_loop a b m n n0inv i" and ?u = "mont_loop a b m n n0inv (Suc i)"
  let ?A = "dval ((!) a) n" and ?M = "dval ((!) m) n" and ?V = "\<lambda>t. dval ((!) t) (n + 1)"
  from Suc obtain k where ih: "length ?t = n + 2" "?V ?t < 2 * ?M" "?V ?t * 2 ^ (32 * i) = ?A * dval ((!) b) i + k * ?M" by blast
  from mont_step_correct [OF assms(1) ih(1) assms(2), of a "b ! i"] obtain q where q: "q < 2 ^ 32" "length ?u = n + 2"
    "2 ^ 32 * ?V ?u = ?V ?t + unat (b ! i) * ?A + q * ?M" by auto
  have "?V ?u < 2 * ?M" by (rule below_twice [OF q(3) ih(2) assms(3) u32_bound q(1)])
  moreover have "?V ?u * 2 ^ (32 * Suc i) = (2 ^ 32 * ?V ?u) * 2 ^ (32 * i)" by (simp add: power_add mult_ac)
  then have "?V ?u * 2 ^ (32 * Suc i) = ?V ?t * 2 ^ (32 * i) + (unat (b ! i) * ?A + q * ?M) * 2 ^ (32 * i)"
    unfolding q(3) by (simp only: add_mult_distrib add.assoc)
  then have "?V ?u * 2 ^ (32 * Suc i) = ?A * dval ((!) b) (Suc i) + (k + q * 2 ^ (32 * i)) * ?M"
    unfolding ih(3) by (simp add: algebra_simps)
  ultimately show ?case using q(2) by blast
qed

text \<open>The borrow of the final subtraction is the sign bit of the 64-bit difference.\<close>

lemma sub_sign:
  fixes x y :: u32 and b :: u64
  assumes "unat b \<le> 1"
  shows "unat (ucast (drop_bit 63 (ucast x - (ucast y + b) :: u64)) :: u32) = of_bool (ucast x < ucast y + b)"
proof -
  let ?r = "ucast y + b" and ?d = "ucast x :: u64"
  have ur: "unat ?r = unat y + unat b" using assms u32_bound [of y] by (subst unat_add64) (simp_all add: unat_up)
  have lt: "?d < ?r \<longleftrightarrow> unat x < unat y + unat b" by (simp add: word_less_nat_alt ur unat_up)
  have dr: "unat (?d - ?r) = (if unat y + unat b \<le> unat x then unat x - (unat y + unat b) else unat x + 2 ^ 64 - (unat y + unat b))"
    using ur by (simp add: unat_sub_if' unat_up)
  have "unat (?d - ?r) div 2 ^ 63 = of_bool (?d < ?r)"
  proof (cases "unat y + unat b \<le> unat x")
    case True
    then show ?thesis using dr lt u32_bound [of x] by simp
  next
    case False
    then have "2 ^ 63 \<le> unat (?d - ?r)" "unat (?d - ?r) < 2 * 2 ^ 63" using dr assms u32_bound [of y] by simp_all
    then have "unat (?d - ?r) div 2 ^ 63 = 1" by (simp add: div_nat_eqI)
    then show ?thesis using lt False by simp
  qed
  then have "unat (drop_bit 63 (?d - ?r)) = of_bool (?d < ?r)" by (simp only: unat_high)
  then show ?thesis by (subst ucast_low) simp_all
qed

lemma mont_sub_correct:
  assumes "mont_sub t m n = (r, b)"
  shows "length r = n \<and> unat b \<le> 1 \<and> dval ((!) r) n + dval ((!) m) n = dval ((!) t) n + unat b * 2 ^ (32 * n)"
  using assms
proof (induction n arbitrary: r b)
  case (Suc n)
  obtain r1 b1 where r: "mont_sub t m n = (r1, b1)" by fastforce
  have ih: "length r1 = n" "unat b1 \<le> 1" "dval ((!) r1) n + dval ((!) m) n = dval ((!) t) n + unat b1 * 2 ^ (32 * n)"
    using Suc.IH [OF r] by blast+
  let ?r = "ucast (m ! n) + ucast b1 :: u64" and ?d = "ucast (t ! n) :: u64"
  have b1: "unat (ucast b1 :: u64) = unat b1" by (rule unat_up)
  have res: "r = r1 @ [ucast (?d - ?r)]" "b = ucast (drop_bit 63 (?d - ?r))" using Suc.prems by (simp_all add: r Let_def diff_diff_eq)
  have st: "unat (ucast (?d - ?r) :: u32) + unat (m ! n) + unat b1 = unat (t ! n) + 2 ^ 32 * of_bool (?d < ?r)"
    using sub_step [of "ucast b1" "t ! n" "m ! n"] ih(2) by (simp only: b1)
  have b: "unat b = of_bool (?d < ?r)" unfolding res(2) using ih(2) by (intro sub_sign) (simp add: b1)
  have "dval ((!) r) n = dval ((!) r1) n" by (rule dval_cong) (simp add: res ih(1) nth_append)
  then have "dval ((!) r) (Suc n) + dval ((!) m) (Suc n) + unat b1 * 2 ^ (32 * n) =
      (dval ((!) r1) n + dval ((!) m) n) + (unat (ucast (?d - ?r) :: u32) + unat (m ! n) + unat b1) * 2 ^ (32 * n)"
    using ih(1) by (simp add: res(1) nth_append algebra_simps)
  also have "\<dots> = dval ((!) t) n + unat b1 * 2 ^ (32 * n) + (unat (t ! n) + 2 ^ 32 * unat b) * 2 ^ (32 * n)"
    unfolding st ih(3) b ..
  finally have "dval ((!) r) (Suc n) + dval ((!) m) (Suc n) = dval ((!) t) (Suc n) + unat b * 2 ^ (32 * Suc n)"
    by (simp add: power_add algebra_simps)
  then show ?case using b ih(1) by (simp add: res(1))
qed simp

lemma newton_step: "1 - m * (x * (2 - m * x)) = (1 - m * x) * (1 - m * x :: 'a :: comm_ring_1)"
  by (simp add: algebra_simps)

lemma newton_error: "1 - m * ((\<lambda>x. x * (2 - m * x)) ^^ k) 1 = (1 - m :: u32) ^ (2 ^ k)"
proof (induction k)
  case (Suc k)
  then show ?case by (simp only: funpow.simps o_apply newton_step) (simp add: power_add mult_2)
qed simp

text \<open>Five Newton steps give the inverse of an odd limb, since \<open>(1 - m)^32\<close> is a multiple of \<open>2^32\<close>.\<close>

lemma mont_n0inv_correct:
  assumes "m AND 1 \<noteq> 0"
  shows "mont_n0inv m * m = - 1"
proof -
  have "unat m = unat (2 * drop_bit 1 m + 1)"
    using unat_binary [of m] assms u32_bound [of m] by (simp add: unat_word_ariths)
  then have "m = 2 * drop_bit 1 m + 1" by (simp only: word_unat_eq_iff)
  then have "1 - m = 2 * (- drop_bit 1 m)" by (simp add: algebra_simps)
  then have "(1 - m) ^ 32 = 2 ^ 32 * (- drop_bit 1 m) ^ 32" by (simp only: power_mult_distrib)
  also have "(2 :: u32) ^ 32 = 0" by simp
  finally have "m * ((\<lambda>x. x * (2 - m * x)) ^^ 5) 1 = 1" using newton_error [of m 5] by simp
  then show ?thesis by (simp add: mont_n0inv_def mult.commute)
qed

lemma select_limb: "((x :: u32) AND (0 - of_bool b)) OR (y AND NOT (0 - of_bool b)) = (if b then x else y)"
  by (cases b) simp_all

text \<open>The constants of the Montgomery path for an odd modulus of \<open>n\<close> limbs.\<close>

definition mont_ready :: "u32 list \<Rightarrow> nat \<Rightarrow> u32 \<Rightarrow> bool" where
  "mont_ready m n n0inv \<longleftrightarrow> 0 < n \<and> m ! 0 AND 1 \<noteq> 0 \<and> n0inv * m ! 0 = - 1"

lemma mont_mul_correct:
  assumes rd: "mont_ready m n n0inv" and a: "dval ((!) a) n < dval ((!) m) n"
  shows "length (mont_mul a b m n n0inv) = n \<and> dval ((!) (mont_mul a b m n n0inv)) n < dval ((!) m) n \<and>
    dval ((!) (mont_mul a b m n n0inv)) n * 2 ^ (32 * n) mod dval ((!) m) n = dval ((!) a) n * dval ((!) b) n mod dval ((!) m) n"
proof -
  let ?M = "dval ((!) m) n" and ?B = "2 ^ (32 * n) :: nat"
  have inv: "0 < n" "n0inv * m ! 0 = - 1" using rd by (simp_all add: mont_ready_def)
  define t where "t = mont_loop a b m n n0inv n"
  from mont_loop_correct [OF inv a, of b n] obtain k where t: "dval ((!) t) (n + 1) < 2 * ?M"
    "dval ((!) t) (n + 1) * ?B = dval ((!) a) n * dval ((!) b) n + k * ?M" unfolding t_def by blast
  have V: "dval ((!) t) (n + 1) = dval ((!) t) n + unat (t ! n) * ?B" by simp
  have MB: "?M < ?B" by (rule dval_bound)
  have "unat (t ! n) * ?B < 2 * ?B" using t(1) MB V by linarith
  then have top: "unat (t ! n) \<le> 1" by simp
  obtain r bw where s: "mont_sub t m n = (r, bw)" by fastforce
  have f: "length r = n" "unat bw \<le> 1" "dval ((!) r) n + ?M = dval ((!) t) n + unat bw * ?B" using mont_sub_correct [OF s] by blast+
  let ?keep = "t ! n \<noteq> 0 \<or> bw = 0"
  have msk: "0 - ((t ! n OR (bw XOR 1)) AND 1) = 0 - of_bool ?keep"
    using word_le_one(1) [OF top] word_le_one(1) [OF f(2)] by auto
  have res: "mont_mul a b m n n0inv = map (\<lambda>i. if ?keep then r ! i else t ! i) [0..<n]"
    by (simp only: mont_mul_def t_def [symmetric] Let_def s prod.case msk select_limb)
  have uc: "unat (t ! n) = of_bool (t ! n \<noteq> 0)" "unat bw = of_bool (bw \<noteq> 0)" using word_le_one(2) top f(2) by blast+
  have v: "dval ((!) (mont_mul a b m n n0inv)) n = dval ((!) t) (n + 1) mod ?M"
  proof (cases ?keep)
    case True
    then have "dval ((!) (mont_mul a b m n n0inv)) n = dval ((!) r) n" unfolding res by (intro dval_cong) simp
    also have "\<dots> = (dval ((!) t) n + of_bool (t ! n \<noteq> 0) * ?B) mod ?M"
      using reduce_once [of "dval ((!) t) n" "t ! n \<noteq> 0" ?B ?M "unat bw" "dval ((!) r) n"]
        t(1) V uc MB f(2,3) dval_bound [of "(!) r" n] True by auto
    finally show ?thesis using V uc(1) by simp
  next
    case False
    then have "dval ((!) (mont_mul a b m n n0inv)) n = dval ((!) t) n" unfolding res by (intro dval_cong) simp
    moreover have "dval ((!) t) n < ?M" using f(3) uc(2) False dval_bound [of "(!) r" n] by simp
    ultimately show ?thesis using V False by simp
  qed
  have "dval ((!) (mont_mul a b m n n0inv)) n * ?B mod ?M = dval ((!) t) (n + 1) * ?B mod ?M" unfolding v by (rule mod_mult_left_eq)
  also have "\<dots> = dval ((!) a) n * dval ((!) b) n mod ?M" unfolding t(2) by simp
  finally show ?thesis using v a by (simp add: res)
qed

lemma cancel_power:
  assumes "odd M" and "a * 2 ^ k mod M = b * 2 ^ k mod (M :: nat)"
  shows "a mod M = b mod M"
proof -
  have c: "coprime M (2 ^ k)" using assms(1) by simp
  have "x mod M = y mod M" if "x * 2 ^ k mod M = y * 2 ^ k mod M" "y \<le> x" for x y
  proof -
    have "M dvd x * 2 ^ k - y * 2 ^ k" using that by (simp add: mod_eq_dvd_iff_nat)
    then have "M dvd (x - y) * 2 ^ k" by (simp only: diff_mult_distrib)
    then have "M dvd x - y" using c by (simp add: coprime_dvd_mult_left_iff)
    then show ?thesis using that(2) by (simp add: mod_eq_dvd_iff_nat)
  qed
  from this [of a b] this [of b a] assms(2) show ?thesis by (cases "b \<le> a") simp_all
qed

lemma mont_odd: "mont_ready m n n0inv \<Longrightarrow> odd (dval ((!) m) n)"
proof -
  assume rd: "mont_ready m n n0inv"
  then obtain k where k: "n = 1 + k" by (cases n) (auto simp: mont_ready_def)
  have "odd (unat (m ! 0))" using unat_binary [of "m ! 0"] rd by (simp add: mont_ready_def)
  then show ?thesis unfolding k dval_split by simp
qed

text \<open>The product of two powers in Montgomery form is the power in Montgomery form.\<close>

lemma mont_mul_power:
  assumes rd: "mont_ready m n n0inv" and "dval ((!) r) n = c ^ i * 2 ^ (32 * n) mod dval ((!) m) n" and "dval ((!) s) n = c ^ j * 2 ^ (32 * n) mod dval ((!) m) n"
  shows "dval ((!) (mont_mul r s m n n0inv)) n = c ^ (i + j) * 2 ^ (32 * n) mod dval ((!) m) n"
proof -
  let ?M = "dval ((!) m) n" and ?B = "2 ^ (32 * n) :: nat" and ?p = "dval ((!) (mont_mul r s m n n0inv)) n"
  have o: "odd ?M" "0 < ?M" using mont_odd [OF rd] by (auto intro: odd_pos)
  have p: "?p < ?M" "?p * ?B mod ?M = dval ((!) r) n * dval ((!) s) n mod ?M"
    using mont_mul_correct [OF rd, of r s] assms(2) o(2) by simp_all
  have "?p * ?B mod ?M = (c ^ i * ?B) * (c ^ j * ?B) mod ?M" unfolding p(2) assms(2,3) by (rule mod_mult_eq)
  also have "(c ^ i * ?B) * (c ^ j * ?B) = c ^ (i + j) * ?B * ?B" by (simp add: power_add mult_ac)
  finally have "?p mod ?M = c ^ (i + j) * ?B mod ?M" by (rule cancel_power [OF o(1)])
  then show ?thesis using p(1) by simp
qed

lemma mont_fold_correct:
  assumes rd: "mont_ready m n n0inv" and cur: "dval ((!) cur) n = c * 2 ^ (32 * n) mod dval ((!) m) n"
  shows "(case st of None \<Rightarrow> e = 0 | Some r \<Rightarrow> dval ((!) r) n = c ^ e * 2 ^ (32 * n) mod dval ((!) m) n) \<Longrightarrow>
    (case foldl (mont_exp_bit m n n0inv cur) st bs of None \<Rightarrow> foldl (\<lambda>a b. 2 * a + of_bool b) e bs = 0
     | Some r \<Rightarrow> dval ((!) r) n = c ^ foldl (\<lambda>a b. 2 * a + of_bool b) e bs * 2 ^ (32 * n) mod dval ((!) m) n)"
proof (induction bs arbitrary: st e)
  case (Cons b bs)
  have cur': "dval ((!) cur) n = c ^ 1 * 2 ^ (32 * n) mod dval ((!) m) n" using cur by simp
  have "case mont_exp_bit m n n0inv cur st b of None \<Rightarrow> 2 * e + of_bool b = 0
     | Some r \<Rightarrow> dval ((!) r) n = c ^ (2 * e + of_bool b) * 2 ^ (32 * n) mod dval ((!) m) n"
  proof (cases st)
    case None
    then show ?thesis using Cons.prems cur by (simp add: mont_exp_bit_def)
  next
    case (Some r)
    then have r: "dval ((!) r) n = c ^ e * 2 ^ (32 * n) mod dval ((!) m) n" using Cons.prems by simp
    note sq = mont_mul_power [OF rd r r]
    show ?thesis
    proof (cases b)
      case True
      then have "mont_exp_bit m n n0inv cur st b = Some (mont_mul (mont_mul r r m n n0inv) cur m n n0inv)"
        by (simp add: mont_exp_bit_def Some Let_def)
      then show ?thesis using mont_mul_power [OF rd sq cur'] True by (simp only: option.case of_bool_eq mult_2)
    next
      case False
      then have "mont_exp_bit m n n0inv cur st b = Some (mont_mul r r m n n0inv)" by (simp add: mont_exp_bit_def Some Let_def)
      then show ?thesis using sq False by (simp only: option.case of_bool_eq mult_2 add_0_right)
    qed
  qed
  from Cons.IH [OF this] show ?case by (simp only: foldl_Cons)
qed (simp only: foldl_Nil)

subsection \<open>The two paths of the modular power\<close>

lemma mont_ok_facts:
  assumes "bigint_mont_ok m" and "bigint_ok m"
  shows "modulus_ok m" "mont_ready (bi_limbs m) (bi_length m) (mont_n0inv (bi_limbs m ! 0))"
  using assms ok_value_bounds(3) [OF assms(2)] mont_n0inv_correct [of "bi_limbs m ! 0"]
  by (auto simp: bigint_mont_ok_def bigint_ok_def modulus_ok_def mont_ready_def)

lemma store_one:
  assumes "modulus_ok m" and "bigint_ok m" and "bi_length m \<le> bi_capacity w"
  defines "s \<equiv> if bi_length m = 1 \<and> bi_limbs m ! 0 = 1 then bigint_zero w else \<lparr>bi_limbs = (bi_limbs (bigint_zero w))[0 := 1], bi_length = 1\<rparr>"
  shows "bigint_ok s" "clean s" "bi_capacity s = bi_capacity w" "big_value s = 1 mod big_value m"
proof -
  have n: "0 < bi_length m" "0 < big_value m" using modulus_length [OF assms(1)] assms(1) by (simp_all add: modulus_ok_def)
  have "bigint_ok s \<and> clean s \<and> bi_capacity s = bi_capacity w \<and> big_value s = 1 mod big_value m"
  proof (cases "big_value m = 1")
    case True
    then have "s = bigint_zero w" using value_one [OF assms(2)] by (simp add: s_def)
    then show ?thesis using True zero_facts [of w] by simp
  next
    case False
    then have f: "s = \<lparr>bi_limbs = (replicate (bi_capacity w) 0)[0 := 1], bi_length = 1\<rparr>"
      using n by (auto simp: s_def big_value_def bigint_zero_def)
    have "big_value s = 1" using n assms(3) by (simp add: f big_value_def)
    moreover have "1 < big_value m" using False n by simp
    moreover have "0 < bi_capacity w" "Suc 0 \<le> bi_capacity w" using n assms(3) by simp_all
    ultimately show ?thesis by (auto simp: clean_def bigint_ok_def f bi_capacity_def nth_list_update)
  qed
  then show "bigint_ok s" "clean s" "bi_capacity s = bi_capacity w" "big_value s = 1 mod big_value m" by blast+
qed

lemma store_limbs:
  fixes xs :: "u32 list"
  assumes "n \<le> bi_capacity w"
  defines "s \<equiv> bigint_normalize \<lparr>bi_limbs = load_limbs n ((!) xs) (bi_limbs (bigint_zero w)), bi_length = n\<rparr>"
  shows "bigint_ok s" "clean s" "bi_capacity s = bi_capacity w" "big_value s = dval ((!) xs) n"
proof -
  let ?v = "\<lparr>bi_limbs = load_limbs n ((!) xs) (bi_limbs (bigint_zero w)), bi_length = n\<rparr>"
  have z: "length (bi_limbs (bigint_zero w)) = bi_capacity w" using zero_facts(4) [of w] by (simp add: bi_capacity_def)
  have c: "bi_capacity ?v = bi_capacity w" using assms(1) z by (simp add: bi_capacity_def)
  have "clean ?v" using assms(1) z zero_facts(1,5) [of w] c by (auto simp: clean_def load_limbs_nth bi_capacity_def)
  moreover have "big_value ?v = dval ((!) xs) n" using assms(1) z by (simp add: big_value_def load_limbs_value)
  moreover have "bi_length ?v \<le> bi_capacity ?v" using assms(1) unfolding c by simp
  note normalize_facts [OF this]
  ultimately show "bigint_ok s" "clean s" "bi_capacity s = bi_capacity w" "big_value s = dval ((!) xs) n"
    unfolding s_def c by simp_all
qed

lemma dval_one: "0 < n \<Longrightarrow> dval ((!) (1 # replicate (n - 1) 0)) n = 1"
proof -
  assume "0 < n"
  then obtain k where k: "n = Suc k" by (cases n) auto
  have "dval ((!) (replicate k 0)) k = dval (\<lambda>_. 0) k" by (rule dval_cong) simp
  then show ?thesis unfolding k dval_Cons by (simp add: dval_Cons)
qed

lemma residue_widen:
  assumes "residue m r"
  shows "wide_residue m \<lparr>bi_limbs = map (limb r) [0..<bi_length m], bi_length = bi_length m\<rparr>"
    "big_value \<lparr>bi_limbs = map (limb r) [0..<bi_length m], bi_length = bi_length m\<rparr> = big_value r"
proof -
  have "dval ((!) (map (limb r) [0..<bi_length m])) (bi_length m) = dval (limb r) (bi_length m)" by (rule dval_cong) simp
  also have "\<dots> = big_value r" using assms by (intro limb_value) (simp add: residue_def)
  finally show v: "big_value \<lparr>bi_limbs = map (limb r) [0..<bi_length m], bi_length = bi_length m\<rparr> = big_value r" by (simp add: big_value_def)
  show "wide_residue m \<lparr>bi_limbs = map (limb r) [0..<bi_length m], bi_length = bi_length m\<rparr>"
    using v assms by (simp add: wide_residue_def residue_def bi_capacity_def)
qed

lemma modexp_mont_correct:
  assumes ok: "bigint_mont_ok m" "bigint_ok m" and w: "bi_length m \<le> bi_capacity w"
    and b: "bi_length b \<le> bi_capacity b" and e: "bi_length e \<le> bi_capacity e"
  shows "\<exists>s. bigint_modexp_mont w b e m = (0, s) \<and> bigint_ok s \<and> clean s \<and> bi_capacity s = bi_capacity w \<and>
    big_value s = big_value b ^ big_value e mod big_value m"
proof -
  let ?n = "bi_length m" and ?m = "bi_limbs m" and ?i = "mont_n0inv (bi_limbs m ! 0)" and ?M = "big_value m"
  note m = mont_ok_facts [OF ok]
  have "?n \<le> bi_capacity \<lparr>bi_limbs = replicate ?n 0, bi_length = 0\<rparr>" by (simp add: bi_capacity_def)
  then obtain r where r: "bigint_mod_reduce (Some \<lparr>bi_limbs = replicate ?n 0, bi_length = 0\<rparr>) (Some b) (Some m) = (0, Some r)"
    "residue m r" "big_value r = big_value b mod ?M" using mod_reduce_correct [OF m(1) _ b] by blast
  obtain c where c: "double_loop m (32 * ?n) \<lparr>bi_limbs = map (limb r) [0..<?n], bi_length = ?n\<rparr> = (0, c)" "wide_residue m c"
    "big_value c = big_value r * 2 ^ (32 * ?n) mod ?M"
    using double_loop_correct [OF m(1) residue_widen(1) [OF r(2)], of "32 * ?n"] unfolding residue_widen(2) [OF r(2)] by blast
  have "big_value c = big_value b * 2 ^ (32 * ?n) mod ?M" unfolding c(3) r(3) by (rule mod_mult_left_eq)
  then have c': "dval ((!) (bi_limbs c)) ?n = big_value b * 2 ^ (32 * ?n) mod dval ((!) ?m) ?n"
    using c(2) by (simp add: wide_residue_def big_value_def)
  define st where "st = foldl (mont_exp_bit ?m ?n ?i (bi_limbs c)) None (bits_down e)"
  have st: "case st of None \<Rightarrow> big_value e = 0 | Some r \<Rightarrow> dval ((!) r) ?n = big_value b ^ big_value e * 2 ^ (32 * ?n) mod dval ((!) ?m) ?n"
    using mont_fold_correct [OF m(2) c', where st = None and e = 0 and bs = "bits_down e"] unfolding st_def bits_down_value [OF e] by simp
  show ?thesis
  proof (cases st)
    case None
    then have "big_value e = 0" using st by simp
    then show ?thesis using store_one [OF m(1) ok(2) w] None r(1) c(1) by (simp add: bigint_modexp_mont_def st_def Let_def)
  next
    case (Some p)
    let ?q = "mont_mul p (1 # replicate (?n - 1) 0) ?m ?n ?i"
    have p: "dval ((!) p) ?n = big_value b ^ big_value e * 2 ^ (32 * ?n) mod ?M" using st Some by (simp add: big_value_def)
    then have q: "dval ((!) ?q) ?n < ?M" "dval ((!) ?q) ?n * 2 ^ (32 * ?n) mod ?M = dval ((!) p) ?n * 1 mod ?M"
      using mont_mul_correct [OF m(2), of p "1 # replicate (?n - 1) 0"] dval_one [of ?n] m by (simp_all add: mont_ready_def big_value_def modulus_ok_def)
    have "dval ((!) ?q) ?n * 2 ^ (32 * ?n) mod ?M = big_value b ^ big_value e * 2 ^ (32 * ?n) mod ?M" using q(2) p by simp
    from cancel_power [OF _ this] mont_odd [OF m(2)] have "dval ((!) ?q) ?n mod ?M = big_value b ^ big_value e mod ?M" by (simp add: big_value_def)
    then show ?thesis
      using store_limbs [OF w, of ?q] q(1) Some r(1) c(1) by (simp add: bigint_modexp_mont_def st_def Let_def)
  qed
qed

subsection \<open>Bytes\<close>

text \<open>Byte \<open>p\<close> of an array of limbs, counted from the lowest.\<close>

definition limb_byte :: "u32 list \<Rightarrow> nat \<Rightarrow> u8" where
  "limb_byte xs p = ucast (drop_bit (p mod 4 * 8) (xs ! (p div 4)))"

lemma limb_byte_bit: "i < 8 \<Longrightarrow> bit (limb_byte xs p) i = bit (xs ! (p div 4)) (p mod 4 * 8 + i)"
  by (simp add: limb_byte_def bit_simps)

lemma byte_eqI: "(\<And>i. i < 8 \<Longrightarrow> bit x i = bit y i) \<Longrightarrow> x = (y :: u8)"
  by (rule bit_word_eqI) simp

lemma limb_byte_or:
  assumes "q div 4 < length xs" and "limb_byte xs q = 0"
  shows "limb_byte (xs[q div 4 := xs ! (q div 4) OR push_bit (q mod 4 * 8) (ucast (b :: u8))]) p = (if p = q then b else limb_byte xs p)"
proof (rule byte_eqI)
  fix i :: nat
  assume i: "i < 8"
  have z: "\<not> bit (xs ! (q div 4)) (q mod 4 * 8 + i)" using limb_byte_bit [OF i, of xs q] assms(2) by simp
  have bb: "i' < 8" if "bit b i'" for i' using bit_imp_le_length [OF that] by simp
  consider "p = q" | "p div 4 \<noteq> q div 4" | "p \<noteq> q" "p div 4 = q div 4" by blast
  then show "bit (limb_byte (xs[q div 4 := xs ! (q div 4) OR push_bit (q mod 4 * 8) (ucast b)]) p) i = bit (if p = q then b else limb_byte xs p) i"
  proof cases
    case 1
    have "q mod 4 * 8 + i < 32" using i mod_less_divisor [of 4 q] by linarith
    then show ?thesis using 1 z assms(1) i by (simp add: limb_byte_bit bit_simps)
  next
    case 2
    then show ?thesis using i by (auto simp: limb_byte_bit)
  next
    case 3
    then have "p mod 4 \<noteq> q mod 4" by (metis div_mult_mod_eq)
    then have "p mod 4 * 8 + i < q mod 4 * 8 \<or> q mod 4 * 8 + 8 \<le> p mod 4 * 8 + i" using i by linarith
    then show ?thesis using 3 assms(1) i bb [of "p mod 4 * 8 + i - q mod 4 * 8"] by (auto simp: limb_byte_bit bit_simps)
  qed
qed

lemma from_be_loop_bytes:
  assumes "\<And>j. j < length xs \<Longrightarrow> xs ! j = 0" and "len \<le> 4 * length xs" and "k \<le> len"
  shows "length (from_be_loop bs len k xs) = length xs \<and>
    (\<forall>p<4 * length xs. limb_byte (from_be_loop bs len k xs) p = (if len - k \<le> p \<and> p < len then bs ! (len - 1 - p) else 0))"
  using assms(3)
proof (induction k)
  case 0
  then show ?case using assms(1) by (auto simp: limb_byte_def)
next
  case (Suc k)
  let ?l = "from_be_loop bs len k xs" and ?q = "len - 1 - k"
  have ih: "length ?l = length xs" "\<And>p. p < 4 * length xs \<Longrightarrow> limb_byte ?l p = (if len - k \<le> p \<and> p < len then bs ! (len - 1 - p) else 0)"
    using Suc by simp_all
  have q: "?q < 4 * length xs" "?q div 4 < length ?l" using Suc.prems assms(2) ih(1) by (simp_all add: less_mult_imp_div_less mult.commute)
  have "\<not> len - k \<le> ?q" using Suc.prems by linarith
  then have "limb_byte ?l ?q = 0" using ih(2) [OF q(1)] by simp
  note byte = limb_byte_or [OF q(2) this, where b = "bs ! k"]
  have "limb_byte (from_be_loop bs len (Suc k) xs) p = (if len - Suc k \<le> p \<and> p < len then bs ! (len - 1 - p) else 0)" if p: "p < 4 * length xs" for p
  proof -
    have "limb_byte (from_be_loop bs len (Suc k) xs) p = (if p = ?q then bs ! k else limb_byte ?l p)"
      using byte [of p] by (simp add: Let_def)
    then show ?thesis using ih(2) [OF p] Suc.prems by (auto simp: Suc_diff_Suc)
  qed
  then show ?case using ih(1) by (simp add: Let_def)
qed

lemma limb_bytes:
  fixes x :: u32
  defines "y \<equiv> \<lambda>r. unat (ucast (drop_bit (r * 8) x) :: u8)"
  shows "unat x = y 0 + y 1 * 256 + y 2 * 65536 + y 3 * 16777216"
proof -
  have b: "y r = unat x div 2 ^ (r * 8) mod 256" for r
  proof -
    have "unat (drop_bit (r * 8) x) = drop_bit (r * 8) (unat x)" by (rule unat_drop_bit_eq)
    also have "\<dots> = unat x div 2 ^ (r * 8)" by (rule drop_bit_eq_div)
    finally show ?thesis unfolding y_def by (simp only: unsigned_ucast_eq take_bit_eq_mod) simp
  qed
  have step: "k = k mod 256 + k div 256 * 256" for k :: nat by simp
  have "unat x div 256 div 256 = unat x div 65536" "unat x div 65536 div 256 = unat x div 16777216" by (simp_all add: div_mult2_eq [symmetric])
  then have "unat x = unat x mod 256 + unat x div 256 mod 256 * 256 + unat x div 65536 mod 256 * 65536 + unat x div 16777216 * 16777216"
    using step [of "unat x"] step [of "unat x div 256"] step [of "unat x div 65536"] by linarith
  moreover have "unat x div 16777216 mod 256 = unat x div 16777216" using u32_bound [of x] by (intro mod_less) (simp add: less_mult_imp_div_less)
  ultimately show ?thesis unfolding b by simp
qed

lemma dval_bytes: "(\<Sum>p<4 * n. unat (limb_byte xs p) * 256 ^ p) = dval ((!) xs) n"
proof (induction n)
  case (Suc n)
  have e: "4 * Suc n = Suc (Suc (Suc (Suc (4 * n))))" by simp
  have l: "limb_byte xs (4 * n) = ucast (drop_bit (0 * 8) (xs ! n))" "limb_byte xs (Suc (4 * n)) = ucast (drop_bit (1 * 8) (xs ! n))"
    "limb_byte xs (Suc (Suc (4 * n))) = ucast (drop_bit (2 * 8) (xs ! n))" "limb_byte xs (Suc (Suc (Suc (4 * n)))) = ucast (drop_bit (3 * 8) (xs ! n))"
    by (simp_all add: limb_byte_def mod_Suc div_Suc)
  have w: "2 ^ (32 * n) = (256 :: nat) ^ (4 * n)" by (simp add: power_mult)
  have "(\<Sum>p<4 * Suc n. unat (limb_byte xs p) * 256 ^ p) = dval ((!) xs) n + unat (xs ! n) * 256 ^ (4 * n)"
    unfolding e sum.lessThan_Suc l Suc by (subst limb_bytes [of "xs ! n"]) (simp add: algebra_simps)
  then show ?case by (simp only: dval_simps w)
qed simp

text \<open>The number that a sequence of bytes stands for, the first byte being the highest.\<close>

definition be_value :: "u8 list \<Rightarrow> nat" where
  "be_value bs = foldl (\<lambda>a b. 256 * a + unat b) 0 bs"

lemma be_value_sum: "be_value bs = (\<Sum>p<length bs. unat (bs ! (length bs - 1 - p)) * 256 ^ p)"
proof -
  have "foldl (\<lambda>a b. 256 * a + unat b) a (rev cs) = a * 256 ^ length cs + horner_sum unat 256 cs" for a and cs :: "u8 list"
    by (induction cs arbitrary: a) (simp_all add: algebra_simps)
  from this [of 0 "rev bs"] have "be_value bs = horner_sum unat 256 (rev bs)" by (simp add: be_value_def)
  then show ?thesis by (simp add: horner_sum_eq_sum rev_nth atLeast0LessThan)
qed

lemma from_be_correct:
  assumes "0 < length bs" and "(length bs + 3) div 4 \<le> bi_capacity v"
  shows "\<exists>x. bigint_from_be (Some v) (Some bs) (length bs) = (0, Some x) \<and> bigint_ok x \<and> bi_capacity x = bi_capacity v \<and>
    big_value x = be_value bs \<and> (\<forall>p<length bs. be_byte x p = bs ! (length bs - 1 - p))"
proof -
  let ?len = "length bs" and ?n = "(length bs + 3) div 4"
  let ?l = "from_be_loop bs ?len ?len (bi_limbs (bigint_zero v))"
  let ?v = "\<lparr>bi_limbs = ?l, bi_length = ?n\<rparr>" and ?x = "bigint_normalize \<lparr>bi_limbs = ?l, bi_length = ?n\<rparr>"
  have z: "length (bi_limbs (bigint_zero v)) = bi_capacity v" "\<And>j. j < length (bi_limbs (bigint_zero v)) \<Longrightarrow> bi_limbs (bigint_zero v) ! j = 0"
    by (simp_all add: bigint_zero_def bi_capacity_def)
  have c: "?len \<le> 4 * ?n" "4 * ?n \<le> 4 * bi_capacity v" using assms(2) by linarith+
  then have "?len \<le> 4 * length (bi_limbs (bigint_zero v))" unfolding z(1) by linarith
  from from_be_loop_bytes [OF z(2) this le_refl, of bs]
  have l: "length ?l = bi_capacity v" "\<And>p. p < 4 * bi_capacity v \<Longrightarrow> limb_byte ?l p = (if p < ?len then bs ! (?len - 1 - p) else 0)"
    unfolding z(1) by simp_all
  have "bi_length ?v \<le> bi_capacity ?v" using l(1) assms(2) by (simp add: bi_capacity_def)
  note nf = normalize_facts [OF this]
  have "big_value ?v = (\<Sum>p<4 * ?n. unat (limb_byte ?l p) * 256 ^ p)" by (simp add: big_value_def dval_bytes)
  also have "\<dots> = (\<Sum>p<4 * ?n. if p < ?len then unat (bs ! (?len - 1 - p)) * 256 ^ p else 0)"
    using l(2) c(2) by (intro sum.cong) auto
  also have "\<dots> = be_value bs" unfolding be_value_sum
    using c(1) by (intro sum.mono_neutral_cong_right) auto
  finally have "big_value ?x = be_value bs" using nf(2) by simp
  moreover have "be_byte ?x p = bs ! (?len - 1 - p)" if p: "p < ?len" for p
  proof -
    have q: "p div 4 < ?n" "p < 4 * bi_capacity v" using p c by linarith+
    have "be_byte ?x p = limb_byte ?l p"
      using normal_length(2) [of ?l ?n "p div 4"] q(1) by (auto simp: be_byte_def limb_byte_def bigint_normalize_def)
    then show ?thesis using l(2) [OF q(2)] p by simp
  qed
  moreover have "bigint_from_be (Some v) (Some bs) ?len = (0, Some ?x)" using assms by (simp add: bigint_from_be_def Let_def)
  ultimately show ?thesis using nf(1,3) l(1) by (simp add: bi_capacity_def)
qed

subsection \<open>Properties\<close>

text \<open>
  What a modular power promises: an empty modulus, a result array shorter than the modulus and a
  workspace of less than four times its length are refused with the result untouched; otherwise the
  result is a well-formed number in the same array, zero above its length, and the power modulo \<open>m\<close>.
\<close>

definition power_spec :: "bigint \<Rightarrow> bigint \<Rightarrow> nat \<Rightarrow> bigint \<Rightarrow> nat \<Rightarrow> rc \<times> bigint option \<Rightarrow> bool" where
  "power_spec w b n m k r =
     (if bi_length m = 0 then r = (- 1, Some w)
      else if bi_capacity w < bi_length m \<or> k < 4 * bi_length m then r = (- 2, Some w)
      else (case r of
          (v, Some s) \<Rightarrow> v = 0 \<and> bigint_ok s \<and> clean s \<and> bi_capacity s = bi_capacity w \<and> big_value s = big_value b ^ n mod big_value m
        | (v, None) \<Rightarrow> False))"

lemma same_number:
  assumes "bigint_ok s" "clean s" and "bigint_ok t" "clean t" and "bi_capacity s = bi_capacity t" and "big_value s = big_value t"
  shows "s = t"
proof -
  note u = value_unique [OF assms(1,3,6)]
  have "bi_limbs s ! i = bi_limbs t ! i" if i: "i < bi_capacity s" for i
  proof (cases "i < bi_length s")
    case True
    then have "take (bi_length s) (bi_limbs s) ! i = take (bi_length t) (bi_limbs t) ! i" using u(2) by simp
    then show ?thesis using True u(1) by simp
  next
    case False
    then show ?thesis using assms(2,4,5) i u(1) by (simp add: clean_def)
  qed
  then have "bi_limbs s = bi_limbs t" using assms(5) by (simp add: list_eq_iff_nth_eq bi_capacity_def)
  then show ?thesis using u(1) by simp
qed

lemma modulus_nonempty: "bigint_ok m \<Longrightarrow> 0 < bi_length m \<Longrightarrow> modulus_ok m"
  using ok_value_bounds(3) [of m] by (auto simp: modulus_ok_def bigint_ok_def)

lemma u32_plain_correct:
  assumes m: "modulus_ok m" "bigint_ok m" and w: "bi_length m \<le> bi_capacity w" and b: "bi_length b \<le> bi_capacity b"
  shows "\<exists>c r. bigint_mod_reduce (Some (blank_number (bi_length m))) (Some b) (Some m) = (0, Some c) \<and>
    u32_loop m x (first_result m) c = Inr r \<and> bigint_ok (store_result w r) \<and> clean (store_result w r) \<and>
    bi_capacity (store_result w r) = bi_capacity w \<and> big_value (store_result w r) = big_value b ^ unat x mod big_value m"
proof -
  have n: "bi_capacity (blank_number (bi_length m)) = bi_length m" by (simp add: blank_number_def bi_capacity_def)
  then obtain c where c: "bigint_mod_reduce (Some (blank_number (bi_length m))) (Some b) (Some m) = (0, Some c)" "residue m c"
    "bi_capacity c = bi_length m" "big_value c = big_value b mod big_value m" using mod_reduce_correct [OF m(1) _ b] by (metis order_refl)
  note f = first_result_facts [OF m]
  obtain r where r: "u32_loop m x (first_result m) c = Inr r" "residue m r" "big_value r = big_value (first_result m) * big_value c ^ unat x mod big_value m"
    using u32_loop_correct [OF m(1) f(1,2) c(2,3)] by blast
  have "big_value r = 1 * big_value b ^ unat x mod big_value m" unfolding r(3) f(3) c(4) by (rule mod_times_power)
  then show ?thesis using c(1) r(1) store_result_facts [OF r(2) w] by auto
qed

text \<open>
  C12. Modular powers: for a well-formed modulus of fewer than 16384 limbs and operands within their
  arrays, \<open>bigint_modexp\<close> and \<open>bigint_modexp_u32\<close> refuse exactly an empty modulus, a short
  result array and a short workspace, and otherwise return, by whichever of the Montgomery and the
  repeated-product path the modulus selects, the power of the base modulo the modulus.
\<close>

theorem modexp_correct:
  assumes "bigint_ok m" and "bi_length b \<le> bi_capacity b" and "bi_length e \<le> bi_capacity e" and "bi_length m < 16384"
  shows "power_spec w b (big_value e) m k (bigint_modexp (Some w) (Some b) (Some e) (Some m) (Some ws) k) \<and>
    power_spec w b (unat x) m k (bigint_modexp_u32 (Some w) (Some b) x (Some m) (Some ws) k)"
proof (cases "bi_length m = 0 \<or> bi_capacity w < bi_length m \<or> k < 4 * bi_length m")
  case True
  then show ?thesis using assms(4) by (auto simp: power_spec_def bigint_modexp_def bigint_modexp_u32_def)
next
  case False
  let ?x = "\<lparr>bi_limbs = [x], bi_length = 1\<rparr>"
  have x: "bi_length ?x \<le> bi_capacity ?x" "big_value ?x = unat x" by (simp_all add: bi_capacity_def big_value_def)
  have m: "modulus_ok m" "bi_length m \<le> bi_capacity w" using modulus_nonempty [OF assms(1)] False by simp_all
  have small: "4 * bi_length m mod 65536 = 4 * bi_length m" using assms(4) by simp
  show ?thesis
  proof (cases "bigint_mont_ok m")
    case True
    obtain s where "bigint_modexp_mont w b e m = (0, s)" "bigint_ok s" "clean s" "bi_capacity s = bi_capacity w"
      "big_value s = big_value b ^ big_value e mod big_value m" using modexp_mont_correct [OF True assms(1) m(2) assms(2,3)] by blast
    moreover obtain t where "bigint_modexp_mont w b ?x m = (0, t)" "bigint_ok t" "clean t" "bi_capacity t = bi_capacity w"
      "big_value t = big_value b ^ unat x mod big_value m" using modexp_mont_correct [OF True assms(1) m(2) assms(2) x(1)] unfolding x(2) by blast
    ultimately show ?thesis using False True small by (simp add: power_spec_def bigint_modexp_def bigint_modexp_u32_def)
  next
    case path: False
    obtain s where "modexp_plain w b e m = (0, s)" "bigint_ok s" "clean s" "bi_capacity s = bi_capacity w"
      "big_value s = big_value b ^ big_value e mod big_value m" using modexp_plain_correct [OF m(1) assms(1) m(2) assms(2,3)] by blast
    moreover obtain c r where "bigint_mod_reduce (Some (blank_number (bi_length m))) (Some b) (Some m) = (0, Some c)"
      "u32_loop m x (first_result m) c = Inr r" "bigint_ok (store_result w r)" "clean (store_result w r)"
      "bi_capacity (store_result w r) = bi_capacity w" "big_value (store_result w r) = big_value b ^ unat x mod big_value m"
      using u32_plain_correct [OF m(1) assms(1) m(2) assms(2)] by blast
    ultimately show ?thesis using False path small by (simp add: power_spec_def bigint_modexp_def bigint_modexp_u32_def)
  qed
qed

text \<open>The square of 3 modulo 5, by the Montgomery path, and modulo 4, by repeated products.\<close>

theorem modexp_correct_witness:
  "(\<exists>s. bigint_modexp (Some \<lparr>bi_limbs = [0, 0], bi_length = 0\<rparr>) (Some \<lparr>bi_limbs = [3], bi_length = 1\<rparr>) (Some \<lparr>bi_limbs = [2], bi_length = 1\<rparr>)
      (Some \<lparr>bi_limbs = [5], bi_length = 1\<rparr>) (Some []) 4 = (0, Some s) \<and> big_value s = 4) \<and>
   (\<exists>s. bigint_modexp_u32 (Some \<lparr>bi_limbs = [0, 0], bi_length = 0\<rparr>) (Some \<lparr>bi_limbs = [3], bi_length = 1\<rparr>) 2
      (Some \<lparr>bi_limbs = [4], bi_length = 1\<rparr>) (Some []) 4 = (0, Some s) \<and> big_value s = 1)"
proof -
  let ?n = "\<lambda>x. \<lparr>bi_limbs = [x], bi_length = 1\<rparr>" and ?w = "\<lparr>bi_limbs = [0, 0], bi_length = 0\<rparr>"
  have ok: "bigint_ok (?n 5)" "bigint_ok (?n 4)" "\<And>x. bi_length (?n x) \<le> bi_capacity (?n x)" "\<And>x. bi_length (?n x) < 16384"
    by (simp_all add: bigint_ok_def bi_capacity_def)
  have v: "big_value (?n 5) = 5" "big_value (?n 4) = 4" "big_value (?n 3) = 3" "big_value (?n 2) = 2" by (simp_all add: big_value_def)
  have a: "power_spec ?w (?n 3) (big_value (?n 2)) (?n 5) 4 (bigint_modexp (Some ?w) (Some (?n 3)) (Some (?n 2)) (Some (?n 5)) (Some []) 4)"
    using modexp_correct [OF ok(1,3,3,4)] by blast
  have b: "power_spec ?w (?n 3) (unat (2 :: u32)) (?n 4) 4 (bigint_modexp_u32 (Some ?w) (Some (?n 3)) 2 (Some (?n 4)) (Some []) 4)"
    using modexp_correct [OF ok(2,3,3,4)] by blast
  show ?thesis using a b unfolding power_spec_def v by (simp add: bi_capacity_def split: prod.splits option.splits)
qed

text \<open>
  C13. For every modulus that \<open>bigint_mont_ok\<close> admits, the Montgomery path returns the same code
  and the same array as the path by reduced products, whatever was in the result before.
\<close>

theorem modexp_paths_agree:
  assumes "bigint_mont_ok m" and "bigint_ok m" and "bi_length m \<le> bi_capacity w"
    and "bi_length b \<le> bi_capacity b" and "bi_length e \<le> bi_capacity e"
  shows "bigint_modexp_mont w b e m = modexp_plain w b e m"
proof -
  obtain s where s: "bigint_modexp_mont w b e m = (0, s)" "bigint_ok s" "clean s" "bi_capacity s = bi_capacity w"
    "big_value s = big_value b ^ big_value e mod big_value m" using modexp_mont_correct [OF assms] by blast
  obtain t where t: "modexp_plain w b e m = (0, t)" "bigint_ok t" "clean t" "bi_capacity t = bi_capacity w"
    "big_value t = big_value b ^ big_value e mod big_value m"
    using modexp_plain_correct [OF mont_ok_facts(1) [OF assms(1,2)] assms(2-5)] by blast
  have "s = t" by (rule same_number [OF s(2,3) t(2,3)]) (simp_all add: s t)
  then show ?thesis using s(1) t(1) by simp
qed

theorem modexp_paths_agree_witness:
  "bigint_modexp_mont \<lparr>bi_limbs = [7, 7, 7], bi_length = 0\<rparr> \<lparr>bi_limbs = [3, 9], bi_length = 2\<rparr> \<lparr>bi_limbs = [0, 5], bi_length = 2\<rparr> \<lparr>bi_limbs = [5, 1], bi_length = 2\<rparr> =
    modexp_plain \<lparr>bi_limbs = [7, 7, 7], bi_length = 0\<rparr> \<lparr>bi_limbs = [3, 9], bi_length = 2\<rparr> \<lparr>bi_limbs = [0, 5], bi_length = 2\<rparr> \<lparr>bi_limbs = [5, 1], bi_length = 2\<rparr>"
  by (rule modexp_paths_agree) (simp_all add: bigint_mont_ok_def bigint_ok_def bi_capacity_def)

text \<open>
  C14. Bytes: \<open>bigint_from_be\<close> reads a sequence of bytes as the number it stands for, highest byte
  first, and \<open>bigint_to_be\<close> with the same length writes exactly these bytes and nothing behind them.
\<close>

theorem bytes_roundtrip:
  assumes "0 < length bs" and "(length bs + 3) div 4 \<le> bi_capacity v"
  shows "\<exists>x. bigint_from_be (Some v) (Some bs) (length bs) = (0, Some x) \<and> bigint_ok x \<and> big_value x = be_value bs \<and>
    bigint_to_be (Some x) (Some out) (length bs) = (0, Some (bs @ drop (length bs) out))"
proof -
  obtain x where x: "bigint_from_be (Some v) (Some bs) (length bs) = (0, Some x)" "bigint_ok x" "big_value x = be_value bs"
    "\<And>p. p < length bs \<Longrightarrow> be_byte x p = bs ! (length bs - 1 - p)" using from_be_correct [OF assms] by blast
  have "map (\<lambda>i. be_byte x (length bs - 1 - i)) [0..<length bs] = bs"
  proof (rule nth_equalityI)
    fix i
    assume "i < length (map (\<lambda>i. be_byte x (length bs - 1 - i)) [0..<length bs])"
    then have i: "i < length bs" by simp
    then have "length bs - 1 - (length bs - 1 - i) = i" "length bs - 1 - i < length bs" by linarith+
    then show "map (\<lambda>i. be_byte x (length bs - 1 - i)) [0..<length bs] ! i = bs ! i" using x(4) [of "length bs - 1 - i"] i by simp
  qed simp
  then have "bigint_to_be (Some x) (Some out) (length bs) = (0, Some (bs @ drop (length bs) out))" by (simp only: bigint_to_be_def option.case prod.case)
  then show ?thesis using x(1,2,3) by blast
qed

theorem bytes_roundtrip_witness:
  "\<exists>x. bigint_from_be (Some \<lparr>bi_limbs = [0, 0], bi_length = 0\<rparr>) (Some [1, 2, 3, 4, 5]) 5 = (0, Some x) \<and> big_value x = be_value [1, 2, 3, 4, 5] \<and>
    bigint_to_be (Some x) (Some [0, 0, 0, 0, 0, 9]) 5 = (0, Some [1, 2, 3, 4, 5, 9])"
proof -
  let ?bs = "[1, 2, 3, 4, 5] :: u8 list" and ?v = "\<lparr>bi_limbs = [0, 0], bi_length = 0\<rparr>"
  have l: "length ?bs = 5" "drop 5 [0, 0, 0, 0, 0, 9 :: u8] = [9]" by simp_all
  have "0 < length ?bs" "(length ?bs + 3) div 4 \<le> bi_capacity ?v" by (simp_all add: bi_capacity_def)
  from bytes_roundtrip [OF this, of "[0, 0, 0, 0, 0, 9]"] show ?thesis unfolding l append.simps by blast
qed

end
