(* ===== verification/Spec2Isabelle.thy ===== *)
theory Spec2Isabelle
  imports Task_End Bigint_Mont Dispatch Ipc Ipc_Wait Spill Task_Report Event_Journal Registry_Policy Ata_Flush Device_Service Io_Bitmap
begin

text \<open>
  A verification development for the i386 kernel of Mohhdy: tasks and their supervision, messages,
  the service registry and its journals, the scheduler with the port permissions it sets, the
  ownership of devices by user-mode drivers, the calls that end a task, and the multi-precision
  arithmetic of the cryptographic code.

  \<^bold>\<open>The parts and how they interact.\<close> A task lives in a slot of a static pool and, while it is alive,
  in a circular run queue. It has a mailbox and may sleep until a message arrives or a timeout
  passes; the kernel also sends it notifications, which go to an overflow area when the mailbox is
  full. A parent supervises its children: it is told of their changes, may wait for, suspend, kill
  and delegate them, and reads the history of their exits. Services are published under names in the
  registry; the owner of a name grants capabilities on its backend, and mounts and undelivered events
  are carried over a reboot by two journals. Drivers are user tasks that own a device by holding its
  name: the scheduler opens the ports of exactly these devices for them, the disk driver serves a job
  queue and a slot for file system operations, and a task that waits for it is resumed when the driver
  is lost. When a task ends, all this is withdrawn across the components.

  \<^bold>\<open>Theories and sources\<close> (paths below \<open>src/kernel\<close> unless given in full).
  \<^item> \<open>Kernel_Prelude\<close>: machine types, C strings in arrays, little-endian words, first-fit searches,
    wrapping counters, and the conventions of the model. \<open>Linked_Ring\<close>: circular doubly linked lists.
    \<open>Ring\<close>: circular buffers and the contracts \<open>bounded_fifo\<close> and \<open>evicting_log\<close>.
  \<^item> \<open>Ipc\<close>: \<open>ipc.c\<close>, \<open>ipc.h\<close> and the messages of \<open>src/include/os_syscalls.h\<close>. \<open>Ipc_Wait\<close>: \<open>ipc_wait.c\<close>.
    \<open>Events\<close>: the notification encoders and decoders of \<open>os_syscalls.h\<close>. \<open>Spill\<close>: the overflow area,
    \<open>service_registry_ipc_spill_*\<close> of \<open>service_registry.c\<close>. \<open>Out_Capture\<close>: \<open>out_capture.c\<close>.
  \<^item> \<open>Task\<close>, \<open>Task_Queue\<close>: \<open>task/task.h\<close> and the pool, the run queue, creation and lookups of
    \<open>task/task.c\<close>; the static variables are the fields of \<open>kstate\<close>. \<open>Task_Inv\<close>, \<open>Task_Create\<close>: the
    invariant \<open>kwf\<close>, and that start-up, creation and disposal keep it.
  \<^item> \<open>Supervision\<close>, \<open>Supervision_Log\<close>: wake-ups, supervision events, notification under filter, watch
    list and budget, exit reports. \<open>Task_Control\<close>, \<open>Task_Tree\<close>: waiting, killing, suspending, delegating.
    \<open>Task_Report\<close>: the queries of the second half of \<open>task.c\<close>.
  \<^item> \<open>Scheduler\<close>: the choice of \<open>schedule\<close>, \<open>sched_quantum.h\<close>, the preemption decision of \<open>timer.c\<close>.
    \<open>Io_Bitmap\<close>: \<open>io_bitmap.c\<close> and the TSS part of \<open>gdt.c\<close>. \<open>Dispatch\<close>: \<open>schedule\<close> as a whole, with
    \<open>ata_rpc_sched_hook\<close> and its companions of \<open>syscall/syscall.c\<close>, over the \<open>machine\<close> of all modules.
  \<^item> \<open>Registry\<close>, \<open>Registry_Inv\<close>, \<open>Registry_Owner\<close>, \<open>Backend_Caps\<close>, \<open>Registry_Policy\<close>: names, owners,
    rights and capabilities of \<open>service_registry.c\<close>. \<open>Journal\<close>, \<open>Mount_Journal\<close>, \<open>Event_Journal\<close>: its
    mount table, event history, watch list and journals.
  \<^item> \<open>Nic_Owner\<close>: \<open>net_nic_owner.c\<close>, and the contract \<open>exclusive_owner\<close>. \<open>Ata_Job\<close>, \<open>Ata_Flush\<close>:
    \<open>ata_job.c\<close>. \<open>Ata_Fsop\<close>: \<open>ata_fsop.c\<close>. \<open>Device_Service\<close>: \<open>device_service.c\<close> and the serial output of
    \<open>kernel.c\<close>.
  \<^item> \<open>Task_Calls\<close>: the system calls on tasks and messages of \<open>syscall/syscall.c\<close> and the clock step of
    \<open>timer.c\<close>. \<open>Kernel_Run\<close>: the states they reach. \<open>Task_End\<close>: \<open>SYS_EXIT\<close>, \<open>sys_kill\<close>, the fault of a
    user task, and the clean-up \<open>service_notify_purge_pid\<close> over all components.
  \<^item> \<open>Bigint\<close>: \<open>bigint.c\<close>. \<open>Bigint_Correct\<close>, \<open>Bigint_Mont\<close>: its arithmetic.
\<close>

text \<open>
  \<^bold>\<open>What is shown.\<close>
  \<^item> Tasks: creation, killing and the queries do what they promise on every branch; the pointer
    operations of the run queue are list operations; the supervision tree stays acyclic; identity
    values are shown to the task and its parent only.
  \<^item> Scheduling: the highest priority among the tasks allowed to run is chosen, equal priorities take
    turns, the resumed task finds exactly the ports of its devices open, and a task that waits for a
    lost disk driver is resumed. \<open>port_switch\<close> is the contract of the port switches.
  \<^item> Runs: \<open>reached\<close> is the set of states that the calls, the clock and the scheduler reach. In all of
    them the types hold, the loops over the queue end, and a message wakes the task it is sent to.
  \<^item> Messages: the mailbox and the overflow area are queues, the timer wakes at the tick of the
    timeout, what is encoded is decoded, every captured byte is accounted for.
  \<^item> Registry: a name changes hands only by an act of its owner or its end (contract
    \<open>name_authority\<close>); grants give and revocations take exactly their rights; the end of a task
    withdraws its names and capabilities and those it granted, and no one else's.
  \<^item> Journals: what is written is read back, a damaged byte is refused or harmless, undelivered
    events reach the next subscriber.
  \<^item> Devices: one driver at a time; a flush writes the whole snapshot; an answer is the one the driver
    gave to that request; serial output is complete and in order.
  \<^item> Arithmetic: every routine computes on the values of its operands without overflow of its 64-bit
    intermediate results; the Montgomery path of the modular power returns the same array as the path
    by reduced products; bytes are read and written as the number they stand for.
  \<^item> Defects: long timeouts expire at once, a killed waiter blocks its orphan, a second grant moves the
    rights of the first, a new event erases a carried-over one, and a refused \<open>sys_kill\<close> leaves its
    target without authority. Each is a theorem about the definitions as they are in the code.

  \<^bold>\<open>Bounds and fuel.\<close> Loops over arrays are bounded by their capacity, as in the code. The loops over the
  run queue, unbounded in the code, are recursions on the size of the pool (\<open>queue_slots\<close>, the scan of
  \<open>schedule\<close>); the ring that \<open>kwf\<close> describes has at most as many nodes as the pool, so the bound is
  enough. Written without a bound they are \<open>queue_loop\<close> and \<open>scan_loop\<close>, whose value is \<open>None\<close> when they do
  not end, and they end in every reachable state with the slots in the order of the bounded recursion. The ancestor walk is bounded by the pool size in the code,
  and shown exact because the tree is acyclic. \<open>u32_loop\<close> ends because the exponent is halved.

  \<^bold>\<open>Parameters.\<close> The overlay store, the sectors of the journals, the load of a program, the answers of the
  hardware, the saved continuation and the addresses fixed by the linker are arguments of the definitions.

  \<^bold>\<open>Not modelled.\<close>
  \<^item> Assembly, interrupt entry and hardware set-up (\<open>src/boot\<close>, \<open>idt.c\<close>, \<open>interrupts.c\<close>, most of
    \<open>kernel.c\<close>): the jump of a task switch is an outcome value.
  \<^item> Page tables, frames and heaps (\<open>mem\<close>, \<open>user_heap.c\<close>): a page directory is its index.
  \<^item> File systems, overlay, program loading (\<open>fs\<close>, \<open>src/fs\<close>, \<open>elf.c\<close>): parameters of the components above.
  \<^item> The register protocols of the drivers (\<open>ata.c\<close>, \<open>ne2k.c\<close>, \<open>pci.c\<close>, \<open>keyboard.c\<close>, \<open>vga_console.c\<close>), the
    network stack, TLS and the other cryptography, graphics, the language model, the ARM port, and the
    system calls that only pass arguments to them.
  \<^item> User space (\<open>src/userspace\<close>): programs appear as arbitrary sequences of system calls.
  \<^item> Functions that only copy counters out (\<open>ata_job_fill_status\<close>, \<open>ata_fsop_fill_status\<close>,
    \<open>devsvc_status\<close>).
\<close>

end
